(* ===== verification/Skein_Prelude.thy ===== *)
theory Skein_Prelude
  imports Main "HOL-Library.Char_ord" "HOL-Library.List_Lexorder" "HOL-Library.Multiset"
begin

text \<open>
  Shared vocabulary of the development: the string operations of Go's \<open>strings\<close> package that
  the modelled code calls, the collections of rules the component theories extend, and the
  generic lemmas on lists, maps and folds that several components use.

  A Go \<open>string\<close> is a sequence of bytes, and so is \<open>string\<close> here (a \<open>char\<close> is one byte).
\<close>

named_theorems str_simps "unfolding rules of the modelled string operations"
named_theorems inv_intros "introduction rules of the components' invariants"
named_theorems step_defs "definitions of the handlers of the state machines"

subsection \<open>String operations\<close>

definition hasPrefix :: "string \<Rightarrow> string \<Rightarrow> bool" where
  "hasPrefix s p = (take (length p) s = p)"

definition hasSuffix :: "string \<Rightarrow> string \<Rightarrow> bool" where
  "hasSuffix s p = (length p \<le> length s \<and> drop (length s - length p) s = p)"

definition cutSuffix :: "string \<Rightarrow> string \<Rightarrow> string option" where
  "cutSuffix s p = (if hasSuffix s p then Some (take (length s - length p) s) else None)"

definition cutPrefix :: "string \<Rightarrow> string \<Rightarrow> string option" where
  "cutPrefix s p = (if hasPrefix s p then Some (drop (length p) s) else None)"

text \<open>\<open>strings.LastIndex\<close>: the largest position at which \<open>sub\<close> occurs, \<open>None\<close> for \<open>-1\<close>.\<close>

fun lastIndex :: "string \<Rightarrow> string \<Rightarrow> nat option" where
  "lastIndex [] sub = (if sub = [] then Some 0 else None)"
| "lastIndex (c # cs) sub =
     (case lastIndex cs sub of
        Some i \<Rightarrow> Some (Suc i)
      | None \<Rightarrow> if hasPrefix (c # cs) sub then Some 0 else None)"

definition contains :: "string \<Rightarrow> string \<Rightarrow> bool" where
  "contains s sub = (lastIndex s sub \<noteq> None)"

text \<open>\<open>strings.Split\<close> and \<open>strings.Join\<close> with a one-byte separator.\<close>

fun splitOn :: "char \<Rightarrow> string \<Rightarrow> string list" where
  "splitOn d [] = [[]]"
| "splitOn d (c # cs) =
     (if c = d then [] # splitOn d cs
      else case splitOn d cs of [] \<Rightarrow> [[c]] | w # ws \<Rightarrow> (c # w) # ws)"

fun joinWith :: "char \<Rightarrow> string list \<Rightarrow> string" where
  "joinWith d [] = []"
| "joinWith d [w] = w"
| "joinWith d (w # ws) = w @ d # joinWith d ws"

definition isDigitCh :: "char \<Rightarrow> bool" where
  "isDigitCh c = (CHR ''0'' \<le> c \<and> c \<le> CHR ''9'')"

definition isUpperCh :: "char \<Rightarrow> bool" where
  "isUpperCh c = (CHR ''A'' \<le> c \<and> c \<le> CHR ''Z'')"

definition isLowerCh :: "char \<Rightarrow> bool" where
  "isLowerCh c = (CHR ''a'' \<le> c \<and> c \<le> CHR ''z'')"

definition toLowerCh :: "char \<Rightarrow> char" where
  "toLowerCh c = (if isUpperCh c then char_of (of_char c + 32 :: nat) else c)"

text \<open>\<open>strings.ToLower\<close> on ASCII bytes; bytes outside ASCII are left alone.\<close>

definition toLower :: "string \<Rightarrow> string" where
  "toLower s = map toLowerCh s"

subsection \<open>Lemmas on the string operations\<close>

lemma hasPrefix_append [simp]: "hasPrefix (p @ s) p"
  by (simp add: hasPrefix_def)

lemma hasPrefix_Nil [simp]: "hasPrefix s []"
  by (simp add: hasPrefix_def)

lemma hasPrefix_iff: "hasPrefix s p \<longleftrightarrow> (\<exists>r. s = p @ r)"
  by (auto simp: hasPrefix_def) (metis append_take_drop_id)

lemma hasSuffix_append [simp]: "hasSuffix (s @ p) p"
  by (simp add: hasSuffix_def)

lemma hasSuffix_iff: "hasSuffix s p \<longleftrightarrow> (\<exists>r. s = r @ p)"
  by (auto simp: hasSuffix_def) (metis append_take_drop_id)

lemma cutSuffix_Some_iff: "cutSuffix s p = Some r \<longleftrightarrow> s = r @ p"
proof
  assume "cutSuffix s p = Some r"
  then have h: "hasSuffix s p" and r: "r = take (length s - length p) s"
    by (auto simp: cutSuffix_def split: if_splits)
  from h obtain q where "s = q @ p" by (auto simp: hasSuffix_iff)
  with r show "s = r @ p" by simp
qed (simp add: cutSuffix_def)

lemma cutPrefix_Some_iff: "cutPrefix s p = Some r \<longleftrightarrow> s = p @ r"
  by (auto simp: cutPrefix_def hasPrefix_iff)

lemma lastIndex_SomeD:
  "lastIndex s sub = Some i \<Longrightarrow> i \<le> length s \<and> hasPrefix (drop i s) sub"
  by (induction s arbitrary: i) (auto split: if_splits option.splits)

lemma lastIndex_None_iff: "lastIndex s sub = None \<longleftrightarrow> (\<forall>i \<le> length s. \<not> hasPrefix (drop i s) sub)"
proof (induction s)
  case Nil
  then show ?case by (auto simp: hasPrefix_def)
next
  case (Cons c s)
  have "(\<forall>i \<le> length (c # s). \<not> hasPrefix (drop i (c # s)) sub) \<longleftrightarrow>
        \<not> hasPrefix (c # s) sub \<and> (\<forall>i \<le> length s. \<not> hasPrefix (drop i s) sub)"
    by (auto simp: All_less_Suc2 less_Suc_eq_le [symmetric])
  with Cons show ?case by (auto split: option.splits)
qed

lemma lastIndex_greatest:
  "lastIndex s sub = Some i \<Longrightarrow> j \<le> length s \<Longrightarrow> hasPrefix (drop j s) sub \<Longrightarrow> j \<le> i"
proof (induction s arbitrary: i j)
  case Nil
  then show ?case by (auto split: if_splits)
next
  case (Cons c s)
  show ?case
  proof (cases j)
    case (Suc k)
    then have "hasPrefix (drop k s) sub" and "k \<le> length s"
      using Cons.prems by auto
    moreover from this obtain i' where "lastIndex s sub = Some i'"
      using lastIndex_None_iff by (cases "lastIndex s sub") auto
    ultimately show ?thesis using Cons.IH Cons.prems(1) Suc by auto
  qed simp
qed

lemma lastIndex_eqI:
  assumes "i \<le> length s" and "hasPrefix (drop i s) sub"
    and "\<And>j. i < j \<Longrightarrow> j \<le> length s \<Longrightarrow> \<not> hasPrefix (drop j s) sub"
  shows "lastIndex s sub = Some i"
proof (cases "lastIndex s sub")
  case None
  then show ?thesis using assms(1,2) lastIndex_None_iff by blast
next
  case (Some k)
  then have "i \<le> k" using assms(1,2) by (rule lastIndex_greatest)
  moreover have "\<not> i < k" using assms(3) lastIndex_SomeD [OF Some] by blast
  ultimately show ?thesis using Some by simp
qed

lemma lastIndex_char:
  assumes "d \<notin> set w"
  shows "lastIndex (p @ d # w) [d] = Some (length p)"
proof (rule lastIndex_eqI)
  fix j
  assume j: "length p < j" "j \<le> length (p @ d # w)"
  then have "drop j (p @ d # w) = drop (j - length p - 1) w"
    by (simp add: drop_Cons' )
  with assms show "\<not> hasPrefix (drop j (p @ d # w)) [d]"
    by (auto simp: hasPrefix_iff dest: in_set_dropD [of d])
      (metis in_set_dropD list.set_intros(1))
qed (simp_all add: hasPrefix_def)

lemma lastIndex_split:
  assumes "lastIndex s sub = Some i"
  shows "s = take i s @ sub @ drop (i + length sub) s"
proof -
  from lastIndex_SomeD [OF assms] obtain r where r: "drop i s = sub @ r" by (auto simp: hasPrefix_iff)
  then have "drop (length sub) (drop i s) = r" by simp
  then have "drop (i + length sub) s = r" by (simp add: add.commute)
  with r show ?thesis by (metis append_take_drop_id)
qed

lemma contains_iff: "contains s sub \<longleftrightarrow> (\<exists>a b. s = a @ sub @ b)"
proof
  assume "contains s sub"
  then obtain i where "lastIndex s sub = Some i" by (auto simp: contains_def)
  then have "hasPrefix (drop i s) sub" by (simp add: lastIndex_SomeD)
  then obtain b where "drop i s = sub @ b" by (auto simp: hasPrefix_iff)
  then show "\<exists>a b. s = a @ sub @ b" by (metis append_take_drop_id)
next
  assume "\<exists>a b. s = a @ sub @ b"
  then obtain a b where "s = a @ sub @ b" by blast
  then have "hasPrefix (drop (length a) s) sub" and "length a \<le> length s" by simp_all
  then show "contains s sub" using lastIndex_None_iff by (auto simp: contains_def)
qed

lemma splitOn_nonempty [simp]: "splitOn d s \<noteq> []"
  by (induction s) (auto split: list.splits)

lemma joinWith_Cons: "ws \<noteq> [] \<Longrightarrow> joinWith d (w # ws) = w @ d # joinWith d ws"
  by (cases ws) simp_all

lemma joinWith_splitOn [simp]: "joinWith d (splitOn d s) = s"
proof (induction s)
  case (Cons c s)
  then show ?case
    by (cases "splitOn d s"; cases "tl (splitOn d s)") (auto simp: joinWith_Cons)
qed simp

lemma splitOn_no_sep: "w \<in> set (splitOn d s) \<Longrightarrow> d \<notin> set w"
  by (induction s arbitrary: w) (auto split: list.splits if_splits)

lemma splitOn_append_sep: "d \<notin> set w \<Longrightarrow> splitOn d (w @ d # s) = w # splitOn d s"
  by (induction w) auto

lemma splitOn_single: "d \<notin> set w \<Longrightarrow> splitOn d w = [w]"
  by (induction w) auto

lemma splitOn_joinWith:
  "ws \<noteq> [] \<Longrightarrow> \<forall>w \<in> set ws. d \<notin> set w \<Longrightarrow> splitOn d (joinWith d ws) = ws"
proof (induction ws)
  case (Cons w ws)
  then show ?case
    by (cases ws) (auto simp: splitOn_single splitOn_append_sep)
qed simp

subsection \<open>Lemmas on lists and folds\<close>

lemma foldl_inv:
  assumes "P s" and "\<And>s x. P s \<Longrightarrow> x \<in> set xs \<Longrightarrow> P (f s x)"
  shows "P (foldl f s xs)"
  using assms by (induction xs arbitrary: s) auto

lemma sum_list_filter_split:
  "sum_list (map f xs) = sum_list (map f (filter P xs)) + sum_list (map f (filter (\<lambda>x. \<not> P x) xs))"
  for f :: "'a \<Rightarrow> int"
  by (induction xs) auto

lemma sum_list_remove1:
  "x \<in> set xs \<Longrightarrow> sum_list (map f (remove1 x xs)) = sum_list (map f xs) - f x"
  for f :: "'a \<Rightarrow> int"
  by (induction xs) auto

end
