(* ===== verification/Containers.thy ===== *)
theory Containers
  imports Skein_Prelude
begin

text \<open>
  The three small containers the server is built on: the fixed-size ring of
  \<open>internal/ring/buffer.go\<close> (metrics and performance samples), the size-bounded FIFO cache of
  \<open>internal/cache/cache.go\<close> (captured request bodies) and the middleware chain of
  \<open>internal/chain/chain.go\<close>. Each is stated against the sequence it stands for.
\<close>

section \<open>The ring buffer\<close>

record 'a ring =
  rbuf :: "'a list"
  rhead :: nat
  rsize :: nat

text \<open>\<open>NewBuffer\<close>: the slice is allocated at its capacity and holds Go's zero value \<open>z\<close>.\<close>

definition newBuffer :: "'a \<Rightarrow> int \<Rightarrow> 'a ring" where
  "newBuffer z capacity =
     (let capacity = (if capacity < 1 then 1 else capacity)
      in \<lparr>rbuf = replicate (nat capacity) z, rhead = 0, rsize = 0\<rparr>)"

definition ringPush :: "'a \<Rightarrow> 'a ring \<Rightarrow> 'a ring" where
  "ringPush v r =
     (let cap = length (rbuf r)
      in if rsize r < cap
         then r\<lparr>rbuf := (rbuf r)[(rhead r + rsize r) mod cap := v], rsize := rsize r + 1\<rparr>
         else r\<lparr>rbuf := (rbuf r)[rhead r := v], rhead := (rhead r + 1) mod cap\<rparr>)"

definition ringLen :: "'a ring \<Rightarrow> nat" where
  "ringLen r = rsize r"

definition ringSlice :: "'a ring \<Rightarrow> 'a list" where
  "ringSlice r =
     (if rsize r = 0 then []
      else map (\<lambda>i. rbuf r ! ((rhead r + i) mod length (rbuf r))) [0..<rsize r])"

definition ring_inv :: "'a ring \<Rightarrow> bool" where
  "ring_inv r \<longleftrightarrow> 0 < length (rbuf r) \<and> rhead r < length (rbuf r) \<and> rsize r \<le> length (rbuf r)
     \<and> (rsize r < length (rbuf r) \<longrightarrow> rhead r = 0)"

text \<open>The last \<open>n\<close> elements of a list: what a bounded log keeps of a history.\<close>

definition lastn :: "nat \<Rightarrow> 'a list \<Rightarrow> 'a list" where
  "lastn n xs = drop (length xs - n) xs"

lemma lastn_all [simp]: "length xs \<le> n \<Longrightarrow> lastn n xs = xs"
  by (simp add: lastn_def)

lemma length_lastn [simp]: "length (lastn n xs) = min n (length xs)"
  by (simp add: lastn_def)

lemma lastn_lastn_snoc: "lastn n (lastn n xs @ [x]) = lastn n (xs @ [x])"
  by (cases "length xs < n") (auto simp: lastn_def Suc_diff_le not_less)

text \<open>
  The contract of a bounded log: \<open>push\<close> appends and forgets the oldest entries beyond the
  capacity. Everything a client needs about a run of pushes follows from one push.
\<close>

locale bounded_log =
  fixes push :: "'a \<Rightarrow> 'l \<Rightarrow> 'l"
    and entries :: "'l \<Rightarrow> 'a list"
    and capacity :: "'l \<Rightarrow> nat"
    and ok :: "'l \<Rightarrow> bool"
  assumes ok_push: "ok l \<Longrightarrow> ok (push x l)"
    and capacity_push: "ok l \<Longrightarrow> capacity (push x l) = capacity l"
    and entries_push: "ok l \<Longrightarrow> entries (push x l) = lastn (capacity l) (entries l @ [x])"
    and entries_bounded: "ok l \<Longrightarrow> length (entries l) \<le> capacity l"
begin

lemma run_ok: "ok l \<Longrightarrow> ok (fold push xs l) \<and> capacity (fold push xs l) = capacity l"
  by (induction xs arbitrary: l) (auto simp: ok_push capacity_push)

lemma run_entries: "ok l \<Longrightarrow> entries (fold push xs l) = lastn (capacity l) (entries l @ xs)"
proof (induction xs rule: rev_induct)
  case Nil
  then show ?case by (simp add: entries_bounded)
next
  case (snoc x xs)
  then show ?case
    using lastn_lastn_snoc [of "capacity l" "entries l @ xs" x] run_ok [of l xs]
    by (simp add: entries_push)
qed

end

lemma ring_inv_new [simp, inv_intros]: "ring_inv (newBuffer z n)"
  by (auto simp: ring_inv_def newBuffer_def Let_def)

lemma ring_inv_push [inv_intros]: "ring_inv r \<Longrightarrow> ring_inv (ringPush v r)"
  by (auto simp: ring_inv_def ringPush_def Let_def)

lemma ring_capacity_push [simp]: "length (rbuf (ringPush v r)) = length (rbuf r)"
  by (simp add: ringPush_def Let_def)

lemma length_ringSlice [simp]: "length (ringSlice r) = rsize r"
  by (simp add: ringSlice_def)

lemma ringSlice_nth: "i < rsize r \<Longrightarrow> ringSlice r ! i = rbuf r ! ((rhead r + i) mod length (rbuf r))"
  by (simp add: ringSlice_def)

lemma mod_wrap: "h < n \<Longrightarrow> i \<le> n \<Longrightarrow> (h + i) mod n = (if h + i < n then h + i else h + i - n)" for n :: nat
  by (auto simp: mod_if)

lemma ring_entries_push:
  assumes inv: "ring_inv r"
  shows "ringSlice (ringPush v r) = lastn (length (rbuf r)) (ringSlice r @ [v])"
proof (cases "rsize r < length (rbuf r)")
  case True
  with inv have h: "rhead r = 0" by (simp add: ring_inv_def)
  have "ringSlice (ringPush v r) = ringSlice r @ [v]"
    by (rule nth_equalityI)
      (use True h in \<open>auto simp: ringPush_def Let_def ringSlice_nth nth_append less_Suc_eq\<close>)
  with True show ?thesis by simp
next
  case False
  let ?n = "length (rbuf r)"
  from False inv have n: "rsize r = ?n" "rhead r < ?n" by (auto simp: ring_inv_def)
  have "ringSlice (ringPush v r) = tl (ringSlice r) @ [v]"
  proof (rule nth_equalityI)
    show "length (ringSlice (ringPush v r)) = length (tl (ringSlice r) @ [v])"
      using n by (simp add: ringPush_def Let_def)
  next
    fix i
    assume "i < length (ringSlice (ringPush v r))"
    then have i: "i < ?n" using False n by (simp add: ringPush_def Let_def)
    have w: "((rhead r + 1) mod ?n + i) mod ?n = (rhead r + Suc i) mod ?n"
      by (simp add: mod_add_left_eq)
    show "ringSlice (ringPush v r) ! i = (tl (ringSlice r) @ [v]) ! i"
    proof (cases "Suc i < ?n")
      case True
      then have "(rhead r + Suc i) mod ?n \<noteq> rhead r"
        using n mod_wrap [of "rhead r" ?n "Suc i"] by (auto split: if_splits)
      moreover have "i < ?n - 1" using True by simp
      ultimately show ?thesis using True i n w
        by (simp add: ringPush_def Let_def ringSlice_nth nth_append nth_tl)
    next
      case False
      then have "Suc i = ?n" using i by simp
      then have "(rhead r + Suc i) mod ?n = rhead r" using n by simp
      moreover have "\<not> i < ?n - 1" using False by simp
      ultimately show ?thesis using i n w
        by (simp add: ringPush_def Let_def ringSlice_nth nth_append)
    qed
  qed
  also have "\<dots> = lastn ?n (ringSlice r @ [v])"
    using n by (cases "ringSlice r") (auto simp: lastn_def dest: arg_cong [of _ _ length])
  finally show ?thesis .
qed

interpretation ring: bounded_log ringPush ringSlice "\<lambda>r. length (rbuf r)" ring_inv
proof
  show "ring_inv l \<Longrightarrow> length (ringSlice l) \<le> length (rbuf l)" for l :: "'a ring"
    by (simp add: ring_inv_def)
qed (simp_all add: ring_inv_push ring_entries_push)

text \<open>
  After any run of pushes into a fresh buffer, \<open>Slice\<close> returns the last \<open>capacity\<close>
  pushed values in the order they were pushed, a capacity below one counting as one.
\<close>

theorem ring_keeps_newest:
  "ringSlice (fold ringPush xs (newBuffer z n)) = lastn (nat (max 1 n)) xs"
proof -
  have "length (rbuf (newBuffer z n)) = nat (max 1 n)" and "ringSlice (newBuffer z n) = []"
    by (auto simp: newBuffer_def Let_def ringSlice_def)
  then show ?thesis using ring.run_entries [OF ring_inv_new, of xs z n] by simp
qed

section \<open>The FIFO cache\<close>

datatype cache_error = ErrExceedsMaxSize | ErrItemNotFound

record 'b cache =
  items :: "int \<rightharpoonup> 'b list"
  corder :: "int list"
  csize :: int
  maxSize :: int

definition newCache :: "int \<Rightarrow> 'b cache" where
  "newCache maxBytes = \<lparr>items = Map.empty, corder = [], csize = 0, maxSize = maxBytes\<rparr>"

definition removeOrder :: "int \<Rightarrow> 'b cache \<Rightarrow> 'b cache" where
  "removeOrder k c = c\<lparr>corder := remove1 k (corder c)\<rparr>"

text \<open>One turn of the eviction loop's body: drop the head of \<open>order\<close>.\<close>

definition evictOldest :: "'b cache \<Rightarrow> 'b cache" where
  "evictOldest c =
     (case corder c of
        [] \<Rightarrow> c
      | oldest # rest \<Rightarrow>
          (case items c oldest of
             None \<Rightarrow> c\<lparr>corder := rest\<rparr>
           | Some ev \<Rightarrow> c\<lparr>corder := rest, csize := csize c - int (length ev),
                          items := (items c)(oldest := None)\<rparr>))"

function evictUntil :: "int \<Rightarrow> 'b cache \<Rightarrow> 'b cache" where
  "evictUntil n c =
     (if csize c + n > maxSize c \<and> corder c \<noteq> [] then evictUntil n (evictOldest c) else c)"
  by pat_completeness auto
termination
  by (relation "measure (\<lambda>(n, c). length (corder c))")
    (auto simp: evictOldest_def split: list.splits option.splits)

declare evictUntil.simps [simp del]

definition cacheAdd :: "int \<Rightarrow> 'b list \<Rightarrow> 'b cache \<Rightarrow> cache_error + 'b cache" where
  "cacheAdd k data c =
     (let dataSize = int (length data) in
      if dataSize > maxSize c then Inl ErrExceedsMaxSize
      else
        (let c1 = (case items c k of
                     Some old \<Rightarrow> removeOrder k (c\<lparr>csize := csize c - int (length old)\<rparr>)
                   | None \<Rightarrow> c);
             c2 = evictUntil dataSize c1
         in Inr (c2\<lparr>items := (items c2)(k \<mapsto> data), corder := corder c2 @ [k],
                    csize := csize c2 + dataSize\<rparr>)))"

definition cacheGet :: "int \<Rightarrow> 'b cache \<Rightarrow> cache_error + 'b list" where
  "cacheGet k c = (case items c k of None \<Rightarrow> Inl ErrItemNotFound | Some d \<Rightarrow> Inr d)"

definition cacheHas :: "int \<Rightarrow> 'b cache \<Rightarrow> bool" where
  "cacheHas k c = (items c k \<noteq> None)"

definition cacheClear :: "'b cache \<Rightarrow> 'b cache" where
  "cacheClear c = c\<lparr>items := Map.empty, corder := [], csize := 0\<rparr>"

definition cost_of :: "'b cache \<Rightarrow> int list \<Rightarrow> int" where
  "cost_of c ks = sum_list (map (\<lambda>k. int (length (the (items c k)))) ks)"

definition cache_inv :: "'b cache \<Rightarrow> bool" where
  "cache_inv c \<longleftrightarrow> distinct (corder c) \<and> set (corder c) = dom (items c)
     \<and> csize c = cost_of c (corder c) \<and> csize c \<le> max 0 (maxSize c)"

lemma cost_of_simps [simp]:
  "cost_of c [] = 0"
  "cost_of c (k # ks) = int (length (the (items c k))) + cost_of c ks"
  "cost_of c (ks @ ls) = cost_of c ks + cost_of c ls"
  by (simp_all add: cost_of_def)

lemma cost_of_nonneg [simp]: "0 \<le> cost_of c ks"
  by (induction ks) simp_all

lemma cost_of_cong: "\<forall>k \<in> set ks. items c k = items d k \<Longrightarrow> cost_of c ks = cost_of d ks"
  by (simp add: cost_of_def cong: map_cong)

lemma cache_inv_new [simp, inv_intros]: "cache_inv (newCache n)"
  by (simp add: cache_inv_def newCache_def)

lemma cache_inv_clear [inv_intros]: "cache_inv (cacheClear c)"
  by (simp add: cache_inv_def cacheClear_def)

text \<open>
  The shape the eviction loop relies on. While \<open>Add\<close> replaces an entry, the replaced key is
  still in \<open>items\<close> but no longer in \<open>order\<close>, so only one inclusion holds.
\<close>

definition cache_shape :: "'b cache \<Rightarrow> bool" where
  "cache_shape c \<longleftrightarrow> distinct (corder c) \<and> set (corder c) \<subseteq> dom (items c) \<and> csize c = cost_of c (corder c)"

definition forget :: "int list \<Rightarrow> (int \<rightharpoonup> 'b list) \<Rightarrow> (int \<rightharpoonup> 'b list)" where
  "forget ks m = (\<lambda>k. if k \<in> set ks then None else m k)"

lemma cost_of_update: "k \<notin> set ks \<Longrightarrow> cost_of (c\<lparr>items := (items c)(k := v)\<rparr>) ks = cost_of c ks"
  by (rule cost_of_cong) auto

lemma evictOldest_Cons:
  assumes "cache_shape c" and "corder c = k # ks"
  shows "evictOldest c = c\<lparr>corder := ks, csize := cost_of c ks, items := (items c)(k := None)\<rparr>"
    and "cache_shape (evictOldest c)"
proof -
  from assms obtain d where d: "items c k = Some d"
    by (auto simp: cache_shape_def)
  with assms show e: "evictOldest c = c\<lparr>corder := ks, csize := cost_of c ks, items := (items c)(k := None)\<rparr>"
    by (simp add: evictOldest_def cache_shape_def)
  have "k \<notin> set ks" using assms by (simp add: cache_shape_def)
  then have "cost_of (c\<lparr>corder := ks, csize := cost_of c ks, items := (items c)(k := None)\<rparr>) ks = cost_of c ks"
    by (intro cost_of_cong) auto
  with assms \<open>k \<notin> set ks\<close> show "cache_shape (evictOldest c)"
    unfolding e by (auto simp: cache_shape_def)
qed

definition evict_result :: "int \<Rightarrow> 'b cache \<Rightarrow> int list \<Rightarrow> 'b cache \<Rightarrow> bool" where
  "evict_result n c dropped r \<longleftrightarrow>
     corder c = dropped @ corder r \<and> items r = forget dropped (items c)
     \<and> csize r = cost_of c (corder r) \<and> maxSize r = maxSize c
     \<and> (csize r + n \<le> maxSize c \<or> corder r = [])
     \<and> (dropped \<noteq> [] \<longrightarrow> maxSize c < cost_of c [last dropped] + csize r + n)"

lemma evictUntil_spec:
  "cache_shape c \<Longrightarrow> \<exists>dropped. evict_result n c dropped (evictUntil n c)"
proof (induction n c rule: evictUntil.induct)
  case (1 n c)
  show ?case
  proof (cases "csize c + n > maxSize c \<and> corder c \<noteq> []")
    case False
    with "1.prems" have "evict_result n c [] c"
      by (auto simp: evict_result_def forget_def cache_shape_def)
    with False show ?thesis by (auto simp: evictUntil.simps [of n c])
  next
    case True
    then obtain k ks where ks: "corder c = k # ks" by (cases "corder c") auto
    note ev = evictOldest_Cons [OF "1.prems" ks]
    have r: "evictUntil n c = evictUntil n (evictOldest c)" using True by (subst evictUntil.simps) simp
    from "1.IH" [OF True ev(2)] obtain dr where "evict_result n (evictOldest c) dr (evictUntil n c)"
      unfolding r by blast
    then have IH: "ks = dr @ corder (evictUntil n c)" "maxSize (evictUntil n c) = maxSize c"
      "items (evictUntil n c) = forget dr ((items c)(k := None))"
      "csize (evictUntil n c) = cost_of (evictOldest c) (corder (evictUntil n c))"
      "csize (evictUntil n c) + n \<le> maxSize c \<or> corder (evictUntil n c) = []"
      "dr \<noteq> [] \<Longrightarrow> maxSize c < cost_of (evictOldest c) [last dr] + csize (evictUntil n c) + n"
      by (auto simp: ev(1) evict_result_def)
    have k: "k \<notin> set ks" using "1.prems" ks by (simp add: cache_shape_def)
    have c1: "cost_of (evictOldest c) js = cost_of c js" if "set js \<subseteq> set ks" for js
      using that k by (intro cost_of_cong) (auto simp: ev(1))
    have c2: "csize (evictUntil n c) = cost_of c (corder (evictUntil n c))"
      using IH(4) c1 [of "corder (evictUntil n c)"] IH(1) by (metis Un_upper2 set_append)
    have c3: "dr \<noteq> [] \<Longrightarrow> cost_of (evictOldest c) [last dr] = cost_of c [last dr]"
      using IH(1) by (intro c1) (metis Un_iff empty_iff empty_set insert_iff last_in_set
          list.simps(15) set_append subsetI)
    have c4: "maxSize c < cost_of c [last (k # dr)] + csize (evictUntil n c) + n"
    proof (cases "dr = []")
      case True': True
      have "csize c = cost_of c [k] + csize (evictUntil n c)"
        using "1.prems" ks IH(1) c2 True' by (simp add: cache_shape_def)
      with True True' show ?thesis by simp
    qed (use IH(6) c3 in simp)
    have "forget dr ((items c)(k := None)) = forget (k # dr) (items c)"
      by (auto simp: forget_def)
    with IH ks c2 c4 have "evict_result n c (k # dr) (evictUntil n c)"
      by (simp add: evict_result_def)
    then show ?thesis ..
  qed
qed

lemma cache_shape_remove:
  assumes "cache_inv c" and "items c k = Some old"
  shows "cache_shape (removeOrder k (c\<lparr>csize := csize c - int (length old)\<rparr>))"
proof -
  from assms have "k \<in> set (corder c)" by (auto simp: cache_inv_def)
  then have "cost_of c (remove1 k (corder c)) = csize c - int (length old)"
    using assms by (simp add: cache_inv_def cost_of_def sum_list_remove1)
  then show ?thesis
    using assms by (auto simp: cache_shape_def cache_inv_def removeOrder_def cost_of_def dest: notin_set_remove1)
qed

definition add_result :: "int \<Rightarrow> 'b list \<Rightarrow> 'b cache \<Rightarrow> 'b cache \<Rightarrow> int list \<Rightarrow> int list \<Rightarrow> bool" where
  "add_result k d c c' dropped kept \<longleftrightarrow>
     remove1 k (corder c) = dropped @ kept \<and> corder c' = kept @ [k]
     \<and> items c' = (forget dropped (items c))(k \<mapsto> d)
     \<and> csize c' = cost_of c kept + int (length d) \<and> csize c' \<le> maxSize c \<and> maxSize c' = maxSize c
     \<and> (dropped \<noteq> [] \<longrightarrow> maxSize c < cost_of c [last dropped] + csize c')"

lemma cacheAdd_result:
  assumes inv: "cache_inv c" and add: "cacheAdd k d c = Inr c'"
  shows "\<exists>dropped kept. add_result k d c c' dropped kept"
proof -
  define c1 where "c1 = (case items c k of
      Some old \<Rightarrow> removeOrder k (c\<lparr>csize := csize c - int (length old)\<rparr>) | None \<Rightarrow> c)"
  define r where "r = evictUntil (int (length d)) c1"
  from add have le: "int (length d) \<le> maxSize c"
    and c': "c' = r\<lparr>items := (items r)(k \<mapsto> d), corder := corder r @ [k], csize := csize r + int (length d)\<rparr>"
    by (auto simp: cacheAdd_def Let_def c1_def r_def split: if_splits)
  have c1: "cache_shape c1" "items c1 = items c" "maxSize c1 = maxSize c"
    using inv cache_shape_remove [OF inv]
    by (auto simp: c1_def cache_inv_def cache_shape_def removeOrder_def split: option.splits)
  have order1: "corder c1 = remove1 k (corder c)"
  proof (cases "items c k")
    case None
    then have "k \<notin> set (corder c)" using inv by (auto simp: cache_inv_def)
    with None show ?thesis by (simp add: c1_def remove1_idem)
  qed (simp add: c1_def removeOrder_def)
  have cost1: "cost_of c1 = cost_of c" using c1(2) by (auto simp: cost_of_def)
  from evictUntil_spec [OF c1(1), of "int (length d)"] obtain dropped where
    ev: "evict_result (int (length d)) c1 dropped r" by (auto simp: r_def)
  moreover have "csize r + int (length d) \<le> maxSize c"
    using ev le c1(3) by (auto simp: evict_result_def)
  ultimately have "add_result k d c c' dropped (corder r)"
    using c1 order1 cost1 by (auto simp: add_result_def evict_result_def c')
  then show ?thesis by blast
qed

lemma add_result_inv:
  assumes "cache_inv c" and "add_result k d c c' dropped kept"
  shows "cache_inv c'"
proof -
  from assms have o: "distinct (corder c)" "set (corder c) = dom (items c)"
    and rm: "remove1 k (corder c) = dropped @ kept"
    by (simp_all add: cache_inv_def add_result_def)
  have dist: "distinct (dropped @ kept)"
    using o(1) unfolding rm [symmetric] by (rule distinct_remove1)
  have sets: "set dropped \<union> set kept = dom (items c) - {k}"
    using set_remove1_eq [OF o(1), of k] unfolding rm o(2) by simp
  then have k: "k \<notin> set dropped" "k \<notin> set kept" by auto
  have "cost_of c' (kept @ [k]) = cost_of c kept + int (length d)"
  proof -
    have "cost_of c' kept = cost_of c kept"
      using assms(2) dist k by (intro cost_of_cong) (auto simp: add_result_def forget_def)
    then show ?thesis using assms(2) by (simp add: add_result_def)
  qed
  moreover have "dom (items c') = insert k (set kept)"
  proof -
    have "items c' = (forget dropped (items c))(k \<mapsto> d)"
      using assms(2) by (simp add: add_result_def)
    moreover have "dom (forget dropped (items c)) = dom (items c) - set dropped"
      by (auto simp: forget_def dom_def)
    ultimately show ?thesis using sets dist by auto
  qed
  ultimately show ?thesis
    using assms(2) dist k by (auto simp: cache_inv_def add_result_def)
qed

text \<open>
  \<open>Add\<close> rejects exactly the items larger than the whole cache. Otherwise it forgets
  a (possibly empty) oldest part of the other entries and keeps the rest in insertion order with
  the new entry last, never exceeds \<open>maxSize\<close>, forgets nothing it could have kept (putting
  the youngest forgotten entry back would overflow), and preserves the cache's invariant.
\<close>

theorem cache_add_fifo:
  assumes "cache_inv c"
  shows "case cacheAdd k d c of
      Inl e \<Rightarrow> e = ErrExceedsMaxSize \<and> maxSize c < int (length d)
    | Inr c' \<Rightarrow> cache_inv c' \<and> csize c' \<le> maxSize c \<and> cacheGet k c' = Inr d
        \<and> (\<exists>dropped kept. add_result k d c c' dropped kept)"
proof (cases "cacheAdd k d c")
  case (Inl e)
  then show ?thesis by (auto simp: cacheAdd_def Let_def split: if_splits)
next
  case (Inr c')
  with cacheAdd_result [OF assms] obtain dr kp where r: "add_result k d c c' dr kp" by blast
  then have "cacheGet k c' = Inr d" and "csize c' \<le> maxSize c"
    by (simp_all add: add_result_def cacheGet_def)
  with r Inr add_result_inv [OF assms r] show ?thesis by auto
qed

theorem cache_add_fifo_witness:
  "cache_inv (newCache 3 :: nat cache) \<and>
   (case cacheAdd 7 [1, 2, 3] (newCache 3 :: nat cache) of
      Inl e \<Rightarrow> False | Inr c' \<Rightarrow> cacheGet 7 c' = Inr [1, 2, 3])"
proof -
  have i: "cache_inv (newCache 3 :: nat cache)" by simp
  from i cache_add_fifo [OF i, where k = 7 and d = "[1, 2, 3]"] show ?thesis
    by (cases "cacheAdd 7 [1, 2, 3] (newCache 3 :: nat cache)") (simp_all add: newCache_def)
qed

section \<open>The middleware chain\<close>

text \<open>A handler is any type; a middleware maps a handler to a handler.\<close>

record 'h chain =
  mws :: "('h \<Rightarrow> 'h) list"

definition chainNew :: "('h \<Rightarrow> 'h) list \<Rightarrow> 'h chain" where
  "chainNew ms = \<lparr>mws = ms\<rparr>"

definition chainAppend :: "'h chain \<Rightarrow> ('h \<Rightarrow> 'h) list \<Rightarrow> 'h chain" where
  "chainAppend c ms = \<lparr>mws = mws c @ ms\<rparr>"

text \<open>The loop of \<open>Then\<close> runs from the last index down to the first.\<close>

definition chainThen :: "'h chain \<Rightarrow> 'h \<Rightarrow> 'h" where
  "chainThen c final = foldl (\<lambda>h i. (mws c ! i) h) final (rev [0..<length (mws c)])"

lemma chainThen_foldr: "chainThen c final = foldr (\<lambda>m h. m h) (mws c) final"
proof -
  have "foldl (\<lambda>h i. (ms ! i) h) final (rev [0..<length ms]) = foldr (\<lambda>m h. m h) ms final"
    for ms :: "('h \<Rightarrow> 'h) list" and final
  proof (induction ms arbitrary: final rule: rev_induct)
    case (snoc m ms)
    have "foldl (\<lambda>h i. ((ms @ [m]) ! i) h) (m final) (rev [0..<length ms])
        = foldl (\<lambda>h i. (ms ! i) h) (m final) (rev [0..<length ms])"
      by (rule foldl_cong) (auto simp: nth_append)
    with snoc show ?case by simp
  qed simp
  then show ?thesis by (simp add: chainThen_def)
qed

lemma chainThen_append: "chainThen (chainAppend c ms) final = chainThen c (chainThen (chainNew ms) final)"
  by (simp add: chainThen_foldr chainAppend_def chainNew_def)

lemma chainThen_empty: "chainThen (chainNew []) final = final"
  by (simp add: chainThen_foldr chainNew_def)

end
