(* ===== verification/Op_Lifecycle.thy ===== *)
theory Op_Lifecycle
  imports Skein_Prelude "HOL-Library.Word"
begin

text \<open>
  The model-install operation of \<open>internal/operation\<close>: the record, its phases and the
  transition rules (\<open>operation.go\<close>, \<open>transitions.go\<close>), the byte counters at their 64-bit
  width and the disk preflight (\<open>diskspace.go\<close>).

  Times are nanoseconds (\<open>int\<close>). A phase read back from disk may be any string, so the phase type
  has a constructor for the unknown ones.
\<close>

type_synonym i64 = "64 word"
type_synonym u64 = "64 word"

section \<open>Data\<close>

datatype phase =
    PhaseQueued | PhasePreflighting | PhaseResolving | PhaseDownloading | PhaseVerifying
  | PhaseInstalling | PhaseRegistering | PhaseReloading
  | PhaseSucceeded | PhaseCancelled | PhaseFailed
  | PhaseUnknown string

datatype error_code =
    ErrorInvalidPlan | ErrorUntrustedSource | ErrorDiskInsufficient | ErrorRangeUnsupported
  | ErrorDigestMismatch | ErrorShardIncomplete | ErrorReloadFailed | ErrorCancelled | ErrorInternal

record op_error =
  code :: error_code
  message :: string

datatype artifact_role =
    RoleWeights | RoleProjector | RoleDraft | RoleTokenizer | RoleConfig | RoleOther

record artifact_progress =
  ap_path :: string
  ap_bytesDownloaded :: i64
  ap_bytesTotal :: "i64 option"
  ap_role :: artifact_role
  ap_digest :: "string option"

record registration =
  reg_modelID :: string
  reg_displayName :: "string option"
  reg_backend :: string
  reg_flags :: "string list"
  reg_ttl :: "int option"

record artifact =
  art_path :: string
  art_sizeBytes :: i64
  art_digest :: "string option"
  art_role :: artifact_role

record op_plan =
  pl_sourceRepository :: string
  pl_sourceRevision :: string
  pl_artifacts :: "artifact list"
  pl_registration :: registration

record operation =
  op_id :: string
  op_phase :: phase
  op_sourceRepository :: string
  op_sourceRevision :: string
  op_modelID :: string
  op_artifacts :: "artifact_progress list"
  op_registration :: registration
  op_createdAt :: int
  op_updatedAt :: int
  op_error :: "op_error option"
  op_warnings :: "string list"

text \<open>Go's zero value of \<open>Registration\<close>, which \<open>New\<close> leaves in place.\<close>

definition zeroRegistration :: registration where
  "zeroRegistration = \<lparr>reg_modelID = [], reg_displayName = None, reg_backend = [],
     reg_flags = [], reg_ttl = None\<rparr>"

text \<open>\<open>uuid\<close> is the string the third-party generator returned; the code keeps its first 12 bytes.\<close>

definition newOp :: "string \<Rightarrow> string \<Rightarrow> string \<Rightarrow> string \<Rightarrow> artifact_progress list \<Rightarrow> int \<Rightarrow> operation" where
  "newOp uuid sourceRepository sourceRevision modelID artifacts now =
     \<lparr>op_id = ''op_'' @ take 12 uuid, op_phase = PhaseQueued,
      op_sourceRepository = sourceRepository, op_sourceRevision = sourceRevision,
      op_modelID = modelID, op_artifacts = artifacts, op_registration = zeroRegistration,
      op_createdAt = now, op_updatedAt = now, op_error = None, op_warnings = []\<rparr>"

definition newFromPlan :: "string \<Rightarrow> op_plan \<Rightarrow> int \<Rightarrow> operation" where
  "newFromPlan uuid plan now =
     (let artifacts = map (\<lambda>a. \<lparr>ap_path = art_path a, ap_bytesDownloaded = 0,
                                ap_bytesTotal = Some (art_sizeBytes a), ap_role = art_role a,
                                ap_digest = art_digest a\<rparr>) (pl_artifacts plan)
      in (newOp uuid (pl_sourceRepository plan) (pl_sourceRevision plan)
            (reg_modelID (pl_registration plan)) artifacts now)
           \<lparr>op_registration := pl_registration plan\<rparr>)"

section \<open>Phases and transitions\<close>

fun terminal :: "phase \<Rightarrow> bool" where
  "terminal p = (p = PhaseSucceeded \<or> p = PhaseCancelled \<or> p = PhaseFailed)"

definition happyPath :: "phase list" where
  "happyPath = [PhaseQueued, PhasePreflighting, PhaseResolving, PhaseDownloading, PhaseVerifying,
     PhaseInstalling, PhaseRegistering, PhaseReloading, PhaseSucceeded]"

definition happyPathIndex :: "phase \<Rightarrow> nat option" where
  "happyPathIndex = map_of (zip happyPath [0..<length happyPath])"

definition phaseValid :: "phase \<Rightarrow> bool" where
  "phaseValid p = (happyPathIndex p \<noteq> None \<or> p = PhaseCancelled \<or> p = PhaseFailed)"

definition canTransition :: "phase \<Rightarrow> phase \<Rightarrow> bool" where
  "canTransition src dst =
     (if terminal src then False
      else if dst = PhaseCancelled \<or> dst = PhaseFailed then True
      else case (happyPathIndex src, happyPathIndex dst) of
             (Some i, Some j) \<Rightarrow> j = i + 1
           | _ \<Rightarrow> False)"

datatype transition_error = ErrInvalidTransition phase phase string

definition transitionTo :: "phase \<Rightarrow> int \<Rightarrow> operation \<Rightarrow> transition_error + operation" where
  "transitionTo dst now op =
     (if \<not> canTransition (op_phase op) dst
      then Inl (ErrInvalidTransition (op_phase op) dst (op_id op))
      else Inr (op\<lparr>op_phase := dst, op_updatedAt := now\<rparr>))"

definition failOp :: "error_code \<Rightarrow> string \<Rightarrow> int \<Rightarrow> operation \<Rightarrow> transition_error + operation" where
  "failOp c msg now op =
     (case transitionTo PhaseFailed now op of
        Inl e \<Rightarrow> Inl e
      | Inr op' \<Rightarrow> Inr (op'\<lparr>op_error := Some \<lparr>code = c, message = msg\<rparr>\<rparr>))"

definition cancelOp :: "int \<Rightarrow> operation \<Rightarrow> transition_error + operation" where
  "cancelOp now op =
     (if op_phase op = PhaseCancelled then Inr op else transitionTo PhaseCancelled now op)"

section \<open>Byte counters\<close>

text \<open>\<open>int64\<close> sums wrap around.\<close>

definition bytesDownloaded :: "operation \<Rightarrow> i64" where
  "bytesDownloaded op = foldl (\<lambda>t a. t + ap_bytesDownloaded a) 0 (op_artifacts op)"

fun bytesTotalFrom :: "i64 \<Rightarrow> artifact_progress list \<Rightarrow> i64 option" where
  "bytesTotalFrom t [] = Some t"
| "bytesTotalFrom t (a # as) =
     (case ap_bytesTotal a of None \<Rightarrow> None | Some b \<Rightarrow> bytesTotalFrom (t + b) as)"

definition bytesTotal :: "operation \<Rightarrow> i64 option" where
  "bytesTotal op = bytesTotalFrom 0 (op_artifacts op)"

section \<open>Disk preflight\<close>

record disk_space =
  availableBytes :: u64
  totalBytes :: u64

datatype disk_error = ErrInsufficientDisk u64 u64 | ErrStatfs string

definition evaluateDiskPreflight :: "disk_space \<Rightarrow> i64 \<Rightarrow> i64 \<Rightarrow> disk_error option" where
  "evaluateDiskPreflight space remainingBytes safetyReserveBytes =
     (let remainingBytes = (if sint remainingBytes < 0 then 0 else remainingBytes);
          safetyReserveBytes = (if sint safetyReserveBytes < 0 then 0 else safetyReserveBytes);
          needed = remainingBytes + safetyReserveBytes
      in if availableBytes space < needed
         then Some (ErrInsufficientDisk (availableBytes space) needed) else None)"

text \<open>\<open>statfs\<close> is what the host's file system reports for a directory, or its error.\<close>

definition checkDiskPreflight :: "(string \<Rightarrow> string + disk_space) \<Rightarrow> string \<Rightarrow> i64 \<Rightarrow> i64 \<Rightarrow> disk_error option" where
  "checkDiskPreflight statfs dir remainingBytes safetyReserveBytes =
     (case statfs dir of
        Inl e \<Rightarrow> Some (ErrStatfs e)
      | Inr space \<Rightarrow> evaluateDiskPreflight space remainingBytes safetyReserveBytes)"

section \<open>Lemmas on phases\<close>

lemma happyPathIndex_Some_iff:
  "happyPathIndex p = Some i \<longleftrightarrow> i < length happyPath \<and> happyPath ! i = p"
proof -
  have "distinct happyPath" by (simp add: happyPath_def)
  then show ?thesis
    by (auto simp: happyPathIndex_def map_of_zip_nth in_set_zip dest!: map_of_SomeD)
qed

lemma happyPathIndex_values [simp]:
  "happyPathIndex PhaseQueued = Some 0" "happyPathIndex PhasePreflighting = Some 1"
  "happyPathIndex PhaseResolving = Some 2" "happyPathIndex PhaseDownloading = Some 3"
  "happyPathIndex PhaseVerifying = Some 4" "happyPathIndex PhaseInstalling = Some 5"
  "happyPathIndex PhaseRegistering = Some 6" "happyPathIndex PhaseReloading = Some 7"
  "happyPathIndex PhaseSucceeded = Some 8" "happyPathIndex PhaseCancelled = None"
  "happyPathIndex PhaseFailed = None" "happyPathIndex (PhaseUnknown s) = None"
  by (simp_all add: happyPathIndex_def happyPath_def upt_rec)

lemma phaseValid_iff: "phaseValid p \<longleftrightarrow> (\<forall>s. p \<noteq> PhaseUnknown s)"
  by (cases p) (simp_all add: phaseValid_def)

lemma canTransition_terminal [simp]: "terminal p \<Longrightarrow> \<not> canTransition p q"
  by (simp add: canTransition_def)

lemma canTransition_stop:
  "canTransition p PhaseCancelled \<longleftrightarrow> \<not> terminal p" "canTransition p PhaseFailed \<longleftrightarrow> \<not> terminal p"
  by (simp_all add: canTransition_def)

text \<open>A non-terminal phase of the happy path has exactly one successor on it.\<close>

lemma canTransition_next:
  "canTransition PhaseQueued q \<longleftrightarrow> q = PhasePreflighting \<or> q = PhaseCancelled \<or> q = PhaseFailed"
  "canTransition PhasePreflighting q \<longleftrightarrow> q = PhaseResolving \<or> q = PhaseCancelled \<or> q = PhaseFailed"
  "canTransition PhaseResolving q \<longleftrightarrow> q = PhaseDownloading \<or> q = PhaseCancelled \<or> q = PhaseFailed"
  "canTransition PhaseDownloading q \<longleftrightarrow> q = PhaseVerifying \<or> q = PhaseCancelled \<or> q = PhaseFailed"
  "canTransition PhaseVerifying q \<longleftrightarrow> q = PhaseInstalling \<or> q = PhaseCancelled \<or> q = PhaseFailed"
  "canTransition PhaseInstalling q \<longleftrightarrow> q = PhaseRegistering \<or> q = PhaseCancelled \<or> q = PhaseFailed"
  "canTransition PhaseRegistering q \<longleftrightarrow> q = PhaseReloading \<or> q = PhaseCancelled \<or> q = PhaseFailed"
  "canTransition PhaseReloading q \<longleftrightarrow> q = PhaseSucceeded \<or> q = PhaseCancelled \<or> q = PhaseFailed"
  by (cases q, simp_all add: canTransition_def)+

lemma canTransition_happy:
  assumes "i < length happyPath"
  shows "canTransition (happyPath ! i) q \<longleftrightarrow>
    Suc i < length happyPath \<and> (q = happyPath ! Suc i \<or> q = PhaseCancelled \<or> q = PhaseFailed)"
proof -
  from assms have "i = 0 \<or> i = 1 \<or> i = 2 \<or> i = 3 \<or> i = 4 \<or> i = 5 \<or> i = 6 \<or> i = 7 \<or> i = 8"
    by (simp add: happyPath_def) arith
  then show ?thesis
    by (elim disjE) (simp_all add: happyPath_def canTransition_next)
qed

lemma transitionTo_Inr_iff:
  "transitionTo q now op = Inr op' \<longleftrightarrow>
     canTransition (op_phase op) q \<and> op' = op\<lparr>op_phase := q, op_updatedAt := now\<rparr>"
  by (auto simp: transitionTo_def)

lemma failOp_Inr_iff:
  "failOp c m now op = Inr op' \<longleftrightarrow> \<not> terminal (op_phase op) \<and>
     op' = op\<lparr>op_phase := PhaseFailed, op_updatedAt := now, op_error := Some \<lparr>code = c, message = m\<rparr>\<rparr>"
  by (auto simp: failOp_def transitionTo_def canTransition_stop split: sum.splits)

lemma cancelOp_Inr_iff:
  "cancelOp now op = Inr op' \<longleftrightarrow>
     (op_phase op = PhaseCancelled \<and> op' = op) \<or>
     (\<not> terminal (op_phase op) \<and> op' = op\<lparr>op_phase := PhaseCancelled, op_updatedAt := now\<rparr>)"
  by (auto simp: cancelOp_def transitionTo_def canTransition_stop)

text \<open>
  Whatever mutators a caller applies to a fresh operation, the phases it passes
  through are an initial part of the documented sequence, in order and without gaps, possibly
  ended by one of \<open>cancelled\<close> and \<open>failed\<close>. (So at most ten phases are ever recorded.)
\<close>

theorem phase_history_is_prefix:
  assumes "successively canTransition (PhaseQueued # ps)"
  shows "\<exists>n q. PhaseQueued # ps = take n happyPath @ q \<and> (q = [] \<or> q = [PhaseCancelled] \<or> q = [PhaseFailed])"
proof -
  have gen: "i < length happyPath \<Longrightarrow> successively canTransition (happyPath ! i # ps) \<Longrightarrow>
    \<exists>n q. happyPath ! i # ps = drop i (take n happyPath) @ q \<and> (q = [] \<or> q = [PhaseCancelled] \<or> q = [PhaseFailed])"
    for i
  proof (induction ps arbitrary: i)
    case Nil
    then have "happyPath ! i # [] = drop i (take (Suc i) happyPath) @ []"
      by (simp add: take_Suc_conv_app_nth)
    then show ?case by blast
  next
    case (Cons p ps)
    then have step: "canTransition (happyPath ! i) p" and rest: "successively canTransition (p # ps)"
      by simp_all
    from step canTransition_happy [OF Cons.prems(1)]
    consider "Suc i < length happyPath" "p = happyPath ! Suc i" | "p = PhaseCancelled \<or> p = PhaseFailed"
      by blast
    then show ?case
    proof cases
      case 1
      with Cons.IH [of "Suc i"] rest obtain n q where
        "p # ps = drop (Suc i) (take n happyPath) @ q" "q = [] \<or> q = [PhaseCancelled] \<or> q = [PhaseFailed]"
        by auto
      moreover have "Suc i < n"
      proof (rule ccontr)
        assume "\<not> Suc i < n"
        with calculation have "p # ps = q" by simp
        with 1 calculation(2) show False
          using Cons.prems(1) by (auto simp: happyPath_def nth_Cons' split: if_splits)
      qed
      then have "happyPath ! i # drop (Suc i) (take n happyPath) = drop i (take n happyPath)"
        using 1 by (metis Cons_nth_drop_Suc Suc_lessD length_take min_less_iff_conj nth_take)
      ultimately have "happyPath ! i # p # ps = drop i (take n happyPath) @ q"
        by (metis append_Cons)
      then show ?thesis
        using \<open>q = [] \<or> q = [PhaseCancelled] \<or> q = [PhaseFailed]\<close> by blast
    next
      case 2
      then have "terminal p" by auto
      with rest have "ps = []" by (cases ps) simp_all
      with 2 have "happyPath ! i # p # ps = drop i (take (Suc i) happyPath) @ [p]"
        using Cons.prems(1) by (simp add: take_Suc_conv_app_nth)
      with 2 show ?thesis by blast
    qed
  qed
  have "happyPath ! 0 = PhaseQueued" "0 < length happyPath" by (simp_all add: happyPath_def)
  with gen [of 0] assms show ?thesis by simp
qed

theorem phase_history_is_prefix_witness:
  "\<exists>n q. [PhaseQueued, PhasePreflighting, PhaseCancelled] = take n happyPath @ q
     \<and> (q = [] \<or> q = [PhaseCancelled] \<or> q = [PhaseFailed])"
  by (rule phase_history_is_prefix) (simp add: canTransition_def)

text \<open>The steps an operation value can take: one rule per mutator that succeeds.\<close>

inductive op_step :: "operation \<Rightarrow> operation \<Rightarrow> bool" where
  advance: "transitionTo p now op = Inr op' \<Longrightarrow> p \<noteq> PhaseFailed \<Longrightarrow> op_step op op'"
| failed: "failOp c msg now op = Inr op' \<Longrightarrow> op_step op op'"
| cancelled: "cancelOp now op = Inr op' \<Longrightarrow> op_step op op'"

inductive_cases op_stepE: "op_step op op'"

definition op_inv :: "operation \<Rightarrow> bool" where
  "op_inv op \<longleftrightarrow> phaseValid (op_phase op) \<and> (op_error op \<noteq> None \<longleftrightarrow> op_phase op = PhaseFailed)"

lemma op_step_inv: "op_step op op' \<Longrightarrow> op_inv op \<Longrightarrow> op_inv op'"
  by (induction rule: op_step.induct)
    (auto simp: op_inv_def transitionTo_Inr_iff failOp_Inr_iff cancelOp_Inr_iff phaseValid_iff
        canTransition_def split: if_splits option.splits)

lemma op_step_frame:
  "op_step op op' \<Longrightarrow> op_id op' = op_id op \<and> op_artifacts op' = op_artifacts op
     \<and> op_registration op' = op_registration op \<and> op_createdAt op' = op_createdAt op
     \<and> op_sourceRepository op' = op_sourceRepository op \<and> op_modelID op' = op_modelID op
     \<and> op_sourceRevision op' = op_sourceRevision op"
  by (induction rule: op_step.induct)
    (auto simp: transitionTo_Inr_iff failOp_Inr_iff cancelOp_Inr_iff)

text \<open>
  Every operation the mutators can produce from a fresh one has a known phase, carries
  an error exactly when it has failed, and still has the identity, the artifacts and the
  registration snapshot of the accepted plan.
\<close>

theorem reachable_operation:
  assumes "op_step\<^sup>*\<^sup>* (newFromPlan uuid plan now) op"
  shows "phaseValid (op_phase op) \<and> (op_error op \<noteq> None \<longleftrightarrow> op_phase op = PhaseFailed)
    \<and> op_registration op = pl_registration plan \<and> op_modelID op = reg_modelID (pl_registration plan)
    \<and> map ap_path (op_artifacts op) = map art_path (pl_artifacts plan)
    \<and> op_createdAt op = now"
proof -
  have "op_inv (newFromPlan uuid plan now)"
    by (simp add: op_inv_def newFromPlan_def newOp_def phaseValid_iff)
  with assms have "op_inv op"
    by (induction rule: rtranclp_induct) (auto intro: op_step_inv)
  moreover have "op_registration op = op_registration (newFromPlan uuid plan now) \<and>
      op_modelID op = op_modelID (newFromPlan uuid plan now) \<and>
      op_artifacts op = op_artifacts (newFromPlan uuid plan now) \<and>
      op_createdAt op = op_createdAt (newFromPlan uuid plan now)"
    using assms by (induction rule: rtranclp_induct) (auto dest: op_step_frame)
  ultimately show ?thesis
    by (simp add: op_inv_def newFromPlan_def newOp_def comp_def)
qed

theorem reachable_operation_witness:
  "\<exists>op :: operation. op_phase op = PhaseCancelled \<and> op_error op = None \<and> op_createdAt op = 5"
proof -
  let ?plan = "\<lparr>pl_sourceRepository = ''o/r'', pl_sourceRevision = ''abc'', pl_artifacts = [],
    pl_registration = zeroRegistration\<rparr>"
  let ?op = "newFromPlan ''u'' ?plan 5"
  let ?op' = "?op\<lparr>op_phase := PhaseCancelled, op_updatedAt := 6\<rparr>"
  have "cancelOp 6 ?op = Inr ?op'"
    by (simp add: cancelOp_Inr_iff newFromPlan_def newOp_def)
  then have "op_step\<^sup>*\<^sup>* ?op ?op'" by (blast intro: op_step.cancelled)
  from reachable_operation [OF this]
  have "op_error ?op' \<noteq> None \<longleftrightarrow> op_phase ?op' = PhaseFailed" and "op_createdAt ?op' = 5"
    by blast+
  then show ?thesis by - (rule exI [of _ ?op'], simp)
qed

section \<open>Lemmas on the disk preflight\<close>

lemma uint_of_sint: "uint w = (if sint w < 0 then sint w + 2 ^ 64 else sint w)" for w :: i64
proof -
  have "uint w = sint w mod 2 ^ 64"
    using uint_sint [of w] by (simp add: take_bit_eq_mod)
  moreover have "- (2 ^ 63) \<le> sint w" and "sint w < 2 ^ 63"
    using sint_ge [of w] sint_lt [of w] by simp_all
  moreover have "sint w mod 2 ^ 64 = sint w + 2 ^ 64" if "sint w < 0" "- (2 ^ 63) \<le> sint w"
  proof -
    have "(sint w + 2 ^ 64) mod 2 ^ 64 = sint w + 2 ^ 64"
      using that by (intro mod_pos_pos_trivial) simp_all
    then show ?thesis by simp
  qed
  ultimately show ?thesis
    by (cases "sint w < 0") (simp_all add: mod_pos_pos_trivial)
qed

lemma uint_clamp: "uint (if sint w < 0 then 0 else w) = max 0 (sint w)" for w :: i64
  by (simp add: uint_of_sint)

lemma sint_i64_less: "sint w < 2 ^ 63" for w :: i64
  using sint_lt [of w] by simp

lemma preflight_exact:
  "evaluateDiskPreflight space remaining reserve = None \<longleftrightarrow>
     max 0 (sint remaining) + max 0 (sint reserve) \<le> uint (availableBytes space)"
proof -
  let ?r = "if sint remaining < 0 then 0 else remaining"
  let ?s = "if sint reserve < 0 then 0 else reserve"
  have "uint ?r + uint ?s < 2 ^ 64"
    using sint_i64_less [of remaining] sint_i64_less [of reserve] unfolding uint_clamp by simp
  then have "uint (?r + ?s) = max 0 (sint remaining) + max 0 (sint reserve)"
    by (subst uint_add_lem [THEN iffD1]) (simp_all add: uint_clamp)
  then show ?thesis
    by (simp add: evaluateDiskPreflight_def Let_def word_less_def not_less del: uint_add_lem)
qed

text \<open>
  The preflight passes exactly when the free bytes cover the mathematical sum of the
  remaining bytes and the reserve, negative inputs counting as zero: two clamped \<open>int64\<close>
  values cannot overflow their \<open>uint64\<close> sum.
\<close>

theorem disk_preflight_exact:
  "evaluateDiskPreflight space remaining reserve = None \<longleftrightarrow>
     max 0 (sint remaining) + max 0 (sint reserve) \<le> uint (availableBytes space)"
  by (rule preflight_exact)

end
