(* ===== verification/Op_Shards.thy ===== *)
theory Op_Shards
  imports Op_Lifecycle "HOL-Library.AList"
begin

text \<open>
  Shard sets of split GGUF files, from \<open>internal/operation/shard.go\<close>, and the shard check of
  the install-plan handler (\<open>validateWeightShardCompleteness\<close> in
  \<open>internal/server/apimodeloperations.go\<close>). Indices and totals are Go \<open>uint32\<close> values: naturals
  below \<open>2 ^ 32\<close>, which the parser guarantees.
\<close>

section \<open>Parsing a shard file name\<close>

record shard_info =
  sh_index :: nat
  sh_total :: nat

definition digitsVal :: "string \<Rightarrow> nat" where
  "digitsVal s = foldl (\<lambda>v c. v * 10 + (of_char c - 48)) 0 s"

text \<open>\<open>strconv.ParseUint(s, 10, 32)\<close> fails on a value that does not fit 32 bits.\<close>

definition parseASCIIDigits :: "string \<Rightarrow> nat option" where
  "parseASCIIDigits s =
     (if s = [] then None
      else if \<not> list_all isDigitCh s then None
      else if digitsVal s < 2 ^ 32 then Some (digitsVal s) else None)"

definition parseShardInfo :: "string \<Rightarrow> shard_info option" where
  "parseShardInfo filename =
     (case cutSuffix filename ''.gguf'' of
        None \<Rightarrow> None
      | Some stem \<Rightarrow>
        (case lastIndex stem ''-of-'' of
           None \<Rightarrow> None
         | Some ofPos \<Rightarrow>
           (case parseASCIIDigits (drop (ofPos + 4) stem) of
              None \<Rightarrow> None
            | Some tot \<Rightarrow>
              (let before = take ofPos stem in
               case lastIndex before ''-'' of
                 None \<Rightarrow> None
               | Some dashPos \<Rightarrow>
                 (case parseASCIIDigits (drop (dashPos + 1) before) of
                    None \<Rightarrow> None
                  | Some index \<Rightarrow>
                      if index = 0 \<or> index > tot then None
                      else Some \<lparr>sh_index = index, sh_total = tot\<rparr>)))))"

text \<open>The prefix and suffix shared by the members of a shard set.\<close>

definition shardGroupKey :: "string \<Rightarrow> (string \<times> string) option" where
  "shardGroupKey filename =
     (case parseShardInfo filename of
        None \<Rightarrow> None
      | Some _ \<Rightarrow>
        (let stem = the (cutSuffix filename ''.gguf'');
             ofPos = the (lastIndex stem ''-of-'');
             before = take ofPos stem;
             dashPos = the (lastIndex before ''-'')
         in Some (take (dashPos + 1) filename, drop ofPos filename)))"

section \<open>Grouping\<close>

definition groupKeyOf :: "string \<Rightarrow> string" where
  "groupKeyOf f =
     (case shardGroupKey f of None \<Rightarrow> f | Some (pre, suf) \<Rightarrow> pre @ ''|'' @ suf)"

definition groupIndexOf :: "string \<Rightarrow> nat" where
  "groupIndexOf f =
     (case shardGroupKey f of
        None \<Rightarrow> 0
      | Some _ \<Rightarrow> (case parseShardInfo f of Some info \<Rightarrow> sh_index info | None \<Rightarrow> 0))"

text \<open>
  The map \<open>byKey\<close> as an association list in order of first insertion; Go iterates it in an
  arbitrary order, so nothing may depend on that order.
\<close>

definition addMember :: "(string \<times> string list) list \<Rightarrow> string \<Rightarrow> (string \<times> string list) list" where
  "addMember byKey f =
     AList.update (groupKeyOf f)
       ((case map_of byKey (groupKeyOf f) of Some ms \<Rightarrow> ms | None \<Rightarrow> []) @ [f]) byKey"

definition groupShards :: "string list \<Rightarrow> (string \<times> string list) list" where
  "groupShards filenames =
     map (\<lambda>(key, members). (key, sort_key groupIndexOf members)) (foldl addMember [] filenames)"

section \<open>Completeness\<close>

text \<open>The loop of \<open>ShardSetComplete\<close>; \<open>Inl\<close> is an early return.\<close>

fun completeLoop :: "string list \<Rightarrow> nat list \<Rightarrow> nat \<Rightarrow> (bool \<times> nat) + (nat list \<times> nat)" where
  "completeLoop [] seen tot = Inr (seen, tot)"
| "completeLoop (f # fs) seen tot =
     (case parseShardInfo f of
        None \<Rightarrow> Inl (False, 0)
      | Some info \<Rightarrow>
          if tot \<noteq> 0 \<and> sh_total info \<noteq> tot then Inl (False, 0)
          else
            (let tot = (if tot = 0 then sh_total info else tot) in
             if sh_index info \<in> set seen then Inl (False, 0)
             else completeLoop fs (sh_index info # seen) tot))"

definition shardSetComplete :: "string list \<Rightarrow> bool \<times> nat" where
  "shardSetComplete grp =
     (if grp = [] then (False, 0)
      else case completeLoop grp [] 0 of
             Inl r \<Rightarrow> r
           | Inr (seen, tot) \<Rightarrow>
               if length seen mod 2 ^ 32 \<noteq> tot then (False, tot) else (True, tot))"

text \<open>
  The handler's check: \<open>Some\<close> is the refusal with the present and expected part counts. Only
  the first member of each group decides whether the group is a shard set at all.
\<close>

fun checkGroups :: "(string \<times> string list) list \<Rightarrow> (nat \<times> nat) option" where
  "checkGroups [] = None"
| "checkGroups ((key, grp) # gs) =
     (case grp of
        [] \<Rightarrow> checkGroups gs
      | f0 # _ \<Rightarrow>
          (if parseShardInfo f0 = None then checkGroups gs
           else case shardSetComplete grp of
                  (True, _) \<Rightarrow> checkGroups gs
                | (False, tot) \<Rightarrow> Some (length grp, tot)))"

definition validateWeightShardCompleteness :: "artifact list \<Rightarrow> (nat \<times> nat) option" where
  "validateWeightShardCompleteness artifacts =
     checkGroups (groupShards (map art_path (filter (\<lambda>a. art_role a = RoleWeights) artifacts)))"

section \<open>Lemmas on the parser\<close>

lemma parseASCIIDigits_Some_iff:
  "parseASCIIDigits s = Some n \<longleftrightarrow> s \<noteq> [] \<and> list_all isDigitCh s \<and> n = digitsVal s \<and> n < 2 ^ 32"
  by (auto simp: parseASCIIDigits_def)

lemma digit_not_dash: "isDigitCh c \<Longrightarrow> c \<noteq> CHR ''-''"
  by (auto simp: isDigitCh_def)

lemma digits_no_dash: "list_all isDigitCh d \<Longrightarrow> CHR ''-'' \<notin> set d"
  by (auto simp: list_all_iff dest: digit_not_dash)

lemma lastIndex_of:
  assumes "CHR ''-'' \<notin> set d" and "\<not> hasPrefix d ''of-''"
  shows "lastIndex (b @ ''-of-'' @ d) ''-of-'' = Some (length b)"
proof (rule lastIndex_eqI)
  fix j
  assume j: "length b < j" "j \<le> length (b @ ''-of-'' @ d)"
  then obtain k where k: "j = length b + Suc k" by (metis less_iff_Suc_add add_Suc_right)
  show "\<not> hasPrefix (drop j (b @ ''-of-'' @ d)) ''-of-''"
  proof
    assume "hasPrefix (drop j (b @ ''-of-'' @ d)) ''-of-''"
    then obtain r where r: "drop k (''of-'' @ d) = ''-of-'' @ r"
      by (auto simp: k hasPrefix_iff)
    consider "k = 0" | "k = 1" | "k = 2" | "k \<ge> 3" by linarith
    then show False
    proof cases
      case 3
      with r have "d = ''of-'' @ r" by (simp add: numeral_2_eq_2)
      with assms(2) show False by (simp add: hasPrefix_def)
    next
      case 4
      then have "drop k (''of-'' @ d) = drop (k - 3) d" by (auto simp: drop_Cons' numeral_eq_Suc)
      with r have "CHR ''-'' \<in> set d" by (metis append_Cons in_set_dropD list.set_intros(1))
      with assms(1) show False ..
    qed (use r in simp_all)
  qed
qed (simp_all add: hasPrefix_def)

text \<open>
  A file name is a shard name exactly when it has the form
  prefix, dash, digits, \<open>-of-\<close>, digits, \<open>.gguf\<close>, with both numbers in range and the index
  between one and the total; and the parser then returns those two numbers.
\<close>

theorem parse_shard_iff:
  "parseShardInfo f = Some info \<longleftrightarrow>
     (\<exists>p di dt. f = p @ ''-'' @ di @ ''-of-'' @ dt @ ''.gguf''
        \<and> parseASCIIDigits di = Some (sh_index info) \<and> parseASCIIDigits dt = Some (sh_total info)
        \<and> 1 \<le> sh_index info \<and> sh_index info \<le> sh_total info)"
proof
  assume parse: "parseShardInfo f = Some info"
  then obtain stem o1 d1 where f: "f = stem @ ''.gguf''" and o1: "lastIndex stem ''-of-'' = Some o1"
    and tot: "parseASCIIDigits (drop (o1 + 4) stem) = Some (sh_total info)"
    and d1: "lastIndex (take o1 stem) ''-'' = Some d1"
    and idx: "parseASCIIDigits (drop (d1 + 1) (take o1 stem)) = Some (sh_index info)"
    and rng: "1 \<le> sh_index info" "sh_index info \<le> sh_total info"
    by (auto simp: parseShardInfo_def cutSuffix_Some_iff Let_def split: option.splits if_splits)
  from lastIndex_split [OF o1]
  have s1: "stem = take o1 stem @ ''-of-'' @ drop (o1 + 4) stem" by (simp add: numeral_eq_Suc)
  from lastIndex_split [OF d1]
  have s2: "take o1 stem = take d1 (take o1 stem) @ ''-'' @ drop (d1 + 1) (take o1 stem)" by simp
  have "f = take d1 (take o1 stem) @ ''-'' @ drop (d1 + 1) (take o1 stem) @ ''-of-'' @ drop (o1 + 4) stem @ ''.gguf''"
    using f s1 s2 by (metis append.assoc)
  with tot idx rng show "\<exists>p di dt. f = p @ ''-'' @ di @ ''-of-'' @ dt @ ''.gguf''
        \<and> parseASCIIDigits di = Some (sh_index info) \<and> parseASCIIDigits dt = Some (sh_total info)
        \<and> 1 \<le> sh_index info \<and> sh_index info \<le> sh_total info" by blast
next
  assume "\<exists>p di dt. f = p @ ''-'' @ di @ ''-of-'' @ dt @ ''.gguf''
        \<and> parseASCIIDigits di = Some (sh_index info) \<and> parseASCIIDigits dt = Some (sh_total info)
        \<and> 1 \<le> sh_index info \<and> sh_index info \<le> sh_total info"
  then obtain p di dt where f: "f = (p @ ''-'' @ di @ ''-of-'' @ dt) @ ''.gguf''"
    and di: "parseASCIIDigits di = Some (sh_index info)" and dt: "parseASCIIDigits dt = Some (sh_total info)"
    and rng: "1 \<le> sh_index info" "sh_index info \<le> sh_total info"
    by auto
  from dt have "list_all isDigitCh dt" by (simp add: parseASCIIDigits_Some_iff)
  then have dt': "CHR ''-'' \<notin> set dt" "\<not> hasPrefix dt ''of-''"
    by (auto simp: digits_no_dash hasPrefix_iff isDigitCh_def)
  define before where "before = p @ ''-'' @ di"
  define stem where "stem = before @ ''-of-'' @ dt"
  have l1: "lastIndex stem ''-of-'' = Some (length before)"
    using lastIndex_of [OF dt', of before] by (simp add: stem_def)
  have l2: "lastIndex before ''-'' = Some (length p)"
    using di lastIndex_char [of "CHR ''-''" di p]
    by (simp add: before_def digits_no_dash parseASCIIDigits_Some_iff)
  have cut: "cutSuffix f ''.gguf'' = Some stem"
    by (simp add: cutSuffix_Some_iff f stem_def before_def)
  have parts: "drop (length before + 4) stem = dt" "take (length before) stem = before"
    by (simp_all add: stem_def numeral_eq_Suc)
  have part3: "drop (length p + 1) before = di" by (simp add: before_def)
  show "parseShardInfo f = Some info"
    unfolding parseShardInfo_def cut option.case l1 parts Let_def l2 part3 di dt using rng by simp
qed

section \<open>Lemmas on completeness\<close>

definition shIdx :: "string \<Rightarrow> nat" where
  "shIdx f = (case parseShardInfo f of Some info \<Rightarrow> sh_index info | None \<Rightarrow> 0)"

definition isShardOf :: "nat \<Rightarrow> string \<Rightarrow> bool" where
  "isShardOf t f = (case parseShardInfo f of Some info \<Rightarrow> sh_total info = t | None \<Rightarrow> False)"

lemma parse_range:
  "parseShardInfo f = Some info \<Longrightarrow> 1 \<le> sh_index info \<and> sh_index info \<le> sh_total info \<and> sh_total info < 2 ^ 32"
  by (auto simp: parse_shard_iff parseASCIIDigits_Some_iff)

lemma isShardOf_range: "isShardOf t f \<Longrightarrow> 1 \<le> shIdx f \<and> shIdx f \<le> t \<and> t < 2 ^ 32"
  by (auto simp: isShardOf_def shIdx_def dest: parse_range split: option.splits)

lemma completeLoop_Inr_iff:
  "t \<noteq> 0 \<Longrightarrow> completeLoop fs seen t = Inr (seen', t') \<longleftrightarrow>
     list_all (isShardOf t) fs \<and> distinct (map shIdx fs) \<and> set (map shIdx fs) \<inter> set seen = {}
     \<and> seen' = rev (map shIdx fs) @ seen \<and> t' = t"
proof (induction fs arbitrary: seen)
  case (Cons f fs)
  then show ?case
    by (cases "parseShardInfo f") (auto simp: isShardOf_def shIdx_def Let_def)
qed auto

lemma completeLoop_start:
  "fs \<noteq> [] \<Longrightarrow> completeLoop fs [] 0 = Inr (seen, t) \<longleftrightarrow>
     t \<noteq> 0 \<and> list_all (isShardOf t) fs \<and> distinct (map shIdx fs) \<and> seen = rev (map shIdx fs)"
proof (cases fs)
  case (Cons f fs')
  show ?thesis
  proof (cases "parseShardInfo f")
    case None
    then show ?thesis by (simp add: Cons isShardOf_def)
  next
    case (Some info)
    then have "sh_total info \<noteq> 0" using parse_range [OF Some] by simp
    then show ?thesis
      using Some by (auto simp: Cons completeLoop_Inr_iff isShardOf_def shIdx_def)
  qed
qed simp

lemma completeLoop_Inl: "completeLoop fs seen t = Inl r \<Longrightarrow> r = (False, 0)"
  by (induction fs seen t rule: completeLoop.induct) (auto simp: Let_def split: option.splits if_splits)

lemma shardSetComplete_iff:
  "shardSetComplete fs = (True, t) \<longleftrightarrow>
     fs \<noteq> [] \<and> list_all (isShardOf t) fs \<and> distinct (map shIdx fs) \<and> shIdx ` set fs = {1..t}"
proof (cases "fs = []")
  case False
  have range: "shIdx ` set fs \<subseteq> {1..t}" if "list_all (isShardOf t) fs" for t
    using that isShardOf_range by (fastforce simp: list_all_iff)
  have lt: "t < 2 ^ 32 \<and> t \<noteq> 0" if "list_all (isShardOf t) fs" for t
    using that False by (cases fs) (auto dest: isShardOf_range)
  have card: "length fs mod 2 ^ 32 = t \<longleftrightarrow> shIdx ` set fs = {1..t}"
    if t: "list_all (isShardOf t) fs" and d: "distinct (map shIdx fs)" for t
  proof -
    have c: "card (shIdx ` set fs) = length fs"
      using distinct_card [OF d] by simp
    with card_mono [OF _ range [OF t]] have "length fs \<le> t" by simp
    then have "length fs mod 2 ^ 32 = length fs" using lt [OF t] by simp
    then show ?thesis
      using c card_subset_eq [OF _ range [OF t]] by (metis card_atLeastAtMost diff_Suc_1 finite_atLeastAtMost)
  qed
  show ?thesis
  proof (cases "completeLoop fs [] 0")
    case (Inl r)
    then have "\<not> (list_all (isShardOf t) fs \<and> distinct (map shIdx fs))" for t
      using completeLoop_start [OF False, of "rev (map shIdx fs)" t] lt [of t] by auto
    with Inl completeLoop_Inl [OF Inl] show ?thesis by (auto simp: shardSetComplete_def)
  next
    case (Inr st)
    then obtain seen t0 where st: "completeLoop fs [] 0 = Inr (seen, t0)" by (cases st) auto
    note facts = this [unfolded completeLoop_start [OF False]]
    have uniq: "t1 = t0" if "list_all (isShardOf t1) fs" for t1
      using that facts False by (cases fs) (auto simp: isShardOf_def split: option.splits)
    from facts have "length seen = length fs" by simp
    then show ?thesis
      using st facts False card [of t0] uniq by (auto simp: shardSetComplete_def)
  qed
qed (simp add: shardSetComplete_def)

text \<open>
  A group is complete with total \<open>t\<close> exactly when it is non-empty, all its names are
  shard names declaring \<open>t\<close>, no index occurs twice, and the indices are exactly \<open>1, ..., t\<close>.
\<close>

theorem shard_set_complete_iff:
  "shardSetComplete fs = (True, t) \<longleftrightarrow>
     fs \<noteq> [] \<and> (\<exists>infos. map parseShardInfo fs = map Some infos \<and> (\<forall>info \<in> set infos. sh_total info = t)
        \<and> distinct (map sh_index infos) \<and> set (map sh_index infos) = {1..t})"
proof -
  have "(list_all (isShardOf t) fs \<and> distinct (map shIdx fs) \<and> shIdx ` set fs = {1..t}) \<longleftrightarrow>
    (\<exists>infos. map parseShardInfo fs = map Some infos \<and> (\<forall>info \<in> set infos. sh_total info = t)
        \<and> distinct (map sh_index infos) \<and> set (map sh_index infos) = {1..t})"
    (is "?A \<longleftrightarrow> (\<exists>infos. ?B infos)")
  proof
    assume A: ?A
    then have parsed: "\<forall>f \<in> set fs. parseShardInfo f = Some (the (parseShardInfo f)) \<and> sh_total (the (parseShardInfo f)) = t
        \<and> sh_index (the (parseShardInfo f)) = shIdx f"
      by (auto simp: list_all_iff isShardOf_def shIdx_def split: option.splits)
    let ?I = "map (the \<circ> parseShardInfo) fs"
    have idx: "map sh_index ?I = map shIdx fs" using parsed by simp
    have "map parseShardInfo fs = map Some ?I"
      unfolding map_map comp_def using parsed by (intro map_cong) blast+
    moreover have "\<forall>info \<in> set ?I. sh_total info = t" using parsed by simp
    moreover have "distinct (map sh_index ?I) \<and> set (map sh_index ?I) = {1..t}"
      unfolding idx using A by simp
    ultimately have "?B ?I" by blast
    then show "\<exists>infos. ?B infos" ..
  next
    assume "\<exists>infos. ?B infos"
    then obtain infos where B: "?B infos" ..
    then have "map shIdx fs = map sh_index infos"
      unfolding list_eq_iff_nth_eq by (auto simp: shIdx_def)
    moreover have "list_all (isShardOf t) fs"
      using B by (auto simp: list_all_length isShardOf_def list_eq_iff_nth_eq)
    ultimately show ?A using B by (metis image_set)
  qed
  then show ?thesis by (simp add: shardSetComplete_iff)
qed

section \<open>Lemmas on grouping\<close>

lemma map_of_addMember:
  "map_of (addMember byKey f) =
     (map_of byKey)(groupKeyOf f \<mapsto> (case map_of byKey (groupKeyOf f) of Some ms \<Rightarrow> ms | None \<Rightarrow> []) @ [f])"
  by (simp add: addMember_def update_conv')

lemma map_of_addMembers:
  "map_of (foldl addMember [] fs) k =
     (let ms = filter (\<lambda>f. groupKeyOf f = k) fs in if ms = [] then None else Some ms)"
  by (induction fs rule: rev_induct) (auto simp: map_of_addMember Let_def)

lemma distinct_addMembers: "distinct (map fst (foldl addMember [] fs))"
  by (induction fs rule: rev_induct) (auto simp: addMember_def distinct_update)

text \<open>
  Grouping partitions the names by key: the group of a key holds exactly the names with
  that key, sorted by shard index, and a key without names has no group.
\<close>

theorem group_shards_partition:
  "map_of (groupShards fs) k =
     (let ms = filter (\<lambda>f. groupKeyOf f = k) fs
      in if ms = [] then None else Some (sort_key groupIndexOf ms))
   \<and> distinct (map fst (groupShards fs))"
proof -
  have "map_of (groupShards fs) k = map_option (sort_key groupIndexOf) (map_of (foldl addMember [] fs) k)"
    by (simp add: groupShards_def map_of_map)
  moreover have "map fst (groupShards fs) = map fst (foldl addMember [] fs)"
    by (simp add: groupShards_def case_prod_beta comp_def)
  ultimately show ?thesis by (simp add: map_of_addMembers distinct_addMembers Let_def)
qed

lemma shardGroupKey_Some_iff: "shardGroupKey f \<noteq> None \<longleftrightarrow> parseShardInfo f \<noteq> None"
  by (simp add: shardGroupKey_def Let_def split: option.split)

lemma groupIndexOf_shIdx: "groupIndexOf f = shIdx f"
  by (simp add: groupIndexOf_def shardGroupKey_def shIdx_def Let_def split: option.split)

lemma shardGroupKey_parts:
  assumes "shardGroupKey f = Some (pre, suf)"
  shows "set pre \<subseteq> set f \<and> set suf \<subseteq> set f"
proof -
  from assms obtain m n where "pre = take m f" "suf = drop n f"
    by (simp add: shardGroupKey_def Let_def split: option.splits) blast
  then show ?thesis using set_take_subset [of m f] set_drop_subset [of n f] by blast
qed

lemma split_at_unique:
  "d \<notin> set a \<Longrightarrow> d \<notin> set b \<Longrightarrow> d \<notin> set a' \<Longrightarrow> d \<notin> set b' \<Longrightarrow> a @ [d] @ b = a' @ [d] @ b' \<Longrightarrow> a = a' \<and> b = b'"
proof (induction a arbitrary: a')
  case Nil
  then show ?case by (cases a') auto
next
  case (Cons x a)
  show ?case
  proof (cases a')
    case (Cons y ys)
    with Cons.prems have "a @ [d] @ b = ys @ [d] @ b'" and "x = y" by simp_all
    with Cons.IH [of ys] Cons.prems Cons show ?thesis by simp
  qed (use Cons.prems in simp)
qed

text \<open>Without the separator \<open>|\<close> in the names, equal keys mean equal prefix and suffix.\<close>

lemma groupKeyOf_inj:
  assumes "CHR ''|'' \<notin> set f" and "CHR ''|'' \<notin> set g"
    and "parseShardInfo f \<noteq> None" and "groupKeyOf f = groupKeyOf g"
  shows "parseShardInfo g \<noteq> None \<and> shardGroupKey g = shardGroupKey f"
proof -
  from assms(3) obtain pre suf where kf: "shardGroupKey f = Some (pre, suf)"
    using shardGroupKey_Some_iff [of f] by fastforce
  with assms(4) have eq: "groupKeyOf g = pre @ ''|'' @ suf" by (simp add: groupKeyOf_def)
  have "shardGroupKey g \<noteq> None"
  proof
    assume "shardGroupKey g = None"
    then have "g = pre @ ''|'' @ suf" using eq by (simp add: groupKeyOf_def)
    with assms(2) show False by simp
  qed
  then obtain pre' suf' where kg: "shardGroupKey g = Some (pre', suf')" by fastforce
  then have "pre' @ [CHR ''|''] @ suf' = pre @ [CHR ''|''] @ suf" using eq by (simp add: groupKeyOf_def)
  then have "pre' = pre \<and> suf' = suf"
    using shardGroupKey_parts [OF kf] shardGroupKey_parts [OF kg] assms(1,2)
    by (intro split_at_unique [of "CHR ''|''"]) auto
  with kf kg \<open>shardGroupKey g \<noteq> None\<close> show ?thesis
    using shardGroupKey_Some_iff [of g] by simp
qed

lemma checkGroups_NoneD:
  "checkGroups gs = None \<Longrightarrow> (k, f0 # fs) \<in> set gs \<Longrightarrow> parseShardInfo f0 \<noteq> None \<Longrightarrow>
     \<exists>t. shardSetComplete (f0 # fs) = (True, t)"
  by (induction gs rule: checkGroups.induct) (auto split: list.splits if_splits prod.splits bool.splits)

definition weightPathsOf :: "artifact list \<Rightarrow> string list" where
  "weightPathsOf arts = map art_path (filter (\<lambda>a. art_role a = RoleWeights) arts)"

text \<open>
  If the plan passes the shard check, and no weights path contains the byte the
  grouping uses as its separator, then the shard set of every sharded weights artifact is in the
  plan in full: each index up to the declared total, with the same prefix and suffix.
\<close>

theorem shard_check_sound:
  assumes "validateWeightShardCompleteness arts = None"
    and "\<forall>f \<in> set (weightPathsOf arts). CHR ''|'' \<notin> set f"
    and "f \<in> set (weightPathsOf arts)" and "parseShardInfo f = Some info"
    and "1 \<le> i" and "i \<le> sh_total info"
  shows "\<exists>g \<in> set (weightPathsOf arts). shardGroupKey g = shardGroupKey f
      \<and> parseShardInfo g = Some \<lparr>sh_index = i, sh_total = sh_total info\<rparr>"
proof -
  let ?fs = "weightPathsOf arts"
  let ?ms = "filter (\<lambda>g. groupKeyOf g = groupKeyOf f) ?fs"
  have "f \<in> set ?ms" using assms(3) by simp
  then have ne: "?ms \<noteq> []" by (metis empty_iff empty_set)
  let ?g = "sort_key groupIndexOf ?ms"
  have "map_of (groupShards ?fs) (groupKeyOf f) = Some ?g"
    using group_shards_partition [of ?fs "groupKeyOf f"] ne by (simp add: Let_def)
  then have mem: "(groupKeyOf f, ?g) \<in> set (groupShards ?fs)" by (rule map_of_SomeD)
  have all: "parseShardInfo g \<noteq> None \<and> shardGroupKey g = shardGroupKey f" if "g \<in> set ?g" for g
    using that assms(2,3,4) by (intro groupKeyOf_inj) auto
  from ne obtain f0 rest where g: "?g = f0 # rest"
    by (metis neq_Nil_conv sort_key_const length_0_conv length_sort)
  then have "parseShardInfo f0 \<noteq> None" using all by (metis list.set_intros(1))
  with checkGroups_NoneD [of "groupShards ?fs" "groupKeyOf f" f0 rest] assms(1) mem g
  obtain t where "shardSetComplete ?g = (True, t)"
    by (auto simp: validateWeightShardCompleteness_def weightPathsOf_def)
  then have shards: "\<forall>g \<in> set ?g. isShardOf t g" and idx: "shIdx ` set ?g = {1..t}"
    by (auto simp: shardSetComplete_iff list_all_iff)
  have "isShardOf t f" using shards \<open>f \<in> set ?ms\<close> by simp
  then have t: "t = sh_total info" using assms(4) by (simp add: isShardOf_def)
  then have "i \<in> shIdx ` set ?g" using idx assms(5,6) by auto
  then obtain g where "g \<in> set ?g" "shIdx g = i" by blast
  moreover from this have "parseShardInfo g = Some \<lparr>sh_index = i, sh_total = sh_total info\<rparr>"
    using shards t by (auto simp: isShardOf_def shIdx_def split: option.splits)
  ultimately show ?thesis using all by auto
qed

section \<open>Concrete plans\<close>

text \<open>Evaluation of the shard operations on concrete names, by the simplifier.\<close>

lemmas shard_eval = parseShardInfo_def cutSuffix_def hasSuffix_def hasPrefix_def parseASCIIDigits_def
  digitsVal_def isDigitCh_def Let_def shardGroupKey_def groupKeyOf_def groupIndexOf_def
  groupShards_def addMember_def validateWeightShardCompleteness_def weightPathsOf_def
  shardSetComplete_def

definition demoShards :: "artifact list" where
  "demoShards = map (\<lambda>p. \<lparr>art_path = p, art_sizeBytes = 1, art_digest = None, art_role = RoleWeights\<rparr>)
     [''q-00002-of-00002.gguf'', ''q-00001-of-00002.gguf'']"

lemma demoShards_ok: "validateWeightShardCompleteness demoShards = None"
  by (simp add: demoShards_def shard_eval)

theorem shard_set_complete_iff_witness:
  "shardSetComplete [''q-00002-of-00002.gguf'', ''q-00001-of-00002.gguf''] = (True, 2)"
proof (subst shard_set_complete_iff, intro conjI exI)
  let ?I = "[\<lparr>sh_index = 2, sh_total = 2\<rparr>, \<lparr>sh_index = 1, sh_total = 2\<rparr>]"
  show "map parseShardInfo [''q-00002-of-00002.gguf'', ''q-00001-of-00002.gguf''] = map Some ?I"
    by (simp add: shard_eval)
  show "\<forall>info \<in> set ?I. sh_total info = 2" "distinct (map sh_index ?I)" "set (map sh_index ?I) = {1..2}" by auto
qed simp

theorem shard_check_sound_witness:
  "\<exists>g \<in> set (weightPathsOf demoShards). parseShardInfo g = Some \<lparr>sh_index = 1, sh_total = 2\<rparr>"
proof -
  let ?f = "''q-00002-of-00002.gguf''"
  have "\<forall>f \<in> set (weightPathsOf demoShards). CHR ''|'' \<notin> set f" and "?f \<in> set (weightPathsOf demoShards)"
    by (simp_all add: demoShards_def weightPathsOf_def)
  moreover have "parseShardInfo ?f = Some \<lparr>sh_index = 2, sh_total = 2\<rparr>" by (simp add: shard_eval)
  ultimately have "\<exists>g \<in> set (weightPathsOf demoShards). shardGroupKey g = shardGroupKey ?f
      \<and> parseShardInfo g = Some \<lparr>sh_index = 1, sh_total = sh_total \<lparr>sh_index = 2, sh_total = 2\<rparr>\<rparr>"
    using demoShards_ok by (intro shard_check_sound) simp_all
  then show ?thesis by auto
qed

text \<open>
  The separator matters: the name \<open>m-|-of-00003.gguf\<close> is no shard name, so it is its own
  key, and that key is the one of the shard set \<open>m-...-of-00003.gguf\<close>. It sorts first in the
  shared group, and the check, which looks at a group's first member only, then accepts a plan
  holding one part of three.
\<close>

theorem shard_check_separator_collision:
  "validateWeightShardCompleteness
     (map (\<lambda>p. \<lparr>art_path = p, art_sizeBytes = 1, art_digest = None, art_role = RoleWeights\<rparr>)
        [''m-|-of-00003.gguf'', ''m-00001-of-00003.gguf'']) = None
   \<and> shardSetComplete [''m-00001-of-00003.gguf''] = (False, 3)"
  by (simp add: shard_eval)

end
