(* ===== verification/Op_Source.thy ===== *)
theory Op_Source
  imports Op_Lifecycle
begin

text \<open>
  Where an artifact comes from and where it goes: the safe composition of source URLs and
  destination paths (\<open>internal/operation/source.go\<close>) and the selection of companion files from a
  repository listing (\<open>internal/operation/discover.go\<close>). Paths are Unix paths.
\<close>

section \<open>Validated parts\<close>

definition isAlnumCh :: "char \<Rightarrow> bool" where
  "isAlnumCh c = (isDigitCh c \<or> isUpperCh c \<or> isLowerCh c)"

text \<open>One side of \<open>repositoryRe\<close>: an alphanumeric byte, then alphanumerics, dots, underscores and dashes.\<close>

definition nameOk :: "string \<Rightarrow> bool" where
  "nameOk w = (case w of [] \<Rightarrow> False
     | c # cs \<Rightarrow> isAlnumCh c \<and> list_all (\<lambda>c. isAlnumCh c \<or> c \<in> set ''._-'') cs)"

definition repositoryOk :: "string \<Rightarrow> bool" where
  "repositoryOk s = (case splitOn CHR ''/'' s of [a, b] \<Rightarrow> nameOk a \<and> nameOk b | _ \<Rightarrow> False)"

definition isHexCh :: "char \<Rightarrow> bool" where
  "isHexCh c = (isDigitCh c \<or> (CHR ''a'' \<le> c \<and> c \<le> CHR ''f'') \<or> (CHR ''A'' \<le> c \<and> c \<le> CHR ''F''))"

definition revisionOk :: "string \<Rightarrow> bool" where
  "revisionOk s = (7 \<le> length s \<and> length s \<le> 40 \<and> list_all isHexCh s)"

datatype path_error = PathEmpty | PathAbsolute | PathEmptySegment | PathDotSegment string

datatype source_error =
    BadRepository string | BadRevision string | BadPath string path_error | EscapesModelsDir string

fun checkSegments :: "string list \<Rightarrow> path_error option" where
  "checkSegments [] = None"
| "checkSegments (w # ws) =
     (if w = [] then Some PathEmptySegment
      else if w = ''.'' \<or> w = ''..'' then Some (PathDotSegment w)
      else checkSegments ws)"

definition safePathSegments :: "string \<Rightarrow> path_error + string list" where
  "safePathSegments p =
     (if p = [] then Inl PathEmpty
      else if hasPrefix p ''/'' then Inl PathAbsolute
      else let segments = splitOn CHR ''/'' p in
        case checkSegments segments of Some e \<Rightarrow> Inl e | None \<Rightarrow> Inr segments)"

section \<open>URL and destination\<close>

text \<open>
  A composed URL is its fixed endpoint and its unescaped path; \<open>url.URL.String\<close> percent-encodes
  the path.
\<close>

record source_url =
  su_endpoint :: string
  su_path :: string

definition huggingFaceEndpoint :: string where
  "huggingFaceEndpoint = ''https://huggingface.co''"

definition resolveArtifactURL :: "string \<Rightarrow> string \<Rightarrow> string \<Rightarrow> source_error + source_url" where
  "resolveArtifactURL repository revision artifactPath =
     (if \<not> repositoryOk repository then Inl (BadRepository repository)
      else if \<not> revisionOk revision then Inl (BadRevision revision)
      else case safePathSegments artifactPath of
             Inl e \<Rightarrow> Inl (BadPath artifactPath e)
           | Inr segments \<Rightarrow>
               let repoParts = splitOn CHR ''/'' repository in
               Inr \<lparr>su_endpoint = huggingFaceEndpoint,
                    su_path = joinWith CHR ''/'' ([''''] @ repoParts @ [''resolve'', revision] @ segments)\<rparr>)"

text \<open>\<open>filepath.Clean\<close> of an absolute path, one component at a time.\<close>

definition cleanStep :: "string list \<Rightarrow> string \<Rightarrow> string list" where
  "cleanStep st w =
     (if w = [] \<or> w = ''.'' then st else if w = ''..'' then butlast st else st @ [w])"

definition cleanAbs :: "string \<Rightarrow> string" where
  "cleanAbs p = CHR ''/'' # joinWith CHR ''/'' (foldl cleanStep [] (splitOn CHR ''/'' p))"

text \<open>\<open>filepath.Join\<close> of an absolute first element: the non-empty elements joined, then cleaned.\<close>

definition joinAbs :: "string list \<Rightarrow> string" where
  "joinAbs elems = cleanAbs (joinWith CHR ''/'' (filter (\<lambda>w. w \<noteq> []) elems))"

text \<open>\<open>absModelsDir\<close> is what \<open>filepath.Abs\<close> made of the configured directory.\<close>

definition resolveArtifactDestination :: "string \<Rightarrow> string \<Rightarrow> string \<Rightarrow> source_error + string" where
  "resolveArtifactDestination absModelsDir repository artifactPath =
     (if \<not> repositoryOk repository then Inl (BadRepository repository)
      else case safePathSegments artifactPath of
             Inl e \<Rightarrow> Inl (BadPath artifactPath e)
           | Inr segments \<Rightarrow>
               let dest = joinAbs ([absModelsDir] @ splitOn CHR ''/'' repository @ segments) in
               if dest \<noteq> absModelsDir \<and> \<not> hasPrefix dest (absModelsDir @ ''/'')
               then Inl (EscapesModelsDir dest) else Inr dest)"

section \<open>Lemmas on safe paths\<close>

text \<open>A component that no cleaning touches.\<close>

definition properSeg :: "string \<Rightarrow> bool" where
  "properSeg w \<longleftrightarrow> w \<noteq> [] \<and> w \<noteq> ''.'' \<and> w \<noteq> ''..'' \<and> CHR ''/'' \<notin> set w"

definition cleanDir :: "string \<Rightarrow> bool" where
  "cleanDir d \<longleftrightarrow> (\<exists>ws. d = CHR ''/'' # joinWith CHR ''/'' ws \<and> list_all properSeg ws)"

lemma checkSegments_None_iff:
  "checkSegments ws = None \<longleftrightarrow> (\<forall>w \<in> set ws. w \<noteq> [] \<and> w \<noteq> ''.'' \<and> w \<noteq> ''..'')"
  by (induction ws) auto

lemma safePathSegments_Inr_iff:
  "safePathSegments p = Inr ws \<longleftrightarrow> ws = splitOn CHR ''/'' p \<and> list_all properSeg ws"
proof (cases "p = [] \<or> hasPrefix p ''/''")
  case True
  then have "[] \<in> set (splitOn CHR ''/'' p)"
    by (auto simp: hasPrefix_iff)
  then have "\<not> list_all properSeg (splitOn CHR ''/'' p)"
    by (auto simp: list_all_iff properSeg_def)
  with True show ?thesis by (auto simp: safePathSegments_def)
next
  case False
  have "list_all properSeg (splitOn CHR ''/'' p) \<longleftrightarrow> checkSegments (splitOn CHR ''/'' p) = None"
    by (auto simp: list_all_iff properSeg_def checkSegments_None_iff dest: splitOn_no_sep)
  with False show ?thesis
    by (auto simp: safePathSegments_def Let_def split: option.splits)
qed

lemma nameOk_properSeg: "nameOk w \<Longrightarrow> properSeg w"
  by (auto simp: nameOk_def properSeg_def isAlnumCh_def isDigitCh_def isUpperCh_def isLowerCh_def
      list_all_iff split: list.splits)

lemma repositoryOk_iff:
  "repositoryOk s \<longleftrightarrow> (\<exists>a b. s = a @ ''/'' @ b \<and> nameOk a \<and> nameOk b)"
proof
  assume "repositoryOk s"
  then obtain a b where "splitOn CHR ''/'' s = [a, b]" "nameOk a" "nameOk b"
    by (auto simp: repositoryOk_def split: list.splits)
  moreover from this have "s = joinWith CHR ''/'' [a, b]" by (metis joinWith_splitOn)
  ultimately show "\<exists>a b. s = a @ ''/'' @ b \<and> nameOk a \<and> nameOk b" by auto
next
  assume "\<exists>a b. s = a @ ''/'' @ b \<and> nameOk a \<and> nameOk b"
  then obtain a b where s: "s = a @ CHR ''/'' # b" "nameOk a" "nameOk b" by auto
  then have "splitOn CHR ''/'' s = [a, b]"
    using nameOk_properSeg [of a] nameOk_properSeg [of b]
    by (simp add: splitOn_append_sep splitOn_single properSeg_def)
  with s show "repositoryOk s" by (simp add: repositoryOk_def)
qed

lemma foldl_cleanStep_proper: "list_all properSeg ws \<Longrightarrow> foldl cleanStep st ws = st @ ws"
  by (induction ws arbitrary: st) (auto simp: cleanStep_def properSeg_def)

lemma splitOn_Cons_sep [simp]: "splitOn d (d # s) = [] # splitOn d s"
  by simp

lemma cleanAbs_proper:
  assumes "list_all properSeg ws" and "ws \<noteq> []"
  shows "cleanAbs (CHR ''/'' # joinWith CHR ''/'' ws) = CHR ''/'' # joinWith CHR ''/'' ws"
proof -
  have "splitOn CHR ''/'' (joinWith CHR ''/'' ws) = ws"
    using assms by (intro splitOn_joinWith) (auto simp: list_all_iff properSeg_def)
  then show ?thesis
    using assms(1) by (simp add: cleanAbs_def cleanStep_def foldl_cleanStep_proper)
qed

lemma joinWith_append:
  "xs \<noteq> [] \<Longrightarrow> ys \<noteq> [] \<Longrightarrow> joinWith d (xs @ ys) = joinWith d xs @ d # joinWith d ys"
proof (induction xs)
  case (Cons x xs)
  then show ?case by (cases "xs = []") (simp_all add: joinWith_Cons)
qed simp

lemma joinAbs_proper:
  assumes "cleanDir d" and "list_all properSeg ws" and "ws \<noteq> []"
  shows "joinAbs (d # ws) = (if d = ''/'' then CHR ''/'' # joinWith CHR ''/'' ws else d @ ''/'' @ joinWith CHR ''/'' ws)"
proof -
  from assms(1) obtain ds where d: "d = CHR ''/'' # joinWith CHR ''/'' ds" and ds: "list_all properSeg ds"
    by (auto simp: cleanDir_def)
  have f: "filter (\<lambda>w. w \<noteq> []) (d # ws) = d # ws"
    using assms(2) d by (auto simp: list_all_iff properSeg_def intro!: filter_True)
  show ?thesis
  proof (cases "ds = []")
    case True
    then have "joinWith CHR ''/'' (d # ws) = CHR ''/'' # CHR ''/'' # joinWith CHR ''/'' ws"
      using assms(3) d by (simp add: joinWith_Cons)
    moreover have "cleanAbs (CHR ''/'' # CHR ''/'' # joinWith CHR ''/'' ws) = cleanAbs (CHR ''/'' # joinWith CHR ''/'' ws)"
      by (simp add: cleanAbs_def cleanStep_def)
    ultimately show ?thesis
      using True assms(2,3) d unfolding joinAbs_def f by (simp add: cleanAbs_proper)
  next
    case False
    then have "joinWith CHR ''/'' (d # ws) = CHR ''/'' # joinWith CHR ''/'' (ds @ ws)"
      using assms(3) d by (simp add: joinWith_Cons joinWith_append)
    moreover have "d \<noteq> ''/''"
      using False d ds by (cases ds; cases "tl ds") (auto simp: properSeg_def joinWith_Cons)
    moreover have "cleanAbs (CHR ''/'' # joinWith CHR ''/'' (ds @ ws)) = CHR ''/'' # joinWith CHR ''/'' (ds @ ws)"
      using ds assms(2) False by (intro cleanAbs_proper) simp_all
    moreover have "d @ ''/'' @ joinWith CHR ''/'' ws = CHR ''/'' # joinWith CHR ''/'' (ds @ ws)"
      using False assms(3) d by (simp add: joinWith_append)
    ultimately show ?thesis
      unfolding joinAbs_def f by simp
  qed
qed

lemma repositoryOk_parts:
  assumes "repositoryOk r"
  shows "list_all properSeg (splitOn CHR ''/'' r) \<and> splitOn CHR ''/'' r \<noteq> []"
  using assms nameOk_properSeg by (auto simp: repositoryOk_def split: list.splits)

text \<open>
  Under a clean absolute models directory other than the root, a destination is composed
  exactly for a well-formed repository and a safe artifact path, and it is then the directory, the
  repository and the path joined by slashes: strictly inside the models directory, and different
  for different repositories or paths. Nothing else is ever returned.
\<close>

theorem destination_composed:
  assumes "cleanDir dir" and "dir \<noteq> ''/''"
  shows "resolveArtifactDestination dir repo path = Inr dest \<longleftrightarrow>
     repositoryOk repo \<and> list_all properSeg (splitOn CHR ''/'' path)
     \<and> dest = dir @ ''/'' @ repo @ ''/'' @ path"
proof -
  let ?rs = "splitOn CHR ''/'' repo" and ?ps = "splitOn CHR ''/'' path"
  have join: "joinAbs ([dir] @ ?rs @ ?ps) = dir @ ''/'' @ repo @ ''/'' @ path"
    if "repositoryOk repo" and "list_all properSeg ?ps"
    using that repositoryOk_parts [of repo] assms joinAbs_proper [OF assms(1), of "?rs @ ?ps"]
    by (simp add: joinWith_append)
  show ?thesis
  proof (cases "repositoryOk repo \<and> list_all properSeg ?ps")
    case True
    then have "safePathSegments path = Inr ?ps" by (simp add: safePathSegments_Inr_iff)
    moreover have "hasPrefix (dir @ ''/'' @ repo @ ''/'' @ path) (dir @ ''/'')"
      by (simp add: hasPrefix_iff)
    ultimately show ?thesis
      using True join by (auto simp: resolveArtifactDestination_def Let_def)
  next
    case False
    have "safePathSegments path \<noteq> Inr ws" if "\<not> list_all properSeg ?ps" for ws
      using that by (simp add: safePathSegments_Inr_iff)
    with False show ?thesis
      by (cases "safePathSegments path") (auto simp: resolveArtifactDestination_def Let_def)
  qed
qed

lemma destination_inj:
  assumes "cleanDir dir" and "dir \<noteq> ''/''"
    and "resolveArtifactDestination dir r1 p1 = Inr d" and "resolveArtifactDestination dir r2 p2 = Inr d"
  shows "r1 = r2 \<and> p1 = p2"
proof -
  from assms have ok: "repositoryOk r1" "repositoryOk r2" and eq: "r1 @ ''/'' @ p1 = r2 @ ''/'' @ p2"
    by (auto simp: destination_composed)
  from ok(1) obtain a1 b1 where r1: "r1 = a1 @ ''/'' @ b1" "properSeg a1" "properSeg b1"
    unfolding repositoryOk_iff using nameOk_properSeg by blast
  from ok(2) obtain a2 b2 where r2: "r2 = a2 @ ''/'' @ b2" "properSeg a2" "properSeg b2"
    unfolding repositoryOk_iff using nameOk_properSeg by blast
  have "splitOn CHR ''/'' (r1 @ ''/'' @ p1) = a1 # b1 # splitOn CHR ''/'' p1"
    and "splitOn CHR ''/'' (r2 @ ''/'' @ p2) = a2 # b2 # splitOn CHR ''/'' p2"
    using r1 r2 by (simp_all add: splitOn_append_sep properSeg_def)
  with eq have "a1 = a2" "b1 = b2" "splitOn CHR ''/'' p1 = splitOn CHR ''/'' p2" by simp_all
  then show ?thesis using r1 r2 by (metis joinWith_splitOn)
qed

end
