(* ===== verification/Op_Discover.thy ===== *)
theory Op_Discover
  imports Op_Source
begin

text \<open>
  Companion discovery of \<open>internal/operation/discover.go\<close>: which files of a repository listing an
  install plan is made of. The HTTP call is a parameter, its result either an error or the
  listing. \<open>strings.ToLower\<close> acts on ASCII here, which decides every comparison the code makes
  (all patterns are ASCII and contain no letter with a non-ASCII upper case).
\<close>

record hf_entry =
  hf_path :: string
  hf_size :: i64
  hf_type :: string

definition isGGUFFile :: "string \<Rightarrow> bool" where
  "isGGUFFile path = hasSuffix (toLower path) ''.gguf''"

definition knownCompanionPatterns :: "(string \<times> artifact_role) list" where
  "knownCompanionPatterns =
     [(''mmproj-'', RoleProjector), (''dflash-'', RoleDraft), (''mtp-'', RoleDraft), (''eagle3-'', RoleDraft)]"

definition detectCompanionRole :: "string \<Rightarrow> artifact_role option" where
  "detectCompanionRole path =
     (let filename = (case lastIndex path ''/'' of Some i \<Rightarrow> drop (i + 1) path | None \<Rightarrow> path);
          filename = toLower filename
      in map_option snd (find (\<lambda>(p, _). hasPrefix filename p) knownCompanionPatterns))"

text \<open>The two passes over the listing, as one fold in listing order.\<close>

fun classify :: "hf_entry list \<Rightarrow> artifact list \<times> artifact list" where
  "classify [] = ([], [])"
| "classify (e # es) =
     (let (weights, companions) = classify es;
          a = \<lparr>art_path = hf_path e, art_sizeBytes = hf_size e, art_digest = None, art_role = RoleWeights\<rparr>
      in if hf_type e \<noteq> ''file'' then (weights, companions)
         else if \<not> isGGUFFile (hf_path e) then (weights, companions)
         else case detectCompanionRole (hf_path e) of
                Some role \<Rightarrow> (weights, a\<lparr>art_role := role\<rparr> # companions)
              | None \<Rightarrow> (a # weights, companions))"

text \<open>The loop over one role's candidates: the smallest non-matching one and the first match.\<close>

definition pickStep :: "string \<Rightarrow> artifact option \<times> artifact option \<Rightarrow> artifact \<Rightarrow> artifact option \<times> artifact option" where
  "pickStep flt st a =
     (case st of (best, bestFilter) \<Rightarrow>
        if contains (art_path a) flt
        then (best, case bestFilter of None \<Rightarrow> Some a | Some b \<Rightarrow> Some b)
        else (case best of
                None \<Rightarrow> (Some a, bestFilter)
              | Some b \<Rightarrow> (if sint (art_sizeBytes a) < sint (art_sizeBytes b) then Some a else Some b, bestFilter)))"

definition pickVariant :: "string \<Rightarrow> artifact list \<Rightarrow> artifact option" where
  "pickVariant flt grp =
     (case grp of
        [a] \<Rightarrow> Some a
      | _ \<Rightarrow> (case foldl (pickStep flt) (None, None) grp of
               (_, Some b) \<Rightarrow> Some b
             | (best, None) \<Rightarrow> best))"

text \<open>The roles in order of first appearance.\<close>

fun roleOrder :: "artifact list \<Rightarrow> artifact_role list \<Rightarrow> artifact_role list" where
  "roleOrder [] acc = acc"
| "roleOrder (a # as) acc = roleOrder as (if art_role a \<in> set acc then acc else acc @ [art_role a])"

definition selectCompanionVariants :: "artifact list \<Rightarrow> string \<Rightarrow> artifact list" where
  "selectCompanionVariants companions flt =
     map (\<lambda>role. the (pickVariant flt (filter (\<lambda>a. art_role a = role) companions))) (roleOrder companions [])"

datatype discover_error = FetchFailed string | NoWeightMatches string string

definition discoverCompanions ::
  "(string \<Rightarrow> string \<Rightarrow> string + hf_entry list) \<Rightarrow> string \<Rightarrow> string \<Rightarrow> string \<Rightarrow> discover_error + artifact list" where
  "discoverCompanions fetchModelInfo repository revision weightFilter =
     (case fetchModelInfo repository revision of
        Inl e \<Rightarrow> Inl (FetchFailed e)
      | Inr entries \<Rightarrow>
          (let (weights, companions) = classify entries in
           if weightFilter \<noteq> []
           then (let matched = filter (\<lambda>w. contains (art_path w) weightFilter) weights in
                 if matched = [] then Inl (NoWeightMatches repository weightFilter)
                 else Inr (matched @ selectCompanionVariants companions weightFilter))
           else Inr (weights @ companions)))"

definition filterGGUFFiles :: "artifact list \<Rightarrow> artifact list \<times> artifact list" where
  "filterGGUFFiles artifacts =
     (let gguf = filter (\<lambda>a. isGGUFFile (art_path a)) artifacts
      in (filter (\<lambda>a. art_role a = RoleWeights) gguf, filter (\<lambda>a. art_role a \<noteq> RoleWeights) gguf))"

section \<open>Lemmas\<close>

lemma set_roleOrder: "set (roleOrder as acc) = set acc \<union> art_role ` set as"
  by (induction as arbitrary: acc) auto

lemma distinct_roleOrder: "distinct acc \<Longrightarrow> distinct (roleOrder as acc)"
  by (induction as arbitrary: acc) auto

lemma pickStep_fold:
  "foldl (pickStep flt) (None, None) grp = (best, bf) \<Longrightarrow>
     (best = None \<longleftrightarrow> (\<forall>a \<in> set grp. contains (art_path a) flt))
     \<and> (\<forall>b. best = Some b \<longrightarrow> b \<in> set grp
          \<and> (\<forall>a \<in> set grp. contains (art_path a) flt \<or> sint (art_sizeBytes b) \<le> sint (art_sizeBytes a)))
     \<and> bf = find (\<lambda>a. contains (art_path a) flt) grp"
proof (induction grp arbitrary: best bf rule: rev_induct)
  case (snoc a grp)
  obtain best0 bf0 where st: "foldl (pickStep flt) (None, None) grp = (best0, bf0)"
    by (cases "foldl (pickStep flt) (None, None) grp") auto
  have find: "find P (xs @ [a]) = (case find P xs of None \<Rightarrow> if P a then Some a else None | Some y \<Rightarrow> Some y)"
    for P :: "artifact \<Rightarrow> bool" and xs by (induction xs) auto
  from snoc.prems st have step: "pickStep flt (best0, bf0) a = (best, bf)" by simp
  show ?case
    using snoc.IH [OF st] step
    by (cases "contains (art_path a) flt"; cases best0) (auto simp: pickStep_def find split: option.splits if_splits)
qed simp

lemma find_SomeD: "find P xs = Some x \<Longrightarrow> x \<in> set xs \<and> P x"
  by (auto simp: find_Some_iff)

lemma pickVariant_spec:
  assumes "grp \<noteq> []"
  shows "\<exists>a \<in> set grp. pickVariant flt grp = Some a
    \<and> (contains (art_path a) flt
       \<or> (\<forall>b \<in> set grp. \<not> contains (art_path b) flt \<and> sint (art_sizeBytes a) \<le> sint (art_sizeBytes b)))"
proof -
  obtain best bf where st: "foldl (pickStep flt) (None, None) grp = (best, bf)"
    by (cases "foldl (pickStep flt) (None, None) grp") auto
  note spec = pickStep_fold [OF st]
  consider a where "grp = [a]" | "\<exists>a b as. grp = a # b # as"
    using assms by (cases grp; cases "tl grp") auto
  then show ?thesis
  proof cases
    case 2
    then have v: "pickVariant flt grp = (case bf of Some b \<Rightarrow> Some b | None \<Rightarrow> best)"
      using st by (auto simp: pickVariant_def split: option.splits)
    show ?thesis
    proof (cases bf)
      case (Some b)
      with spec have "find (\<lambda>a. contains (art_path a) flt) grp = Some b" by simp
      from find_SomeD [OF this] v Some show ?thesis by auto
    next
      case None
      then have no: "\<forall>a \<in> set grp. \<not> contains (art_path a) flt" using spec by (simp add: find_None_iff)
      then obtain b where "best = Some b" using spec assms by (cases best) (auto simp: neq_Nil_conv)
      then show ?thesis using spec v None no by auto
    qed
  qed (auto simp: pickVariant_def)
qed

text \<open>
  With a filter active, each companion role present in the listing is represented by
  exactly one of its own files: one whose path matches the filter if there is any, and a smallest
  one otherwise.
\<close>

theorem select_one_variant_per_role:
  "distinct (map art_role (selectCompanionVariants cs flt))
   \<and> art_role ` set (selectCompanionVariants cs flt) = art_role ` set cs
   \<and> (\<forall>a. a \<in> set (selectCompanionVariants cs flt) \<longrightarrow> a \<in> set cs
        \<and> (contains (art_path a) flt
           \<or> (\<forall>b. b \<in> set cs \<and> art_role b = art_role a \<longrightarrow>
                 \<not> contains (art_path b) flt \<and> sint (art_sizeBytes a) \<le> sint (art_sizeBytes b))))"
proof -
  let ?grp = "\<lambda>role. filter (\<lambda>a. art_role a = role) cs"
  let ?pick = "\<lambda>role. the (pickVariant flt (?grp role))"
  have ne: "?grp role \<noteq> []" if "role \<in> art_role ` set cs" for role
    using that by (auto simp: filter_empty_conv)
  have pick: "?pick role \<in> set cs \<and> art_role (?pick role) = role
      \<and> (contains (art_path (?pick role)) flt
         \<or> (\<forall>b. b \<in> set cs \<and> art_role b = role \<longrightarrow>
              \<not> contains (art_path b) flt \<and> sint (art_sizeBytes (?pick role)) \<le> sint (art_sizeBytes b)))"
    if "role \<in> art_role ` set cs" for role
    using pickVariant_spec [OF ne [OF that], of flt] by auto
  have roles: "set (roleOrder cs []) = art_role ` set cs" by (simp add: set_roleOrder)
  have "map art_role (selectCompanionVariants cs flt) = roleOrder cs []"
    unfolding selectCompanionVariants_def map_map
    by (rule map_idI) (use pick roles in auto)
  moreover from this have "art_role ` set (selectCompanionVariants cs flt) = set (roleOrder cs [])"
    by (metis image_set)
  moreover have "a \<in> ?pick ` art_role ` set cs" if "a \<in> set (selectCompanionVariants cs flt)" for a
    using that roles by (auto simp: selectCompanionVariants_def)
  ultimately show ?thesis using pick roles by (fastforce simp: distinct_roleOrder)
qed

theorem select_one_variant_per_role_witness:
  "distinct (map art_role (selectCompanionVariants
     [\<lparr>art_path = ''mmproj-a'', art_sizeBytes = 2, art_digest = None, art_role = RoleProjector\<rparr>,
      \<lparr>art_path = ''mmproj-b'', art_sizeBytes = 1, art_digest = None, art_role = RoleProjector\<rparr>] ''q4''))"
  using select_one_variant_per_role by blast

end
