(* ===== verification/Op_Store.thy ===== *)
theory Op_Store
  imports Op_Source "HOL-Library.AList" "HOL-Library.Product_Lexorder"
begin

text \<open>
  The operation store of \<open>internal/operation/store.go\<close>: one JSON record per operation in a
  directory, with startup recovery (\<open>recover.go\<close>), the cleanup of abandoned partial files
  (\<open>cleanup.go\<close>) and the cancel handler of \<open>internal/server/apimodeloperations.go\<close>.

  The directory is an association list from operation ids (file names without \<open>.json\<close>) to file
  contents, a content being a record that decodes or a malformed file. JSON encoding followed by
  decoding is the identity on records. Whether a write, a rename or a removal succeeds is up to
  the host: such an outcome is a boolean or a predicate the operation takes.
\<close>

section \<open>Records and files\<close>

record op_record =
  rc_ID :: string
  rc_Phase :: phase
  rc_SourceRepository :: string
  rc_SourceRevision :: string
  rc_ModelID :: string
  rc_Artifacts :: "artifact_progress list"
  rc_Registration :: registration
  rc_CreatedAt :: int
  rc_UpdatedAt :: int
  rc_Error :: "op_error option"
  rc_Warnings :: "string list"

definition toRecord :: "operation \<Rightarrow> op_record" where
  "toRecord op = \<lparr>rc_ID = op_id op, rc_Phase = op_phase op,
     rc_SourceRepository = op_sourceRepository op, rc_SourceRevision = op_sourceRevision op,
     rc_ModelID = op_modelID op, rc_Artifacts = op_artifacts op,
     rc_Registration = op_registration op, rc_CreatedAt = op_createdAt op,
     rc_UpdatedAt = op_updatedAt op, rc_Error = op_error op, rc_Warnings = op_warnings op\<rparr>"

definition toOperation :: "op_record \<Rightarrow> operation" where
  "toOperation r = \<lparr>op_id = rc_ID r, op_phase = rc_Phase r,
     op_sourceRepository = rc_SourceRepository r, op_sourceRevision = rc_SourceRevision r,
     op_modelID = rc_ModelID r, op_artifacts = rc_Artifacts r,
     op_registration = rc_Registration r, op_createdAt = rc_CreatedAt r,
     op_updatedAt = rc_UpdatedAt r, op_error = rc_Error r, op_warnings = rc_Warnings r\<rparr>"

lemma toOperation_toRecord [simp]: "toOperation (toRecord op) = op"
  by (simp add: toOperation_def toRecord_def)

datatype op_file = Json op_record | Malformed

record op_store =
  files :: "(string \<times> op_file) list"
  dirReadable :: bool
  maxTerminal :: int

datatype store_error =
    ErrNotFound string | ErrDecode string | ErrAlreadyTerminal phase phase | ErrWrite string
  | ErrListDir | ErrRemove string

section \<open>Load and save\<close>

definition loadOp :: "string \<Rightarrow> op_store \<Rightarrow> store_error + operation" where
  "loadOp k s =
     (case map_of (files s) k of
        None \<Rightarrow> Inl (ErrNotFound k)
      | Some Malformed \<Rightarrow> Inl (ErrDecode k)
      | Some (Json r) \<Rightarrow> Inr (toOperation r))"

text \<open>\<open>atomicWriteFile\<close>: a temporary file, then a rename; a failure of either leaves the old file.\<close>

definition atomicWrite :: "bool \<Rightarrow> operation \<Rightarrow> op_store \<Rightarrow> store_error option \<times> op_store" where
  "atomicWrite wok op s =
     (if wok then (None, s\<lparr>files := AList.update (op_id op) (Json (toRecord op)) (files s)\<rparr>)
      else (Some (ErrWrite (op_id op)), s))"

definition saveOp :: "bool \<Rightarrow> operation \<Rightarrow> op_store \<Rightarrow> store_error option \<times> op_store" where
  "saveOp wok op s =
     (case loadOp (op_id op) s of
        Inr existing \<Rightarrow>
          if terminal (op_phase existing) \<and> op_phase existing \<noteq> op_phase op
          then (Some (ErrAlreadyTerminal (op_phase existing) (op_phase op)), s)
          else atomicWrite wok op s
      | Inl _ \<Rightarrow> atomicWrite wok op s)"

section \<open>List and prune\<close>

definition loadable :: "op_store \<Rightarrow> operation list" where
  "loadable s = List.map_filter (\<lambda>(k, _). case loadOp k s of Inr op \<Rightarrow> Some op | Inl _ \<Rightarrow> None) (files s)"

text \<open>Most recently created first, larger id first among equal times.\<close>

definition listOps :: "op_store \<Rightarrow> store_error + operation list" where
  "listOps s =
     (if \<not> dirReadable s then Inl ErrListDir
      else Inr (rev (sort_key (\<lambda>op. (op_createdAt op, op_id op)) (loadable s))))"

definition removeFile :: "string \<Rightarrow> op_store \<Rightarrow> op_store" where
  "removeFile k s = s\<lparr>files := AList.delete k (files s)\<rparr>"

fun pruneLoop :: "(string \<Rightarrow> bool) \<Rightarrow> int \<Rightarrow> operation list \<Rightarrow> op_store \<Rightarrow> store_error option \<times> op_store" where
  "pruneLoop rmok kept [] s = (None, s)"
| "pruneLoop rmok kept (op # ops) s =
     (if \<not> terminal (op_phase op) then pruneLoop rmok kept ops s
      else let kept = kept + 1 in
        if kept \<le> maxTerminal s then pruneLoop rmok kept ops s
        else if rmok (op_id op) then pruneLoop rmok kept ops (removeFile (op_id op) s)
        else (Some (ErrRemove (op_id op)), s))"

definition prune :: "(string \<Rightarrow> bool) \<Rightarrow> op_store \<Rightarrow> store_error option \<times> op_store" where
  "prune rmok s =
     (case listOps s of Inl e \<Rightarrow> (Some e, s) | Inr ops \<Rightarrow> pruneLoop rmok 0 ops s)"

section \<open>Startup recovery\<close>

fun phaseString :: "phase \<Rightarrow> string" where
  "phaseString PhaseQueued = ''queued''"
| "phaseString PhasePreflighting = ''preflighting''"
| "phaseString PhaseResolving = ''resolving''"
| "phaseString PhaseDownloading = ''downloading''"
| "phaseString PhaseVerifying = ''verifying''"
| "phaseString PhaseInstalling = ''installing''"
| "phaseString PhaseRegistering = ''registering''"
| "phaseString PhaseReloading = ''reloading''"
| "phaseString PhaseSucceeded = ''succeeded''"
| "phaseString PhaseCancelled = ''cancelled''"
| "phaseString PhaseFailed = ''failed''"
| "phaseString (PhaseUnknown s) = s"

definition interruptedWarningPrefix :: string where
  "interruptedWarningPrefix = ''interrupted by a server restart while at phase ''"

text \<open>The flag says whether the record changed.\<close>

definition markInterrupted :: "int \<Rightarrow> operation \<Rightarrow> bool \<times> operation" where
  "markInterrupted now op =
     (let msg = interruptedWarningPrefix @ phaseString (op_phase op) in
      if op_warnings op \<noteq> [] \<and> last (op_warnings op) = msg then (False, op)
      else (True, op\<lparr>op_warnings := op_warnings op @ [msg], op_updatedAt := now\<rparr>))"

fun recoverLoop :: "(string \<Rightarrow> bool) \<Rightarrow> int \<Rightarrow> operation list \<Rightarrow> operation list \<Rightarrow> op_store
    \<Rightarrow> operation list \<times> store_error option \<times> op_store" where
  "recoverLoop wok now [] recovered s = (recovered, None, s)"
| "recoverLoop wok now (op # ops) recovered s =
     (if terminal (op_phase op) then recoverLoop wok now ops recovered s
      else case markInterrupted now op of
             (False, op') \<Rightarrow> recoverLoop wok now ops (recovered @ [op']) s
           | (True, op') \<Rightarrow>
               (case saveOp (wok (op_id op')) op' s of
                  (Some e, s') \<Rightarrow> (recovered, Some e, s')
                | (None, s') \<Rightarrow> recoverLoop wok now ops (recovered @ [op']) s'))"

definition recover :: "(string \<Rightarrow> bool) \<Rightarrow> int \<Rightarrow> op_store \<Rightarrow> operation list \<times> store_error option \<times> op_store" where
  "recover wok now s =
     (case listOps s of
        Inl e \<Rightarrow> ([], Some e, s)
      | Inr ops \<Rightarrow> recoverLoop wok now ops [] s)"

section \<open>Cleanup of abandoned partial files\<close>

text \<open>The host's files by path; \<open>rmok\<close> says which removals of existing files succeed.\<close>

fun cleanupArtifacts :: "(string \<Rightarrow> bool) \<Rightarrow> string \<Rightarrow> string \<Rightarrow> artifact_progress list
    \<Rightarrow> nat \<times> (string \<rightharpoonup> 'c) \<Rightarrow> bool \<times> nat \<times> (string \<rightharpoonup> 'c)" where
  "cleanupArtifacts rmok dir repo [] (n, fs) = (True, n, fs)"
| "cleanupArtifacts rmok dir repo (a # as) (n, fs) =
     (case resolveArtifactDestination dir repo (ap_path a) of
        Inl _ \<Rightarrow> cleanupArtifacts rmok dir repo as (n, fs)
      | Inr dest \<Rightarrow>
          let part = dest @ ''.part'' in
          (case fs part of
             None \<Rightarrow> cleanupArtifacts rmok dir repo as (n, fs)
           | Some _ \<Rightarrow>
               if rmok part then cleanupArtifacts rmok dir repo as (n + 1, fs(part := None))
               else (False, n, fs)))"

fun cleanupLoop :: "(string \<Rightarrow> bool) \<Rightarrow> string \<Rightarrow> operation list \<Rightarrow> nat \<times> (string \<rightharpoonup> 'c)
    \<Rightarrow> store_error option \<times> nat \<times> (string \<rightharpoonup> 'c)" where
  "cleanupLoop rmok dir [] (n, fs) = (None, n, fs)"
| "cleanupLoop rmok dir (op # ops) (n, fs) =
     (if op_phase op \<noteq> PhaseCancelled then cleanupLoop rmok dir ops (n, fs)
      else case cleanupArtifacts rmok dir (op_sourceRepository op) (op_artifacts op) (n, fs) of
             (True, n', fs') \<Rightarrow> cleanupLoop rmok dir ops (n', fs')
           | (False, n', fs') \<Rightarrow> (Some (ErrRemove (op_id op)), n', fs'))"

definition cleanupAbandonedPartials :: "(string \<Rightarrow> bool) \<Rightarrow> string \<Rightarrow> op_store \<Rightarrow> (string \<rightharpoonup> 'c)
    \<Rightarrow> store_error option \<times> nat \<times> (string \<rightharpoonup> 'c)" where
  "cleanupAbandonedPartials rmok dir s fs =
     (case listOps s of
        Inl e \<Rightarrow> (Some e, 0, fs)
      | Inr ops \<Rightarrow> cleanupLoop rmok dir ops (0, fs))"

section \<open>The cancel handler\<close>

text \<open>The status code the handler writes, and the store it leaves.\<close>

definition handleCancel :: "bool \<Rightarrow> int \<Rightarrow> string \<Rightarrow> op_store \<Rightarrow> nat \<times> op_store" where
  "handleCancel wok now k s =
     (case loadOp k s of
        Inl (ErrNotFound _) \<Rightarrow> (404, s)
      | Inl _ \<Rightarrow> (500, s)
      | Inr op \<Rightarrow>
          (case cancelOp now op of
             Inl _ \<Rightarrow> (409, s)
           | Inr op' \<Rightarrow>
               (case saveOp wok op' s of
                  (Some _, s') \<Rightarrow> (500, s')
                | (None, s') \<Rightarrow> (202, s'))))"

section \<open>The interface: a keyed store whose final records are never changed back\<close>

definition lookup :: "op_store \<Rightarrow> string \<Rightarrow> operation option" where
  "lookup s k = (case loadOp k s of Inr op \<Rightarrow> Some op | Inl _ \<Rightarrow> None)"

definition put :: "bool \<Rightarrow> operation \<Rightarrow> op_store \<Rightarrow> op_store" where
  "put wok op s = snd (saveOp wok op s)"

text \<open>
  What the executor and the handlers rely on: a write affects its own key only, and a record that
  is final stays, up to \<open>agree\<close>, whatever is written later. The writers are not trusted: the
  record they write and the outcome of the write are arbitrary.
\<close>

locale record_store =
  fixes get :: "'s \<Rightarrow> 'k \<Rightarrow> 'r option"
    and set :: "bool \<Rightarrow> 'r \<Rightarrow> 's \<Rightarrow> 's"
    and key :: "'r \<Rightarrow> 'k"
    and final :: "'r \<Rightarrow> bool"
    and agree :: "'r \<Rightarrow> 'r \<Rightarrow> bool"
  assumes get_other: "k \<noteq> key r \<Longrightarrow> get (set w r s) k = get s k"
    and get_final: "get s (key r) = Some r0 \<Longrightarrow> final r0 \<Longrightarrow> \<exists>r1. get (set w r s) (key r) = Some r1 \<and> agree r0 r1"
    and agree_refl: "agree r r"
    and agree_trans: "agree r0 r1 \<Longrightarrow> agree r1 r2 \<Longrightarrow> agree r0 r2"
    and agree_final: "agree r0 r1 \<Longrightarrow> final r0 \<Longrightarrow> final r1"
begin

lemma step_final:
  "get s k = Some r0 \<Longrightarrow> final r0 \<Longrightarrow> \<exists>r1. get (set w r s) k = Some r1 \<and> agree r0 r1"
  by (cases "k = key r") (use get_final agree_refl get_other in auto)

lemma run_final:
  "get s k = Some r0 \<Longrightarrow> final r0 \<Longrightarrow> \<exists>r1. get (fold (\<lambda>(w, r). set w r) ws s) k = Some r1 \<and> agree r0 r1"
proof (induction ws arbitrary: s r0)
  case Nil
  then show ?case using agree_refl by auto
next
  case (Cons wr ws)
  obtain w r where wr: "wr = (w, r)" by (cases wr)
  from step_final [OF Cons.prems] obtain r1 where r1: "get (set w r s) k = Some r1" "agree r0 r1" by blast
  with Cons.prems agree_final have "final r1" by blast
  with Cons.IH r1 obtain r2 where "get (fold (\<lambda>(w, r). set w r) ws (set w r s)) k = Some r2" "agree r1 r2"
    by blast
  with r1 agree_trans wr show ?case by auto
qed

lemma run_other:
  "\<forall>(w, r) \<in> Set.insert (w0, r0) (List.set ws). k \<noteq> key r \<Longrightarrow> get (fold (\<lambda>(w, r). set w r) ws s) k = get s k"
  by (induction ws arbitrary: s) (auto simp: get_other)

end

lemma lookup_atomicWrite:
  "lookup (snd (atomicWrite wok op s)) k = (if wok \<and> k = op_id op then Some op else lookup s k)"
  by (simp add: lookup_def loadOp_def atomicWrite_def update_conv')

lemma lookup_put:
  "lookup (put wok op s) k =
     (if k = op_id op \<and> wok
         \<and> \<not> (\<exists>e. lookup s k = Some e \<and> terminal (op_phase e) \<and> op_phase e \<noteq> op_phase op)
      then Some op else lookup s k)"
proof (cases "loadOp (op_id op) s")
  case (Inl e)
  then have "lookup s (op_id op) = None" by (simp add: lookup_def)
  with Inl show ?thesis by (auto simp: put_def saveOp_def lookup_atomicWrite)
next
  case (Inr e)
  then have "lookup s (op_id op) = Some e" by (simp add: lookup_def)
  with Inr show ?thesis by (auto simp: put_def saveOp_def lookup_atomicWrite)
qed

interpretation opstore: record_store lookup put op_id "\<lambda>op. terminal (op_phase op)" "\<lambda>a b. op_phase b = op_phase a"
proof
  show "lookup s (op_id r) = Some r0 \<Longrightarrow> terminal (op_phase r0) \<Longrightarrow>
      \<exists>r1. lookup (put w r s) (op_id r) = Some r1 \<and> op_phase r1 = op_phase r0" for s r r0 w
    by (auto simp: lookup_put)
qed (simp_all add: lookup_put)

text \<open>
  Once the stored record of an operation is terminal, no sequence of saves, by whatever
  writer, of whatever (stale) operation values, with whatever write failures, changes its phase or
  makes it disappear.
\<close>

theorem terminal_record_sticky:
  assumes "lookup s k = Some op" and "terminal (op_phase op)"
  shows "\<exists>op'. lookup (fold (\<lambda>(w, r). put w r) ws s) k = Some op' \<and> op_phase op' = op_phase op"
  using assms by (rule opstore.run_final)

section \<open>The well-formed store\<close>

text \<open>The server writes a record under its own id, so ids and file names agree.\<close>

definition store_inv :: "op_store \<Rightarrow> bool" where
  "store_inv s \<longleftrightarrow> distinct (map fst (files s)) \<and> (\<forall>k op. lookup s k = Some op \<longrightarrow> op_id op = k)"

lemma put_files:
  "files (put w op s) = files s \<or> files (put w op s) = AList.update (op_id op) (Json (toRecord op)) (files s)"
  by (auto simp: put_def saveOp_def atomicWrite_def split: sum.split)

lemma put_frame: "maxTerminal (put w op s) = maxTerminal s \<and> dirReadable (put w op s) = dirReadable s"
  by (auto simp: put_def saveOp_def atomicWrite_def split: sum.split)

lemma store_inv_put [inv_intros]: "store_inv s \<Longrightarrow> store_inv (put w op s)"
  using put_files [of w op s] by (auto simp: store_inv_def lookup_put distinct_update split: if_splits)

lemma lookup_removeFile: "lookup (removeFile k s) j = (if j = k then None else lookup s j)"
  by (simp add: lookup_def loadOp_def removeFile_def delete_conv')

lemma store_inv_remove [inv_intros]: "store_inv s \<Longrightarrow> store_inv (removeFile k s)"
proof -
  assume "store_inv s"
  moreover have "files (removeFile k s) = AList.delete k (files s)" by (simp add: removeFile_def)
  ultimately show ?thesis
    by (simp add: store_inv_def lookup_removeFile distinct_delete split: if_splits)
qed

lemma set_map_filter_iff: "x \<in> set (List.map_filter f xs) \<longleftrightarrow> (\<exists>y \<in> set xs. f y = Some x)"
  by (induction xs) (auto simp: map_filter_simps split: option.splits)

lemma in_loadable:
  assumes "store_inv s"
  shows "op \<in> set (loadable s) \<longleftrightarrow> lookup s (op_id op) = Some op"
proof
  assume "op \<in> set (loadable s)"
  then obtain k where "loadOp k s = Inr op"
    by (auto simp: loadable_def set_map_filter_iff split: sum.splits)
  then have "lookup s k = Some op" by (simp add: lookup_def)
  with assms show "lookup s (op_id op) = Some op" by (auto simp: store_inv_def)
next
  assume l: "lookup s (op_id op) = Some op"
  then obtain f where f: "map_of (files s) (op_id op) = Some f" and "loadOp (op_id op) s = Inr op"
    by (auto simp: lookup_def loadOp_def split: sum.splits option.splits)
  moreover have "(op_id op, f) \<in> set (files s)" using f by (rule map_of_SomeD)
  ultimately show "op \<in> set (loadable s)"
    by (force simp: loadable_def set_map_filter_iff split: sum.splits)
qed

lemma loadable_conv: "loadable s = List.map_filter (\<lambda>(k, _). lookup s k) (files s)"
  unfolding loadable_def by (rule arg_cong [of _ _ "\<lambda>f. List.map_filter f (files s)"])
    (auto simp: lookup_def fun_eq_iff split: sum.split)

lemma distinct_loadable:
  assumes "store_inv s"
  shows "distinct (map op_id (loadable s))"
proof -
  have "map op_id (List.map_filter (\<lambda>(k, _). lookup s k) fs)
      = map fst (filter (\<lambda>(k, _). lookup s k \<noteq> None) fs)" for fs
    using assms by (induction fs) (auto simp: map_filter_simps store_inv_def split: option.splits)
  then have "map op_id (loadable s) = map fst (filter (\<lambda>(k, _). lookup s k \<noteq> None) (files s))"
    unfolding loadable_conv .
  then show ?thesis
    using assms distinct_map_filter [of fst "files s"] by (simp only: store_inv_def)
qed

lemma listOps_Inr:
  assumes "listOps s = Inr ops"
  shows "set ops = set (loadable s) \<and> (store_inv s \<longrightarrow> distinct (map op_id ops))"
proof -
  let ?srt = "sort_key (\<lambda>op. (op_createdAt op, op_id op)) (loadable s)"
  from assms have ops: "ops = rev ?srt" by (auto simp: listOps_def split: if_splits)
  have "distinct (map op_id ?srt) \<longleftrightarrow> distinct (map op_id (loadable s))"
    by (simp add: distinct_map)
  then show ?thesis using ops distinct_loadable [of s] by (simp add: rev_map [symmetric])
qed

section \<open>Recovery\<close>

text \<open>What recovery makes of one operation.\<close>

definition marked :: "int \<Rightarrow> operation \<Rightarrow> operation" where
  "marked now op = (if terminal (op_phase op) then op else snd (markInterrupted now op))"

lemma marked_frame [simp]: "op_id (marked now op) = op_id op" "op_phase (marked now op) = op_phase op"
  by (simp_all add: marked_def markInterrupted_def Let_def)

lemma marked_warning:
  "\<not> terminal (op_phase op) \<Longrightarrow> op_warnings (marked now op) \<noteq> []
     \<and> last (op_warnings (marked now op)) = interruptedWarningPrefix @ phaseString (op_phase op)"
  by (simp add: marked_def markInterrupted_def Let_def)

lemma markInterrupted_marked:
  "\<not> terminal (op_phase op) \<Longrightarrow> markInterrupted now' (marked now op) = (False, marked now op)"
  using marked_warning [of op now] by (simp add: markInterrupted_def Let_def)

lemma saveOp_ok:
  "lookup s (op_id op) = Some e \<Longrightarrow> op_phase e = op_phase op \<Longrightarrow> saveOp True op s = (None, put True op s)"
  by (auto simp: put_def saveOp_def lookup_def atomicWrite_def split: sum.splits)

lemma recoverLoop_spec:
  assumes "store_inv s" and "distinct (map op_id ops)" and "\<forall>op \<in> set ops. lookup s (op_id op) = Some op"
  shows "\<exists>s'. recoverLoop (\<lambda>_. True) now ops acc s = (acc @ map (marked now) (filter (\<lambda>op. \<not> terminal (op_phase op)) ops), None, s')
    \<and> (\<forall>k. lookup s' k = (if k \<in> op_id ` set ops then map_option (marked now) (lookup s k) else lookup s k))
    \<and> store_inv s' \<and> dirReadable s' = dirReadable s
    \<and> ((\<forall>op \<in> set ops. \<not> terminal (op_phase op) \<longrightarrow> \<not> fst (markInterrupted now op)) \<longrightarrow> s' = s)"
  using assms
proof (induction ops arbitrary: s acc)
  case (Cons op ops)
  show ?case
  proof (cases "terminal (op_phase op)")
    case True
    from Cons.prems have p: "store_inv s" "distinct (map op_id ops)" "\<forall>op \<in> set ops. lookup s (op_id op) = Some op"
      and op: "lookup s (op_id op) = Some op" "op_id op \<notin> op_id ` set ops" by auto
    from Cons.IH [OF p, of acc] obtain s' where s':
      "recoverLoop (\<lambda>_. True) now ops acc s = (acc @ map (marked now) (filter (\<lambda>op. \<not> terminal (op_phase op)) ops), None, s')"
      "\<And>k. lookup s' k = (if k \<in> op_id ` set ops then map_option (marked now) (lookup s k) else lookup s k)"
      "store_inv s'" "dirReadable s' = dirReadable s"
      "(\<forall>op \<in> set ops. \<not> terminal (op_phase op) \<longrightarrow> \<not> fst (markInterrupted now op)) \<longrightarrow> s' = s" by blast
    have m: "marked now op = op" using True by (simp add: marked_def)
    have "lookup s' k = (if k \<in> op_id ` set (op # ops) then map_option (marked now) (lookup s k) else lookup s k)" for k
      using s'(2) [of k] op m by (cases "k = op_id op") simp_all
    with s' True show ?thesis by (intro exI [of _ s']) simp
  next
    case False
    obtain ch op' where mk: "markInterrupted now op = (ch, op')" by fastforce
    with False have m: "op' = marked now op" by (simp add: marked_def)
    define s1 where "s1 = (if ch then put True op' s else s)"
    have l1: "lookup s1 k = (if k = op_id op then Some op' else lookup s k)" for k
    proof (cases ch)
      case True
      then show ?thesis using Cons.prems(3) m False by (auto simp: s1_def lookup_put)
    next
      case ch: False
      then have "op' = op" using mk by (auto simp: markInterrupted_def Let_def split: if_splits)
      then show ?thesis using ch Cons.prems(3) by (simp add: s1_def)
    qed
    have "store_inv s1" using Cons.prems(1) by (simp add: s1_def store_inv_put)
    moreover have "\<forall>o2 \<in> set ops. lookup s1 (op_id o2) = Some o2"
    proof
      fix o2 assume o2: "o2 \<in> set ops"
      then have "op_id o2 \<in> op_id ` set ops" by (rule imageI)
      then have "op_id o2 \<noteq> op_id op" using Cons.prems(2) by fastforce
      then show "lookup s1 (op_id o2) = Some o2" using o2 Cons.prems(3) by (simp add: l1)
    qed
    ultimately obtain s' where IH:
      "recoverLoop (\<lambda>_. True) now ops (acc @ [op']) s1 = ((acc @ [op']) @ map (marked now) (filter (\<lambda>op. \<not> terminal (op_phase op)) ops), None, s')"
      "\<forall>k. lookup s' k = (if k \<in> op_id ` set ops then map_option (marked now) (lookup s1 k) else lookup s1 k)"
      "store_inv s'" "dirReadable s' = dirReadable s1"
      "(\<forall>op \<in> set ops. \<not> terminal (op_phase op) \<longrightarrow> \<not> fst (markInterrupted now op)) \<longrightarrow> s' = s1"
      using Cons.IH [of s1 "acc @ [op']"] Cons.prems(2) by auto
    have save: "saveOp True op' s = (None, put True op' s)"
      using Cons.prems(3) m by (intro saveOp_ok [of s op' op]) simp_all
    have run: "recoverLoop (\<lambda>_. True) now (op # ops) acc s = recoverLoop (\<lambda>_. True) now ops (acc @ [op']) s1"
      using False mk save by (cases ch) (simp_all add: s1_def)
    have notin: "op_id op \<notin> op_id ` set ops" using Cons.prems(2) by auto
    have "lookup s' k = (if k \<in> op_id ` set (op # ops) then map_option (marked now) (lookup s k) else lookup s k)" for k
      using IH(2) [rule_format, of k] notin l1 [of k] Cons.prems(3) m
      by (cases "k = op_id op") simp_all
    moreover have "dirReadable s' = dirReadable s" using IH(4) by (simp add: s1_def put_frame)
    moreover have "(\<forall>op \<in> set (op # ops). \<not> terminal (op_phase op) \<longrightarrow> \<not> fst (markInterrupted now op)) \<longrightarrow> s' = s"
      using IH(5) False mk by (simp add: s1_def)
    ultimately show ?thesis
      using IH(1,3) False m unfolding run by (intro exI [of _ s']) simp
  qed
qed simp


section \<open>Prune\<close>

lemma pruneLoop_spec:
  "\<exists>s'. pruneLoop (\<lambda>_. True) kept ops s = (None, s')
    \<and> (\<forall>k. lookup s' k =
         (if k \<in> op_id ` set (drop (nat (maxTerminal s - kept)) (filter (\<lambda>op. terminal (op_phase op)) ops))
          then None else lookup s k))"
proof (induction ops arbitrary: kept s)
  case (Cons op ops)
  show ?case
  proof (cases "terminal (op_phase op)")
    case False
    with Cons.IH [of kept s] show ?thesis by (auto simp del: terminal.simps)
  next
    case T: True
    show ?thesis
    proof (cases "kept + 1 \<le> maxTerminal s")
      case True
      then have "nat (maxTerminal s - kept) = Suc (nat (maxTerminal s - (kept + 1)))" by simp
      with Cons.IH [of "kept + 1" s] T True show ?thesis by (simp add: Let_def del: terminal.simps)
    next
      case False
      then have z: "nat (maxTerminal s - kept) = 0" "nat (maxTerminal s - (kept + 1)) = 0" by simp_all
      have m: "maxTerminal (removeFile (op_id op) s) = maxTerminal s" by (simp add: removeFile_def)
      from Cons.IH [of "kept + 1" "removeFile (op_id op) s"] obtain s' where
        "pruneLoop (\<lambda>_. True) (kept + 1) ops (removeFile (op_id op) s) = (None, s')"
        "\<And>k. lookup s' k = (if k \<in> op_id ` set (filter (\<lambda>op. terminal (op_phase op)) ops)
            then None else lookup (removeFile (op_id op) s) k)"
        unfolding m z by auto
      with T False z show ?thesis
        by (intro exI [of _ s']) (simp add: Let_def lookup_removeFile del: terminal.simps)
    qed
  qed
qed simp

lemma prune_spec:
  assumes "store_inv s" and "listOps s = Inr ops"
  shows "\<exists>s'. prune (\<lambda>_. True) s = (None, s')
    \<and> (\<forall>k op. lookup s' k = Some op \<longleftrightarrow> lookup s k = Some op
         \<and> (\<not> terminal (op_phase op) \<or> op \<in> set (take (nat (maxTerminal s)) (filter (\<lambda>op. terminal (op_phase op)) ops))))"
proof -
  let ?n = "nat (maxTerminal s)" and ?ts = "filter (\<lambda>op. terminal (op_phase op)) ops"
  from pruneLoop_spec [of 0 ops s] obtain s' where s': "pruneLoop (\<lambda>_. True) 0 ops s = (None, s')"
    "\<And>k. lookup s' k = (if k \<in> op_id ` set (drop ?n ?ts) then None else lookup s k)" by auto
  note lst = listOps_Inr [OF assms(2)]
  have d: "distinct (map op_id ops)" using lst assms(1) by blast
  then have "distinct (map op_id (take ?n ?ts @ drop ?n ?ts))" by (simp add: distinct_map_filter)
  then have disj: "op_id ` set (take ?n ?ts) \<inter> op_id ` set (drop ?n ?ts) = {}"
    by (simp only: map_append distinct_append set_map)
  have inj: "a = b" if "a \<in> set ops" "b \<in> set ops" "op_id a = op_id b" for a b
    using that d by (auto simp: distinct_map inj_on_def)
  have split: "set ?ts = set (take ?n ?ts) \<union> set (drop ?n ?ts)"
    by (metis append_take_drop_id set_append)
  have "lookup s' k = Some op \<longleftrightarrow> lookup s k = Some op \<and> (\<not> terminal (op_phase op) \<or> op \<in> set (take ?n ?ts))" for k op
  proof (cases "lookup s k = Some op")
    case True
    then have k: "op_id op = k" using assms(1) by (simp add: store_inv_def)
    with True have op: "op \<in> set ops" using lst in_loadable [OF assms(1)] by simp
    have "k \<in> op_id ` set (drop ?n ?ts) \<longleftrightarrow> op \<in> set (drop ?n ?ts)"
      using k inj [OF op] set_drop_subset [of ?n ?ts] by auto
    moreover have "op \<in> set (drop ?n ?ts) \<longleftrightarrow> terminal (op_phase op) \<and> op \<notin> set (take ?n ?ts)"
    proof
      assume "op \<in> set (drop ?n ?ts)"
      then show "terminal (op_phase op) \<and> op \<notin> set (take ?n ?ts)"
        using disj set_drop_subset [of ?n ?ts] by auto
    next
      assume "terminal (op_phase op) \<and> op \<notin> set (take ?n ?ts)"
      then have "op \<in> set ?ts" using op by (simp del: terminal.simps)
      with \<open>terminal (op_phase op) \<and> op \<notin> set (take ?n ?ts)\<close> split show "op \<in> set (drop ?n ?ts)" by blast
    qed
    ultimately show ?thesis using True by (auto simp: s'(2) simp del: terminal.simps)
  qed (simp add: s'(2))
  moreover have "prune (\<lambda>_. True) s = (None, s')" by (simp add: prune_def assms(2) s'(1))
  ultimately show ?thesis by blast
qed

text \<open>
  Pruning (with working removals) keeps every non-terminal record and exactly the newest
  \<open>maxTerminal\<close> of the terminal ones, and changes no record it keeps.
\<close>

theorem prune_keeps_newest:
  assumes "store_inv s" and "listOps s = Inr ops"
  shows "\<exists>s'. prune (\<lambda>_. True) s = (None, s')
    \<and> (\<forall>k op. lookup s' k = Some op \<longleftrightarrow> lookup s k = Some op
         \<and> (\<not> terminal (op_phase op) \<or> op \<in> set (take (nat (maxTerminal s)) (filter (\<lambda>op. terminal (op_phase op)) ops))))"
  using assms by (rule prune_spec)

section \<open>Cancel\<close>

text \<open>
  The cancel handler answers 404 for an unknown id, 409 without any change for an operation
  that succeeded or failed, and otherwise (if the write works) 202, with the stored record
  cancelled and all other records untouched; a failed write answers 500 and changes nothing.
\<close>

theorem cancel_handler_outcomes:
  assumes "store_inv s"
  shows "(case loadOp k s of
      Inl e \<Rightarrow> handleCancel w now k s = (if e = ErrNotFound k then 404 else 500, s)
    | Inr op \<Rightarrow>
        if op_phase op = PhaseSucceeded \<or> op_phase op = PhaseFailed then handleCancel w now k s = (409, s)
        else if \<not> w then handleCancel w now k s = (500, s)
        else \<exists>s' op'. handleCancel w now k s = (202, s') \<and> lookup s' k = Some op'
               \<and> op_phase op' = PhaseCancelled \<and> (\<forall>j. j \<noteq> k \<longrightarrow> lookup s' j = lookup s j))"
proof (cases "loadOp k s")
  case (Inl e)
  then show ?thesis
    by (auto simp: handleCancel_def loadOp_def split: option.splits op_file.splits)
next
  case (Inr op)
  then have l: "lookup s k = Some op" by (simp add: lookup_def)
  then have k: "op_id op = k" using assms by (simp add: store_inv_def)
  show ?thesis
  proof (cases "op_phase op = PhaseSucceeded \<or> op_phase op = PhaseFailed")
    case True
    then have "\<exists>e. cancelOp now op = Inl e" by (auto simp: cancelOp_def transitionTo_def)
    with True Inr show ?thesis by (auto simp: handleCancel_def)
  next
    case False
    then obtain op' where c: "cancelOp now op = Inr op'"
      using canTransition_stop(1) [of "op_phase op"] by (auto simp: cancelOp_def transitionTo_def)
    then have op': "op_id op' = k" "op_phase op' = PhaseCancelled"
      using k by (auto simp: cancelOp_Inr_iff)
    have save: "saveOp w op' s = (if w then None else Some (ErrWrite k), put w op' s)"
      using Inr op' False by (auto simp: put_def saveOp_def atomicWrite_def)
    have "put w op' s = s" if "\<not> w"
      using that Inr op' by (auto simp: put_def saveOp_def atomicWrite_def)
    moreover have "lookup (put w op' s) j = (if j = k then Some op' else lookup s j)" if w for j
      using that l op' False by (auto simp: lookup_put)
    ultimately show ?thesis
      using Inr False c save op' by (auto simp: handleCancel_def)
  qed
qed

section \<open>Cleanup\<close>

lemma cleanupArtifacts_changes:
  "cleanupArtifacts rmok dir repo as (n, fs) = (b, n', fs') \<Longrightarrow>
     fs' p = fs p \<or> (fs' p = None \<and> (\<exists>a \<in> set as. \<exists>dest. resolveArtifactDestination dir repo (ap_path a) = Inr dest \<and> p = dest @ ''.part''))"
proof (induction as arbitrary: n fs)
  case (Cons a as)
  show ?case
  proof (cases "resolveArtifactDestination dir repo (ap_path a)")
    case (Inl e)
    with Cons.prems Cons.IH [of n fs] show ?thesis by auto
  next
    case (Inr dest)
    consider "fs (dest @ ''.part'') = None" | c where "fs (dest @ ''.part'') = Some c" "rmok (dest @ ''.part'')"
      | c where "fs (dest @ ''.part'') = Some c" "\<not> rmok (dest @ ''.part'')"
      by (cases "fs (dest @ ''.part'')") auto
    then show ?thesis
    proof cases
      case 1
      with Inr Cons.prems Cons.IH [of n fs] show ?thesis by (auto simp: Let_def)
    next
      case 2
      with Inr Cons.prems have "cleanupArtifacts rmok dir repo as (n + 1, fs(dest @ ''.part'' := None)) = (b, n', fs')"
        by (simp add: Let_def)
      from Cons.IH [OF this] show ?thesis using Inr by (cases "p = dest @ ''.part''") auto
    next
      case 3
      with Inr Cons.prems show ?thesis by (simp add: Let_def)
    qed
  qed
qed simp

lemma cleanupLoop_changes:
  "cleanupLoop rmok dir ops (n, fs) = (e, n', fs') \<Longrightarrow>
     fs' p = fs p \<or> (fs' p = None \<and> (\<exists>op \<in> set ops. op_phase op = PhaseCancelled \<and>
        (\<exists>a \<in> set (op_artifacts op). \<exists>dest. resolveArtifactDestination dir (op_sourceRepository op) (ap_path a) = Inr dest
           \<and> p = dest @ ''.part'')))"
proof (induction rmok dir ops "(n, fs)" arbitrary: n fs rule: cleanupLoop.induct)
  case (2 rmok dir op ops n fs)
  show ?case
  proof (cases "op_phase op = PhaseCancelled")
    case False
    with 2 show ?thesis by auto
  next
    case True
    obtain b n1 fs1 where r: "cleanupArtifacts rmok dir (op_sourceRepository op) (op_artifacts op) (n, fs) = (b, n1, fs1)"
      by (cases "cleanupArtifacts rmok dir (op_sourceRepository op) (op_artifacts op) (n, fs)") auto
    note ch = cleanupArtifacts_changes [OF r, of p]
    show ?thesis
    proof (cases b)
      case T: True
      with "2.prems" True r have "cleanupLoop rmok dir ops (n1, fs1) = (e, n', fs')" by simp
      from "2.hyps"(2) [OF _ r [symmetric] _ _ this] True T ch show ?thesis by auto
    next
      case False
      with "2.prems" True r ch show ?thesis by auto
    qed
  qed
qed simp

text \<open>
  The cleanup never touches a file other than the \<open>.part\<close> file of an artifact of a
  stored cancelled operation, and what it touches is removed.
\<close>

theorem cleanup_only_cancelled_partials:
  assumes "store_inv s" and "cleanupAbandonedPartials rmok dir s fs = (e, n, fs')" and "fs' p \<noteq> fs p"
  shows "fs' p = None \<and> (\<exists>op a dest. lookup s (op_id op) = Some op \<and> op_phase op = PhaseCancelled
     \<and> a \<in> set (op_artifacts op) \<and> p = dest @ ''.part''
     \<and> resolveArtifactDestination dir (op_sourceRepository op) (ap_path a) = Inr dest)"
proof (cases "listOps s")
  case (Inl x)
  with assms show ?thesis by (simp add: cleanupAbandonedPartials_def)
next
  case (Inr ops)
  with assms(2) have "cleanupLoop rmok dir ops (0, fs) = (e, n, fs')"
    by (simp add: cleanupAbandonedPartials_def)
  from cleanupLoop_changes [OF this, of p] assms(3) obtain op a dest where
    "fs' p = None" "op \<in> set ops" "op_phase op = PhaseCancelled" "a \<in> set (op_artifacts op)"
    "p = dest @ ''.part''" "resolveArtifactDestination dir (op_sourceRepository op) (ap_path a) = Inr dest" by auto
  moreover have "lookup s (op_id op) = Some op"
    using listOps_Inr [OF Inr] in_loadable [OF assms(1)] \<open>op \<in> set ops\<close> by auto
  ultimately show ?thesis by blast
qed

section \<open>Concrete stores\<close>

definition demoArtifact :: artifact_progress where
  "demoArtifact = \<lparr>ap_path = ''w.gguf'', ap_bytesDownloaded = 0, ap_bytesTotal = Some 9,
     ap_role = RoleWeights, ap_digest = None\<rparr>"

definition demoOp :: "string \<Rightarrow> phase \<Rightarrow> int \<Rightarrow> operation" where
  "demoOp k p t = (newOp [] ''o/r'' ''abc1234'' ''m'' [demoArtifact] t)\<lparr>op_id := k, op_phase := p\<rparr>"

definition storeOf :: "operation list \<Rightarrow> op_store" where
  "storeOf ops = \<lparr>files = map (\<lambda>op. (op_id op, Json (toRecord op))) ops, dirReadable = True, maxTerminal = 1\<rparr>"

lemma lookup_storeOf: "lookup (storeOf ops) k = map_of (map (\<lambda>op. (op_id op, op)) ops) k"
proof -
  have "map_of (map (\<lambda>op. (op_id op, Json (toRecord op))) ops) k
      = map_option (Json \<circ> toRecord) (map_of (map (\<lambda>op. (op_id op, op)) ops) k)"
    by (induction ops) auto
  then show ?thesis
    by (simp add: lookup_def loadOp_def storeOf_def split: option.split)
qed

lemma storeOf_sel [simp]:
  "files (storeOf ops) = map (\<lambda>op. (op_id op, Json (toRecord op))) ops"
  "dirReadable (storeOf ops)" "maxTerminal (storeOf ops) = 1"
  by (simp_all add: storeOf_def)

lemma demoOp_sel [simp]:
  "op_id (demoOp k p t) = k" "op_phase (demoOp k p t) = p" "op_createdAt (demoOp k p t) = t"
  "op_sourceRepository (demoOp k p t) = ''o/r''" "op_artifacts (demoOp k p t) = [demoArtifact]"
  by (simp_all add: demoOp_def newOp_def)

lemma lookup_storeOf_mem:
  "distinct (map op_id ops) \<Longrightarrow> op \<in> set ops \<Longrightarrow> lookup (storeOf ops) (op_id op) = Some op"
  by (simp add: lookup_storeOf comp_def inj_on_def distinct_map)

lemma store_inv_storeOf: "distinct (map op_id ops) \<Longrightarrow> store_inv (storeOf ops)"
  unfolding store_inv_def lookup_storeOf by (auto simp: comp_def dest!: map_of_SomeD)

lemma loadable_storeOf:
  assumes "distinct (map op_id ops)"
  shows "loadable (storeOf ops) = ops"
proof -
  have "List.map_filter (\<lambda>(k, _). lookup (storeOf ops) k) (map (\<lambda>op. (op_id op, Json (toRecord op))) xs) = xs"
    if "set xs \<subseteq> set ops" for xs
    using that by (induction xs) (simp_all add: map_filter_simps lookup_storeOf_mem [OF assms])
  then show ?thesis by (simp add: loadable_conv)
qed

theorem terminal_record_sticky_witness:
  "\<exists>op'. lookup (fold (\<lambda>(w, r). put w r) [(True, demoOp ''a'' PhaseFailed 1), (False, demoOp ''a'' PhaseQueued 3)]
      (storeOf [demoOp ''a'' PhaseCancelled 1])) ''a'' = Some op' \<and> op_phase op' = PhaseCancelled"
proof -
  have l: "lookup (storeOf [demoOp ''a'' PhaseCancelled 1]) ''a'' = Some (demoOp ''a'' PhaseCancelled 1)"
    by (simp add: lookup_storeOf)
  have t: "terminal (op_phase (demoOp ''a'' PhaseCancelled 1))" by simp
  from terminal_record_sticky [OF l t, of "[(True, demoOp ''a'' PhaseFailed 1), (False, demoOp ''a'' PhaseQueued 3)]"]
  show ?thesis unfolding demoOp_sel .
qed


theorem cancel_handler_outcomes_witness:
  "\<exists>s' op'. handleCancel True 7 ''a'' (storeOf [demoOp ''a'' PhaseQueued 1]) = (202, s')
     \<and> lookup s' ''a'' = Some op' \<and> op_phase op' = PhaseCancelled"
proof -
  let ?s = "storeOf [demoOp ''a'' PhaseQueued 1]"
  have inv: "store_inv ?s" by (rule store_inv_storeOf) simp
  have l: "loadOp ''a'' ?s = Inr (demoOp ''a'' PhaseQueued 1)"
    by (simp add: loadOp_def)
  from cancel_handler_outcomes [OF inv, where k = "''a''" and w = True and now = 7] show ?thesis
    unfolding l by simp blast
qed

text \<open>
  Two operations of one plan share their destinations. Cleaning up after the cancelled
  one removes the partial file that the other, still downloading, is writing.
\<close>

theorem cleanup_removes_live_partial:
  "let s = storeOf [demoOp ''old'' PhaseCancelled 1, demoOp ''new'' PhaseDownloading 2];
       fs = [''/m/o/r/w.gguf.part'' \<mapsto> ''bytes'']
   in lookup s ''new'' = Some (demoOp ''new'' PhaseDownloading 2)
      \<and> cleanupAbandonedPartials (\<lambda>_. True) ''/m'' s fs = (None, 1, Map.empty)"
proof -
  let ?s = "storeOf [demoOp ''old'' PhaseCancelled 1, demoOp ''new'' PhaseDownloading 2]"
  have "resolveArtifactDestination ''/m'' ''o/r'' ''w.gguf'' = Inr (''/m'' @ ''/'' @ ''o/r'' @ ''/'' @ ''w.gguf'')"
  proof (subst destination_composed)
    show "cleanDir ''/m''"
      unfolding cleanDir_def by (rule exI [of _ "[''m'']"]) (simp add: properSeg_def)
  qed (simp_all add: repositoryOk_def nameOk_def isAlnumCh_def isDigitCh_def isUpperCh_def isLowerCh_def properSeg_def)
  then have dest: "resolveArtifactDestination ''/m'' ''o/r'' ''w.gguf'' = Inr ''/m/o/r/w.gguf''" by simp
  have "loadable ?s = [demoOp ''old'' PhaseCancelled 1, demoOp ''new'' PhaseDownloading 2]"
    by (rule loadable_storeOf) simp
  then have "listOps ?s = Inr [demoOp ''new'' PhaseDownloading 2, demoOp ''old'' PhaseCancelled 1]"
    by (simp add: listOps_def)
  then show ?thesis
    by (simp add: cleanupAbandonedPartials_def Let_def lookup_storeOf demoArtifact_def dest)
qed

theorem prune_keeps_newest_witness:
  "\<exists>s'. prune (\<lambda>_. True) (storeOf [demoOp ''a'' PhaseFailed 1, demoOp ''b'' PhaseCancelled 2, demoOp ''c'' PhaseQueued 0]) = (None, s')
     \<and> lookup s' ''b'' = Some (demoOp ''b'' PhaseCancelled 2) \<and> lookup s' ''a'' \<noteq> Some (demoOp ''a'' PhaseFailed 1)"
proof -
  let ?ops = "[demoOp ''a'' PhaseFailed 1, demoOp ''b'' PhaseCancelled 2, demoOp ''c'' PhaseQueued 0]"
  let ?srt = "[demoOp ''b'' PhaseCancelled 2, demoOp ''a'' PhaseFailed 1, demoOp ''c'' PhaseQueued 0]"
  have inv: "store_inv (storeOf ?ops)" by (rule store_inv_storeOf) simp
  have "loadable (storeOf ?ops) = ?ops" by (rule loadable_storeOf) simp
  then have lst: "listOps (storeOf ?ops) = Inr ?srt" by (simp add: listOps_def)
  have ne: "demoOp ''a'' PhaseFailed 1 \<noteq> demoOp ''b'' PhaseCancelled 2"
    by (rule notI) (drule arg_cong [of _ _ op_phase], simp)
  obtain s' where p: "prune (\<lambda>_. True) (storeOf ?ops) = (None, s')"
    and l: "\<And>k op. lookup s' k = Some op \<longleftrightarrow> lookup (storeOf ?ops) k = Some op
       \<and> (\<not> terminal (op_phase op) \<or> op \<in> set (take (nat (maxTerminal (storeOf ?ops))) (filter (\<lambda>op. terminal (op_phase op)) ?srt)))"
    using prune_keeps_newest [OF inv lst] by blast
  show ?thesis
  proof (rule exI [of _ s'], intro conjI)
    show "prune (\<lambda>_. True) (storeOf ?ops) = (None, s')" by (rule p)
    show "lookup s' ''b'' = Some (demoOp ''b'' PhaseCancelled 2)"
      by (subst l) (simp add: lookup_storeOf)
    show "lookup s' ''a'' \<noteq> Some (demoOp ''a'' PhaseFailed 1)"
      by (subst l) (simp add: lookup_storeOf ne)
  qed
qed

end
