(* ===== verification/Op_Executor.thy ===== *)
theory Op_Executor
  imports Op_Store Op_Shards
begin

text \<open>
  The executor of \<open>internal/operation/executor.go\<close>: it drives one operation through its phases,
  against a store other goroutines write to at the same time, a file system and an HTTP origin.

  The outside world is a record of functions indexed by a tick that every interaction advances: what other
  writers have saved since the last store access, whether a write works, what the origin answers,
  which bytes each read returns, whether the context has been cancelled. A theorem for every such record
  therefore covers every interleaving with the cancel handler and every failure. Error messages
  carry the failing step and, where the code adds one, the underlying message.
\<close>

section \<open>The world\<close>

datatype exec_error = ExternallyCancelled | OpErr error_code string

text \<open>One \<open>Read\<close> of a response body: the bytes and how it ended.\<close>

datatype read_end = ReadMore | ReadEOF | ReadErr string

record 'b http_resp =
  hr_status :: nat
  hr_reads :: "('b list \<times> read_end) list"

record 'b world =
  w_store :: op_store
  w_fs :: "string \<rightharpoonup> 'b list"
  w_tick :: nat

record 'b environment =
  o_others :: "nat \<Rightarrow> (bool \<times> operation) list"
  o_saveOk :: "nat \<Rightarrow> bool"
  o_io :: "nat \<Rightarrow> string option"
  o_ctxErr :: "nat \<Rightarrow> string option"
  o_http :: "nat \<Rightarrow> string \<Rightarrow> int \<Rightarrow> string + 'b http_resp"
  o_statfs :: "nat \<Rightarrow> string \<Rightarrow> string + disk_space"
  o_sha256hex :: "'b list \<Rightarrow> string"
  o_now :: "nat \<Rightarrow> int"

record 'b executor =
  ex_modelsDir :: string
  ex_reserve :: i64
  ex_register :: "(operation \<Rightarrow> string \<Rightarrow> string option) option"
  ex_progressInterval :: int
  ex_world :: "'b environment"

record resolved_artifact =
  ra_url :: source_url
  ra_dest :: string

definition tick :: "'b world \<Rightarrow> 'b world" where
  "tick w = w\<lparr>w_tick := w_tick w + 1\<rparr>"

text \<open>Every access to the store sees what the other writers did before it.\<close>

definition others :: "'b executor \<Rightarrow> 'b world \<Rightarrow> 'b world" where
  "others e w = tick (w\<lparr>w_store := fold (\<lambda>(ok, op). put ok op) (o_others (ex_world e) (w_tick w)) (w_store w)\<rparr>)"

definition nowAt :: "'b executor \<Rightarrow> 'b world \<Rightarrow> int" where
  "nowAt e w = o_now (ex_world e) (w_tick w)"

definition storeSave :: "'b executor \<Rightarrow> operation \<Rightarrow> 'b world \<Rightarrow> store_error option \<times> 'b world" where
  "storeSave e op w =
     (let w = others e w;
          (r, s) = saveOp (o_saveOk (ex_world e) (w_tick w)) op (w_store w)
      in (r, w\<lparr>w_store := s\<rparr>))"

definition ioResult :: "'b executor \<Rightarrow> 'b world \<Rightarrow> string option \<times> 'b world" where
  "ioResult e w = (o_io (ex_world e) (w_tick w), tick w)"

text \<open>\<open>os.Stat\<close>: the file, its absence, or another failure.\<close>

datatype 'b stat_result = Present "'b list" | NotExist | StatErr string

definition statFile :: "'b executor \<Rightarrow> string \<Rightarrow> 'b world \<Rightarrow> 'b stat_result \<times> 'b world" where
  "statFile e path w =
     (case ioResult e w of
        (Some msg, w1) \<Rightarrow> (StatErr msg, w1)
      | (None, w1) \<Rightarrow> (case w_fs w1 path of Some c \<Rightarrow> (Present c, w1) | None \<Rightarrow> (NotExist, w1)))"

definition sizeOf :: "'b list \<Rightarrow> int" where
  "sizeOf c = int (length c)"

section \<open>Cancellation and phase changes\<close>

definition progressSaveInterval :: "'b executor \<Rightarrow> int" where
  "progressSaveInterval e =
     (if ex_progressInterval e > 0 then ex_progressInterval e else 10 * 1024 * 1024)"

definition stopIfCancelled :: "'b executor \<Rightarrow> operation \<Rightarrow> 'b world \<Rightarrow> bool \<times> 'b world" where
  "stopIfCancelled e op w =
     (let w = others e w in
      case loadOp (op_id op) (w_store w) of
        Inl _ \<Rightarrow> (False, w)
      | Inr current \<Rightarrow> (op_phase current = PhaseCancelled, w))"

definition isAlreadyTerminal :: "store_error option \<Rightarrow> bool" where
  "isAlreadyTerminal r = (case r of Some (ErrAlreadyTerminal _ _) \<Rightarrow> True | _ \<Rightarrow> False)"

definition advance :: "'b executor \<Rightarrow> phase \<Rightarrow> operation \<Rightarrow> 'b world
    \<Rightarrow> exec_error option \<times> operation \<times> 'b world" where
  "advance e p op w =
     (case stopIfCancelled e op w of
        (True, w1) \<Rightarrow> (Some ExternallyCancelled, op, w1)
      | (False, w1) \<Rightarrow>
          (case transitionTo p (nowAt e w1) op of
             Inl _ \<Rightarrow> (Some (OpErr ErrorInternal ''invalid phase transition''), op, w1)
           | Inr op1 \<Rightarrow>
               (case storeSave e op1 w1 of
                  (r, w2) \<Rightarrow>
                    if isAlreadyTerminal r then (Some ExternallyCancelled, op1, w2) else (None, op1, w2))))"

definition terminate :: "'b executor \<Rightarrow> error_code \<Rightarrow> string \<Rightarrow> operation \<Rightarrow> 'b world \<Rightarrow> operation \<times> 'b world" where
  "terminate e c msg op w =
     (case failOp c msg (nowAt e w) op of
        Inl _ \<Rightarrow> (op, w)
      | Inr op1 \<Rightarrow> (case storeSave e op1 w of (_, w1) \<Rightarrow> (op1, w1)))"

definition finish :: "'b executor \<Rightarrow> exec_error \<Rightarrow> operation \<Rightarrow> 'b world \<Rightarrow> operation \<times> 'b world" where
  "finish e err op w =
     (case err of ExternallyCancelled \<Rightarrow> (op, w) | OpErr c msg \<Rightarrow> terminate e c msg op w)"

text \<open>\<open>True\<close>: the store already holds another terminal record.\<close>

definition saveProgress :: "'b executor \<Rightarrow> nat \<Rightarrow> int \<Rightarrow> operation \<Rightarrow> 'b world \<Rightarrow> bool \<times> operation \<times> 'b world" where
  "saveProgress e i written op w =
     (let as = op_artifacts op;
          op1 = op\<lparr>op_artifacts := as[i := (as ! i)\<lparr>ap_bytesDownloaded := word_of_int written\<rparr>],
                   op_updatedAt := nowAt e w\<rparr>
      in case storeSave e op1 w of (r, w1) \<Rightarrow> (isAlreadyTerminal r, op1, w1))"

section \<open>Preflight and resolution\<close>

definition remainingBytes :: "operation \<Rightarrow> i64" where
  "remainingBytes op =
     foldl (\<lambda>r a. case ap_bytesTotal a of Some t \<Rightarrow> r + (t - ap_bytesDownloaded a) | None \<Rightarrow> r) 0 (op_artifacts op)"

definition preflight :: "'b executor \<Rightarrow> operation \<Rightarrow> 'b world \<Rightarrow> exec_error option \<times> 'b world" where
  "preflight e op w =
     (if ex_modelsDir e = [] then (Some (OpErr ErrorInternal ''no configured models directory''), w)
      else case checkDiskPreflight (o_statfs (ex_world e) (w_tick w)) (ex_modelsDir e) (remainingBytes op) (ex_reserve e) of
             Some _ \<Rightarrow> (Some (OpErr ErrorDiskInsufficient ''disk preflight''), tick w)
           | None \<Rightarrow> (None, tick w))"

fun resolveAll :: "string \<Rightarrow> operation \<Rightarrow> artifact_progress list \<Rightarrow> exec_error + resolved_artifact list" where
  "resolveAll dir op [] = Inr []"
| "resolveAll dir op (a # as) =
     (case resolveArtifactURL (op_sourceRepository op) (op_sourceRevision op) (ap_path a) of
        Inl _ \<Rightarrow> Inl (OpErr ErrorUntrustedSource ''source url'')
      | Inr url \<Rightarrow>
          (case resolveArtifactDestination dir (op_sourceRepository op) (ap_path a) of
             Inl _ \<Rightarrow> Inl (OpErr ErrorUntrustedSource ''destination'')
           | Inr dest \<Rightarrow>
               (case resolveAll dir op as of
                  Inl err \<Rightarrow> Inl err
                | Inr rs \<Rightarrow> Inr (\<lparr>ra_url = url, ra_dest = dest\<rparr> # rs))))"

definition resolveArtifacts :: "'b executor \<Rightarrow> operation \<Rightarrow> exec_error + resolved_artifact list" where
  "resolveArtifacts e op =
     (if ex_modelsDir e = [] then Inl (OpErr ErrorInternal ''no configured models directory'')
      else resolveAll (ex_modelsDir e) op (op_artifacts op))"

section \<open>Download\<close>

abbreviation partOf :: "string \<Rightarrow> string" where
  "partOf dest \<equiv> dest @ ''.part''"

definition doGet :: "'b executor \<Rightarrow> source_url \<Rightarrow> int \<Rightarrow> 'b world \<Rightarrow> (exec_error + 'b http_resp) \<times> 'b world" where
  "doGet e url offset w =
     (case o_http (ex_world e) (w_tick w) (su_endpoint url @ su_path url) (if offset > 0 then offset else 0) of
        Inl msg \<Rightarrow> (Inl (OpErr ErrorInternal msg), tick w)
      | Inr resp \<Rightarrow> (Inr resp, tick w))"

text \<open>The response, whether to append, and the warning of a refused range.\<close>

definition fetchArtifact :: "'b executor \<Rightarrow> source_url \<Rightarrow> int \<Rightarrow> 'b world
    \<Rightarrow> (exec_error + ('b http_resp \<times> bool \<times> string)) \<times> 'b world" where
  "fetchArtifact e url existingSize w =
     (case doGet e url existingSize w of
        (Inl err, w1) \<Rightarrow> (Inl err, w1)
      | (Inr resp, w1) \<Rightarrow>
          if existingSize = 0
          then (if hr_status resp \<noteq> 200 then (Inl (OpErr ErrorInternal ''download''), w1)
                else (Inr (resp, False, []), w1))
          else if hr_status resp = 206 then (Inr (resp, True, []), w1)
          else if hr_status resp = 200 \<or> hr_status resp = 416
          then (case doGet e url 0 w1 of
                  (Inl err, w2) \<Rightarrow> (Inl err, w2)
                | (Inr resp2, w2) \<Rightarrow>
                    if hr_status resp2 \<noteq> 200 then (Inl (OpErr ErrorInternal ''restart download''), w2)
                    else (Inr (resp2, False, ''origin did not honor a resume request''), w2))
          else (Inl (OpErr ErrorInternal ''download''), w1))"

definition appendFile :: "string \<Rightarrow> 'b list \<Rightarrow> 'b world \<Rightarrow> 'b world" where
  "appendFile path bs w =
     w\<lparr>w_fs := (w_fs w)(path \<mapsto> (case w_fs w path of Some c \<Rightarrow> c | None \<Rightarrow> []) @ bs)\<rparr>"

text \<open>
  The read loop; the list of reads is what the body will deliver, its end an end of file. It
  returns the error, or the bytes written.
\<close>

fun readLoop :: "'b executor \<Rightarrow> nat \<Rightarrow> string \<Rightarrow> ('b list \<times> read_end) list \<Rightarrow> int \<Rightarrow> int \<Rightarrow> operation \<Rightarrow> 'b world
    \<Rightarrow> (exec_error + int) \<times> operation \<times> 'b world" where
  "readLoop e i path [] written lastSaved op w =
     (case o_ctxErr (ex_world e) (w_tick w) of
        Some msg \<Rightarrow> (Inl (OpErr ErrorCancelled msg), op, tick w)
      | None \<Rightarrow> (Inr written, op, tick w))"
| "readLoop e i path ((bs, fin) # reads) written lastSaved op w =
     (case o_ctxErr (ex_world e) (w_tick w) of
        Some msg \<Rightarrow> (Inl (OpErr ErrorCancelled msg), op, tick w)
      | None \<Rightarrow>
          let continue = (\<lambda>written lastSaved op w.
                case fin of
                  ReadEOF \<Rightarrow> (Inr written, op, w)
                | ReadErr msg \<Rightarrow> (Inl (OpErr ErrorInternal msg), op, w)
                | ReadMore \<Rightarrow> readLoop e i path reads written lastSaved op w)
          in if bs = [] then continue written lastSaved op (tick w)
             else case ioResult e (tick w) of
               (Some msg, w1) \<Rightarrow> (Inl (OpErr ErrorInternal msg), op, w1)
             | (None, w1) \<Rightarrow>
                 let w2 = appendFile path bs w1;
                     written1 = written + int (length bs)
                 in if written1 - lastSaved \<ge> progressSaveInterval e
                    then (case stopIfCancelled e op w2 of
                            (True, w3) \<Rightarrow> (Inl ExternallyCancelled, op, w3)
                          | (False, w3) \<Rightarrow>
                              (case saveProgress e i written1 op w3 of
                                 (True, op1, w4) \<Rightarrow> (Inl ExternallyCancelled, op1, w4)
                               | (False, op1, w4) \<Rightarrow> continue written1 written1 op1 w4))
                    else continue written1 lastSaved op w2)"

text \<open>Open the partial file, write the body to it, sync and close it.\<close>

definition writePart :: "'b executor \<Rightarrow> nat \<Rightarrow> string \<Rightarrow> 'b http_resp \<Rightarrow> bool \<Rightarrow> int \<Rightarrow> operation \<Rightarrow> 'b world
    \<Rightarrow> exec_error option \<times> operation \<times> 'b world" where
  "writePart e i path resp resuming existingSize op w =
     (case ioResult e w of
        (Some msg, w1) \<Rightarrow> (Some (OpErr ErrorInternal msg), op, w1)
      | (None, w1) \<Rightarrow>
          let w2 = (if resuming then appendFile path [] w1 else w1\<lparr>w_fs := (w_fs w1)(path \<mapsto> [])\<rparr>)
          in case readLoop e i path (hr_reads resp) existingSize existingSize op w2 of
               (Inl err, op1, w3) \<Rightarrow> (Some err, op1, w3)
             | (Inr written, op1, w3) \<Rightarrow>
                 (case ioResult e w3 of
                    (Some msg, w4) \<Rightarrow> (Some (OpErr ErrorInternal msg), op1, w4)
                  | (None, w4) \<Rightarrow>
                      (case saveProgress e i written op1 w4 of
                         (True, op2, w5) \<Rightarrow> (Some ExternallyCancelled, op2, w5)
                       | (False, op2, w5) \<Rightarrow> (None, op2, w5))))"

text \<open>Fetch and write one artifact's partial file, once the shortcuts have not applied.\<close>

definition fetchPart :: "'b executor \<Rightarrow> nat \<Rightarrow> resolved_artifact \<Rightarrow> int \<Rightarrow> operation \<Rightarrow> 'b world
    \<Rightarrow> exec_error option \<times> operation \<times> 'b world" where
  "fetchPart e i r existingSize op w =
     (case fetchArtifact e (ra_url r) existingSize w of
        (Inl err, w1) \<Rightarrow> (Some err, op, w1)
      | (Inr (resp, resuming, warning), w1) \<Rightarrow>
          if warning \<noteq> []
          then writePart e i (partOf (ra_dest r)) resp resuming 0 (op\<lparr>op_warnings := op_warnings op @ [warning]\<rparr>) w1
          else writePart e i (partOf (ra_dest r)) resp resuming existingSize op w1)"

text \<open>\<open>True\<close>: the wanted size is known and the file has it.\<close>

definition alreadyInstalled :: "i64 option \<Rightarrow> 'b stat_result \<Rightarrow> bool" where
  "alreadyInstalled want st =
     (case (want, st) of (Some t, Present c) \<Rightarrow> sizeOf c = sint t | _ \<Rightarrow> False)"

definition resumePart :: "'b executor \<Rightarrow> nat \<Rightarrow> resolved_artifact \<Rightarrow> operation \<Rightarrow> 'b world
    \<Rightarrow> exec_error option \<times> operation \<times> 'b world" where
  "resumePart e i r op w =
     (let go = (\<lambda>existingSize w.
            if (case ap_bytesTotal (op_artifacts op ! i) of Some t \<Rightarrow> existingSize \<ge> sint t | None \<Rightarrow> False)
            then (case saveProgress e i existingSize op w of (_, op1, w1) \<Rightarrow> (None, op1, w1))
            else fetchPart e i r existingSize op w)
      in case statFile e (partOf (ra_dest r)) w of
           (Present c, w1) \<Rightarrow> go (sizeOf c) w1
         | (NotExist, w1) \<Rightarrow> go 0 w1
         | (StatErr msg, w1) \<Rightarrow> (Some (OpErr ErrorInternal msg), op, w1))"

definition downloadOne :: "'b executor \<Rightarrow> nat \<Rightarrow> resolved_artifact \<Rightarrow> operation \<Rightarrow> 'b world
    \<Rightarrow> exec_error option \<times> operation \<times> 'b world" where
  "downloadOne e i r op w =
     (case ioResult e w of
        (Some msg, w1) \<Rightarrow> (Some (OpErr ErrorInternal msg), op, w1)
      | (None, w1) \<Rightarrow>
          (case ap_bytesTotal (op_artifacts op ! i) of
             None \<Rightarrow> resumePart e i r op w1
           | Some t \<Rightarrow>
               (case statFile e (ra_dest r) w1 of (st, w2) \<Rightarrow>
                  if alreadyInstalled (Some t) st
                  then (case saveProgress e i (sint t) op w2 of (_, op1, w3) \<Rightarrow> (None, op1, w3))
                  else resumePart e i r op w2)))"

fun downloadFrom :: "'b executor \<Rightarrow> nat \<Rightarrow> resolved_artifact list \<Rightarrow> operation \<Rightarrow> 'b world
    \<Rightarrow> exec_error option \<times> operation \<times> 'b world" where
  "downloadFrom e i [] op w = (None, op, w)"
| "downloadFrom e i (r # rs) op w =
     (case downloadOne e i r op w of
        (Some err, op1, w1) \<Rightarrow> (Some err, op1, w1)
      | (None, op1, w1) \<Rightarrow> downloadFrom e (Suc i) rs op1 w1)"

section \<open>Verify\<close>

definition equalFold :: "string \<Rightarrow> string \<Rightarrow> bool" where
  "equalFold a b \<longleftrightarrow> toLower a = toLower b"

text \<open>\<open>None\<close>: the content has the wanted digest.\<close>

definition verifyDigest :: "'b executor \<Rightarrow> string \<Rightarrow> string \<Rightarrow> 'b world \<Rightarrow> string option \<times> 'b world" where
  "verifyDigest e path want w =
     (case cutPrefix want ''sha256:'' of
        None \<Rightarrow> (Some ''unsupported digest form'', w)
      | Some hexWant \<Rightarrow>
          (case statFile e path w of
             (StatErr msg, w1) \<Rightarrow> (Some msg, w1)
           | (NotExist, w1) \<Rightarrow> (Some ''open for digest verification'', w1)
           | (Present c, w1) \<Rightarrow>
               if equalFold (o_sha256hex (ex_world e) c) hexWant then (None, w1)
               else (Some ''digest mismatch'', w1)))"

text \<open>The file to check or install: the partial, or the final file when only that exists.\<close>

definition partOrFinal :: "'b executor \<Rightarrow> string \<Rightarrow> 'b world \<Rightarrow> string \<times> 'b world" where
  "partOrFinal e dest w =
     (case statFile e (partOf dest) w of
        (NotExist, w1) \<Rightarrow>
          (case statFile e dest w1 of
             (Present _, w2) \<Rightarrow> (dest, w2)
           | (_, w2) \<Rightarrow> (partOf dest, w2))
      | (_, w1) \<Rightarrow> (partOf dest, w1))"

definition sizeOnlyWarning :: "string \<Rightarrow> string" where
  "sizeOnlyWarning path = path @ '': verified by size only; no digest was provided''"

definition verifyOne :: "'b executor \<Rightarrow> resolved_artifact \<Rightarrow> artifact_progress \<Rightarrow> operation \<Rightarrow> 'b world
    \<Rightarrow> exec_error option \<times> operation \<times> 'b world" where
  "verifyOne e r a op w =
     (case partOrFinal e (ra_dest r) w of (path, w1) \<Rightarrow>
        (case statFile e path w1 of
           (StatErr msg, w2) \<Rightarrow> (Some (OpErr ErrorInternal msg), op, w2)
         | (NotExist, w2) \<Rightarrow> (Some (OpErr ErrorInternal ''stat partial file''), op, w2)
         | (Present c, w2) \<Rightarrow>
             if (case ap_bytesTotal a of Some t \<Rightarrow> sizeOf c \<noteq> sint t | None \<Rightarrow> False)
             then (Some (OpErr ErrorDigestMismatch (ap_path a @ '': wrong size'')), op, w2)
             else case ap_digest a of
               None \<Rightarrow> (None, op\<lparr>op_warnings := op_warnings op @ [sizeOnlyWarning (ap_path a)]\<rparr>, w2)
             | Some digest \<Rightarrow>
                 (case verifyDigest e path digest w2 of
                    (None, w3) \<Rightarrow> (None, op, w3)
                  | (Some msg, w3) \<Rightarrow> (Some (OpErr ErrorDigestMismatch (ap_path a @ '': '' @ msg)), op, w3))))"

fun verifyFrom :: "'b executor \<Rightarrow> nat \<Rightarrow> resolved_artifact list \<Rightarrow> operation \<Rightarrow> 'b world
    \<Rightarrow> exec_error option \<times> operation \<times> 'b world" where
  "verifyFrom e i [] op w = (None, op, w)"
| "verifyFrom e i (r # rs) op w =
     (case verifyOne e r (op_artifacts op ! i) op w of
        (Some err, op1, w1) \<Rightarrow> (Some err, op1, w1)
      | (None, op1, w1) \<Rightarrow> verifyFrom e (Suc i) rs op1 w1)"

section \<open>Install\<close>

definition renameFile :: "'b executor \<Rightarrow> string \<Rightarrow> string \<Rightarrow> 'b world \<Rightarrow> string option \<times> 'b world" where
  "renameFile e old new w =
     (case ioResult e w of
        (Some msg, w1) \<Rightarrow> (Some msg, w1)
      | (None, w1) \<Rightarrow>
          (case w_fs w1 old of
             None \<Rightarrow> (Some ''no such file'', w1)
           | Some c \<Rightarrow> (None, w1\<lparr>w_fs := (w_fs w1)(old := None, new \<mapsto> c)\<rparr>)))"

fun install :: "'b executor \<Rightarrow> resolved_artifact list \<Rightarrow> 'b world \<Rightarrow> exec_error option \<times> 'b world" where
  "install e [] w = (None, w)"
| "install e (r # rs) w =
     (case partOrFinal e (ra_dest r) w of (path, w1) \<Rightarrow>
        if path = ra_dest r then install e rs w1
        else case renameFile e path (ra_dest r) w1 of
               (Some msg, w2) \<Rightarrow> (Some (OpErr ErrorInternal (''install '' @ ra_dest r @ '': '' @ msg)), w2)
             | (None, w2) \<Rightarrow> install e rs w2)"

section \<open>Registration paths\<close>

text \<open>The first weights artifact, and the one with the least shard index (the first of these).\<close>

fun scanWeights :: "nat \<Rightarrow> artifact_progress list \<Rightarrow> nat option \<Rightarrow> (nat \<times> nat) option
    \<Rightarrow> nat option \<times> (nat \<times> nat) option" where
  "scanWeights i [] first best = (first, best)"
| "scanWeights i (a # as) first best =
     (if ap_role a \<noteq> RoleWeights then scanWeights (Suc i) as first best
      else let first1 = (case first of None \<Rightarrow> Some i | Some f \<Rightarrow> Some f);
               best1 = (case parseShardInfo (ap_path a) of
                          None \<Rightarrow> best
                        | Some info \<Rightarrow>
                            (case best of
                               None \<Rightarrow> Some (i, sh_index info)
                             | Some (b, bi) \<Rightarrow> if sh_index info < bi then Some (i, sh_index info) else best))
           in scanWeights (Suc i) as first1 best1)"

definition primaryWeightsPath :: "operation \<Rightarrow> resolved_artifact list \<Rightarrow> string" where
  "primaryWeightsPath op resolved =
     (case scanWeights 0 (op_artifacts op) None None of
        (_, Some (b, _)) \<Rightarrow> ra_dest (resolved ! b)
      | (Some f, None) \<Rightarrow> ra_dest (resolved ! f)
      | (None, None) \<Rightarrow> [])"

definition companionPath :: "operation \<Rightarrow> resolved_artifact list \<Rightarrow> artifact_role \<Rightarrow> string" where
  "companionPath op resolved role =
     (case filter (\<lambda>(a, r). ap_role a = role) (zip (op_artifacts op) resolved) of
        [] \<Rightarrow> []
      | (a, r) # _ \<Rightarrow> ra_dest r)"

section \<open>The whole run\<close>

text \<open>Two steps in a row: the second runs only when the first did not fail.\<close>

definition andThen :: "(operation \<Rightarrow> 'b world \<Rightarrow> exec_error option \<times> operation \<times> 'b world)
    \<Rightarrow> (operation \<Rightarrow> 'b world \<Rightarrow> exec_error option \<times> operation \<times> 'b world)
    \<Rightarrow> operation \<Rightarrow> 'b world \<Rightarrow> exec_error option \<times> operation \<times> 'b world" where
  "andThen f g op w =
     (case f op w of
        (Some err, op1, w1) \<Rightarrow> (Some err, op1, w1)
      | (None, op1, w1) \<Rightarrow> g op1 w1)"

definition registerStep :: "'b executor \<Rightarrow> resolved_artifact list \<Rightarrow> operation \<Rightarrow> 'b world
    \<Rightarrow> exec_error option \<times> operation \<times> 'b world" where
  "registerStep e resolved op w =
     (case ex_register e of
        None \<Rightarrow> (None, op, w)
      | Some reg \<Rightarrow>
          (case reg op (primaryWeightsPath op resolved) of
             Some msg \<Rightarrow> (Some (OpErr ErrorInternal msg), op, tick w)
           | None \<Rightarrow> (None, op, tick w)))"

definition preflightStep :: "'b executor \<Rightarrow> operation \<Rightarrow> 'b world \<Rightarrow> exec_error option \<times> operation \<times> 'b world" where
  "preflightStep e op w = (case preflight e op w of (r, w1) \<Rightarrow> (r, op, w1))"

definition installStep :: "'b executor \<Rightarrow> resolved_artifact list \<Rightarrow> operation \<Rightarrow> 'b world
    \<Rightarrow> exec_error option \<times> operation \<times> 'b world" where
  "installStep e resolved op w = (case install e resolved w of (r, w1) \<Rightarrow> (r, op, w1))"

definition runResolved :: "'b executor \<Rightarrow> resolved_artifact list \<Rightarrow> operation \<Rightarrow> 'b world
    \<Rightarrow> exec_error option \<times> operation \<times> 'b world" where
  "runResolved e resolved =
     andThen (advance e PhaseDownloading)
     (andThen (downloadFrom e 0 resolved)
     (andThen (advance e PhaseVerifying)
     (andThen (verifyFrom e 0 resolved)
     (andThen (advance e PhaseInstalling)
     (andThen (installStep e resolved)
     (andThen (advance e PhaseRegistering)
     (andThen (registerStep e resolved)
     (andThen (advance e PhaseReloading)
              (advance e PhaseSucceeded)))))))))"

definition runSteps :: "'b executor \<Rightarrow> operation \<Rightarrow> 'b world \<Rightarrow> exec_error option \<times> operation \<times> 'b world" where
  "runSteps e =
     andThen (advance e PhasePreflighting)
     (andThen (preflightStep e)
     (andThen (advance e PhaseResolving)
     (\<lambda>op w. case resolveArtifacts e op of
                Inl err \<Rightarrow> (Some err, op, w)
              | Inr resolved \<Rightarrow> runResolved e resolved op w)))"

definition run :: "'b executor \<Rightarrow> operation \<Rightarrow> 'b world \<Rightarrow> operation \<times> 'b world" where
  "run e op w =
     (case runSteps e op w of
        (Some err, op1, w1) \<Rightarrow> finish e err op1 w1
      | (None, op1, w1) \<Rightarrow> (op1, w1))"

end
