(* ===== verification/Op_Run.thy ===== *)
theory Op_Run
  imports Op_Executor
begin

text \<open>
  What a run of the executor guarantees: how it may end, what it can do to the store, and what is on
  disk when it succeeds. The steps of \<open>run\<close> are composed with one rule per property, so each step
  is treated once.
\<close>

section \<open>Effects on the store\<close>

definition reaches :: "op_store \<Rightarrow> op_store \<Rightarrow> bool" where
  "reaches s s' \<longleftrightarrow> (\<exists>ws. s' = fold (\<lambda>(wk, op). put wk op) ws s)"

lemma reaches_refl [simp, intro]: "reaches s s"
  unfolding reaches_def by (rule exI [of _ "[]"]) simp

lemma reaches_trans [trans]: "reaches s s' \<Longrightarrow> reaches s' s'' \<Longrightarrow> reaches s s''"
  unfolding reaches_def by (metis comp_apply fold_append)

lemma reaches_put: "reaches s (put wk op s)"
  unfolding reaches_def by (rule exI [of _ "[(wk, op)]"]) simp

definition finalStored :: "string \<Rightarrow> op_store \<Rightarrow> bool" where
  "finalStored k s \<longleftrightarrow> (\<exists>r. lookup s k = Some r \<and> terminal (op_phase r))"

lemma reaches_final:
  assumes "lookup s k = Some r" "terminal (op_phase r)" "reaches s s'"
  shows "\<exists>r'. lookup s' k = Some r' \<and> op_phase r' = op_phase r"
  using assms opstore.run_final unfolding reaches_def by blast

lemma w_store_tick [simp]: "w_store (tick w) = w_store w" "w_fs (tick w) = w_fs w"
  by (simp_all add: tick_def)

lemma reaches_others: "reaches (w_store w) (w_store (others e w))"
  unfolding reaches_def others_def by auto

lemma others_fs [simp]: "w_fs (others e w) = w_fs w"
  by (simp add: others_def)

lemma storeSave_put:
  "storeSave e op w = (r, w') \<Longrightarrow> \<exists>wk. w_store w' = put wk op (w_store (others e w)) \<and> w_fs w' = w_fs w"
  by (auto simp: storeSave_def Let_def put_def split: prod.splits) (metis snd_conv)

lemma storeSave_reaches: "storeSave e op w = (r, w') \<Longrightarrow> reaches (w_store w) (w_store w') \<and> w_fs w' = w_fs w"
  using storeSave_put reaches_trans [OF reaches_others reaches_put] by metis

lemma storeSave_terminal:
  "storeSave e op w = (r, w') \<Longrightarrow> isAlreadyTerminal r \<Longrightarrow> finalStored (op_id op) (w_store w')"
  by (auto simp: storeSave_def Let_def saveOp_def atomicWrite_def isAlreadyTerminal_def finalStored_def lookup_def
      split: prod.splits sum.splits if_splits option.splits store_error.splits)

lemma stopIfCancelled_cases:
  assumes "stopIfCancelled e op w = (b, w')"
  shows "reaches (w_store w) (w_store w')" "w_fs w' = w_fs w" "b \<Longrightarrow> finalStored (op_id op) (w_store w')"
  using assms reaches_others [of w e]
  by (auto simp: stopIfCancelled_def Let_def finalStored_def lookup_def split: sum.splits)

lemma ioResult_frame: "ioResult e w = (r, w') \<Longrightarrow> w_store w' = w_store w \<and> w_fs w' = w_fs w"
  by (auto simp: ioResult_def)

lemma statFile_frame: "statFile e p w = (r, w') \<Longrightarrow> w_store w' = w_store w \<and> w_fs w' = w_fs w"
  by (auto simp: statFile_def dest: ioResult_frame split: prod.splits option.splits)

lemma statFile_result: "statFile e p w = (Present c, w') \<Longrightarrow> w_fs w p = Some c"
  "statFile e p w = (NotExist, w') \<Longrightarrow> w_fs w p = None"
  by (auto simp: statFile_def dest: ioResult_frame split: prod.splits option.splits)

section \<open>What every step keeps\<close>

text \<open>The plan's part of an operation, which the executor never changes.\<close>

definition planOf :: "operation \<Rightarrow> string \<times> string \<times> string \<times> (string \<times> i64 option \<times> artifact_role \<times> string option) list" where
  "planOf op = (op_id op, op_sourceRepository op, op_sourceRevision op,
     map (\<lambda>a. (ap_path a, ap_bytesTotal a, ap_role a, ap_digest a)) (op_artifacts op))"

text \<open>
  \<open>stepSpec p f q\<close>: started in phase \<open>p\<close>, the step \<open>f\<close> writes to the store through \<open>put\<close> only and
  keeps the plan; it succeeds in phase \<open>q\<close>, or it fails in a phase from which \<open>Fail\<close> is legal, or
  it stops because the store holds a terminal record of this operation.
\<close>

definition stepPost :: "operation \<Rightarrow> op_store \<Rightarrow> phase \<Rightarrow> exec_error option \<times> operation \<times> 'b world \<Rightarrow> bool" where
  "stepPost op s q res \<longleftrightarrow> (case res of (r, op', w') \<Rightarrow>
     reaches s (w_store w') \<and> planOf op' = planOf op \<and>
     (r = None \<longrightarrow> op_phase op' = q) \<and>
     (\<forall>c m. r = Some (OpErr c m) \<longrightarrow> \<not> terminal (op_phase op') \<and> phaseValid (op_phase op')) \<and>
     (r = Some ExternallyCancelled \<longrightarrow> finalStored (op_id op) (w_store w')))"

definition stepSpec :: "phase \<Rightarrow> (operation \<Rightarrow> 'b world \<Rightarrow> exec_error option \<times> operation \<times> 'b world) \<Rightarrow> phase \<Rightarrow> bool" where
  "stepSpec p f q \<longleftrightarrow> (\<forall>op w. op_phase op = p \<longrightarrow> stepPost op (w_store w) q (f op w))"

lemma stepSpecD: "stepSpec p f q \<Longrightarrow> op_phase op = p \<Longrightarrow> stepPost op (w_store w) q (f op w)"
  by (simp add: stepSpec_def)

lemma planOf_id: "planOf op' = planOf op \<Longrightarrow> op_id op' = op_id op"
  by (simp add: planOf_def)

lemma stepPost_trans:
  assumes "reaches s s1" "planOf op1 = planOf op" "stepPost op1 s1 q res"
  shows "stepPost op s q res"
proof -
  obtain r op' w' where res: "res = (r, op', w')" by (cases res)
  from assms(1,3) reaches_trans have "reaches s (w_store w')" by (simp add: stepPost_def res)
  with assms(2,3) planOf_id [OF assms(2)] show ?thesis by (simp add: stepPost_def res)
qed

lemma stepSpec_andThen [inv_intros]:
  assumes f: "stepSpec p f q" and g: "stepSpec q g r"
  shows "stepSpec p (andThen f g) r"
  unfolding stepSpec_def
proof (intro allI impI)
  fix op :: operation and w :: "'a world"
  assume p: "op_phase op = p"
  obtain r1 op1 w1 where f1: "f op w = (r1, op1, w1)" by (cases "f op w")
  have F: "stepPost op (w_store w) q (r1, op1, w1)" using stepSpecD [OF f p] f1 by metis
  show "stepPost op (w_store w) r (andThen f g op w)"
  proof (cases r1)
    case None
    with F have q: "op_phase op1 = q" "reaches (w_store w) (w_store w1)" "planOf op1 = planOf op"
      by (simp_all add: stepPost_def)
    show ?thesis
      using stepPost_trans [OF q(2,3) stepSpecD [OF g q(1)]] by (simp add: andThen_def f1 None)
  next
    case (Some err)
    with F show ?thesis by (simp add: andThen_def f1 stepPost_def)
  qed
qed


lemma planOf_transition: "transitionTo q now op = Inr op1 \<Longrightarrow> planOf op1 = planOf op \<and> op_phase op1 = q"
  by (auto simp: transitionTo_def planOf_def split: if_splits)

lemma advance_spec [inv_intros]:
  assumes "\<not> terminal p" "phaseValid p"
  shows "stepSpec p (advance e q) q"
  unfolding stepSpec_def
proof (intro allI impI)
  fix op :: operation and w :: "'a world"
  assume p: "op_phase op = p"
  obtain b w1 where st: "stopIfCancelled e op w = (b, w1)" by (cases "stopIfCancelled e op w")
  note S = stopIfCancelled_cases [OF st]
  show "stepPost op (w_store w) q (advance e q op w)"
  proof (cases b)
    case True
    with S show ?thesis by (simp add: advance_def st stepPost_def)
  next
    case False
    show ?thesis
    proof (cases "transitionTo q (nowAt e w1) op")
      case (Inl x)
      with S assms p False show ?thesis by (simp add: advance_def st stepPost_def)
    next
      case (Inr op1)
      obtain r w2 where sv: "storeSave e op1 w1 = (r, w2)" by (cases "storeSave e op1 w1")
      note T = planOf_transition [OF Inr]
      from storeSave_reaches [OF sv] S(1) have "reaches (w_store w) (w_store w2)" using reaches_trans by blast
      moreover have "isAlreadyTerminal r \<Longrightarrow> finalStored (op_id op) (w_store w2)"
        using storeSave_terminal [OF sv] planOf_id [OF conjunct1 [OF T]] by simp
      ultimately show ?thesis using T False by (simp add: advance_def st Inr sv stepPost_def)
    qed
  qed
qed

text \<open>A step of work leaves the phase as it is.\<close>

definition keepsPhase :: "operation \<Rightarrow> op_store \<Rightarrow> exec_error option \<times> operation \<times> 'b world \<Rightarrow> bool" where
  "keepsPhase op s res \<longleftrightarrow> (case res of (r, op', w') \<Rightarrow>
     reaches s (w_store w') \<and> planOf op' = planOf op \<and> op_phase op' = op_phase op \<and>
     (r = Some ExternallyCancelled \<longrightarrow> finalStored (op_id op) (w_store w')))"

lemma keepsPhase_spec:
  assumes "\<And>op w. keepsPhase op (w_store w) (f op w)" "\<not> terminal p" "phaseValid p"
  shows "stepSpec p f p"
  unfolding stepSpec_def
proof (intro allI impI)
  fix op :: operation and w :: "'a world"
  assume "op_phase op = p"
  with assms(1) [of op w] assms(2,3) show "stepPost op (w_store w) p (f op w)"
    by (cases "f op w") (simp add: keepsPhase_def stepPost_def)
qed

lemma keepsPhase_step:
  assumes "reaches s s1" "planOf op1 = planOf op" "op_phase op1 = op_phase op" "keepsPhase op1 s1 res"
  shows "keepsPhase op s res"
proof -
  obtain r op' w' where res: "res = (r, op', w')" by (cases res)
  from assms(1,4) reaches_trans have "reaches s (w_store w')" by (simp add: keepsPhase_def res)
  with assms planOf_id [OF assms(2)] show ?thesis by (simp add: keepsPhase_def res)
qed

lemma keepsPhase_stop:
  "reaches s (w_store w') \<Longrightarrow> r \<noteq> Some ExternallyCancelled \<Longrightarrow> keepsPhase op s (r, op, w')"
  by (simp add: keepsPhase_def)

lemma planOf_warnings [simp]: "planOf (op\<lparr>op_warnings := ws\<rparr>) = planOf op"
  by (simp add: planOf_def)

lemma planOf_progress:
  "planOf (op\<lparr>op_artifacts := (op_artifacts op)[i := (op_artifacts op ! i)\<lparr>ap_bytesDownloaded := n\<rparr>], op_updatedAt := t\<rparr>) = planOf op"
proof (cases "i < length (op_artifacts op)")
  case True
  have "map (\<lambda>a. (ap_path a, ap_bytesTotal a, ap_role a, ap_digest a))
      ((op_artifacts op)[i := (op_artifacts op ! i)\<lparr>ap_bytesDownloaded := n\<rparr>])
    = map (\<lambda>a. (ap_path a, ap_bytesTotal a, ap_role a, ap_digest a)) (op_artifacts op)"
    using True by (intro nth_equalityI) (auto simp: nth_list_update)
  then show ?thesis by (simp add: planOf_def)
qed (simp add: planOf_def list_update_beyond linorder_not_less)

lemma saveProgress_keeps:
  assumes "saveProgress e i n op w = (b, op', w')"
  shows "reaches (w_store w) (w_store w')" "planOf op' = planOf op" "op_phase op' = op_phase op"
    "w_fs w' = w_fs w" "b \<Longrightarrow> finalStored (op_id op) (w_store w')"
proof -
  from assms obtain r where sv: "storeSave e op' w = (r, w')" and b: "b = isAlreadyTerminal r"
    and op': "op' = op\<lparr>op_artifacts := (op_artifacts op)[i := (op_artifacts op ! i)\<lparr>ap_bytesDownloaded := word_of_int n\<rparr>],
                       op_updatedAt := nowAt e w\<rparr>"
    by (auto simp: saveProgress_def Let_def split: prod.splits)
  show "reaches (w_store w) (w_store w')" "w_fs w' = w_fs w" using storeSave_reaches [OF sv] by simp_all
  show pl: "planOf op' = planOf op" unfolding op' by (rule planOf_progress)
  show "op_phase op' = op_phase op" by (simp add: op')
  show "b \<Longrightarrow> finalStored (op_id op) (w_store w')"
    using storeSave_terminal [OF sv] planOf_id [OF pl] by (simp add: b)
qed

section \<open>The working steps\<close>

lemma keepsPhase_refl: "r \<noteq> Some ExternallyCancelled \<Longrightarrow> w_store w' = s \<Longrightarrow> keepsPhase op s (r, op, w')"
  by (rule keepsPhase_stop) simp_all

lemma preflightStep_keeps: "keepsPhase op (w_store w) (preflightStep e op w)"
  by (auto simp: preflightStep_def preflight_def intro!: keepsPhase_refl split: option.splits)

lemma registerStep_keeps: "keepsPhase op (w_store w) (registerStep e rs op w)"
  by (auto simp: registerStep_def intro!: keepsPhase_refl split: option.splits)

lemma partOrFinal_frame: "partOrFinal e d w = (p, w') \<Longrightarrow> w_store w' = w_store w \<and> w_fs w' = w_fs w"
  by (auto simp: partOrFinal_def dest!: statFile_frame split: prod.splits stat_result.splits)

lemma renameFile_store: "renameFile e a b w = (r, w') \<Longrightarrow> w_store w' = w_store w"
  by (auto simp: renameFile_def dest!: ioResult_frame split: prod.splits option.splits)

lemma install_frame: "install e rs w = (r, w') \<Longrightarrow> w_store w' = w_store w \<and> r \<noteq> Some ExternallyCancelled"
proof (induction rs arbitrary: w)
  case (Cons r0 rs)
  obtain p w1 where p: "partOrFinal e (ra_dest r0) w = (p, w1)" by (cases "partOrFinal e (ra_dest r0) w")
  obtain x w2 where x: "renameFile e p (ra_dest r0) w1 = (x, w2)" by (cases "renameFile e p (ra_dest r0) w1")
  from Cons p x show ?case
    using partOrFinal_frame [OF p] renameFile_store [OF x]
    by (auto split: if_splits option.splits)
qed simp

lemma installStep_keeps: "keepsPhase op (w_store w) (installStep e rs op w)"
proof -
  obtain r w' where i: "install e rs w = (r, w')" by (cases "install e rs w")
  with install_frame [OF i] show ?thesis by (simp add: installStep_def keepsPhase_refl)
qed

lemma verifyDigest_frame: "verifyDigest e p d w = (r, w') \<Longrightarrow> w_store w' = w_store w \<and> w_fs w' = w_fs w"
  by (auto simp: verifyDigest_def dest!: statFile_frame split: prod.splits stat_result.splits option.splits if_splits)

lemma verifyOne_frame:
  assumes "verifyOne e r a op w = (res, op', w')"
  shows "w_store w' = w_store w \<and> w_fs w' = w_fs w \<and> planOf op' = planOf op \<and> op_phase op' = op_phase op
    \<and> op_artifacts op' = op_artifacts op \<and> res \<noteq> Some ExternallyCancelled"
  using assms
  by (auto simp: verifyOne_def dest!: statFile_frame verifyDigest_frame partOrFinal_frame
      split: prod.splits stat_result.splits option.splits if_splits)

lemma verifyFrom_frame:
  "verifyFrom e i rs op w = (res, op', w') \<Longrightarrow> w_store w' = w_store w \<and> w_fs w' = w_fs w
    \<and> planOf op' = planOf op \<and> op_phase op' = op_phase op \<and> res \<noteq> Some ExternallyCancelled"
proof (induction rs arbitrary: i op w)
  case (Cons r rs)
  obtain x op1 w1 where v: "verifyOne e r (op_artifacts op ! i) op w = (x, op1, w1)"
    by (cases "verifyOne e r (op_artifacts op ! i) op w")
  from Cons v verifyOne_frame [OF v] show ?case by (auto split: option.splits)
qed simp

lemma verifyFrom_keeps: "keepsPhase op (w_store w) (verifyFrom e i rs op w)"
proof -
  obtain r op' w' where v: "verifyFrom e i rs op w = (r, op', w')" by (cases "verifyFrom e i rs op w")
  with verifyFrom_frame [OF v] show ?thesis by (simp add: keepsPhase_def)
qed

lemma doGet_frame: "doGet e u k w = (r, w') \<Longrightarrow> w_store w' = w_store w \<and> w_fs w' = w_fs w
    \<and> r \<noteq> Inl ExternallyCancelled"
  by (auto simp: doGet_def split: sum.splits)

lemma fetchArtifact_frame: "fetchArtifact e u k w = (r, w') \<Longrightarrow> w_store w' = w_store w \<and> w_fs w' = w_fs w
    \<and> r \<noteq> Inl ExternallyCancelled"
  by (auto simp: fetchArtifact_def dest!: doGet_frame split: prod.splits sum.splits if_splits)

lemma appendFile_store [simp]: "w_store (appendFile p bs w) = w_store w"
  by (simp add: appendFile_def)

text \<open>The same shape for the read loop, whose result is a sum.\<close>

definition keepsLoop :: "operation \<Rightarrow> op_store \<Rightarrow> (exec_error + int) \<times> operation \<times> 'b world \<Rightarrow> bool" where
  "keepsLoop op s res \<longleftrightarrow> (case res of (r, op', w') \<Rightarrow>
     reaches s (w_store w') \<and> planOf op' = planOf op \<and> op_phase op' = op_phase op \<and>
     (r = Inl ExternallyCancelled \<longrightarrow> finalStored (op_id op) (w_store w')))"

lemma keepsLoop_step:
  assumes "reaches s s1" "planOf op1 = planOf op" "op_phase op1 = op_phase op" "keepsLoop op1 s1 res"
  shows "keepsLoop op s res"
proof -
  obtain r op' w' where res: "res = (r, op', w')" by (cases res)
  from assms(1,4) reaches_trans have "reaches s (w_store w')" by (simp add: keepsLoop_def res)
  with assms planOf_id [OF assms(2)] show ?thesis by (simp add: keepsLoop_def res)
qed

lemma keepsLoop_here: "r \<noteq> Inl ExternallyCancelled \<Longrightarrow> w_store w' = s \<Longrightarrow> keepsLoop op s (r, op, w')"
  by (simp add: keepsLoop_def)

text \<open>The part of an iteration after the bytes have been written.\<close>

definition afterWrite :: "'b executor \<Rightarrow> nat \<Rightarrow> string \<Rightarrow> read_end \<Rightarrow> ('b list \<times> read_end) list \<Rightarrow> int \<Rightarrow> int \<Rightarrow> operation
    \<Rightarrow> 'b world \<Rightarrow> (exec_error + int) \<times> operation \<times> 'b world" where
  "afterWrite e i path fin reads written lastSaved op w =
     (case fin of
        ReadEOF \<Rightarrow> (Inr written, op, w)
      | ReadErr msg \<Rightarrow> (Inl (OpErr ErrorInternal msg), op, w)
      | ReadMore \<Rightarrow> readLoop e i path reads written lastSaved op w)"

lemma readLoop_Cons:
  "readLoop e i path ((bs, fin) # reads) written lastSaved op w =
     (case o_ctxErr (ex_world e) (w_tick w) of
        Some msg \<Rightarrow> (Inl (OpErr ErrorCancelled msg), op, tick w)
      | None \<Rightarrow>
          if bs = [] then afterWrite e i path fin reads written lastSaved op (tick w)
          else case ioResult e (tick w) of
            (Some msg, w1) \<Rightarrow> (Inl (OpErr ErrorInternal msg), op, w1)
          | (None, w1) \<Rightarrow>
              if written + int (length bs) - lastSaved \<ge> progressSaveInterval e
              then (case stopIfCancelled e op (appendFile path bs w1) of
                      (True, w3) \<Rightarrow> (Inl ExternallyCancelled, op, w3)
                    | (False, w3) \<Rightarrow>
                        (case saveProgress e i (written + int (length bs)) op w3 of
                           (True, op1, w4) \<Rightarrow> (Inl ExternallyCancelled, op1, w4)
                         | (False, op1, w4) \<Rightarrow>
                             afterWrite e i path fin reads (written + int (length bs)) (written + int (length bs)) op1 w4))
              else afterWrite e i path fin reads (written + int (length bs)) lastSaved op (appendFile path bs w1))"
  by (simp add: afterWrite_def Let_def split: option.split prod.split bool.split)


lemma readLoop_keeps: "keepsLoop op (w_store w) (readLoop e i path reads n ls op w)"
proof (induction reads arbitrary: n ls op w)
  case Nil
  show ?case by (auto intro!: keepsLoop_here split: option.split)
next
  case (Cons rd reads)
  obtain bs fin where rd: "rd = (bs, fin)" by (cases rd)
  have after: "keepsLoop op s (afterWrite e i path fin reads n ls op1 w1)"
    if "reaches s (w_store w1)" "planOf op1 = planOf op" "op_phase op1 = op_phase op" for s n ls op1 and w1 :: "'a world"
  proof (rule keepsLoop_step [OF that])
    show "keepsLoop op1 (w_store w1) (afterWrite e i path fin reads n ls op1 w1)"
      by (cases fin) (simp_all add: afterWrite_def Cons.IH keepsLoop_here)
  qed
  let ?n = "n + int (length bs)"
  have save: "keepsLoop op (w_store w)
      (case stopIfCancelled e op (appendFile path bs w1) of
         (True, w3) \<Rightarrow> (Inl ExternallyCancelled, op, w3)
       | (False, w3) \<Rightarrow>
           (case saveProgress e i ?n op w3 of
              (True, op1, w4) \<Rightarrow> (Inl ExternallyCancelled, op1, w4)
            | (False, op1, w4) \<Rightarrow> afterWrite e i path fin reads ?n ?n op1 w4))"
    if w1: "w_store w1 = w_store w" for w1
  proof -
    obtain b w3 where st: "stopIfCancelled e op (appendFile path bs w1) = (b, w3)"
      by (cases "stopIfCancelled e op (appendFile path bs w1)")
    obtain b' op1 w4 where sp: "saveProgress e i ?n op w3 = (b', op1, w4)" by (cases "saveProgress e i ?n op w3")
    note S = stopIfCancelled_cases [OF st, simplified, unfolded w1] and P = saveProgress_keeps [OF sp]
    from S(1) P(1) have "reaches (w_store w) (w_store w4)" by (rule reaches_trans)
    with S P show ?thesis by (auto simp: st sp keepsLoop_def [of _ _ "(Inl _, _)"] intro!: after split: bool.split)
  qed
  show ?case
  proof (cases "ioResult e (tick w)")
    case (Pair r w1)
    with ioResult_frame [OF Pair] have "w_store w1 = w_store w" by simp
    then show ?thesis
      unfolding rd readLoop_Cons Pair
      by (auto simp: keepsLoop_here intro!: after save split: option.split)
  qed
qed

lemma writePart_keeps: "keepsPhase op (w_store w) (writePart e i path resp resuming n op w)"
proof (cases "ioResult e w")
  case (Pair io w1)
  note I1 = ioResult_frame [OF Pair]
  define w2 where "w2 = (if resuming then appendFile path [] w1 else w1\<lparr>w_fs := (w_fs w1)(path \<mapsto> [])\<rparr>)"
  have w2: "w_store w2 = w_store w" using I1 by (simp add: w2_def)
  obtain rl op2 w4 where rl: "readLoop e i path (hr_reads resp) n n op w2 = (rl, op2, w4)"
    by (cases "readLoop e i path (hr_reads resp) n n op w2")
  have L: "reaches (w_store w) (w_store w4)" "planOf op2 = planOf op" "op_phase op2 = op_phase op"
    "rl = Inl ExternallyCancelled \<Longrightarrow> finalStored (op_id op) (w_store w4)"
    using readLoop_keeps [of op w2 e i path "hr_reads resp" n n] by (simp_all add: rl keepsLoop_def w2)
  obtain io2 w5 where io2: "ioResult e w4 = (io2, w5)" by (cases "ioResult e w4")
  note I2 = ioResult_frame [OF io2]
  have fin: "keepsPhase op (w_store w) (case saveProgress e i wr op2 w5 of
      (True, op3, w6) \<Rightarrow> (Some ExternallyCancelled, op3, w6) | (False, op3, w6) \<Rightarrow> (None, op3, w6))" for wr
  proof -
    obtain b op3 w6 where sp: "saveProgress e i wr op2 w5 = (b, op3, w6)" by (cases "saveProgress e i wr op2 w5")
    note P = saveProgress_keeps [OF sp]
    have "reaches (w_store w) (w_store w6)" using L(1) P(1) I2 reaches_trans by auto
    with P L planOf_id [OF L(2)] show ?thesis by (cases b) (simp_all add: sp keepsPhase_def)
  qed
  have fail: "keepsPhase op (w_store w) (Some (OpErr c m), op2, w5)" for c m
    using L I2 by (simp add: keepsPhase_def)
  show ?thesis
  proof (cases io)
    case (Some msg)
    with I1 show ?thesis by (simp add: writePart_def Pair keepsPhase_refl)
  next
    case None
    then have "writePart e i path resp resuming n op w = (case rl of
          Inl err \<Rightarrow> (Some err, op2, w4)
        | Inr written \<Rightarrow> (case io2 of
              Some msg \<Rightarrow> (Some (OpErr ErrorInternal msg), op2, w5)
            | None \<Rightarrow> (case saveProgress e i written op2 w5 of
                 (True, op3, w6) \<Rightarrow> (Some ExternallyCancelled, op3, w6)
               | (False, op3, w6) \<Rightarrow> (None, op3, w6))))"
      by (simp add: writePart_def Pair Let_def rl io2 flip: w2_def split: sum.split)
    moreover have "keepsPhase op (w_store w) (Some err, op2, w4)" if "rl = Inl err" for err
      using L that by (simp add: keepsPhase_def)
    ultimately show ?thesis using fin fail by (simp split: sum.split option.split)
  qed
qed

lemma fetchPart_keeps: "keepsPhase op (w_store w) (fetchPart e i r n op w)"
proof (cases "fetchArtifact e (ra_url r) n w")
  case (Pair f w1)
  note F = fetchArtifact_frame [OF Pair]
  have W: "keepsPhase op (w_store w) (writePart e i path resp resuming m (op\<lparr>op_warnings := ws\<rparr>) w1)"
    "keepsPhase op (w_store w) (writePart e i path resp resuming m op w1)" for path resp resuming m ws
    using writePart_keeps [of op w1]
      keepsPhase_step [OF reaches_refl _ _ writePart_keeps [of "op\<lparr>op_warnings := ws\<rparr>" w1]] F by simp_all
  show ?thesis
    using F W by (auto simp: fetchPart_def Pair intro!: keepsPhase_refl split: sum.split)
qed

lemma saved_keeps:
  "keepsPhase op (w_store w) (case saveProgress e i n op w of (_, op1, w1) \<Rightarrow> (None, op1, w1))"
proof (cases "saveProgress e i n op w")
  case (fields b op1 w1)
  with saveProgress_keeps [OF fields] show ?thesis by (simp add: keepsPhase_def)
qed

lemma resumePart_keeps: "keepsPhase op (w_store w) (resumePart e i r op w)"
proof (cases "statFile e (partOf (ra_dest r)) w")
  case (Pair st w1)
  note F = statFile_frame [OF Pair]
  have "keepsPhase op (w_store w) (case saveProgress e i n op w1 of (_, op1, w1) \<Rightarrow> (None, op1, w1))"
    "keepsPhase op (w_store w) (fetchPart e i r n op w1)" for n
    using saved_keeps [of op w1] fetchPart_keeps [of op w1] F by simp_all
  then show ?thesis
    using F by (auto simp: resumePart_def Pair Let_def intro!: keepsPhase_refl split: stat_result.split)
qed

lemma downloadOne_keeps: "keepsPhase op (w_store w) (downloadOne e i r op w)"
proof (cases "ioResult e w")
  case (Pair io w1)
  obtain st w2 where st: "statFile e (ra_dest r) w1 = (st, w2)" by (cases "statFile e (ra_dest r) w1")
  note F = ioResult_frame [OF Pair] and S = statFile_frame [OF st]
  have "keepsPhase op (w_store w) (resumePart e i r op w1)"
    "keepsPhase op (w_store w) (resumePart e i r op w2)"
    "keepsPhase op (w_store w) (case saveProgress e i n op w2 of (_, op1, w3) \<Rightarrow> (None, op1, w3))" for n
    using resumePart_keeps [of op w1] resumePart_keeps [of op w2] saved_keeps [of op w2] F S by simp_all
  then show ?thesis
    using F by (auto simp: downloadOne_def Pair st intro!: keepsPhase_refl split: option.split)
qed

lemma downloadFrom_keeps: "keepsPhase op (w_store w) (downloadFrom e i rs op w)"
proof (induction rs arbitrary: i op w)
  case (Cons r rs)
  obtain x op1 w1 where d: "downloadOne e i r op w = (x, op1, w1)" by (cases "downloadOne e i r op w")
  have K: "keepsPhase op (w_store w) (x, op1, w1)" using downloadOne_keeps [of op w e i r] d by metis
  show ?case
  proof (cases x)
    case None
    with K have "reaches (w_store w) (w_store w1)" "planOf op1 = planOf op" "op_phase op1 = op_phase op"
      by (simp_all add: keepsPhase_def)
    from keepsPhase_step [OF this Cons.IH] show ?thesis by (simp add: d None)
  qed (use K d in simp)
qed (simp add: keepsPhase_refl)

section \<open>How a run ends\<close>

lemma live_phases [simp]:
  "phaseValid PhaseQueued" "phaseValid PhasePreflighting" "phaseValid PhaseResolving" "phaseValid PhaseDownloading"
  "phaseValid PhaseVerifying" "phaseValid PhaseInstalling" "phaseValid PhaseRegistering" "phaseValid PhaseReloading"
  by (simp_all add: phaseValid_iff)

lemmas step_specs = keepsPhase_spec [OF preflightStep_keeps] keepsPhase_spec [OF downloadFrom_keeps]
  keepsPhase_spec [OF verifyFrom_keeps] keepsPhase_spec [OF installStep_keeps] keepsPhase_spec [OF registerStep_keeps]

lemma runResolved_spec: "stepSpec PhaseResolving (runResolved e rs) PhaseSucceeded"
  unfolding runResolved_def by (rule stepSpec_andThen advance_spec step_specs | assumption | simp)+

lemma resolveAll_error: "resolveAll dir op as = Inl err \<Longrightarrow> err \<noteq> ExternallyCancelled"
  by (induction as arbitrary: err) (auto split: sum.splits)

lemma runSteps_spec: "stepSpec PhaseQueued (runSteps e) PhaseSucceeded"
proof -
  have "stepSpec PhaseResolving (\<lambda>op w. case resolveArtifacts e op of
          Inl err \<Rightarrow> (Some err, op, w) | Inr resolved \<Rightarrow> runResolved e resolved op w) PhaseSucceeded"
    unfolding stepSpec_def
    using stepSpecD [OF runResolved_spec]
    by (auto simp: stepPost_def [of _ _ _ "(Some _, _)"] resolveArtifacts_def dest: resolveAll_error split: sum.split)
  note R = this
  show ?thesis
    unfolding runSteps_def by (rule stepSpec_andThen advance_spec step_specs R | simp)+
qed

lemma storeSave_final:
  assumes "storeSave e op w = (r, w')" "terminal (op_phase op)" "\<forall>n. o_saveOk (ex_world e) n"
  shows "finalStored (op_id op) (w_store w')"
proof -
  from assms(1,3) have "w_store w' = put True op (w_store (others e w))"
    by (auto simp: storeSave_def Let_def put_def split: prod.splits)
  with assms(2) show ?thesis by (auto simp: finalStored_def lookup_put)
qed

lemma failOp_live:
  "\<not> terminal p \<Longrightarrow> phaseValid p \<Longrightarrow> op_phase op = p \<Longrightarrow>
    \<exists>op1. failOp c m now op = Inr op1 \<and> op_phase op1 = PhaseFailed \<and> planOf op1 = planOf op"
  using canTransition_stop [of p] by (auto simp: failOp_def transitionTo_def planOf_def)

lemma terminate_outcome:
  assumes "\<not> terminal (op_phase op)" "phaseValid (op_phase op)" "terminate e c m op w = (op', w')"
  shows "op_phase op' = PhaseFailed" "planOf op' = planOf op" "reaches (w_store w) (w_store w')"
    "(\<forall>n. o_saveOk (ex_world e) n) \<Longrightarrow> finalStored (op_id op) (w_store w')"
proof -
  obtain op1 where f: "failOp c m (nowAt e w) op = Inr op1" "op_phase op1 = PhaseFailed" "planOf op1 = planOf op"
    using failOp_live [OF assms(1,2) refl] by blast
  obtain r w1 where sv: "storeSave e op1 w = (r, w1)" by (cases "storeSave e op1 w")
  from assms(3) f sv have eq: "op' = op1" "w' = w1" by (simp_all add: terminate_def)
  show "op_phase op' = PhaseFailed" "planOf op' = planOf op" using f eq by simp_all
  show "reaches (w_store w) (w_store w')" using storeSave_reaches [OF sv] eq by simp
  show "(\<forall>n. o_saveOk (ex_world e) n) \<Longrightarrow> finalStored (op_id op) (w_store w')"
    using storeSave_final [OF sv] f planOf_id [OF f(3)] eq by simp
qed

text \<open>The last step of a successful run saves the succeeded operation.\<close>

lemma andThen_None: "andThen f g op w = (None, op', w') \<Longrightarrow> \<exists>op1 w1. f op w = (None, op1, w1) \<and> g op1 w1 = (None, op', w')"
  by (auto simp: andThen_def split: prod.splits option.splits)

lemma advance_None:
  "advance e q op w = (None, op', w') \<Longrightarrow> \<exists>w1 r. transitionTo q (nowAt e w1) op = Inr op'
     \<and> storeSave e op' w1 = (r, w') \<and> \<not> isAlreadyTerminal r"
  by (auto simp: advance_def split: prod.splits bool.splits sum.splits if_splits)

lemma advance_plan:
  assumes "advance e q op w = (None, op', w')"
  shows "planOf op' = planOf op" "op_phase op' = q"
proof -
  from advance_None [OF assms] obtain w1 where "transitionTo q (nowAt e w1) op = Inr op'" by blast
  from planOf_transition [OF this] show "planOf op' = planOf op" "op_phase op' = q" by simp_all
qed

lemma runSteps_None:
  assumes "runSteps e op w = (None, op', w')"
  obtains op1 w1 where "advance e PhaseSucceeded op1 w1 = (None, op', w')" "planOf op1 = planOf op'"
proof -
  from assms obtain op1 w1 where "advance e PhaseSucceeded op1 w1 = (None, op', w')"
    unfolding runSteps_def runResolved_def by (fastforce dest!: andThen_None split: sum.splits)
  then show ?thesis using that advance_None planOf_transition by metis
qed

lemma runSteps_saved:
  assumes "op_phase op = PhaseQueued" "runSteps e op w = (None, op', w')" "\<forall>n. o_saveOk (ex_world e) n"
  shows "finalStored (op_id op) (w_store w')"
proof -
  have P: "stepPost op (w_store w) PhaseSucceeded (None, op', w')"
    using stepSpecD [OF runSteps_spec assms(1)] assms(2) by metis
  obtain op1 w1 where a: "advance e PhaseSucceeded op1 w1 = (None, op', w')" using runSteps_None [OF assms(2)] .
  from advance_None [OF a] obtain w2 r where "storeSave e op' w2 = (r, w')" by blast
  from storeSave_final [OF this _ assms(3)] P show ?thesis
    using planOf_id [of op' op] by (simp add: stepPost_def)
qed

text \<open>
  C8. A run of a queued operation ends in \<open>succeeded\<close> or \<open>failed\<close>, or it stops because the
  store already holds a terminal record of it; whatever the network, the disk, the registrar and
  the other writers of the store do in between. The plan's part of the operation is as it was, the
  store has changed through its guarded saves only, and when saves do not fail the stored record
  is terminal.
\<close>

theorem run_settles:
  assumes "op_phase op = PhaseQueued" and "run e op w = (op', w')"
  shows "(op_phase op' \<in> {PhaseSucceeded, PhaseFailed}
            \<or> (\<exists>r. lookup (w_store w') (op_id op) = Some r \<and> terminal (op_phase r)))
    \<and> ((\<forall>n. o_saveOk (ex_world e) n) \<longrightarrow> (\<exists>r. lookup (w_store w') (op_id op) = Some r \<and> terminal (op_phase r)))
    \<and> planOf op' = planOf op
    \<and> (\<exists>ws. w_store w' = fold (\<lambda>(wk, x). put wk x) ws (w_store w))"
proof -
  obtain r op1 w1 where rs: "runSteps e op w = (r, op1, w1)" by (cases "runSteps e op w")
  have P: "stepPost op (w_store w) PhaseSucceeded (r, op1, w1)"
    using stepSpecD [OF runSteps_spec assms(1)] rs by metis
  show ?thesis
    unfolding finalStored_def [symmetric] reaches_def [symmetric]
  proof (cases r)
    case None
    then have eq: "op' = op1" "w' = w1" using assms(2) rs by (simp_all add: run_def)
    have "(\<forall>n. o_saveOk (ex_world e) n) \<Longrightarrow> finalStored (op_id op) (w_store w1)"
      using runSteps_saved [OF assms(1) rs [unfolded None]] .
    with P None eq show "(op_phase op' \<in> {PhaseSucceeded, PhaseFailed} \<or> finalStored (op_id op) (w_store w')) \<and>
        ((\<forall>n. o_saveOk (ex_world e) n) \<longrightarrow> finalStored (op_id op) (w_store w')) \<and>
        planOf op' = planOf op \<and> reaches (w_store w) (w_store w')"
      by (simp add: stepPost_def)
  next
    case (Some err)
    show "(op_phase op' \<in> {PhaseSucceeded, PhaseFailed} \<or> finalStored (op_id op) (w_store w')) \<and>
        ((\<forall>n. o_saveOk (ex_world e) n) \<longrightarrow> finalStored (op_id op) (w_store w')) \<and>
        planOf op' = planOf op \<and> reaches (w_store w) (w_store w')"
    proof (cases err)
      case ExternallyCancelled
      with Some P assms(2) rs show ?thesis by (auto simp: run_def finish_def stepPost_def)
    next
      case (OpErr c m)
      with Some P have L: "\<not> terminal (op_phase op1)" "phaseValid (op_phase op1)" by (simp_all add: stepPost_def)
      from assms(2) rs Some OpErr have t: "terminate e c m op1 w1 = (op', w')" by (simp add: run_def finish_def)
      note T = terminate_outcome [OF L t]
      from P T(3) have R: "reaches (w_store w) (w_store w')" using reaches_trans [of "w_store w" "w_store w1"] by (simp add: stepPost_def)
      from P T(2) have pl: "planOf op' = planOf op" "op_id op1 = op_id op"
        using planOf_id [of op1 op] by (simp_all add: stepPost_def)
      show ?thesis using R pl T(1,4) by simp
    qed
  qed
qed

section \<open>What a successful run has put on disk\<close>

definition okContent :: "'b executor \<Rightarrow> artifact_progress \<Rightarrow> 'b list \<Rightarrow> bool" where
  "okContent e a c \<longleftrightarrow>
     (case ap_bytesTotal a of Some t \<Rightarrow> int (length c) = sint t | None \<Rightarrow> True) \<and>
     (case ap_digest a of
        Some d \<Rightarrow> \<exists>h. d = ''sha256:'' @ h \<and> toLower h = toLower (o_sha256hex (ex_world e) c)
      | None \<Rightarrow> True)"

text \<open>The content that will be installed at a destination: its partial, else what is there.\<close>

definition pending :: "(string \<rightharpoonup> 'b list) \<Rightarrow> string \<rightharpoonup> 'b list" where
  "pending fs d = (case fs (partOf d) of Some c \<Rightarrow> Some c | None \<Rightarrow> fs d)"

lemma partOrFinal_cases:
  assumes "partOrFinal e d w = (p, w')"
  shows "p = partOf d \<or> p = d \<and> w_fs w (partOf d) = None \<and> w_fs w d \<noteq> None"
proof -
  obtain st w1 where st: "statFile e (partOf d) w = (st, w1)" by (cases "statFile e (partOf d) w")
  obtain st' w2 where st': "statFile e d w1 = (st', w2)" by (cases "statFile e d w1")
  have "st' = Present c \<Longrightarrow> w_fs w d = Some c" for c
    using statFile_result(1) [of e d w1 c w2] st' statFile_frame [OF st] by simp
  moreover have "st = NotExist \<Longrightarrow> w_fs w (partOf d) = None" using statFile_result(2) [of e "partOf d" w w1] st by simp
  ultimately show ?thesis using assms st st' by (cases st; cases st') (auto simp: partOrFinal_def)
qed

lemma verifyDigest_None:
  assumes "verifyDigest e p d w = (None, w')" "w_fs w p = Some c"
  shows "\<exists>h. d = ''sha256:'' @ h \<and> toLower h = toLower (o_sha256hex (ex_world e) c)"
  using assms
  by (auto simp: verifyDigest_def cutPrefix_Some_iff equalFold_def dest!: statFile_result
      split: option.splits prod.splits stat_result.splits if_splits)

lemma verifyOne_None:
  assumes v: "verifyOne e r a op w = (None, op', w')"
  shows "\<exists>c. pending (w_fs w) (ra_dest r) = Some c \<and> okContent e a c"
proof -
  obtain p w1 where p: "partOrFinal e (ra_dest r) w = (p, w1)" by (cases "partOrFinal e (ra_dest r) w")
  obtain st w2 where st: "statFile e p w1 = (st, w2)" by (cases "statFile e p w1")
  from v p st obtain c where c: "st = Present c" by (cases st) (auto simp: verifyOne_def)
  have fs: "w_fs w1 = w_fs w" "w_fs w2 = w_fs w" using partOrFinal_frame [OF p] statFile_frame [OF st] by simp_all
  from st c fs have fl: "w_fs w p = Some c" using statFile_result(1) by metis
  have pend: "pending (w_fs w) (ra_dest r) = Some c"
    using partOrFinal_cases [OF p] fl by (auto simp: pending_def)
  from v p st c have "(case ap_bytesTotal a of Some t \<Rightarrow> int (length c) = sint t | None \<Rightarrow> True)"
    by (auto simp: verifyOne_def sizeOf_def split: option.splits if_splits)
  moreover have "\<exists>h. d = ''sha256:'' @ h \<and> toLower h = toLower (o_sha256hex (ex_world e) c)" if d: "ap_digest a = Some d" for d
  proof -
    obtain x w3 where x: "verifyDigest e p d w2 = (x, w3)" by (cases "verifyDigest e p d w2")
    from v p st c d x have "x = None" by (auto simp: verifyOne_def split: option.splits if_splits)
    with x verifyDigest_None [of e p d w2 w3 c] fl fs show ?thesis by simp
  qed
  ultimately show ?thesis using pend by (auto simp: okContent_def split: option.split)
qed

lemma verifyFrom_None:
  assumes "verifyFrom e i rs op w = (None, op', w')" "j < length rs"
  shows "\<exists>c. pending (w_fs w) (ra_dest (rs ! j)) = Some c \<and> okContent e (op_artifacts op ! (i + j)) c"
  using assms
proof (induction rs arbitrary: i j op w)
  case (Cons r rs)
  obtain x op1 w1 where v: "verifyOne e r (op_artifacts op ! i) op w = (x, op1, w1)"
    by (cases "verifyOne e r (op_artifacts op ! i) op w")
  with Cons.prems(1) have x: "x = None" and rest: "verifyFrom e (Suc i) rs op1 w1 = (None, op', w')"
    by (auto split: option.splits)
  note F = verifyOne_frame [OF v]
  show ?case
  proof (cases j)
    case 0
    with verifyOne_None [OF v [unfolded x]] show ?thesis by simp
  next
    case (Suc k)
    with Cons.IH [OF rest, of k] Cons.prems(2) F show ?thesis by simp
  qed
qed simp

text \<open>No destination is another one, or the partial of another one.\<close>

definition separated :: "string list \<Rightarrow> bool" where
  "separated ds \<longleftrightarrow> distinct ds \<and> (\<forall>d \<in> set ds. \<forall>d' \<in> set ds. d \<noteq> partOf d')"

lemma installOne_None:
  assumes "install e (r # rs) w = (None, w')"
  shows "\<exists>w1. install e rs w1 = (None, w') \<and> w_fs w1 (ra_dest r) = pending (w_fs w) (ra_dest r)
    \<and> (\<forall>p. p \<noteq> ra_dest r \<longrightarrow> p \<noteq> partOf (ra_dest r) \<longrightarrow> w_fs w1 p = w_fs w p)"
proof -
  obtain p w1 where p: "partOrFinal e (ra_dest r) w = (p, w1)" by (cases "partOrFinal e (ra_dest r) w")
  note F = partOrFinal_frame [OF p]
  show ?thesis
  proof (cases "p = ra_dest r")
    case True
    with partOrFinal_cases [OF p] have "pending (w_fs w) (ra_dest r) = w_fs w (ra_dest r)" by (auto simp: pending_def)
    moreover have "install e rs w1 = (None, w')" using assms p True by simp
    ultimately show ?thesis using F by auto
  next
    case False
    with partOrFinal_cases [OF p] have pp: "p = partOf (ra_dest r)" by blast
    obtain x w2 where x: "renameFile e p (ra_dest r) w1 = (x, w2)" by (cases "renameFile e p (ra_dest r) w1")
    with assms p False have "x = None" and rest: "install e rs w2 = (None, w')" by (auto split: option.splits)
    with x obtain c w3 where "w_fs w3 = w_fs w" "w_fs w p = Some c" "w2 = w3\<lparr>w_fs := (w_fs w3)(p := None, ra_dest r \<mapsto> c)\<rparr>"
      using F by (auto simp: renameFile_def dest!: ioResult_frame split: prod.splits option.splits)
    with rest pp show ?thesis by (intro exI [of _ w2]) (simp add: pending_def)
  qed
qed

lemma install_None:
  assumes "install e rs w = (None, w')" "separated (map ra_dest rs)" "r \<in> set rs"
  shows "w_fs w' (ra_dest r) = pending (w_fs w) (ra_dest r)"
proof -
  have "(\<forall>r \<in> set rs. w_fs w' (ra_dest r) = pending (w_fs w) (ra_dest r))
    \<and> (\<forall>p. p \<notin> ra_dest ` set rs \<longrightarrow> p \<notin> partOf ` ra_dest ` set rs \<longrightarrow> w_fs w' p = w_fs w p)"
    using assms(1,2)
  proof (induction rs arbitrary: w)
    case (Cons r rs)
    from installOne_None [OF Cons.prems(1)] obtain w1 where w1: "install e rs w1 = (None, w')"
      "w_fs w1 (ra_dest r) = pending (w_fs w) (ra_dest r)"
      "\<And>p. p \<noteq> ra_dest r \<Longrightarrow> p \<noteq> partOf (ra_dest r) \<Longrightarrow> w_fs w1 p = w_fs w p" by blast
    from Cons.prems(2) have sep: "separated (map ra_dest rs)" by (simp add: separated_def)
    note IH = Cons.IH [OF w1(1) sep]
    from Cons.prems(2) have out: "ra_dest r \<notin> ra_dest ` set rs" "ra_dest r \<notin> partOf ` ra_dest ` set rs"
      by (auto simp: separated_def)
    have "pending (w_fs w1) (ra_dest x) = pending (w_fs w) (ra_dest x)" if x: "x \<in> set rs" for x
    proof -
      have "ra_dest x \<noteq> ra_dest r" "ra_dest x \<noteq> partOf (ra_dest r)" "partOf (ra_dest x) \<noteq> ra_dest r"
        "partOf (ra_dest x) \<noteq> partOf (ra_dest r)"
        using Cons.prems(2) x imageI [OF x, of ra_dest] out by (auto simp: separated_def simp del: image_eqI)
      then show ?thesis by (simp add: pending_def w1(3) split: option.split)
    qed
    then show ?case using IH w1(2,3) out by auto
  qed (simp add: separated_def)
  with assms(3) show ?thesis by blast
qed

lemma advance_fs: "advance e q op w = (r, op', w') \<Longrightarrow> w_fs w' = w_fs w"
  by (auto simp: advance_def dest!: stopIfCancelled_cases(2) storeSave_reaches split: prod.splits bool.splits sum.splits if_splits)

lemma resolveAll_dests:
  "resolveAll dir op as = Inr rs \<Longrightarrow> length rs = length as \<and>
    (\<forall>i < length as. resolveArtifactDestination dir (op_sourceRepository op) (ap_path (as ! i)) = Inr (ra_dest (rs ! i)))"
proof (induction as arbitrary: rs)
  case (Cons a as)
  then show ?case by (auto split: sum.splits simp: nth_Cons split: nat.split)
qed simp

lemma resolveAll_separated:
  assumes "resolveAll dir op as = Inr rs" "cleanDir dir" "dir \<noteq> ''/''"
    and "distinct (map ap_path as)" "\<forall>p \<in> set (map ap_path as). \<forall>q \<in> set (map ap_path as). p \<noteq> q @ ''.part''"
  shows "separated (map ra_dest rs)"
proof -
  note R = resolveAll_dests [OF assms(1)]
  have dest: "ra_dest (rs ! i) = dir @ ''/'' @ op_sourceRepository op @ ''/'' @ ap_path (as ! i)" if "i < length as" for i
    using R that destination_composed [OF assms(2,3)] by blast
  then have eq: "map ra_dest rs = map (\<lambda>a. dir @ ''/'' @ op_sourceRepository op @ ''/'' @ ap_path a) as"
    using R by (intro nth_equalityI) simp_all
  have "distinct (map (\<lambda>p. dir @ ''/'' @ op_sourceRepository op @ ''/'' @ p) (map ap_path as))"
    unfolding distinct_map [of _ "map ap_path as"] using assms(4) by (simp add: inj_on_def)
  then have "distinct (map ra_dest rs)" by (simp add: eq comp_def)
  moreover have "\<forall>d \<in> set (map ra_dest rs). \<forall>d' \<in> set (map ra_dest rs). d \<noteq> partOf d'"
    using assms(5) by (simp add: eq)
  ultimately show ?thesis by (simp add: separated_def)
qed

lemma planOf_artifacts:
  assumes "planOf op' = planOf op"
  shows "length (op_artifacts op') = length (op_artifacts op)"
    "i < length (op_artifacts op) \<Longrightarrow> okContent e (op_artifacts op' ! i) = okContent e (op_artifacts op ! i)
       \<and> ap_path (op_artifacts op' ! i) = ap_path (op_artifacts op ! i)"
    "op_sourceRepository op' = op_sourceRepository op"
    "map ap_path (op_artifacts op') = map ap_path (op_artifacts op)"
proof -
  let ?f = "\<lambda>a. (ap_path a, ap_bytesTotal a, ap_role a, ap_digest a)"
  from assms have m: "map ?f (op_artifacts op') = map ?f (op_artifacts op)" by (simp add: planOf_def)
  then show l: "length (op_artifacts op') = length (op_artifacts op)" using map_eq_imp_length_eq by blast
  show "okContent e (op_artifacts op' ! i) = okContent e (op_artifacts op ! i)
       \<and> ap_path (op_artifacts op' ! i) = ap_path (op_artifacts op ! i)" if "i < length (op_artifacts op)"
    using arg_cong [OF m, of "\<lambda>xs. xs ! i"] that l by (simp add: okContent_def fun_eq_iff)
  show "op_sourceRepository op' = op_sourceRepository op" using assms by (simp add: planOf_def)
  show "map ap_path (op_artifacts op') = map ap_path (op_artifacts op)"
    using arg_cong [OF m, of "map fst"] by (simp add: comp_def)
qed

text \<open>The chain of a successful run: verify sees the plan's artifacts, and the files stay put.\<close>

lemma runResolved_None:
  assumes "runResolved e rs op w = (None, op', w')" "op_phase op = PhaseResolving"
  obtains op1 w1 opx wx w2 wi where "verifyFrom e 0 rs op1 w1 = (None, opx, wx)" "planOf op1 = planOf op"
    "w_fs w2 = w_fs w1" "install e rs w2 = (None, wi)" "w_fs w' = w_fs wi"
proof -
  from assms(1) obtain oa wa ob wb oc wc od wd oe we oi wi og wg oh wh ok' wk' where
    c: "advance e PhaseDownloading op w = (None, oa, wa)" "downloadFrom e 0 rs oa wa = (None, ob, wb)"
      "advance e PhaseVerifying ob wb = (None, oc, wc)" "verifyFrom e 0 rs oc wc = (None, od, wd)"
      "advance e PhaseInstalling od wd = (None, oe, we)" "installStep e rs oe we = (None, oi, wi)"
      "advance e PhaseRegistering oi wi = (None, og, wg)" "registerStep e rs og wg = (None, oh, wh)"
      "advance e PhaseReloading oh wh = (None, ok', wk')" "advance e PhaseSucceeded ok' wk' = (None, op', w')"
    unfolding runResolved_def by (fast dest!: andThen_None)
  have "planOf oa = planOf op" "planOf oc = planOf ob"
    using advance_plan [OF c(1)] advance_plan [OF c(3)] by simp_all
  moreover have "planOf ob = planOf oa" using downloadFrom_keeps [of oa wa e 0 rs] by (simp add: c(2) keepsPhase_def)
  ultimately have "planOf oc = planOf op" by simp
  moreover have "w_fs we = w_fs wc" using verifyFrom_frame [OF c(4)] advance_fs [OF c(5)] by simp
  moreover have "install e rs we = (None, wi)" using c(6) by (auto simp: installStep_def split: prod.splits)
  moreover have "w_fs wh = w_fs wg" using c(8) by (auto simp: registerStep_def split: option.splits)
  then have "w_fs w' = w_fs wi" using advance_fs [OF c(7)] advance_fs [OF c(9)] advance_fs [OF c(10)] by simp
  ultimately show thesis using that c(4) by blast
qed

text \<open>
  C6. A run that gets through its steps ends in \<open>succeeded\<close> and has installed every artifact
  of the plan: the file at its destination has the declared size, and the declared digest when
  there is one. This holds for any earlier partial or final files, any sequence of resumed,
  restarted and short reads, and any other writers of the store; it needs plan paths that do not
  collide with each other or with each other's partial files.
\<close>

theorem run_success_installs:
  assumes "op_phase op = PhaseQueued" and "runSteps e op w = (None, op', w')"
    and "cleanDir (ex_modelsDir e)" and "ex_modelsDir e \<noteq> ''/''"
    and "distinct (map ap_path (op_artifacts op))"
    and "\<forall>a \<in> set (op_artifacts op). \<forall>b \<in> set (op_artifacts op). ap_path a \<noteq> ap_path b @ ''.part''"
    and "a \<in> set (op_artifacts op)"
  shows "run e op w = (op', w') \<and> op_phase op' = PhaseSucceeded
    \<and> (\<exists>dest c. resolveArtifactDestination (ex_modelsDir e) (op_sourceRepository op) (ap_path a) = Inr dest
         \<and> w_fs w' dest = Some c \<and> okContent e a c)"
proof -
  have P: "stepPost op (w_store w) PhaseSucceeded (None, op', w')"
    using stepSpecD [OF runSteps_spec assms(1)] assms(2) by metis
  obtain oa wa ob wb oc wc rs where
    c: "advance e PhasePreflighting op w = (None, oa, wa)" "preflightStep e oa wa = (None, ob, wb)"
      "advance e PhaseResolving ob wb = (None, oc, wc)" "resolveArtifacts e oc = Inr rs"
      "runResolved e rs oc wc = (None, op', w')"
  proof -
    from assms(2) obtain oa wa ob wb oc wc where
      c: "advance e PhasePreflighting op w = (None, oa, wa)" "preflightStep e oa wa = (None, ob, wb)"
      "advance e PhaseResolving ob wb = (None, oc, wc)"
      "(case resolveArtifacts e oc of Inl err \<Rightarrow> (Some err, oc, wc) | Inr resolved \<Rightarrow> runResolved e resolved oc wc) = (None, op', w')"
      unfolding runSteps_def by (fast dest!: andThen_None)
    then show ?thesis using that by (cases "resolveArtifacts e oc") auto
  qed
  have "ob = oa" using c(2) by (auto simp: preflightStep_def split: prod.splits)
  then have plan: "planOf oc = planOf op" and ph: "op_phase oc = PhaseResolving"
    using advance_plan [OF c(1)] advance_plan [OF c(3)] by simp_all
  from c(4) have res: "resolveAll (ex_modelsDir e) oc (op_artifacts oc) = Inr rs"
    by (auto simp: resolveArtifacts_def split: if_splits)
  note A = planOf_artifacts [OF plan]
  have "separated (map ra_dest rs)"
  proof (rule resolveAll_separated [OF res assms(3,4)])
    show "distinct (map ap_path (op_artifacts oc))" using assms(5) A(4) by simp
    show "\<forall>p \<in> set (map ap_path (op_artifacts oc)). \<forall>q \<in> set (map ap_path (op_artifacts oc)). p \<noteq> q @ ''.part''"
      using assms(6) unfolding A(4) by simp
  qed
  from runResolved_None [OF c(5) ph] obtain op1 w1 opx wx w2 wi where
    r: "verifyFrom e 0 rs op1 w1 = (None, opx, wx)" "planOf op1 = planOf oc"
      "w_fs w2 = w_fs w1" "install e rs w2 = (None, wi)" "w_fs w' = w_fs wi" by blast
  from assms(7) obtain i where i: "i < length (op_artifacts op)" "a = op_artifacts op ! i" by (auto simp: in_set_conv_nth)
  note R = resolveAll_dests [OF res] and B = planOf_artifacts [OF r(2) [unfolded plan]]
  have len: "i < length rs" using R A(1) i by simp
  from verifyFrom_None [OF r(1) len] B(2) [OF i(1), of e] i obtain cc where
    cc: "pending (w_fs w1) (ra_dest (rs ! i)) = Some cc" "okContent e a cc" by auto
  have "w_fs w' (ra_dest (rs ! i)) = Some cc"
    using install_None [OF r(4) \<open>separated (map ra_dest rs)\<close>, of "rs ! i"] len cc r(3,5) by simp
  moreover have "resolveArtifactDestination (ex_modelsDir e) (op_sourceRepository op) (ap_path a) = Inr (ra_dest (rs ! i))"
    using R i A(1,3) A(2) [OF i(1), of e] by auto
  ultimately show ?thesis using P cc assms(2) by (auto simp: run_def stepPost_def)
qed

section \<open>Concrete runs\<close>

text \<open>A world without failures and without other writers, and what its origin serves.\<close>

definition demoExec :: "(string \<Rightarrow> string) \<Rightarrow> char executor" where
  "demoExec body = \<lparr>ex_modelsDir = ''/m'', ex_reserve = 0, ex_register = None, ex_progressInterval = 0,
     ex_world = \<lparr>o_others = (\<lambda>_. []), o_saveOk = (\<lambda>_. True), o_io = (\<lambda>_. None), o_ctxErr = (\<lambda>_. None),
       o_http = (\<lambda>_ url _. Inr \<lparr>hr_status = 200, hr_reads = [(take 2 (body url), ReadMore), (drop 2 (body url), ReadEOF)]\<rparr>),
       o_statfs = (\<lambda>_ _. Inr \<lparr>availableBytes = 100, totalBytes = 100\<rparr>),
       o_sha256hex = (\<lambda>c. ''ab''), o_now = int\<rparr>\<rparr>"

definition demoWorld :: "char world" where
  "demoWorld = \<lparr>w_store = storeOf [demoOp ''new'' PhaseQueued 2], w_fs = Map.empty, w_tick = 0\<rparr>"

definition demoBody :: "string \<Rightarrow> string" where
  "demoBody url = (if url = huggingFaceEndpoint @ ''/o/r/resolve/abc1234/w.gguf.part'' then ''evil'' else ''123456789'')"

lemma clean_m: "cleanDir ''/m''"
  unfolding cleanDir_def by (rule exI [of _ "[''m'']"]) (simp add: properSeg_def)

lemma demo_dest:
  "resolveArtifactDestination ''/m'' ''o/r'' ''w.gguf'' = Inr ''/m/o/r/w.gguf''"
  "resolveArtifactDestination ''/m'' ''o/r'' ''w.gguf.part'' = Inr ''/m/o/r/w.gguf.part''"
proof -
  have "resolveArtifactDestination ''/m'' ''o/r'' p = Inr (''/m'' @ ''/'' @ ''o/r'' @ ''/'' @ p)"
    if "p = ''w.gguf'' \<or> p = ''w.gguf.part''" for p
    using that by (subst destination_composed [OF clean_m])
      (auto simp: repositoryOk_def nameOk_def isAlnumCh_def isDigitCh_def isUpperCh_def isLowerCh_def properSeg_def)
  then show "resolveArtifactDestination ''/m'' ''o/r'' ''w.gguf'' = Inr ''/m/o/r/w.gguf''"
    "resolveArtifactDestination ''/m'' ''o/r'' ''w.gguf.part'' = Inr ''/m/o/r/w.gguf.part''" by simp_all
qed

lemma demo_url:
  "resolveArtifactURL ''o/r'' ''abc1234'' ''w.gguf''
     = Inr \<lparr>su_endpoint = huggingFaceEndpoint, su_path = ''/o/r/resolve/abc1234/w.gguf''\<rparr>"
  "resolveArtifactURL ''o/r'' ''abc1234'' ''w.gguf.part''
     = Inr \<lparr>su_endpoint = huggingFaceEndpoint, su_path = ''/o/r/resolve/abc1234/w.gguf.part''\<rparr>"
  by (simp_all add: resolveArtifactURL_def repositoryOk_def revisionOk_def nameOk_def isAlnumCh_def isDigitCh_def
      isUpperCh_def isLowerCh_def safePathSegments_def isHexCh_def hasPrefix_def)

lemma demo_revision: "op_sourceRevision (demoOp k p t) = ''abc1234''"
  by (simp add: demoOp_def newOp_def)

lemmas run_eval = andThen_def advance_def stopIfCancelled_def others_def demoExec_def demoWorld_def lookup_storeOf
  loadOp_def transitionTo_def canTransition_def storeSave_def saveOp_def atomicWrite_def Let_def tick_def nowAt_def
  storeOf_def isAlreadyTerminal_def preflightStep_def preflight_def checkDiskPreflight_def evaluateDiskPreflight_def
  remainingBytes_def resolveArtifacts_def demo_url demo_dest demo_revision runResolved_def demoArtifact_def
  downloadOne_def resumePart_def statFile_def ioResult_def alreadyInstalled_def fetchPart_def fetchArtifact_def
  doGet_def writePart_def readLoop_Cons afterWrite_def appendFile_def sizeOf_def progressSaveInterval_def
  saveProgress_def verifyOne_def partOrFinal_def installStep_def renameFile_def registerStep_def demoBody_def

lemma demo_steps:
  "\<exists>op' w'. runSteps (demoExec demoBody) (demoOp ''new'' PhaseQueued 2) demoWorld = (None, op', w')"
  unfolding runSteps_def by (simp add: run_eval)

theorem run_settles_witness:
  "\<exists>op' w'. run (demoExec demoBody) (demoOp ''new'' PhaseQueued 2) demoWorld = (op', w')
     \<and> (\<exists>r. lookup (w_store w') ''new'' = Some r \<and> terminal (op_phase r))"
proof -
  let ?op = "demoOp ''new'' PhaseQueued 2"
  obtain op' w' where r: "run (demoExec demoBody) ?op demoWorld = (op', w')" by (cases "run (demoExec demoBody) ?op demoWorld")
  have "\<forall>n. o_saveOk (ex_world (demoExec demoBody)) n" by (simp add: demoExec_def)
  with run_settles [OF _ r] r show ?thesis by auto
qed

theorem run_success_installs_witness:
  "\<exists>op' w' c. run (demoExec demoBody) (demoOp ''new'' PhaseQueued 2) demoWorld = (op', w')
     \<and> op_phase op' = PhaseSucceeded \<and> w_fs w' ''/m/o/r/w.gguf'' = Some c \<and> okContent (demoExec demoBody) demoArtifact c"
proof -
  let ?op = "demoOp ''new'' PhaseQueued 2"
  obtain op' w' where r: "runSteps (demoExec demoBody) ?op demoWorld = (None, op', w')" using demo_steps by blast
  have dir: "ex_modelsDir (demoExec demoBody) = ''/m''" by (simp add: demoExec_def)
  from run_success_installs [OF _ r, of demoArtifact] clean_m dir demo_dest(1) show ?thesis
    by (auto simp: demoArtifact_def)
qed

text \<open>
  The plan of two artifacts, one of which is named like the other's partial file. Both
  are verified, and the run succeeds; but installing the first replaces the verified partial of
  the second, so the weights that are installed are the bytes of the first.
\<close>

theorem run_installs_colliding_partial:
  "let extra = \<lparr>ap_path = ''w.gguf.part'', ap_bytesDownloaded = 0, ap_bytesTotal = Some 4, ap_role = RoleOther, ap_digest = None\<rparr>;
       op = (demoOp ''new'' PhaseQueued 2)\<lparr>op_artifacts := [extra, demoArtifact]\<rparr>
   in \<exists>op' w'. run (demoExec demoBody) op demoWorld = (op', w') \<and> op_phase op' = PhaseSucceeded
        \<and> w_fs w' ''/m/o/r/w.gguf'' = Some ''evil'' \<and> w_fs w' ''/m/o/r/w.gguf.part'' = None
        \<and> \<not> okContent (demoExec demoBody) demoArtifact ''evil''"
  unfolding run_def runSteps_def
  by (simp add: run_eval okContent_def huggingFaceEndpoint_def)

section \<open>The artifact the backend is pointed at\<close>

definition weightShard :: "artifact_progress \<Rightarrow> nat option" where
  "weightShard a = (if ap_role a = RoleWeights then map_option sh_index (parseShardInfo (ap_path a)) else None)"

lemma scanWeights_best:
  assumes "scanWeights i as first best = (f, b)"
  shows "case b of
      None \<Rightarrow> best = None \<and> (\<forall>a \<in> set as. weightShard a = None)
    | Some (k, n) \<Rightarrow>
        (best = Some (k, n) \<or> (\<exists>j < length as. k = i + j \<and> weightShard (as ! j) = Some n))
        \<and> (\<forall>a \<in> set as. \<forall>m. weightShard a = Some m \<longrightarrow> n \<le> m)
        \<and> (\<forall>k' n'. best = Some (k', n') \<longrightarrow> n \<le> n')"
  using assms
proof (induction as arbitrary: i first best)
  case Nil
  then show ?case by (auto split: option.split)
next
  case (Cons a as)
  define best1 where "best1 = (case weightShard a of
      None \<Rightarrow> best
    | Some n \<Rightarrow> (case best of None \<Rightarrow> Some (i, n) | Some (b, bi) \<Rightarrow> if n < bi then Some (i, n) else best))"
  from Cons.prems obtain first1 where s1: "scanWeights (Suc i) as first1 best1 = (f, b)"
    by (auto simp: best1_def weightShard_def Let_def split: option.splits if_splits)
  have step: "j < length as \<Longrightarrow> (a # as) ! Suc j = as ! j" for j by simp
  show ?case
  proof (cases b)
    case None
    with Cons.IH [OF s1] show ?thesis by (auto simp: best1_def split: option.splits if_splits)
  next
    case (Some kn)
    obtain k n where kn: "kn = (k, n)" by (cases kn)
    from Cons.IH [OF s1] Some kn have IH: "best1 = Some (k, n) \<or> (\<exists>j < length as. k = Suc i + j \<and> weightShard (as ! j) = Some n)"
      "\<forall>a \<in> set as. \<forall>m. weightShard a = Some m \<longrightarrow> n \<le> m" "\<forall>k' n'. best1 = Some (k', n') \<longrightarrow> n \<le> n'" by auto
    have "best = Some (k, n) \<or> (\<exists>j < length (a # as). k = i + j \<and> weightShard ((a # as) ! j) = Some n)"
    proof (cases "best1 = Some (k, n)")
      case True
      then have "best = Some (k, n) \<or> k = i \<and> weightShard a = Some n"
        by (auto simp: best1_def split: option.splits if_splits)
      then show ?thesis by auto
    next
      case False
      with IH(1) obtain j where "j < length as" "k = Suc i + j" "weightShard (as ! j) = Some n" by blast
      then show ?thesis by (intro disjI2 exI [of _ "Suc j"]) simp
    qed
    moreover have "weightShard a = Some m \<longrightarrow> n \<le> m" for m
      using IH(3) by (auto simp: best1_def split: option.splits if_splits)
    moreover have "best = Some (k', n') \<longrightarrow> n \<le> n'" for k' n'
      using IH(3) by (auto simp: best1_def split: option.splits if_splits)
    ultimately show ?thesis using IH(2) Some kn by auto
  qed
qed

text \<open>
  When the plan has sharded weights, the registrar is pointed at a weights shard of
  least index, whatever the order of the plan's artifacts.
\<close>

theorem primary_path_is_least_shard:
  assumes "a \<in> set (op_artifacts op)" and "weightShard a = Some m"
  shows "\<exists>k < length (op_artifacts op). \<exists>n. primaryWeightsPath op resolved = ra_dest (resolved ! k)
     \<and> weightShard (op_artifacts op ! k) = Some n
     \<and> (\<forall>b \<in> set (op_artifacts op). \<forall>m. weightShard b = Some m \<longrightarrow> n \<le> m)"
proof -
  obtain f b where s: "scanWeights 0 (op_artifacts op) None None = (f, b)" by (cases "scanWeights 0 (op_artifacts op) None None")
  note B = scanWeights_best [OF s]
  from B assms obtain k n where b: "b = Some (k, n)" by (cases b) auto
  then have "primaryWeightsPath op resolved = ra_dest (resolved ! k)"
    by (simp add: primaryWeightsPath_def s split: option.split)
  with B b show ?thesis by auto
qed

theorem primary_path_is_least_shard_witness:
  "primaryWeightsPath
     ((demoOp ''a'' PhaseQueued 1)\<lparr>op_artifacts := [demoArtifact\<lparr>ap_path := ''w-00002-of-00002.gguf''\<rparr>,
        demoArtifact\<lparr>ap_path := ''w-00001-of-00002.gguf''\<rparr>]\<rparr>)
     (map (\<lambda>d. \<lparr>ra_url = \<lparr>su_endpoint = [], su_path = []\<rparr>, ra_dest = d\<rparr>) [''two'', ''one'']) = ''one''"
proof -
  let ?a = "demoArtifact\<lparr>ap_path := ''w-00002-of-00002.gguf''\<rparr>" and ?b = "demoArtifact\<lparr>ap_path := ''w-00001-of-00002.gguf''\<rparr>"
  let ?op = "(demoOp ''a'' PhaseQueued 1)\<lparr>op_artifacts := [?a, ?b]\<rparr>"
  let ?rs = "map (\<lambda>d. \<lparr>ra_url = \<lparr>su_endpoint = [], su_path = []\<rparr>, ra_dest = d\<rparr>) [''two'', ''one'']"
  have w: "weightShard ?a = Some 2" "weightShard ?b = Some 1" by (simp_all add: weightShard_def demoArtifact_def shard_eval)
  have "?b \<in> set (op_artifacts ?op)" by simp
  from primary_path_is_least_shard [OF this w(2), of ?rs] obtain k n where
    k: "k < 2" "primaryWeightsPath ?op ?rs = ra_dest (?rs ! k)" "weightShard (op_artifacts ?op ! k) = Some n"
    "\<forall>b \<in> set (op_artifacts ?op). \<forall>m. weightShard b = Some m \<longrightarrow> n \<le> m" by (auto simp: numeral_2_eq_2)
  with w have "n \<le> 1" by simp
  with k(1,3) w have "k = 1" by (cases k) auto
  with k(2) show ?thesis by simp
qed

end
