(* ===== verification/Op_Plan.thy ===== *)
theory Op_Plan
  imports Op_Run Op_Discover
begin

text \<open>
  Accepting an install plan (\<open>internal/server/apimodeloperations.go\<close>): its validation, the operation
  it becomes, the create handler, the snapshots the API serves and the event stream, and the
  storage reclaim that follows an operation.

  The request body arrives decoded. Discovery, \<open>statfs\<close> and the fresh id are parameters.
\<close>

section \<open>Plans and their validation\<close>

record install_plan =
  ip_sourceRepository :: string
  ip_sourceRevision :: string
  ip_artifacts :: "artifact list option"
  ip_autoDiscover :: "bool option"
  ip_weightFilter :: "string option"
  ip_token :: "string option"
  ip_registration :: registration

datatype plan_reason =
    NeedsRepository | NeedsRevision | NeedsArtifact | NeedsPath | NeedsSize | NeedsDigestForm string
  | SourceRefused source_error | NeedsWeights | DiskRefused disk_error | IncompleteShards "nat \<times> nat" | NeedsModelId

definition defaultDiskSafetyReserveBytes :: i64 where
  "defaultDiskSafetyReserveBytes = word_of_int (5 * 2 ^ 30)"

definition derefBool :: "bool option \<Rightarrow> bool" where
  "derefBool b = (case b of None \<Rightarrow> False | Some v \<Rightarrow> v)"

definition derefString :: "string option \<Rightarrow> string" where
  "derefString s = (case s of None \<Rightarrow> [] | Some v \<Rightarrow> v)"

definition derefArtifacts :: "artifact list option \<Rightarrow> artifact list" where
  "derefArtifacts as = (case as of None \<Rightarrow> [] | Some v \<Rightarrow> v)"

definition isLowerHexCh :: "char \<Rightarrow> bool" where
  "isLowerHexCh c = (isDigitCh c \<or> (CHR ''a'' \<le> c \<and> c \<le> CHR ''f''))"

definition digestOk :: "string \<Rightarrow> bool" where
  "digestOk d = (case cutPrefix d ''sha256:'' of
     None \<Rightarrow> False | Some h \<Rightarrow> length h = 64 \<and> list_all isLowerHexCh h)"

text \<open>The loop over the artifacts: the 64-bit total and whether a weights artifact was seen.\<close>

fun checkArtifacts :: "string \<Rightarrow> string \<Rightarrow> string \<Rightarrow> artifact list \<Rightarrow> i64 \<Rightarrow> bool \<Rightarrow> plan_reason + (i64 \<times> bool)" where
  "checkArtifacts dir repo revision [] sumBytes hasWeights = Inr (sumBytes, hasWeights)"
| "checkArtifacts dir repo revision (a # as) sumBytes hasWeights =
     (if art_path a = [] then Inl NeedsPath
      else if sint (art_sizeBytes a) \<le> 0 then Inl NeedsSize
      else if (case art_digest a of Some d \<Rightarrow> \<not> digestOk d | None \<Rightarrow> False) then Inl (NeedsDigestForm (art_path a))
      else case resolveArtifactURL repo revision (art_path a) of
             Inl e \<Rightarrow> Inl (SourceRefused e)
           | Inr _ \<Rightarrow>
               (case (if dir = [] then Inr [] else resolveArtifactDestination dir repo (art_path a)) of
                  Inl e \<Rightarrow> Inl (SourceRefused e)
                | Inr _ \<Rightarrow> checkArtifacts dir repo revision as (sumBytes + art_sizeBytes a)
                             (hasWeights \<or> art_role a = RoleWeights)))"

definition validateArtifacts :: "(string \<Rightarrow> string + disk_space) \<Rightarrow> string \<Rightarrow> install_plan \<Rightarrow> artifact list \<Rightarrow> plan_reason option" where
  "validateArtifacts statfs dir plan artifacts =
     (case checkArtifacts dir (ip_sourceRepository plan) (ip_sourceRevision plan) artifacts 0 False of
        Inl r \<Rightarrow> Some r
      | Inr (sumBytes, hasWeights) \<Rightarrow>
          if \<not> hasWeights then Some NeedsWeights
          else case (if dir = [] then None
                     else checkDiskPreflight statfs dir sumBytes defaultDiskSafetyReserveBytes) of
                 Some e \<Rightarrow> Some (DiskRefused e)
               | None \<Rightarrow> map_option IncompleteShards (validateWeightShardCompleteness artifacts))"

text \<open>\<open>None\<close>: the plan may proceed (the code's empty reason).\<close>

definition validateInstallPlan :: "(string \<Rightarrow> string + disk_space) \<Rightarrow> string \<Rightarrow> install_plan \<Rightarrow> plan_reason option" where
  "validateInstallPlan statfs dir plan =
     (if ip_sourceRepository plan = [] then Some NeedsRepository
      else if ip_sourceRevision plan = [] then Some NeedsRevision
      else let artifacts = derefArtifacts (ip_artifacts plan) in
        if artifacts = [] \<and> \<not> derefBool (ip_autoDiscover plan) then Some NeedsArtifact
        else case (if artifacts = [] then None else validateArtifacts statfs dir plan artifacts) of
               Some r \<Rightarrow> Some r
             | None \<Rightarrow> if reg_modelID (ip_registration plan) = [] then Some NeedsModelId else None)"

definition toOperationPlan :: "install_plan \<Rightarrow> op_plan" where
  "toOperationPlan plan =
     \<lparr>pl_sourceRepository = ip_sourceRepository plan, pl_sourceRevision = ip_sourceRevision plan,
      pl_artifacts = derefArtifacts (ip_artifacts plan), pl_registration = ip_registration plan\<rparr>"

section \<open>The create handler\<close>

text \<open>
  What the handler did: the status, the new store, and the operation handed to the executor.
  \<open>decoded\<close> is \<open>None\<close> when the body was not valid JSON.
\<close>

definition handleCreate :: "bool \<Rightarrow> (string \<Rightarrow> string \<Rightarrow> string \<Rightarrow> discover_error + artifact list) \<Rightarrow> (string \<Rightarrow> string + disk_space)
    \<Rightarrow> string \<Rightarrow> bool \<Rightarrow> string \<Rightarrow> int \<Rightarrow> install_plan option \<Rightarrow> op_store \<Rightarrow> nat \<times> op_store \<times> operation option" where
  "handleCreate available discover statfs dir wok uuid now decoded s =
     (if \<not> available then (503, s, None)
      else case decoded of
        None \<Rightarrow> (400, s, None)
      | Some plan \<Rightarrow>
          (case (if derefArtifacts (ip_artifacts plan) = [] \<and> derefBool (ip_autoDiscover plan)
                 then (case discover (ip_sourceRepository plan) (ip_sourceRevision plan) (derefString (ip_weightFilter plan)) of
                         Inl _ \<Rightarrow> None
                       | Inr ds \<Rightarrow> if ds = [] then None else Some (plan\<lparr>ip_artifacts := Some ds\<rparr>))
                 else Some plan) of
             None \<Rightarrow> (400, s, None)
           | Some plan \<Rightarrow>
               (case validateInstallPlan statfs dir plan of
                  Some _ \<Rightarrow> (400, s, None)
                | None \<Rightarrow>
                    let op = newFromPlan uuid (toOperationPlan (plan\<lparr>ip_token := None\<rparr>)) now in
                    (case saveOp wok op s of
                       (Some _, s') \<Rightarrow> (500, s', None)
                     | (None, s') \<Rightarrow> (201, s', Some op)))))"

section \<open>Snapshots and the event stream\<close>

record api_operation =
  ao_id :: string
  ao_phase :: phase
  ao_artifacts :: "(string \<times> i64 \<times> i64 option) list"
  ao_bytesDownloaded :: i64
  ao_bytesTotal :: "i64 option"
  ao_createdAt :: int
  ao_updatedAt :: int
  ao_modelId :: "string option"
  ao_error :: "op_error option"
  ao_warnings :: "string list option"

definition toAPIModelOperation :: "operation \<Rightarrow> api_operation" where
  "toAPIModelOperation op =
     \<lparr>ao_id = op_id op, ao_phase = op_phase op,
      ao_artifacts = map (\<lambda>a. (ap_path a, ap_bytesDownloaded a, ap_bytesTotal a)) (op_artifacts op),
      ao_bytesDownloaded = bytesDownloaded op, ao_bytesTotal = bytesTotal op,
      ao_createdAt = op_createdAt op, ao_updatedAt = op_updatedAt op,
      ao_modelId = (if op_modelID op \<noteq> [] \<and> op_phase op = PhaseSucceeded then Some (op_modelID op) else None),
      ao_error = op_error op,
      ao_warnings = (if op_warnings op \<noteq> [] then Some (op_warnings op) else None)\<rparr>"

text \<open>What each tick of the poll finds: the client gone, or the result of the load.\<close>

datatype stream_tick = ClientGone | Polled "store_error + operation"

fun streamLoop :: "int \<Rightarrow> stream_tick list \<Rightarrow> api_operation list" where
  "streamLoop lastUpdatedAt [] = []"
| "streamLoop lastUpdatedAt (ClientGone # ts) = []"
| "streamLoop lastUpdatedAt (Polled (Inl _) # ts) = []"
| "streamLoop lastUpdatedAt (Polled (Inr current) # ts) =
     (if op_updatedAt current = lastUpdatedAt then streamLoop lastUpdatedAt ts
      else toAPIModelOperation current #
           (if terminal (op_phase current) then [] else streamLoop (op_updatedAt current) ts))"

definition handleStream :: "operation \<Rightarrow> stream_tick list \<Rightarrow> api_operation list" where
  "handleStream op ts =
     toAPIModelOperation op # (if terminal (op_phase op) then [] else streamLoop (op_updatedAt op) ts)"

section \<open>Reclaiming storage\<close>

text \<open>Cleanup first: pruning removes the records that say which partials to delete. Errors are logged.\<close>

definition reclaimOperationStorage :: "(string \<Rightarrow> bool) \<Rightarrow> (string \<Rightarrow> bool) \<Rightarrow> string \<Rightarrow> op_store \<Rightarrow> (string \<rightharpoonup> 'c)
    \<Rightarrow> op_store \<times> (string \<rightharpoonup> 'c)" where
  "reclaimOperationStorage rmok pruneok dir s fs =
     (case cleanupAbandonedPartials rmok dir s fs of (_, _, fs') \<Rightarrow>
        (case prune pruneok s of (_, s') \<Rightarrow> (s', fs')))"

section \<open>What acceptance means\<close>

definition artifactOk :: "string \<Rightarrow> string \<Rightarrow> string \<Rightarrow> artifact \<Rightarrow> bool" where
  "artifactOk dir repo revision a \<longleftrightarrow>
     art_path a \<noteq> [] \<and> 0 < sint (art_sizeBytes a) \<and> (\<forall>d. art_digest a = Some d \<longrightarrow> digestOk d)
     \<and> (\<exists>u. resolveArtifactURL repo revision (art_path a) = Inr u)
     \<and> (dir = [] \<or> (\<exists>d. resolveArtifactDestination dir repo (art_path a) = Inr d))"

lemma checkArtifacts_Inr_iff:
  "checkArtifacts dir repo revision as t h = Inr (t', h') \<longleftrightarrow>
     list_all (artifactOk dir repo revision) as
     \<and> t' = foldl (+) t (map art_sizeBytes as) \<and> h' = (h \<or> (\<exists>a \<in> set as. art_role a = RoleWeights))"
proof (induction as arbitrary: t h)
  case (Cons a as)
  show ?case
  proof (cases "artifactOk dir repo revision a")
    case True
    then have "checkArtifacts dir repo revision (a # as) t h
        = checkArtifacts dir repo revision as (t + art_sizeBytes a) (h \<or> art_role a = RoleWeights)"
      by (auto simp: artifactOk_def split: option.splits sum.splits)
    with True show ?thesis by (auto simp: Cons.IH)
  next
    case False
    then have "\<exists>r. checkArtifacts dir repo revision (a # as) t h = Inl r"
      by (cases "resolveArtifactURL repo revision (art_path a)"; cases "resolveArtifactDestination dir repo (art_path a)"; cases "art_digest a")
        (auto simp: artifactOk_def)
    with False show ?thesis by (auto simp del: checkArtifacts.simps)
  qed
qed auto

text \<open>The 64-bit sum is the real one as long as that fits.\<close>

lemma sint_foldl_plus:
  fixes t :: i64
  assumes "\<forall>x \<in> set xs. 0 \<le> sint x" "0 \<le> sint t" "sint t + sum_list (map sint xs) < 2 ^ 63"
  shows "sint (foldl (+) t xs) = sint t + sum_list (map sint xs)"
  using assms
proof (induction xs arbitrary: t)
  case (Cons x xs)
  have nonneg: "0 \<le> sum_list (map sint xs)" using Cons.prems(1) by (intro sum_list_nonneg) auto
  with Cons.prems have "sint t + sint x < 2 ^ 63" "0 \<le> sint t + sint x" by simp_all
  then have "sint (t + x) = sint t + sint x"
    by (simp add: sint_word_add signed_take_bit_int_eq_self)
  with Cons show ?case by simp
qed simp

definition declaredBytes :: "artifact list \<Rightarrow> int" where
  "declaredBytes as = sum_list (map (\<lambda>a. sint (art_sizeBytes a)) as)"

lemma reserve_value: "sint defaultDiskSafetyReserveBytes = 5 * 2 ^ 30"
  by (simp add: defaultDiskSafetyReserveBytes_def)

lemma preflight_None_iff:
  "checkDiskPreflight statfs dir need reserve = None \<longleftrightarrow>
     (\<exists>space. statfs dir = Inr space \<and> max 0 (sint need) + max 0 (sint reserve) \<le> uint (availableBytes space))"
  by (auto simp: checkDiskPreflight_def preflight_exact split: sum.splits)

lemma validateInstallPlan_None_iff:
  assumes "derefArtifacts (ip_artifacts plan) = as" "as \<noteq> []"
  shows "validateInstallPlan statfs dir plan = None \<longleftrightarrow>
     ip_sourceRepository plan \<noteq> [] \<and> ip_sourceRevision plan \<noteq> []
     \<and> list_all (artifactOk dir (ip_sourceRepository plan) (ip_sourceRevision plan)) as
     \<and> (\<exists>a \<in> set as. art_role a = RoleWeights)
     \<and> (dir = [] \<or> checkDiskPreflight statfs dir (foldl (+) 0 (map art_sizeBytes as)) defaultDiskSafetyReserveBytes = None)
     \<and> validateWeightShardCompleteness as = None \<and> reg_modelID (ip_registration plan) \<noteq> []"
proof -
  let ?c = "checkArtifacts dir (ip_sourceRepository plan) (ip_sourceRevision plan) as 0 False"
  have V: "validateArtifacts statfs dir plan as = None \<longleftrightarrow>
     list_all (artifactOk dir (ip_sourceRepository plan) (ip_sourceRevision plan)) as
     \<and> (\<exists>a \<in> set as. art_role a = RoleWeights)
     \<and> (dir = [] \<or> checkDiskPreflight statfs dir (foldl (+) 0 (map art_sizeBytes as)) defaultDiskSafetyReserveBytes = None)
     \<and> validateWeightShardCompleteness as = None"
  proof (cases ?c)
    case (Inl r)
    then have "\<not> list_all (artifactOk dir (ip_sourceRepository plan) (ip_sourceRevision plan)) as"
      using checkArtifacts_Inr_iff [THEN iffD2, OF conjI [OF _ conjI [OF refl refl]],
          of dir "ip_sourceRepository plan" "ip_sourceRevision plan" as 0 False] by auto
    with Inl show ?thesis by (simp add: validateArtifacts_def)
  next
    case (Inr th)
    obtain t h where th: "th = (t, h)" by (cases th)
    note C = Inr [unfolded th checkArtifacts_Inr_iff]
    show ?thesis unfolding validateArtifacts_def Inr th using C by (auto split: option.split)
  qed
  have "validateInstallPlan statfs dir plan = None \<longleftrightarrow> ip_sourceRepository plan \<noteq> [] \<and> ip_sourceRevision plan \<noteq> []
     \<and> validateArtifacts statfs dir plan as = None \<and> reg_modelID (ip_registration plan) \<noteq> []"
    using assms by (cases "validateArtifacts statfs dir plan as") (simp_all add: validateInstallPlan_def Let_def)
  then show ?thesis unfolding V conj_assoc .
qed


definition demoPlan :: "i64 \<Rightarrow> string list \<Rightarrow> install_plan" where
  "demoPlan n paths = \<lparr>ip_sourceRepository = ''o/r'', ip_sourceRevision = ''abc1234'',
     ip_artifacts = Some (map (\<lambda>p. \<lparr>art_path = p, art_sizeBytes = n, art_digest = None, art_role = RoleWeights\<rparr>) paths),
     ip_autoDiscover = None, ip_weightFilter = None, ip_token = Some ''secret'',
     ip_registration = zeroRegistration\<lparr>reg_modelID := ''m''\<rparr>\<rparr>"

lemma demo_valid:
  "validateInstallPlan (\<lambda>_. Inr \<lparr>availableBytes = word_of_int (5 * 2 ^ 30 + 9), totalBytes = 0\<rparr>) ''/m'' (demoPlan 9 [''w.gguf'']) = None"
  by (simp add: validateInstallPlan_def demoPlan_def derefArtifacts_def validateArtifacts_def demo_url demo_dest
      checkDiskPreflight_def evaluateDiskPreflight_def defaultDiskSafetyReserveBytes_def Let_def shard_eval zeroRegistration_def)


text \<open>
  The sum of the declared sizes is a 64-bit one. Two artifacts of \<open>2 ^ 62\<close> bytes sum to a
  negative number, which the disk preflight counts as zero: the plan is accepted on a disk that
  has just the reserve free.
\<close>

theorem plan_total_wraps:
  "validateInstallPlan (\<lambda>_. Inr \<lparr>availableBytes = word_of_int (5 * 2 ^ 30), totalBytes = 0\<rparr>) ''/m''
     (demoPlan (word_of_int (2 ^ 62)) [''w.gguf'', ''w.gguf.part'']) = None
   \<and> declaredBytes (derefArtifacts (ip_artifacts (demoPlan (word_of_int (2 ^ 62)) [''w.gguf'', ''w.gguf.part'']))) = 2 ^ 63"
  by (simp add: validateInstallPlan_def demoPlan_def derefArtifacts_def validateArtifacts_def demo_url demo_dest
      checkDiskPreflight_def evaluateDiskPreflight_def defaultDiskSafetyReserveBytes_def Let_def shard_eval zeroRegistration_def
      declaredBytes_def)

section \<open>From an accepted plan to its operation\<close>

text \<open>
  The executor of an accepted plan resolves every artifact again with success: with the
  same models directory, a run never fails for an untrusted source.
\<close>

theorem accepted_plan_resolves:
  assumes "validateInstallPlan statfs (ex_modelsDir e) plan = None" and "ex_modelsDir e \<noteq> []"
    and "derefArtifacts (ip_artifacts plan) \<noteq> []"
  shows "\<exists>rs. resolveArtifacts e (newFromPlan uuid (toOperationPlan plan) now) = Inr rs
     \<and> length rs = length (derefArtifacts (ip_artifacts plan))"
proof -
  let ?as = "derefArtifacts (ip_artifacts plan)" and ?op = "newFromPlan uuid (toOperationPlan plan) now"
  have ok: "list_all (artifactOk (ex_modelsDir e) (ip_sourceRepository plan) (ip_sourceRevision plan)) ?as"
    using assms(1) unfolding validateInstallPlan_None_iff [OF refl assms(3)] by blast
  have op: "op_sourceRepository ?op = ip_sourceRepository plan" "op_sourceRevision ?op = ip_sourceRevision plan"
    "map ap_path (op_artifacts ?op) = map art_path ?as"
    by (simp_all add: newFromPlan_def newOp_def toOperationPlan_def Let_def comp_def)
  have "\<exists>rs. resolveAll (ex_modelsDir e) ?op xs = Inr rs \<and> length rs = length xs"
    if "set (map ap_path xs) \<subseteq> set (map art_path ?as)" for xs
    using that
  proof (induction xs)
    case (Cons x xs)
    then obtain a where "a \<in> set ?as" "ap_path x = art_path a" by auto
    with ok assms(2) obtain u d where "resolveArtifactURL (ip_sourceRepository plan) (ip_sourceRevision plan) (ap_path x) = Inr u"
      "resolveArtifactDestination (ex_modelsDir e) (ip_sourceRepository plan) (ap_path x) = Inr d"
      by (auto simp: list_all_iff artifactOk_def)
    with Cons show ?case by (auto simp: op)
  qed simp
  from this [of "op_artifacts ?op"] op(3) assms(2) show ?thesis
    unfolding resolveArtifacts_def by (metis length_map order_refl)
qed

theorem accepted_plan_resolves_witness:
  "\<exists>r. resolveArtifacts (demoExec demoBody) (newFromPlan ''u'' (toOperationPlan (demoPlan 9 [''w.gguf''])) 0) = Inr [r]"
proof -
  have dir: "ex_modelsDir (demoExec demoBody) = ''/m''" by (simp add: demoExec_def)
  have ne: "derefArtifacts (ip_artifacts (demoPlan 9 [''w.gguf''])) \<noteq> []" "length (derefArtifacts (ip_artifacts (demoPlan 9 [''w.gguf'']))) = 1"
    by (simp_all add: demoPlan_def derefArtifacts_def)
  from accepted_plan_resolves [OF demo_valid [folded dir] _ ne(1), of "''u''" 0] ne(2) dir show ?thesis
    by (auto simp: length_Suc_conv)
qed

text \<open>
  The create handler answers 201 exactly when it starts an operation; that operation is
  a fresh queued one of a valid plan, it is stored, and no other record changes. Otherwise the
  store is as it was. The token of the plan plays no part.
\<close>

theorem create_handler_outcomes:
  "case handleCreate available discover statfs dir wok uuid now decoded s of
      (st, s', None) \<Rightarrow> st \<in> {400, 500, 503} \<and> s' = s
    | (st, s', Some op) \<Rightarrow> st = 201 \<and> (\<exists>plan. validateInstallPlan statfs dir plan = None \<and> ip_token plan = None
          \<and> op = newFromPlan uuid (toOperationPlan plan) now)
        \<and> op_phase op = PhaseQueued
        \<and> (\<forall>k. lookup s' k = (if k = op_id op then Some op else lookup s k))"
proof -
  have saved: "lookup s1 k = (if k = op_id op then Some op else lookup s k)" if "saveOp wok op s = (None, s1)" for op s1 k
  proof -
    from that have "s1 = put wok op s" "wok"
      by (auto simp: put_def saveOp_def atomicWrite_def split: sum.splits if_splits)
    moreover from that have "\<not> (\<exists>e. lookup s (op_id op) = Some e \<and> terminal (op_phase e) \<and> op_phase e \<noteq> op_phase op)"
      by (auto simp: saveOp_def lookup_def split: sum.splits if_splits)
    ultimately show ?thesis by (auto simp: lookup_put)
  qed
  have refused: "s1 = s" if "saveOp wok op s = (Some x, s1)" for op s1 x
    using that by (auto simp: saveOp_def atomicWrite_def split: sum.splits if_splits)
  have va: "validateArtifacts statfs dir (p\<lparr>ip_token := None\<rparr>) = validateArtifacts statfs dir p" for p
    by (rule ext) (simp add: validateArtifacts_def)
  have tok: "toOperationPlan (p\<lparr>ip_token := None\<rparr>) = toOperationPlan p"
    "validateInstallPlan statfs dir (p\<lparr>ip_token := None\<rparr>) = validateInstallPlan statfs dir p" for p
    by (cases "derefArtifacts (ip_artifacts p) = []"; simp add: toOperationPlan_def validateInstallPlan_def va Let_def)+
  have phase: "op_phase (newFromPlan uuid p now) = PhaseQueued" for p
    by (simp add: newFromPlan_def newOp_def Let_def)
  obtain st s' started where h: "handleCreate available discover statfs dir wok uuid now decoded s = (st, s', started)"
    by (cases "handleCreate available discover statfs dir wok uuid now decoded s")
  show ?thesis
  proof (cases started)
    case None
    with h refused show ?thesis
      by (auto simp: handleCreate_def Let_def split: if_splits option.splits prod.splits sum.splits)
  next
    case (Some op)
    with h obtain p where p: "validateInstallPlan statfs dir p = None" "st = 201"
      "op = newFromPlan uuid (toOperationPlan (p\<lparr>ip_token := None\<rparr>)) now" "saveOp wok op s = (None, s')"
      by (auto simp: handleCreate_def Let_def split: if_splits option.splits prod.splits sum.splits)
    then have "validateInstallPlan statfs dir (p\<lparr>ip_token := None\<rparr>) = None" by (simp add: tok)
    with p saved [OF p(4)] phase Some h show ?thesis by auto
  qed
qed

section \<open>The event stream\<close>

lemma streamLoop_cases:
  assumes "streamLoop t ts = xs @ x # ys"
  shows "ys \<noteq> [] \<Longrightarrow> \<not> terminal (ao_phase x)"
    "ao_updatedAt x \<noteq> (if xs = [] then t else ao_updatedAt (last xs))"
  using assms
proof (induction t ts arbitrary: xs rule: streamLoop.induct)
  case (4 t op ts)
  { case 1 with 4 show ?case
      by (cases xs) (auto simp: toAPIModelOperation_def split: if_splits)
  next
    case 2
    show ?case
    proof (cases "op_updatedAt op = t")
      case True
      with 4(2) 2 show ?thesis by simp
    next
      case False
      show ?thesis
      proof (cases xs)
        case Nil
        with 2 False show ?thesis by (auto simp: toAPIModelOperation_def)
      next
        case (Cons z zs)
        with 2 False have "\<not> terminal (op_phase op)" "streamLoop (op_updatedAt op) ts = zs @ x # ys" "z = toAPIModelOperation op"
          by (auto split: if_splits)
        with 4(4) [OF False] Cons show ?thesis by (auto simp: toAPIModelOperation_def split: if_splits)
      qed
    qed }
qed simp_all

text \<open>
  The event stream starts with the snapshot the handler loaded, a terminal snapshot is
  its last event, and two consecutive events never carry the same update time.
\<close>

theorem event_stream_shape:
  assumes "handleStream op ts = xs @ x # ys"
  shows "(xs = [] \<longrightarrow> x = toAPIModelOperation op) \<and> (terminal (ao_phase x) \<longrightarrow> ys = [])
    \<and> (xs \<noteq> [] \<longrightarrow> ao_updatedAt x \<noteq> ao_updatedAt (last xs))"
proof (cases xs)
  case Nil
  with assms show ?thesis by (auto simp: handleStream_def toAPIModelOperation_def split: if_splits)
next
  case (Cons z zs)
  with assms have s: "streamLoop (op_updatedAt op) ts = zs @ x # ys" and z: "z = toAPIModelOperation op"
    by (auto simp: handleStream_def split: if_splits)
  from streamLoop_cases [OF s] z Cons show ?thesis by (auto simp: toAPIModelOperation_def split: if_splits)
qed

section \<open>Reclaiming storage\<close>

lemma cleanupArtifacts_all:
  "cleanupArtifacts (\<lambda>_. True) dir repo as (n, fs) = (b, n', fs') \<Longrightarrow>
     b \<and> (\<forall>a \<in> set as. \<forall>d. resolveArtifactDestination dir repo (ap_path a) = Inr d \<longrightarrow> fs' (d @ ''.part'') = None)
     \<and> (\<forall>p. fs p = None \<longrightarrow> fs' p = None)"
proof (induction as arbitrary: n fs)
  case (Cons a as)
  show ?case
  proof (cases "resolveArtifactDestination dir repo (ap_path a)")
    case (Inl x)
    with Cons.prems Cons.IH [of n fs] show ?thesis by auto
  next
    case (Inr d)
    define fs1 where "fs1 = fs(d @ ''.part'' := None)"
    have "fs1 = fs" if "fs (d @ ''.part'') = None" using that by (auto simp: fs1_def)
    with Inr Cons.prems obtain m where "cleanupArtifacts (\<lambda>_. True) dir repo as (m, fs1) = (b, n', fs')"
      by (auto simp: Let_def fs1_def split: option.splits)
    from Cons.IH [OF this] Inr show ?thesis by (auto simp: fs1_def)
  qed
qed simp

lemma cleanupLoop_all:
  "cleanupLoop (\<lambda>_. True) dir ops (n, fs) = (e, n', fs') \<Longrightarrow>
     e = None \<and> (\<forall>op \<in> set ops. op_phase op = PhaseCancelled \<longrightarrow> (\<forall>a \<in> set (op_artifacts op). \<forall>d.
        resolveArtifactDestination dir (op_sourceRepository op) (ap_path a) = Inr d \<longrightarrow> fs' (d @ ''.part'') = None))
     \<and> (\<forall>p. fs p = None \<longrightarrow> fs' p = None)"
proof (induction ops arbitrary: n fs)
  case (Cons op ops)
  show ?case
  proof (cases "op_phase op = PhaseCancelled")
    case False
    with Cons.prems Cons.IH [of n fs] show ?thesis by auto
  next
    case True
    obtain b n1 fs1 where r: "cleanupArtifacts (\<lambda>_. True) dir (op_sourceRepository op) (op_artifacts op) (n, fs) = (b, n1, fs1)"
      by (cases "cleanupArtifacts (\<lambda>_. True) dir (op_sourceRepository op) (op_artifacts op) (n, fs)")
    note A = cleanupArtifacts_all [OF r]
    with True Cons.prems r have "cleanupLoop (\<lambda>_. True) dir ops (n1, fs1) = (e, n', fs')" by simp
    from Cons.IH [OF this] A show ?thesis by auto
  qed
qed simp

text \<open>
  Reclaiming storage, when directory reads and removals work, leaves no partial file of
  any operation that was stored as cancelled, not even of those whose records it prunes, and keeps
  every live record.
\<close>

theorem reclaim_leaves_no_partial:
  assumes "store_inv s" and "dirReadable s"
    and "reclaimOperationStorage (\<lambda>_. True) (\<lambda>_. True) dir s fs = (s', fs')"
  shows "(\<forall>k op a d. lookup s k = Some op \<longrightarrow> op_phase op = PhaseCancelled \<longrightarrow> a \<in> set (op_artifacts op)
       \<longrightarrow> resolveArtifactDestination dir (op_sourceRepository op) (ap_path a) = Inr d \<longrightarrow> fs' (d @ ''.part'') = None)
    \<and> (\<forall>k op. lookup s k = Some op \<longrightarrow> \<not> terminal (op_phase op) \<longrightarrow> lookup s' k = Some op)"
proof -
  obtain ops where ops: "listOps s = Inr ops" using assms(2) by (simp add: listOps_def)
  note L = listOps_Inr [OF ops]
  obtain e n where c: "cleanupLoop (\<lambda>_. True) dir ops (0, fs) = (e, n, fs')"
    using assms(3) ops by (auto simp: reclaimOperationStorage_def cleanupAbandonedPartials_def split: prod.splits)
  have mem: "op \<in> set ops" if "lookup s k = Some op" for k op
    using L in_loadable [OF assms(1)] that assms(1) by (auto simp: store_inv_def)
  from assms(3) obtain pe where "prune (\<lambda>_. True) s = (pe, s')"
    by (auto simp: reclaimOperationStorage_def split: prod.splits)
  then have "\<forall>k op. lookup s k = Some op \<longrightarrow> \<not> terminal (op_phase op) \<longrightarrow> lookup s' k = Some op"
    using prune_spec [OF assms(1) ops] by auto
  with cleanupLoop_all [OF c] mem show ?thesis by blast
qed

theorem event_stream_shape_witness:
  "ao_updatedAt (toAPIModelOperation (demoOp ''a'' PhaseFailed 5)) \<noteq> ao_updatedAt (toAPIModelOperation (demoOp ''a'' PhaseQueued 1))"
proof -
  let ?q = "demoOp ''a'' PhaseQueued 1" and ?f = "demoOp ''a'' PhaseFailed 5"
  have "handleStream ?q [Polled (Inr ?q), Polled (Inr ?f), Polled (Inr ?q)] = [toAPIModelOperation ?q] @ toAPIModelOperation ?f # []"
    by (simp add: handleStream_def demoOp_def newOp_def)
  from event_stream_shape [OF this] show ?thesis by simp
qed

theorem reclaim_leaves_no_partial_witness:
  "\<exists>s' fs'. reclaimOperationStorage (\<lambda>_. True) (\<lambda>_. True) ''/m'' (storeOf [demoOp ''old'' PhaseCancelled 1, demoOp ''new'' PhaseQueued 2])
       [''/m/o/r/w.gguf.part'' \<mapsto> ''bytes''] = (s', fs')
     \<and> fs' ''/m/o/r/w.gguf.part'' = None \<and> lookup s' ''new'' = Some (demoOp ''new'' PhaseQueued 2)"
proof -
  let ?s = "storeOf [demoOp ''old'' PhaseCancelled 1, demoOp ''new'' PhaseQueued 2]"
  let ?fs = "[''/m/o/r/w.gguf.part'' \<mapsto> ''bytes'']"
  have inv: "store_inv ?s" "dirReadable ?s" by (rule store_inv_storeOf, simp) simp
  obtain s' fs' where r: "reclaimOperationStorage (\<lambda>_. True) (\<lambda>_. True) ''/m'' ?s ?fs = (s', fs')"
    by (cases "reclaimOperationStorage (\<lambda>_. True) (\<lambda>_. True) ''/m'' ?s ?fs")
  note R = reclaim_leaves_no_partial [OF inv r]
  have "lookup ?s ''old'' = Some (demoOp ''old'' PhaseCancelled 1)" "lookup ?s ''new'' = Some (demoOp ''new'' PhaseQueued 2)"
    by (simp_all add: lookup_storeOf)
  moreover have "demoArtifact \<in> set (op_artifacts (demoOp ''old'' PhaseCancelled 1))" by simp
  moreover have "resolveArtifactDestination ''/m'' (op_sourceRepository (demoOp ''old'' PhaseCancelled 1)) (ap_path demoArtifact) = Inr ''/m/o/r/w.gguf''"
    using demo_dest by (simp add: demoArtifact_def)
  ultimately have "fs' (''/m/o/r/w.gguf'' @ ''.part'') = None" "lookup s' ''new'' = Some (demoOp ''new'' PhaseQueued 2)"
    using R by (meson demoOp_sel(2), force)
  with r show ?thesis by auto
qed

end
