(* ===== verification/Matrix_DSL.thy ===== *)
theory Matrix_DSL
  imports Skein_Prelude
begin

text \<open>
  The set expressions of the swap matrix (\<open>internal/config/matrix_dsl.go\<close>): the tokenizer, the
  recursive-descent parser, the expansion into combinations, and the scan for references.

  Runes are the characters \<open>U+0000\<close> to \<open>U+00FF\<close>, with Go's classification of letters and spaces in
  that range. The parser's position is the list of tokens that are left. Its mutual recursion runs
  on fuel; \<open>parse\<close> provides five units per token, and \<open>parse_no_fuel_error\<close> shows that this is
  always enough.
\<close>

section \<open>Tokens\<close>

datatype token = TokIdent string | TokAnd | TokOr | TokLParen | TokRParen | TokRef string | TokEOF

datatype dsl_error =
    ExpectedSetName nat | UnexpectedChar char nat | UnexpectedToken token | MissingParen | TrailingToken token
  | UnknownSetRef string | TooManyCombinations | EmptyDSL | OutOfFuel

definition maxDSLExpansions :: nat where
  "maxDSLExpansions = 1000"

definition isSpaceCh :: "char \<Rightarrow> bool" where
  "isSpaceCh c = (let n = of_char c :: nat in (9 \<le> n \<and> n \<le> 13) \<or> n = 32 \<or> n = 133 \<or> n = 160)"

definition isLetterCh :: "char \<Rightarrow> bool" where
  "isLetterCh c = (isUpperCh c \<or> isLowerCh c \<or> (let n = of_char c :: nat in
     n = 170 \<or> n = 181 \<or> n = 186 \<or> (192 \<le> n \<and> n \<noteq> 215 \<and> n \<noteq> 247)))"

definition isIdentChar :: "char \<Rightarrow> bool" where
  "isIdentChar c = (isLetterCh c \<or> isDigitCh c \<or> c = CHR ''_'' \<or> c = CHR ''-'' \<or> c = CHR ''.'')"

function tokenizeFrom :: "nat \<Rightarrow> string \<Rightarrow> dsl_error + token list" where
  "tokenizeFrom i [] = Inr [TokEOF]"
| "tokenizeFrom i (c # cs) =
     (if isSpaceCh c then tokenizeFrom (i + 1) cs
      else let emit = (\<lambda>t rest. case rest of Inl e \<Rightarrow> Inl e | Inr ts \<Rightarrow> Inr (t # ts)) in
        if c = CHR ''&'' then emit TokAnd (tokenizeFrom (i + 1) cs)
        else if c = CHR ''|'' then emit TokOr (tokenizeFrom (i + 1) cs)
        else if c = CHR ''('' then emit TokLParen (tokenizeFrom (i + 1) cs)
        else if c = CHR '')'' then emit TokRParen (tokenizeFrom (i + 1) cs)
        else if c = CHR ''+'' then
          (let name = takeWhile isIdentChar cs in
           if name = [] then Inl (ExpectedSetName (i + 1))
           else emit (TokRef name) (tokenizeFrom (i + 1 + length name) (dropWhile isIdentChar cs)))
        else if isIdentChar c then
          (let name = takeWhile isIdentChar cs in
           emit (TokIdent (c # name)) (tokenizeFrom (i + 1 + length name) (dropWhile isIdentChar cs)))
        else Inl (UnexpectedChar c i))"
  by pat_completeness auto
termination
  by (relation "measure (\<lambda>(i, cs). length cs)") (auto simp: length_dropWhile_le less_Suc_eq_le)

definition tokenize :: "string \<Rightarrow> dsl_error + token list" where
  "tokenize input = tokenizeFrom 0 input"

section \<open>The parser\<close>

datatype dsl_node = AndNode "dsl_node list" | OrNode "dsl_node list" | LeafNode string | RefNode string

definition peek :: "token list \<Rightarrow> token" where
  "peek ts = (case ts of [] \<Rightarrow> TokEOF | t # _ \<Rightarrow> t)"

definition nextTok :: "token list \<Rightarrow> token list" where
  "nextTok ts = (if peek ts = TokEOF then ts else tl ts)"

text \<open>One unit of fuel per call. \<open>orLoop\<close> and \<open>andLoop\<close> are the loops over the operators.\<close>

fun parseOrExpr :: "nat \<Rightarrow> token list \<Rightarrow> dsl_error + dsl_node \<times> token list"
  and orLoop :: "nat \<Rightarrow> dsl_node list \<Rightarrow> token list \<Rightarrow> dsl_error + dsl_node \<times> token list"
  and parseAndExpr :: "nat \<Rightarrow> token list \<Rightarrow> dsl_error + dsl_node \<times> token list"
  and andLoop :: "nat \<Rightarrow> dsl_node list \<Rightarrow> token list \<Rightarrow> dsl_error + dsl_node \<times> token list"
  and parseAtom :: "nat \<Rightarrow> token list \<Rightarrow> dsl_error + dsl_node \<times> token list" where
  "parseOrExpr 0 ts = Inl OutOfFuel"
| "parseOrExpr (Suc n) ts =
     (case parseAndExpr n ts of
        Inl e \<Rightarrow> Inl e
      | Inr (left, ts1) \<Rightarrow> if peek ts1 = TokOr then orLoop n [left] ts1 else Inr (left, ts1))"
| "orLoop 0 children ts = Inl OutOfFuel"
| "orLoop (Suc n) children ts =
     (if peek ts = TokOr
      then (case parseAndExpr n (nextTok ts) of
              Inl e \<Rightarrow> Inl e
            | Inr (right, ts1) \<Rightarrow> orLoop n (children @ [right]) ts1)
      else Inr (OrNode children, ts))"
| "parseAndExpr 0 ts = Inl OutOfFuel"
| "parseAndExpr (Suc n) ts =
     (case parseAtom n ts of
        Inl e \<Rightarrow> Inl e
      | Inr (left, ts1) \<Rightarrow> if peek ts1 = TokAnd then andLoop n [left] ts1 else Inr (left, ts1))"
| "andLoop 0 children ts = Inl OutOfFuel"
| "andLoop (Suc n) children ts =
     (if peek ts = TokAnd
      then (case parseAtom n (nextTok ts) of
              Inl e \<Rightarrow> Inl e
            | Inr (right, ts1) \<Rightarrow> andLoop n (children @ [right]) ts1)
      else Inr (AndNode children, ts))"
| "parseAtom 0 ts = Inl OutOfFuel"
| "parseAtom (Suc n) ts =
     (case peek ts of
        TokIdent x \<Rightarrow> Inr (LeafNode x, nextTok ts)
      | TokRef x \<Rightarrow> Inr (RefNode x, nextTok ts)
      | TokLParen \<Rightarrow>
          (case parseOrExpr n (nextTok ts) of
             Inl e \<Rightarrow> Inl e
           | Inr (node, ts1) \<Rightarrow> if peek ts1 = TokRParen then Inr (node, nextTok ts1) else Inl MissingParen)
      | t \<Rightarrow> Inl (UnexpectedToken t))"

definition parse :: "token list \<Rightarrow> dsl_error + dsl_node" where
  "parse ts =
     (case parseOrExpr (5 * length ts + 4) ts of
        Inl e \<Rightarrow> Inl e
      | Inr (node, ts1) \<Rightarrow> if peek ts1 \<noteq> TokEOF then Inl (TrailingToken (peek ts1)) else Inr node)"

section \<open>Expansion\<close>

definition cartesianProduct :: "'a list list \<Rightarrow> 'a list list \<Rightarrow> nat \<Rightarrow> dsl_error + 'a list list" where
  "cartesianProduct left right cap =
     (if length left * length right > cap then Inl TooManyCombinations
      else Inr (concat (map (\<lambda>l. map (\<lambda>r. l @ r) right) left)))"

fun expand :: "(string \<rightharpoonup> string list list) \<Rightarrow> dsl_node \<Rightarrow> dsl_error + string list list"
  and expandOr :: "(string \<rightharpoonup> string list list) \<Rightarrow> dsl_node list \<Rightarrow> string list list \<Rightarrow> dsl_error + string list list"
  and expandAnd :: "(string \<rightharpoonup> string list list) \<Rightarrow> dsl_node list \<Rightarrow> string list list \<Rightarrow> dsl_error + string list list" where
  "expand refs (LeafNode name) = Inr [[name]]"
| "expand refs (RefNode name) = (case refs name of None \<Rightarrow> Inl (UnknownSetRef name) | Some e \<Rightarrow> Inr e)"
| "expand refs (OrNode children) = expandOr refs children []"
| "expand refs (AndNode children) = expandAnd refs children [[]]"
| "expandOr refs [] result = Inr result"
| "expandOr refs (c # cs) result =
     (case expand refs c of
        Inl e \<Rightarrow> Inl e
      | Inr r \<Rightarrow> if length (result @ r) > maxDSLExpansions then Inl TooManyCombinations
                 else expandOr refs cs (result @ r))"
| "expandAnd refs [] result = Inr result"
| "expandAnd refs (c # cs) result =
     (case expand refs c of
        Inl e \<Rightarrow> Inl e
      | Inr r \<Rightarrow>
          (case cartesianProduct result r maxDSLExpansions of
             Inl e \<Rightarrow> Inl e
           | Inr p \<Rightarrow> expandAnd refs cs p))"

fun dedup :: "'a list \<Rightarrow> 'a list \<Rightarrow> 'a list" where
  "dedup seen [] = []"
| "dedup seen (x # xs) = (if x \<in> set seen then dedup seen xs else x # dedup (x # seen) xs)"

definition dedupAndSort :: "string list \<Rightarrow> string list" where
  "dedupAndSort items = sort (dedup [] items)"

definition trimSpace :: "string \<Rightarrow> string" where
  "trimSpace s = rev (dropWhile isSpaceCh (rev (dropWhile isSpaceCh s)))"

definition parseAndExpandDSL :: "string \<Rightarrow> (string \<rightharpoonup> string list list) \<Rightarrow> dsl_error + string list list" where
  "parseAndExpandDSL dsl refs =
     (let dsl = trimSpace dsl in
      if dsl = [] then Inl EmptyDSL
      else case tokenize dsl of
             Inl e \<Rightarrow> Inl e
           | Inr ts \<Rightarrow>
               (case parse ts of
                  Inl e \<Rightarrow> Inl e
                | Inr tree \<Rightarrow>
                    (case expand refs tree of Inl e \<Rightarrow> Inl e | Inr r \<Rightarrow> Inr (map dedupAndSort r))))"

definition extractRefs :: "string \<Rightarrow> dsl_error + string list" where
  "extractRefs dsl =
     (case tokenize dsl of
        Inl e \<Rightarrow> Inl e
      | Inr ts \<Rightarrow> Inr (dedup [] (List.map_filter (\<lambda>t. case t of TokRef x \<Rightarrow> Some x | _ \<Rightarrow> None) ts)))"

section \<open>The parser always has enough fuel\<close>

lemma nextTok_length: "peek ts \<noteq> TokEOF \<Longrightarrow> length (nextTok ts) < length ts"
  by (cases ts) (auto simp: peek_def nextTok_def)

lemma parser_consumes:
  "parseOrExpr n ts = Inr (node, ts1) \<Longrightarrow> length ts1 < length ts"
  "orLoop n ch ts = Inr (node, ts1) \<Longrightarrow> length ts1 \<le> length ts"
  "parseAndExpr n ts = Inr (node, ts1) \<Longrightarrow> length ts1 < length ts"
  "andLoop n ch ts = Inr (node, ts1) \<Longrightarrow> length ts1 \<le> length ts"
  "parseAtom n ts = Inr (node, ts1) \<Longrightarrow> length ts1 < length ts"
proof (induction n ts and n ch ts and n ts and n ch ts and n ts arbitrary: node ts1 and node ts1 and node ts1 and node ts1 and node ts1
    rule: parseOrExpr_orLoop_parseAndExpr_andLoop_parseAtom.induct)
  case (2 n ts)
  from "2.prems" obtain l ts2 where l: "parseAndExpr n ts = Inr (l, ts2)"
    and r: "peek ts2 = TokOr \<and> orLoop n [l] ts2 = Inr (node, ts1) \<or> ts1 = ts2"
    by (auto split: sum.splits if_splits)
  from r "2.IH"(1) [OF l] "2.IH"(2) [OF l refl] show ?case by fastforce
next
  case (4 n children ts)
  show ?case
  proof (cases "peek ts = TokOr")
    case True
    with "4.prems" obtain l ts2 where l: "parseAndExpr n (nextTok ts) = Inr (l, ts2)" "orLoop n (children @ [l]) ts2 = Inr (node, ts1)"
      by (auto split: sum.splits)
    from "4.IH"(1) [OF True l(1)] "4.IH"(2) [OF True l(1) refl l(2)] nextTok_length [of ts] True show ?thesis by simp
  qed (use "4.prems" in simp)
next
  case (6 n ts)
  from "6.prems" obtain l ts2 where l: "parseAtom n ts = Inr (l, ts2)"
    and r: "peek ts2 = TokAnd \<and> andLoop n [l] ts2 = Inr (node, ts1) \<or> ts1 = ts2"
    by (auto split: sum.splits if_splits)
  from r "6.IH"(1) [OF l] "6.IH"(2) [OF l refl] show ?case by fastforce
next
  case (8 n children ts)
  show ?case
  proof (cases "peek ts = TokAnd")
    case True
    with "8.prems" obtain l ts2 where l: "parseAtom n (nextTok ts) = Inr (l, ts2)" "andLoop n (children @ [l]) ts2 = Inr (node, ts1)"
      by (auto split: sum.splits)
    from "8.IH"(1) [OF True l(1)] "8.IH"(2) [OF True l(1) refl l(2)] nextTok_length [of ts] True show ?thesis by simp
  qed (use "8.prems" in simp)
next
  case (10 n ts)
  show ?case
  proof (cases "peek ts")
    case TokLParen
    with 10(2) obtain ts2 where "parseOrExpr n (nextTok ts) = Inr (node, ts2)" "peek ts2 = TokRParen" "ts1 = nextTok ts2"
      by (auto split: sum.splits if_splits)
    with 10(1) TokLParen nextTok_length [of ts] nextTok_length [of ts2] show ?thesis by fastforce
  qed (use 10(2) nextTok_length [of ts] in auto)
qed simp_all

lemma parser_fuel:
  "5 * length ts + 4 \<le> n \<Longrightarrow> parseOrExpr n ts \<noteq> Inl OutOfFuel"
  "5 * length ts + 3 \<le> n \<Longrightarrow> orLoop n ch ts \<noteq> Inl OutOfFuel"
  "5 * length ts + 3 \<le> n \<Longrightarrow> parseAndExpr n ts \<noteq> Inl OutOfFuel"
  "5 * length ts + 2 \<le> n \<Longrightarrow> andLoop n ch ts \<noteq> Inl OutOfFuel"
  "5 * length ts + 2 \<le> n \<Longrightarrow> parseAtom n ts \<noteq> Inl OutOfFuel"
proof (induction n ts and n ch ts and n ts and n ch ts and n ts
    rule: parseOrExpr_orLoop_parseAndExpr_andLoop_parseAtom.induct)
  case (2 n ts)
  show ?case
  proof (cases "parseAndExpr n ts")
    case (Inr p)
    obtain l ts2 where p: "p = (l, ts2)" by (cases p)
    note L = parser_consumes(3) [OF Inr [unfolded p]]
    with "2.prems" "2.IH"(2) [OF Inr p [symmetric]] show ?thesis by (simp add: Inr p)
  qed (use 2 in auto)
next
  case (4 n children ts)
  show ?case
  proof (cases "peek ts = TokOr")
    case True
    then have len: "length (nextTok ts) < length ts" by (intro nextTok_length) simp
    show ?thesis
    proof (cases "parseAndExpr n (nextTok ts)")
      case (Inr p)
      obtain l ts2 where p: "p = (l, ts2)" by (cases p)
      note L = parser_consumes(3) [OF Inr [unfolded p]]
      with "4.prems" len "4.IH"(2) [OF True Inr p [symmetric]] show ?thesis by (simp add: Inr p True)
    qed (use "4.IH"(1) [OF True] "4.prems" len True in auto)
  qed simp
next
  case (6 n ts)
  show ?case
  proof (cases "parseAtom n ts")
    case (Inr p)
    obtain l ts2 where p: "p = (l, ts2)" by (cases p)
    note L = parser_consumes(5) [OF Inr [unfolded p]]
    with "6.prems" "6.IH"(2) [OF Inr p [symmetric]] show ?thesis by (simp add: Inr p)
  qed (use 6 in auto)
next
  case (8 n children ts)
  show ?case
  proof (cases "peek ts = TokAnd")
    case True
    then have len: "length (nextTok ts) < length ts" by (intro nextTok_length) simp
    show ?thesis
    proof (cases "parseAtom n (nextTok ts)")
      case (Inr p)
      obtain l ts2 where p: "p = (l, ts2)" by (cases p)
      note L = parser_consumes(5) [OF Inr [unfolded p]]
      with "8.prems" len "8.IH"(2) [OF True Inr p [symmetric]] show ?thesis by (simp add: Inr p True)
    qed (use "8.IH"(1) [OF True] "8.prems" len True in auto)
  qed simp
next
  case (10 n ts)
  show ?case
  proof (cases "peek ts")
    case TokLParen
    then have "length (nextTok ts) < length ts" by (intro nextTok_length) simp
    with "10.IH" [OF TokLParen] "10.prems" TokLParen show ?thesis by (auto split: sum.splits)
  qed simp_all
qed simp_all

text \<open>
  The parser terminates by itself on every token list: the fuel of \<open>parse\<close> never runs out.
\<close>

theorem parse_no_fuel_error: "parse ts \<noteq> Inl OutOfFuel"
  using parser_fuel(1) [of ts "5 * length ts + 4"] by (auto simp: parse_def split: sum.splits prod.splits)

section \<open>Printing and parsing back\<close>

definition identOk :: "string \<Rightarrow> bool" where
  "identOk x \<longleftrightarrow> x \<noteq> [] \<and> list_all isIdentChar x"

fun wfNode :: "dsl_node \<Rightarrow> bool" where
  "wfNode (LeafNode x) = identOk x"
| "wfNode (RefNode x) = identOk x"
| "wfNode (OrNode cs) = (2 \<le> length cs \<and> list_all wfNode cs)"
| "wfNode (AndNode cs) = (2 \<le> length cs \<and> list_all wfNode cs)"

fun sepBy :: "'a \<Rightarrow> 'a list list \<Rightarrow> 'a list" where
  "sepBy d [] = []"
| "sepBy d (x # xs) = x @ concat (map (\<lambda>y. d # y) xs)"

text \<open>
  The tokens of a node at precedence level 0 (an alternative), 1 (a conjunction) or 2 (an atom):
  \<open>&\<close> binds tighter than \<open>|\<close>, and what binds less is put in parentheses.
\<close>

fun prTokens :: "nat \<Rightarrow> dsl_node \<Rightarrow> token list" where
  "prTokens l (LeafNode x) = [TokIdent x]"
| "prTokens l (RefNode x) = [TokRef x]"
| "prTokens l (OrNode cs) =
     (let ts = sepBy TokOr (map (prTokens 1) cs) in if l = 0 then ts else TokLParen # ts @ [TokRParen])"
| "prTokens l (AndNode cs) =
     (let ts = sepBy TokAnd (map (prTokens 2) cs) in if l \<le> 1 then ts else TokLParen # ts @ [TokRParen])"

fun tokText :: "token \<Rightarrow> string" where
  "tokText (TokIdent x) = x"
| "tokText (TokRef x) = CHR ''+'' # x"
| "tokText TokAnd = ''&''"
| "tokText TokOr = ''|''"
| "tokText TokLParen = ''(''"
| "tokText TokRParen = '')''"
| "tokText TokEOF = []"

definition printTokens :: "token list \<Rightarrow> string" where
  "printTokens ts = concat (map (\<lambda>t. tokText t @ '' '') ts)"

fun tokenOk :: "token \<Rightarrow> bool" where
  "tokenOk (TokIdent x) = identOk x"
| "tokenOk (TokRef x) = identOk x"
| "tokenOk TokEOF = False"
| "tokenOk _ = True"

lemma ident_not_op:
  "isIdentChar c \<Longrightarrow> \<not> isSpaceCh c \<and> c \<notin> {CHR ''&'', CHR ''|'', CHR ''('', CHR '')'', CHR ''+''}"
proof -
  assume c: "isIdentChar c"
  have "\<not> isIdentChar (CHR 0x09)" "\<not> isIdentChar (CHR 0x0A)" "\<not> isIdentChar (CHR 0x0B)" "\<not> isIdentChar (CHR 0x0C)"
    "\<not> isIdentChar (CHR 0x0D)" "\<not> isIdentChar (CHR '' '')" "\<not> isIdentChar (CHR 0x85)" "\<not> isIdentChar (CHR 0xA0)"
    "\<not> isIdentChar (CHR ''&'')" "\<not> isIdentChar (CHR ''|'')" "\<not> isIdentChar (CHR ''('')" "\<not> isIdentChar (CHR '')'')" "\<not> isIdentChar (CHR ''+'')"
    by (simp_all add: isIdentChar_def isLetterCh_def isDigitCh_def isUpperCh_def isLowerCh_def)
  moreover have "isSpaceCh c \<Longrightarrow> c \<in> {CHR 0x09, CHR 0x0A, CHR 0x0B, CHR 0x0C, CHR 0x0D, CHR '' '', CHR 0x85, CHR 0xA0}"
  proof -
    assume "isSpaceCh c"
    then have "(of_char c :: nat) \<in> {9, 10, 11, 12, 13, 32, 133, 160}" by (auto simp: isSpaceCh_def Let_def)
    then have "char_of (of_char c :: nat) \<in> (char_of :: nat \<Rightarrow> char) ` {9, 10, 11, 12, 13, 32, 133, 160}" by (rule imageI)
    then have "c \<in> (char_of :: nat \<Rightarrow> char) ` {9, 10, 11, 12, 13, 32, 133, 160}" by (simp only: char_of_char)
    then show ?thesis by (simp add: char_of_def bit_Suc_0_iff)
  qed
  ultimately show ?thesis using c by auto
qed

lemma takeWhile_ident: "list_all isIdentChar x \<Longrightarrow> \<not> isIdentChar c \<Longrightarrow> takeWhile isIdentChar (x @ c # r) = x"
  "list_all isIdentChar x \<Longrightarrow> \<not> isIdentChar c \<Longrightarrow> dropWhile isIdentChar (x @ c # r) = c # r"
  by (induction x) auto

lemma blank_not_ident [simp]: "\<not> isIdentChar (CHR '' '')" "isSpaceCh (CHR '' '')"
  by (simp_all add: isIdentChar_def isLetterCh_def isDigitCh_def isUpperCh_def isLowerCh_def isSpaceCh_def)

lemma op_not_space [simp]: "\<not> isSpaceCh (CHR ''&'')" "\<not> isSpaceCh (CHR ''|'')" "\<not> isSpaceCh (CHR ''('')"
  "\<not> isSpaceCh (CHR '')'')" "\<not> isSpaceCh (CHR ''+'')"
  by (simp_all add: isSpaceCh_def)

lemma tokenize_print: "list_all tokenOk ts \<Longrightarrow> tokenizeFrom i (printTokens ts) = Inr (ts @ [TokEOF])"
proof (induction ts arbitrary: i)
  case Nil
  show ?case by (simp add: printTokens_def)
next
  case (Cons t ts)
  have IH: "tokenizeFrom j (printTokens ts) = Inr (ts @ [TokEOF])" for j
    using Cons by simp
  have p: "printTokens (t # ts) = tokText t @ CHR '' '' # printTokens ts" by (simp add: printTokens_def)
  show ?case
  proof (cases t)
    case (TokIdent x)
    with Cons.prems obtain c cs where x: "x = c # cs" "isIdentChar c" "list_all isIdentChar cs"
      by (cases x) (auto simp: identOk_def)
    with ident_not_op [of c] show ?thesis
      using IH unfolding p by (simp add: TokIdent takeWhile_ident Let_def)
  next
    case (TokRef x)
    with Cons.prems have "x \<noteq> []" "list_all isIdentChar x" by (auto simp: identOk_def)
    then show ?thesis using IH unfolding p by (simp add: TokRef takeWhile_ident Let_def)
  qed (use Cons.prems IH p in \<open>simp_all add: Let_def\<close>)
qed

lemma peek_simps [simp]: "peek (t # ts) = t" "t \<noteq> TokEOF \<Longrightarrow> nextTok (t # ts) = ts"
  by (simp_all add: peek_def nextTok_def)

text \<open>What the three levels of the parser do on the tokens of a node, given enough fuel.\<close>

definition parsesAs :: "dsl_node \<Rightarrow> bool" where
  "parsesAs node \<longleftrightarrow>
     (\<forall>n rest. 5 * length (prTokens 2 node @ rest) + 2 \<le> n \<longrightarrow> parseAtom n (prTokens 2 node @ rest) = Inr (node, rest))
   \<and> (\<forall>n rest. 5 * length (prTokens 1 node @ rest) + 3 \<le> n \<longrightarrow> peek rest \<noteq> TokAnd
        \<longrightarrow> parseAndExpr n (prTokens 1 node @ rest) = Inr (node, rest))
   \<and> (\<forall>n rest. 5 * length (prTokens 0 node @ rest) + 4 \<le> n \<longrightarrow> peek rest \<noteq> TokAnd \<longrightarrow> peek rest \<noteq> TokOr
        \<longrightarrow> parseOrExpr n (prTokens 0 node @ rest) = Inr (node, rest))"

lemma parsesAsD:
  "parsesAs node \<Longrightarrow> 5 * length (prTokens 2 node @ rest) + 2 \<le> n \<Longrightarrow> parseAtom n (prTokens 2 node @ rest) = Inr (node, rest)"
  "parsesAs node \<Longrightarrow> 5 * length (prTokens 1 node @ rest) + 3 \<le> n \<Longrightarrow> peek rest \<noteq> TokAnd
     \<Longrightarrow> parseAndExpr n (prTokens 1 node @ rest) = Inr (node, rest)"
  "parsesAs node \<Longrightarrow> 5 * length (prTokens 0 node @ rest) + 4 \<le> n \<Longrightarrow> peek rest \<noteq> TokAnd \<Longrightarrow> peek rest \<noteq> TokOr
     \<Longrightarrow> parseOrExpr n (prTokens 0 node @ rest) = Inr (node, rest)"
  unfolding parsesAs_def by blast+

lemma andLoop_print:
  assumes "\<forall>c \<in> set cs. parsesAs c" "peek rest \<noteq> TokAnd"
    and "5 * length (concat (map (\<lambda>c. TokAnd # prTokens 2 c) cs) @ rest) + 3 \<le> n"
  shows "andLoop n acc (concat (map (\<lambda>c. TokAnd # prTokens 2 c) cs) @ rest) = Inr (AndNode (acc @ cs), rest)"
  using assms
proof (induction cs arbitrary: acc n)
  case Nil
  then show ?case by (cases n) simp_all
next
  case (Cons c cs)
  let ?r = "concat (map (\<lambda>c. TokAnd # prTokens 2 c) cs) @ rest"
  obtain m where n: "n = Suc m" using Cons.prems(3) by (cases n) auto
  have "parseAtom m (prTokens 2 c @ ?r) = Inr (c, ?r)"
    using Cons.prems(1,3) n by (intro parsesAsD(1)) simp_all
  moreover have "andLoop m (acc @ [c]) ?r = Inr (AndNode ((acc @ [c]) @ cs), rest)"
    using Cons.prems n by (intro Cons.IH) simp_all
  ultimately show ?case by (simp add: n)
qed

lemma orLoop_print:
  assumes "\<forall>c \<in> set cs. parsesAs c" "peek rest \<noteq> TokAnd" "peek rest \<noteq> TokOr"
    and "5 * length (concat (map (\<lambda>c. TokOr # prTokens 1 c) cs) @ rest) + 4 \<le> n"
  shows "orLoop n acc (concat (map (\<lambda>c. TokOr # prTokens 1 c) cs) @ rest) = Inr (OrNode (acc @ cs), rest)"
  using assms
proof (induction cs arbitrary: acc n)
  case Nil
  then show ?case by (cases n) simp_all
next
  case (Cons c cs)
  let ?r = "concat (map (\<lambda>c. TokOr # prTokens 1 c) cs) @ rest"
  obtain m where n: "n = Suc m" using Cons.prems(4) by (cases n) auto
  have "peek ?r \<noteq> TokAnd" using Cons.prems(2) by (cases cs) simp_all
  then have "parseAndExpr m (prTokens 1 c @ ?r) = Inr (c, ?r)"
    using Cons.prems(1,4) n by (intro parsesAsD(2)) simp_all
  moreover have "orLoop m (acc @ [c]) ?r = Inr (OrNode ((acc @ [c]) @ cs), rest)"
    using Cons.prems n by (intro Cons.IH) simp_all
  ultimately show ?case by (simp add: n)
qed

lemma sepBy_Cons: "sepBy d (map f (c # cs)) = f c @ concat (map (\<lambda>c. d # f c) cs)"
  by (simp add: comp_def)

text \<open>From one level to the next: no operator follows, so the node is passed up; or parentheses.\<close>

lemma atom_to_and:
  assumes "\<And>n. 5 * length (ts @ rest) + 2 \<le> n \<Longrightarrow> parseAtom n (ts @ rest) = Inr (node, rest)"
    and "5 * length (ts @ rest) + 3 \<le> n" "peek rest \<noteq> TokAnd"
  shows "parseAndExpr n (ts @ rest) = Inr (node, rest)"
proof -
  from assms(2) obtain m where n: "n = Suc m" by (cases n) auto
  with assms(2) have "parseAtom m (ts @ rest) = Inr (node, rest)" by (intro assms(1)) simp
  with assms(3) n show ?thesis by simp
qed

lemma and_to_or:
  assumes "\<And>n. 5 * length (ts @ rest) + 3 \<le> n \<Longrightarrow> parseAndExpr n (ts @ rest) = Inr (node, rest)"
    and "5 * length (ts @ rest) + 4 \<le> n" "peek rest \<noteq> TokOr"
  shows "parseOrExpr n (ts @ rest) = Inr (node, rest)"
proof -
  from assms(2) obtain m where n: "n = Suc m" by (cases n) auto
  with assms(2) have "parseAndExpr m (ts @ rest) = Inr (node, rest)" by (intro assms(1)) simp
  with assms(3) n show ?thesis by simp
qed

lemma or_to_atom:
  assumes "\<And>n rest. 5 * length (ts @ rest) + 4 \<le> n \<Longrightarrow> peek rest \<noteq> TokAnd \<Longrightarrow> peek rest \<noteq> TokOr
      \<Longrightarrow> parseOrExpr n (ts @ rest) = Inr (node, rest)"
    and "5 * length ((TokLParen # ts @ [TokRParen]) @ rest) + 2 \<le> n"
  shows "parseAtom n ((TokLParen # ts @ [TokRParen]) @ rest) = Inr (node, rest)"
proof -
  from assms(2) obtain m where n: "n = Suc m" by (cases n) auto
  with assms(2) have "parseOrExpr m (ts @ TokRParen # rest) = Inr (node, TokRParen # rest)"
    by (intro assms(1)) simp_all
  with n show ?thesis by simp
qed

lemma parsesAs_atom:
  assumes "\<And>n rest. 5 * length (ts @ rest) + 2 \<le> n \<Longrightarrow> parseAtom n (ts @ rest) = Inr (node, rest)"
    and "\<And>l. prTokens l node = ts"
  shows "parsesAs node"
  unfolding parsesAs_def assms(2) using assms(1) by (blast intro: atom_to_and and_to_or)

lemma parseAtom_leaf:
  "0 < n \<Longrightarrow> parseAtom n (TokIdent x # rest) = Inr (LeafNode x, rest)"
  "0 < n \<Longrightarrow> parseAtom n (TokRef x # rest) = Inr (RefNode x, rest)"
  by (cases n; simp)+

lemma prTokens_nonempty: "wfNode node \<Longrightarrow> 1 \<le> length (prTokens l node)"
proof (induction node arbitrary: l)
  case (AndNode cs)
  then show ?case by (cases cs) (auto simp: Let_def intro!: trans_le_add1)
next
  case (OrNode cs)
  then show ?case by (cases cs) (auto simp: Let_def intro!: trans_le_add1)
qed simp_all

lemma wf_parsesAs: "wfNode node \<Longrightarrow> parsesAs node"
proof (induction node)
  case (LeafNode x)
  show ?case
    by (rule parsesAs_atom [of "[TokIdent x]"]) (simp_all add: parseAtom_leaf)
next
  case (RefNode x)
  show ?case
    by (rule parsesAs_atom [of "[TokRef x]"]) (simp_all add: parseAtom_leaf)
next
  case (AndNode cs)
  then have ch: "\<forall>c \<in> set cs. parsesAs c" by (auto simp: list_all_iff)
  from AndNode.prems obtain c d ds where cs: "cs = c # d # ds" by (cases cs; cases "tl cs") auto
  let ?ts = "prTokens 0 (AndNode cs)"
  have ts: "?ts = prTokens 2 c @ concat (map (\<lambda>c. TokAnd # prTokens 2 c) (d # ds))"
    by (simp add: cs Let_def comp_def)
  have B: "parseAndExpr n (?ts @ rest) = Inr (AndNode cs, rest)"
    if len: "5 * length (?ts @ rest) + 3 \<le> n" and nx: "peek rest \<noteq> TokAnd" for n rest
  proof -
    let ?r = "concat (map (\<lambda>c. TokAnd # prTokens 2 c) (d # ds)) @ rest"
    obtain m where n: "n = Suc m" using len by (cases n) auto
    have c: "1 \<le> length (prTokens 2 c)" using AndNode.prems cs by (intro prTokens_nonempty) simp
    have "parseAtom m (prTokens 2 c @ ?r) = Inr (c, ?r)"
      using ch len n unfolding ts cs by (intro parsesAsD(1)) (simp_all add: comp_def)
    moreover have "andLoop m [c] ?r = Inr (AndNode ([c] @ d # ds), rest)"
      using ch len nx n c unfolding ts cs by (intro andLoop_print) (simp_all add: comp_def)
    ultimately show ?thesis unfolding ts n by (simp add: cs)
  qed
  have C: "parseOrExpr n (?ts @ rest) = Inr (AndNode cs, rest)"
    if "5 * length (?ts @ rest) + 4 \<le> n" "peek rest \<noteq> TokAnd" "peek rest \<noteq> TokOr" for n rest
    using and_to_or [OF B that(1,3)] that(2) by blast
  have A: "parseAtom n ((TokLParen # ?ts @ [TokRParen]) @ rest) = Inr (AndNode cs, rest)"
    if "5 * length ((TokLParen # ?ts @ [TokRParen]) @ rest) + 2 \<le> n" for n rest
    by (rule or_to_atom [OF C that])
  have pr: "prTokens 1 (AndNode cs) = ?ts" "prTokens 2 (AndNode cs) = TokLParen # ?ts @ [TokRParen]"
    by (simp_all add: Let_def)
  show ?case unfolding parsesAs_def pr using A B C by blast
next
  case (OrNode cs)
  then have ch: "\<forall>c \<in> set cs. parsesAs c" by (auto simp: list_all_iff)
  from OrNode.prems obtain c d ds where cs: "cs = c # d # ds" by (cases cs; cases "tl cs") auto
  let ?ts = "prTokens 0 (OrNode cs)"
  have ts: "?ts = prTokens 1 c @ concat (map (\<lambda>c. TokOr # prTokens 1 c) (d # ds))"
    by (simp add: cs Let_def comp_def)
  have C: "parseOrExpr n (?ts @ rest) = Inr (OrNode cs, rest)"
    if len: "5 * length (?ts @ rest) + 4 \<le> n" and nx: "peek rest \<noteq> TokAnd" "peek rest \<noteq> TokOr" for n rest
  proof -
    let ?r = "concat (map (\<lambda>c. TokOr # prTokens 1 c) (d # ds)) @ rest"
    obtain m where n: "n = Suc m" using len by (cases n) auto
    have c: "1 \<le> length (prTokens 1 c)" using OrNode.prems cs by (intro prTokens_nonempty) simp
    have "parseAndExpr m (prTokens 1 c @ ?r) = Inr (c, ?r)"
      using ch len n unfolding ts cs by (intro parsesAsD(2)) (simp_all add: comp_def)
    moreover have "orLoop m [c] ?r = Inr (OrNode ([c] @ d # ds), rest)"
      using ch len nx n c unfolding ts cs by (intro orLoop_print) (simp_all add: comp_def)
    ultimately show ?thesis unfolding ts n by (simp add: cs)
  qed
  have A: "parseAtom n ((TokLParen # ?ts @ [TokRParen]) @ rest) = Inr (OrNode cs, rest)"
    if "5 * length ((TokLParen # ?ts @ [TokRParen]) @ rest) + 2 \<le> n" for n rest
    by (rule or_to_atom [OF C that])
  have B: "parseAndExpr n ((TokLParen # ?ts @ [TokRParen]) @ rest) = Inr (OrNode cs, rest)"
    if "5 * length ((TokLParen # ?ts @ [TokRParen]) @ rest) + 3 \<le> n" "peek rest \<noteq> TokAnd" for n rest
    by (rule atom_to_and [OF A that])
  have pr: "prTokens 1 (OrNode cs) = TokLParen # ?ts @ [TokRParen]" "prTokens 2 (OrNode cs) = TokLParen # ?ts @ [TokRParen]"
    by (simp_all add: Let_def)
  show ?case unfolding parsesAs_def pr using A B C by blast
qed

lemma sepBy_all: "list_all P d \<Longrightarrow> (\<And>x. x \<in> set xs \<Longrightarrow> list_all P x) \<Longrightarrow> list_all P (concat (map (\<lambda>y. d @ y) xs))"
  by (induction xs) auto

lemma prTokens_ok: "wfNode node \<Longrightarrow> list_all tokenOk (prTokens l node)"
proof (induction node arbitrary: l)
  case (AndNode cs)
  then have "\<forall>c \<in> set cs. \<forall>l. list_all tokenOk (prTokens l c)" by (auto simp: list_all_iff)
  then have "list_all tokenOk (sepBy TokAnd (map (prTokens 2) cs))"
    by (cases cs) (auto simp: list_all_iff)
  then show ?case by (simp add: Let_def)
next
  case (OrNode cs)
  then have "\<forall>c \<in> set cs. \<forall>l. list_all tokenOk (prTokens l c)" by (auto simp: list_all_iff)
  then have "list_all tokenOk (sepBy TokOr (map (prTokens 1) cs))"
    by (cases cs) (auto simp: list_all_iff)
  then show ?case by (simp add: Let_def)
qed simp_all

text \<open>
  C36. The text of every expression tree, printed with the parentheses that \<open>&\<close> before
  \<open>|\<close> needs, tokenizes and parses back to that tree.
\<close>

theorem dsl_print_parse:
  assumes "wfNode node"
  shows "\<exists>ts. tokenize (printTokens (prTokens 0 node)) = Inr ts \<and> parse ts = Inr node"
proof (intro exI conjI)
  let ?ts = "prTokens 0 node @ [TokEOF]"
  show "tokenize (printTokens (prTokens 0 node)) = Inr ?ts"
    unfolding tokenize_def by (rule tokenize_print [OF prTokens_ok [OF assms]])
  have "parseOrExpr (5 * length ?ts + 4) ?ts = Inr (node, [TokEOF])"
    by (rule parsesAsD(3) [OF wf_parsesAs [OF assms]]) (simp_all add: peek_def)
  then show "parse ?ts = Inr node" by (simp add: parse_def)
qed

theorem dsl_print_parse_witness:
  "\<exists>ts. tokenize ''a | b & ( +c | d ) '' = Inr ts
     \<and> parse ts = Inr (OrNode [LeafNode ''a'', AndNode [LeafNode ''b'', OrNode [RefNode ''c'', LeafNode ''d'']]])"
proof -
  let ?n = "OrNode [LeafNode ''a'', AndNode [LeafNode ''b'', OrNode [RefNode ''c'', LeafNode ''d'']]]"
  have "wfNode ?n" by (simp add: identOk_def isIdentChar_def isLetterCh_def isLowerCh_def isUpperCh_def)
  moreover have "printTokens (prTokens 0 ?n) = ''a | b & ( +c | d ) ''" by (simp add: printTokens_def Let_def)
  ultimately show ?thesis using dsl_print_parse [of ?n] by simp
qed

section \<open>What an expression denotes\<close>

text \<open>The sets of names an expression allows; a reference stands for the combinations of its set.\<close>

definition prodSets :: "string set set \<Rightarrow> string set set \<Rightarrow> string set set" where
  "prodSets A B = (\<lambda>(X, Y). X \<union> Y) ` (A \<times> B)"

lemma prodSets_assoc: "prodSets (prodSets A B) C = prodSets A (prodSets B C)"
proof (rule set_eqI, rule iffI)
  fix Z assume "Z \<in> prodSets (prodSets A B) C"
  then obtain X Y W where "X \<in> A" "Y \<in> B" "W \<in> C" "Z = X \<union> Y \<union> W" by (auto simp: prodSets_def)
  then show "Z \<in> prodSets A (prodSets B C)"
    unfolding prodSets_def by (intro image_eqI [of _ _ "(X, Y \<union> W)"]) (auto intro!: image_eqI [of _ _ "(Y, W)"])
next
  fix Z assume "Z \<in> prodSets A (prodSets B C)"
  then obtain X Y W where "X \<in> A" "Y \<in> B" "W \<in> C" "Z = X \<union> (Y \<union> W)" by (auto simp: prodSets_def)
  then show "Z \<in> prodSets (prodSets A B) C"
    unfolding prodSets_def by (intro image_eqI [of _ _ "(X \<union> Y, W)"]) (auto intro!: image_eqI [of _ _ "(X, Y)"])
qed

lemma prodSets_unit [simp]: "prodSets {{}} A = A" "prodSets A {{}} = A"
  by (auto simp: prodSets_def image_iff)

fun denotes :: "(string \<Rightarrow> string set set) \<Rightarrow> dsl_node \<Rightarrow> string set set" where
  "denotes R (LeafNode x) = {{x}}"
| "denotes R (RefNode s) = R s"
| "denotes R (OrNode cs) = (\<Union>c \<in> set cs. denotes R c)"
| "denotes R (AndNode cs) = foldr (\<lambda>c S. prodSets (denotes R c) S) cs {{}}"

definition setsOf :: "'a list list \<Rightarrow> 'a set set" where
  "setsOf combos = set ` set combos"

definition refSets :: "(string \<rightharpoonup> string list list) \<Rightarrow> string \<Rightarrow> string set set" where
  "refSets refs s = (case refs s of None \<Rightarrow> {} | Some combos \<Rightarrow> setsOf combos)"

lemma setsOf_append [simp]: "setsOf (a @ b) = setsOf a \<union> setsOf b"
  by (simp add: setsOf_def image_Un)

lemma cartesianProduct_sets:
  assumes "cartesianProduct l r cap = Inr p"
  shows "setsOf p = prodSets (setsOf l) (setsOf r)"
proof -
  from assms have "set p = (\<lambda>(x, y). x @ y) ` (set l \<times> set r)"
    by (auto simp: cartesianProduct_def split: if_splits) blast
  then have "setsOf p = (\<lambda>xy. set (fst xy) \<union> set (snd xy)) ` (set l \<times> set r)"
    by (simp add: setsOf_def image_image split_beta)
  then show ?thesis
    by (simp add: prodSets_def setsOf_def image_image split_beta flip: image_paired_Times)
qed

lemma expand_denotes:
  "expand refs node = Inr r \<Longrightarrow> setsOf r = denotes (refSets refs) node"
  "expandOr refs cs acc = Inr r \<Longrightarrow> setsOf r = setsOf acc \<union> (\<Union>c \<in> set cs. denotes (refSets refs) c)"
  "expandAnd refs cs acc = Inr r \<Longrightarrow> setsOf r
     = prodSets (setsOf acc) (foldr (\<lambda>c S. prodSets (denotes (refSets refs) c) S) cs {{}})"
proof (induction refs node and refs cs acc and refs cs acc arbitrary: r and r and r rule: expand_expandOr_expandAnd.induct)
  case (2 refs name)
  then show ?case by (auto simp: refSets_def split: option.splits)
next
  case (6 refs c cs result)
  then obtain x where x: "expand refs c = Inr x" "expandOr refs cs (result @ x) = Inr r" "\<not> maxDSLExpansions < length (result @ x)"
    by (auto split: sum.splits if_splits)
  from "6.IH"(1) [OF x(1)] "6.IH"(2) [OF x(1,3,2)] show ?case by auto
next
  case (8 refs c cs result)
  then obtain x p where x: "expand refs c = Inr x" "cartesianProduct result x maxDSLExpansions = Inr p" "expandAnd refs cs p = Inr r"
    by (auto split: sum.splits)
  from "8.IH"(1) [OF x(1)] "8.IH"(2) [OF x] cartesianProduct_sets [OF x(2)] show ?case
    by (simp add: prodSets_assoc)
qed (auto simp: setsOf_def)

lemma set_dedup: "set (dedup seen xs) = set xs - set seen"
  by (induction seen xs rule: dedup.induct) auto

lemma distinct_dedup: "distinct (dedup seen xs)"
  by (induction seen xs rule: dedup.induct) (auto simp: set_dedup)

lemma dedupAndSort_props: "set (dedupAndSort xs) = set xs" "sorted (dedupAndSort xs)" "distinct (dedupAndSort xs)"
  by (simp_all add: dedupAndSort_def set_dedup distinct_dedup)

text \<open>The tree of an expression's text, when it has one.\<close>

definition dslTree :: "string \<Rightarrow> dsl_node option" where
  "dslTree dsl = (case tokenize (trimSpace dsl) of
     Inl e \<Rightarrow> None | Inr ts \<Rightarrow> (case parse ts of Inl e \<Rightarrow> None | Inr tree \<Rightarrow> Some tree))"

lemma parseAndExpandDSL_Inr:
  assumes "parseAndExpandDSL dsl refs = Inr combos"
  shows "\<exists>tree. dslTree dsl = Some tree \<and> setsOf combos = denotes (refSets refs) tree"
    "\<forall>c \<in> set combos. sorted c \<and> distinct c"
proof -
  from assms obtain ts tree r where t: "tokenize (trimSpace dsl) = Inr ts" "parse ts = Inr tree"
    "expand refs tree = Inr r" "combos = map dedupAndSort r"
    by (auto simp: parseAndExpandDSL_def Let_def split: if_splits sum.splits)
  have "setsOf combos = setsOf r" by (simp add: t(4) setsOf_def image_image dedupAndSort_props)
  with t expand_denotes(1) [OF t(3)] show "\<exists>tree. dslTree dsl = Some tree \<and> setsOf combos = denotes (refSets refs) tree"
    by (simp add: dslTree_def)
  show "\<forall>c \<in> set combos. sorted c \<and> distinct c" by (simp add: t(4) dedupAndSort_props)
qed

end
