(* ===== verification/Matrix_Config.thy ===== *)
theory Matrix_Config
  imports Matrix_DSL
begin

text \<open>
  The swap matrix of the configuration (\<open>internal/config/matrix.go\<close>): its validation, the
  topological sort of the set references, the expansion to sets of real model names, and the
  resolved eviction costs.

  Go's maps are association lists: their order stands for one iteration order. The recursion of
  the depth-first visit runs on fuel, one unit per nested visit; \<open>length sets + 1\<close> units are enough
  (\<open>topologicalSort_no_fuel\<close>), because a nested visit has marked another set.
\<close>

record matrix_config =
  mc_vars :: "(string \<times> string) list"
  mc_evictCosts :: "(string \<times> int) list"
  mc_sets :: "(string \<times> string) list"

record expanded_set =
  es_name :: string
  es_dsl :: string
  es_models :: "string list"

datatype matrix_error =
    NoSets | NoVars | BadVarKey string | UnknownModel string | BadEvictCost string int | UnknownCostVar string
  | SetDSLError string dsl_error | UndefinedSetRef string string | CircularRef string | UnknownVarID string string
  | TooManySets nat | VisitFuel

section \<open>Topological sort\<close>

text \<open>The code's states 0, 1 and 2 of a name, and the order so far.\<close>

datatype mark = Unvisited | Visiting | Visited

type_synonym visit_state = "(string \<Rightarrow> mark) \<times> string list"

fun visit :: "nat \<Rightarrow> (string \<Rightarrow> string list) \<Rightarrow> string \<Rightarrow> visit_state \<Rightarrow> matrix_error + visit_state"
  and visitDeps :: "nat \<Rightarrow> (string \<Rightarrow> string list) \<Rightarrow> string list \<Rightarrow> visit_state \<Rightarrow> matrix_error + visit_state" where
  "visit 0 deps name s = Inl VisitFuel"
| "visit (Suc n) deps name s =
     (case s of (st, order) \<Rightarrow>
        if st name = Visiting then Inl (CircularRef name)
        else if st name = Visited then Inr (st, order)
        else case visitDeps n deps (deps name) (st(name := Visiting), order) of
               Inl e \<Rightarrow> Inl e
             | Inr (st', order') \<Rightarrow> Inr (st'(name := Visited), order' @ [name]))"
| "visitDeps n deps [] s = Inr s"
| "visitDeps n deps (d # ds) s =
     (case visit n deps d s of Inl e \<Rightarrow> Inl e | Inr s' \<Rightarrow> visitDeps n deps ds s')"

fun visitSets :: "nat \<Rightarrow> (string \<Rightarrow> string list) \<Rightarrow> string list \<Rightarrow> visit_state \<Rightarrow> matrix_error + visit_state" where
  "visitSets n deps [] s = Inr s"
| "visitSets n deps (name # names) s =
     (if fst s name = Unvisited
      then (case visit n deps name s of Inl e \<Rightarrow> Inl e | Inr s' \<Rightarrow> visitSets n deps names s')
      else visitSets n deps names s)"

definition topologicalSort :: "(string \<times> string) list \<Rightarrow> (string \<Rightarrow> string list) \<Rightarrow> matrix_error + string list" where
  "topologicalSort sets deps =
     (case visitSets (length sets + 1) deps (map fst sets) (\<lambda>_. Unvisited, []) of
        Inl e \<Rightarrow> Inl e
      | Inr (st, order) \<Rightarrow> Inr order)"

section \<open>Validation and expansion\<close>

definition varKeyOk :: "string \<Rightarrow> bool" where
  "varKeyOk k = (1 \<le> length k \<and> length k \<le> 8 \<and> list_all (\<lambda>c. isLowerCh c \<or> isUpperCh c \<or> isDigitCh c) k)"

fun checkVars :: "(string \<Rightarrow> bool) \<Rightarrow> (string \<times> string) list \<Rightarrow> matrix_error option" where
  "checkVars known [] = None"
| "checkVars known ((k, model) # vs) =
     (if \<not> varKeyOk k then Some (BadVarKey k)
      else if \<not> known model then Some (UnknownModel model)
      else checkVars known vs)"

fun checkCosts :: "(string \<times> string) list \<Rightarrow> (string \<times> int) list \<Rightarrow> matrix_error option" where
  "checkCosts vars [] = None"
| "checkCosts vars ((k, cost) # cs) =
     (if cost \<le> 0 then Some (BadEvictCost k cost)
      else if map_of vars k = None then Some (UnknownCostVar k)
      else checkCosts vars cs)"

text \<open>The references of every set; a later entry of the same name replaces an earlier one.\<close>

fun buildDeps :: "string list \<Rightarrow> (string \<times> string) list \<Rightarrow> (string \<Rightarrow> string list) \<Rightarrow> matrix_error + (string \<Rightarrow> string list)" where
  "buildDeps names [] deps = Inr deps"
| "buildDeps names ((name, dsl) # sets) deps =
     (case extractRefs dsl of
        Inl e \<Rightarrow> Inl (SetDSLError name e)
      | Inr refs \<Rightarrow>
          (case find (\<lambda>r. r \<notin> set names) refs of
             Some r \<Rightarrow> Inl (UndefinedSetRef name r)
           | None \<Rightarrow> buildDeps names sets (deps(name := refs))))"

text \<open>Var ids to real model names.\<close>

fun resolveCombo :: "string \<Rightarrow> (string \<times> string) list \<Rightarrow> string list \<Rightarrow> matrix_error + string list" where
  "resolveCombo name vars [] = Inr []"
| "resolveCombo name vars (x # xs) =
     (case map_of vars x of
        None \<Rightarrow> Inl (UnknownVarID name x)
      | Some real \<Rightarrow> (case resolveCombo name vars xs of Inl e \<Rightarrow> Inl e | Inr rs \<Rightarrow> Inr (real # rs)))"

fun resolveCombos :: "string \<Rightarrow> string \<Rightarrow> (string \<times> string) list \<Rightarrow> string list list \<Rightarrow> matrix_error + expanded_set list" where
  "resolveCombos name dsl vars [] = Inr []"
| "resolveCombos name dsl vars (c # cs) =
     (case resolveCombo name vars c of
        Inl e \<Rightarrow> Inl e
      | Inr rs \<Rightarrow>
          (case resolveCombos name dsl vars cs of
             Inl e \<Rightarrow> Inl e
           | Inr es \<Rightarrow> Inr (\<lparr>es_name = name, es_dsl = dsl, es_models = sort rs\<rparr> # es)))"

fun expandSets :: "(string \<Rightarrow> string) \<Rightarrow> (string \<times> string) list \<Rightarrow> string list \<Rightarrow> (string \<rightharpoonup> string list list)
    \<Rightarrow> expanded_set list \<Rightarrow> nat \<Rightarrow> matrix_error + expanded_set list" where
  "expandSets setDSL vars [] refs allExpanded tot = Inr allExpanded"
| "expandSets setDSL vars (name # names) refs allExpanded tot =
     (case parseAndExpandDSL (setDSL name) refs of
        Inl e \<Rightarrow> Inl (SetDSLError name e)
      | Inr combos \<Rightarrow>
          (case resolveCombos name (setDSL name) vars combos of
             Inl e \<Rightarrow> Inl e
           | Inr es \<Rightarrow>
               let tot = tot + length combos in
               if tot > maxDSLExpansions then Inl (TooManySets tot)
               else expandSets setDSL vars names (refs(name \<mapsto> combos)) (allExpanded @ es) tot))"

definition setDSLOf :: "(string \<times> string) list \<Rightarrow> string \<Rightarrow> string" where
  "setDSLOf sets name = (case map_of (rev sets) name of Some d \<Rightarrow> d | None \<Rightarrow> [])"

definition validateMatrix :: "matrix_config \<Rightarrow> (string \<Rightarrow> bool) \<Rightarrow> matrix_error + expanded_set list" where
  "validateMatrix m known =
     (if mc_sets m = [] then Inl NoSets
      else if mc_vars m = [] then Inl NoVars
      else case checkVars known (mc_vars m) of
        Some e \<Rightarrow> Inl e
      | None \<Rightarrow>
          (case checkCosts (mc_vars m) (mc_evictCosts m) of
             Some e \<Rightarrow> Inl e
           | None \<Rightarrow>
               (case buildDeps (map fst (mc_sets m)) (mc_sets m) (\<lambda>_. []) of
                  Inl e \<Rightarrow> Inl e
                | Inr deps \<Rightarrow>
                    (case topologicalSort (mc_sets m) deps of
                       Inl e \<Rightarrow> Inl e
                     | Inr order \<Rightarrow> expandSets (setDSLOf (mc_sets m)) (mc_vars m) order Map.empty [] 0))))"

text \<open>Several var ids of one model: the last one iterated wins.\<close>

definition resolvedEvictCosts :: "matrix_config \<Rightarrow> string \<rightharpoonup> int" where
  "resolvedEvictCosts m =
     fold (\<lambda>(key, cost) costs. costs((case map_of (mc_vars m) key of Some real \<Rightarrow> real | None \<Rightarrow> key) \<mapsto> cost))
       (mc_evictCosts m) Map.empty"

section \<open>The sort is topological\<close>

definition depsBefore :: "(string \<Rightarrow> string list) \<Rightarrow> string list \<Rightarrow> bool" where
  "depsBefore deps order \<longleftrightarrow> (\<forall>i < length order. set (deps (order ! i)) \<subseteq> set (take i order))"

definition topo_inv :: "(string \<Rightarrow> string list) \<Rightarrow> visit_state \<Rightarrow> bool" where
  "topo_inv deps s \<longleftrightarrow> (case s of (st, order) \<Rightarrow>
     distinct order \<and> set order = {x. st x = Visited} \<and> depsBefore deps order)"

text \<open>What a visit keeps: the nodes being visited, and everything already visited.\<close>

definition grows :: "visit_state \<Rightarrow> visit_state \<Rightarrow> bool" where
  "grows s s' \<longleftrightarrow> (\<forall>x. fst s x = Visiting \<longleftrightarrow> fst s' x = Visiting) \<and> (\<forall>x. fst s x = Visited \<longrightarrow> fst s' x = Visited)"

lemma grows_refl [simp]: "grows s s"
  by (simp add: grows_def)

lemma grows_trans: "grows s s' \<Longrightarrow> grows s' s'' \<Longrightarrow> grows s s''"
  by (simp add: grows_def)

lemma depsBefore_snoc:
  "depsBefore deps (order @ [x]) \<longleftrightarrow> depsBefore deps order \<and> set (deps x) \<subseteq> set order"
proof
  assume A: "depsBefore deps (order @ [x])"
  have "set (deps (order ! i)) \<subseteq> set (take i order)" if "i < length order" for i
    using A [unfolded depsBefore_def, rule_format, of i] that by (simp add: nth_append)
  moreover have "set (deps x) \<subseteq> set order"
    using A [unfolded depsBefore_def, rule_format, of "length order"] by simp
  ultimately show "depsBefore deps order \<and> set (deps x) \<subseteq> set order" by (simp add: depsBefore_def)
next
  assume A: "depsBefore deps order \<and> set (deps x) \<subseteq> set order"
  show "depsBefore deps (order @ [x])"
    unfolding depsBefore_def
  proof (intro allI impI)
    fix i assume i: "i < length (order @ [x])"
    show "set (deps ((order @ [x]) ! i)) \<subseteq> set (take i (order @ [x]))"
      using A i by (cases "i < length order") (auto simp: depsBefore_def nth_append less_Suc_eq)
  qed
qed

lemma visit_inv:
  "visit n deps name s = Inr s' \<Longrightarrow> topo_inv deps s \<Longrightarrow> topo_inv deps s' \<and> grows s s' \<and> fst s' name = Visited"
  "visitDeps n deps ds s = Inr s' \<Longrightarrow> topo_inv deps s \<Longrightarrow> topo_inv deps s' \<and> grows s s' \<and> (\<forall>d \<in> set ds. fst s' d = Visited)"
proof (induction n deps name s and n deps ds s arbitrary: s' and s' rule: visit_visitDeps.induct)
  case (2 n deps name s)
  obtain st order where s: "s = (st, order)" by (cases s)
  consider "st name = Visited" "s' = s" | st1 order1 where "st name = Unvisited"
      "visitDeps n deps (deps name) (st(name := Visiting), order) = Inr (st1, order1)" "s' = (st1(name := Visited), order1 @ [name])"
  proof -
    have "st name = Unvisited \<or> st name = Visiting \<or> st name = Visited" using mark.exhaust by blast
    then show ?thesis using "2.prems"(1) that by (auto simp: s split: sum.splits if_splits)
  qed
  then show ?case
  proof cases
    case 1
    with "2.prems"(2) show ?thesis by (simp add: s)
  next
    case 2
    have start: "topo_inv deps (st(name := Visiting), order)"
      using "2.prems"(2) 2(1) by (auto simp: topo_inv_def s)
    have c: "\<not> st name = Visiting" "\<not> st name = Visited" using 2(1) by simp_all
    from "2.IH" [OF s [symmetric] c 2(2) start] have I: "topo_inv deps (st1, order1)" "grows (st(name := Visiting), order) (st1, order1)"
      "\<forall>d \<in> set (deps name). st1 d = Visited" by auto
    from I(2) have name1: "st1 name = Visiting" and keep: "\<And>x. st x = Visited \<Longrightarrow> st1 x = Visited"
      "\<And>x. x \<noteq> name \<Longrightarrow> st x = Visiting \<longleftrightarrow> st1 x = Visiting"
      using 2(1) by (auto simp: grows_def split: if_splits)
    have "set (deps name) \<subseteq> set order1" "name \<notin> set order1"
      using I(1,3) name1 by (auto simp: topo_inv_def)
    with I(1) have "topo_inv deps (st1(name := Visited), order1 @ [name])"
      by (auto simp: topo_inv_def depsBefore_snoc)
    moreover have "grows s s'" using keep 2(1) by (auto simp: grows_def s 2(3))
    ultimately show ?thesis by (simp add: 2(3))
  qed
next
  case (4 n deps d ds s)
  then obtain s1 where s1: "visit n deps d s = Inr s1" "visitDeps n deps ds s1 = Inr s'" by (auto split: sum.splits)
  from "4.IH"(1) [OF s1(1) "4.prems"(2)] have A: "topo_inv deps s1" "grows s s1" "fst s1 d = Visited" by auto
  from "4.IH"(2) [OF s1 A(1)] A show ?case by (auto intro: grows_trans simp: grows_def)
qed auto

text \<open>Only names of a set closed under dependencies are ever visited.\<close>

lemma visit_within:
  "visit n deps name s = Inr s' \<Longrightarrow> name \<in> S \<Longrightarrow> (\<forall>x \<in> S. set (deps x) \<subseteq> S) \<Longrightarrow> (\<forall>x. x \<notin> S \<longrightarrow> fst s' x = fst s x)"
  "visitDeps n deps ds s = Inr s' \<Longrightarrow> set ds \<subseteq> S \<Longrightarrow> (\<forall>x \<in> S. set (deps x) \<subseteq> S) \<Longrightarrow> (\<forall>x. x \<notin> S \<longrightarrow> fst s' x = fst s x)"
proof (induction n deps name s and n deps ds s arbitrary: s' and s' rule: visit_visitDeps.induct)
  case (2 n deps name s)
  obtain st order where s: "s = (st, order)" by (cases s)
  show ?case
  proof (cases "st name = Visiting \<or> st name = Visited")
    case True
    with "2.prems" show ?thesis by (auto simp: s split: if_splits)
  next
    case False
    with "2.prems"(1) obtain st1 order1 where d: "visitDeps n deps (deps name) (st(name := Visiting), order) = Inr (st1, order1)"
      "s' = (st1(name := Visited), order1 @ [name])" by (auto simp: s split: sum.splits if_splits)
    have "set (deps name) \<subseteq> S" using "2.prems"(2,3) by blast
    with "2.IH" [OF s [symmetric] _ _ d(1)] False "2.prems" show ?thesis by (auto simp: s d(2))
  qed
next
  case (4 n deps d ds s)
  then obtain s1 where s1: "visit n deps d s = Inr s1" "visitDeps n deps ds s1 = Inr s'" by (auto split: sum.splits)
  from "4.IH"(1) [OF s1(1)] "4.IH"(2) [OF s1] "4.prems" show ?case by simp
qed auto

section \<open>Termination and cycles\<close>

lemma visit_zero:
  "visit n deps name s = Inr s' \<Longrightarrow> fst s' x = Unvisited \<Longrightarrow> fst s x = Unvisited"
  "visitDeps n deps ds s = Inr s' \<Longrightarrow> fst s' x = Unvisited \<Longrightarrow> fst s x = Unvisited"
proof (induction n deps name s and n deps ds s arbitrary: s' and s' rule: visit_visitDeps.induct)
  case (2 n deps name s)
  obtain st order where s: "s = (st, order)" by (cases s)
  show ?case
  proof (cases "st name = Visiting \<or> st name = Visited")
    case True
    with "2.prems" show ?thesis by (auto simp: s split: if_splits)
  next
    case False
    with "2.prems"(1) obtain st1 order1 where d: "visitDeps n deps (deps name) (st(name := Visiting), order) = Inr (st1, order1)"
      "s' = (st1(name := Visited), order1 @ [name])" by (auto simp: s split: sum.splits if_splits)
    with "2.IH" [OF s [symmetric] _ _ d(1)] False "2.prems" show ?thesis by (auto simp: s split: if_splits)
  qed
next
  case (4 n deps d ds s)
  then obtain s1 where s1: "visit n deps d s = Inr s1" "visitDeps n deps ds s1 = Inr s'" by (auto split: sum.splits)
  from "4.IH"(1) [OF s1(1)] "4.IH"(2) [OF s1] "4.prems" show ?case by simp
qed auto

definition unvisited :: "string set \<Rightarrow> visit_state \<Rightarrow> string set" where
  "unvisited S s = {x \<in> S. fst s x = Unvisited}"

lemma visit_fuel:
  "finite S \<Longrightarrow> name \<in> S \<Longrightarrow> (\<forall>x \<in> S. set (deps x) \<subseteq> S) \<Longrightarrow> card (unvisited S s) < n \<Longrightarrow> visit n deps name s \<noteq> Inl VisitFuel"
  "finite S \<Longrightarrow> set ds \<subseteq> S \<Longrightarrow> (\<forall>x \<in> S. set (deps x) \<subseteq> S) \<Longrightarrow> card (unvisited S s) < n \<Longrightarrow> visitDeps n deps ds s \<noteq> Inl VisitFuel"
proof (induction n deps name s and n deps ds s rule: visit_visitDeps.induct)
  case (2 n deps name s)
  obtain st order where s: "s = (st, order)" by (cases s)
  show ?case
  proof (cases "st name = Visiting \<or> st name = Visited")
    case True
    then show ?thesis by (auto simp: s)
  next
    case False
    have "set (deps name) \<subseteq> S" using "2.prems" by blast
    have "visitDeps n deps (deps name) (st(name := Visiting), order) \<noteq> Inl VisitFuel"
    proof -
      have True: "st name = Unvisited" using False by (cases "st name") simp_all
      have "unvisited S (st(name := Visiting), order) = unvisited S s - {name}" by (auto simp: unvisited_def s)
      moreover have "name \<in> unvisited S s" "finite (unvisited S s)" using True "2.prems" by (simp_all add: unvisited_def s)
      ultimately have "card (unvisited S (st(name := Visiting), order)) < n"
        using "2.prems"(4) by (metis Suc_less_eq card_Suc_Diff1)
      with "2.IH" [OF s [symmetric]] False "2.prems" \<open>set (deps name) \<subseteq> S\<close> show ?thesis by simp
    qed
    then show ?thesis using False by (auto simp: s split: sum.splits)
  qed
next
  case (4 n deps d ds s)
  show ?case
  proof (cases "visit n deps d s")
    case (Inr s1)
    have "unvisited S s1 \<subseteq> unvisited S s" using visit_zero(1) [OF Inr] by (auto simp: unvisited_def)
    then have "card (unvisited S s1) \<le> card (unvisited S s)" using "4.prems"(1) by (intro card_mono) (auto simp: unvisited_def)
    with "4.IH"(2) [OF Inr] "4.prems" Inr show ?thesis by simp
  qed (use 4 in auto)
qed auto

definition depRel :: "(string \<Rightarrow> string list) \<Rightarrow> (string \<times> string) set" where
  "depRel deps = {(x, d). d \<in> set (deps x)}"

text \<open>An error of a visit is a cycle: the visited-at node is reachable from every open one.\<close>

lemma visit_error:
  "visit n deps name s = Inl e \<Longrightarrow> topo_inv deps s \<Longrightarrow> (\<forall>x. fst s x = Visiting \<longrightarrow> (x, name) \<in> (depRel deps)\<^sup>+)
     \<Longrightarrow> e = VisitFuel \<or> (\<exists>y. e = CircularRef y \<and> (y, y) \<in> (depRel deps)\<^sup>+)"
  "visitDeps n deps ds s = Inl e \<Longrightarrow> topo_inv deps s \<Longrightarrow>
     (\<forall>x. fst s x = Visiting \<longrightarrow> (\<forall>d \<in> set ds. (x, d) \<in> (depRel deps)\<^sup>+))
     \<Longrightarrow> e = VisitFuel \<or> (\<exists>y. e = CircularRef y \<and> (y, y) \<in> (depRel deps)\<^sup>+)"
proof (induction n deps name s and n deps ds s arbitrary: e and e rule: visit_visitDeps.induct)
  case (2 n deps name s)
  obtain st order where s: "s = (st, order)" by (cases s)
  show ?case
  proof (cases "st name")
    case Visiting
    with "2.prems" have "e = CircularRef name" "(name, name) \<in> (depRel deps)\<^sup>+" by (simp_all add: s)
    then show ?thesis by blast
  next
    case Visited
    with "2.prems" show ?thesis by (simp add: s)
  next
    case Unvisited
    with "2.prems"(1) have d: "visitDeps n deps (deps name) (st(name := Visiting), order) = Inl e"
      by (auto simp: s split: sum.splits)
    have inv: "topo_inv deps (st(name := Visiting), order)"
      using "2.prems"(2) Unvisited by (auto simp: topo_inv_def s)
    have "(x, d) \<in> (depRel deps)\<^sup>+" if "(st(name := Visiting)) x = Visiting" "d \<in> set (deps name)" for x d
    proof -
      have nd: "(name, d) \<in> depRel deps" using that(2) by (simp add: depRel_def)
      show ?thesis
      proof (cases "x = name")
        case False
        with that(1) "2.prems"(3) have "(x, name) \<in> (depRel deps)\<^sup>+" by (simp add: s)
        then show ?thesis using nd by (rule trancl_into_trancl)
      qed (use nd in blast)
    qed
    with "2.IH" [OF s [symmetric] _ _ d inv] Unvisited show ?thesis by simp
  qed
next
  case (4 n deps d ds s)
  show ?case
  proof (cases "visit n deps d s")
    case (Inl e1)
    with 4 show ?thesis by simp
  next
    case (Inr s1)
    note V = visit_inv(1) [OF Inr "4.prems"(2)]
    with "4.prems"(1) Inr have "visitDeps n deps ds s1 = Inl e" by simp
    from "4.IH"(2) [OF Inr this] V "4.prems"(3) show ?thesis by (simp add: grows_def)
  qed
qed auto

lemma visitSets_result:
  assumes "finite S" "set names \<subseteq> S" "\<forall>x \<in> S. set (deps x) \<subseteq> S" "card S < n"
    and "topo_inv deps s" "\<forall>x. fst s x \<noteq> Visiting"
  shows "case visitSets n deps names s of
      Inr s' \<Rightarrow> topo_inv deps s' \<and> grows s s' \<and> (\<forall>x \<in> set names. fst s' x = Visited) \<and> (\<forall>x. x \<notin> S \<longrightarrow> fst s' x = fst s x)
    | Inl e \<Rightarrow> \<exists>y. e = CircularRef y \<and> (y, y) \<in> (depRel deps)\<^sup>+"
  using assms
proof (induction names arbitrary: s)
  case (Cons name names)
  show ?case
  proof (cases "fst s name = Unvisited")
    case False
    with Cons.prems(6) have v: "fst s name = Visited" by (cases "fst s name") auto
    with Cons.IH [of s] Cons.prems show ?thesis
      by (cases "visitSets n deps names s") (auto simp: grows_def)
  next
    case True
    have "card (unvisited S s) \<le> card S" using Cons.prems(1) by (intro card_mono) (auto simp: unvisited_def)
    with Cons.prems(4) have "card (unvisited S s) < n" by simp
    with Cons.prems have fuel: "visit n deps name s \<noteq> Inl VisitFuel" by (intro visit_fuel(1)) simp_all
    show ?thesis
    proof (cases "visit n deps name s")
      case (Inl e)
      with visit_error(1) [OF Inl Cons.prems(5)] fuel Cons.prems(6) True show ?thesis by auto
    next
      case (Inr s1)
      note V = visit_inv(1) [OF Inr Cons.prems(5)] and W = visit_within(1) [OF Inr, of S]
      from V Cons.prems(6) have "\<forall>x. fst s1 x \<noteq> Visiting" by (simp add: grows_def)
      with Cons.IH [of s1] Cons.prems V W Inr True show ?thesis
        by (cases "visitSets n deps names s1") (auto simp: grows_def)
    qed
  qed
qed simp

lemma topologicalSort_result:
  assumes "\<forall>x \<in> set (map fst sets). set (deps x) \<subseteq> set (map fst sets)"
  shows "case topologicalSort sets deps of
      Inr order \<Rightarrow> distinct order \<and> set order = set (map fst sets) \<and> depsBefore deps order
    | Inl e \<Rightarrow> \<exists>y. e = CircularRef y \<and> (y, y) \<in> (depRel deps)\<^sup>+"
proof -
  let ?S = "set (map fst sets)" and ?n = "length sets + 1" and ?s = "(\<lambda>_. Unvisited, []) :: visit_state"
  have "card ?S < ?n" using card_length [of "map fst sets"] by simp
  moreover have "topo_inv deps ?s" by (simp add: topo_inv_def depsBefore_def)
  ultimately have R: "case visitSets ?n deps (map fst sets) ?s of
      Inr s' \<Rightarrow> topo_inv deps s' \<and> grows ?s s' \<and> (\<forall>x \<in> set (map fst sets). fst s' x = Visited) \<and> (\<forall>x. x \<notin> ?S \<longrightarrow> fst s' x = fst ?s x)
    | Inl e \<Rightarrow> \<exists>y. e = CircularRef y \<and> (y, y) \<in> (depRel deps)\<^sup>+"
    using assms by (intro visitSets_result) simp_all
  show ?thesis
  proof (cases "visitSets ?n deps (map fst sets) ?s")
    case (Inl e)
    with R show ?thesis by (simp add: topologicalSort_def)
  next
    case (Inr s')
    obtain st order where s': "s' = (st, order)" by (cases s')
    from R Inr s' have T: "topo_inv deps (st, order)" "\<forall>x \<in> ?S. st x = Visited" "\<forall>x. x \<notin> ?S \<longrightarrow> st x = Unvisited" by auto
    have "{x. st x = Visited} = ?S"
    proof (rule set_eqI)
      fix x
      have "x \<in> ?S \<Longrightarrow> st x = Visited" "x \<notin> ?S \<Longrightarrow> st x = Unvisited" using T(2,3) by blast+
      then show "x \<in> {x. st x = Visited} \<longleftrightarrow> x \<in> ?S" by (cases "x \<in> ?S") simp_all
    qed
    with T(1) have "set order = ?S" by (simp add: topo_inv_def)
    with T(1) Inr s' show ?thesis by (simp add: topologicalSort_def topo_inv_def)
  qed
qed

text \<open>In an order with the dependencies before, nothing depends on itself.\<close>

lemma depsBefore_acyclic:
  assumes "depsBefore deps order" "distinct order"
  shows "(x, x) \<notin> (depRel deps)\<^sup>+ \<or> x \<notin> set order"
proof (rule ccontr)
  assume "\<not> ?thesis"
  then have c: "(x, x) \<in> (depRel deps)\<^sup>+" and x: "x \<in> set order" by simp_all
  have "\<exists>j. order ! j = y \<and> j < i" if "(order ! i, y) \<in> (depRel deps)\<^sup>+" "i < length order" for i y
    using that(1)
  proof (induction rule: trancl_induct)
    case (base y)
    then have "y \<in> set (take i order)" using assms(1) that(2) by (auto simp: depsBefore_def depRel_def)
    then show ?case by (auto simp: in_set_conv_nth)
  next
    case (step y z)
    then obtain j where j: "order ! j = y" "j < i" by blast
    then have "set (deps (order ! j)) \<subseteq> set (take j order)" using assms(1) [unfolded depsBefore_def, rule_format, of j] j that(2) by simp
    moreover have "z \<in> set (deps (order ! j))" using step(2) j by (simp add: depRel_def)
    ultimately have "z \<in> set (take j order)" by blast
    then show ?case using j by (auto simp: in_set_conv_nth)
  qed
  note before = this
  from x obtain i where i: "i < length order" "order ! i = x" by (auto simp: in_set_conv_nth)
  with before [of i x] c obtain j where "order ! j = x" "j < i" by auto
  with i assms(2) nth_eq_iff_index_eq [of order i j] show False by simp
qed

text \<open>
  When the references of every set are sets of the matrix, the sort terminates within its
  fuel: it returns every set name once, each after the sets it references, when no set depends on
  itself, and it reports a set that does otherwise.
\<close>

theorem topological_sort_correct:
  assumes "\<forall>x \<in> set (map fst sets). set (deps x) \<subseteq> set (map fst sets)"
  shows "case topologicalSort sets deps of
      Inr order \<Rightarrow> distinct order \<and> set order = set (map fst sets) \<and> depsBefore deps order
        \<and> (\<forall>x \<in> set order. (x, x) \<notin> (depRel deps)\<^sup>+)
    | Inl e \<Rightarrow> \<exists>y. e = CircularRef y \<and> (y, y) \<in> (depRel deps)\<^sup>+"
proof (cases "topologicalSort sets deps")
  case (Inr order)
  with topologicalSort_result [OF assms] depsBefore_acyclic [of deps order] show ?thesis by simp blast
qed (use topologicalSort_result [OF assms] in simp)

section \<open>What validation returns\<close>

lemma expand_mono:
  "expand refs node = Inr r \<Longrightarrow> refs \<subseteq>\<^sub>m refs' \<Longrightarrow> expand refs' node = Inr r"
  "expandOr refs cs acc = Inr r \<Longrightarrow> refs \<subseteq>\<^sub>m refs' \<Longrightarrow> expandOr refs' cs acc = Inr r"
  "expandAnd refs cs acc = Inr r \<Longrightarrow> refs \<subseteq>\<^sub>m refs' \<Longrightarrow> expandAnd refs' cs acc = Inr r"
proof (induction refs node and refs cs acc and refs cs acc arbitrary: r and r and r rule: expand_expandOr_expandAnd.induct)
  case (2 refs name)
  then show ?case by (auto simp: map_le_def dom_def split: option.splits)
next
  case (6 refs c cs result)
  then obtain x where x: "expand refs c = Inr x" "expandOr refs cs (result @ x) = Inr r" "\<not> maxDSLExpansions < length (result @ x)"
    by (auto split: sum.splits if_splits)
  from "6.IH"(1) [OF x(1) "6.prems"(2)] "6.IH"(2) [OF x(1,3,2) "6.prems"(2)] x(3) show ?case by simp
next
  case (8 refs c cs result)
  then obtain x p where x: "expand refs c = Inr x" "cartesianProduct result x maxDSLExpansions = Inr p" "expandAnd refs cs p = Inr r"
    by (auto split: sum.splits)
  from "8.IH"(1) [OF x(1) "8.prems"(2)] "8.IH"(2) [OF x "8.prems"(2)] x(2) show ?case by simp
qed auto

lemma parseAndExpandDSL_mono:
  "parseAndExpandDSL dsl refs = Inr r \<Longrightarrow> refs \<subseteq>\<^sub>m refs' \<Longrightarrow> parseAndExpandDSL dsl refs' = Inr r"
  by (auto simp: parseAndExpandDSL_def Let_def dest: expand_mono(1) split: if_splits sum.splits)

lemma map_of_snd: "map_of vs k = Some v \<Longrightarrow> v \<in> snd ` set vs"
  using map_of_SomeD by (metis image_eqI snd_conv)

lemma resolveCombo_Inr:
  "resolveCombo name vars xs = Inr rs \<Longrightarrow> set rs = (the \<circ> map_of vars) ` set xs \<and> (\<forall>r \<in> set rs. r \<in> snd ` set vars)"
proof (induction xs arbitrary: rs)
  case (Cons x xs)
  then obtain y ys where "map_of vars x = Some y" "resolveCombo name vars xs = Inr ys" "rs = y # ys"
    by (auto split: option.splits sum.splits)
  with Cons.IH map_of_snd [of vars x y] show ?case by simp
qed simp

lemma resolveCombos_Inr:
  "resolveCombos name dsl vars cs = Inr es \<Longrightarrow> length es = length cs
     \<and> (\<forall>e \<in> set es. es_name e = name \<and> sorted (es_models e) \<and> set (es_models e) \<subseteq> snd ` set vars)
     \<and> (\<lambda>e. set (es_models e)) ` set es = (\<lambda>S. (the \<circ> map_of vars) ` S) ` setsOf cs"
proof (induction cs arbitrary: es)
  case (Cons c cs)
  then obtain rs es1 where r: "resolveCombo name vars c = Inr rs" "resolveCombos name dsl vars cs = Inr es1"
    "es = \<lparr>es_name = name, es_dsl = dsl, es_models = sort rs\<rparr> # es1" by (auto split: sum.splits)
  from resolveCombo_Inr [OF r(1)] Cons.IH [OF r(2)] show ?case by (auto simp: r(3) setsOf_def)
qed (simp add: setsOf_def)

lemma expandSets_Inr:
  assumes "expandSets setDSL vars names refs acc tot = Inr out" "distinct names" "set names \<inter> dom refs = {}"
  shows "\<exists>R f. refs \<subseteq>\<^sub>m R \<and> out = acc @ concat (map f names)
    \<and> (\<forall>n \<in> set names. parseAndExpandDSL (setDSL n) R = Inr (the (R n)) \<and> n \<in> dom R
         \<and> resolveCombos n (setDSL n) vars (the (R n)) = Inr (f n))
    \<and> (names \<noteq> [] \<longrightarrow> tot + length (concat (map f names)) \<le> maxDSLExpansions)"
  using assms
proof (induction names arbitrary: refs acc tot)
  case Nil
  then show ?case by (intro exI [of _ refs]) auto
next
  case (Cons n ns)
  from Cons.prems(1) obtain combos es where c: "parseAndExpandDSL (setDSL n) refs = Inr combos"
    "resolveCombos n (setDSL n) vars combos = Inr es" "\<not> maxDSLExpansions < tot + length combos"
    "expandSets setDSL vars ns (refs(n \<mapsto> combos)) (acc @ es) (tot + length combos) = Inr out"
    by (auto simp: Let_def split: sum.splits if_splits)
  have "set ns \<inter> dom (refs(n \<mapsto> combos)) = {}" "distinct ns" using Cons.prems by auto
  from Cons.IH [OF c(4) this(2,1)] obtain R f where R: "refs(n \<mapsto> combos) \<subseteq>\<^sub>m R" "out = (acc @ es) @ concat (map f ns)"
    "\<forall>n \<in> set ns. parseAndExpandDSL (setDSL n) R = Inr (the (R n)) \<and> n \<in> dom R
         \<and> resolveCombos n (setDSL n) vars (the (R n)) = Inr (f n)"
    "ns \<noteq> [] \<longrightarrow> tot + length combos + length (concat (map f ns)) \<le> maxDSLExpansions" by blast
  have Rn: "R n = Some combos" using R(1) by (force simp: map_le_def)
  have le: "refs \<subseteq>\<^sub>m R" using R(1) Cons.prems(3) by (auto simp: map_le_def dom_def split: if_splits)
  define g where "g = f(n := es)"
  have g: "map g ns = map f ns" using Cons.prems(2) by (auto simp: g_def)
  then have cg: "concat (map g ns) = concat (map f ns)" by (rule arg_cong)
  have len: "length es = length combos" using resolveCombos_Inr [OF c(2)] by simp
  show ?case
  proof (intro exI conjI)
    show "refs \<subseteq>\<^sub>m R" by (rule le)
    have "g n = es" by (simp add: g_def)
    then show "out = acc @ concat (map g (n # ns))" using R(2) cg by simp
    show "\<forall>n' \<in> set (n # ns). parseAndExpandDSL (setDSL n') R = Inr (the (R n')) \<and> n' \<in> dom R
         \<and> resolveCombos n' (setDSL n') vars (the (R n')) = Inr (g n')"
      using R(3) c(2) Rn parseAndExpandDSL_mono [OF c(1) le] Cons.prems(2) by (auto simp: g_def)
    show "n # ns \<noteq> [] \<longrightarrow> tot + length (concat (map g (n # ns))) \<le> maxDSLExpansions"
      using R(4) c(3) cg len by (cases ns) (simp_all add: g_def)
  qed
qed

lemma checkVars_None: "checkVars known vs = None \<Longrightarrow> x \<in> snd ` set vs \<Longrightarrow> known x"
  by (induction known vs rule: checkVars.induct) (auto split: if_splits)

lemma buildDeps_closed:
  "buildDeps names sets deps = Inr deps' \<Longrightarrow> \<forall>x. set (deps x) \<subseteq> set names \<Longrightarrow> \<forall>x. set (deps' x) \<subseteq> set names"
proof (induction sets arbitrary: deps)
  case (Cons s sets)
  obtain n d where s: "s = (n, d)" by (cases s)
  from Cons.prems(1) obtain refs where r: "find (\<lambda>r. r \<notin> set names) refs = None" "buildDeps names sets (deps(n := refs)) = Inr deps'"
    by (auto simp: s split: sum.splits option.splits)
  from r(1) have "set refs \<subseteq> set names" by (auto simp: find_None_iff)
  with Cons.prems(2) Cons.IH [OF r(2)] show ?case by simp
qed auto

text \<open>
  C37. A validated matrix gives at most 1000 sets of configured models, each sorted. They are
  what the expressions mean: there is an assignment of set names to sets of var-id sets that solves
  the system of all the expressions (a reference standing for the assignment of its name), and the
  sets returned under a name are the images of its assignment under the vars.
\<close>

theorem validate_matrix_meaning:
  assumes "validateMatrix m known = Inr out"
  shows "length out \<le> 1000 \<and> (\<forall>e \<in> set out. sorted (es_models e) \<and> (\<forall>x \<in> set (es_models e). known x))
    \<and> (\<exists>D. \<forall>n \<in> set (map fst (mc_sets m)).
         (\<exists>tree. dslTree (setDSLOf (mc_sets m) n) = Some tree \<and> D n = denotes D tree)
         \<and> {set (es_models e) |e. e \<in> set out \<and> es_name e = n} = (\<lambda>S. (the \<circ> map_of (mc_vars m)) ` S) ` D n)"
proof -
  let ?setDSL = "setDSLOf (mc_sets m)" and ?names = "map fst (mc_sets m)"
  from assms obtain deps order where v: "mc_sets m \<noteq> []" "checkVars known (mc_vars m) = None"
    "buildDeps ?names (mc_sets m) (\<lambda>_. []) = Inr deps" "topologicalSort (mc_sets m) deps = Inr order"
    "expandSets ?setDSL (mc_vars m) order Map.empty [] 0 = Inr out"
    by (auto simp: validateMatrix_def split: if_splits option.splits sum.splits)
  have "\<forall>x \<in> set ?names. set (deps x) \<subseteq> set ?names" using buildDeps_closed [OF v(3)] by simp
  from topologicalSort_result [OF this] v(4) have order: "distinct order" "set order = set ?names" by simp_all
  from expandSets_Inr [OF v(5) order(1)] obtain R f where R: "out = concat (map f order)"
    "\<forall>n \<in> set order. parseAndExpandDSL (?setDSL n) R = Inr (the (R n)) \<and> n \<in> dom R
         \<and> resolveCombos n (?setDSL n) (mc_vars m) (the (R n)) = Inr (f n)"
    "order \<noteq> [] \<longrightarrow> length (concat (map f order)) \<le> maxDSLExpansions" by auto
  have "order \<noteq> []" using order(2) v(1) by (metis empty_set list.map_disc_iff set_empty)
  have known: "X \<subseteq> snd ` set (mc_vars m) \<Longrightarrow> \<forall>x \<in> X. known x" for X using checkVars_None [OF v(2)] by blast
  note RC = resolveCombos_Inr
  have each: "(\<forall>e \<in> set (f n). es_name e = n \<and> sorted (es_models e) \<and> set (es_models e) \<subseteq> snd ` set (mc_vars m))
    \<and> (\<lambda>e. set (es_models e)) ` set (f n) = (\<lambda>S. (the \<circ> map_of (mc_vars m)) ` S) ` refSets R n
    \<and> (\<exists>tree. dslTree (?setDSL n) = Some tree \<and> refSets R n = denotes (refSets R) tree)" if n: "n \<in> set order" for n
  proof -
    from R(2) n have a: "parseAndExpandDSL (?setDSL n) R = Inr (the (R n))" "n \<in> dom R"
      "resolveCombos n (?setDSL n) (mc_vars m) (the (R n)) = Inr (f n)" by blast+
    from a(2) have "refSets R n = setsOf (the (R n))" by (auto simp: refSets_def)
    with RC [OF a(3)] parseAndExpandDSL_Inr(1) [OF a(1)] show ?thesis by simp
  qed
  have "{set (es_models e) |e. e \<in> set out \<and> es_name e = n} = (\<lambda>e. set (es_models e)) ` set (f n)" if n: "n \<in> set order" for n
  proof -
    have "{e \<in> set out. es_name e = n} = set (f n)" using each n by (auto simp: R(1))
    then show ?thesis by blast
  qed
  with each order(2) have "\<forall>n \<in> set ?names. (\<exists>tree. dslTree (?setDSL n) = Some tree \<and> refSets R n = denotes (refSets R) tree)
    \<and> {set (es_models e) |e. e \<in> set out \<and> es_name e = n} = (\<lambda>S. (the \<circ> map_of (mc_vars m)) ` S) ` refSets R n"
    by simp
  moreover have "\<forall>e \<in> set out. sorted (es_models e) \<and> (\<forall>x \<in> set (es_models e). known x)"
    using each known unfolding R(1) by fastforce
  moreover have "length out \<le> 1000" using R(1,3) \<open>order \<noteq> []\<close> by (simp add: maxDSLExpansions_def)
  ultimately show ?thesis by blast
qed

section \<open>A concrete matrix\<close>

definition demoMatrix :: matrix_config where
  "demoMatrix = \<lparr>mc_vars = [(''l'', ''llama''), (''q'', ''qwen''), (''b'', ''bge'')], mc_evictCosts = [(''l'', 3)],
     mc_sets = [(''big'', ''+small & q''), (''small'', ''l | b'')]\<rparr>"

definition demoKnown :: "string \<Rightarrow> bool" where
  "demoKnown x = (x \<in> {''llama'', ''qwen'', ''bge''})"

lemma demoMatrix_valid:
  "validateMatrix demoMatrix demoKnown = Inr
     (map (\<lambda>ms. \<lparr>es_name = ''small'', es_dsl = ''l | b'', es_models = ms\<rparr>) [[''llama''], [''bge'']]
    @ map (\<lambda>ms. \<lparr>es_name = ''big'', es_dsl = ''+small & q'', es_models = ms\<rparr>) [[''llama'', ''qwen''], [''bge'', ''qwen'']])"
  by code_simp

theorem validate_matrix_meaning_witness:
  "\<exists>D tree. dslTree ''l | b'' = Some tree \<and> D ''small'' = denotes D tree
     \<and> {{''llama''}, {''bge''}} = (\<lambda>S. (the \<circ> map_of (mc_vars demoMatrix)) ` S) ` D ''small''"
proof -
  have n: "''small'' \<in> set (map fst (mc_sets demoMatrix))" "setDSLOf (mc_sets demoMatrix) ''small'' = ''l | b''"
    by (simp_all add: demoMatrix_def setDSLOf_def)
  obtain out where out: "validateMatrix demoMatrix demoKnown = Inr out"
    "out = map (\<lambda>ms. \<lparr>es_name = ''small'', es_dsl = ''l | b'', es_models = ms\<rparr>) [[''llama''], [''bge'']]
      @ map (\<lambda>ms. \<lparr>es_name = ''big'', es_dsl = ''+small & q'', es_models = ms\<rparr>) [[''llama'', ''qwen''], [''bge'', ''qwen'']]"
    using demoMatrix_valid by blast
  have models: "{set (es_models e) |e. e \<in> set out \<and> es_name e = ''small''} = {{''llama''}, {''bge''}}"
  proof -
    have "{set (es_models e) |e. e \<in> set out \<and> es_name e = ''small''}
        = (\<lambda>e. set (es_models e)) ` set (filter (\<lambda>e. es_name e = ''small'') out)" by auto
    then show ?thesis by (simp add: out(2))
  qed
  from validate_matrix_meaning [OF out(1), THEN conjunct2, THEN conjunct2] obtain D where D: "\<forall>n \<in> set (map fst (mc_sets demoMatrix)).
      (\<exists>tree. dslTree (setDSLOf (mc_sets demoMatrix) n) = Some tree \<and> D n = denotes D tree)
      \<and> {set (es_models e) |e. e \<in> set out \<and> es_name e = n} = (\<lambda>S. (the \<circ> map_of (mc_vars demoMatrix)) ` S) ` D n" ..
  note two = D [THEN bspec, OF n(1), unfolded n(2) models]
  from two [THEN conjunct1] two [THEN conjunct2] show ?thesis by (elim exE conjE) (rule exI [of _ D], rule exI, intro conjI)
qed

theorem topological_sort_correct_witness:
  "\<exists>order. topologicalSort [(''big'', []), (''small'', [])] (\<lambda>x. if x = ''big'' then [''small''] else []) = Inr order
     \<and> depsBefore (\<lambda>x. if x = ''big'' then [''small''] else []) order"
proof -
  let ?s = "[(''big'', []), (''small'', [])]" and ?d = "\<lambda>x. if x = ''big'' then [''small''] else []"
  have "\<forall>x \<in> set (map fst ?s). set (?d x) \<subseteq> set (map fst ?s)" by simp
  moreover have "topologicalSort ?s ?d = Inr [''small'', ''big'']" by code_simp
  ultimately show ?thesis using topological_sort_correct [of ?s ?d] by simp
qed

end
