(* ===== verification/Swap_Planner.thy ===== *)
theory Swap_Planner
  imports Matrix_Config
begin

text \<open>
  Which running models must stop before another can be served: the solver behind the swap matrix
  (\<open>internal/router/matrix_solver.go\<close>), the matrix planner (\<open>matrix.go\<close>) and the group planner
  (\<open>group.go\<close>), against the planner interface of \<open>base.go\<close>.

  The processes a planner sees are an association list from model to process state, in one
  iteration order of Go's map.
\<close>

section \<open>Process states\<close>

datatype process_state = StateStopped | StateStarting | StateReady | StateStopping | StateShutdown | StateFailed

definition startableFrom :: "process_state \<Rightarrow> bool" where
  "startableFrom s = (s = StateStopped \<or> s = StateFailed)"

definition isLive :: "process_state \<Rightarrow> bool" where
  "isLive st = (\<not> (st = StateStopped \<or> st = StateShutdown \<or> st = StateFailed))"

type_synonym processes = "(string \<times> process_state) list"

section \<open>The matrix solver\<close>

record matrix_solver =
  ms_expandedSets :: "expanded_set list"
  ms_evictCosts :: "string \<rightharpoonup> int"
  ms_modelToSets :: "string \<Rightarrow> nat list"

text \<open>A set that names a model twice is indexed twice under it.\<close>

fun indexSets :: "nat \<Rightarrow> expanded_set list \<Rightarrow> (string \<Rightarrow> nat list) \<Rightarrow> string \<Rightarrow> nat list" where
  "indexSets i [] m = m"
| "indexSets i (es # rest) m =
     indexSets (Suc i) rest (foldl (\<lambda>m model. m(model := m model @ [i])) m (es_models es))"

definition newMatrixSolver :: "expanded_set list \<Rightarrow> (string \<rightharpoonup> int) \<Rightarrow> matrix_solver" where
  "newMatrixSolver sets costs =
     \<lparr>ms_expandedSets = sets, ms_evictCosts = costs, ms_modelToSets = indexSets 0 sets (\<lambda>_. [])\<rparr>"

record solve_result =
  sr_evict :: "string list"
  sr_targetSet :: "string list"
  sr_setName :: string
  sr_dsl :: string
  sr_totalCost :: int

definition evictCost :: "matrix_solver \<Rightarrow> string \<Rightarrow> int" where
  "evictCost s model = (case ms_evictCosts s model of Some c \<Rightarrow> c | None \<Rightarrow> 1)"

fun matchLoop :: "expanded_set list \<Rightarrow> nat list \<Rightarrow> string list \<Rightarrow> string \<times> string" where
  "matchLoop sets [] running = ([], [])"
| "matchLoop sets (i # is) running =
     (if list_all (\<lambda>m. m \<in> set (es_models (sets ! i))) running
      then (es_name (sets ! i), es_dsl (sets ! i))
      else matchLoop sets is running)"

definition findMatchingSet :: "matrix_solver \<Rightarrow> string \<Rightarrow> string list \<Rightarrow> string \<times> string" where
  "findMatchingSet s requested running = matchLoop (ms_expandedSets s) (ms_modelToSets s requested) running"

definition setCost :: "matrix_solver \<Rightarrow> string list \<Rightarrow> nat \<Rightarrow> int" where
  "setCost s running i =
     foldl (\<lambda>cost r. if r \<notin> set (es_models (ms_expandedSets s ! i)) then cost + evictCost s r else cost) 0 running"

text \<open>The candidate loop; \<open>None\<close> is the code's pair of \<open>-1\<close>.\<close>

fun bestSet :: "matrix_solver \<Rightarrow> string list \<Rightarrow> nat list \<Rightarrow> (int \<times> nat) option \<Rightarrow> (int \<times> nat) option" where
  "bestSet s running [] best = best"
| "bestSet s running (i # is) best =
     (let cost = setCost s running i in
      bestSet s running is
        (case best of
           None \<Rightarrow> Some (cost, i)
         | Some (bc, bi) \<Rightarrow> if bc < 0 \<or> cost < bc \<or> (cost = bc \<and> i < bi) then Some (cost, i) else best))"

definition solve :: "matrix_solver \<Rightarrow> string \<Rightarrow> string list \<Rightarrow> solve_result" where
  "solve s requested running =
     (if requested \<in> set running
      then (case findMatchingSet s requested running of (n, d) \<Rightarrow>
              \<lparr>sr_evict = [], sr_targetSet = running, sr_setName = n, sr_dsl = d, sr_totalCost = 0\<rparr>)
      else case bestSet s running (ms_modelToSets s requested) None of
        None \<Rightarrow> \<lparr>sr_evict = running, sr_targetSet = [requested], sr_setName = [], sr_dsl = [], sr_totalCost = 0\<rparr>
      | Some (cost, i) \<Rightarrow>
          let chosen = ms_expandedSets s ! i in
          \<lparr>sr_evict = filter (\<lambda>r. r \<notin> set (es_models chosen)) running, sr_targetSet = es_models chosen,
           sr_setName = es_name chosen, sr_dsl = es_dsl chosen, sr_totalCost = cost\<rparr>)"

section \<open>The planners\<close>

definition runningSet :: "processes \<Rightarrow> string list \<Rightarrow> string list" where
  "runningSet procs alsoRunning =
     (let live = map fst (filter (\<lambda>(k, st). isLive st) procs)
      in sort (live @ dedup live alsoRunning))"

definition matrixEvictionFor :: "matrix_solver \<Rightarrow> processes \<Rightarrow> string \<Rightarrow> string list \<Rightarrow> string list" where
  "matrixEvictionFor s procs target alsoRunning = sr_evict (solve s target (runningSet procs alsoRunning))"

record group_config =
  gc_swap :: bool
  gc_exclusive :: bool
  gc_persistent :: bool
  gc_members :: "string list"

record group_planner =
  gp_groups :: "string \<rightharpoonup> group_config"
  gp_modelToGroup :: "string \<rightharpoonup> string"

text \<open>The zero values of Go's map reads.\<close>

definition groupCfg :: "group_planner \<Rightarrow> string \<Rightarrow> group_config" where
  "groupCfg p g = (case gp_groups p g of Some c \<Rightarrow> c
     | None \<Rightarrow> \<lparr>gc_swap = False, gc_exclusive = False, gc_persistent = False, gc_members = []\<rparr>)"

definition groupOf :: "group_planner \<Rightarrow> string \<Rightarrow> string" where
  "groupOf p m = (case gp_modelToGroup p m of Some g \<Rightarrow> g | None \<Rightarrow> [])"

fun assignMembers :: "string \<Rightarrow> string list \<Rightarrow> (string \<rightharpoonup> string) \<Rightarrow> (string \<times> string \<times> string) + (string \<rightharpoonup> string)" where
  "assignMembers g [] m = Inr m"
| "assignMembers g (mid # mids) m =
     (case m mid of
        Some existing \<Rightarrow> Inl (mid, existing, g)
      | None \<Rightarrow> assignMembers g mids (m(mid \<mapsto> g)))"

fun buildModelToGroup :: "(string \<times> group_config) list \<Rightarrow> (string \<rightharpoonup> string) \<Rightarrow> (string \<times> string \<times> string) + (string \<rightharpoonup> string)" where
  "buildModelToGroup [] m = Inr m"
| "buildModelToGroup ((g, c) # gs) m =
     (case assignMembers g (gc_members c) m of Inl e \<Rightarrow> Inl e | Inr m' \<Rightarrow> buildModelToGroup gs m')"

definition newGroupPlanner :: "(string \<times> group_config) list \<Rightarrow> (string \<times> string \<times> string) + group_planner" where
  "newGroupPlanner groups =
     (case buildModelToGroup groups Map.empty of
        Inl e \<Rightarrow> Inl e
      | Inr m \<Rightarrow> Inr \<lparr>gp_groups = map_of groups, gp_modelToGroup = m\<rparr>)"

definition mustStop :: "group_planner \<Rightarrow> string \<Rightarrow> string \<Rightarrow> bool" where
  "mustStop p target m =
     (let tg = groupOf p target; og = groupOf p m in
      if og = tg then gc_swap (groupCfg p tg)
      else gc_exclusive (groupCfg p tg) \<and> \<not> gc_persistent (groupCfg p og))"

text \<open>\<open>consider\<close>: the result so far is also the set of what has been seen.\<close>

definition considerModel :: "group_planner \<Rightarrow> string \<Rightarrow> string list \<Rightarrow> string \<Rightarrow> string list" where
  "considerModel p target result m =
     (if m = target then result
      else if m \<in> set result then result
      else if mustStop p target m then result @ [m]
      else result)"

definition groupEvictionFor :: "group_planner \<Rightarrow> processes \<Rightarrow> string \<Rightarrow> string list \<Rightarrow> string list" where
  "groupEvictionFor p procs target alsoRunning =
     foldl (considerModel p target) (foldl (considerModel p target) [] (map fst (filter (\<lambda>(k, st). isLive st) procs))) alsoRunning"

section \<open>The solver picks a cheapest set\<close>

lemma indexModels: "set (foldl (\<lambda>m model. m(model := m model @ [i])) m models x) = set (m x) \<union> (if x \<in> set models then {i} else {})"
  by (induction models arbitrary: m) auto

lemma indexSets_set:
  "set (indexSets i sets m x) = set (m x) \<union> {i + j |j. j < length sets \<and> x \<in> set (es_models (sets ! j))}"
proof (induction sets arbitrary: i m)
  case (Cons es rest)
  have "{i + j |j. j < length (es # rest) \<and> x \<in> set (es_models ((es # rest) ! j))}
      = (if x \<in> set (es_models es) then {i} else {}) \<union> {Suc i + j |j. j < length rest \<and> x \<in> set (es_models (rest ! j))}"
    (is "?L = ?R")
  proof (rule set_eqI)
    fix k show "k \<in> ?L \<longleftrightarrow> k \<in> ?R"
    proof
      assume "k \<in> ?L"
      then obtain j where "k = i + j" "j < length (es # rest)" "x \<in> set (es_models ((es # rest) ! j))" by blast
      then show "k \<in> ?R" by (cases j) auto
    next
      assume "k \<in> ?R"
      then consider "k = i" "x \<in> set (es_models es)"
        | j where "k = Suc i + j" "j < length rest" "x \<in> set (es_models (rest ! j))" by (auto split: if_splits)
      then show "k \<in> ?L"
      proof cases
        case 1
        then show ?thesis by (intro CollectI exI [of _ 0]) simp
      next
        case 2
        then show ?thesis by (intro CollectI exI [of _ "Suc j"]) simp
      qed
    qed
  qed
  then show ?case by (simp add: Cons.IH indexModels Un_assoc)
qed simp

definition candidates :: "expanded_set list \<Rightarrow> string \<Rightarrow> nat set" where
  "candidates sets x = {i. i < length sets \<and> x \<in> set (es_models (sets ! i))}"

lemma modelToSets_set: "set (ms_modelToSets (newMatrixSolver sets costs) x) = candidates sets x"
  by (simp add: newMatrixSolver_def indexSets_set candidates_def)

definition evictionCost :: "matrix_solver \<Rightarrow> string list \<Rightarrow> nat \<Rightarrow> int" where
  "evictionCost s running i =
     sum_list (map (evictCost s) (filter (\<lambda>r. r \<notin> set (es_models (ms_expandedSets s ! i))) running))"

lemma setCost_sum: "setCost s running i = evictionCost s running i"
proof -
  have "foldl (\<lambda>cost r. if r \<notin> set (es_models (ms_expandedSets s ! i)) then cost + evictCost s r else cost) c running
      = c + evictionCost s running i" for c
    by (induction running arbitrary: c) (auto simp: evictionCost_def)
  then show ?thesis by (simp add: setCost_def)
qed

lemma bestSet_least:
  assumes "\<And>i. 0 \<le> setCost s running i"
    and "\<forall>c b. best = Some (c, b) \<longrightarrow> c = setCost s running b"
  shows "bestSet s running is best = r \<Longrightarrow>
     (r = None \<longleftrightarrow> best = None \<and> is = []) \<and>
     (\<forall>c b. r = Some (c, b) \<longrightarrow> c = setCost s running b \<and> b \<in> set is \<union> snd ` set_option best
        \<and> (\<forall>j \<in> set is \<union> snd ` set_option best. c < setCost s running j \<or> c = setCost s running j \<and> b \<le> j))"
  using assms(2)
proof (induction "is" arbitrary: best)
  case Nil
  then show ?case by auto
next
  case (Cons i "is")
  have nonneg: "\<not> setCost s running i < 0" for i using assms(1) [of i] by simp
  define cost where "cost = setCost s running i"
  define best1 where "best1 = (case best of None \<Rightarrow> Some (cost, i)
     | Some (bc, bi) \<Rightarrow> if bc < 0 \<or> cost < bc \<or> (cost = bc \<and> i < bi) then Some (cost, i) else best)"
  have b1: "bestSet s running is best1 = r" using Cons.prems(1) unfolding best1_def cost_def by (simp only: bestSet.simps Let_def)
  have inv: "\<forall>c b. best1 = Some (c, b) \<longrightarrow> c = setCost s running b"
    using Cons.prems(2) by (auto simp: best1_def cost_def split: option.splits if_splits)
  have "best1 \<noteq> None" by (auto simp: best1_def split: option.split)
  then obtain c1 i1 where b1s: "best1 = Some (c1, i1)" by auto
  have least: "i1 \<in> insert i (snd ` set_option best)"
    "\<And>j. j \<in> insert i (snd ` set_option best) \<Longrightarrow> c1 < setCost s running j \<or> c1 = setCost s running j \<and> i1 \<le> j"
    using b1s Cons.prems(2)
    by (auto simp: best1_def cost_def nonneg not_less split: option.splits if_splits)
  note IH = Cons.IH [OF b1 inv]
  from IH b1s have ne: "r \<noteq> None" by simp
  have "c = setCost s running b \<and> b \<in> set (i # is) \<union> snd ` set_option best
        \<and> (\<forall>j \<in> set (i # is) \<union> snd ` set_option best. c < setCost s running j \<or> c = setCost s running j \<and> b \<le> j)"
    if r: "r = Some (c, b)" for c b
  proof -
    have sing: "snd ` set_option best1 = {i1}" using b1s by simp
    from IH [THEN conjunct2, THEN spec, THEN spec, THEN mp, OF r] have I: "c = setCost s running b" "b \<in> set is \<union> {i1}"
      "\<forall>j \<in> set is \<union> {i1}. c < setCost s running j \<or> c = setCost s running j \<and> b \<le> j"
      unfolding sing by blast+
    have "c < setCost s running j \<or> c = setCost s running j \<and> b \<le> j" if j: "j \<in> insert i (snd ` set_option best)" for j
    proof -
      have "c < setCost s running i1 \<or> c = setCost s running i1 \<and> b \<le> i1" using I(3) by blast
      moreover have "c1 = setCost s running i1" using inv b1s by simp
      ultimately show ?thesis using least(2) [OF j] by auto
    qed
    with I least(1) show ?thesis by auto
  qed
  with ne show ?case by simp
qed



section \<open>What a swap leaves running\<close>

text \<open>
  The contract of a planner, as \<open>base.go\<close> relies on it: it never evicts the model it was asked
  about, and only evicts what runs or is committed to run.
\<close>

definition liveModels :: "processes \<Rightarrow> string list" where
  "liveModels procs = map fst (filter (\<lambda>(k, st). isLive st) procs)"

locale swap_planner =
  fixes evict :: "processes \<Rightarrow> string \<Rightarrow> string list \<Rightarrow> string list"
  assumes target_kept: "target \<notin> set (evict procs target alsoRunning)"
    and evicts_live: "m \<in> set (evict procs target alsoRunning) \<Longrightarrow> m \<in> set (liveModels procs) \<union> set alsoRunning"

text \<open>Completing the swap a planner asks for, one request after the other.\<close>

definition serveModel :: "(processes \<Rightarrow> string \<Rightarrow> string list \<Rightarrow> string list) \<Rightarrow> string list \<Rightarrow> string \<Rightarrow> string list" where
  "serveModel evict running target =
     (let ev = evict (map (\<lambda>m. (m, StateReady)) running) target [];
          rest = filter (\<lambda>m. m \<notin> set ev) running
      in if target \<in> set rest then rest else rest @ [target])"

lemma liveModels_ready [simp]: "liveModels (map (\<lambda>m. (m, StateReady)) running) = running"
  by (induction running) (auto simp: liveModels_def isLive_def)

locale compatible_planner = swap_planner +
  fixes ok :: "string set \<Rightarrow> bool"
  assumes ok_after_swap: "ok (set (liveModels procs)) \<Longrightarrow>
    ok (insert target (set (liveModels procs) - set (evict procs target [])))"
begin

lemma serve_ok: "ok (set running) \<Longrightarrow> ok (set (serveModel evict running target))"
  using ok_after_swap [of "map (\<lambda>m. (m, StateReady)) running" target]
  by (auto simp: serveModel_def Let_def set_diff_eq insert_absorb split: if_splits)

lemma serve_target: "target \<in> set (serveModel evict running target)"
  by (simp add: serveModel_def Let_def)

lemma serve_distinct: "distinct running \<Longrightarrow> distinct (serveModel evict running target)"
  by (simp add: serveModel_def Let_def)

lemma serve_all_ok: "ok (set running) \<Longrightarrow> ok (set (foldl (serveModel evict) running targets))"
  by (induction targets arbitrary: running) (simp_all add: serve_ok)

end

lemma foldl_considerModel:
  "set (foldl (considerModel p target) res ms) = set res \<union> {m \<in> set ms. m \<noteq> target \<and> mustStop p target m}"
  by (induction ms arbitrary: res) (auto simp: considerModel_def)

lemma groupEvictionFor_set:
  "set (groupEvictionFor p procs target alsoRunning)
   = {m \<in> set (liveModels procs) \<union> set alsoRunning. m \<noteq> target \<and> mustStop p target m}"
  by (auto simp: groupEvictionFor_def foldl_considerModel liveModels_def)

lemma runningSet_set: "set (runningSet procs alsoRunning) = set (liveModels procs) \<union> set alsoRunning"
  by (auto simp: runningSet_def liveModels_def Let_def set_dedup)

subsection \<open>The matrix planner\<close>

definition matrixOk :: "expanded_set list \<Rightarrow> string set \<Rightarrow> bool" where
  "matrixOk sets R = ((\<exists>m. R \<subseteq> {m}) \<or> (\<exists>es \<in> set sets. R \<subseteq> set (es_models es)))"

lemma bestSet_mem:
  "bestSet s running is best = r \<Longrightarrow> (r = None \<longrightarrow> best = None \<and> is = [])
     \<and> (\<forall>c b. r = Some (c, b) \<longrightarrow> b \<in> set is \<or> best = Some (c, b))"
proof (induction "is" arbitrary: best)
  case (Cons i "is")
  define best1 where "best1 = (case best of None \<Rightarrow> Some (setCost s running i, i)
     | Some (bc, bi) \<Rightarrow> if bc < 0 \<or> setCost s running i < bc \<or> (setCost s running i = bc \<and> i < bi)
         then Some (setCost s running i, i) else best)"
  have "bestSet s running is best1 = r" using Cons.prems unfolding best1_def by (simp only: bestSet.simps Let_def)
  note IH = Cons.IH [OF this]
  have "best1 \<noteq> None" "\<And>c b. best1 = Some (c, b) \<Longrightarrow> b = i \<or> best = Some (c, b)"
    by (auto simp: best1_def split: option.splits if_splits)
  with IH show ?case by auto
qed simp

lemma matrix_cases:
  assumes "s = newMatrixSolver sets costs"
  obtains "target \<in> set (runningSet procs alsoRunning)" "matrixEvictionFor s procs target alsoRunning = []"
  | "matrixEvictionFor s procs target alsoRunning = runningSet procs alsoRunning" "target \<notin> set (runningSet procs alsoRunning)"
  | es where "es \<in> set sets" "target \<in> set (es_models es)" "target \<notin> set (runningSet procs alsoRunning)"
      "matrixEvictionFor s procs target alsoRunning = filter (\<lambda>r. r \<notin> set (es_models es)) (runningSet procs alsoRunning)"
proof -
  let ?R = "runningSet procs alsoRunning" let ?b = "bestSet s ?R (ms_modelToSets s target) None"
  have sets: "ms_expandedSets s = sets" using assms by (simp add: newMatrixSolver_def)
  have idx: "set (ms_modelToSets s target) = candidates sets target" using assms modelToSets_set by simp
  consider "target \<in> set ?R" | "target \<notin> set ?R" "?b = None" | c i where "target \<notin> set ?R" "?b = Some (c, i)"
    by (cases ?b) auto
  then show thesis
  proof cases
    case 1
    then show ?thesis by (intro that(1)) (simp_all add: matrixEvictionFor_def solve_def split: prod.split)
  next
    case 2
    then show ?thesis by (intro that(2)) (simp_all add: matrixEvictionFor_def solve_def)
  next
    case 3
    from bestSet_mem [OF refl, of s ?R "ms_modelToSets s target" None] 3(2) idx
    have "i \<in> candidates sets target" by simp
    with 3 show ?thesis
      by (intro that(3) [of "sets ! i"]) (simp_all add: candidates_def matrixEvictionFor_def solve_def Let_def sets)
  qed
qed

interpretation matrix: compatible_planner "matrixEvictionFor (newMatrixSolver sets costs)" "matrixOk sets"
  for sets costs
proof
  fix target procs alsoRunning
  show "target \<notin> set (matrixEvictionFor (newMatrixSolver sets costs) procs target alsoRunning)"
    by (cases rule: matrix_cases [OF refl, of target procs alsoRunning sets costs]) auto
next
  fix m target procs alsoRunning
  assume "m \<in> set (matrixEvictionFor (newMatrixSolver sets costs) procs target alsoRunning)"
  then show "m \<in> set (liveModels procs) \<union> set alsoRunning"
    by (cases rule: matrix_cases [OF refl, of target procs alsoRunning sets costs]) (auto simp: runningSet_set)
next
  fix procs target
  assume ok: "matrixOk sets (set (liveModels procs))"
  let ?E = "matrixEvictionFor (newMatrixSolver sets costs) procs target []"
  show "matrixOk sets (insert target (set (liveModels procs) - set ?E))"
  proof (cases rule: matrix_cases [OF refl, of target procs "[]" sets costs])
    case 1
    with ok show ?thesis by (simp add: runningSet_set insert_absorb)
  next
    case 2
    then show ?thesis by (simp add: runningSet_set matrixOk_def)
  next
    case (3 es)
    then show ?thesis by (auto simp: runningSet_set matrixOk_def)
  qed
qed

subsection \<open>The group planner\<close>

definition groupOk :: "group_planner \<Rightarrow> string set \<Rightarrow> bool" where
  "groupOk p R = (\<forall>m \<in> R. \<forall>m' \<in> R. m \<noteq> m' \<and> groupOf p m = groupOf p m' \<longrightarrow> \<not> gc_swap (groupCfg p (groupOf p m)))"

interpretation groups: compatible_planner "groupEvictionFor p" "groupOk p" for p
proof
  fix procs target
  assume "groupOk p (set (liveModels procs))"
  then show "groupOk p (insert target (set (liveModels procs) - set (groupEvictionFor p procs target [])))"
    by (auto simp: groupOk_def groupEvictionFor_set mustStop_def Let_def)
qed (auto simp: groupEvictionFor_set)

lemma assignMembers_Inr:
  "assignMembers g mids m = Inr m' \<Longrightarrow> m' = (\<lambda>x. if x \<in> set mids then Some g else m x)
     \<and> (\<forall>x \<in> set mids. m x = None) \<and> distinct mids"
proof (induction mids arbitrary: m)
  case (Cons mid mids)
  then have n: "m mid = None" and "assignMembers g mids (m(mid \<mapsto> g)) = Inr m'" by (auto split: option.splits)
  note IH = Cons.IH [OF this(2)]
  from IH have "mid \<notin> set mids" by auto
  moreover from this IH have "\<forall>x \<in> set mids. m x = None" by (metis fun_upd_other)
  ultimately show ?case using IH n by (auto simp: fun_eq_iff)
qed auto

lemma buildModelToGroup_Inr:
  "buildModelToGroup groups m = Inr m' \<Longrightarrow>
     (\<forall>(g, c) \<in> set groups. \<forall>x \<in> set (gc_members c). m' x = Some g)
     \<and> (\<forall>x g. m x = Some g \<longrightarrow> m' x = Some g)"
proof (induction groups arbitrary: m)
  case (Cons gc groups)
  obtain g c where gc: "gc = (g, c)" by (cases gc)
  with Cons.prems obtain m1 where m1: "assignMembers g (gc_members c) m = Inr m1"
    and "buildModelToGroup groups m1 = Inr m'" by (auto split: sum.splits)
  note IH = Cons.IH [OF this(2)]
  from assignMembers_Inr [OF m1] have
    "\<forall>x \<in> set (gc_members c). m1 x = Some g" "\<forall>x g. m x = Some g \<longrightarrow> m1 x = Some g" by auto
  with IH gc show ?case by auto
qed simp

text \<open>
  C24. Whatever models are requested, one after the other, the models the matrix router keeps
  running after each completed swap are all members of one set of the matrix, or a single model;
  the model just requested runs.
\<close>

theorem matrix_runs_one_set:
  "let running = foldl (serveModel (matrixEvictionFor (newMatrixSolver sets costs))) [] targets
   in matrixOk sets (set running) \<and> distinct running \<and> (targets = [] \<or> last targets \<in> set running)"
proof -
  let ?serve = "serveModel (matrixEvictionFor (newMatrixSolver sets costs))"
  have "matrixOk sets (set (foldl ?serve [] targets))"
    by (rule matrix.serve_all_ok) (simp add: matrixOk_def)
  moreover have "distinct (foldl ?serve [] targets)"
    by (rule foldl_inv) (simp_all add: matrix.serve_distinct)
  moreover have "targets \<noteq> [] \<Longrightarrow> last targets \<in> set (foldl ?serve [] targets)"
    by (cases targets rule: rev_cases) (simp_all add: matrix.serve_target)
  ultimately show ?thesis by (auto simp: Let_def)
qed

text \<open>
  A group planner is only built when no model belongs to two groups; then, whatever
  models are requested, at most one member of a swapping group runs at a time.
\<close>

theorem swap_group_runs_one:
  assumes "newGroupPlanner groups = Inr p" and "distinct (map fst groups)" and "(g, c) \<in> set groups" and "gc_swap c"
    and "m \<in> set (gc_members c)" and "m' \<in> set (gc_members c)"
    and "{m, m'} \<subseteq> set (foldl (serveModel (groupEvictionFor p)) [] targets)"
  shows "m = m'"
proof -
  from assms(1) have gp: "gp_groups p = map_of groups" and b: "buildModelToGroup groups Map.empty = Inr (gp_modelToGroup p)"
    by (auto simp: newGroupPlanner_def split: sum.splits)
  have cfg: "groupCfg p g = c" using gp assms(2,3) by (simp add: groupCfg_def)
  have "groupOf p m = g" "groupOf p m' = g"
    using buildModelToGroup_Inr [OF b] assms(3,5,6) by (force simp: groupOf_def)+
  moreover have "groupOk p (set (foldl (serveModel (groupEvictionFor p)) [] targets))"
    by (rule groups.serve_all_ok) (simp add: groupOk_def)
  ultimately show ?thesis using assms(4,7) cfg by (auto simp: groupOk_def)
qed

theorem swap_group_runs_one_witness:
  "\<exists>p. newGroupPlanner [(''g'', \<lparr>gc_swap = True, gc_exclusive = True, gc_persistent = False, gc_members = [''a'', ''b'']\<rparr>)] = Inr p
     \<and> \<not> {''a'', ''b''} \<subseteq> set (foldl (serveModel (groupEvictionFor p)) [] [''b'', ''a'', ''b''])"
proof -
  let ?c = "\<lparr>gc_swap = True, gc_exclusive = True, gc_persistent = False, gc_members = [''a'', ''b'']\<rparr>"
  have "\<exists>p. newGroupPlanner [(''g'', ?c)] = Inr p" by (simp add: newGroupPlanner_def)
  then obtain p where p: "newGroupPlanner [(''g'', ?c)] = Inr p" ..
  have "\<not> {''a'', ''b''} \<subseteq> set (foldl (serveModel (groupEvictionFor p)) [] [''b'', ''a'', ''b''])"
    using swap_group_runs_one [OF p, of "''g''" ?c "''a''" "''b''" "[''b'', ''a'', ''b'']"] by auto
  with p show ?thesis by blast
qed

end
