(* ===== verification/Router.thy ===== *)
theory Router
  imports Swap_Planner "HOL-Library.Sublist"
begin

text \<open>
  The request router (\<open>internal/router/base.go\<close>): the state of its run loop (active swaps,
  in-flight counts, queued requests), one definition per handler of the loop, the swap goroutine,
  and the runs of the loop as event lists.

  What the loop reads from outside is an environment indexed by a tick that every read advances:
  \<open>p.State()\<close>, the planner's \<open>EvictionFor\<close>, the clock, and whether a caller is still there to
  receive a response (\<open>grant\<close>). The active swaps are an association list, in one iteration order
  of Go's map. \<open>r_log\<close> records every call of \<open>grant\<close>, \<open>r_spawned\<close> the swap goroutines that have not
  reported yet and \<open>r_stopped\<close> the processes the loop itself stopped.
\<close>

section \<open>The state\<close>

record request =
  rq_id :: nat
  rq_model :: string
  rq_queuedAt :: int

record swap =
  sw_model :: string
  sw_evict :: "string list"
  sw_waiters :: "request list"

datatype swap_error = StopFailed string nat "string list" | NotReady string

datatype response =
    Serve string
  | ErrNoLocalModelFound
  | ErrSessionCapExceeded
  | ErrSwapQueueTimeout string int "string list" int
  | ErrUnloaded
  | ErrShuttingDown
  | ErrSwap swap_error

record router =
  r_active :: "(string \<times> swap) list"
  r_inFlight :: "string \<Rightarrow> int"
  r_queued :: "request list"
  r_pos :: "nat \<rightharpoonup> nat"
  r_log :: "(nat \<times> response \<times> bool) list"
  r_spawned :: "(string \<times> string list) list"
  r_stopped :: "string list"
  r_running :: bool
  r_tick :: nat

record router_env =
  re_processes :: "string list"
  re_state :: "nat \<Rightarrow> string \<Rightarrow> process_state"
  re_evictionFor :: "nat \<Rightarrow> string \<Rightarrow> string list \<Rightarrow> string list"
  re_listening :: "nat \<Rightarrow> nat \<Rightarrow> bool"
  re_now :: "nat \<Rightarrow> int"
  re_concurrencyLimit :: "string \<Rightarrow> int"
  re_swapQueueTimeoutSecs :: int

definition initRouter :: router where
  "initRouter = \<lparr>r_active = [], r_inFlight = (\<lambda>_. 0), r_queued = [], r_pos = Map.empty, r_log = [],
     r_spawned = [], r_stopped = [], r_running = True, r_tick = 0\<rparr>"

definition secondNs :: int where
  "secondNs = 1000000000"

section \<open>Helpers of the handlers\<close>

definition tick :: "router \<Rightarrow> router" where
  "tick s = s\<lparr>r_tick := Suc (r_tick s)\<rparr>"

definition grant :: "router_env \<Rightarrow> request \<Rightarrow> response \<Rightarrow> router \<Rightarrow> bool \<times> router" where
  "grant env req resp s =
     (let ok = re_listening env (r_tick s) (rq_id req)
      in (ok, tick (s\<lparr>r_log := r_log s @ [(rq_id req, resp, ok)]\<rparr>)))"

definition grantHandler :: "router_env \<Rightarrow> request \<Rightarrow> string \<Rightarrow> router \<Rightarrow> router" where
  "grantHandler env req m s =
     (case grant env req (Serve m) s of
        (ok, s') \<Rightarrow> if ok then s'\<lparr>r_inFlight := (r_inFlight s')(m := r_inFlight s' m + 1)\<rparr> else s')"

definition effectiveLimit :: "int \<Rightarrow> int" where
  "effectiveLimit concurrencyLimit = (if concurrencyLimit > 0 then concurrencyLimit else 10)"

definition activeTargets :: "(string \<times> swap) list \<Rightarrow> string \<Rightarrow> string list" where
  "activeTargets active exclude = filter (\<lambda>m. m \<noteq> exclude) (map fst active)"

definition collidesWith :: "string \<Rightarrow> string list \<Rightarrow> (string \<times> swap) list \<Rightarrow> bool" where
  "collidesWith target evict active =
     list_ex (\<lambda>(m, s). m \<noteq> target \<and> (m \<in> set evict \<or> target \<in> set (sw_evict s))) active"

definition conflictsWithInFlight :: "string list \<Rightarrow> (string \<Rightarrow> int) \<Rightarrow> bool" where
  "conflictsWithInFlight evict inFlight = list_ex (\<lambda>m. inFlight m > 0) evict"

definition inFlightFor :: "(string \<Rightarrow> int) \<Rightarrow> string list \<Rightarrow> int" where
  "inFlightFor inFlight models = foldl (\<lambda>n m. n + inFlight m) 0 models"

fun broadcastFrom :: "nat \<Rightarrow> request list \<Rightarrow> (nat \<rightharpoonup> nat) \<Rightarrow> (nat \<rightharpoonup> nat)" where
  "broadcastFrom i [] pos = pos"
| "broadcastFrom i (req # reqs) pos = broadcastFrom (Suc i) reqs (pos(rq_id req \<mapsto> i + 1))"

text \<open>The channel of a request holds one position; a later one replaces it.\<close>

definition broadcastQueuePositions :: "router \<Rightarrow> router" where
  "broadcastQueuePositions s = s\<lparr>r_pos := broadcastFrom 0 (r_queued s) (r_pos s)\<rparr>"

definition startSwap :: "request \<Rightarrow> string list \<Rightarrow> router \<Rightarrow> router" where
  "startSwap req evict s =
     s\<lparr>r_active := r_active s @ [(rq_model req, \<lparr>sw_model = rq_model req, sw_evict = evict, sw_waiters = [req]\<rparr>)],
       r_spawned := r_spawned s @ [(rq_model req, evict)]\<rparr>"

definition joinActive :: "request \<Rightarrow> (string \<times> swap) list \<Rightarrow> (string \<times> swap) list" where
  "joinActive req active =
     map (\<lambda>(m, w). (m, if m = rq_model req then w\<lparr>sw_waiters := sw_waiters w @ [req]\<rparr> else w)) active"

definition joinSwap :: "request \<Rightarrow> router \<Rightarrow> router" where
  "joinSwap req s = s\<lparr>r_active := joinActive req (r_active s)\<rparr>"

definition enqueue :: "router_env \<Rightarrow> request \<Rightarrow> router \<Rightarrow> router" where
  "enqueue env req s =
     broadcastQueuePositions (tick (s\<lparr>r_queued := r_queued s @ [req\<lparr>rq_queuedAt := re_now env (r_tick s)\<rparr>]\<rparr>))"

section \<open>The handlers\<close>

definition handleRequest :: "router_env \<Rightarrow> request \<Rightarrow> router \<Rightarrow> router" where
  "handleRequest env req s =
     (let m = rq_model req in
      if m \<notin> set (re_processes env) then snd (grant env req ErrNoLocalModelFound s)
      else if map_of (r_active s) m \<noteq> None then joinSwap req s
      else
        let evict = re_evictionFor env (r_tick s) m (activeTargets (r_active s) m);
            s1 = tick s;
            ready = (re_state env (r_tick s1) m = StateReady);
            s2 = tick s1;
            free = (evict = [] \<and> \<not> collidesWith m evict (r_active s))
        in if ready \<and> free \<and> r_inFlight s m \<ge> effectiveLimit (re_concurrencyLimit env m)
           then snd (grant env req ErrSessionCapExceeded s2)
           else let ready = (re_state env (r_tick s2) m = StateReady); s3 = tick s2 in
             if ready \<and> free then grantHandler env req m s3
             else if collidesWith m evict (r_active s) then enqueue env req s3
             else if conflictsWithInFlight evict (r_inFlight s) then enqueue env req s3
             else startSwap req evict s3)"

text \<open>One queued request of the drain; the flag says that it stays queued.\<close>

definition drainOne :: "router_env \<Rightarrow> request \<Rightarrow> router \<Rightarrow> bool \<times> router" where
  "drainOne env req s =
     (let m = rq_model req in
      if m \<notin> set (re_processes env) then (False, snd (grant env req ErrNoLocalModelFound s))
      else if map_of (r_active s) m \<noteq> None then (False, joinSwap req s)
      else
        let evict = re_evictionFor env (r_tick s) m (activeTargets (r_active s) m);
            s1 = tick s;
            ready = (re_state env (r_tick s1) m = StateReady);
            s2 = tick s1
        in if ready \<and> evict = [] \<and> \<not> collidesWith m evict (r_active s) then (False, grantHandler env req m s2)
           else if collidesWith m evict (r_active s) then (True, s2)
           else if conflictsWithInFlight evict (r_inFlight s) then (True, s2)
           else (False, startSwap req evict s2))"

fun drainLoop :: "router_env \<Rightarrow> request list \<Rightarrow> request list \<Rightarrow> router \<Rightarrow> request list \<times> router" where
  "drainLoop env [] remaining s = (remaining, s)"
| "drainLoop env (req # pending) remaining s =
     (case drainOne env req s of
        (stays, s') \<Rightarrow> drainLoop env pending (if stays then remaining @ [req] else remaining) s')"

definition drainQueue :: "router_env \<Rightarrow> router \<Rightarrow> router" where
  "drainQueue env s =
     (if r_queued s = [] then s
      else case drainLoop env (r_queued s) [] s of
             (remaining, s') \<Rightarrow> broadcastQueuePositions (s'\<lparr>r_queued := remaining\<rparr>))"

fun grantAll :: "router_env \<Rightarrow> request list \<Rightarrow> response \<Rightarrow> router \<Rightarrow> router" where
  "grantAll env [] resp s = s"
| "grantAll env (w # ws) resp s = grantAll env ws resp (snd (grant env w resp s))"

fun serveAll :: "router_env \<Rightarrow> request list \<Rightarrow> string \<Rightarrow> router \<Rightarrow> router" where
  "serveAll env [] m s = s"
| "serveAll env (w # ws) m s = serveAll env ws m (grantHandler env w m s)"

definition deleteActive :: "string \<Rightarrow> router \<Rightarrow> router" where
  "deleteActive m s = s\<lparr>r_active := filter (\<lambda>(k, w). k \<noteq> m) (r_active s)\<rparr>"

definition handleSwapDone :: "router_env \<Rightarrow> string \<Rightarrow> swap_error option \<Rightarrow> router \<Rightarrow> router" where
  "handleSwapDone env m err s =
     (case map_of (r_active s) m of
        None \<Rightarrow> s
      | Some w \<Rightarrow>
          let s1 = deleteActive m s;
              s2 = (case err of
                      Some e \<Rightarrow> grantAll env (sw_waiters w) (ErrSwap e) s1
                    | None \<Rightarrow> serveAll env (sw_waiters w) m s1)
          in drainQueue env s2)"

definition handleServeDone :: "router_env \<Rightarrow> string \<Rightarrow> router \<Rightarrow> router" where
  "handleServeDone env m s =
     (let n = r_inFlight s m - 1 in
      if n \<le> 0 then drainQueue env (s\<lparr>r_inFlight := (r_inFlight s)(m := 0)\<rparr>)
      else s\<lparr>r_inFlight := (r_inFlight s)(m := n)\<rparr>)"

text \<open>\<open>Duration.Round(time.Second)\<close>, halves away from zero, below the saturation of \<open>int64\<close>.\<close>

definition roundSecond :: "int \<Rightarrow> int" where
  "roundSecond d =
     (let r = \<bar>d\<bar> mod secondNs;
          n = (if r + r < secondNs then \<bar>d\<bar> - r else \<bar>d\<bar> + secondNs - r)
      in if d < 0 then - n else n)"

definition swapQueueTimeoutError :: "string \<Rightarrow> string list \<Rightarrow> int \<Rightarrow> int \<Rightarrow> response" where
  "swapQueueTimeoutError m blockedBy waited blockedInFlight =
     (if blockedBy = [] then ErrSwapQueueTimeout m (roundSecond waited) [] 0
      else ErrSwapQueueTimeout m (roundSecond waited) blockedBy blockedInFlight)"

fun expireLoop :: "router_env \<Rightarrow> int \<Rightarrow> int \<Rightarrow> request list \<Rightarrow> request list \<Rightarrow> router \<Rightarrow> request list \<times> router" where
  "expireLoop env now timeout [] remaining s = (remaining, s)"
| "expireLoop env now timeout (req # pending) remaining s =
     (if now - rq_queuedAt req < timeout then expireLoop env now timeout pending (remaining @ [req]) s
      else
        let m = rq_model req;
            evict = re_evictionFor env (r_tick s) m (activeTargets (r_active s) m);
            err = swapQueueTimeoutError m evict (now - rq_queuedAt req) (inFlightFor (r_inFlight s) evict)
        in expireLoop env now timeout pending remaining (snd (grant env req err (tick s))))"

definition expireStaleQueued :: "router_env \<Rightarrow> int \<Rightarrow> int \<Rightarrow> router \<Rightarrow> router" where
  "expireStaleQueued env now timeout s =
     (if timeout \<le> 0 \<or> r_queued s = [] then s
      else case expireLoop env now timeout (r_queued s) [] s of
             (remaining, s') \<Rightarrow> broadcastQueuePositions (s'\<lparr>r_queued := remaining\<rparr>))"

fun releaseTargets :: "router_env \<Rightarrow> string list \<Rightarrow> router \<Rightarrow> router" where
  "releaseTargets env [] s = s"
| "releaseTargets env (m # ms) s =
     (case map_of (r_active s) m of
        None \<Rightarrow> releaseTargets env ms s
      | Some w \<Rightarrow> releaseTargets env ms (deleteActive m (grantAll env (sw_waiters w) ErrUnloaded s)))"

text \<open>The queue filter of \<open>handleUnload\<close>: the queued requests of unloaded models are answered.\<close>

fun dropLoop :: "router_env \<Rightarrow> string list \<Rightarrow> request list \<Rightarrow> request list \<Rightarrow> router \<Rightarrow> request list \<times> router" where
  "dropLoop env targets [] kept s = (kept, s)"
| "dropLoop env targets (w # ws) kept s =
     (if rq_model w \<in> set targets then dropLoop env targets ws kept (snd (grant env w ErrUnloaded s))
      else dropLoop env targets ws (kept @ [w]) s)"

definition handleUnload :: "router_env \<Rightarrow> string list \<Rightarrow> router \<Rightarrow> router" where
  "handleUnload env targets s =
     (let targetSet = remdups targets;
          s1 = releaseTargets env targetSet s;
          s2 = (case dropLoop env targetSet (r_queued s1) [] s1 of (kept, s') \<Rightarrow> s'\<lparr>r_queued := kept\<rparr>);
          s3 = s2\<lparr>r_stopped := r_stopped s2 @ filter (\<lambda>m. m \<in> set (re_processes env)) targetSet\<rparr>
      in drainQueue env s3)"

definition handleShutdown :: "router_env \<Rightarrow> router \<Rightarrow> router" where
  "handleShutdown env s =
     (let s1 = grantAll env (concat (map (\<lambda>(m, w). sw_waiters w) (r_active s))) ErrShuttingDown s;
          s2 = grantAll env (r_queued s) ErrShuttingDown s1
      in s2\<lparr>r_active := [], r_queued := [], r_stopped := r_stopped s2 @ re_processes env, r_running := False\<rparr>)"

text \<open>\<open>Unload\<close> without models means every process; nothing to unload sends nothing.\<close>

definition unloadTargets :: "router_env \<Rightarrow> string list \<Rightarrow> string list option" where
  "unloadTargets env models =
     (let targets = (if models = [] then re_processes env else models)
      in if targets = [] then None else Some targets)"

definition healthCheckTimeout :: "int \<Rightarrow> int" where
  "healthCheckTimeout globalSecs = (if globalSecs * secondNs \<le> 0 then 30 * secondNs else globalSecs * secondNs)"

definition healthCheckTimeoutFor :: "int \<Rightarrow> (string \<rightharpoonup> int) \<Rightarrow> string \<Rightarrow> int" where
  "healthCheckTimeoutFor globalSecs modelSecs m =
     (case modelSecs m of
        Some secs \<Rightarrow> if secs > 0 then secs * secondNs else healthCheckTimeout globalSecs
      | None \<Rightarrow> healthCheckTimeout globalSecs)"

text \<open>
  The swap goroutine: what \<open>Stop\<close> returns for each evicted model, the state of the target after
  that, and what \<open>WaitReady\<close> returns are the environment; the result is whether the target was
  started, with which deadline, and what goes to \<open>swapDoneCh\<close>.
\<close>

record swap_env =
  se_stop :: "string \<rightharpoonup> string"
  se_targetState :: process_state
  se_waitReady :: "string option"

definition doSwap :: "int \<Rightarrow> (string \<rightharpoonup> int) \<Rightarrow> swap_env \<Rightarrow> string \<Rightarrow> string list \<Rightarrow> int option \<times> swap_error option" where
  "doSwap globalSecs modelSecs e target toStop =
     (let stopErrs = List.map_filter (se_stop e) toStop in
      if stopErrs \<noteq> [] then (None, Some (StopFailed target (length stopErrs) stopErrs))
      else
        (if startableFrom (se_targetState e) then Some (healthCheckTimeoutFor globalSecs modelSecs target) else None,
         case se_waitReady e of None \<Rightarrow> None | Some err \<Rightarrow> Some (NotReady err)))"

definition runningModels :: "processes \<Rightarrow> string \<rightharpoonup> process_state" where
  "runningModels procs = map_of (filter (\<lambda>(k, st). \<not> (st = StateStopped \<or> st = StateShutdown \<or> st = StateFailed)) procs)"

section \<open>Runs of the loop\<close>

datatype router_event =
    EvRequest request
  | EvUnload "string list"
  | EvSwapDone string "string list" "swap_error option"
  | EvServeDone string
  | EvTick int
  | EvShutdown

definition stepRouter :: "router_env \<Rightarrow> router_event \<Rightarrow> router \<Rightarrow> router" where
  "stepRouter env ev s =
     (case ev of
        EvRequest req \<Rightarrow> handleRequest env req s
      | EvUnload targets \<Rightarrow> handleUnload env targets s
      | EvSwapDone m evict err \<Rightarrow> handleSwapDone env m err (s\<lparr>r_spawned := remove1 (m, evict) (r_spawned s)\<rparr>)
      | EvServeDone m \<Rightarrow> handleServeDone env m s
      | EvTick now \<Rightarrow> expireStaleQueued env now (re_swapQueueTimeoutSecs env * secondNs) s
      | EvShutdown \<Rightarrow> handleShutdown env s)"

definition acceptedIds :: "router_event list \<Rightarrow> nat multiset" where
  "acceptedIds evs = mset (concat (map (\<lambda>ev. case ev of EvRequest req \<Rightarrow> [rq_id req] | _ \<Rightarrow> []) evs))"

definition doneCount :: "router_event list \<Rightarrow> string \<Rightarrow> int" where
  "doneCount evs m = int (length (filter (\<lambda>ev. ev = EvServeDone m) evs))"

definition servedCount :: "(nat \<times> response \<times> bool) list \<Rightarrow> string \<Rightarrow> int" where
  "servedCount log m = int (length (filter (\<lambda>(i, r, ok). r = Serve m \<and> ok) log))"

text \<open>
  What can arrive: a request that is not in the loop yet, the report of a swap goroutine that is
  still out, the end of a served request that has not ended yet, a tick, an unload or a shutdown.
\<close>

definition enabled :: "router_event list \<Rightarrow> router_event \<Rightarrow> router \<Rightarrow> bool" where
  "enabled evs ev s = (r_running s \<and>
     (case ev of
        EvRequest req \<Rightarrow> rq_id req \<notin># acceptedIds evs
      | EvSwapDone m evict err \<Rightarrow> (m, evict) \<in> set (r_spawned s)
      | EvServeDone m \<Rightarrow> doneCount evs m < servedCount (r_log s) m
      | _ \<Rightarrow> True))"

inductive run_of :: "router_env \<Rightarrow> router_event list \<Rightarrow> router \<Rightarrow> bool" for env where
  run_init: "run_of env [] initRouter"
| run_step: "run_of env evs s \<Longrightarrow> enabled evs ev s \<Longrightarrow> run_of env (evs @ [ev]) (stepRouter env ev s)"

inductive_cases run_of_snocE: "run_of env (evs @ [ev]) s"
inductive_simps run_of_Nil: "run_of env [] s"

section \<open>The invariant of the loop\<close>

text \<open>
  Over the active swaps, the in-flight counts and the log. \<open>A\<close> are the accepted requests, \<open>D\<close> the
  served requests that ended and \<open>L\<close> the requests in the queue or in the hands of a handler.
\<close>

definition waiterIds :: "(string \<times> swap) list \<Rightarrow> nat multiset" where
  "waiterIds active = mset (map rq_id (concat (map (\<lambda>(m, w). sw_waiters w) active)))"

definition evictions :: "(string \<times> swap) list \<Rightarrow> (string \<times> string list) list" where
  "evictions active = map (\<lambda>(m, w). (m, sw_evict w)) active"

definition swapsOk :: "(string \<times> string list) list \<Rightarrow> (string \<Rightarrow> int) \<Rightarrow> bool" where
  "swapsOk es inFlight =
     (distinct (map fst es)
      \<and> (\<forall>(m, E) \<in> set es. \<forall>x \<in> set E. inFlight x = 0)
      \<and> (\<forall>(m, E) \<in> set es. \<forall>(k, F) \<in> set es. k \<noteq> m \<longrightarrow> k \<notin> set E))"

definition core_inv :: "nat multiset \<Rightarrow> (string \<Rightarrow> int) \<Rightarrow> nat multiset \<Rightarrow> (string \<times> swap) list \<Rightarrow> (string \<Rightarrow> int)
    \<Rightarrow> (nat \<times> response \<times> bool) list \<Rightarrow> bool" where
  "core_inv A D L active inFlight log =
     (swapsOk (evictions active) inFlight
      \<and> (\<forall>m. servedCount log m = inFlight m + D m) \<and> (\<forall>m. 0 \<le> inFlight m)
      \<and> A = mset (map fst log) + waiterIds active + L)"

abbreviation inv_of :: "nat multiset \<Rightarrow> (string \<Rightarrow> int) \<Rightarrow> nat multiset \<Rightarrow> router \<Rightarrow> bool" where
  "inv_of A D L s \<equiv> core_inv A D L (r_active s) (r_inFlight s) (r_log s)"

abbreviation ids :: "request list \<Rightarrow> nat multiset" where
  "ids reqs \<equiv> mset (map rq_id reqs)"

lemma servedCount_append [simp]:
  "servedCount (log @ [(i, r, ok)]) m = servedCount log m + (if r = Serve m \<and> ok then 1 else 0)"
  by (simp add: servedCount_def)

lemma map_fst_evictions [simp]: "map fst (evictions active) = map fst active"
  by (auto simp: evictions_def)

lemma evictions_join [simp]: "evictions (joinActive req active) = evictions active"
  by (auto simp: evictions_def joinActive_def)

lemma evictions_append [simp]: "evictions (xs @ ys) = evictions xs @ evictions ys"
  by (simp add: evictions_def)

lemma evictions_filter: "evictions (filter (\<lambda>(k, w). k \<noteq> m) active) = filter (\<lambda>(k, E). k \<noteq> m) (evictions active)"
  by (induction active) (auto simp: evictions_def)

lemma keys_join [simp]: "map fst (joinActive req active) = map fst active"
  by (auto simp: joinActive_def)

lemma map_of_active_None: "map_of active m = None \<longleftrightarrow> m \<notin> set (map fst (evictions active))"
  by (simp add: map_of_eq_None_iff)

lemma core_grant [inv_intros]:
  assumes "core_inv A D (add_mset i L) active inFlight log" and "\<And>m. r = Serve m \<Longrightarrow> \<not> ok"
  shows "core_inv A D L active inFlight (log @ [(i, r, ok)])"
  using assms by (auto simp: core_inv_def)

lemma core_serve [inv_intros]:
  assumes "core_inv A D (add_mset i L) active inFlight log" and "\<forall>(k, E) \<in> set (evictions active). m \<notin> set E"
  shows "core_inv A D L active (inFlight(m := inFlight m + 1)) (log @ [(i, Serve m, True)])"
  using assms by (auto simp: core_inv_def swapsOk_def)

lemma waiterIds_join:
  assumes "distinct (map fst active)" and "rq_model req \<in> set (map fst active)"
  shows "waiterIds (joinActive req active) = add_mset (rq_id req) (waiterIds active)"
  using assms
proof (induction active)
  case (Cons a active)
  obtain m v where a: "a = (m, v)" by (cases a)
  show ?case
  proof (cases "m = rq_model req")
    case True
    with Cons.prems(1) have "\<And>x. x \<in> set active \<Longrightarrow> fst x \<noteq> rq_model req" by (force simp: a)
    then have "joinActive req active = active"
      unfolding joinActive_def by (intro map_idI) auto
    with True show ?thesis by (simp add: waiterIds_def joinActive_def a)
  next
    case False
    with Cons show ?thesis by (simp add: waiterIds_def joinActive_def a)
  qed
qed simp

lemma core_join:
  assumes "core_inv A D (add_mset (rq_id req) L) active inFlight log" and "rq_model req \<in> set (map fst active)"
  shows "core_inv A D L (joinActive req active) inFlight log"
  using assms waiterIds_join [of active req] by (auto simp: core_inv_def swapsOk_def)

lemma collidesWith_iff:
  "collidesWith t E active \<longleftrightarrow> (\<exists>(m, F) \<in> set (evictions active). m \<noteq> t \<and> (m \<in> set E \<or> t \<in> set F))"
  by (induction active) (auto simp: collidesWith_def evictions_def)

lemma core_start:
  assumes "core_inv A D (add_mset (rq_id req) L) active inFlight log" and "rq_model req \<notin> set (map fst active)"
    and "\<not> collidesWith (rq_model req) E active" and "\<not> conflictsWithInFlight E inFlight"
  shows "core_inv A D L (active @ [(rq_model req, \<lparr>sw_model = rq_model req, sw_evict = E, sw_waiters = [req]\<rparr>)]) inFlight log"
proof -
  let ?t = "rq_model req"
  have new: "evictions [(?t, \<lparr>sw_model = ?t, sw_evict = E, sw_waiters = [req]\<rparr>)] = [(?t, E)]" by (simp add: evictions_def)
  have idle: "\<forall>x \<in> set E. inFlight x = 0"
    using assms(1,4) by (auto simp: conflictsWithInFlight_def list_ex_iff core_inv_def not_less intro: order_antisym)
  have free: "\<forall>(m, F) \<in> set (evictions active). m \<noteq> ?t \<longrightarrow> m \<notin> set E \<and> ?t \<notin> set F"
    using assms(3) by (auto simp: collidesWith_iff)
  have "swapsOk (evictions active @ [(?t, E)]) inFlight"
    using assms(1,2) idle free by (auto simp: core_inv_def swapsOk_def)
  with assms(1) new show ?thesis by (auto simp: core_inv_def waiterIds_def)
qed

lemma waiterIds_delete:
  "distinct (map fst active) \<Longrightarrow> map_of active m = Some w \<Longrightarrow>
     waiterIds active = ids (sw_waiters w) + waiterIds (filter (\<lambda>(k, v). k \<noteq> m) active)"
proof (induction active)
  case (Cons a active)
  obtain k v where a: "a = (k, v)" by (cases a)
  show ?case
  proof (cases "k = m")
    case True
    with Cons.prems(1) have "filter (\<lambda>(k, v). k \<noteq> m) active = active" by (intro filter_True) (force simp: a)
    with True Cons.prems(2) show ?thesis by (simp add: waiterIds_def a)
  next
    case False
    with Cons show ?thesis by (simp add: waiterIds_def a)
  qed
qed simp

lemma core_delete:
  assumes "core_inv A D L active inFlight log" and "map_of active m = Some w"
  shows "core_inv A D (ids (sw_waiters w) + L) (filter (\<lambda>(k, v). k \<noteq> m) active) inFlight log"
    and "\<forall>(k, E) \<in> set (evictions (filter (\<lambda>(k, v). k \<noteq> m) active)). m \<notin> set E"
proof -
  have d: "distinct (map fst active)" using assms(1) by (simp add: core_inv_def swapsOk_def)
  have sw: "swapsOk (evictions active) inFlight" using assms(1) by (simp add: core_inv_def)
  then have "swapsOk (evictions (filter (\<lambda>(k, v). k \<noteq> m) active)) inFlight"
    unfolding evictions_filter swapsOk_def by (auto simp: distinct_map_filter)
  with assms(1) waiterIds_delete [OF d assms(2)] show "core_inv A D (ids (sw_waiters w) + L) (filter (\<lambda>(k, v). k \<noteq> m) active) inFlight log"
    by (simp add: core_inv_def)
  have "(m, sw_evict w) \<in> set (evictions active)" using map_of_SomeD [OF assms(2)] by (force simp: evictions_def)
  with sw show "\<forall>(k, E) \<in> set (evictions (filter (\<lambda>(k, v). k \<noteq> m) active)). m \<notin> set E"
    unfolding evictions_filter swapsOk_def by auto
qed

lemma core_done:
  assumes "core_inv A D L active inFlight log" and "D m < servedCount log m"
  shows "core_inv A (D(m := D m + 1)) L active (inFlight(m := inFlight m - 1)) log" and "0 < inFlight m"
proof -
  show pos: "0 < inFlight m" using assms by (simp add: core_inv_def)
  then show "core_inv A (D(m := D m + 1)) L active (inFlight(m := inFlight m - 1)) log"
    using assms by (auto simp: core_inv_def swapsOk_def)
qed

section \<open>The handlers keep the invariant\<close>

lemma tick_simps [simp]:
  "r_active (tick s) = r_active s" "r_inFlight (tick s) = r_inFlight s" "r_log (tick s) = r_log s"
  "r_queued (tick s) = r_queued s" "r_spawned (tick s) = r_spawned s" "r_running (tick s) = r_running s"
  by (simp_all add: tick_def)

lemma broadcast_simps [simp]:
  "r_active (broadcastQueuePositions s) = r_active s" "r_inFlight (broadcastQueuePositions s) = r_inFlight s"
  "r_log (broadcastQueuePositions s) = r_log s" "r_queued (broadcastQueuePositions s) = r_queued s"
  "r_spawned (broadcastQueuePositions s) = r_spawned s" "r_running (broadcastQueuePositions s) = r_running s"
  by (simp_all add: broadcastQueuePositions_def)

lemma grant_simps [simp]:
  "r_active (snd (grant env req r s)) = r_active s" "r_inFlight (snd (grant env req r s)) = r_inFlight s"
  "r_queued (snd (grant env req r s)) = r_queued s" "r_spawned (snd (grant env req r s)) = r_spawned s"
  "r_running (snd (grant env req r s)) = r_running s"
  "r_log (snd (grant env req r s)) = r_log s @ [(rq_id req, r, re_listening env (r_tick s) (rq_id req))]"
  by (simp_all add: grant_def Let_def)

lemma grantHandler_simps [simp]:
  "r_active (grantHandler env req m s) = r_active s" "r_queued (grantHandler env req m s) = r_queued s"
  "r_spawned (grantHandler env req m s) = r_spawned s" "r_running (grantHandler env req m s) = r_running s"
  by (simp_all add: grantHandler_def grant_def Let_def)

lemma inv_grant:
  assumes "inv_of A D (add_mset (rq_id req) L) s" and "\<And>m. r \<noteq> Serve m"
  shows "inv_of A D L (snd (grant env req r s))"
  using assms by (auto intro!: core_grant)

lemma inv_grantHandler:
  assumes "inv_of A D (add_mset (rq_id req) L) s" and "\<forall>(k, E) \<in> set (evictions (r_active s)). m \<notin> set E"
  shows "inv_of A D L (grantHandler env req m s)"
  using assms by (auto simp: grantHandler_def grant_def Let_def intro!: core_grant core_serve)

lemma not_collides:
  "\<not> collidesWith m E active \<Longrightarrow> m \<notin> set (map fst active) \<Longrightarrow> \<forall>(k, F) \<in> set (evictions active). m \<notin> set F"
  by (auto simp: collidesWith_iff simp flip: map_fst_evictions) force

lemma inv_startSwap:
  assumes "inv_of A D (add_mset (rq_id req) L) s" and "rq_model req \<notin> set (map fst (r_active s))"
    and "\<not> collidesWith (rq_model req) E (r_active s)" and "\<not> conflictsWithInFlight E (r_inFlight s)"
  shows "inv_of A D L (startSwap req E s)"
  using core_start [OF assms] by (simp add: startSwap_def)

text \<open>What a handler did with the one request it was given.\<close>

definition queuedOr :: "bool \<Rightarrow> request \<Rightarrow> nat multiset \<Rightarrow> nat multiset" where
  "queuedOr stays req L = (if stays then add_mset (rq_id req) L else L)"

lemma drainOne_cases:
  assumes "drainOne env req s = (stays, s')"
  obtains (unknown) "stays = False" "s' = snd (grant env req ErrNoLocalModelFound s)"
    | (join) "stays = False" "s' = joinSwap req s" "rq_model req \<in> set (map fst (r_active s))"
    | (serve) "stays = False" "s' = grantHandler env req (rq_model req) (tick (tick s))"
        "rq_model req \<notin> set (map fst (r_active s))" "\<not> collidesWith (rq_model req) [] (r_active s)"
    | (stay) E where "stays = True" "s' = tick (tick s)" "collidesWith (rq_model req) E (r_active s) \<or> conflictsWithInFlight E (r_inFlight s)"
    | (start) E where "stays = False" "s' = startSwap req E (tick (tick s))" "rq_model req \<notin> set (map fst (r_active s))"
        "\<not> collidesWith (rq_model req) E (r_active s)" "\<not> conflictsWithInFlight E (r_inFlight s)"
  using assms [unfolded drainOne_def Let_def map_of_active_None map_fst_evictions]
  by (simp split: if_split_asm; blast)

lemma inv_drainOne:
  assumes "inv_of A D (add_mset (rq_id req) L) s" and "drainOne env req s = (stays, s')"
  shows "inv_of A D (queuedOr stays req L) s'"
  using assms(2)
proof (cases rule: drainOne_cases)
    case serve
    have "inv_of A D L (grantHandler env req (rq_model req) (tick (tick s)))"
      by (rule inv_grantHandler) (use assms(1) not_collides [OF serve(4,3)] in simp_all)
    with serve show ?thesis by (simp add: queuedOr_def)
  next
    case (start E)
    have "inv_of A D L (startSwap req E (tick (tick s)))"
      by (rule inv_startSwap) (use assms(1) start in simp_all)
    with start show ?thesis by (simp add: queuedOr_def)
  next
    case join
    then show ?thesis using core_join [OF assms(1)] by (simp add: joinSwap_def queuedOr_def)
  qed (use assms(1) in \<open>auto simp: queuedOr_def intro!: core_grant\<close>)

lemma inv_drainLoop:
  "inv_of A D (ids pending + ids remaining + L) s \<Longrightarrow> drainLoop env pending remaining s = (rem', s') \<Longrightarrow>
     inv_of A D (ids rem' + L) s'"
proof (induction pending arbitrary: remaining s)
  case (Cons req pending)
  obtain stays s1 where d: "drainOne env req s = (stays, s1)" by fastforce
  have "inv_of A D (queuedOr stays req (ids pending + ids remaining + L)) s1"
    by (rule inv_drainOne [OF _ d]) (use Cons.prems(1) in simp)
  then have "inv_of A D (ids pending + ids (if stays then remaining @ [req] else remaining) + L) s1"
    by (simp add: queuedOr_def split: if_splits)
  then show ?case by (rule Cons.IH) (use Cons.prems(2) d in simp)
qed simp

lemma inv_drainQueue:
  assumes "inv_of A D (ids (r_queued s)) s"
  shows "inv_of A D (ids (r_queued (drainQueue env s))) (drainQueue env s)"
proof (cases "r_queued s = []")
  case False
  obtain rem' s' where d: "drainLoop env (r_queued s) [] s = (rem', s')" by fastforce
  have "inv_of A D (ids rem' + {#}) s'" by (rule inv_drainLoop [OF _ d]) (use assms in simp)
  with d False show ?thesis by (simp add: drainQueue_def)
qed (use assms in \<open>simp add: drainQueue_def\<close>)

lemma inv_grantAll:
  "inv_of A D (ids ws + L) s \<Longrightarrow> (\<And>m. r \<noteq> Serve m) \<Longrightarrow> inv_of A D L (grantAll env ws r s)"
proof (induction ws arbitrary: s)
  case (Cons w ws)
  have "inv_of A D (ids ws + L) (snd (grant env w r s))"
    by (rule inv_grant) (use Cons.prems in auto)
  with Cons.IH [OF this] Cons.prems(2) show ?case by simp
qed simp

lemma grantAll_simps [simp]:
  "r_active (grantAll env ws r s) = r_active s" "r_queued (grantAll env ws r s) = r_queued s"
  "r_inFlight (grantAll env ws r s) = r_inFlight s"
  "r_spawned (grantAll env ws r s) = r_spawned s" "r_running (grantAll env ws r s) = r_running s"
  by (induction ws arbitrary: s) auto

lemma grant_active: "snd (grant env req r (t\<lparr>r_active := X\<rparr>)) = (snd (grant env req r t))\<lparr>r_active := X\<rparr>"
  by (simp add: grant_def tick_def Let_def)

lemma grantAll_active: "grantAll env ws r (t\<lparr>r_active := X\<rparr>) = (grantAll env ws r t)\<lparr>r_active := X\<rparr>"
  by (induction ws arbitrary: t) (simp_all add: grant_active)

lemma serveAll_simps [simp]:
  "r_active (serveAll env ws m s) = r_active s" "r_queued (serveAll env ws m s) = r_queued s"
  "r_spawned (serveAll env ws m s) = r_spawned s" "r_running (serveAll env ws m s) = r_running s"
  by (induction ws arbitrary: s) auto

lemma inv_serveAll:
  "inv_of A D (ids ws + L) s \<Longrightarrow> \<forall>(k, E) \<in> set (evictions (r_active s)). m \<notin> set E \<Longrightarrow> inv_of A D L (serveAll env ws m s)"
proof (induction ws arbitrary: s)
  case (Cons w ws)
  have "inv_of A D (ids ws + L) (grantHandler env w m s)"
    by (rule inv_grantHandler) (use Cons.prems in auto)
  with Cons.IH [OF this] Cons.prems(2) show ?case by simp
qed simp

lemma inv_enqueue:
  "inv_of A D (ids (r_queued s) + add_mset (rq_id req) L) s \<Longrightarrow> inv_of A D (ids (r_queued (enqueue env req s)) + L) (enqueue env req s)"
  by (simp add: enqueue_def)

lemma handleRequest_cases:
  obtains (refuse) r t where "handleRequest env req s = snd (grant env req r t)" "r = ErrNoLocalModelFound \<or> r = ErrSessionCapExceeded"
        "t = s \<or> t = tick (tick s)"
    | (join) "handleRequest env req s = joinSwap req s" "rq_model req \<in> set (map fst (r_active s))"
    | (serve) "handleRequest env req s = grantHandler env req (rq_model req) (tick (tick (tick s)))"
        "rq_model req \<notin> set (map fst (r_active s))" "\<not> collidesWith (rq_model req) [] (r_active s)"
        "r_inFlight s (rq_model req) < effectiveLimit (re_concurrencyLimit env (rq_model req))
          \<or> re_state env (Suc (r_tick s)) (rq_model req) \<noteq> StateReady"
    | (stay) E where "handleRequest env req s = enqueue env req (tick (tick (tick s)))"
        "collidesWith (rq_model req) E (r_active s) \<or> conflictsWithInFlight E (r_inFlight s)"
    | (swap) E where "handleRequest env req s = startSwap req E (tick (tick (tick s)))" "rq_model req \<notin> set (map fst (r_active s))"
        "\<not> collidesWith (rq_model req) E (r_active s)" "\<not> conflictsWithInFlight E (r_inFlight s)"
proof -
  obtain t where t: "handleRequest env req s = t" by simp
  show thesis
    using t [unfolded handleRequest_def Let_def map_of_active_None map_fst_evictions] that [unfolded t]
    by (simp add: tick_def not_le split: if_split_asm; blast)
qed

lemma inv_handleRequest:
  assumes "inv_of A D (ids (r_queued s)) s"
  shows "inv_of (add_mset (rq_id req) A) D (ids (r_queued (handleRequest env req s))) (handleRequest env req s)"
proof -
  let ?m = "rq_model req" let ?A = "add_mset (rq_id req) A" let ?s = "handleRequest env req s"
  have start: "inv_of ?A D (add_mset (rq_id req) (ids (r_queued s))) s" using assms by (simp add: core_inv_def)
  show ?thesis
  proof (cases rule: handleRequest_cases [of env req s])
    case (refuse r t)
    have "inv_of ?A D (ids (r_queued s)) ?s"
      unfolding refuse(1) by (rule inv_grant) (use refuse start in auto)
    moreover have "r_queued ?s = r_queued s" using refuse by auto
    ultimately show ?thesis by simp
  next
    case join
    then show ?thesis using core_join [OF start] by (simp add: joinSwap_def)
  next
    case serve
    have "inv_of ?A D (ids (r_queued s)) ?s"
      unfolding serve(1) by (rule inv_grantHandler) (use start not_collides [OF serve(3,2)] in simp_all)
    with serve(1) show ?thesis by simp
  next
    case stay
    have "inv_of ?A D (ids (r_queued ?s) + {#}) ?s"
      unfolding stay(1) by (rule inv_enqueue) (use start in simp)
    then show ?thesis by simp
  next
    case (swap E)
    have "inv_of ?A D (ids (r_queued s)) ?s"
      unfolding swap(1) by (rule inv_startSwap) (use swap start in simp_all)
    with swap(1) show ?thesis by (simp add: startSwap_def)
  qed
qed

lemma inv_handleSwapDone:
  assumes "inv_of A D (ids (r_queued s)) s"
  shows "inv_of A D (ids (r_queued (handleSwapDone env m err s))) (handleSwapDone env m err s)"
proof (cases "map_of (r_active s) m")
  case (Some w)
  let ?s1 = "deleteActive m s"
  let ?s2 = "case err of Some e \<Rightarrow> grantAll env (sw_waiters w) (ErrSwap e) ?s1 | None \<Rightarrow> serveAll env (sw_waiters w) m ?s1"
  from core_delete [OF assms Some] have d: "inv_of A D (ids (sw_waiters w) + ids (r_queued s)) ?s1"
    and free: "\<forall>(k, E) \<in> set (evictions (r_active ?s1)). m \<notin> set E" by (simp_all add: deleteActive_def)
  have "inv_of A D (ids (r_queued s)) ?s2"
    using inv_serveAll [OF d free] inv_grantAll [OF d] by (auto split: option.split)
  moreover have "r_queued ?s2 = r_queued s" by (auto simp: deleteActive_def split: option.split)
  ultimately have "inv_of A D (ids (r_queued ?s2)) ?s2" by simp
  from inv_drainQueue [OF this] Some show ?thesis by (simp add: handleSwapDone_def Let_def)
qed (use assms in \<open>simp add: handleSwapDone_def\<close>)

lemma inv_handleServeDone:
  assumes "inv_of A D (ids (r_queued s)) s" and "D m < servedCount (r_log s) m"
  shows "inv_of A (D(m := D m + 1)) (ids (r_queued (handleServeDone env m s))) (handleServeDone env m s)"
proof -
  note dec = core_done [OF assms]
  show ?thesis
  proof (cases "r_inFlight s m - 1 \<le> 0")
    case True
    with dec(2) have "r_inFlight s m - 1 = 0" by simp
    with dec(1) have "inv_of A (D(m := D m + 1)) (ids (r_queued s)) (s\<lparr>r_inFlight := (r_inFlight s)(m := 0)\<rparr>)" by simp
    then show ?thesis using True inv_drainQueue [of A "D(m := D m + 1)" "s\<lparr>r_inFlight := (r_inFlight s)(m := 0)\<rparr>" env]
      by (simp add: handleServeDone_def)
  next
    case False
    with dec(1) show ?thesis by (simp add: handleServeDone_def)
  qed
qed

lemma inv_expireLoop:
  "inv_of A D (ids pending + ids remaining + L) s \<Longrightarrow> expireLoop env now timeout pending remaining s = (rem', s') \<Longrightarrow>
     inv_of A D (ids rem' + L) s'"
proof (induction pending arbitrary: remaining s)
  case (Cons req pending)
  show ?case
  proof (cases "now - rq_queuedAt req < timeout")
    case True
    from Cons.prems(1) have "inv_of A D (ids pending + ids (remaining @ [req]) + L) s" by simp
    then show ?thesis by (rule Cons.IH) (use Cons.prems(2) True in simp)
  next
    case False
    let ?E = "re_evictionFor env (r_tick s) (rq_model req) (activeTargets (r_active s) (rq_model req))"
    let ?r = "swapQueueTimeoutError (rq_model req) ?E (now - rq_queuedAt req) (inFlightFor (r_inFlight s) ?E)"
    have "inv_of A D (ids pending + ids remaining + L) (snd (grant env req ?r (tick s)))"
      by (rule inv_grant) (use Cons.prems(1) in \<open>simp_all add: swapQueueTimeoutError_def\<close>)
    then show ?thesis by (rule Cons.IH) (use Cons.prems(2) False in \<open>simp add: Let_def\<close>)
  qed
qed simp

lemma inv_expireStaleQueued:
  assumes "inv_of A D (ids (r_queued s)) s"
  shows "inv_of A D (ids (r_queued (expireStaleQueued env now timeout s))) (expireStaleQueued env now timeout s)"
proof -
  obtain rem' s' where d: "expireLoop env now timeout (r_queued s) [] s = (rem', s')" by fastforce
  have "inv_of A D (ids rem' + {#}) s'" by (rule inv_expireLoop [OF _ d]) (use assms in simp)
  with d assms show ?thesis by (simp add: expireStaleQueued_def)
qed

lemma inv_releaseTargets:
  "inv_of A D L s \<Longrightarrow> inv_of A D L (releaseTargets env ms s)"
proof (induction ms arbitrary: s)
  case (Cons m ms)
  show ?case
  proof (cases "map_of (r_active s) m")
    case (Some w)
    let ?s1 = "grantAll env (sw_waiters w) ErrUnloaded (deleteActive m s)"
    have comm: "grantAll env ws r (deleteActive m t) = deleteActive m (grantAll env ws r t)" for ws r t
      by (simp add: deleteActive_def grantAll_active)
    from core_delete(1) [OF Cons.prems Some] have "inv_of A D (ids (sw_waiters w) + L) (deleteActive m s)"
      by (simp add: deleteActive_def)
    then have "inv_of A D L ?s1" by (rule inv_grantAll) simp
    from Cons.IH [OF this] Some show ?thesis by (simp add: comm)
  qed (use Cons in simp)
qed simp

lemma inv_dropLoop:
  "inv_of A D (ids ws + ids kept + L) s \<Longrightarrow> dropLoop env targets ws kept s = (kept', s') \<Longrightarrow> inv_of A D (ids kept' + L) s'"
proof (induction ws arbitrary: kept s)
  case (Cons w ws)
  show ?case
  proof (cases "rq_model w \<in> set targets")
    case True
    have "inv_of A D (ids ws + ids kept + L) (snd (grant env w ErrUnloaded s))"
      by (rule inv_grant) (use Cons.prems(1) in simp_all)
    then show ?thesis by (rule Cons.IH) (use Cons.prems(2) True in simp)
  next
    case False
    from Cons.prems(1) have "inv_of A D (ids ws + ids (kept @ [w]) + L) s" by simp
    then show ?thesis by (rule Cons.IH) (use Cons.prems(2) False in simp)
  qed
qed simp

lemma releaseTargets_queued [simp]:
  "r_queued (releaseTargets env ms s) = r_queued s" "r_running (releaseTargets env ms s) = r_running s"
  "r_spawned (releaseTargets env ms s) = r_spawned s"
  by (induction ms arbitrary: s) (auto simp: deleteActive_def split: option.split)

lemma inv_handleUnload:
  assumes "inv_of A D (ids (r_queued s)) s"
  shows "inv_of A D (ids (r_queued (handleUnload env targets s))) (handleUnload env targets s)"
proof -
  let ?T = "remdups targets" let ?s1 = "releaseTargets env ?T s"
  obtain kept s' where d: "dropLoop env ?T (r_queued s) [] ?s1 = (kept, s')" by fastforce
  have "inv_of A D (ids kept + {#}) s'"
    by (rule inv_dropLoop [OF _ d]) (use inv_releaseTargets [OF assms] in simp)
  then show ?thesis unfolding handleUnload_def Let_def
    by (intro inv_drainQueue) (simp add: d)
qed

lemma inv_handleShutdown:
  assumes "inv_of A D (ids (r_queued s)) s"
  shows "inv_of A D (ids (r_queued (handleShutdown env s))) (handleShutdown env s)"
proof -
  let ?W = "concat (map (\<lambda>(m, w). sw_waiters w) (r_active s))"
  let ?s1 = "grantAll env ?W ErrShuttingDown (s\<lparr>r_active := []\<rparr>)"
  let ?s2 = "grantAll env (r_queued s) ErrShuttingDown ?s1"
  have "inv_of A D (ids ?W + ids (r_queued s)) (s\<lparr>r_active := []\<rparr>)"
    using assms by (simp add: core_inv_def swapsOk_def evictions_def waiterIds_def)
  then have "inv_of A D (ids (r_queued s)) ?s1" by (rule inv_grantAll) simp
  then have "inv_of A D (ids (r_queued s) + {#}) ?s1" by simp
  then have "inv_of A D {#} ?s2" by (rule inv_grantAll) simp
  then show ?thesis by (simp add: handleShutdown_def Let_def grantAll_active)
qed

lemma acceptedIds_append [simp]:
  "acceptedIds (evs @ [ev]) = acceptedIds evs + (case ev of EvRequest req \<Rightarrow> {#rq_id req#} | _ \<Rightarrow> {#})"
  by (simp add: acceptedIds_def split: router_event.split)

lemma run_inv:
  "run_of env evs s \<Longrightarrow> inv_of (acceptedIds evs) (doneCount evs) (ids (r_queued s)) s"
proof (induction rule: run_of.induct)
  case run_init
  show ?case by (simp add: initRouter_def core_inv_def swapsOk_def evictions_def waiterIds_def servedCount_def doneCount_def acceptedIds_def)
next
  case (run_step evs s ev)
  have same: "acceptedIds (evs @ [ev]) = acceptedIds evs" if "\<And>r. ev \<noteq> EvRequest r"
    using that by (cases ev) (auto simp: acceptedIds_def)
  have same': "doneCount (evs @ [ev]) = doneCount evs" if "\<And>m. ev \<noteq> EvServeDone m"
    using that by (auto simp: doneCount_def)
  show ?case
  proof (cases ev)
    case (EvRequest req)
    then have "acceptedIds (evs @ [ev]) = add_mset (rq_id req) (acceptedIds evs)"
      by (simp add: acceptedIds_def)
    with inv_handleRequest [OF run_step.IH] same' EvRequest show ?thesis by (simp add: stepRouter_def)
  next
    case (EvServeDone m)
    then have D: "doneCount (evs @ [ev]) = (doneCount evs)(m := doneCount evs m + 1)" by (auto simp: doneCount_def)
    have S: "stepRouter env ev s = handleServeDone env m s" by (simp add: stepRouter_def EvServeDone)
    have "doneCount evs m < servedCount (r_log s) m" using run_step.hyps(2) EvServeDone by (simp add: enabled_def)
    from inv_handleServeDone [OF run_step.IH this] same show ?thesis unfolding D S by (simp add: EvServeDone del: fun_upd_apply)
  next
    case (EvSwapDone m E err)
    have "inv_of (acceptedIds evs) (doneCount evs) (ids (r_queued (s\<lparr>r_spawned := remove1 (m, E) (r_spawned s)\<rparr>)))
        (s\<lparr>r_spawned := remove1 (m, E) (r_spawned s)\<rparr>)" using run_step.IH by simp
    from inv_handleSwapDone [OF this] EvSwapDone same same' show ?thesis by (simp add: stepRouter_def)
  qed (use same same' inv_handleUnload [OF run_step.IH] inv_expireStaleQueued [OF run_step.IH] inv_handleShutdown [OF run_step.IH] in
        \<open>simp_all add: stepRouter_def\<close>)
qed

section \<open>No lost wakeup\<close>

text \<open>A queued request always waits for an event that is still to come.\<close>

definition busy :: "router \<Rightarrow> bool" where
  "busy s = (r_active s \<noteq> [] \<or> (\<exists>m. 0 < r_inFlight s m))"

lemma blocked_busy: "collidesWith m E (r_active s) \<or> conflictsWithInFlight E (r_inFlight s) \<Longrightarrow> busy s"
  by (auto simp: busy_def collidesWith_def conflictsWithInFlight_def list_ex_iff)

lemma busy_simps [simp]:
  "busy (tick s) = busy s" "busy (broadcastQueuePositions s) = busy s" "busy (s\<lparr>r_queued := q\<rparr>) = busy s"
  "busy (s\<lparr>r_stopped := x\<rparr>) = busy s" "busy (snd (grant env req r s)) = busy s"
  "busy (joinSwap req s) = busy s" "busy (startSwap req E s)" "busy (enqueue env req s) = busy s"
  by (simp_all add: busy_def joinSwap_def joinActive_def startSwap_def enqueue_def)

lemma swap_queued [simp]:
  "r_queued (joinSwap req s) = r_queued s" "r_queued (startSwap req E s) = r_queued s"
  "r_queued (enqueue env req s) = r_queued s @ [req\<lparr>rq_queuedAt := re_now env (r_tick s)\<rparr>]"
  by (simp_all add: joinSwap_def startSwap_def enqueue_def)

lemma busy_grantHandler: "busy s \<Longrightarrow> busy (grantHandler env req m s)"
  by (auto simp: busy_def grantHandler_def grant_def Let_def) (metis add_strict_increasing2 zero_less_one less_imp_le)

lemma busy_drainOne: "busy s \<Longrightarrow> drainOne env req s = (stays, s') \<Longrightarrow> busy s'"
  by (erule drainOne_cases) (auto simp: busy_grantHandler)

lemma busy_drainLoop:
  "(remaining \<noteq> [] \<longrightarrow> busy s) \<Longrightarrow> drainLoop env pending remaining s = (rem', s') \<Longrightarrow> rem' \<noteq> [] \<longrightarrow> busy s'"
proof (induction pending arbitrary: remaining s)
  case (Cons req pending)
  obtain stays s1 where d: "drainOne env req s = (stays, s1)" by fastforce
  have "stays \<longrightarrow> busy s1"
    using d
  proof (cases rule: drainOne_cases)
    case (stay E)
    then show ?thesis using blocked_busy [OF stay(3)] by simp
  qed simp_all
  then have "(if stays then remaining @ [req] else remaining) \<noteq> [] \<longrightarrow> busy s1"
    using Cons.prems(1) busy_drainOne [OF _ d] by auto
  then show ?case by (rule Cons.IH) (use Cons.prems(2) d in simp)
qed simp

lemma busy_drainQueue: "r_queued (drainQueue env s) \<noteq> [] \<longrightarrow> busy (drainQueue env s)"
  using busy_drainLoop [of "[]" s env "r_queued s"] by (auto simp: drainQueue_def split: prod.split)

lemma expireLoop_keeps:
  "expireLoop env now timeout pending remaining s = (rem', s') \<Longrightarrow>
     r_active s' = r_active s \<and> r_inFlight s' = r_inFlight s \<and> subseq rem' (remaining @ pending)
     \<and> r_spawned s' = r_spawned s \<and> r_running s' = r_running s"
proof (induction pending arbitrary: remaining s)
  case (Cons req pending)
  show ?case
  proof (cases "now - rq_queuedAt req < timeout")
    case True
    with Cons.IH [of "remaining @ [req]" s] Cons.prems show ?thesis by simp
  next
    case False
    let ?E = "re_evictionFor env (r_tick s) (rq_model req) (activeTargets (r_active s) (rq_model req))"
    let ?r = "swapQueueTimeoutError (rq_model req) ?E (now - rq_queuedAt req) (inFlightFor (r_inFlight s) ?E)"
    have "expireLoop env now timeout pending remaining (snd (grant env req ?r (tick s))) = (rem', s')"
      using Cons.prems False by (simp add: Let_def)
    from Cons.IH [OF this] have I: "subseq rem' (remaining @ pending)" "r_active s' = r_active s" "r_inFlight s' = r_inFlight s"
      "r_spawned s' = r_spawned s" "r_running s' = r_running s" by simp_all
    have "subseq (remaining @ pending) (remaining @ req # pending)"
      by (intro list_emb_append_mono) auto
    with I show ?thesis using subseq_order.order_trans by blast
  qed
qed auto

lemma busy_step:
  assumes "r_queued s \<noteq> [] \<longrightarrow> busy s" and "\<And>m. 0 \<le> r_inFlight s m"
  shows "r_queued (stepRouter env ev s) \<noteq> [] \<longrightarrow> busy (stepRouter env ev s)"
proof (cases ev)
  case (EvRequest req)
  show ?thesis unfolding EvRequest stepRouter_def router_event.case
  proof (cases rule: handleRequest_cases [of env req s])
    case (refuse r t)
    then show "r_queued (handleRequest env req s) \<noteq> [] \<longrightarrow> busy (handleRequest env req s)" using assms(1) by auto
  next
    case (stay E)
    then show "r_queued (handleRequest env req s) \<noteq> [] \<longrightarrow> busy (handleRequest env req s)" using blocked_busy [OF stay(2)] by simp
  qed (use assms(1) in \<open>simp_all add: busy_grantHandler\<close>)
next
  case (EvTick now)
  let ?T = "re_swapQueueTimeoutSecs env * secondNs"
  obtain rem' s' where d: "expireLoop env now ?T (r_queued s) [] s = (rem', s')" by fastforce
  from expireLoop_keeps [OF d] have "busy s' = busy s" "rem' \<noteq> [] \<longrightarrow> r_queued s \<noteq> []" by (auto simp: busy_def)
  with assms(1) d show ?thesis by (simp add: EvTick stepRouter_def expireStaleQueued_def)
next
  case EvShutdown
  then show ?thesis by (simp add: stepRouter_def handleShutdown_def Let_def)
next
  case (EvServeDone m)
  have "0 < r_inFlight s m - 1 \<Longrightarrow> busy (s\<lparr>r_inFlight := (r_inFlight s)(m := r_inFlight s m - 1)\<rparr>)"
    by (auto simp: busy_def)
  then show ?thesis using busy_drainQueue
    by (simp add: EvServeDone stepRouter_def handleServeDone_def Let_def not_le)
next
  case (EvSwapDone m E err)
  let ?s = "s\<lparr>r_spawned := remove1 (m, E) (r_spawned s)\<rparr>"
  have "busy ?s = busy s" by (simp add: busy_def)
  with assms(1) show ?thesis using busy_drainQueue
    by (cases "map_of (r_active s) m") (simp_all add: EvSwapDone stepRouter_def handleSwapDone_def Let_def)
qed (use busy_drainQueue in \<open>simp add: stepRouter_def handleUnload_def Let_def\<close>)

section \<open>The queue is first in, first out\<close>

lemma drainLoop_subseq: "drainLoop env pending remaining s = (rem', s') \<Longrightarrow> subseq rem' (remaining @ pending)"
proof (induction pending arbitrary: remaining s)
  case (Cons req pending)
  obtain stays s1 where "drainOne env req s = (stays, s1)" by fastforce
  with Cons.prems have "drainLoop env pending (if stays then remaining @ [req] else remaining) s1 = (rem', s')" by simp
  from Cons.IH [OF this] show ?case
    by (cases stays) (auto intro: subseq_order.order_trans list_emb_append_mono)
qed simp

lemma dropLoop_subseq: "dropLoop env targets ws kept s = (kept', s') \<Longrightarrow> subseq kept' (kept @ ws)"
proof (induction ws arbitrary: kept s)
  case (Cons w ws)
  show ?case
  proof (cases "rq_model w \<in> set targets")
    case True
    with Cons have "subseq kept' (kept @ ws)" by simp
    moreover have "subseq (kept @ ws) (kept @ w # ws)" by (intro list_emb_append_mono) auto
    ultimately show ?thesis by (rule subseq_order.order_trans)
  qed (use Cons in fastforce)
qed simp

lemma drainQueue_subseq: "subseq (r_queued (drainQueue env s)) (r_queued s)"
  using drainLoop_subseq [of env "r_queued s" "[]" s] by (auto simp: drainQueue_def split: prod.split)

section \<open>The goroutines of the active swaps\<close>

lemma evictions_simps [simp]: "evictions [] = []" "evictions ((m, w) # active) = (m, sw_evict w) # evictions active"
  by (simp_all add: evictions_def)

definition spawnedOk :: "bool \<Rightarrow> router \<Rightarrow> bool" where
  "spawnedOk exact s = (if exact then mset (r_spawned s) = mset (evictions (r_active s))
     else mset (evictions (r_active s)) \<subseteq># mset (r_spawned s))"

lemma spawnedOk_simps [simp]:
  "spawnedOk x (tick s) = spawnedOk x s" "spawnedOk x (broadcastQueuePositions s) = spawnedOk x s"
  "spawnedOk x (s\<lparr>r_queued := q\<rparr>) = spawnedOk x s" "spawnedOk x (s\<lparr>r_stopped := p\<rparr>) = spawnedOk x s"
  "spawnedOk x (s\<lparr>r_inFlight := f\<rparr>) = spawnedOk x s"
  "spawnedOk x (snd (grant env req r s)) = spawnedOk x s" "spawnedOk x (grantHandler env req m s) = spawnedOk x s"
  "spawnedOk x (joinSwap req s) = spawnedOk x s" "spawnedOk x (startSwap req E s) = spawnedOk x s"
  "spawnedOk x (enqueue env req s) = spawnedOk x s"
  "spawnedOk x (grantAll env ws r s) = spawnedOk x s" "spawnedOk x (serveAll env ws m s) = spawnedOk x s"
  by (simp_all add: spawnedOk_def joinSwap_def startSwap_def enqueue_def)

lemma spawnedOk_drainOne: "drainOne env req s = (stays, s') \<Longrightarrow> spawnedOk x s \<Longrightarrow> spawnedOk x s'"
  by (erule drainOne_cases) simp_all

lemma spawnedOk_drainLoop: "drainLoop env pending remaining s = (rem', s') \<Longrightarrow> spawnedOk x s \<Longrightarrow> spawnedOk x s'"
proof (induction pending arbitrary: remaining s)
  case (Cons req pending)
  obtain stays s1 where d: "drainOne env req s = (stays, s1)" by fastforce
  from Cons.prems(1) d have "drainLoop env pending (if stays then remaining @ [req] else remaining) s1 = (rem', s')" by simp
  then show ?case by (rule Cons.IH) (rule spawnedOk_drainOne [OF d Cons.prems(2)])
qed simp

lemma spawnedOk_drainQueue: "spawnedOk x s \<Longrightarrow> spawnedOk x (drainQueue env s)"
  using spawnedOk_drainLoop [of env "r_queued s" "[]" s] by (auto simp: drainQueue_def split: prod.split)

lemma spawnedOk_delete: "spawnedOk False s \<Longrightarrow> spawnedOk False (deleteActive m s)"
  by (simp add: spawnedOk_def deleteActive_def evictions_filter)
    (rule subset_mset.order_trans [OF multiset_filter_subset])

lemma spawnedOk_release: "spawnedOk False s \<Longrightarrow> spawnedOk False (releaseTargets env ms s)"
proof (induction ms arbitrary: s)
  case (Cons m ms)
  show ?case
  proof (cases "map_of (r_active s) m")
    case (Some w)
    have "spawnedOk False (deleteActive m (grantAll env (sw_waiters w) ErrUnloaded s))"
      by (rule spawnedOk_delete) (use Cons.prems in simp)
    with Cons.IH Some show ?thesis by simp
  qed (use Cons in simp)
qed simp

lemma dropLoop_keeps: "dropLoop env targets ws kept s = (kept', s') \<Longrightarrow> spawnedOk x s' = spawnedOk x s"
  by (induction ws arbitrary: kept s) (auto split: if_splits)

lemma spawnedOk_unload:
  assumes "spawnedOk False s"
  shows "spawnedOk False (handleUnload env targets s)"
proof -
  let ?T = "remdups targets" let ?s1 = "releaseTargets env ?T s"
  obtain kept s' where d: "dropLoop env ?T (r_queued ?s1) [] ?s1 = (kept, s')" by fastforce
  have "spawnedOk False s'" unfolding dropLoop_keeps [OF d] by (rule spawnedOk_release [OF assms])
  then show ?thesis unfolding handleUnload_def Let_def d prod.case by (intro spawnedOk_drainQueue) simp
qed

lemma mset_filter_key:
  "distinct (map fst es) \<Longrightarrow> (m, E) \<in> set es \<Longrightarrow> mset es = add_mset (m, E) (mset (filter (\<lambda>(k, F). k \<noteq> m) es))"
proof (induction es)
  case (Cons e es)
  show ?case
  proof (cases "e = (m, E)")
    case True
    with Cons.prems(1) have "filter (\<lambda>(k, F). k \<noteq> m) es = es" by (intro filter_True) force
    with True show ?thesis by simp
  next
    case False
    with Cons.prems have "(m, E) \<in> set es" "fst e \<notin> fst ` set es" by auto
    then have "fst e \<noteq> m" by (metis fst_conv image_eqI)
    with False Cons show ?thesis by (cases e) simp
  qed
qed simp

lemma subset_remove: "X \<subseteq># Y \<Longrightarrow> a \<notin># X \<Longrightarrow> X \<subseteq># Y - {#a#}"
  by (auto simp: subseteq_mset_def not_in_iff)

text \<open>The report of a goroutine and the entry it ends leave together.\<close>

lemma spawnedOk_report:
  assumes "spawnedOk x s" and "(m, E) \<in> set (r_spawned s)" and "distinct (map fst (evictions (r_active s)))"
  shows "spawnedOk x (handleSwapDone env m err (s\<lparr>r_spawned := remove1 (m, E) (r_spawned s)\<rparr>))"
proof -
  let ?s = "s\<lparr>r_spawned := remove1 (m, E) (r_spawned s)\<rparr>"
  let ?es = "evictions (r_active s)" let ?fs = "filter (\<lambda>(k, F). k \<noteq> m) ?es"
  have sub: "mset ?fs \<subseteq># mset ?es" by (simp add: multiset_filter_subset)
  have deleted: "spawnedOk x (deleteActive m ?s)"
  proof (cases x)
    case True
    with assms(1) have eq: "mset (r_spawned s) = mset ?es" by (simp add: spawnedOk_def)
    with assms(2) have "(m, E) \<in> set ?es" by (metis set_mset_mset)
    from mset_filter_key [OF assms(3) this] have "mset ?es - {#(m, E)#} = mset ?fs" by (metis add_mset_remove_trivial)
    with eq True show ?thesis by (simp add: spawnedOk_def deleteActive_def evictions_filter)
  next
    case False
    with assms(1) have "mset ?es \<subseteq># mset (r_spawned s)" by (simp add: spawnedOk_def)
    then have "mset ?fs \<subseteq># mset (r_spawned s)" by (rule subset_mset.order_trans [OF sub])
    then have "mset ?fs \<subseteq># mset (r_spawned s) - {#(m, E)#}" by (rule subset_remove) auto
    with False show ?thesis by (simp add: spawnedOk_def deleteActive_def evictions_filter)
  qed
  show ?thesis
  proof (cases "map_of (r_active s) m")
    case None
    then have "filter (\<lambda>(k, w). k \<noteq> m) (r_active s) = r_active s"
      by (intro filter_True) (auto simp: map_of_eq_None_iff image_iff)
    with None deleted show ?thesis by (simp add: handleSwapDone_def deleteActive_def)
  next
    case (Some w)
    with deleted show ?thesis
      by (cases err) (simp_all add: handleSwapDone_def Let_def spawnedOk_drainQueue)
  qed
qed

lemma handleRequest_spawned: "spawnedOk x s \<Longrightarrow> spawnedOk x (handleRequest env req s)"
  by (cases rule: handleRequest_cases [of env req s]) auto

lemma expire_spawned:
  assumes "spawnedOk x s"
  shows "spawnedOk x (expireStaleQueued env now timeout s)"
proof -
  obtain rem' s' where d: "expireLoop env now timeout (r_queued s) [] s = (rem', s')" by fastforce
  from expireLoop_keeps [OF d] d assms show ?thesis by (simp add: expireStaleQueued_def spawnedOk_def)
qed

lemma serveDone_spawned: "spawnedOk x s \<Longrightarrow> spawnedOk x (handleServeDone env m s)"
  by (simp add: handleServeDone_def Let_def spawnedOk_drainQueue)

lemmas step_spawned = handleRequest_spawned expire_spawned serveDone_spawned

definition isUnload :: "router_event \<Rightarrow> bool" where
  "isUnload ev = (case ev of EvUnload targets \<Rightarrow> True | _ \<Rightarrow> False)"

lemma drainOne_running: "drainOne env req s = (stays, s') \<Longrightarrow> r_running s' = r_running s"
  by (erule drainOne_cases) (simp_all add: joinSwap_def startSwap_def)

lemma drainLoop_running: "drainLoop env pending remaining s = (rem', s') \<Longrightarrow> r_running s' = r_running s"
proof (induction pending arbitrary: remaining s)
  case (Cons req pending)
  obtain stays s1 where d: "drainOne env req s = (stays, s1)" by fastforce
  from Cons.prems d have "drainLoop env pending (if stays then remaining @ [req] else remaining) s1 = (rem', s')" by simp
  from Cons.IH [OF this] drainOne_running [OF d] show ?case by simp
qed simp

lemma drainQueue_running [simp]: "r_running (drainQueue env s) = r_running s"
proof -
  obtain rem' s' where d: "drainLoop env (r_queued s) [] s = (rem', s')" by fastforce
  from drainLoop_running [OF d] d show ?thesis by (simp add: drainQueue_def)
qed

lemma dropLoop_running: "dropLoop env targets ws kept s = (kept', s') \<Longrightarrow> r_running s' = r_running s"
  by (induction ws arbitrary: kept s) (auto split: if_splits)

lemma handleRequest_running: "r_running (handleRequest env req s) = r_running s"
  by (cases rule: handleRequest_cases [of env req s]) (auto simp: joinSwap_def startSwap_def enqueue_def)

lemma expire_running: "r_running (expireStaleQueued env now timeout s) = r_running s"
proof -
  obtain rem' s' where d: "expireLoop env now timeout (r_queued s) [] s = (rem', s')" by fastforce
  from expireLoop_keeps [OF d] d show ?thesis by (simp add: expireStaleQueued_def)
qed

lemma step_running: "r_running (stepRouter env ev s) \<longleftrightarrow> r_running s \<and> ev \<noteq> EvShutdown"
proof (cases ev)
  case (EvUnload targets)
  let ?T = "remdups targets" let ?s1 = "releaseTargets env ?T s"
  obtain kept s' where d: "dropLoop env ?T (r_queued ?s1) [] ?s1 = (kept, s')" by fastforce
  then show ?thesis using dropLoop_running [OF d] by (simp add: EvUnload stepRouter_def handleUnload_def Let_def del: releaseTargets_queued(1))
next
  case (EvSwapDone m E err)
  then show ?thesis
    by (cases err) (simp_all add: stepRouter_def handleSwapDone_def deleteActive_def Let_def split: option.split)
next
  case EvShutdown
  then show ?thesis by (simp add: stepRouter_def handleShutdown_def Let_def)
qed (simp_all add: stepRouter_def handleRequest_running expire_running handleServeDone_def Let_def)

lemma run_spawned:
  "run_of env evs s \<Longrightarrow> (x \<longrightarrow> \<not> list_ex isUnload evs) \<Longrightarrow> r_running s \<Longrightarrow> spawnedOk x s"
proof (induction rule: run_of.induct)
  case run_init
  then show ?case by (simp add: spawnedOk_def initRouter_def)
next
  case (run_step evs s ev)
  have r: "r_running s" using run_step.hyps(2) by (simp add: enabled_def)
  with run_step have ok: "spawnedOk x s" by simp
  have dist: "distinct (map fst (evictions (r_active s)))"
    using run_inv [OF run_step.hyps(1)] by (simp add: core_inv_def swapsOk_def)
  show ?case
  proof (cases ev)
    case (EvUnload targets)
    with run_step.prems(1) have "\<not> x" by (simp add: isUnload_def)
    with spawnedOk_unload ok EvUnload show ?thesis by (simp add: stepRouter_def)
  next
    case (EvSwapDone m E err)
    with run_step.hyps(2) have "(m, E) \<in> set (r_spawned s)" by (simp add: enabled_def)
    from spawnedOk_report [OF ok this dist] EvSwapDone show ?thesis by (simp add: stepRouter_def)
  next
    case EvShutdown
    with run_step.prems(2) show ?thesis by (simp add: stepRouter_def handleShutdown_def Let_def)
  qed (use ok in \<open>simp_all add: stepRouter_def step_spawned\<close>)
qed

lemma run_busy: "run_of env evs s \<Longrightarrow> r_queued s \<noteq> [] \<Longrightarrow> busy s"
proof (induction rule: run_of.induct)
  case (run_step evs s ev)
  have "\<And>m. 0 \<le> r_inFlight s m" using run_inv [OF run_step.hyps(1)] by (simp add: core_inv_def)
  with busy_step [of s env ev] run_step show ?case by blast
qed (simp add: initRouter_def)

section \<open>What the router guarantees\<close>

text \<open>
  C1. In every run of the loop in which nothing is unloaded, no model that a swap goroutine was
  started to stop is serving a request: all its granted requests have ended.
\<close>

theorem swap_never_stops_busy:
  assumes "run_of env evs s" and "r_running s" and "\<not> list_ex isUnload evs"
    and "(target, evict) \<in> set (r_spawned s)" and "m \<in> set evict"
  shows "servedCount (r_log s) m = doneCount evs m"
proof -
  have "spawnedOk True s" by (rule run_spawned [OF assms(1)]) (use assms in simp_all)
  then have "(target, evict) \<in> set (evictions (r_active s))"
    using assms(4) by (metis (full_types) spawnedOk_def set_mset_mset)
  then show ?thesis using run_inv [OF assms(1)] assms(5) by (fastforce simp: core_inv_def swapsOk_def)
qed

text \<open>
  C3. Every accepted request is in exactly one place, once: answered in the log, waiting on
  an active swap, or in the queue. So no request is lost and none is answered twice; once the loop
  has shut down, every request has been answered.
\<close>

theorem requests_conserved:
  assumes "run_of env evs s"
  shows "acceptedIds evs = mset (map fst (r_log s)) + waiterIds (r_active s) + ids (r_queued s)
    \<and> distinct (map fst (r_log s))
    \<and> (\<not> r_running s \<longrightarrow> set (map fst (r_log s)) = set_mset (acceptedIds evs))"
proof -
  have eq: "acceptedIds evs = mset (map fst (r_log s)) + waiterIds (r_active s) + ids (r_queued s)"
    using run_inv [OF assms] by (simp add: core_inv_def)
  have "count (acceptedIds evs) i \<le> 1" for i
    using assms
  proof (induction rule: run_of.induct)
    case (run_step evs s ev)
    show ?case
    proof (cases ev)
      case (EvRequest req)
      with run_step.hyps(2) have "rq_id req \<notin># acceptedIds evs" by (simp add: enabled_def)
      with run_step.IH show ?thesis by (auto simp: acceptedIds_append EvRequest not_in_iff)
    qed (use run_step.IH in \<open>simp_all add: acceptedIds_append\<close>)
  qed (simp add: acceptedIds_def)
  then have "count (mset (map fst (r_log s))) i \<le> 1" for i unfolding eq by (metis add.assoc count_union le_add1 le_trans)
  then have "distinct (map fst (r_log s))"
    by (metis count_mset distinct_count_atmost_1 count_eq_zero_iff in_multiset_in_set less_one linorder_not_le nle_le)
  moreover have "\<not> r_running s \<Longrightarrow> r_active s = [] \<and> r_queued s = []"
    using assms
  proof (induction rule: run_of.induct)
    case (run_step evs s ev)
    then have "ev = EvShutdown" by (auto simp: step_running enabled_def)
    then show ?case by (simp add: stepRouter_def handleShutdown_def Let_def)
  qed (simp add: initRouter_def)
  ultimately show ?thesis using eq by (auto simp: waiterIds_def)
qed

text \<open>
  No event reorders the queue: what is queued afterwards is what was queued before, in the
  same order, less what has left it, and then at most the request that just arrived.
\<close>

theorem queue_is_fifo:
  "subseq (r_queued (stepRouter env ev s))
     (r_queued s @ (case ev of EvRequest req \<Rightarrow> [req\<lparr>rq_queuedAt := re_now env (r_tick s + 3)\<rparr>] | _ \<Rightarrow> []))"
proof (cases ev)
  case (EvRequest req)
  have "subseq (r_queued (handleRequest env req s)) (r_queued s @ [req\<lparr>rq_queuedAt := re_now env (r_tick s + 3)\<rparr>])"
  proof (cases rule: handleRequest_cases [of env req s])
    case stay
    then show ?thesis by (simp add: tick_def numeral_3_eq_3)
  qed auto
  then show ?thesis by (simp add: EvRequest stepRouter_def)
next
  case (EvUnload targets)
  let ?T = "remdups targets" let ?s1 = "releaseTargets env ?T s"
  obtain kept s' where d: "dropLoop env ?T (r_queued ?s1) [] ?s1 = (kept, s')" by fastforce
  have "subseq kept (r_queued s)" using dropLoop_subseq [OF d] by simp
  moreover have "subseq (r_queued (handleUnload env targets s)) kept"
    unfolding handleUnload_def Let_def d prod.case
    by (rule subseq_order.order_trans [OF drainQueue_subseq]) simp
  ultimately show ?thesis by (simp add: EvUnload stepRouter_def)
next
  case (EvSwapDone m E err)
  have "subseq (r_queued (handleSwapDone env m err t)) (r_queued t)" for t
    unfolding handleSwapDone_def Let_def
    by (cases "map_of (r_active t) m"; cases err)
      (auto simp: deleteActive_def intro: subseq_order.order_trans [OF drainQueue_subseq])
  then have "subseq (r_queued (handleSwapDone env m err (s\<lparr>r_spawned := remove1 (m, E) (r_spawned s)\<rparr>)))
      (r_queued (s\<lparr>r_spawned := remove1 (m, E) (r_spawned s)\<rparr>))" .
  then show ?thesis by (simp add: EvSwapDone stepRouter_def)
next
  case (EvServeDone m)
  then show ?thesis
    by (auto simp: stepRouter_def handleServeDone_def Let_def intro: subseq_order.order_trans [OF drainQueue_subseq])
next
  case (EvTick now)
  let ?T = "re_swapQueueTimeoutSecs env * secondNs"
  obtain rem' s' where d: "expireLoop env now ?T (r_queued s) [] s = (rem', s')" by fastforce
  with expireLoop_keeps [OF d] show ?thesis by (simp add: EvTick stepRouter_def expireStaleQueued_def)
next
  case EvShutdown
  then show ?thesis by (simp add: stepRouter_def handleShutdown_def Let_def)
qed

text \<open>
  C5. While the loop runs and a request is queued, the loop is owed an event that lets it look
  at the queue again: a swap goroutine that has not reported, or a served request that has not
  ended. So a request is never left in the queue with nothing to wake it.
\<close>

theorem queued_request_has_wakeup:
  assumes "run_of env evs s" and "r_running s" and "r_queued s \<noteq> []"
  shows "\<exists>ev. enabled evs ev s \<and> ((\<exists>m E err. ev = EvSwapDone m E err) \<or> (\<exists>m. ev = EvServeDone m))"
proof -
  from run_busy [OF assms(1,3)] consider "r_active s \<noteq> []" | m where "0 < r_inFlight s m" by (auto simp: busy_def)
  then show ?thesis
  proof cases
    case 1
    then obtain a rest where "r_active s = a # rest" by (cases "r_active s") auto
    then have "(fst a, sw_evict (snd a)) \<in> set (evictions (r_active s))" by (cases a) simp
    moreover have "mset (evictions (r_active s)) \<subseteq># mset (r_spawned s)"
      using run_spawned [OF assms(1), of False] assms(2) by (simp add: spawnedOk_def)
    ultimately have "(fst a, sw_evict (snd a)) \<in> set (r_spawned s)" by (metis mset_subset_eqD set_mset_mset)
    with assms(2) have "enabled evs (EvSwapDone (fst a) (sw_evict (snd a)) None) s" by (simp add: enabled_def)
    then show ?thesis by blast
  next
    case (2 m)
    with run_inv [OF assms(1)] assms(2) have "enabled evs (EvServeDone m) s" by (auto simp: enabled_def core_inv_def)
    then show ?thesis by blast
  qed
qed

section \<open>A concrete router\<close>

definition demoEnv :: router_env where
  "demoEnv = \<lparr>re_processes = [''a'', ''b''], re_state = (\<lambda>t m. if m = ''b'' then StateReady else StateStopped),
     re_evictionFor = (\<lambda>t m busy. if m = ''a'' then [''b''] else []), re_listening = (\<lambda>t i. True), re_now = int,
     re_concurrencyLimit = (\<lambda>_. 0), re_swapQueueTimeoutSecs = 60\<rparr>"

definition ask :: "nat \<Rightarrow> string \<Rightarrow> router_event" where
  "ask i m = EvRequest \<lparr>rq_id = i, rq_model = m, rq_queuedAt = 0\<rparr>"

fun replay :: "router_env \<Rightarrow> router_event list \<Rightarrow> router_event list \<Rightarrow> router \<Rightarrow> router option" where
  "replay env past [] s = Some s"
| "replay env past (ev # evs) s =
     (if enabled past ev s then replay env (past @ [ev]) evs (stepRouter env ev s) else None)"

lemma replay_run: "replay env past evs s = Some s' \<Longrightarrow> run_of env past s \<Longrightarrow> run_of env (past @ evs) s'"
proof (induction evs arbitrary: past s)
  case (Cons ev evs)
  then have "enabled past ev s" "replay env (past @ [ev]) evs (stepRouter env ev s) = Some s'" by (auto split: if_splits)
  with Cons.IH [OF this(2)] Cons.prems(2) show ?case by (simp add: run_step)
qed simp

lemmas run_replay = replay_run [OF _ run_init, simplified append_Nil]

lemmas router_eval = stepRouter_def handleRequest_def handleSwapDone_def handleServeDone_def handleUnload_def handleShutdown_def
  drainQueue_def drainOne_def grant_def grantHandler_def tick_def enqueue_def broadcastQueuePositions_def startSwap_def
  joinSwap_def joinActive_def deleteActive_def collidesWith_def conflictsWithInFlight_def activeTargets_def
  effectiveLimit_def enabled_def acceptedIds_def doneCount_def servedCount_def initRouter_def demoEnv_def ask_def Let_def

lemma demo_swap: "\<exists>s. replay demoEnv [] [ask 1 ''b'', EvServeDone ''b'', ask 2 ''a''] initRouter = Some s
    \<and> r_running s \<and> r_spawned s = [(''a'', [''b''])]"
  by (simp add: router_eval)

lemma demo_queued: "\<exists>s. replay demoEnv [] [ask 1 ''b'', ask 2 ''a''] initRouter = Some s
    \<and> r_running s \<and> map rq_id (r_queued s) = [2] \<and> map fst (r_log s) = [1]"
  by (simp add: router_eval)

theorem swap_never_stops_busy_witness:
  "\<exists>s. replay demoEnv [] [ask 1 ''b'', EvServeDone ''b'', ask 2 ''a''] initRouter = Some s
     \<and> (''a'', [''b'']) \<in> set (r_spawned s) \<and> servedCount (r_log s) ''b'' = 1"
proof -
  obtain s where s: "replay demoEnv [] [ask 1 ''b'', EvServeDone ''b'', ask 2 ''a''] initRouter = Some s"
    "r_running s" "r_spawned s = [(''a'', [''b''])]" using demo_swap by blast
  have "servedCount (r_log s) ''b'' = doneCount [ask 1 ''b'', EvServeDone ''b'', ask 2 ''a''] ''b''"
    by (rule swap_never_stops_busy [OF run_replay [OF s(1)] s(2), of "''a''" "[''b'']"])
      (simp_all add: s(3) isUnload_def ask_def)
  then have "servedCount (r_log s) ''b'' = 1" by (simp add: doneCount_def ask_def)
  with s show ?thesis by simp
qed

theorem requests_conserved_witness:
  "\<exists>s. replay demoEnv [] [ask 1 ''b'', ask 2 ''a''] initRouter = Some s \<and> {#1, 2#} = mset (map fst (r_log s)) + waiterIds (r_active s) + ids (r_queued s)"
proof -
  obtain s where s: "replay demoEnv [] [ask 1 ''b'', ask 2 ''a''] initRouter = Some s" using demo_queued by blast
  from requests_conserved [OF run_replay [OF s]]
  have e: "acceptedIds [ask 1 ''b'', ask 2 ''a''] = mset (map fst (r_log s)) + waiterIds (r_active s) + ids (r_queued s)" by (rule conjunct1)
  have "{#1, 2#} = acceptedIds [ask 1 ''b'', ask 2 ''a'']" by (simp add: acceptedIds_def ask_def)
  from trans [OF this e] s show ?thesis by (intro exI conjI)
qed

theorem queued_request_has_wakeup_witness:
  "\<exists>s. replay demoEnv [] [ask 1 ''b'', ask 2 ''a''] initRouter = Some s \<and> r_queued s \<noteq> []
     \<and> (\<exists>ev. enabled [ask 1 ''b'', ask 2 ''a''] ev s)"
proof -
  obtain s where s: "replay demoEnv [] [ask 1 ''b'', ask 2 ''a''] initRouter = Some s" "r_running s" "map rq_id (r_queued s) = [2]"
    using demo_queued by (elim exE conjE)
  have q: "r_queued s \<noteq> []" using s(3) by auto
  from queued_request_has_wakeup [OF run_replay [OF s(1)] s(2) q]
  have "\<exists>ev. enabled [ask 1 ''b'', ask 2 ''a''] ev s" by blast
  with s(1) q show ?thesis by (intro exI [of _ s] conjI)
qed

text \<open>
  A swap of model a is unloaded while its goroutine is out; a later request for a starts a
  new swap. The report of the first goroutine then answers the later request with the failure of
  the first swap, and removes the new swap, whose goroutine is still out.
\<close>

theorem stale_report_answers_new_request:
  "\<exists>s. run_of demoEnv [ask 1 ''a'', EvUnload [''a''], ask 2 ''a'', EvSwapDone ''a'' [''b''] (Some (StopFailed ''a'' 1 [''timeout'']))] s
     \<and> r_log s = [(1, ErrUnloaded, True), (2, ErrSwap (StopFailed ''a'' 1 [''timeout'']), True)]
     \<and> r_active s = [] \<and> r_spawned s = [(''a'', [''b''])]"
proof -
  have "\<exists>s. replay demoEnv [] [ask 1 ''a'', EvUnload [''a''], ask 2 ''a'', EvSwapDone ''a'' [''b''] (Some (StopFailed ''a'' 1 [''timeout'']))] initRouter = Some s
     \<and> r_log s = [(1, ErrUnloaded, True), (2, ErrSwap (StopFailed ''a'' 1 [''timeout'']), True)]
     \<and> r_active s = [] \<and> r_spawned s = [(''a'', [''b''])]"
    by (simp add: router_eval)
  then show ?thesis using run_replay by blast
qed

text \<open>
  The goroutine of a swap starts its target only after every evicted model stopped without an
  error, and then with the model's own deadline; a failed stop is reported instead.
\<close>

theorem swap_starts_after_clean_stops:
  "case doSwap globalSecs modelSecs e target toStop of (started, report) \<Rightarrow>
     (started \<noteq> None \<longleftrightarrow> list_all (\<lambda>m. se_stop e m = None) toStop \<and> startableFrom (se_targetState e))
     \<and> (report = None \<longleftrightarrow> list_all (\<lambda>m. se_stop e m = None) toStop \<and> se_waitReady e = None)
     \<and> (case started of None \<Rightarrow> True | Some t \<Rightarrow> 0 < t)"
proof -
  have "List.map_filter (se_stop e) toStop = [] \<longleftrightarrow> list_all (\<lambda>m. se_stop e m = None) toStop"
    by (auto simp: List.map_filter_def filter_empty_conv list_all_iff)
  moreover have "0 < healthCheckTimeoutFor globalSecs modelSecs target"
    by (auto simp: healthCheckTimeoutFor_def healthCheckTimeout_def secondNs_def split: option.split)
  ultimately show ?thesis by (auto simp: doSwap_def Let_def split: option.split)
qed

end
