(* ===== verification/Go_Text.thy ===== *)
theory Go_Text
  imports Skein_Prelude
begin

text \<open>
  More of Go's \<open>strings\<close> and \<open>strconv\<close>, as the process, placement and configuration code calls it:
  \<open>TrimSpace\<close>, \<open>Fields\<close>, \<open>Join\<close>, \<open>ContainsAny\<close>-style tests and \<open>Atoi\<close> / \<open>ParseInt(s, 10, 64)\<close>.
  Text is bytes; white space is ASCII white space.
\<close>

definition isSpaceB :: "char \<Rightarrow> bool" where
  "isSpaceB c = (let n = of_char c :: nat in (9 \<le> n \<and> n \<le> 13) \<or> n = 32)"

definition newline :: char where
  "newline = CHR 10"

definition trimB :: "string \<Rightarrow> string" where
  "trimB s = rev (dropWhile isSpaceB (rev (dropWhile isSpaceB s)))"

fun fieldsFrom :: "string \<Rightarrow> string \<Rightarrow> string list" where
  "fieldsFrom cur [] = (if cur = [] then [] else [rev cur])"
| "fieldsFrom cur (c # cs) =
     (if isSpaceB c then (if cur = [] then fieldsFrom [] cs else rev cur # fieldsFrom [] cs)
      else fieldsFrom (c # cur) cs)"

definition goFields :: "string \<Rightarrow> string list" where
  "goFields s = fieldsFrom [] s"

fun joinStr :: "string \<Rightarrow> string list \<Rightarrow> string" where
  "joinStr sep [] = []"
| "joinStr sep [w] = w"
| "joinStr sep (w # ws) = w @ sep @ joinStr sep ws"

definition digitVal :: "char \<Rightarrow> int" where
  "digitVal c = of_char c - 48"

definition decimal :: "string \<Rightarrow> int" where
  "decimal ds = foldl (\<lambda>n c. 10 * n + digitVal c) 0 ds"

definition signOf :: "string \<Rightarrow> bool \<times> string" where
  "signOf s =
     (case s of
        [] \<Rightarrow> (False, [])
      | c # cs \<Rightarrow> if c = CHR ''-'' then (True, cs) else if c = CHR ''+'' then (False, cs) else (False, s))"

text \<open>\<open>None\<close> is a syntax or a range error.\<close>

definition parseInt64 :: "string \<Rightarrow> int option" where
  "parseInt64 s =
     (case signOf s of
        (neg, ds) \<Rightarrow>
          if ds = [] \<or> \<not> list_all isDigitCh ds then None
          else let v = (if neg then - decimal ds else decimal ds) in
            if - (2 ^ 63) \<le> v \<and> v < 2 ^ 63 then Some v else None)"

definition containsAny :: "string \<Rightarrow> string list \<Rightarrow> bool" where
  "containsAny s needles = list_ex (contains s) needles"

definition containsCh :: "string \<Rightarrow> char \<Rightarrow> bool" where
  "containsCh s c = (c \<in> set s)"

definition isWord :: "string \<Rightarrow> bool" where
  "isWord w = (w \<noteq> [] \<and> list_all (\<lambda>c. \<not> isSpaceB c) w)"

lemma fieldsFrom_words: "list_all (\<lambda>c. \<not> isSpaceB c) cur \<Longrightarrow> list_all isWord (fieldsFrom cur s)"
  by (induction cur s rule: fieldsFrom.induct) (simp_all add: isWord_def list_all_rev)

lemma fields_words: "list_all isWord (goFields s)"
  unfolding goFields_def by (rule fieldsFrom_words) simp

lemma fieldsFrom_snoc: "list_all (\<lambda>c. \<not> isSpaceB c) w \<Longrightarrow> fieldsFrom cur (w @ s) = fieldsFrom (rev w @ cur) s"
  by (induction w arbitrary: cur) simp_all

text \<open>Joining words with blanks and splitting them again gives the words.\<close>

lemma fields_join: "list_all isWord ws \<Longrightarrow> goFields (joinStr '' '' ws) = ws"
proof (induction "'' ''" ws rule: joinStr.induct)
  case (2 w)
  then show ?case using fieldsFrom_snoc [of w "[]" "[]"] by (simp add: goFields_def isWord_def)
next
  case (3 w v ws)
  then have "goFields (joinStr '' '' (v # ws)) = v # ws" by simp
  moreover have "isSpaceB CHR '' ''" by (simp add: isSpaceB_def)
  ultimately show ?case using 3(2) fieldsFrom_snoc [of w "[]" "CHR '' '' # joinStr '' '' (v # ws)"]
    by (simp add: goFields_def isWord_def)
qed (simp add: goFields_def)

lemma parseInt64_range: "parseInt64 s = Some v \<Longrightarrow> - (2 ^ 63) \<le> v \<and> v < 2 ^ 63"
  by (auto simp: parseInt64_def Let_def split: prod.splits if_splits)

subsection \<open>Numbers as text\<close>

definition digitCh :: "nat \<Rightarrow> char" where
  "digitCh d = char_of (48 + d)"

fun natText :: "nat \<Rightarrow> string" where
  "natText n = (if n < 10 then [digitCh n] else natText (n div 10) @ [digitCh (n mod 10)])"

declare natText.simps [simp del]

text \<open>\<open>strconv.Itoa\<close>.\<close>

definition itoa :: "int \<Rightarrow> string" where
  "itoa n = (if n < 0 then CHR ''-'' # natText (nat (- n)) else natText (nat n))"

lemma digitCh_table: "list_all (\<lambda>d. digitVal (digitCh d) = int d \<and> isDigitCh (digitCh d)) [0..<10]"
  by code_simp

lemma digitCh_val: "d < 10 \<Longrightarrow> digitVal (digitCh d) = int d"
  using digitCh_table by (simp add: list_all_iff)

lemma digitCh_isDigit: "d < 10 \<Longrightarrow> isDigitCh (digitCh d)"
  using digitCh_table by (simp add: list_all_iff)

lemma decimal_snoc: "decimal (ds @ [c]) = 10 * decimal ds + digitVal c"
  by (simp add: decimal_def)

lemma natText_decimal: "decimal (natText n) = int n"
proof (induction n rule: natText.induct)
  case (1 n)
  show ?case
  proof (cases "n < 10")
    case True
    then show ?thesis by (subst natText.simps) (simp add: decimal_def digitCh_val)
  next
    case False
    then have "decimal (natText n) = 10 * int (n div 10) + int (n mod 10)"
      using 1 by (subst natText.simps) (simp add: decimal_snoc digitCh_val)
    also have "\<dots> = int (10 * (n div 10) + n mod 10)" by (simp only: of_nat_add of_nat_mult of_nat_numeral)
    also have "\<dots> = int n" by (simp only: mult_div_mod_eq)
    finally show ?thesis .
  qed
qed

lemma natText_digits: "natText n \<noteq> [] \<and> list_all isDigitCh (natText n)"
proof (induction n rule: natText.induct)
  case (1 n)
  then show ?case by (subst natText.simps, subst (2) natText.simps) (simp add: digitCh_isDigit)
qed

lemma isDigit_range: "isDigitCh c \<Longrightarrow> c \<noteq> CHR ''-'' \<and> c \<noteq> CHR ''+'' \<and> \<not> isSpaceB c"
  by (auto simp: isDigitCh_def less_eq_char_def isSpaceB_def Let_def)

lemma signOf_digits: "ds \<noteq> [] \<Longrightarrow> list_all isDigitCh ds \<Longrightarrow> signOf ds = (False, ds)"
  by (cases ds) (auto simp: signOf_def dest: isDigit_range)

text \<open>Printing an int64 and parsing it gives the number back.\<close>

lemma parseInt64_itoa:
  assumes "- (2 ^ 63) \<le> n" and "n < 2 ^ 63"
  shows "parseInt64 (itoa n) = Some n"
proof (cases "n < 0")
  case True
  then show ?thesis using assms natText_digits [of "nat (- n)"]
    by (simp add: parseInt64_def itoa_def signOf_def natText_decimal)
next
  case False
  then show ?thesis using assms natText_digits [of "nat n"]
    by (simp add: parseInt64_def itoa_def signOf_digits natText_decimal)
qed

lemma itoa_word: "isWord (itoa n)"
proof -
  have "\<not> isSpaceB CHR ''-''" by (simp add: isSpaceB_def)
  then show ?thesis using natText_digits by (auto simp: isWord_def itoa_def list_all_iff dest: isDigit_range)
qed

end
