(* ===== verification/Failure_Class.thy ===== *)
theory Failure_Class
  imports Go_Text
begin

text \<open>
  Reading a backend's output: the classification of failures (\<open>internal/process/failureclass.go\<close>),
  the last output lines quoted in errors, the slot count of a launch command
  (\<open>process_command.go\<close>) and the resident set size (\<open>rss.go\<close>).
\<close>

section \<open>Failure classes\<close>

datatype failure_class =
    ClassGPUOOM | ClassHostOOM | ClassUnsupportedArch | ClassMissingShard | ClassInvalidFlag | ClassBackendError | ClassCrashOther

definition isMemory :: "failure_class \<Rightarrow> bool" where
  "isMemory c = (c = ClassGPUOOM \<or> c = ClassHostOOM)"

record exit_info =
  xi_code :: int
  xi_err :: string

definition deviceWords :: "string list" where
  "deviceWords = [''cuda'', ''hip'', ''rocm'', ''vram'', ''metal'', ''vulkan'', ''sycl'', ''device memory'', ''gpu'']"

definition classRules :: "(failure_class \<times> string list) list" where
  "classRules =
     [(ClassUnsupportedArch,
        [''unknown model architecture'', ''unsupported model architecture'', ''unknown architecture'',
         ''unsupported architecture'', ''unknown arch'']),
      (ClassMissingShard,
        [''no such file or directory'', ''failed to open gguf file'', ''failed to load model from file'',
         ''missing split'', ''invalid split file'', ''unable to load model'']),
      (ClassInvalidFlag,
        [''invalid argument'', ''unrecognized argument'', ''unknown argument'', ''error while handling argument'',
         ''invalid parameter'']),
      (ClassBackendError,
        [''no usable gpu'', ''no compatible gpu'', ''failed to initialize backend'', ''hiperrornodevice'',
         ''no cuda-capable device'', ''failed to initialize hip'', ''backend is in error state''])]"

definition oomPatterns :: "string list" where
  "oomPatterns =
     [''out of memory'', ''outofmemory'', ''failed to allocate'', ''cannot allocate memory'', ''std::bad_alloc'',
      ''buffer allocation failed'', ''insufficient memory'', ''oom'']"

fun classifyLines :: "string list \<Rightarrow> failure_class option" where
  "classifyLines [] = None"
| "classifyLines (line # lines) =
     (if \<not> containsAny line oomPatterns then classifyLines lines
      else if containsAny line deviceWords then Some ClassGPUOOM
      else Some ClassHostOOM)"

fun applyRules :: "string \<Rightarrow> (failure_class \<times> string list) list \<Rightarrow> failure_class" where
  "applyRules lower [] = ClassCrashOther"
| "applyRules lower ((c, patterns) # rules) = (if containsAny lower patterns then c else applyRules lower rules)"

definition killed :: "exit_info \<Rightarrow> bool" where
  "killed e = (xi_code e = 137 \<or> contains (toLower (xi_err e)) ''signal: killed'')"

definition classifyFailure :: "exit_info \<Rightarrow> string \<Rightarrow> failure_class" where
  "classifyFailure e output =
     (if killed e then ClassHostOOM
      else let lower = toLower output in
        if lower = [] then ClassCrashOther
        else case classifyLines (splitOn newline lower) of
               Some c \<Rightarrow> c
             | None \<Rightarrow> applyRules lower classRules)"

lemma classifyLines_find:
  "classifyLines lines = map_option (\<lambda>l. if containsAny l deviceWords then ClassGPUOOM else ClassHostOOM)
     (List.find (\<lambda>l. containsAny l oomPatterns) lines)"
  by (induction lines) auto

lemma applyRules_not_memory:
  "\<forall>(c, ps) \<in> set rules. \<not> isMemory c \<Longrightarrow> \<not> isMemory (applyRules lower rules)"
  by (induction lower rules rule: applyRules.induct) (auto simp: isMemory_def)

lemma classRules_not_memory: "\<forall>(c, ps) \<in> set classRules. \<not> isMemory c"
  by (simp add: classRules_def isMemory_def)

lemma oom_not_empty_line: "\<not> containsAny [] oomPatterns"
  by code_simp

text \<open>
  A failure is classed as memory, which is what lets a placement retry run, exactly when the
  backend was killed or some line of its output names an allocation failure; it is the GPU's memory
  exactly when the first such line names a device.
\<close>

theorem classify_memory_iff:
  "(isMemory (classifyFailure e output) \<longleftrightarrow>
     killed e \<or> list_ex (\<lambda>l. containsAny l oomPatterns) (splitOn newline (toLower output)))
   \<and> (classifyFailure e output = ClassGPUOOM \<longleftrightarrow>
     \<not> killed e \<and> (case List.find (\<lambda>l. containsAny l oomPatterns) (splitOn newline (toLower output)) of
        None \<Rightarrow> False | Some l \<Rightarrow> containsAny l deviceWords))"
proof -
  let ?ls = "splitOn newline (toLower output)"
  have rules: "applyRules (toLower output) classRules \<noteq> ClassGPUOOM" "applyRules (toLower output) classRules \<noteq> ClassHostOOM"
    using applyRules_not_memory [OF classRules_not_memory, of "toLower output"] by (auto simp: isMemory_def)
  have empty: "List.find (\<lambda>l. containsAny l oomPatterns) ?ls = None" if "toLower output = []"
    using that oom_not_empty_line by simp
  have ex: "list_ex (\<lambda>l. containsAny l oomPatterns) ?ls \<longleftrightarrow> List.find (\<lambda>l. containsAny l oomPatterns) ?ls \<noteq> None"
    unfolding list_ex_iff find_None_iff by blast
  show ?thesis unfolding ex using rules empty
    by (cases "List.find (\<lambda>l. containsAny l oomPatterns) ?ls"; cases "toLower output = []")
      (simp_all add: classifyFailure_def classifyLines_find Let_def isMemory_def)
qed

text \<open>
  The pattern \<open>oom\<close> is a substring test: a line with the word \<open>room\<close> makes an invalid flag, and
  an unknown architecture, a memory failure.
\<close>

theorem classify_room_as_memory:
  "classifyFailure \<lparr>xi_code = 1, xi_err = ''exit status 1''\<rparr> ''error: invalid argument: --room'' = ClassHostOOM
   \<and> classifyFailure \<lparr>xi_code = 1, xi_err = ''exit status 1''\<rparr> ''unknown model architecture: boomer'' = ClassHostOOM"
  by code_simp

section \<open>Output lines, slot counts and resident memory\<close>

fun keepLast :: "nat \<Rightarrow> string list \<Rightarrow> string list \<Rightarrow> string list" where
  "keepLast n [] kept = kept"
| "keepLast n (line # lines) kept =
     (if length kept \<ge> n then kept
      else let line = trimB line in keepLast n lines (if line \<noteq> [] then line # kept else kept))"

definition lastOutputLines :: "string \<Rightarrow> nat \<Rightarrow> string" where
  "lastOutputLines history n =
     (if history = [] then []
      else joinStr ''; '' (keepLast n (rev (splitOn newline (trimB history))) []))"

fun parallelFrom :: "string list \<Rightarrow> int option" where
  "parallelFrom [] = None"
| "parallelFrom (tok # rest) =
     (let val =
        (if tok = ''--parallel'' \<or> tok = ''-np'' then (case rest of [] \<Rightarrow> [] | v # _ \<Rightarrow> v)
         else case cutPrefix tok ''--parallel='' of
                Some v \<Rightarrow> v
              | None \<Rightarrow> (case cutPrefix tok ''-np='' of Some v \<Rightarrow> v | None \<Rightarrow> []))
      in case (if val \<noteq> [] then parseInt64 val else None) of
           Some n \<Rightarrow> if n > 0 then Some n else parallelFrom rest
         | None \<Rightarrow> parallelFrom rest)"

definition parallelFromCmd :: "string \<Rightarrow> int option" where
  "parallelFromCmd cmd = parallelFrom (goFields cmd)"

text \<open>The product is Go's \<open>int64\<close> product: it wraps.\<close>

definition wrap64 :: "int \<Rightarrow> int" where
  "wrap64 n = (n + 2 ^ 63) mod 2 ^ 64 - 2 ^ 63"

fun parseVmRSSLines :: "string list \<Rightarrow> int" where
  "parseVmRSSLines [] = 0"
| "parseVmRSSLines (line # lines) =
     (case cutPrefix line ''VmRSS:'' of
        None \<Rightarrow> parseVmRSSLines lines
      | Some rest \<Rightarrow>
          (case goFields rest of
             [] \<Rightarrow> 0
           | f # _ \<Rightarrow> (case parseInt64 f of None \<Rightarrow> 0 | Some kb \<Rightarrow> wrap64 (kb * 1024))))"

definition parseVmRSS :: "string \<Rightarrow> int" where
  "parseVmRSS status = parseVmRSSLines (splitOn newline status)"

definition takeLast :: "nat \<Rightarrow> 'a list \<Rightarrow> 'a list" where
  "takeLast n xs = drop (length xs - n) xs"

lemma keepLast_take:
  "length kept \<le> n \<Longrightarrow> keepLast n lines kept = rev (take (n - length kept) (filter (\<lambda>l. l \<noteq> []) (map trimB lines))) @ kept"
proof (induction lines arbitrary: kept)
  case (Cons line lines)
  show ?case
  proof (cases "length kept \<ge> n")
    case False
    then have "n - length kept = Suc (n - Suc (length kept))" by simp
    with False Cons show ?thesis by (simp add: Let_def)
  qed (use Cons.prems in simp)
qed simp

text \<open>
  The quoted output is the last n non-blank lines of the history, trimmed, in their order.
\<close>

theorem last_output_lines:
  "lastOutputLines history n =
     joinStr ''; '' (takeLast n (filter (\<lambda>l. l \<noteq> []) (map trimB (splitOn newline (trimB history)))))"
proof (cases "history = []")
  case True
  then show ?thesis by (simp add: lastOutputLines_def takeLast_def trimB_def)
next
  case False
  have r: "rev (take n (rev ws)) = takeLast n ws" for ws :: "string list"
    by (simp add: takeLast_def rev_take)
  have "filter (\<lambda>l. l \<noteq> []) (map trimB (rev ls)) = rev (filter (\<lambda>l. l \<noteq> []) (map trimB ls))" for ls
    by (simp add: rev_filter rev_map)
  with False show ?thesis by (simp add: lastOutputLines_def keepLast_take r del: filter_map)
qed

end
