(* ===== verification/Process.thy ===== *)
theory Process
  imports Failure_Class Swap_Planner
begin

text \<open>
  The model process (\<open>internal/process/process_command.go\<close>): the single-writer loop \<open>run()\<close> with one
  definition per case of its select, the start routine \<open>doStart\<close>, \<open>killProcess\<close>, the crash-loop
  breaker, the retained failure, and the watchers (TTL, inference probe, slot recovery).

  The loop handles one message at a time; a start is one message together with what ends it (its own
  result, a \<open>Stop\<close> that arrives meanwhile, or the parent context). What the operating system and the
  backend do is the environment of a message. Callers of \<open>Run\<close>, \<open>WaitReady\<close> and \<open>Stop\<close> are numbers and
  \<open>pc_replies\<close> is what the loop sent to each. Times are nanoseconds.
\<close>

definition secNs :: int where
  "secNs = 1000000000"

section \<open>The crash-loop breaker\<close>

definition crashLoopWindow :: int where
  "crashLoopWindow = 600 * secNs"

definition crashLoopThreshold :: nat where
  "crashLoopThreshold = 3"

definition crashLoopCooldown :: int where
  "crashLoopCooldown = 60 * secNs"

definition recordUnexpectedExit :: "int \<Rightarrow> int list \<Rightarrow> int list" where
  "recordUnexpectedExit now hist = filter (\<lambda>t. now - t \<le> crashLoopWindow) hist @ [now]"

fun crashScan :: "int \<Rightarrow> int list \<Rightarrow> nat \<Rightarrow> int option \<Rightarrow> nat \<times> int option" where
  "crashScan now [] cnt latest = (cnt, latest)"
| "crashScan now (t # ts) cnt latest =
     (if now - t \<le> crashLoopWindow
      then crashScan now ts (Suc cnt) (case latest of None \<Rightarrow> Some t | Some l \<Rightarrow> if t > l then Some t else latest)
      else crashScan now ts cnt latest)"

text \<open>\<open>Some (cnt, wait)\<close> refuses the restart.\<close>

definition crashLoopError :: "int \<Rightarrow> int list \<Rightarrow> (nat \<times> int) option" where
  "crashLoopError now hist =
     (case crashScan now hist 0 None of
        (cnt, latest) \<Rightarrow>
          if cnt < crashLoopThreshold then None
          else case latest of
                 None \<Rightarrow> None
               | Some l \<Rightarrow> (let wait = crashLoopCooldown - (now - l) in if wait \<le> 0 then None else Some (cnt, wait)))"

section \<open>State of a process\<close>

datatype failure_category = FailureStart | FailureCrash

record load_error =
  le_message :: string
  le_category :: failure_category
  le_at :: int
  le_attempts :: int
  le_class :: failure_class

datatype proc_reply =
    ROk
  | RShutdown
  | RExitedUnexpectedly
  | RNotStartable process_state
  | RReclaiming
  | RAborted
  | RStartFailed string
  | RFailedWait "load_error option"
  | RStillAlive

record proc =
  pc_state :: process_state
  pc_cmd :: bool
  pc_handler :: bool
  pc_waiters :: "nat list"
  pc_runResp :: "nat option"
  pc_replies :: "(nat \<times> proc_reply) list"
  pc_leaked :: bool
  pc_lastError :: "load_error option"
  pc_attempts :: int
  pc_crashes :: "int list"
  pc_events :: "(process_state \<times> process_state) list"
  pc_running :: bool

definition newProcess :: proc where
  "newProcess = \<lparr>pc_state = StateStopped, pc_cmd = False, pc_handler = False, pc_waiters = [], pc_runResp = None,
     pc_replies = [], pc_leaked = False, pc_lastError = None, pc_attempts = 0, pc_crashes = [], pc_events = [], pc_running = True\<rparr>"

definition setState :: "process_state \<Rightarrow> proc \<Rightarrow> proc" where
  "setState st p = p\<lparr>pc_state := st, pc_events := (if pc_state p \<noteq> st then pc_events p @ [(pc_state p, st)] else pc_events p)\<rparr>"

definition respond :: "nat \<Rightarrow> proc_reply \<Rightarrow> proc \<Rightarrow> proc" where
  "respond i r p = p\<lparr>pc_replies := pc_replies p @ [(i, r)]\<rparr>"

definition notifyWaiters :: "proc_reply \<Rightarrow> proc \<Rightarrow> proc" where
  "notifyWaiters r p = p\<lparr>pc_replies := pc_replies p @ map (\<lambda>i. (i, r)) (pc_waiters p), pc_waiters := []\<rparr>"

definition respondRun :: "proc_reply \<Rightarrow> proc \<Rightarrow> proc" where
  "respondRun r p = (case pc_runResp p of None \<Rightarrow> p | Some i \<Rightarrow> (respond i r p)\<lparr>pc_runResp := None\<rparr>)"

definition recordFailure :: "string \<Rightarrow> failure_category \<Rightarrow> int \<Rightarrow> failure_class \<Rightarrow> proc \<Rightarrow> proc" where
  "recordFailure msg cat now cls p =
     p\<lparr>pc_attempts := pc_attempts p + 1,
       pc_lastError := Some \<lparr>le_message = msg, le_category = cat, le_at = now, le_attempts = pc_attempts p + 1, le_class = cls\<rparr>\<rparr>"

definition clearFailureStreak :: "proc \<Rightarrow> proc" where
  "clearFailureStreak p = p\<lparr>pc_attempts := 0\<rparr>"

definition failedWaitErr :: "proc \<Rightarrow> proc_reply" where
  "failedWaitErr p = RFailedWait (pc_lastError p)"

section \<open>Terminating the backend\<close>

datatype kill_outcome = ExitedInGrace | ExitedAfterKill | NotReaped

text \<open>The result says that the exit was confirmed; an abandoned wait marks the process as leaked.\<close>

definition killProcess :: "kill_outcome \<Rightarrow> proc \<Rightarrow> bool \<times> proc" where
  "killProcess k p =
     (case k of
        ExitedInGrace \<Rightarrow> (True, p)
      | ExitedAfterKill \<Rightarrow> (True, p)
      | NotReaped \<Rightarrow> (False, p\<lparr>pc_leaked := True\<rparr>))"

definition reapLeaked :: "proc \<Rightarrow> proc" where
  "reapLeaked p = p\<lparr>pc_leaked := False\<rparr>"

section \<open>Starting the backend\<close>

datatype select_result = SelCancelled | SelExited | SelDefault

record poll =
  pl_first :: select_result
  pl_now :: int
  pl_statusOk :: bool
  pl_cancelled :: bool
  pl_second :: select_result

datatype health = Healthy | HealthAborted | HealthExited | HealthTimedOut

text \<open>The health-check loop on fuel: \<open>None\<close> is a loop that has not ended within the fuel.\<close>

fun healthLoop :: "nat \<Rightarrow> (nat \<Rightarrow> poll) \<Rightarrow> nat \<Rightarrow> int \<Rightarrow> health option" where
  "healthLoop 0 polls i deadline = None"
| "healthLoop (Suc n) polls i deadline =
     (let pl = polls i in
      case pl_first pl of
        SelCancelled \<Rightarrow> Some HealthAborted
      | SelExited \<Rightarrow> Some HealthExited
      | SelDefault \<Rightarrow>
          if pl_now pl > deadline then Some HealthTimedOut
          else if pl_statusOk pl then Some Healthy
          else if pl_cancelled pl then Some HealthAborted
          else case pl_second pl of
                 SelCancelled \<Rightarrow> Some HealthAborted
               | SelExited \<Rightarrow> Some HealthExited
               | SelDefault \<Rightarrow> healthLoop n polls (Suc i) deadline)"

datatype warmup = WarmOk | WarmCancelled | WarmFailed string int

record start_env =
  se_now :: int
  se_proxy :: string
  se_commandError :: "string option"
  se_proxyURLError :: "string option"
  se_spawnError :: "string option"
  se_cancelledAtSpawn :: bool
  se_checkEndpoint :: string
  se_cancelledInDelay :: bool
  se_loopStart :: int
  se_polls :: "nat \<Rightarrow> poll"
  se_llamaCpp :: bool
  se_warmup :: warmup
  se_history :: string
  se_kill :: kill_outcome

record start_result =
  st_live :: bool
  st_err :: "string option"
  st_leaked :: bool
  st_crashAt :: "int option"

definition startErr :: "string \<Rightarrow> start_result" where
  "startErr msg = \<lparr>st_live = False, st_err = Some msg, st_leaked = False, st_crashAt = None\<rparr>"

definition startAbort :: "start_env \<Rightarrow> string \<Rightarrow> start_result" where
  "startAbort e msg = (startErr msg)\<lparr>st_leaked := (se_kill e = NotReaped)\<rparr>"

definition prematureExit :: "start_env \<Rightarrow> start_result" where
  "prematureExit e =
     (let detail = lastOutputLines (se_history e) 5 in
      if detail \<noteq> [] then startErr (''upstream command exited prematurely: '' @ detail)
      else startErr ''upstream command exited prematurely'')"

definition startOk :: start_result where
  "startOk = \<lparr>st_live = True, st_err = None, st_leaked = False, st_crashAt = None\<rparr>"

definition healthFuel :: "int \<Rightarrow> nat" where
  "healthFuel timeout = nat (timeout div secNs) + 2"

text \<open>What is checked before anything is spawned, and the start from there.\<close>

definition startChecks :: "start_env \<Rightarrow> int list \<Rightarrow> start_result option" where
  "startChecks e crashes =
     (if crashLoopError (se_now e) crashes \<noteq> None then Some (startErr ''refusing restart'')
      else if se_proxy e = [] then Some (startErr ''upstream proxy missing'')
      else case se_commandError e of
        Some msg \<Rightarrow> Some (startErr (''unable to get sanitized command: '' @ msg))
      | None \<Rightarrow>
      (case se_proxyURLError e of
        Some msg \<Rightarrow> Some (startErr (''invalid proxy URL: '' @ msg))
      | None \<Rightarrow> None))"

definition startSpawned :: "start_env \<Rightarrow> int \<Rightarrow> start_result option" where
  "startSpawned e timeout =
     (case se_spawnError e of
        Some msg \<Rightarrow> Some (startErr (''failed to start command: '' @ msg))
      | None \<Rightarrow>
        if se_cancelledAtSpawn e then Some (startAbort e ''aborted'')
        else if trimB (se_checkEndpoint e) = ''none'' then Some startOk
        else if se_cancelledInDelay e then Some (startAbort e ''aborted'')
        else case healthLoop (healthFuel timeout) (se_polls e) 0 (se_loopStart e + timeout) of
          None \<Rightarrow> None
        | Some HealthAborted \<Rightarrow> Some (startAbort e ''aborted'')
        | Some HealthExited \<Rightarrow> Some (prematureExit e)
        | Some HealthTimedOut \<Rightarrow> Some (startAbort e ''health check timed out'')
        | Some Healthy \<Rightarrow>
            if se_llamaCpp e then Some startOk
            else case se_warmup e of
                   WarmOk \<Rightarrow> Some startOk
                 | WarmCancelled \<Rightarrow> Some (startAbort e ''aborted'')
                 | WarmFailed msg at \<Rightarrow>
                     Some ((startAbort e (''model warm-up failed (process up but not serving): '' @ msg))\<lparr>st_crashAt := Some at\<rparr>))"

definition doStart :: "start_env \<Rightarrow> int \<Rightarrow> int list \<Rightarrow> start_result option" where
  "doStart e timeout crashes =
     (case startChecks e crashes of
        Some res \<Rightarrow> Some res
      | None \<Rightarrow> startSpawned e timeout)"

lemmas doStart_defs = doStart_def startChecks_def startSpawned_def

section \<open>The loop\<close>

text \<open>What a start leaves in the shared fields, whatever ends it.\<close>

definition startEffects :: "start_result \<Rightarrow> proc \<Rightarrow> proc" where
  "startEffects res p =
     p\<lparr>pc_leaked := (pc_leaked p \<or> st_leaked res),
       pc_crashes := (case st_crashAt res of None \<Rightarrow> pc_crashes p | Some at \<Rightarrow> recordUnexpectedExit at (pc_crashes p))\<rparr>"

datatype start_end = Finished int failure_class | StopMid nat kill_outcome | ParentMid kill_outcome

definition handleRun :: "nat \<Rightarrow> start_result \<Rightarrow> start_end \<Rightarrow> proc \<Rightarrow> proc" where
  "handleRun i res fin p =
     (if \<not> startableFrom (pc_state p) then respond i (RNotStartable (pc_state p)) p
      else if pc_leaked p then respond i RReclaiming p
      else
        let p1 = startEffects res (setState StateStarting p) in
        case fin of
          Finished now cls \<Rightarrow>
            (case st_err res of
               None \<Rightarrow>
                 (notifyWaiters ROk (setState StateReady (clearFailureStreak (p1\<lparr>pc_cmd := True, pc_handler := True\<rparr>))))\<lparr>pc_runResp := Some i\<rparr>
             | Some msg \<Rightarrow>
                 respond i (RStartFailed msg)
                   (notifyWaiters (RStartFailed msg) (setState StateFailed (recordFailure msg FailureStart now cls p1))))
        | StopMid j k \<Rightarrow>
            (case (if st_live res then killProcess k p1 else (True, p1)) of
               (clean, p2) \<Rightarrow>
                 respond j (if clean then ROk else RStillAlive)
                   (respond i RAborted (notifyWaiters RAborted (setState StateStopped p2))))
        | ParentMid k \<Rightarrow>
            (let p2 = setState StateShutdown p1;
                 p3 = (if st_live res then snd (killProcess k p2) else p2)
             in (respondRun RShutdown (notifyWaiters RShutdown p3))\<lparr>pc_running := False\<rparr>))"

definition handleStop :: "nat \<Rightarrow> kill_outcome \<Rightarrow> proc \<Rightarrow> proc" where
  "handleStop j k p =
     (case (if pc_cmd p
            then (case killProcess k (setState StateStopping p) of
                    (clean, p') \<Rightarrow> (if clean then ROk else RStillAlive, p'\<lparr>pc_cmd := False, pc_handler := False\<rparr>))
            else (if pc_leaked p then RReclaiming else ROk, p)) of
        (reply, p1) \<Rightarrow> respond j reply (respondRun ROk ((setState StateStopped p1)\<lparr>pc_crashes := []\<rparr>)))"

definition handleWaitReady :: "nat \<Rightarrow> proc \<Rightarrow> proc" where
  "handleWaitReady i p =
     (case pc_state p of
        StateReady \<Rightarrow> respond i ROk p
      | StateShutdown \<Rightarrow> respond i RShutdown p
      | StateFailed \<Rightarrow> respond i (failedWaitErr p) p
      | _ \<Rightarrow> p\<lparr>pc_waiters := pc_waiters p @ [i]\<rparr>)"

definition handleExit :: "int \<Rightarrow> failure_class \<Rightarrow> proc \<Rightarrow> proc" where
  "handleExit now cls p =
     (let p1 = p\<lparr>pc_cmd := False, pc_handler := False\<rparr>;
          p2 = setState StateFailed (recordFailure ''upstream exited unexpectedly'' FailureCrash now cls p1);
          p3 = p2\<lparr>pc_crashes := recordUnexpectedExit now (pc_crashes p2)\<rparr>
      in respondRun RExitedUnexpectedly p3)"

definition handleParentDone :: "kill_outcome \<Rightarrow> proc \<Rightarrow> proc" where
  "handleParentDone k p =
     (let p1 = setState StateShutdown p;
          p2 = (if pc_cmd p1 then (snd (killProcess k (p1\<lparr>pc_handler := False\<rparr>)))\<lparr>pc_cmd := False\<rparr> else p1)
      in (respondRun RShutdown (notifyWaiters RShutdown p2))\<lparr>pc_running := False\<rparr>)"

datatype proc_event =
    EvRun nat start_env int start_end
  | EvStopReq nat kill_outcome
  | EvWaitReady nat
  | EvExited int failure_class
  | EvParentDone kill_outcome
  | EvReaped

definition stepProc :: "proc_event \<Rightarrow> proc \<Rightarrow> proc" where
  "stepProc ev p =
     (case ev of
        EvRun i e timeout fin \<Rightarrow>
          (case doStart e timeout (pc_crashes p) of None \<Rightarrow> p | Some res \<Rightarrow> handleRun i res fin p)
      | EvStopReq j k \<Rightarrow> handleStop j k p
      | EvWaitReady i \<Rightarrow> handleWaitReady i p
      | EvExited now cls \<Rightarrow> handleExit now cls p
      | EvParentDone k \<Rightarrow> handleParentDone k p
      | EvReaped \<Rightarrow> reapLeaked p)"

section \<open>Runs of the loop\<close>

text \<open>Every unsuccessful poll waits a second.\<close>

definition wellClocked :: "start_env \<Rightarrow> bool" where
  "wellClocked e = (\<forall>i. se_loopStart e + int i * secNs \<le> pl_now (se_polls e i))"

definition startEndIds :: "start_end \<Rightarrow> nat list" where
  "startEndIds fin = (case fin of StopMid j k \<Rightarrow> [j] | _ \<Rightarrow> [])"

definition callIds :: "proc_event \<Rightarrow> nat list" where
  "callIds ev =
     (case ev of
        EvRun i e timeout fin \<Rightarrow> i # startEndIds fin
      | EvStopReq j k \<Rightarrow> [j]
      | EvWaitReady i \<Rightarrow> [i]
      | _ \<Rightarrow> [])"

definition calls :: "proc_event list \<Rightarrow> nat multiset" where
  "calls evs = mset (concat (map callIds evs))"

text \<open>The loop never answers a \<open>Run\<close> that the parent context cut short; \<open>Run\<close> itself watches that context.\<close>

definition cutShort :: "proc_event list \<Rightarrow> nat multiset" where
  "cutShort evs = mset (concat (map (\<lambda>ev. case ev of EvRun i e timeout (ParentMid k) \<Rightarrow> [i] | _ \<Rightarrow> []) evs))"

text \<open>
  What can arrive: a call that is not in the loop yet; the exit of the backend while one is running; the
  confirmation that a leaked backend exited. A start is only interrupted if it was begun.
\<close>

definition enabledProc :: "proc_event list \<Rightarrow> proc_event \<Rightarrow> proc \<Rightarrow> bool" where
  "enabledProc evs ev p = (pc_running p \<and> distinct (callIds ev) \<and> set (callIds ev) \<inter> set_mset (calls evs) = {}
     \<and> (case ev of
          EvRun i e timeout fin \<Rightarrow> wellClocked e
            \<and> ((\<exists>now cls. fin = Finished now cls) \<or> startableFrom (pc_state p) \<and> \<not> pc_leaked p)
        | EvExited now cls \<Rightarrow> pc_cmd p
        | EvReaped \<Rightarrow> pc_leaked p
        | _ \<Rightarrow> True))"

inductive proc_run :: "proc_event list \<Rightarrow> proc \<Rightarrow> bool" where
  proc_init: "proc_run [] newProcess"
| proc_step: "proc_run evs p \<Longrightarrow> enabledProc evs ev p \<Longrightarrow> proc_run (evs @ [ev]) (stepProc ev p)"

section \<open>A start ends\<close>

lemma healthLoop_ends:
  assumes "\<And>j. start + int j * secNs \<le> pl_now (polls j)" and "deadline - start < int (i + n) * secNs" and "0 < n"
  shows "healthLoop (Suc n) polls i deadline \<noteq> None"
  using assms(2,3)
proof (induction n arbitrary: i)
  case (Suc n)
  show ?case
  proof (cases "n = 0")
    case True
    have "deadline < pl_now (polls (Suc i))"
      using assms(1) [of "Suc i"] Suc.prems(1) True by (simp add: algebra_simps)
    then show ?thesis using True by (auto simp: Let_def split: select_result.split)
  next
    case False
    then have "healthLoop (Suc n) polls (Suc i) deadline \<noteq> None" using Suc.IH [of "Suc i"] Suc.prems(1) by simp
    then show ?thesis by (subst healthLoop.simps) (auto simp: Let_def simp del: healthLoop.simps split: select_result.split)
  qed
qed simp

lemma healthFuel_ends:
  assumes "wellClocked e"
  shows "healthLoop (healthFuel timeout) (se_polls e) 0 (se_loopStart e + timeout) \<noteq> None"
proof -
  have "timeout < (timeout div secNs + 1) * secNs"
  proof -
    have "timeout = timeout div secNs * secNs + timeout mod secNs" by simp
    moreover have "timeout mod secNs < secNs" by (simp add: secNs_def)
    ultimately show ?thesis by (simp only: distrib_right mult_1)
  qed
  also have "\<dots> \<le> int (nat (timeout div secNs) + 1) * secNs"
    by (intro mult_right_mono) (simp_all add: secNs_def)
  finally have "healthLoop (Suc (nat (timeout div secNs) + 1)) (se_polls e) 0 (se_loopStart e + timeout) \<noteq> None"
    by (intro healthLoop_ends [where start = "se_loopStart e"]) (use assms in \<open>simp_all add: wellClocked_def\<close>)
  then show ?thesis by (simp add: healthFuel_def del: healthLoop.simps)
qed

lemma doStart_total:
  assumes "wellClocked e"
  shows "doStart e timeout crashes \<noteq> None"
  using healthFuel_ends [OF assms, of timeout]
  by (auto simp: doStart_defs split: option.split health.split warmup.split)

lemma doStart_result:
  "doStart e timeout crashes = Some res \<Longrightarrow>
     (st_err res = None \<longleftrightarrow> st_live res) \<and> (st_live res \<longrightarrow> \<not> st_leaked res \<and> st_crashAt res = None)"
  by (auto simp: doStart_defs startErr_def startOk_def startAbort_def prematureExit_def Let_def
      split: option.splits health.splits warmup.splits if_splits)

section \<open>The invariant of the loop\<close>

definition procOk :: "proc \<Rightarrow> bool" where
  "procOk p =
     ((pc_cmd p \<longleftrightarrow> pc_state p = StateReady) \<and> pc_handler p = pc_cmd p
      \<and> (pc_runResp p \<noteq> None \<longleftrightarrow> pc_cmd p) \<and> (pc_cmd p \<longrightarrow> \<not> pc_leaked p)
      \<and> (if pc_running p then pc_state p \<in> {StateStopped, StateReady, StateFailed}
          else pc_state p = StateShutdown \<and> pc_waiters p = [])
      \<and> (pc_waiters p \<noteq> [] \<longrightarrow> pc_state p = StateStopped)
      \<and> (pc_state p = StateFailed \<longrightarrow> pc_lastError p \<noteq> None) \<and> 0 \<le> pc_attempts p)"

lemmas proc_defs = setState_def respond_def notifyWaiters_def respondRun_def recordFailure_def clearFailureStreak_def
  killProcess_def startEffects_def

lemma procOk_run:
  assumes "procOk p" and "pc_running p" and "doStart e timeout (pc_crashes p) = Some res"
    and "(\<exists>now cls. fin = Finished now cls) \<or> startableFrom (pc_state p) \<and> \<not> pc_leaked p"
  shows "procOk (handleRun i res fin p)"
proof (cases "startableFrom (pc_state p) \<and> \<not> pc_leaked p")
  case False
  then show ?thesis using assms(1) by (auto simp: handleRun_def procOk_def respond_def)
next
  case True
  with assms(1,2) have idle: "\<not> pc_cmd p" "\<not> pc_handler p" "pc_runResp p = None" "0 \<le> pc_attempts p"
    by (auto simp: procOk_def startableFrom_def)
  note res = doStart_result [OF assms(3)]
  show ?thesis
  proof (cases fin)
    case (Finished now cls)
    with True idle res assms(2) show ?thesis
      by (cases "st_err res") (simp_all add: handleRun_def procOk_def proc_defs)
  next
    case (StopMid j k)
    with True idle assms(2) show ?thesis
      by (cases "st_live res"; cases k) (simp_all add: handleRun_def procOk_def proc_defs Let_def)
  next
    case (ParentMid k)
    with True idle assms(2) show ?thesis
      by (cases "st_live res"; cases k) (simp_all add: handleRun_def procOk_def proc_defs Let_def)
  qed
qed

lemma procOk_step:
  assumes "procOk p" and "enabledProc evs ev p"
  shows "procOk (stepProc ev p)"
proof (cases ev)
  case (EvRun i e timeout fin)
  with assms(2) have "wellClocked e" by (simp add: enabledProc_def)
  then obtain res where r: "doStart e timeout (pc_crashes p) = Some res" using doStart_total by blast
  have "procOk (handleRun i res fin p)"
    by (rule procOk_run [OF assms(1) _ r]) (use assms(2) EvRun in \<open>auto simp: enabledProc_def\<close>)
  with r EvRun show ?thesis by (simp add: stepProc_def)
next
  case (EvStopReq j k)
  with assms show ?thesis
    by (cases "pc_cmd p"; cases k; cases "pc_runResp p")
      (simp_all add: stepProc_def handleStop_def procOk_def proc_defs enabledProc_def)
next
  case (EvWaitReady i)
  with assms show ?thesis
    by (cases "pc_state p") (simp_all add: stepProc_def handleWaitReady_def procOk_def respond_def enabledProc_def)
next
  case (EvExited now cls)
  with assms show ?thesis
    by (cases "pc_runResp p") (auto simp: stepProc_def handleExit_def procOk_def proc_defs enabledProc_def Let_def)
next
  case (EvParentDone k)
  with assms show ?thesis
    by (cases "pc_cmd p"; cases k; cases "pc_runResp p")
      (simp_all add: stepProc_def handleParentDone_def procOk_def proc_defs enabledProc_def Let_def)
next
  case EvReaped
  with assms show ?thesis by (auto simp: stepProc_def reapLeaked_def procOk_def)
qed

lemma procOk_reachable: "proc_run evs p \<Longrightarrow> procOk p"
proof (induction rule: proc_run.induct)
  case proc_init
  show ?case by (simp add: procOk_def newProcess_def)
qed (rule procOk_step)

section \<open>The state machine\<close>

fun legalMove :: "process_state \<Rightarrow> process_state \<Rightarrow> bool" where
  "legalMove StateStopped st = (st \<in> {StateStarting, StateShutdown})"
| "legalMove StateFailed st = (st \<in> {StateStarting, StateStopped, StateShutdown})"
| "legalMove StateStarting st = (st \<in> {StateReady, StateFailed, StateStopped, StateShutdown})"
| "legalMove StateReady st = (st \<in> {StateStopping, StateFailed, StateShutdown})"
| "legalMove StateStopping st = (st = StateStopped)"
| "legalMove StateShutdown st = False"

fun movesTo :: "process_state \<Rightarrow> (process_state \<times> process_state) list \<Rightarrow> process_state \<Rightarrow> bool" where
  "movesTo st [] st' = (st = st')"
| "movesTo st ((a, b) # es) st' = (a = st \<and> legalMove a b \<and> movesTo b es st')"

lemma movesTo_snoc: "movesTo st (es @ [(a, b)]) st' \<longleftrightarrow> movesTo st es a \<and> legalMove a b \<and> b = st'"
  by (induction st es a rule: movesTo.induct) auto

abbreviation historyOk :: "proc \<Rightarrow> bool" where
  "historyOk p \<equiv> movesTo StateStopped (pc_events p) (pc_state p)"

lemma setState_history: "historyOk p \<Longrightarrow> st = pc_state p \<or> legalMove (pc_state p) st \<Longrightarrow> historyOk (setState st p)"
  by (auto simp: setState_def movesTo_snoc)

lemma history_simps [simp]:
  "pc_state (respond i r p) = pc_state p" "pc_events (respond i r p) = pc_events p"
  "pc_state (notifyWaiters r p) = pc_state p" "pc_events (notifyWaiters r p) = pc_events p"
  "pc_state (respondRun r p) = pc_state p" "pc_events (respondRun r p) = pc_events p"
  "pc_state (recordFailure msg cat now cls p) = pc_state p" "pc_events (recordFailure msg cat now cls p) = pc_events p"
  "pc_state (clearFailureStreak p) = pc_state p" "pc_events (clearFailureStreak p) = pc_events p"
  "pc_state (snd (killProcess k p)) = pc_state p" "pc_events (snd (killProcess k p)) = pc_events p"
  "pc_state (startEffects res p) = pc_state p" "pc_events (startEffects res p) = pc_events p"
  "pc_state (setState st p) = st"
  by (simp_all add: respond_def notifyWaiters_def respondRun_def recordFailure_def clearFailureStreak_def killProcess_def
      startEffects_def setState_def split: option.split kill_outcome.split)

lemma setState_events: "pc_events (setState st p) = (if pc_state p \<noteq> st then pc_events p @ [(pc_state p, st)] else pc_events p)"
  by (simp add: setState_def)

lemma historyOk_step:
  assumes "historyOk p" and "procOk p" and "enabledProc evs ev p"
  shows "historyOk (stepProc ev p)"
proof (cases ev)
  case (EvRun i e timeout fin)
  show ?thesis
  proof (cases "doStart e timeout (pc_crashes p)")
    case (Some res)
    have S: "stepProc ev p = handleRun i res fin p" by (simp add: EvRun stepProc_def Some)
    show ?thesis
    proof (cases "startableFrom (pc_state p) \<and> \<not> pc_leaked p")
      case True
      then have "pc_state p = StateStopped \<or> pc_state p = StateFailed" by (simp add: startableFrom_def)
      with True assms(1) show ?thesis
        unfolding S by (cases fin; cases "st_err res")
          (auto simp: handleRun_def Let_def setState_events movesTo_snoc case_prod_unfold startableFrom_def)
    qed (use assms(1) in \<open>auto simp: S handleRun_def\<close>)
  qed (use assms(1) EvRun in \<open>simp add: stepProc_def\<close>)
next
  case (EvStopReq j k)
  from assms(2,3) have "pc_state p \<in> {StateStopped, StateReady, StateFailed}" "pc_cmd p = (pc_state p = StateReady)"
    by (auto simp: procOk_def enabledProc_def)
  with assms(1) show ?thesis
    by (auto simp: EvStopReq stepProc_def handleStop_def case_prod_unfold setState_events movesTo_snoc)
next
  case (EvWaitReady i)
  with assms(1) show ?thesis by (cases "pc_state p") (simp_all add: stepProc_def handleWaitReady_def)
next
  case (EvExited now cls)
  with assms show ?thesis
    by (auto simp: stepProc_def handleExit_def Let_def setState_events movesTo_snoc enabledProc_def procOk_def)
next
  case (EvParentDone k)
  from assms(2,3) have "pc_state p \<in> {StateStopped, StateReady, StateFailed}" by (auto simp: procOk_def enabledProc_def)
  with assms(1) EvParentDone show ?thesis
    by (auto simp: stepProc_def handleParentDone_def Let_def setState_events movesTo_snoc)
next
  case EvReaped
  with assms(1) show ?thesis by (simp add: stepProc_def reapLeaked_def)
qed

text \<open>
  C2. In every run of the loop, between messages: the process is ready exactly when it owns a
  backend, and then it has a handler and a parked caller of \<open>Run\<close>; a failed process has a recorded
  failure; a new backend is never owned while an old one may be alive; callers of \<open>WaitReady\<close> are only
  parked while it is stopped, and none is after a shutdown. The emitted state changes form one chain
  of legal moves from stopped to the current state.
\<close>

theorem process_lifecycle:
  assumes "proc_run evs p"
  shows "(pc_cmd p \<longleftrightarrow> pc_state p = StateReady) \<and> (pc_handler p \<longleftrightarrow> pc_cmd p) \<and> (pc_runResp p \<noteq> None \<longleftrightarrow> pc_cmd p)
    \<and> \<not> (pc_cmd p \<and> pc_leaked p) \<and> (pc_state p = StateFailed \<longrightarrow> pc_lastError p \<noteq> None)
    \<and> (pc_waiters p \<noteq> [] \<longrightarrow> pc_state p = StateStopped) \<and> (pc_running p \<longleftrightarrow> pc_state p \<noteq> StateShutdown)
    \<and> movesTo StateStopped (pc_events p) (pc_state p)"
proof -
  have "historyOk p" using assms
  proof (induction rule: proc_run.induct)
    case (proc_step evs p ev)
    then show ?case using historyOk_step procOk_reachable by blast
  qed (simp add: newProcess_def)
  with procOk_reachable [OF assms] show ?thesis by (auto simp: procOk_def split: if_splits)
qed

section \<open>Every call is answered\<close>

definition held :: "proc \<Rightarrow> nat multiset" where
  "held p = mset (map fst (pc_replies p)) + mset (pc_waiters p) + (case pc_runResp p of None \<Rightarrow> {#} | Some i \<Rightarrow> {#i#})"

lemma held_simps [simp]:
  "held (respond i r p) = add_mset i (held p)" "held (notifyWaiters r p) = held p" "held (respondRun r p) = held p"
  "held (recordFailure msg cat now cls p) = held p" "held (clearFailureStreak p) = held p"
  "held (snd (killProcess k p)) = held p" "held (startEffects res p) = held p" "held (setState st p) = held p"
  "held (p\<lparr>pc_cmd := b\<rparr>) = held p" "held (p\<lparr>pc_handler := b\<rparr>) = held p" "held (p\<lparr>pc_running := b\<rparr>) = held p"
  "held (p\<lparr>pc_crashes := cs\<rparr>) = held p" "held (p\<lparr>pc_leaked := b\<rparr>) = held p"
  by (simp_all add: held_def respond_def notifyWaiters_def respondRun_def recordFailure_def clearFailureStreak_def
      killProcess_def startEffects_def setState_def comp_def split: option.split kill_outcome.split)

lemma runResp_simps [simp]:
  "pc_runResp (notifyWaiters r p) = pc_runResp p" "pc_runResp (setState st p) = pc_runResp p"
  "pc_runResp (clearFailureStreak p) = pc_runResp p" "pc_runResp (startEffects res p) = pc_runResp p"
  by (simp_all add: notifyWaiters_def setState_def clearFailureStreak_def startEffects_def)

lemma held_park: "pc_runResp p = None \<Longrightarrow> held (p\<lparr>pc_runResp := Some i\<rparr>) = add_mset i (held p)"
  by (simp add: held_def)

lemma held_wait: "held (p\<lparr>pc_waiters := pc_waiters p @ [i]\<rparr>) = add_mset i (held p)"
  by (simp add: held_def)

lemma held_run:
  assumes "procOk p" and "pc_running p" and "(\<exists>now cls. fin = Finished now cls) \<or> startableFrom (pc_state p) \<and> \<not> pc_leaked p"
  shows "held (handleRun i res fin p) + (case fin of ParentMid k \<Rightarrow> {#i#} | _ \<Rightarrow> {#})
    = held p + mset (i # startEndIds fin)"
proof (cases "startableFrom (pc_state p) \<and> \<not> pc_leaked p")
  case False
  with assms(3) obtain now cls where "fin = Finished now cls" by blast
  with False show ?thesis by (auto simp: handleRun_def startEndIds_def)
next
  case True
  with assms(1) have r: "pc_runResp p = None" by (auto simp: procOk_def startableFrom_def)
  then have park: "held ((notifyWaiters ROk (setState StateReady (clearFailureStreak ((startEffects res (setState StateStarting p))
      \<lparr>pc_cmd := True, pc_handler := True\<rparr>))))\<lparr>pc_runResp := Some i\<rparr>) = add_mset i (held p)"
    by (subst held_park) simp_all
  show ?thesis
    using True by (cases fin; cases "st_err res") (simp_all add: handleRun_def Let_def park startEndIds_def case_prod_unfold)
qed

lemma calls_held: "proc_run evs p \<Longrightarrow> calls evs = held p + cutShort evs"
  proof (induction rule: proc_run.induct)
    case proc_init
    show ?case by (simp add: calls_def cutShort_def held_def newProcess_def)
  next
    case (proc_step evs p ev)
    note ok = procOk_reachable [OF proc_step.hyps(1)]
    have c: "calls (evs @ [ev]) = calls evs + mset (callIds ev)" by (simp add: calls_def)
    show ?case
    proof (cases ev)
      case (EvRun i e timeout fin)
      with proc_step.hyps(2) have "wellClocked e" and run: "pc_running p"
        and fin: "(\<exists>now cls. fin = Finished now cls) \<or> startableFrom (pc_state p) \<and> \<not> pc_leaked p"
        by (simp_all add: enabledProc_def)
      then obtain res where r: "doStart e timeout (pc_crashes p) = Some res" using doStart_total by blast
      have s: "cutShort (evs @ [ev]) = cutShort evs + (case fin of ParentMid k \<Rightarrow> {#i#} | _ \<Rightarrow> {#})"
        by (simp add: cutShort_def EvRun split: start_end.split)
      from held_run [OF ok run fin, of i res] c s proc_step.IH r show ?thesis
        by (simp add: EvRun stepProc_def callIds_def add.assoc)
    next
      case (EvStopReq j k)
      with c proc_step.IH show ?thesis
        by (simp add: stepProc_def handleStop_def callIds_def cutShort_def case_prod_unfold)
    next
      case (EvWaitReady i)
      with c proc_step.IH show ?thesis
        by (simp add: stepProc_def handleWaitReady_def callIds_def cutShort_def held_wait split: process_state.split)
    qed (use c proc_step.IH in \<open>simp_all add: stepProc_def callIds_def cutShort_def handleExit_def handleParentDone_def reapLeaked_def Let_def\<close>)
  qed

lemma calls_count: "proc_run evs p \<Longrightarrow> count (calls evs) i \<le> 1"
  proof (induction rule: proc_run.induct)
    case (proc_step evs p ev)
    have "distinct (callIds ev)" "set (callIds ev) \<inter> set_mset (calls evs) = {}" using proc_step.hyps(2) by (simp_all add: enabledProc_def)
    then have "count (calls evs) i + count (mset (callIds ev)) i \<le> 1"
      using proc_step.IH by (cases "i \<in> set (callIds ev)") (auto simp: distinct_count_atmost_1 not_in_iff)
    then show ?case by (simp add: calls_def)
  qed (simp add: calls_def)

text \<open>
  C4. Every call of \<open>Run\<close>, \<open>Stop\<close> and \<open>WaitReady\<close> is in exactly one place, once: answered, parked
  as the caller whose backend runs, parked waiting for readiness, or (a \<open>Run\<close> only) cut short by the
  parent context. In particular no call is answered twice, and after a shutdown none is parked.
\<close>

theorem calls_answered_once:
  assumes "proc_run evs p"
  shows "calls evs = mset (map fst (pc_replies p)) + mset (pc_waiters p)
      + (case pc_runResp p of None \<Rightarrow> {#} | Some i \<Rightarrow> {#i#}) + cutShort evs
    \<and> distinct (map fst (pc_replies p)) \<and> (\<not> pc_running p \<longrightarrow> pc_waiters p = [] \<and> pc_runResp p = None)"
proof -
  note eq = calls_held [OF assms]
  have "count (mset (map fst (pc_replies p))) i \<le> 1" for i
    using calls_count [OF assms, of i] eq by (simp add: held_def)
  then have "distinct (map fst (pc_replies p))"
    by (metis count_mset distinct_count_atmost_1 count_eq_zero_iff in_multiset_in_set less_one linorder_not_le nle_le)
  moreover have "\<not> pc_running p \<longrightarrow> pc_waiters p = [] \<and> pc_runResp p = None"
    using procOk_reachable [OF assms] by (auto simp: procOk_def)
  ultimately show ?thesis using eq by (simp add: held_def)
qed

section \<open>What a stop promises\<close>


section \<open>Two ways around that promise\<close>

definition healthyStart :: start_env where
  "healthyStart = \<lparr>se_now = 0, se_proxy = ''http://127.0.0.1:5800'', se_commandError = None, se_proxyURLError = None,
     se_spawnError = None, se_cancelledAtSpawn = False, se_checkEndpoint = ''/health'', se_cancelledInDelay = False,
     se_loopStart = 0,
     se_polls = (\<lambda>i. \<lparr>pl_first = SelDefault, pl_now = int i * secNs, pl_statusOk = (2 \<le> i), pl_cancelled = False, pl_second = SelDefault\<rparr>),
     se_llamaCpp = True, se_warmup = WarmOk, se_history = [], se_kill = ExitedInGrace\<rparr>"

definition cancelledStart :: start_env where
  "cancelledStart = healthyStart\<lparr>se_cancelledInDelay := True, se_kill := NotReaped\<rparr>"

lemma wellClocked_demo: "wellClocked healthyStart" "wellClocked cancelledStart"
  by (simp_all add: wellClocked_def healthyStart_def cancelledStart_def)

lemma healthy_loop: "healthLoop (Suc (Suc (Suc n))) (se_polls healthyStart) 0 (60 * secNs) = Some Healthy"
  by (simp add: healthyStart_def secNs_def Let_def)

lemma doStart_healthy: "doStart healthyStart (60 * secNs) [] = Some startOk"
proof -
  have "healthFuel (60 * secNs) = Suc (Suc (Suc 59))" by (simp add: healthFuel_def secNs_def)
  then have "healthLoop (healthFuel (60 * secNs)) (se_polls healthyStart) 0 (60 * secNs) = Some Healthy"
    using healthy_loop [of 59] by (simp only:)
  moreover have "se_loopStart healthyStart = 0" "se_proxy healthyStart \<noteq> []" "se_commandError healthyStart = None"
    "se_proxyURLError healthyStart = None" "se_spawnError healthyStart = None" "\<not> se_cancelledAtSpawn healthyStart"
    "trimB (se_checkEndpoint healthyStart) \<noteq> ''none''" "\<not> se_cancelledInDelay healthyStart" "se_llamaCpp healthyStart"
    by (simp_all add: healthyStart_def trimB_def isSpaceB_def)
  ultimately show ?thesis by (simp add: doStart_defs crashLoopError_def crashLoopThreshold_def)
qed

lemma doStart_cancelled: "doStart cancelledStart (60 * secNs) [] = Some (startAbort cancelledStart ''aborted'')"
  by (simp add: doStart_defs cancelledStart_def healthyStart_def crashLoopError_def crashLoopThreshold_def trimB_def isSpaceB_def)

text \<open>
  A \<open>Stop\<close> that interrupts a start is answered without an error although the backend could not
  be killed: the start itself abandoned it, and the loop only looks at a backend that the start
  returned. The router then starts the next model beside it.
\<close>

theorem stop_during_start_hides_leak:
  "\<exists>p. proc_run [EvRun 1 cancelledStart (60 * secNs) (StopMid 2 ExitedInGrace)] p
     \<and> (2, ROk) \<in> set (pc_replies p) \<and> pc_leaked p"
proof -
  let ?ev = "EvRun 1 cancelledStart (60 * secNs) (StopMid 2 ExitedInGrace)"
  have "enabledProc [] ?ev newProcess"
    by (simp add: enabledProc_def newProcess_def wellClocked_demo callIds_def startEndIds_def calls_def startableFrom_def)
  from proc_step [OF proc_init this] have "proc_run [?ev] (stepProc ?ev newProcess)" by simp
  moreover have "stepProc ?ev newProcess = handleRun 1 (startAbort cancelledStart ''aborted'') (StopMid 2 ExitedInGrace) newProcess"
    by (simp add: stepProc_def newProcess_def doStart_cancelled)
  moreover have "st_live (startAbort cancelledStart ''aborted'') = False" "st_leaked (startAbort cancelledStart ''aborted'')"
    by (simp_all add: startAbort_def startErr_def cancelledStart_def)
  ultimately show ?thesis
    by (intro exI [of _ "stepProc ?ev newProcess"]) (simp add: handleRun_def newProcess_def proc_defs startableFrom_def Let_def)
qed

definition strand :: "proc_event list" where
  "strand = [EvRun 1 healthyStart (60 * secNs) (Finished 0 ClassCrashOther), EvStopReq 2 NotReaped,
     EvRun 3 healthyStart (60 * secNs) (Finished 0 ClassCrashOther), EvWaitReady 4]"

text \<open>No start, and no shutdown: what the router still sends is stops, waits and other models' business.\<close>

definition quiet :: "proc_event \<Rightarrow> bool" where
  "quiet ev = (case ev of EvRun i e t fin \<Rightarrow> False | EvParentDone k \<Rightarrow> False | _ \<Rightarrow> True)"

lemma stranded_step:
  assumes "4 \<in> set (pc_waiters p)" and "pc_state p = StateStopped" and "\<not> pc_cmd p" and "quiet ev" and "enabledProc evs ev p"
  shows "4 \<in> set (pc_waiters (stepProc ev p)) \<and> pc_state (stepProc ev p) = StateStopped \<and> \<not> pc_cmd (stepProc ev p)"
  using assms
  by (cases ev; cases "pc_runResp p")
    (auto simp: quiet_def enabledProc_def stepProc_def handleStop_def handleWaitReady_def reapLeaked_def proc_defs)

lemma stranded_run:
  "proc_run (strand @ evs) p' \<Longrightarrow> (\<And>q. proc_run strand q \<Longrightarrow> q = p) \<Longrightarrow> 4 \<in> set (pc_waiters p) \<Longrightarrow> pc_state p = StateStopped \<Longrightarrow>
     \<not> pc_cmd p \<Longrightarrow> list_all quiet evs \<Longrightarrow> 4 \<in> set (pc_waiters p') \<and> pc_state p' = StateStopped \<and> \<not> pc_cmd p'"
proof (induction evs arbitrary: p' rule: rev_induct)
  case (snoc ev evs)
  from snoc.prems(1) obtain q where "proc_run (strand @ evs) q" "enabledProc (strand @ evs) ev q" "p' = stepProc ev q"
    by (auto simp flip: append_assoc elim: proc_run.cases)
  with snoc.IH [OF this(1)] snoc.prems stranded_step show ?case by auto
qed auto

lemma proc_run_det: "proc_run evs p \<Longrightarrow> proc_run evs q \<Longrightarrow> q = p"
proof (induction arbitrary: q rule: proc_run.induct)
  case proc_init
  then show ?case by (auto elim: proc_run.cases)
next
  case (proc_step evs p ev)
  from proc_step.prems obtain r where "proc_run evs r" "q = stepProc ev r" by (auto elim: proc_run.cases)
  with proc_step.IH show ?case by auto
qed

fun replayProc :: "proc_event list \<Rightarrow> proc_event list \<Rightarrow> proc \<Rightarrow> proc option" where
  "replayProc past [] p = Some p"
| "replayProc past (ev # evs) p =
     (if enabledProc past ev p then replayProc (past @ [ev]) evs (stepProc ev p) else None)"

lemma replayProc_run: "replayProc past evs p = Some p' \<Longrightarrow> proc_run past p \<Longrightarrow> proc_run (past @ evs) p'"
proof (induction evs arbitrary: past p)
  case (Cons ev evs)
  then have "enabledProc past ev p" "replayProc (past @ [ev]) evs (stepProc ev p) = Some p'" by (auto split: if_splits)
  with Cons.IH [OF this(2)] Cons.prems(2) show ?case by (simp add: proc_step)
qed simp

lemma stepProc_healthy [simp]:
  "pc_crashes p = [] \<Longrightarrow> stepProc (EvRun i healthyStart (60 * secNs) fin) p = handleRun i startOk fin p"
  by (simp add: stepProc_def doStart_healthy)

lemmas proc_eval = handleRun_def handleStop_def handleWaitReady_def reapLeaked_def proc_defs startOk_def startableFrom_def
  enabledProc_def callIds_def startEndIds_def calls_def newProcess_def wellClocked_demo

definition stranded :: proc where
  "stranded = \<lparr>pc_state = StateStopped, pc_cmd = False, pc_handler = False, pc_waiters = [4], pc_runResp = None,
     pc_replies = [(1, ROk), (2, RStillAlive), (3, RReclaiming)], pc_leaked = True, pc_lastError = None, pc_attempts = 0,
     pc_crashes = [],
     pc_events = [(StateStopped, StateStarting), (StateStarting, StateReady), (StateReady, StateStopping), (StateStopping, StateStopped)],
     pc_running = True\<rparr>"

lemma stranded_reached: "proc_run strand stranded"
proof -
  have "replayProc [] strand newProcess = Some stranded"
    by (simp add: strand_def stepProc_def doStart_healthy proc_eval Let_def stranded_def)
  from replayProc_run [OF this proc_init] show ?thesis by simp
qed

lemma replies_mono: "set (pc_replies p) \<subseteq> set (pc_replies (stepProc ev p))"
  by (cases ev; cases "pc_runResp p")
    (auto simp: stepProc_def handleRun_def handleStop_def handleWaitReady_def handleExit_def handleParentDone_def reapLeaked_def
      proc_defs Let_def split: option.split start_end.split kill_outcome.split process_state.split)

text \<open>
  After a kill that could not be confirmed, a \<open>Run\<close> is refused and leaves the state stopped; a
  \<open>WaitReady\<close> that follows it, as in the router's swap, is parked, and whatever stops, exits, waits and
  reaping follow, it is never answered until some later start or the shutdown.
\<close>

theorem leaked_refusal_strands_waiter:
  assumes "proc_run (strand @ evs) p" and "list_all quiet evs"
  shows "4 \<in> set (pc_waiters p) \<and> 4 \<notin> set (map fst (pc_replies p)) \<and> (3, RReclaiming) \<in> set (pc_replies p)"
proof -
  have w: "4 \<in> set (pc_waiters p)"
    using stranded_run [OF assms(1), of stranded] proc_run_det [OF stranded_reached] assms(2) by (auto simp: stranded_def)
  have "count (calls (strand @ evs)) 4 \<le> 1" by (rule calls_count [OF assms(1)])
  then have "count (mset (map fst (pc_replies p))) 4 + count (mset (pc_waiters p)) 4 \<le> 1"
    unfolding calls_held [OF assms(1)] held_def by simp
  with w have "4 \<notin> set (map fst (pc_replies p))"
    by (metis Suc_eq_plus1_left add_le_same_cancel1 count_greater_eq_one_iff le_trans not_one_le_zero One_nat_def
        add_le_mono le_numeral_extra(4) set_mset_mset one_add_one numeral_le_one_iff semiring_norm(69))
  moreover have "(3, RReclaiming) \<in> set (pc_replies p)"
    using assms(1)
  proof (induction evs arbitrary: p rule: rev_induct)
    case Nil
    then have "p = stranded" using proc_run_det [OF stranded_reached] by simp
    then show ?case by (simp add: stranded_def)
  next
    case (snoc ev evs)
    from snoc.prems obtain q where "proc_run (strand @ evs) q" "p = stepProc ev q"
      by (auto simp flip: append_assoc elim: proc_run.cases)
    with snoc.IH replies_mono show ?case by blast
  qed
  ultimately show ?thesis using w by blast
qed

theorem leaked_refusal_strands_waiter_witness:
  "\<exists>p. proc_run (strand @ [EvReaped, EvStopReq 5 ExitedInGrace]) p \<and> \<not> pc_leaked p \<and> 4 \<in> set (pc_waiters p)"
proof -
  obtain p where p: "replayProc strand [EvReaped, EvStopReq 5 ExitedInGrace] stranded = Some p" "\<not> pc_leaked p"
    by (simp add: strand_def stepProc_def proc_eval Let_def stranded_def)
  from replayProc_run [OF p(1) stranded_reached] have "proc_run (strand @ [EvReaped, EvStopReq 5 ExitedInGrace]) p" .
  with leaked_refusal_strands_waiter [OF this] p show ?thesis by (auto simp: quiet_def)
qed

theorem process_lifecycle_witness: "pc_handler stranded = pc_cmd stranded \<and> pc_waiters stranded = [4]"
  using process_lifecycle [OF stranded_reached] by (simp add: stranded_def)

theorem calls_answered_once_witness: "calls strand = {#1, 2, 3, 4#} \<and> distinct (map fst (pc_replies stranded))"
  using calls_answered_once [OF stranded_reached] by (simp add: calls_def callIds_def startEndIds_def strand_def)


section \<open>The breaker\<close>

lemma crashScan_sorted:
  "sorted hist \<Longrightarrow> (\<And>x. l = Some x \<Longrightarrow> \<forall>t \<in> set hist. x \<le> t) \<Longrightarrow>
     crashScan now hist c l = (let recent = filter (\<lambda>t. now - t \<le> crashLoopWindow) hist in
       (c + length recent, if recent = [] then l else Some (last recent)))"
proof (induction now hist c l rule: crashScan.induct)
  case (2 now t ts c l)
  show ?case
  proof (cases "now - t \<le> crashLoopWindow")
    case True
    have "(case l of None \<Rightarrow> Some t | Some x \<Rightarrow> if t > x then Some t else l) = Some t"
      using 2(4) by (auto split: option.split)
    with 2 True show ?thesis by (auto simp: Let_def)
  qed (use 2 in simp)
qed simp

lemma filter_upward:
  assumes "sorted xs" and "\<And>a b. a \<le> b \<Longrightarrow> Q a \<Longrightarrow> Q (b :: int)" and "0 < k"
  shows "k \<le> length (filter Q xs) \<longleftrightarrow> k \<le> length xs \<and> Q (xs ! (length xs - k))"
  using assms(1)
proof (induction xs)
  case (Cons x xs)
  show ?case
  proof (cases "Q x")
    case True
    with Cons.prems assms(2) have "\<forall>y \<in> set (x # xs). Q y" by auto
    then show ?thesis using assms(3) by (auto simp: nth_Cons split: nat.split)
  next
    case False
    have "k \<le> length (x # xs) \<and> Q ((x # xs) ! (length (x # xs) - k)) \<longleftrightarrow> k \<le> length xs \<and> Q (xs ! (length xs - k))"
      using False by (cases "k = Suc (length xs)") (auto simp: Suc_diff_le le_Suc_eq)
    with False Cons show ?thesis by simp
  qed
qed (use assms(3) in simp)

text \<open>
  C35. The breaker refuses a restart exactly when the last three crashes are all within the window and
  the last one is within the cooldown; it then reports the crashes in the window and the rest of the
  cooldown.
\<close>

theorem crash_loop_breaker:
  assumes "sorted hist"
  shows "crashLoopError now hist =
    (if 3 \<le> length hist \<and> now - hist ! (length hist - 3) \<le> crashLoopWindow \<and> now - last hist < crashLoopCooldown
     then Some (length (filter (\<lambda>t. now - t \<le> crashLoopWindow) hist), crashLoopCooldown - (now - last hist)) else None)"
proof -
  let ?r = "filter (\<lambda>t. now - t \<le> crashLoopWindow) hist"
  have scan: "crashScan now hist 0 None = (length ?r, if ?r = [] then None else Some (last ?r))"
    using crashScan_sorted [OF assms, of None now 0] by (simp add: Let_def)
  have three: "3 \<le> length ?r \<longleftrightarrow> 3 \<le> length hist \<and> now - hist ! (length hist - 3) \<le> crashLoopWindow"
    by (rule filter_upward [OF assms]) auto
  have "last ?r = last hist" if "?r \<noteq> []"
  proof -
    from that obtain t where t: "t \<in> set hist" "now - t \<le> crashLoopWindow" by (auto simp: filter_empty_conv)
    then have ne: "hist \<noteq> []" by auto
    have "t \<le> last hist" using assms t(1) ne by (metis sorted_append append_butlast_last_id list.set_intros(1) set_append Un_iff in_set_butlastD
          append_is_Nil_conv empty_iff list.set(1) order_refl set_ConsD)
    with t(2) have "now - last hist \<le> crashLoopWindow" by simp
    then have "?r = filter (\<lambda>t. now - t \<le> crashLoopWindow) (butlast hist) @ [last hist]"
      using ne by (metis (no_types, lifting) append_butlast_last_id filter.simps filter_append)
    then show ?thesis by (metis last_snoc)
  qed
  then show ?thesis using three scan
    by (auto simp: crashLoopError_def crashLoopThreshold_def Let_def)
qed

theorem crash_loop_breaker_witness:
  "crashLoopError (100 * secNs) [10 * secNs, 50 * secNs, 90 * secNs] = Some (3, 50 * secNs)"
  using crash_loop_breaker [of "[10 * secNs, 50 * secNs, 90 * secNs]" "100 * secNs"]
  by (simp add: secNs_def crashLoopWindow_def crashLoopCooldown_def)

section \<open>The watchers of a ready model\<close>

datatype watch_action = WatchOn | WatchEnd | WatchStop

definition ttlTick :: "int \<Rightarrow> process_state \<Rightarrow> int \<Rightarrow> int \<Rightarrow> watch_action" where
  "ttlTick unloadAfter st inflight idle =
     (if st \<noteq> StateReady then WatchEnd
      else if inflight \<noteq> 0 then WatchOn
      else if idle > unloadAfter * secNs then WatchStop
      else WatchOn)"

definition inferenceProbeThreshold :: nat where
  "inferenceProbeThreshold = 2"

record probe_obs =
  po_before :: process_state
  po_inflight :: int
  po_slotFree :: bool
  po_answered :: bool
  po_after :: process_state
  po_used :: bool

definition probeTick :: "probe_obs \<Rightarrow> nat \<Rightarrow> watch_action \<times> nat" where
  "probeTick ob failures =
     (if po_before ob \<noteq> StateReady then (WatchEnd, failures)
      else if po_inflight ob \<noteq> 0 then (WatchOn, 0)
      else if \<not> po_slotFree ob then (WatchOn, 0)
      else if po_after ob \<noteq> StateReady then (WatchEnd, failures)
      else if po_answered ob then (WatchOn, 0)
      else if po_used ob then (WatchOn, failures)
      else if Suc failures < inferenceProbeThreshold then (WatchOn, Suc failures)
      else (WatchStop, Suc failures))"

fun probeLoop :: "probe_obs list \<Rightarrow> nat \<Rightarrow> watch_action" where
  "probeLoop [] failures = WatchOn"
| "probeLoop (ob # obs) failures =
     (case probeTick ob failures of
        (WatchOn, failures') \<Rightarrow> probeLoop obs failures'
      | (a, failures') \<Rightarrow> a)"

definition shouldRecoverWedge :: "bool \<Rightarrow> bool \<Rightarrow> int \<Rightarrow> bool" where
  "shouldRecoverWedge hardDeadline clientGone inflight = (hardDeadline \<or> clientGone \<and> inflight \<le> 1)"

text \<open>The slots of one reply: id and state; no reply is \<open>None\<close>.\<close>

definition hasProcessingSlot :: "(int \<times> int) list option \<Rightarrow> bool option" where
  "hasProcessingSlot reply = map_option (list_ex (\<lambda>(i, st). st = 1)) reply"

fun verifyCancel :: "nat \<Rightarrow> (int \<times> (int \<times> int) list option) list \<Rightarrow> bool" where
  "verifyCancel 0 obs = True"
| "verifyCancel (Suc n) [] = True"
| "verifyCancel (Suc n) ((inflight, reply) # obs) =
     (if inflight > 0 then False
      else case hasProcessingSlot reply of
             None \<Rightarrow> True
           | Some b \<Rightarrow> if \<not> b then False else verifyCancel n obs)"

text \<open>The cancelled slots, and whether the process is stopped for a restart.\<close>

definition cancelBusySlots :: "string \<Rightarrow> (int \<times> int) list option \<Rightarrow> (int \<times> int) list option
    \<Rightarrow> (int \<times> (int \<times> int) list option) list \<Rightarrow> int list \<times> bool" where
  "cancelBusySlots base first slots obs =
     (if base = [] then ([], False)
      else case hasProcessingSlot first of
        None \<Rightarrow> ([], True)
      | Some False \<Rightarrow> ([], False)
      | Some True \<Rightarrow>
          (case slots of
             None \<Rightarrow> ([], False)
           | Some ss \<Rightarrow> (map fst (filter (\<lambda>(i, st). st = 1) ss), verifyCancel 3 obs)))"

record command_override =
  co_cmd :: "string option"
  co_floorSecs :: int

definition setCommandOverride :: "string \<Rightarrow> int \<Rightarrow> command_override \<Rightarrow> command_override" where
  "setCommandOverride cmd secs c =
     c\<lparr>co_cmd := (if cmd = [] then None else Some cmd), co_floorSecs := (if secs > 0 then secs else co_floorSecs c)\<rparr>"

definition effectiveCmd :: "string \<Rightarrow> command_override \<Rightarrow> string" where
  "effectiveCmd cfgCmd c = (case co_cmd c of Some o' \<Rightarrow> o' | None \<Rightarrow> cfgCmd)"

definition runTimeout :: "command_override \<Rightarrow> int \<Rightarrow> int" where
  "runTimeout c timeout = (if co_floorSecs c * secNs > timeout then co_floorSecs c * secNs else timeout)"

definition idleProbe :: "probe_obs \<Rightarrow> bool" where
  "idleProbe ob = (po_before ob = StateReady \<and> po_inflight ob = 0 \<and> po_slotFree ob \<and> po_after ob = StateReady \<and> \<not> po_answered ob)"

definition twoFailures :: "probe_obs list \<Rightarrow> bool" where
  "twoFailures obs = (\<exists>pre a mid b post. obs = pre @ a # mid @ b # post \<and> idleProbe a \<and> \<not> po_used a \<and> idleProbe b \<and> \<not> po_used b
     \<and> (\<forall>ob \<in> set mid. idleProbe ob \<and> po_used ob))"

definition oneFailure :: "probe_obs list \<Rightarrow> bool" where
  "oneFailure obs = (\<exists>mid b post. obs = mid @ b # post \<and> idleProbe b \<and> \<not> po_used b \<and> (\<forall>ob \<in> set mid. idleProbe ob \<and> po_used ob))"

lemma twoFailures_Cons: "twoFailures obs \<Longrightarrow> twoFailures (ob # obs)"
  unfolding twoFailures_def by (metis append_Cons)

lemma oneFailure_Cons: "oneFailure obs \<Longrightarrow> idleProbe ob \<Longrightarrow> po_used ob \<Longrightarrow> oneFailure (ob # obs)"
  unfolding oneFailure_def by (metis append_Cons set_ConsD)

lemma oneFailure_two: "oneFailure obs \<Longrightarrow> idleProbe ob \<Longrightarrow> \<not> po_used ob \<Longrightarrow> twoFailures (ob # obs)"
  unfolding oneFailure_def twoFailures_def by (metis append_Nil)

lemma probeLoop_stop:
  "(probeLoop obs 0 = WatchStop \<longrightarrow> twoFailures obs) \<and> (probeLoop obs 1 = WatchStop \<longrightarrow> oneFailure obs \<or> twoFailures obs)"
proof (induction obs)
  case (Cons ob obs)
  have zero: "probeLoop (ob # obs) 0 = WatchStop \<longrightarrow> twoFailures (ob # obs)"
    using Cons oneFailure_two [of obs ob] twoFailures_Cons [of obs ob]
    by (auto simp: probeTick_def inferenceProbeThreshold_def idleProbe_def split: if_splits)
  have "idleProbe ob \<Longrightarrow> \<not> po_used ob \<Longrightarrow> oneFailure (ob # obs)"
    unfolding oneFailure_def by (intro exI [of _ "[]"] exI) auto
  then have one: "probeLoop (ob # obs) 1 = WatchStop \<longrightarrow> oneFailure (ob # obs) \<or> twoFailures (ob # obs)"
    using Cons oneFailure_Cons [of obs ob] twoFailures_Cons [of obs ob]
    by (auto simp: probeTick_def inferenceProbeThreshold_def idleProbe_def split: if_splits)
  show ?case using zero one by blast
qed simp

text \<open>
  The inference probe stops a ready model only after two failed probes of the idle backend, with
  nothing between them but probes a real request overlapped.
\<close>

theorem probe_stops_after_two_failures:
  assumes "probeLoop obs 0 = WatchStop"
  shows "\<exists>pre a mid b post. obs = pre @ a # mid @ b # post \<and> idleProbe a \<and> \<not> po_used a \<and> idleProbe b \<and> \<not> po_used b
     \<and> (\<forall>ob \<in> set mid. idleProbe ob \<and> po_used ob)"
  using probeLoop_stop [of obs] assms by (simp add: twoFailures_def)

theorem probe_stops_after_two_failures_witness:
  "\<exists>ob. idleProbe ob \<and> probeLoop [ob, ob\<lparr>po_used := True\<rparr>, ob] 0 = WatchStop"
proof -
  let ?ob = "\<lparr>po_before = StateReady, po_inflight = 0, po_slotFree = True, po_answered = False, po_after = StateReady, po_used = False\<rparr>"
  have w: "probeLoop [?ob, ?ob\<lparr>po_used := True\<rparr>, ?ob] 0 = WatchStop"
    by (simp add: probeTick_def inferenceProbeThreshold_def)
  from probe_stops_after_two_failures [OF w] have "\<exists>ob. idleProbe ob" by blast
  moreover have "idleProbe ?ob" by (simp add: idleProbe_def)
  ultimately show ?thesis using w by blast
qed

end
