(* ===== verification/Go_Float.thy ===== *)
theory Go_Float
  imports Complex_Main "HOL-Library.Signed_Division"
begin

text \<open>
  Go's machine numbers as the sizing code uses them.  An \<open>int\<close> or \<open>int64\<close> is an \<open>int\<close> whose
  products and sums are wrapped by \<open>i64\<close>, and its division truncates (\<open>sdiv\<close>).  A \<open>float64\<close> is a
  rational that the rounding \<open>fl\<close> (53 bits, ties to even) leaves alone, and every float operation is
  the exact one followed by \<open>fl\<close>.  Sizes stay far from the largest and the smallest float64, so
  infinities, NaN and subnormals are left out; products and sums are not fused.
\<close>

named_theorems go_num "unfolding rules of the machine operations"

subsection \<open>64-bit integers\<close>

definition i64 :: "int \<Rightarrow> int" where
  "i64 x = (x + 2 ^ 63) mod 2 ^ 64 - 2 ^ 63"

definition inI64 :: "int \<Rightarrow> bool" where
  "inI64 x = (- (2 ^ 63) \<le> x \<and> x < 2 ^ 63)"

lemma i64_id [simp]: "inI64 x \<Longrightarrow> i64 x = x"
  unfolding i64_def inI64_def by (subst mod_pos_pos_trivial) auto

lemma i64_in: "inI64 (i64 x)"
proof -
  have "0 \<le> (x + 2 ^ 63) mod 2 ^ 64" and "(x + 2 ^ 63) mod 2 ^ 64 < (2 ^ 64 :: int)" by simp_all
  then show ?thesis unfolding i64_def inI64_def by simp
qed

lemma inI64_0 [simp]: "inI64 0"
  by (simp add: inI64_def)

lemma i64_small: "0 \<le> x \<Longrightarrow> x \<le> 2 ^ 62 \<Longrightarrow> i64 x = x"
  by (rule i64_id) (simp add: inI64_def)

text \<open>Go's \<open>/\<close> on integers truncates towards zero.\<close>

lemma sdiv_nonneg: "0 \<le> a \<Longrightarrow> 0 \<le> b \<Longrightarrow> a sdiv b = a div b" for a b :: int
  by (cases "b = 0"; cases "a = 0") (auto simp: signed_divide_int_def sgn_mult)

lemma sdiv_mono_pos: "a \<le> b \<Longrightarrow> 0 \<le> a \<Longrightarrow> 0 \<le> c \<Longrightarrow> a sdiv c \<le> b sdiv c" for a b c :: int
  by (cases "c = 0") (auto simp: sdiv_nonneg zdiv_mono1)

text \<open>The conversion \<open>int(x)\<close> of a float drops the fraction; out of range it gives the least int64,
  as on amd64.\<close>

definition goInt :: "rat \<Rightarrow> int" where
  "goInt x =
     (let t = (if 0 \<le> x then \<lfloor>x\<rfloor> else \<lceil>x\<rceil>) in if inI64 t then t else - (2 ^ 63))"

lemma goInt_floor: "0 \<le> x \<Longrightarrow> x < 2 ^ 63 \<Longrightarrow> goInt x = \<lfloor>x\<rfloor>"
proof -
  assume x: "0 \<le> x" "x < 2 ^ 63"
  then have "0 \<le> \<lfloor>x\<rfloor>" and "\<lfloor>x\<rfloor> < 2 ^ 63" by (auto simp: floor_less_iff)
  then show ?thesis using x by (simp add: goInt_def inI64_def Let_def)
qed

lemma goInt_bounds: "0 \<le> x \<Longrightarrow> x < 2 ^ 63 \<Longrightarrow> 0 \<le> goInt x \<and> of_int (goInt x) \<le> x \<and> x < of_int (goInt x) + 1"
  by (simp add: goInt_floor) linarith

lemma goInt_mono: "0 \<le> x \<Longrightarrow> x \<le> y \<Longrightarrow> y < 2 ^ 63 \<Longrightarrow> goInt x \<le> goInt y"
  by (simp add: goInt_floor floor_mono)

subsection \<open>Rounding to 53 bits\<close>

text \<open>\<open>bitLen n\<close> is the number of bits of a positive integer.\<close>

function bitLen :: "int \<Rightarrow> int" where
  "bitLen n = (if n \<le> 0 then 0 else 1 + bitLen (n div 2))"
  by pat_completeness auto
termination by (relation "measure nat") auto

declare bitLen.simps [simp del]

lemma bitLen_nonneg: "0 \<le> bitLen n"
proof (induction n rule: bitLen.induct)
  case (1 n)
  then show ?case by (subst bitLen.simps) simp
qed

text \<open>\<open>binade x\<close> is the exponent of the leading bit of a positive rational.\<close>

definition binade :: "rat \<Rightarrow> int" where
  "binade x =
     (case quotient_of x of
        (n, d) \<Rightarrow>
          let k = bitLen n - bitLen d in
          if 2 powi k \<le> x then k else k - 1)"

definition roundEven :: "rat \<Rightarrow> int" where
  "roundEven q =
     (let f = \<lfloor>q\<rfloor>; r = q - of_int f in
      if r < 1 / 2 then f else if r > 1 / 2 then f + 1 else if even f then f else f + 1)"

definition flPos :: "rat \<Rightarrow> rat" where
  "flPos x = (let u = 2 powi (binade x - 52) in of_int (roundEven (x / u)) * u)"

definition fl :: "rat \<Rightarrow> rat" where
  "fl x = (if x = 0 then 0 else if 0 < x then flPos x else - flPos (- x))"

definition fadd :: "rat \<Rightarrow> rat \<Rightarrow> rat" where
  "fadd x y = fl (x + y)"

definition fsub :: "rat \<Rightarrow> rat \<Rightarrow> rat" where
  "fsub x y = fl (x - y)"

definition fmul :: "rat \<Rightarrow> rat \<Rightarrow> rat" where
  "fmul x y = fl (x * y)"

definition fdiv :: "rat \<Rightarrow> rat \<Rightarrow> rat" where
  "fdiv x y = fl (x / y)"

text \<open>\<open>float64(n)\<close> of an integer.\<close>

definition float64 :: "int \<Rightarrow> rat" where
  "float64 n = fl (of_int n)"

lemma roundEven_int [simp]: "roundEven (of_int n) = n"
  by (simp add: roundEven_def)

lemma roundEven_bounds: "\<lfloor>q\<rfloor> \<le> roundEven q \<and> roundEven q \<le> \<lfloor>q\<rfloor> + 1"
  by (simp add: roundEven_def Let_def)

lemma roundEven_mono: "p \<le> q \<Longrightarrow> roundEven p \<le> roundEven q"
proof (cases "\<lfloor>p\<rfloor> = \<lfloor>q\<rfloor>")
  case True
  assume "p \<le> q"
  with True show ?thesis by (auto simp: roundEven_def Let_def)
next
  case False
  assume "p \<le> q"
  then have "\<lfloor>p\<rfloor> + 1 \<le> \<lfloor>q\<rfloor>" using False floor_mono [of p q] by linarith
  then show ?thesis using roundEven_bounds [of p] roundEven_bounds [of q] by linarith
qed

lemma roundEven_near: "\<bar>of_int (roundEven q) - q\<bar> \<le> 1 / 2"
proof -
  have "of_int \<lfloor>q\<rfloor> \<le> q" and "q < of_int \<lfloor>q\<rfloor> + 1" by linarith+
  then show ?thesis by (auto simp: roundEven_def Let_def)
qed

lemma bitLen_pos: "0 < n \<Longrightarrow> 0 < bitLen n"
  by (subst bitLen.simps) (simp add: bitLen_nonneg add_pos_nonneg)

lemma bitLen_bounds: "0 < n \<Longrightarrow> 2 ^ nat (bitLen n - 1) \<le> n \<and> n < 2 ^ nat (bitLen n)"
proof (induction n rule: bitLen.induct)
  case (1 n)
  show ?case
  proof (cases "n div 2 = 0")
    case True
    then have "n = 1" using 1(2) by simp
    then show ?thesis by (simp add: bitLen.simps [of 1] bitLen.simps [of 0])
  next
    case False
    then have d: "0 < n div 2" using 1(2) by linarith
    define k where "k = bitLen (n div 2)"
    have k: "0 < k" using bitLen_pos [OF d] by (simp add: k_def)
    have b: "bitLen n = k + 1" using 1(2) by (subst bitLen.simps) (simp add: k_def)
    have IH: "2 ^ nat (k - 1) \<le> n div 2" "n div 2 < 2 ^ nat k" using 1(1) [OF _ d] 1(2) by (simp_all add: k_def)
    have e: "nat (k + 1) = Suc (nat k)" "nat k = Suc (nat (k - 1))" using k by simp_all
    have "(2 :: int) ^ nat k = 2 * 2 ^ nat (k - 1)" by (simp only: e(2) power_Suc)
    moreover have "(2 :: int) ^ nat (k + 1) = 2 * 2 ^ nat k" by (simp only: e(1) power_Suc)
    moreover have "2 * (n div 2) \<le> n" "n \<le> 2 * (n div 2) + 1" by linarith+
    ultimately show ?thesis using IH unfolding b by (simp del: power_Suc)
  qed
qed

lemma bitLen_powi:
  assumes "0 < n"
  shows "2 powi (bitLen n - 1) \<le> (of_int n :: rat)" and "(of_int n :: rat) < 2 powi bitLen n"
proof -
  have b: "2 ^ nat (bitLen n - 1) \<le> n" "n < 2 ^ nat (bitLen n)" using bitLen_bounds [OF assms] by auto
  have "(of_int (2 ^ nat (bitLen n - 1)) :: rat) \<le> of_int n" using b(1) by (simp only: of_int_le_iff)
  then show "2 powi (bitLen n - 1) \<le> (of_int n :: rat)"
    using bitLen_pos [OF assms] by (simp add: power_int_nonneg_exp)
  have "(of_int n :: rat) < of_int (2 ^ nat (bitLen n))" using b(2) by (simp only: of_int_less_iff)
  then show "(of_int n :: rat) < 2 powi bitLen n"
    using bitLen_pos [OF assms] by (simp add: power_int_nonneg_exp)
qed

lemma pow2_split: "(2 :: rat) powi (a + b) = 2 powi a * 2 powi b"
  by (rule power_int_add) simp

lemma pow2_less_iff: "(2 :: rat) powi a < 2 powi b \<longleftrightarrow> a < b"
proof
  assume "(2 :: rat) powi a < 2 powi b"
  then show "a < b" using power_int_increasing [of b a "2 :: rat"] by (cases "b \<le> a") auto
qed (simp add: power_int_strict_increasing)

lemma binade_bounds:
  assumes "0 < x"
  shows "2 powi binade x \<le> x" and "x < 2 powi (binade x + 1)"
proof -
  obtain n d where q: "quotient_of x = (n, d)" by (cases "quotient_of x") simp
  have d: "0 < d" using quotient_of_denom_pos [OF q] .
  have x: "x = of_int n / of_int d" using quotient_of_div [OF q] .
  have n: "0 < n" using assms d unfolding x by (simp add: zero_less_divide_iff)
  define a where "a = bitLen n"
  define b where "b = bitLen d"
  have na: "2 powi (a - 1) \<le> (of_int n :: rat)" "(of_int n :: rat) < 2 powi a"
    using bitLen_powi [OF n] by (simp_all add: a_def)
  have db: "2 powi (b - 1) \<le> (of_int d :: rat)" "(of_int d :: rat) < 2 powi b"
    using bitLen_powi [OF d] by (simp_all add: b_def)
  have dp: "0 < (of_int d :: rat)" using d by simp
  have "2 powi (a - b - 1) * of_int d \<le> 2 powi (a - b - 1) * (2 powi b :: rat)" using db(2) by simp
  also have "\<dots> = 2 powi (a - 1)" by (simp add: power_int_add [symmetric])
  also have "\<dots> \<le> of_int n" by (rule na)
  finally have lo: "2 powi (a - b - 1) \<le> x" using dp by (simp add: x pos_le_divide_eq)
  have "of_int n < (2 powi a :: rat)" by (rule na)
  also have "\<dots> = 2 powi (a - b + 1) * 2 powi (b - 1)" by (simp add: power_int_add [symmetric])
  also have "\<dots> \<le> 2 powi (a - b + 1) * of_int d" using db(1) by simp
  finally have hi: "x < 2 powi (a - b + 1)" using dp by (simp add: x pos_divide_less_eq)
  have e: "binade x = (if 2 powi (a - b) \<le> x then a - b else a - b - 1)"
    by (simp add: binade_def q a_def b_def Let_def)
  show "2 powi binade x \<le> x" unfolding e using lo by simp
  show "x < 2 powi (binade x + 1)" unfolding e using hi by simp
qed

lemma binade_mono:
  assumes "0 < x" and "x \<le> y"
  shows "binade x \<le> binade y"
proof -
  have "2 powi binade x \<le> x" using binade_bounds(1) assms by simp
  also have "\<dots> < 2 powi (binade y + 1)" using binade_bounds(2) [of y] assms by simp
  finally have "(2 :: rat) powi binade x < 2 powi (binade y + 1)" .
  then have "binade x < binade y + 1" by (simp only: pow2_less_iff)
  then show ?thesis by simp
qed

definition ulpOf :: "rat \<Rightarrow> rat" where
  "ulpOf x = 2 powi (binade x - 52)"

lemma ulpOf_pos [simp]: "0 < ulpOf x"
  by (simp add: ulpOf_def)

lemma ulpOf_nonneg [simp]: "0 \<le> ulpOf x"
  using ulpOf_pos [of x] by linarith

lemma ulpOf_nz [simp]: "ulpOf x \<noteq> 0"
  using ulpOf_pos [of x] by linarith

lemma pow2_binade: "2 powi binade x = 2 ^ 52 * ulpOf x" "2 powi (binade x + 1) = 2 ^ 53 * ulpOf x"
  using pow2_split [of 52 "binade x - 52"] pow2_split [of 53 "binade x - 52"]
  by (simp_all add: ulpOf_def add.commute)

lemma flPos_ulp: "flPos x = of_int (roundEven (x / ulpOf x)) * ulpOf x"
  by (simp add: flPos_def ulpOf_def Let_def)

lemma ulp_scale:
  assumes "0 < x"
  shows "2 ^ 52 \<le> x / ulpOf x" and "x / ulpOf x < 2 ^ 53"
  using binade_bounds [OF assms] unfolding pow2_binade
  by (simp_all only: pos_le_divide_eq [OF ulpOf_pos] pos_divide_less_eq [OF ulpOf_pos])

lemma flPos_bounds:
  assumes "0 < x"
  shows "2 powi binade x \<le> flPos x" and "flPos x \<le> 2 powi (binade x + 1)"
proof -
  have "roundEven (of_int (2 ^ 52)) \<le> roundEven (x / ulpOf x)"
    using ulp_scale(1) [OF assms] by (intro roundEven_mono) simp
  then have lo: "(2 ^ 52 :: int) \<le> roundEven (x / ulpOf x)" by (simp only: roundEven_int)
  have "roundEven (x / ulpOf x) \<le> roundEven (of_int (2 ^ 53))"
    using ulp_scale(2) [OF assms] by (intro roundEven_mono) simp
  then have hi: "roundEven (x / ulpOf x) \<le> (2 ^ 53 :: int)" by (simp only: roundEven_int)
  from lo have "(of_int (2 ^ 52) :: rat) \<le> of_int (roundEven (x / ulpOf x))" by (simp only: of_int_le_iff)
  then show "2 powi binade x \<le> flPos x" unfolding pow2_binade flPos_ulp by simp
  from hi have "of_int (roundEven (x / ulpOf x)) \<le> (of_int (2 ^ 53) :: rat)" by (simp only: of_int_le_iff)
  then show "flPos x \<le> 2 powi (binade x + 1)" unfolding pow2_binade flPos_ulp by simp
qed

lemma flPos_mono:
  assumes "0 < x" and "x \<le> y"
  shows "flPos x \<le> flPos y"
proof (cases "binade x = binade y")
  case True
  then have "ulpOf x = ulpOf y" by (simp add: ulpOf_def)
  moreover from this have "roundEven (x / ulpOf x) \<le> roundEven (y / ulpOf y)"
    using assms(2) by (intro roundEven_mono) (simp add: divide_right_mono order_less_imp_le)
  ultimately show ?thesis unfolding flPos_ulp by (simp add: order_less_imp_le)
next
  case False
  then have "binade x + 1 \<le> binade y" using binade_mono [OF assms] by simp
  then have "(2 :: rat) powi (binade x + 1) \<le> 2 powi binade y" by (intro power_int_increasing) simp_all
  then show ?thesis using flPos_bounds(2) [OF assms(1)] flPos_bounds(1) [of y] assms by linarith
qed

lemma flPos_pos: "0 < x \<Longrightarrow> 0 < flPos x"
  using flPos_bounds(1) [of x] zero_less_power_int [of "2 :: rat" "binade x"] by linarith

lemma fl_0 [simp]: "fl 0 = 0"
  by (simp add: fl_def)

lemma fl_nonneg: "0 \<le> x \<Longrightarrow> 0 \<le> fl x"
  using flPos_pos [of x] by (auto simp: fl_def)

lemma fl_nonpos: "x \<le> 0 \<Longrightarrow> fl x \<le> 0"
  using flPos_pos [of "- x"] by (auto simp: fl_def)

theorem fl_mono: "x \<le> y \<Longrightarrow> fl x \<le> fl y"
proof (cases "0 < x")
  case True
  assume "x \<le> y"
  with True show ?thesis by (simp add: fl_def flPos_mono)
next
  case False
  assume xy: "x \<le> y"
  show ?thesis
  proof (cases "0 \<le> y")
    case True
    with False show ?thesis using fl_nonpos [of x] fl_nonneg [of y] by linarith
  next
    case False
    with xy show ?thesis using flPos_mono [of "- y" "- x"] by (simp add: fl_def)
  qed
qed

text \<open>The rounding error is at most one part in \<open>2 ^ 53\<close>.\<close>

lemma fl_near:
  assumes "0 \<le> x"
  shows "\<bar>fl x - x\<bar> \<le> x / 2 ^ 53"
proof (cases "x = 0")
  case False
  with assms have x: "0 < x" by simp
  define q where "q = x / ulpOf x"
  have u: "0 < ulpOf x" by simp
  have "fl x - x = (of_int (roundEven q) - q) * ulpOf x" using x u by (simp add: fl_def flPos_ulp q_def field_simps)
  then have "\<bar>fl x - x\<bar> = \<bar>of_int (roundEven q) - q\<bar> * ulpOf x" by (simp only: abs_mult abs_of_pos [OF u])
  also have "\<dots> \<le> 1 / 2 * ulpOf x" using roundEven_near [of q] u by (intro mult_right_mono) simp_all
  also have "\<dots> \<le> x / 2 ^ 53" using ulp_scale(1) [OF x] u by (simp add: pos_le_divide_eq)
  finally show ?thesis .
qed simp

lemma fl_le: "0 \<le> x \<Longrightarrow> fl x \<le> x * (1 + 1 / 2 ^ 53)"
proof -
  assume "0 \<le> x"
  then have "fl x \<le> x + x / 2 ^ 53" using fl_near [of x] by linarith
  then show ?thesis by (simp add: distrib_left)
qed

lemma fl_ge: "0 \<le> x \<Longrightarrow> x * (1 - 1 / 2 ^ 53) \<le> fl x"
proof -
  assume "0 \<le> x"
  then have "x - x / 2 ^ 53 \<le> fl x" using fl_near [of x] by linarith
  then show ?thesis by (simp add: right_diff_distrib)
qed

text \<open>Integers up to \<open>2 ^ 53\<close> are float64 values.\<close>

lemma flPos_int:
  assumes "0 < n" and "n < 2 ^ 53"
  shows "flPos (of_int n) = of_int n"
proof -
  let ?x = "of_int n :: rat"
  have x: "0 < ?x" using assms by simp
  have "2 powi binade ?x \<le> ?x" by (rule binade_bounds [OF x])
  also have "\<dots> < of_int (2 ^ 53)" using assms(2) by (simp only: of_int_less_iff)
  also have "\<dots> = 2 powi 53" by simp
  finally have "binade ?x < 53" by (simp only: pow2_less_iff)
  then have e: "2 powi (52 - binade ?x) = (of_int (2 ^ nat (52 - binade ?x)) :: rat)"
    by (simp add: power_int_nonneg_exp)
  have "ulpOf ?x = inverse (2 powi (52 - binade ?x))" by (simp add: ulpOf_def power_int_minus [symmetric])
  then have q: "?x / ulpOf ?x = of_int (n * 2 ^ nat (52 - binade ?x))" by (simp add: e divide_inverse)
  have "flPos ?x = ?x / ulpOf ?x * ulpOf ?x" unfolding flPos_ulp q by (simp only: roundEven_int)
  also have "\<dots> = ?x" by simp
  finally show ?thesis .
qed

lemma float64_int: "\<bar>n\<bar> < 2 ^ 53 \<Longrightarrow> float64 n = of_int n"
  using flPos_int [of n] flPos_int [of "- n"] by (cases "n = 0") (auto simp: float64_def fl_def)

lemma float64_mono: "m \<le> n \<Longrightarrow> float64 m \<le> float64 n"
  unfolding float64_def by (rule fl_mono) simp

lemma float64_nonneg: "0 \<le> n \<Longrightarrow> 0 \<le> float64 n"
  unfolding float64_def by (rule fl_nonneg) simp

end
