(* ===== verification/Fit.thy ===== *)
theory Fit
  imports Go_Float
begin

text \<open>
  The fit engine, \<open>internal/fit/fit.go\<close> and \<open>descriptor.go\<close>: KV-cache bytes per token, the weight
  bytes a command offloads to the host, the largest contexts a memory budget allows and the fit
  verdict of a model shape on a host.  Bit widths are float64 values.  The lemmas bound the
  recommended contexts by the memory they were computed from, and show that the verdict is monotone
  in the experts moved off the card.
\<close>

named_theorems fit_defs "unfolding rules of the fit engine"

subsection \<open>Shapes, parameters and results\<close>

record model_shape =
  ms_layerCount :: int
  ms_embeddingLength :: int
  ms_keyLength :: int
  ms_valueLength :: int
  ms_headCount :: int
  ms_headCountKV :: int
  ms_fullAttentionInterval :: int
  ms_weightBytes :: int
  ms_trainedCtx :: int
  ms_isMTP :: bool
  ms_isMoE :: bool
  ms_expertBytesTotal :: int
  ms_expertBytesPerLayer :: "(int \<rightharpoonup> int) option"

record fit_params =
  fp_kBits :: rat
  fp_vBits :: rat
  fp_ctx :: int
  fp_outputReserve :: int
  fp_vramTotal :: int
  fp_vramFree :: int
  fp_slots :: int
  fp_unproven :: bool
  fp_cpuMoeAll :: bool
  fp_nCpuMoe :: int
  fp_nGpuLayers :: "int option"
  fp_hostBudget :: int
  fp_draftMB :: int
  fp_projectorMB :: int

definition noParams :: fit_params where
  "noParams = \<lparr>fp_kBits = 0, fp_vBits = 0, fp_ctx = 0, fp_outputReserve = 0, fp_vramTotal = 0,
     fp_vramFree = 0, fp_slots = 0, fp_unproven = False, fp_cpuMoeAll = False, fp_nCpuMoe = 0,
     fp_nGpuLayers = None, fp_hostBudget = 0, fp_draftMB = 0, fp_projectorMB = 0\<rparr>"

datatype fit_level = Perfect | Good | Tight | Marginal | NoFit | UnknownFit

datatype run_mode = RunGpu | RunMoeOffload | RunCpuOffload | RunCpuOnly

datatype fit_reason =
    NoMetadata
  | VramWarmingUp
  | ExceedsVram
  | AboveMargin
  | LittleHeadroom
  | FullContext
  | Comfortable
  | HostBudgetExceeded int int
  | ConfiguredRuns
  | WellBelow fit_reason int int

record fit_result =
  fr_kvBytesPerToken :: int
  fr_modelMB :: int
  fr_configuredCtx :: int
  fr_maxSafeCtx :: int
  fr_maxFitCtx :: int
  fr_maxPhysicalCtx :: int
  fr_kvMBAtMaxSafeCtx :: int
  fr_vramRequiredMB :: int
  fr_vramTotalMB :: int
  fr_fitLevel :: fit_level
  fr_reason :: fit_reason
  fr_underConfigured :: bool
  fr_gpuResidentMB :: int
  fr_hostResidentMB :: int
  fr_runMode :: run_mode

definition mib :: int where
  "mib = 1024 * 1024"

text \<open>\<open>1 + computeOverheadFrac\<close>, and the other fractions, as the float64 constants of the code.\<close>

definition computeOverheadFrac :: rat where "computeOverheadFrac = fl (5 / 100)"
definition overheadFactor :: rat where "overheadFactor = fl (105 / 100)"
definition vramSafetyFrac :: rat where "vramSafetyFrac = fl (92 / 100)"
definition promptMarginFrac :: rat where "promptMarginFrac = fl (92 / 100)"
definition underConfigFrac :: rat where "underConfigFrac = fl (8 / 10)"
definition mtpExtraSafetyFrac :: rat where "mtpExtraSafetyFrac = fl (85 / 100)"
definition defaultOutputReserve :: int where "defaultOutputReserve = 4096"

definition bitsPerElement :: "string \<Rightarrow> rat" where
  "bitsPerElement t =
     (if t = ''f32'' then 32
      else if t = ''f16'' \<or> t = ''bf16'' \<or> t = [] then 16
      else if t = ''q8_0'' then 17 / 2
      else if t = ''q5_0'' \<or> t = ''q5_1'' then 6
      else if t = ''q4_0'' \<or> t = ''q4_1'' then 9 / 2
      else 16)"

subsection \<open>KV cache and offloaded weights\<close>

definition headDims :: "model_shape \<Rightarrow> int \<times> int" where
  "headDims g =
     (let derived = (if ms_headCount g > 0 then ms_embeddingLength g sdiv ms_headCount g
                     else ms_embeddingLength g) in
      (if ms_keyLength g \<le> 0 then derived else ms_keyLength g,
       if ms_valueLength g \<le> 0 then derived else ms_valueLength g))"

definition attnLayers :: "model_shape \<Rightarrow> int" where
  "attnLayers g =
     (if ms_fullAttentionInterval g > 1
      then max 1 (ms_layerCount g sdiv ms_fullAttentionInterval g)
      else ms_layerCount g)"

definition kvBytesPerShape :: "model_shape \<Rightarrow> rat \<Rightarrow> rat \<Rightarrow> int" where
  "kvBytesPerShape g kBits vBits =
     (if ms_layerCount g \<le> 0 \<or> ms_embeddingLength g \<le> 0 then 0
      else case headDims g of
        (kDim, vDim) \<Rightarrow>
          let kvHeads = (if ms_headCountKV g \<le> 0 then ms_headCount g else ms_headCountKV g) in
          if kvHeads \<le> 0 then 0
          else let bytesPerLayer =
                 fdiv (fadd (fmul (float64 (i64 (kvHeads * kDim))) kBits)
                            (fmul (float64 (i64 (kvHeads * vDim))) vBits)) 8 in
               goInt (fmul bytesPerLayer (float64 (attnLayers g))))"

text \<open>The bytes of the experts of the first \<open>n\<close> layers; a layer missing from the map has none.\<close>

fun expertSum :: "(int \<rightharpoonup> int) \<Rightarrow> nat \<Rightarrow> int" where
  "expertSum m 0 = 0"
| "expertSum m (Suc n) = i64 (expertSum m n + (case m (int n) of Some b \<Rightarrow> b | None \<Rightarrow> 0))"

definition expertOffload :: "model_shape \<Rightarrow> fit_params \<Rightarrow> int" where
  "expertOffload g p =
     (if ms_isMoE g \<and> ms_expertBytesTotal g > 0
      then if fp_cpuMoeAll p then ms_expertBytesTotal g
        else if fp_nCpuMoe p > 0
          then let n = (if ms_layerCount g > 0 \<and> fp_nCpuMoe p > ms_layerCount g then ms_layerCount g
                        else fp_nCpuMoe p) in
            case ms_expertBytesPerLayer g of
              Some m \<Rightarrow> expertSum m (nat n)
            | None \<Rightarrow> if ms_layerCount g > 0 then i64 (ms_expertBytesTotal g * n) sdiv ms_layerCount g else 0
          else 0
      else 0)"

definition cpuOffloadBytes :: "model_shape \<Rightarrow> fit_params \<Rightarrow> int" where
  "cpuOffloadBytes g p =
     (let expertCPU = expertOffload g p;
          rest = max 0 (i64 (ms_weightBytes g - expertCPU)) in
      case fp_nGpuLayers p of
        None \<Rightarrow> expertCPU
      | Some n \<Rightarrow>
          if ms_layerCount g > 0 \<and> n < ms_layerCount g
          then i64 (expertCPU + i64 (rest * (ms_layerCount g - max 0 n)) sdiv ms_layerCount g)
          else expertCPU)"

definition runMode :: "fit_params \<Rightarrow> int \<Rightarrow> int \<Rightarrow> run_mode" where
  "runMode p gpuMB hostMB =
     (if hostMB \<le> 0 then RunGpu
      else if gpuMB \<le> 0 then RunCpuOnly
      else if fp_cpuMoeAll p \<or> fp_nCpuMoe p > 0 then RunMoeOffload
      else RunCpuOffload)"

subsection \<open>The fit of a shape on a host\<close>

definition withDefaults :: "fit_params \<Rightarrow> fit_params" where
  "withDefaults p =
     p\<lparr>fp_kBits := (if fp_kBits p = 0 then 16 else fp_kBits p),
       fp_vBits := (if fp_vBits p = 0 then 16 else fp_vBits p),
       fp_outputReserve := (if fp_outputReserve p = 0 then defaultOutputReserve else fp_outputReserve p)\<rparr>"

definition modelMBOf :: "model_shape \<Rightarrow> int" where
  "modelMBOf g = ms_weightBytes g sdiv mib"

definition hostWeightMB :: "model_shape \<Rightarrow> fit_params \<Rightarrow> int" where
  "hostWeightMB g p = min (cpuOffloadBytes g p sdiv mib) (modelMBOf g)"

definition gpuWeightMB :: "model_shape \<Rightarrow> fit_params \<Rightarrow> int" where
  "gpuWeightMB g p = modelMBOf g - hostWeightMB g p"

definition budgetMB :: "fit_params \<Rightarrow> int \<Rightarrow> int" where
  "budgetMB p gpuW =
     (if fp_vramFree p > 0
      then let b = fp_vramFree p + gpuW in
        if fp_vramTotal p > 0 \<and> b > fp_vramTotal p then fp_vramTotal p else b
      else fp_vramTotal p)"

definition physicalUsableMB :: "model_shape \<Rightarrow> int \<Rightarrow> rat" where
  "physicalUsableMB g b =
     (if ms_isMTP g then fmul (float64 b) mtpExtraSafetyFrac else float64 b)"

definition usableMB :: "model_shape \<Rightarrow> int \<Rightarrow> rat" where
  "usableMB g b =
     (let u = fmul (float64 b) vramSafetyFrac in if ms_isMTP g then fmul u mtpExtraSafetyFrac else u)"

text \<open>How many tokens of KV fit beside \<open>w\<close> MB of weights.\<close>

definition ctxWithin :: "rat \<Rightarrow> int \<Rightarrow> int \<Rightarrow> int" where
  "ctxWithin usable w kvPerTok =
     (let kvBudget = fsub usable (fmul (float64 w) overheadFactor) in
      if kvBudget > 0 then goInt (fdiv (fmul kvBudget (float64 mib)) (float64 kvPerTok)) else 0)"

definition hardCtxOf :: "model_shape \<Rightarrow> fit_params \<Rightarrow> int \<Rightarrow> int" where
  "hardCtxOf g p vramMaxCtx =
     (let hard = (if fp_ctx p \<le> 0 then ms_trainedCtx g else fp_ctx p) in
      if \<not> fp_ctx p > 0 \<and> vramMaxCtx > 0 \<and> vramMaxCtx < hard then vramMaxCtx else hard)"

definition maxSafeOf :: "fit_params \<Rightarrow> int \<Rightarrow> int" where
  "maxSafeOf p hardCtx =
     (let perReq = (if fp_slots p > 1 then hardCtx sdiv fp_slots p else hardCtx) in
      max 0 (goInt (fmul (float64 perReq) promptMarginFrac) - fp_outputReserve p))"

definition vramRequired :: "int \<Rightarrow> int \<Rightarrow> int \<Rightarrow> int" where
  "vramRequired w kvPerTok hardCtx =
     w + goInt (fmul (float64 w) computeOverheadFrac) + i64 (kvPerTok * hardCtx) sdiv mib"

definition vramVerdict :: "model_shape \<Rightarrow> fit_params \<Rightarrow> rat \<Rightarrow> int \<Rightarrow> int \<Rightarrow> fit_level \<times> fit_reason" where
  "vramVerdict g p usable required vramMaxCtx =
     (if required > fp_vramTotal p then (NoFit, ExceedsVram)
      else if float64 required > usable then (Marginal, AboveMargin)
      else if required > goInt usable * 9 sdiv 10 then (Tight, LittleHeadroom)
      else if vramMaxCtx \<ge> ms_trainedCtx g then (Perfect, FullContext)
      else (Good, Comfortable))"

definition hostVerdict :: "fit_params \<Rightarrow> int \<Rightarrow> fit_level \<times> fit_reason \<Rightarrow> fit_level \<times> fit_reason" where
  "hostVerdict p hostW v =
     (if hostW > 0 \<and> fp_hostBudget p > 0 \<and> hostW > fp_hostBudget p
      then (NoFit, HostBudgetExceeded hostW (fp_hostBudget p)) else v)"

definition rescueConfigured :: "fit_params \<Rightarrow> fit_level \<times> fit_reason \<Rightarrow> fit_level \<times> fit_reason" where
  "rescueConfigured p v =
     (if fp_ctx p > 0 \<and> \<not> fp_unproven p \<and> fst v = NoFit then (Marginal, ConfiguredRuns) else v)"

definition cappedCtx :: "model_shape \<Rightarrow> int \<Rightarrow> int" where
  "cappedCtx g c =
     (if c > 0 then if ms_trainedCtx g > 0 \<and> c > ms_trainedCtx g then ms_trainedCtx g else c else 0)"

definition isUnderConfigured :: "fit_params \<Rightarrow> int \<Rightarrow> bool" where
  "isUnderConfigured p maxFit =
     (fp_ctx p > 0 \<and> \<not> fp_unproven p \<and> maxFit > 0 \<and> fp_ctx p < goInt (fmul (float64 maxFit) underConfigFrac))"

definition baseResult :: "model_shape \<Rightarrow> fit_params \<Rightarrow> int \<Rightarrow> fit_level \<Rightarrow> fit_reason \<Rightarrow> fit_result" where
  "baseResult g p kvPerTok lvl why =
     \<lparr>fr_kvBytesPerToken = kvPerTok, fr_modelMB = modelMBOf g, fr_configuredCtx = fp_ctx p,
      fr_maxSafeCtx = 0, fr_maxFitCtx = 0, fr_maxPhysicalCtx = 0, fr_kvMBAtMaxSafeCtx = 0,
      fr_vramRequiredMB = 0, fr_vramTotalMB = fp_vramTotal p, fr_fitLevel = lvl, fr_reason = why,
      fr_underConfigured = False, fr_gpuResidentMB = gpuWeightMB g p, fr_hostResidentMB = hostWeightMB g p,
      fr_runMode = runMode p (gpuWeightMB g p) (hostWeightMB g p)\<rparr>"

definition sizedResult :: "model_shape \<Rightarrow> fit_params \<Rightarrow> int \<Rightarrow> fit_result" where
  "sizedResult g p kvPerTok =
     (let gpuW = gpuWeightMB g p; hostW = hostWeightMB g p;
          b = budgetMB p gpuW;
          companion = fp_draftMB p + fp_projectorMB p;
          vramMaxCtx = ctxWithin (usableMB g b) (gpuW + companion) kvPerTok;
          physicalMaxCtx = ctxWithin (physicalUsableMB g b) (gpuW + companion) kvPerTok;
          hardCtx = hardCtxOf g p vramMaxCtx;
          safe = maxSafeOf p hardCtx;
          required = vramRequired (gpuW + companion) kvPerTok hardCtx;
          v = rescueConfigured p (hostVerdict p hostW (vramVerdict g p (usableMB g b) required vramMaxCtx));
          maxFit = cappedCtx g vramMaxCtx;
          under = isUnderConfigured p maxFit in
      (baseResult g p kvPerTok (fst v) (if under then WellBelow (snd v) (fp_ctx p) maxFit else snd v))
        \<lparr>fr_maxSafeCtx := (if fst v = NoFit then 0 else safe),
         fr_kvMBAtMaxSafeCtx := (if fst v = NoFit then 0 else i64 (kvPerTok * safe) sdiv mib),
         fr_vramRequiredMB := required,
         fr_maxFitCtx := maxFit,
         fr_maxPhysicalCtx := cappedCtx g physicalMaxCtx,
         fr_underConfigured := under\<rparr>)"

definition analyzeShape :: "model_shape \<Rightarrow> fit_params \<Rightarrow> fit_result" where
  "analyzeShape g p0 =
     (let p = withDefaults p0; kvPerTok = kvBytesPerShape g (fp_kBits p) (fp_vBits p) in
      if kvPerTok \<le> 0 \<or> modelMBOf g \<le> 0 then baseResult g p kvPerTok NoFit NoMetadata
      else if fp_vramTotal p \<le> 0 \<and> fp_vramFree p \<le> 0 then baseResult g p kvPerTok UnknownFit VramWarmingUp
      else sizedResult g p kvPerTok)"

subsection \<open>The constants\<close>

lemma overheadFactor_val: "overheadFactor = 4728779608739021 / 4503599627370496"
  unfolding overheadFactor_def by code_simp

lemma computeOverheadFrac_val: "computeOverheadFrac = 3602879701896397 / 72057594037927936"
  unfolding computeOverheadFrac_def by code_simp

lemma vramSafetyFrac_val: "vramSafetyFrac = 8286623314361713 / 9007199254740992"
  unfolding vramSafetyFrac_def by code_simp

lemma mtpExtraSafetyFrac_val: "mtpExtraSafetyFrac = 7656119366529843 / 9007199254740992"
  unfolding mtpExtraSafetyFrac_def by code_simp

lemma underConfigFrac_val: "underConfigFrac = 3602879701896397 / 4503599627370496"
  unfolding underConfigFrac_def by code_simp

lemmas fractions = overheadFactor_val computeOverheadFrac_val vramSafetyFrac_val mtpExtraSafetyFrac_val

subsection \<open>The verdict\<close>

lemma analyzeShape_sized:
  assumes "fr_fitLevel (analyzeShape g p) \<noteq> UnknownFit" and "fr_reason (analyzeShape g p) \<noteq> NoMetadata"
  shows "analyzeShape g p = sizedResult g (withDefaults p) (kvBytesPerShape g (fp_kBits (withDefaults p)) (fp_vBits (withDefaults p)))"
  using assms by (auto simp: analyzeShape_def Let_def baseResult_def split: if_splits)

definition kvOf :: "model_shape \<Rightarrow> fit_params \<Rightarrow> int" where
  "kvOf g p = kvBytesPerShape g (fp_kBits (withDefaults p)) (fp_vBits (withDefaults p))"

lemma withDefaults_simps [simp]:
  "fp_ctx (withDefaults p) = fp_ctx p" "fp_vramTotal (withDefaults p) = fp_vramTotal p"
  "fp_vramFree (withDefaults p) = fp_vramFree p" "fp_slots (withDefaults p) = fp_slots p"
  "fp_unproven (withDefaults p) = fp_unproven p" "fp_cpuMoeAll (withDefaults p) = fp_cpuMoeAll p"
  "fp_nCpuMoe (withDefaults p) = fp_nCpuMoe p" "fp_nGpuLayers (withDefaults p) = fp_nGpuLayers p"
  "fp_hostBudget (withDefaults p) = fp_hostBudget p" "fp_draftMB (withDefaults p) = fp_draftMB p"
  "fp_projectorMB (withDefaults p) = fp_projectorMB p"
  by (simp_all add: withDefaults_def)

lemma sized_configured_never_no:
  "fp_ctx p > 0 \<Longrightarrow> \<not> fp_unproven p \<Longrightarrow> fr_fitLevel (sizedResult g p k) \<noteq> NoFit"
  by (simp add: sizedResult_def baseResult_def Let_def rescueConfigured_def)

lemma verdict_has_metadata:
  "snd (rescueConfigured p (hostVerdict p hostW (vramVerdict g p usable required c))) \<noteq> NoMetadata"
  by (simp add: rescueConfigured_def hostVerdict_def vramVerdict_def)

lemma sized_has_metadata: "fr_reason (sizedResult g p k) \<noteq> NoMetadata"
  by (simp add: sizedResult_def baseResult_def Let_def verdict_has_metadata)

lemma no_metadata_is_no:
  "fr_reason (analyzeShape g p) = NoMetadata \<longleftrightarrow>
     kvBytesPerShape g (fp_kBits (withDefaults p)) (fp_vBits (withDefaults p)) \<le> 0 \<or> modelMBOf g \<le> 0"
  by (simp add: analyzeShape_def Let_def sized_has_metadata baseResult_def)

text \<open>
  A command that runs on this host is never reported as not fitting, unless the shape has no
  KV bytes or no weights; then it is reported as not fitting whatever the command.
\<close>

theorem deployed_model_verdict:
  "(fp_ctx p > 0 \<and> \<not> fp_unproven p \<and> fr_fitLevel (analyzeShape g p) = NoFit) =
   (fp_ctx p > 0 \<and> \<not> fp_unproven p \<and> (kvOf g p \<le> 0 \<or> modelMBOf g \<le> 0))"
  using sized_configured_never_no [of "withDefaults p" g]
  by (auto simp: analyzeShape_def kvOf_def Let_def baseResult_def split: if_splits)

lemma no_fit_no_prompt_budget:
  "fr_fitLevel (analyzeShape g p) = NoFit \<Longrightarrow>
     fr_maxSafeCtx (analyzeShape g p) = 0 \<and> fr_kvMBAtMaxSafeCtx (analyzeShape g p) = 0"
  by (auto simp: analyzeShape_def sizedResult_def baseResult_def Let_def split: if_splits)

definition fitsLevel :: "fit_level \<Rightarrow> bool" where
  "fitsLevel l = (l = Perfect \<or> l = Good \<or> l = Tight)"

lemma vramVerdict_fits:
  "fitsLevel (fst (vramVerdict g p usable required c)) \<longleftrightarrow>
     required \<le> fp_vramTotal p \<and> float64 required \<le> usable"
  by (auto simp: vramVerdict_def fitsLevel_def)

lemma fitsLevel_pipeline:
  "fitsLevel (fst (rescueConfigured p (hostVerdict p hostW v))) \<longleftrightarrow>
     fitsLevel (fst v) \<and> \<not> (hostW > 0 \<and> fp_hostBudget p > 0 \<and> hostW > fp_hostBudget p)"
  by (auto simp: rescueConfigured_def hostVerdict_def fitsLevel_def)

text \<open>Weights split between card and host without loss.\<close>

lemma resident_split:
  "fr_gpuResidentMB (analyzeShape g p) + fr_hostResidentMB (analyzeShape g p) = fr_modelMB (analyzeShape g p)"
  by (auto simp: analyzeShape_def sizedResult_def baseResult_def Let_def gpuWeightMB_def)

lemma gpuWeightMB_nonneg: "0 \<le> gpuWeightMB g p"
  by (simp add: gpuWeightMB_def hostWeightMB_def)

subsection \<open>The recommended contexts fit\<close>

lemma fl_upper: "0 \<le> x \<Longrightarrow> fl x \<le> x + x / 2 ^ 53"
  using fl_near [of x] by linarith

lemma fl_lower: "0 \<le> x \<Longrightarrow> x - x / 2 ^ 53 \<le> fl x"
  using fl_near [of x] by linarith

text \<open>The overhead of \<open>w\<close> MB as reserved by the budget and as counted by the requirement.\<close>

lemma overhead_low:
  assumes "0 \<le> w" and "w \<le> 2 ^ 44"
  shows "of_int w * 105 / 100 - 1 / 64 \<le> fmul (float64 w) overheadFactor"
proof -
  have w: "float64 w = of_int w" using assms by (intro float64_int) simp
  let ?x = "of_int w * overheadFactor"
  have W: "(0 :: rat) \<le> of_int w" "of_int w \<le> (2 ^ 44 :: rat)"
    using assms by (simp, simp add: of_int_le_iff [where 'a = rat, of w "2 ^ 44", simplified])
  have "?x - ?x / 2 ^ 53 \<le> fl ?x" using W by (intro fl_lower) (simp add: overheadFactor_val)
  then show ?thesis using W unfolding fmul_def w overheadFactor_val by simp
qed

lemma overhead_high:
  assumes "0 \<le> w" and "w \<le> 2 ^ 44"
  shows "(of_int (goInt (fmul (float64 w) computeOverheadFrac)) :: rat) \<le> of_int w * 5 / 100 + 1 / 64"
    and "0 \<le> goInt (fmul (float64 w) computeOverheadFrac)"
proof -
  have w: "float64 w = of_int w" using assms by (intro float64_int) simp
  let ?x = "of_int w * computeOverheadFrac"
  have W: "(0 :: rat) \<le> of_int w" "of_int w \<le> (2 ^ 44 :: rat)"
    using assms by (simp, simp add: of_int_le_iff [where 'a = rat, of w "2 ^ 44", simplified])
  have n: "0 \<le> fl ?x" using W by (intro fl_nonneg) (simp add: computeOverheadFrac_val)
  have u: "fl ?x \<le> ?x + ?x / 2 ^ 53" using W by (intro fl_upper) (simp add: computeOverheadFrac_val)
  then have l: "fl ?x \<le> of_int w * 5 / 100 + 1 / 64" using W unfolding computeOverheadFrac_val by simp
  then have "fl ?x < 2 ^ 63" using W by simp
  from goInt_bounds [OF n this] l show
    "(of_int (goInt (fmul (float64 w) computeOverheadFrac)) :: rat) \<le> of_int w * 5 / 100 + 1 / 64"
    "0 \<le> goInt (fmul (float64 w) computeOverheadFrac)"
    unfolding fmul_def w by linarith+
qed

text \<open>Dividing the KV budget by the bytes of a token: the tokens times their bytes stay within the
  budget, up to a fraction of a MB.\<close>

lemma tokens_within:
  assumes v: "0 < v" "v \<le> 2 ^ 41" and k: "0 < k" "k < 2 ^ 53"
    and c: "c = goInt (fdiv (fmul v (float64 mib)) (float64 k))"
  shows "0 \<le> c" and "of_int (c * k) \<le> (v + 1 / 64) * 2 ^ 20"
proof -
  have m: "float64 mib = 2 ^ 20" using float64_int [of mib] by (simp add: mib_def)
  have K: "float64 k = of_int k" using k by (intro float64_int) simp
  have k1: "(1 :: rat) \<le> of_int k" using k by simp
  let ?y = "fmul v (2 ^ 20)"
  have y: "0 \<le> ?y" "?y \<le> v * 2 ^ 20 + v * 2 ^ 20 / 2 ^ 53"
    unfolding fmul_def using v by (simp add: fl_nonneg, intro fl_upper) simp
  let ?q = "?y / of_int k"
  have q0: "0 \<le> ?q" using y(1) k1 by simp
  have qy: "?q \<le> ?y" using y(1) k1 by (simp add: divide_le_eq mult_le_cancel_left1)
  have f: "0 \<le> fl ?q" "fl ?q \<le> ?q + ?q / 2 ^ 53" by (rule fl_nonneg [OF q0], rule fl_upper [OF q0])
  have "fl ?q < 2 ^ 63" using f(2) qy y(2) v by simp
  then have g: "0 \<le> c" "of_int c \<le> fl ?q"
    using goInt_bounds [OF f(1)] unfolding c m K fdiv_def by auto
  then show "0 \<le> c" by simp
  have "of_int (c * k) = of_int c * (of_int k :: rat)" by simp
  also have "\<dots> \<le> (?q + ?q / 2 ^ 53) * of_int k" using g(2) f(2) k1 by (intro mult_right_mono) simp_all
  also have "\<dots> = ?y + ?y / 2 ^ 53" using k1 by (simp add: field_simps)
  also have "\<dots> \<le> (v + 1 / 64) * 2 ^ 20" using y v by simp
  finally show "of_int (c * k) \<le> (v + 1 / 64) * 2 ^ 20" .
qed

lemma usable_le_budget:
  assumes "0 \<le> b" and "b \<le> 2 ^ 40"
  shows "physicalUsableMB g b \<le> of_int b" and "usableMB g b \<le> of_int b"
proof -
  have b: "float64 b = of_int b" using assms by (intro float64_int) simp
  have le: "fmul x f \<le> of_int b" if "x \<le> of_int b" "0 \<le> f" "f \<le> 1" for x f
  proof -
    have "x * f \<le> of_int b * 1"
      using that assms by (intro order.trans [OF mult_right_mono [OF that(1,2)]] mult_left_mono) simp_all
    then have "fl (x * f) \<le> fl (of_int b)" using fl_mono by simp
    then show ?thesis using b by (simp add: fmul_def float64_def)
  qed
  have u: "fmul (of_int b) vramSafetyFrac \<le> of_int b" by (rule le) (simp_all add: vramSafetyFrac_val)
  show "physicalUsableMB g b \<le> of_int b" unfolding physicalUsableMB_def b
    using le [of "of_int b" mtpExtraSafetyFrac] by (simp add: mtpExtraSafetyFrac_val)
  show "usableMB g b \<le> of_int b" unfolding usableMB_def b Let_def
    using u le [OF u, of mtpExtraSafetyFrac] by (simp add: mtpExtraSafetyFrac_val)
qed

text \<open>A context the budget allows needs no more memory than the budget.\<close>

lemma ctxWithin_fits:
  assumes w: "0 \<le> w" "w \<le> 2 ^ 44" and b: "0 \<le> b" "b \<le> 2 ^ 40" and u: "usable \<le> of_int b"
    and k: "0 < k" "k < 2 ^ 53" and c: "0 \<le> c" "c \<le> ctxWithin usable w k" "0 < ctxWithin usable w k"
  shows "vramRequired w k c \<le> b"
proof -
  define v where "v = fsub usable (fmul (float64 w) overheadFactor)"
  have v0: "0 < v" and cw: "ctxWithin usable w k = goInt (fdiv (fmul v (float64 mib)) (float64 k))"
    using c(3) by (auto simp: ctxWithin_def Let_def v_def split: if_splits)
  let ?o = "fmul (float64 w) overheadFactor"
  have o: "of_int w * 105 / 100 - 1 / 64 \<le> ?o" by (rule overhead_low [OF w])
  have B: "(of_int b :: rat) \<le> 2 ^ 40" "(0 :: rat) \<le> of_int b"
    using b by (simp add: of_int_le_iff [where 'a = rat, of b "2 ^ 40", simplified], simp)
  have W0: "(0 :: rat) \<le> of_int w" using w by simp
  have d: "0 \<le> usable - ?o"
  proof (rule ccontr)
    assume "\<not> 0 \<le> usable - ?o"
    then have "v \<le> 0" unfolding v_def fsub_def by (intro fl_nonpos) simp
    with v0 show False by simp
  qed
  then have v1: "v \<le> usable - ?o + (usable - ?o) / 2 ^ 53" unfolding v_def fsub_def by (rule fl_upper)
  have du: "usable - ?o \<le> of_int b - of_int w * 105 / 100 + 1 / 64" using u o by linarith
  have d41: "usable - ?o \<le> 2 ^ 41" using du B W0 by simp
  have "(usable - ?o) / 2 ^ 53 \<le> 2 ^ 41 / 2 ^ 53" by (intro divide_right_mono d41) simp
  also have "\<dots> \<le> (1 / 64 :: rat)" by simp
  finally have de: "(usable - ?o) / 2 ^ 53 \<le> 1 / 64" .
  have v2: "v \<le> of_int b - of_int w * 105 / 100 + 1 / 32" using v1 de du by linarith
  then have v3: "v \<le> 2 ^ 41" using B W0 by simp
  note t = tokens_within [OF v0 v3 k cw]
  have "of_int (c * k) \<le> (of_int (ctxWithin usable w k * k) :: rat)"
    using c k by (simp only: of_int_le_iff mult_right_mono)
  with t(2) have ck: "(of_int (c * k) :: rat) \<le> (v + 1 / 64) * 2 ^ 20" by linarith
  define x where "x = k * c"
  have x0: "0 \<le> x" using c k by (simp add: x_def)
  have xr: "(of_int x :: rat) \<le> (v + 1 / 64) * 2 ^ 20" using ck by (simp add: x_def mult.commute)
  then have "(of_int x :: rat) \<le> of_int (2 ^ 62)" using v3 by simp
  then have x62: "x \<le> 2 ^ 62" by (simp only: of_int_le_iff)
  have m: "mib = 2 ^ 20" by (simp add: mib_def)
  have xd: "i64 x sdiv mib = x div 2 ^ 20" using x0 x62 by (simp add: i64_small sdiv_nonneg m)
  have "(of_int (x div 2 ^ 20) :: rat) * 2 ^ 20 \<le> of_int x"
  proof -
    have "x div 2 ^ 20 * 2 ^ 20 \<le> x" by simp
    then have "(of_int (x div 2 ^ 20 * 2 ^ 20) :: rat) \<le> of_int x" by (simp only: of_int_le_iff)
    then show ?thesis by simp
  qed
  with xr have xm: "(of_int (x div 2 ^ 20) :: rat) \<le> v + 1 / 64" by simp
  have "(of_int (vramRequired w k c) :: rat) < of_int (b + 1)"
    using overhead_high [OF w] xm v2 by (simp add: vramRequired_def x_def [symmetric] xd)
  then show ?thesis by (simp only: of_int_less_iff)
qed

text \<open>Hosts and shapes whose figures leave room in an int64: a card and companions below \<open>2 ^ 40\<close> MB,
  a token below \<open>2 ^ 53\<close> bytes.\<close>

definition realistic :: "model_shape \<Rightarrow> fit_params \<Rightarrow> bool" where
  "realistic g p =
     (0 < fp_vramTotal p \<and> fp_vramTotal p \<le> 2 ^ 40 \<and> 0 \<le> fp_draftMB p \<and> 0 \<le> fp_projectorMB p \<and>
      fp_draftMB p + fp_projectorMB p \<le> 2 ^ 40 \<and> ms_weightBytes g < 2 ^ 63 \<and> kvOf g p < 2 ^ 53)"

lemma gpuWeightMB_upper:
  assumes "ms_weightBytes g < 2 ^ 63" and "0 < modelMBOf g" and "0 \<le> cpuOffloadBytes g p"
  shows "gpuWeightMB g p \<le> 2 ^ 43"
proof -
  have w: "0 \<le> ms_weightBytes g"
  proof (rule ccontr)
    assume "\<not> 0 \<le> ms_weightBytes g"
    then have "modelMBOf g \<le> 0" by (simp add: modelMBOf_def mib_def signed_divide_int_def sgn_mult)
    with assms(2) show False by simp
  qed
  then have "modelMBOf g = ms_weightBytes g div 2 ^ 20" by (simp add: modelMBOf_def mib_def sdiv_nonneg)
  then have "modelMBOf g \<le> 2 ^ 43" using assms(1) by simp
  moreover have "0 \<le> cpuOffloadBytes g p sdiv mib" using assms(3) by (simp add: sdiv_nonneg mib_def pos_imp_zdiv_nonneg_iff)
  ultimately show ?thesis using assms(2) by (simp add: gpuWeightMB_def hostWeightMB_def)
qed

lemma budgetMB_bounds:
  assumes "0 < fp_vramTotal p" and "0 \<le> w"
  shows "0 \<le> budgetMB p w" and "budgetMB p w \<le> fp_vramTotal p"
  using assms by (auto simp: budgetMB_def Let_def)

lemma cappedCtx_le: "0 < cappedCtx g c \<Longrightarrow> cappedCtx g c \<le> c \<and> 0 < c"
  by (auto simp: cappedCtx_def split: if_splits)

lemma gpuWeightMB_ctx [simp]:
  "gpuWeightMB g (p\<lparr>fp_ctx := c\<rparr>) = gpuWeightMB g p" "gpuWeightMB g (withDefaults p) = gpuWeightMB g p"
  "hostWeightMB g (withDefaults p) = hostWeightMB g p"
  by (simp_all add: gpuWeightMB_def hostWeightMB_def cpuOffloadBytes_def expertOffload_def)

lemma withDefaults_ctx: "withDefaults (p\<lparr>fp_ctx := c\<rparr>) = (withDefaults p)\<lparr>fp_ctx := c\<rparr>"
  by (simp add: withDefaults_def)

lemma required_at:
  assumes "0 < c"
  shows "fr_vramRequiredMB (analyzeShape g (p\<lparr>fp_ctx := c\<rparr>)) =
    (if kvOf g p \<le> 0 \<or> modelMBOf g \<le> 0 \<or> fp_vramTotal p \<le> 0 \<and> fp_vramFree p \<le> 0 then 0
     else vramRequired (gpuWeightMB g p + (fp_draftMB p + fp_projectorMB p)) (kvOf g p) c)"
  using assms
  by (simp add: analyzeShape_def kvOf_def withDefaults_ctx Let_def baseResult_def sizedResult_def hardCtxOf_def)

lemma sized_reports:
  assumes "0 < fp_vramTotal p" and "0 < kvOf g p" and "0 < modelMBOf g"
  shows "fr_maxFitCtx (analyzeShape g p) =
           cappedCtx g (ctxWithin (usableMB g (budgetMB p (gpuWeightMB g p)))
             (gpuWeightMB g p + (fp_draftMB p + fp_projectorMB p)) (kvOf g p))"
    and "fr_maxPhysicalCtx (analyzeShape g p) =
           cappedCtx g (ctxWithin (physicalUsableMB g (budgetMB p (gpuWeightMB g p)))
             (gpuWeightMB g p + (fp_draftMB p + fp_projectorMB p)) (kvOf g p))"
  using assms
  by (simp_all add: analyzeShape_def kvOf_def Let_def sizedResult_def budgetMB_def)

text \<open>
  The contexts a report recommends are safe: a command started at the largest context that
  fits, or at the physical ceiling, needs no more memory than the card has.
\<close>

theorem recommended_context_fits:
  assumes r: "realistic g p" and off: "0 \<le> cpuOffloadBytes g p"
    and c: "0 < c" "c = fr_maxFitCtx (analyzeShape g p) \<or> c = fr_maxPhysicalCtx (analyzeShape g p)"
  shows "fr_vramRequiredMB (analyzeShape g (p\<lparr>fp_ctx := c\<rparr>)) \<le> fp_vramTotal p"
proof (cases "kvOf g p \<le> 0 \<or> modelMBOf g \<le> 0")
  case True
  then show ?thesis using r c by (simp add: required_at realistic_def)
next
  case False
  then have k: "0 < kvOf g p" "0 < modelMBOf g" by simp_all
  have r': "0 < fp_vramTotal p" "fp_vramTotal p \<le> 2 ^ 40" "ms_weightBytes g < 2 ^ 63" "kvOf g p < 2 ^ 53"
    "0 \<le> fp_draftMB p + fp_projectorMB p" "fp_draftMB p + fp_projectorMB p \<le> 2 ^ 40"
    using r by (simp_all add: realistic_def)
  let ?w = "gpuWeightMB g p + (fp_draftMB p + fp_projectorMB p)"
  let ?b = "budgetMB p (gpuWeightMB g p)"
  have w: "0 \<le> ?w" "?w \<le> 2 ^ 44"
    using gpuWeightMB_nonneg [of g p] gpuWeightMB_upper [OF r'(3) k(2) off] r' by simp_all
  note B = budgetMB_bounds [OF r'(1) gpuWeightMB_nonneg, of g p]
  have b40: "?b \<le> 2 ^ 40" using B(2) r'(2) by simp
  obtain u where u: "u \<le> of_int ?b" and cu: "c = cappedCtx g (ctxWithin u ?w (kvOf g p))"
    using c(2) sized_reports [OF r'(1) k] usable_le_budget [OF B(1) b40, of g] by metis
  from cu c(1) cappedCtx_le [of g "ctxWithin u ?w (kvOf g p)"]
  have cc: "c \<le> ctxWithin u ?w (kvOf g p)" "0 < ctxWithin u ?w (kvOf g p)" by simp_all
  have "vramRequired ?w (kvOf g p) c \<le> ?b"
    using ctxWithin_fits [OF w B(1) b40 u k(1) r'(4) order_less_imp_le [OF c(1)] cc] .
  with B(2) show ?thesis using required_at [OF c(1), of g p] False r'(1) by simp
qed

subsection \<open>Moving experts off the card\<close>

definition layerBytes :: "(int \<rightharpoonup> int) \<Rightarrow> nat \<Rightarrow> int" where
  "layerBytes m i = (case m (int i) of Some b \<Rightarrow> b | None \<Rightarrow> 0)"

text \<open>Expert sizes read from a file: not negative, and their sum fits an int64.\<close>

definition expertsOk :: "model_shape \<Rightarrow> bool" where
  "expertsOk g =
     (0 < ms_layerCount g \<and>
      (case ms_expertBytesPerLayer g of
         Some m \<Rightarrow> list_all (\<lambda>i. 0 \<le> layerBytes m i) [0..<nat (ms_layerCount g)] \<and>
                   sum_list (map (layerBytes m) [0..<nat (ms_layerCount g)]) \<le> 2 ^ 62
       | None \<Rightarrow> 0 \<le> ms_expertBytesTotal g \<and> ms_expertBytesTotal g * ms_layerCount g \<le> 2 ^ 62))"

lemma sum_list_prefix_le:
  fixes f :: "nat \<Rightarrow> int"
  assumes "list_all (\<lambda>i. 0 \<le> f i) [0..<b]" and "a \<le> b"
  shows "sum_list (map f [0..<a]) \<le> sum_list (map f [0..<b])"
proof -
  have "[0..<b] = [0..<a] @ [a..<b]" using assms(2) by (metis le0 le_add_diff_inverse upt_add_eq_append)
  moreover have "0 \<le> sum_list (map f [a..<b])"
    using assms(1) by (intro sum_list_nonneg) (auto simp: list_all_iff)
  ultimately show ?thesis by simp
qed

lemma expertSum_eq:
  assumes "list_all (\<lambda>i. 0 \<le> layerBytes m i) [0..<L]" and "sum_list (map (layerBytes m) [0..<L]) \<le> 2 ^ 62"
  shows "n \<le> L \<Longrightarrow> expertSum m n = sum_list (map (layerBytes m) [0..<n])"
proof (induction n)
  case (Suc n)
  have nn: "0 \<le> sum_list (map (layerBytes m) [0..<Suc n])"
    using assms(1) Suc.prems by (intro sum_list_nonneg) (auto simp: list_all_iff)
  have "sum_list (map (layerBytes m) [0..<Suc n]) \<le> 2 ^ 62"
    using sum_list_prefix_le [OF assms(1) Suc.prems] assms(2) by linarith
  moreover have "expertSum m (Suc n) = i64 (sum_list (map (layerBytes m) [0..<Suc n]))"
    using Suc by (simp add: layerBytes_def [symmetric])
  ultimately show ?case using nn by (simp only: i64_small)
qed simp

lemma expertOffload_mono:
  assumes ok: "expertsOk g" and p: "\<not> fp_cpuMoeAll p" and mn: "0 < m" "m \<le> n"
  shows "0 \<le> expertOffload g (p\<lparr>fp_nCpuMoe := m\<rparr>)"
    and "expertOffload g (p\<lparr>fp_nCpuMoe := m\<rparr>) \<le> expertOffload g (p\<lparr>fp_nCpuMoe := n\<rparr>)"
proof -
  let ?L = "ms_layerCount g"
  have L: "0 < ?L" using ok by (simp add: expertsOk_def)
  have both: "0 \<le> expertOffload g (p\<lparr>fp_nCpuMoe := m\<rparr>) \<and>
    expertOffload g (p\<lparr>fp_nCpuMoe := m\<rparr>) \<le> expertOffload g (p\<lparr>fp_nCpuMoe := n\<rparr>)"
  proof (cases "ms_expertBytesPerLayer g")
    case (Some e)
    have o: "list_all (\<lambda>i. 0 \<le> layerBytes e i) [0..<nat ?L]" "sum_list (map (layerBytes e) [0..<nat ?L]) \<le> 2 ^ 62"
      using ok Some by (auto simp: expertsOk_def)
    have le: "list_all (\<lambda>i. 0 \<le> layerBytes e i) [0..<nat (min n ?L)]"
      using o(1) by (auto simp: list_all_iff)
    have "expertSum e (nat (min m ?L)) = sum_list (map (layerBytes e) [0..<nat (min m ?L)])"
      "expertSum e (nat (min n ?L)) = sum_list (map (layerBytes e) [0..<nat (min n ?L)])"
      by (rule expertSum_eq [OF o], simp)+
    moreover have "0 \<le> sum_list (map (layerBytes e) [0..<nat (min m ?L)])"
      using o(1) by (intro sum_list_nonneg) (auto simp: list_all_iff)
    ultimately have s: "0 \<le> expertSum e (nat (min m ?L))" "expertSum e (nat (min m ?L)) \<le> expertSum e (nat (min n ?L))"
      using sum_list_prefix_le [OF le, of "nat (min m ?L)"] mn by (simp_all only: nat_mono min.mono order_refl)
    have "expertOffload g (p\<lparr>fp_nCpuMoe := k\<rparr>) =
        (if ms_isMoE g \<and> ms_expertBytesTotal g > 0 then expertSum e (nat (min k ?L)) else 0)" if "0 < k" for k
      using that L Some p by (simp add: expertOffload_def min_def Let_def)
    then show ?thesis using s mn by auto
  next
    case None
    have t: "0 \<le> ms_expertBytesTotal g" "ms_expertBytesTotal g * ?L \<le> 2 ^ 62"
      using ok None by (auto simp: expertsOk_def)
    have i: "i64 (ms_expertBytesTotal g * min k ?L) = ms_expertBytesTotal g * min k ?L" if "0 < k" for k
    proof (rule i64_small)
      show "0 \<le> ms_expertBytesTotal g * min k ?L" using t(1) that L by simp
      have "ms_expertBytesTotal g * min k ?L \<le> ms_expertBytesTotal g * ?L" using t(1) by (intro mult_left_mono) simp_all
      then show "ms_expertBytesTotal g * min k ?L \<le> 2 ^ 62" using t(2) by linarith
    qed
    have e: "expertOffload g (p\<lparr>fp_nCpuMoe := k\<rparr>) =
        (if ms_isMoE g \<and> ms_expertBytesTotal g > 0 then (ms_expertBytesTotal g * min k ?L) sdiv ?L else 0)" if "0 < k" for k
      using that L None p i [OF that] by (cases "k \<le> ?L") (simp_all add: expertOffload_def Let_def)
    have "ms_expertBytesTotal g * min m ?L \<le> ms_expertBytesTotal g * min n ?L"
      using t(1) mn by (intro mult_left_mono) simp_all
    then have "(ms_expertBytesTotal g * min m ?L) sdiv ?L \<le> (ms_expertBytesTotal g * min n ?L) sdiv ?L"
      using t(1) L mn by (intro sdiv_mono_pos) simp_all
    moreover have "0 \<le> (ms_expertBytesTotal g * min m ?L) sdiv ?L" using t(1) L mn
      by (simp add: sdiv_nonneg pos_imp_zdiv_nonneg_iff)
    ultimately show ?thesis using e mn by simp
  qed
  then show "0 \<le> expertOffload g (p\<lparr>fp_nCpuMoe := m\<rparr>)"
    and "expertOffload g (p\<lparr>fp_nCpuMoe := m\<rparr>) \<le> expertOffload g (p\<lparr>fp_nCpuMoe := n\<rparr>)" by simp_all
qed

lemma gpuWeightMB_antimono:
  assumes "expertsOk g" and "\<not> fp_cpuMoeAll p" and "fp_nGpuLayers p = None" and "0 < m" and "m \<le> n"
  shows "gpuWeightMB g (p\<lparr>fp_nCpuMoe := n\<rparr>) \<le> gpuWeightMB g (p\<lparr>fp_nCpuMoe := m\<rparr>)"
proof -
  note e = expertOffload_mono [OF assms(1,2,4,5)]
  have "expertOffload g (p\<lparr>fp_nCpuMoe := m\<rparr>) sdiv mib \<le> expertOffload g (p\<lparr>fp_nCpuMoe := n\<rparr>) sdiv mib"
    using e by (intro sdiv_mono_pos) (simp_all add: mib_def)
  then show ?thesis using assms(3) by (simp add: gpuWeightMB_def hostWeightMB_def cpuOffloadBytes_def Let_def)
qed

subsection \<open>Models that are not on disk\<close>

record model_descriptor =
  md_paramsB :: rat
  md_archFamily :: string
  md_layerCount :: int
  md_embeddingLength :: int
  md_headCount :: int
  md_headCountKV :: int
  md_headDim :: int
  md_trainedCtx :: int

record dense_preset =
  dp_maxParamsB :: rat
  dp_layers :: int
  dp_hidden :: int
  dp_heads :: int
  dp_kvHeads :: int

definition presetRow :: "rat \<Rightarrow> int \<Rightarrow> int \<Rightarrow> int \<Rightarrow> int \<Rightarrow> dense_preset" where
  "presetRow m l h a k = \<lparr>dp_maxParamsB = m, dp_layers = l, dp_hidden = h, dp_heads = a, dp_kvHeads = k\<rparr>"

definition densePresets :: "dense_preset list" where
  "densePresets =
     [presetRow (fl (7 / 10)) 24 896 14 2,
      presetRow (fl (18 / 10)) 28 1536 12 2,
      presetRow (fl (25 / 10)) 28 2048 16 4,
      presetRow (fl (45 / 10)) 32 2560 20 4,
      presetRow 9 32 4096 32 8,
      presetRow 16 44 5120 40 8,
      presetRow 25 48 6144 48 8,
      presetRow 40 64 5120 40 8,
      presetRow 75 80 8192 64 8,
      presetRow (fl (10 ^ 18)) 96 12288 96 8]"

definition estimatedTrainedCtx :: int where "estimatedTrainedCtx = 32768"

text \<open>The first preset that covers the parameter count, or the last one.\<close>

fun choosePreset :: "rat \<Rightarrow> dense_preset \<Rightarrow> dense_preset list \<Rightarrow> dense_preset" where
  "choosePreset b final [] = final"
| "choosePreset b final (p # ps) = (if b \<le> dp_maxParamsB p then p else choosePreset b final ps)"

definition orElse :: "int \<Rightarrow> int \<Rightarrow> int" where
  "orElse v d = (if v \<le> 0 then d else v)"

definition shapeFromDescriptor :: "model_descriptor \<Rightarrow> int \<Rightarrow> model_shape \<times> bool" where
  "shapeFromDescriptor d weightBytes =
     (let s0 = \<lparr>ms_layerCount = md_layerCount d, ms_embeddingLength = md_embeddingLength d,
                ms_keyLength = md_headDim d, ms_valueLength = md_headDim d, ms_headCount = md_headCount d,
                ms_headCountKV = md_headCountKV d, ms_fullAttentionInterval = 0,
                ms_weightBytes = weightBytes, ms_trainedCtx = md_trainedCtx d, ms_isMTP = False,
                ms_isMoE = False, ms_expertBytesTotal = 0, ms_expertBytesPerLayer = None\<rparr>;
          guess = (ms_layerCount s0 \<le> 0 \<or> ms_embeddingLength s0 \<le> 0 \<or> ms_headCount s0 \<le> 0);
          pr = choosePreset (md_paramsB d) (last densePresets) densePresets;
          s1 = (if guess
                then s0\<lparr>ms_layerCount := orElse (ms_layerCount s0) (dp_layers pr),
                        ms_embeddingLength := orElse (ms_embeddingLength s0) (dp_hidden pr),
                        ms_headCount := orElse (ms_headCount s0) (dp_heads pr),
                        ms_headCountKV := orElse (ms_headCountKV s0) (dp_kvHeads pr)\<rparr>
                else s0);
          noKV = (ms_headCountKV s1 \<le> 0);
          s2 = (if noKV then s1\<lparr>ms_headCountKV := min 8 (ms_headCount s1)\<rparr> else s1);
          noCtx = (ms_trainedCtx s2 \<le> 0);
          s3 = (if noCtx then s2\<lparr>ms_trainedCtx := estimatedTrainedCtx\<rparr> else s2) in
      (s3, guess \<or> noKV \<or> noCtx))"

definition posPreset :: "dense_preset \<Rightarrow> bool" where
  "posPreset p = (0 < dp_layers p \<and> 0 < dp_hidden p \<and> 0 < dp_heads p \<and> 0 < dp_kvHeads p)"

lemma choosePreset_pos: "posPreset f \<Longrightarrow> list_all posPreset ps \<Longrightarrow> posPreset (choosePreset b f ps)"
  by (induction ps) simp_all

lemma densePresets_pos: "list_all posPreset densePresets"
  by (simp add: densePresets_def presetRow_def posPreset_def)

lemma chosen_pos: "posPreset (choosePreset b (last densePresets) densePresets)"
  using densePresets_pos by (intro choosePreset_pos) (simp add: densePresets_def, assumption)

text \<open>Every descriptor gives a shape the engine can size, and explicit dimensions are kept.\<close>

lemma descriptor_shape:
  "case shapeFromDescriptor d w of
     (s, estimated) \<Rightarrow>
       0 < ms_layerCount s \<and> 0 < ms_embeddingLength s \<and> 0 < ms_headCount s \<and> 0 < ms_headCountKV s \<and>
       0 < ms_trainedCtx s \<and> ms_weightBytes s = w \<and>
       (md_layerCount d > 0 \<longrightarrow> ms_layerCount s = md_layerCount d) \<and>
       (md_embeddingLength d > 0 \<longrightarrow> ms_embeddingLength s = md_embeddingLength d) \<and>
       (md_headCount d > 0 \<longrightarrow> ms_headCount s = md_headCount d) \<and>
       (md_headCountKV d > 0 \<longrightarrow> ms_headCountKV s = md_headCountKV d) \<and>
       (md_trainedCtx d > 0 \<longrightarrow> ms_trainedCtx s = md_trainedCtx d) \<and>
       (\<not> estimated \<longleftrightarrow> md_layerCount d > 0 \<and> md_embeddingLength d > 0 \<and> md_headCount d > 0 \<and>
          md_headCountKV d > 0 \<and> md_trainedCtx d > 0)"
  using chosen_pos [of "md_paramsB d"]
  by (simp add: shapeFromDescriptor_def Let_def orElse_def posPreset_def estimatedTrainedCtx_def)

subsection \<open>When a command fits\<close>

lemma budgetMB_withDefaults [simp]: "budgetMB (withDefaults p) w = budgetMB p w"
  by (simp only: budgetMB_def withDefaults_simps)

lemma sized_fits:
  assumes "0 < fp_ctx p"
  shows "fitsLevel (fr_fitLevel (sizedResult g p k)) \<longleftrightarrow>
    (let w = gpuWeightMB g p; r = vramRequired (w + (fp_draftMB p + fp_projectorMB p)) k (fp_ctx p) in
     r \<le> fp_vramTotal p \<and> float64 r \<le> usableMB g (budgetMB p w) \<and>
     \<not> (hostWeightMB g p > 0 \<and> fp_hostBudget p > 0 \<and> hostWeightMB g p > fp_hostBudget p))"
  using assms
  by (simp add: sizedResult_def Let_def baseResult_def fitsLevel_pipeline vramVerdict_fits hardCtxOf_def)

lemma analyze_fits:
  assumes "0 < fp_ctx p" and "0 < fp_vramTotal p"
  shows "fitsLevel (fr_fitLevel (analyzeShape g p)) \<longleftrightarrow>
    0 < kvOf g p \<and> 0 < modelMBOf g \<and>
    (let w = gpuWeightMB g p; r = vramRequired (w + (fp_draftMB p + fp_projectorMB p)) (kvOf g p) (fp_ctx p) in
     r \<le> fp_vramTotal p \<and> float64 r \<le> usableMB g (budgetMB p w) \<and>
     \<not> (hostWeightMB g p > 0 \<and> fp_hostBudget p > 0 \<and> hostWeightMB g p > fp_hostBudget p))"
proof (cases "0 < kvOf g p \<and> 0 < modelMBOf g")
  case True
  then have "analyzeShape g p = sizedResult g (withDefaults p) (kvOf g p)"
    using assms(2) by (simp add: analyzeShape_def kvOf_def Let_def)
  then show ?thesis using True assms(1) by (simp add: sized_fits)
next
  case False
  then have "fr_fitLevel (analyzeShape g p) = NoFit"
    by (auto simp: analyzeShape_def kvOf_def Let_def baseResult_def)
  then show ?thesis using False by (auto simp: fitsLevel_def)
qed

lemma vramRequired_mono:
  assumes "0 \<le> v" and "v \<le> w" and "w \<le> 2 ^ 44"
  shows "vramRequired v k c \<le> vramRequired w k c"
proof -
  have "0 \<le> fmul (float64 v) computeOverheadFrac" using assms
    by (simp add: fmul_def fl_nonneg float64_nonneg computeOverheadFrac_val)
  moreover have "fmul (float64 v) computeOverheadFrac \<le> fmul (float64 w) computeOverheadFrac" using assms
    by (simp add: fmul_def fl_mono float64_mono computeOverheadFrac_val)
  moreover have "fmul (float64 w) computeOverheadFrac < 2 ^ 63"
  proof -
    have w: "float64 w = of_int w" using assms by (intro float64_int) simp
    have "of_int w * computeOverheadFrac \<le> of_int w" "0 \<le> of_int w * computeOverheadFrac"
      using assms by (simp_all add: computeOverheadFrac_val)
    then have "fmul (float64 w) computeOverheadFrac \<le> fl (of_int w)"
      unfolding fmul_def w by (intro fl_mono)
    also have "\<dots> = of_int w" using w by (simp add: float64_def)
    also have "\<dots> \<le> of_int (2 ^ 44)" using assms(3) by (simp only: of_int_le_iff)
    finally show ?thesis by simp
  qed
  ultimately have "goInt (fmul (float64 v) computeOverheadFrac) \<le> goInt (fmul (float64 w) computeOverheadFrac)"
    by (rule goInt_mono)
  then show ?thesis using assms(2) by (simp add: vramRequired_def)
qed

text \<open>Moving the experts of more layers to the host never makes the card's share stop fitting.\<close>

lemma more_experts_still_fit:
  assumes ok: "expertsOk g" "ms_weightBytes g < 2 ^ 63" and ctx: "0 < fp_ctx p" and v: "0 < fp_vramTotal p"
    and p: "fp_vramFree p = 0" "\<not> fp_cpuMoeAll p" "fp_nGpuLayers p = None" "fp_hostBudget p = 0"
      "fp_draftMB p = 0" "fp_projectorMB p = 0"
    and mn: "0 < m" "m \<le> n"
    and fits: "fitsLevel (fr_fitLevel (analyzeShape g (p\<lparr>fp_nCpuMoe := m\<rparr>)))"
  shows "fitsLevel (fr_fitLevel (analyzeShape g (p\<lparr>fp_nCpuMoe := n\<rparr>)))"
proof -
  have kv: "kvOf g (p\<lparr>fp_nCpuMoe := k\<rparr>) = kvOf g p" for k by (simp add: kvOf_def withDefaults_def)
  let ?w = "\<lambda>k. gpuWeightMB g (p\<lparr>fp_nCpuMoe := k\<rparr>)"
  let ?r = "\<lambda>k. vramRequired (?w k) (kvOf g p) (fp_ctx p)"
  have e: "fitsLevel (fr_fitLevel (analyzeShape g (p\<lparr>fp_nCpuMoe := k\<rparr>))) \<longleftrightarrow>
      0 < kvOf g p \<and> 0 < modelMBOf g \<and> ?r k \<le> fp_vramTotal p \<and>
      float64 (?r k) \<le> usableMB g (fp_vramTotal p)" for k
    using ctx v p by (simp add: analyze_fits Let_def kv budgetMB_def)
  from fits have f: "0 < kvOf g p" "0 < modelMBOf g" "?r m \<le> fp_vramTotal p"
    "float64 (?r m) \<le> usableMB g (fp_vramTotal p)" by (simp_all only: e)
  have off: "0 \<le> cpuOffloadBytes g (p\<lparr>fp_nCpuMoe := m\<rparr>)"
    using expertOffload_mono(1) [OF ok(1) p(2) mn] p(3) by (simp add: cpuOffloadBytes_def Let_def)
  have "?w m \<le> 2 ^ 44" using gpuWeightMB_upper [OF ok(2) f(2) off] by simp
  with gpuWeightMB_antimono [OF ok(1) p(2,3) mn] gpuWeightMB_nonneg
  have le: "?r n \<le> ?r m" by (intro vramRequired_mono)
  then have "float64 (?r n) \<le> float64 (?r m)" by (rule float64_mono)
  with f le show ?thesis unfolding e by simp
qed

subsection \<open>A model of 8 GB\<close>

definition demoShape :: "bool \<Rightarrow> model_shape" where
  "demoShape moe = \<lparr>ms_layerCount = 4, ms_embeddingLength = 1024, ms_keyLength = 64, ms_valueLength = 64,
     ms_headCount = 16, ms_headCountKV = 4, ms_fullAttentionInterval = 0, ms_weightBytes = 8 * 2 ^ 30,
     ms_trainedCtx = 8192, ms_isMTP = False, ms_isMoE = moe, ms_expertBytesTotal = 4 * 2 ^ 30,
     ms_expertBytesPerLayer = None\<rparr>"

lemma demo_layer:
  "goInt (fmul (fdiv (fadd (fmul (float64 (i64 256)) 16) (fmul (float64 (i64 256)) 16)) 8) (float64 4)) = 4096"
  by code_simp

lemma demo_kvBytes: "kvBytesPerShape (demoShape True) 16 16 = 4096"
  using demo_layer by (simp add: kvBytesPerShape_def headDims_def attnLayers_def demoShape_def del: i64_id)

definition demoParams :: fit_params where
  "demoParams = noParams\<lparr>fp_ctx := 4096, fp_vramTotal := 12288\<rparr>"

lemma demo_ctxWithin: "0 < ctxWithin (fmul (float64 12288) vramSafetyFrac) 8192 4096"
  by code_simp

theorem recommended_context_fits_witness:
  "fr_vramRequiredMB (analyzeShape (demoShape True) (demoParams\<lparr>fp_ctx := fr_maxFitCtx (analyzeShape (demoShape True) demoParams)\<rparr>)) \<le> 12288"
proof -
  have k: "kvOf (demoShape True) demoParams = 4096"
    by (simp add: kvOf_def withDefaults_def demoParams_def noParams_def demo_kvBytes)
  have m: "modelMBOf (demoShape True) = 8192" by (simp add: modelMBOf_def demoShape_def mib_def sdiv_nonneg)
  have off: "cpuOffloadBytes (demoShape True) demoParams = 0"
    by (simp add: cpuOffloadBytes_def expertOffload_def demoParams_def noParams_def)
  have w: "gpuWeightMB (demoShape True) demoParams = 8192"
    by (simp add: gpuWeightMB_def hostWeightMB_def off m mib_def)
  have "fr_maxFitCtx (analyzeShape (demoShape True) demoParams) =
      cappedCtx (demoShape True) (ctxWithin (fmul (float64 12288) vramSafetyFrac) 8192 4096)"
    using sized_reports(1) [of demoParams "demoShape True"] k m w
    by (simp add: demoParams_def noParams_def budgetMB_def usableMB_def demoShape_def)
  then have "0 < fr_maxFitCtx (analyzeShape (demoShape True) demoParams)"
    using demo_ctxWithin by (simp add: cappedCtx_def demoShape_def)
  moreover have "realistic (demoShape True) demoParams"
    using k by (simp add: realistic_def demoParams_def noParams_def demoShape_def)
  ultimately show ?thesis
    using recommended_context_fits [of "demoShape True" demoParams] off by (simp add: demoParams_def noParams_def)
qed

end
