(* ===== verification/Placement.thy ===== *)
theory Placement
  imports Fit Go_Text
begin

text \<open>
  Automatic placement: the policy block of \<open>internal/config/placement.go\<close> and the planner of
  \<open>internal/placement/placement.go\<close>.  A plan says whether a model runs on the card, split between
  card and host, on the host alone, or not at all, and which flags realise it.  The lemmas show that
  the search for \<open>--n-cpu-moe\<close> finds the least number of layers that fits, and that an accepted plan
  stays within the card and the host memory after both reserves.
\<close>

named_theorems plan_defs "unfolding rules of the planner"

subsection \<open>The policy\<close>

record placement_config =
  plc_mode :: string
  plc_hostReserveGiB :: int
  plc_gpuReserveGiB :: int
  plc_minimumContext :: int
  plc_allowKvQuantization :: bool
  plc_maxRetries :: int

definition effectiveMode :: "placement_config \<Rightarrow> string" where
  "effectiveMode p = (if plc_mode p = [] then ''auto'' else plc_mode p)"

datatype config_error = UnknownMode string | NegativeReserve

definition validatePlacement :: "placement_config \<Rightarrow> config_error option" where
  "validatePlacement p =
     (if plc_mode p \<notin> {[], ''auto'', ''gpu'', ''hybrid'', ''cpu''} then Some (UnknownMode (plc_mode p))
      else if plc_hostReserveGiB p < 0 \<or> plc_gpuReserveGiB p < 0 \<or> plc_minimumContext p < 0
      then Some NegativeReserve else None)"

definition gib :: int where "gib = 1024"

definition hostReserveMB :: "placement_config \<Rightarrow> int \<Rightarrow> int" where
  "hostReserveMB p totalMB =
     (if plc_hostReserveGiB p > 0 then i64 (plc_hostReserveGiB p * gib) else max (12 * gib) (totalMB sdiv 10))"

definition gpuReserveMB :: "placement_config \<Rightarrow> int \<Rightarrow> int" where
  "gpuReserveMB p totalMB =
     (if plc_gpuReserveGiB p > 0 then i64 (plc_gpuReserveGiB p * gib) else max (2 * gib) (totalMB sdiv 20))"

definition minCtx :: "placement_config \<Rightarrow> int" where
  "minCtx p = (if plc_minimumContext p > 0 then plc_minimumContext p else 8192)"

definition retryBudget :: "placement_config \<Rightarrow> int" where
  "retryBudget p = (if plc_maxRetries p < 0 then 0 else if plc_maxRetries p = 0 then 3 else plc_maxRetries p)"

subsection \<open>Plans\<close>

record flag_op =
  fo_name :: string
  fo_value :: string
  fo_boolean :: bool
  fo_remove :: bool

definition valueOp :: "string \<Rightarrow> string \<Rightarrow> flag_op" where
  "valueOp n v = \<lparr>fo_name = n, fo_value = v, fo_boolean = False, fo_remove = False\<rparr>"

definition boolOp :: "string \<Rightarrow> flag_op" where
  "boolOp n = \<lparr>fo_name = n, fo_value = [], fo_boolean = True, fo_remove = False\<rparr>"

definition removeOp :: "string \<Rightarrow> flag_op" where
  "removeOp n = \<lparr>fo_name = n, fo_value = [], fo_boolean = False, fo_remove = True\<rparr>"

datatype plan_mode = ModeGPU | ModeHybrid | ModeCPU | ModeRefuse | ModeCustom | ModeUnknown

datatype perf_class = NoClass | NativeGPU | FastHybrid | CPUBoundHybrid | CPUOnly

datatype place_reason =
    NoReason
  | PinsPlacement
  | ModeIsGpu
  | WeightsUnknown
  | VramUnknown
  | BelowGpuReserve
  | FitsFully
  | FitUnsized fit_reason
  | HostUnknown
  | DenseSpill int int
  | CpuOnlyFits
  | ExceedsEverywhere int int int
  | ExpertsMoved int int int int
  | RetryGpu place_reason int
  | RetryBatch int int
  | RetryContext int int int
  | RetryFullMoe
  | KnownGood

record plan_estimate =
  es_gpuMB :: int
  es_hostMB :: int
  es_kvMB :: int

record plan =
  pl_mode :: plan_mode
  pl_flagOps :: "flag_op list"
  pl_nCpuMoe :: int
  pl_estimate :: plan_estimate
  pl_perfClass :: perf_class
  pl_reason :: place_reason
  pl_confident :: bool

definition noEstimate :: plan_estimate where
  "noEstimate = \<lparr>es_gpuMB = 0, es_hostMB = 0, es_kvMB = 0\<rparr>"

text \<open>\<open>Plan{Mode: m, PerfClass: c, Reason: r}\<close>: the other fields have their zero values.\<close>

definition bare :: "plan_mode \<Rightarrow> perf_class \<Rightarrow> place_reason \<Rightarrow> plan" where
  "bare m c r = \<lparr>pl_mode = m, pl_flagOps = [], pl_nCpuMoe = 0, pl_estimate = noEstimate,
     pl_perfClass = c, pl_reason = r, pl_confident = False\<rparr>"

definition planApplies :: "plan \<Rightarrow> bool" where
  "planApplies p = (length (pl_flagOps p) > 0)"

record plan_inputs =
  in_shape :: model_shape
  in_ctx :: int
  in_slots :: int
  in_kBits :: rat
  in_vBits :: rat
  in_vramBudget :: int
  in_hostAvailable :: int
  in_hostTotal :: int
  in_pinned :: bool
  in_policy :: placement_config

definition fitsResult :: "fit_result \<Rightarrow> bool" where
  "fitsResult r = (case fr_fitLevel r of Perfect \<Rightarrow> True | Good \<Rightarrow> True | Tight \<Rightarrow> True | _ \<Rightarrow> False)"

definition kvMB :: "fit_result \<Rightarrow> int" where
  "kvMB r = fr_kvMBAtMaxSafeCtx r"

definition fastHybridMaxHostFrac :: rat where "fastHybridMaxHostFrac = fl (35 / 100)"

definition hybridPerfClass :: "int \<Rightarrow> int \<Rightarrow> perf_class" where
  "hybridPerfClass hostMB modelMB =
     (if modelMB \<le> 0 \<or> fdiv (float64 hostMB) (float64 modelMB) \<le> fastHybridMaxHostFrac
      then FastHybrid else CPUBoundHybrid)"

definition fitTargetOps :: "int \<Rightarrow> int \<Rightarrow> flag_op list" where
  "fitTargetOps reserve ctx = [valueOp ''--fit-target'' (itoa reserve), valueOp ''--fit-ctx'' (itoa ctx)]"

definition loadDeadlineSeconds :: "int \<Rightarrow> plan_mode \<Rightarrow> int" where
  "loadDeadlineSeconds weightBytes m =
     (if weightBytes \<le> 0 then 0
      else let gb = fdiv (float64 weightBytes) (2 ^ 30);
               secs = fadd 120 (fmul gb 12);
               secs1 = (if m = ModeHybrid \<or> m = ModeCPU then fmul secs (3 / 2) else secs) in
        goInt (if secs1 > 3600 then 3600 else secs1))"

subsection \<open>The planner\<close>

definition vramBudgetOf :: "plan_inputs \<Rightarrow> int" where
  "vramBudgetOf i = in_vramBudget i - gpuReserveMB (in_policy i) (in_vramBudget i)"

definition hostBudgetOf :: "plan_inputs \<Rightarrow> int" where
  "hostBudgetOf i =
     (if in_hostAvailable i > 0 \<and> in_hostTotal i > 0
      then max 0 (in_hostAvailable i - hostReserveMB (in_policy i) (in_hostTotal i)) else 0)"

text \<open>The closure \<open>analyze\<close> of \<open>Compute\<close>, with the experts of \<open>n\<close> layers on the host.\<close>

definition analyzeWith :: "plan_inputs \<Rightarrow> int \<Rightarrow> bool \<Rightarrow> fit_result" where
  "analyzeWith i n checkHost =
     analyzeShape (in_shape i)
       (noParams\<lparr>fp_nCpuMoe := n, fp_kBits := in_kBits i, fp_vBits := in_vBits i, fp_ctx := in_ctx i,
          fp_slots := in_slots i, fp_vramTotal := vramBudgetOf i,
          fp_hostBudget := (if checkHost then hostBudgetOf i else 0), fp_unproven := True\<rparr>)"

definition planCPUOnly :: "plan_inputs \<Rightarrow> int \<Rightarrow> plan option" where
  "planCPUOnly i hostBudget =
     (if hostBudget \<le> 0 then None
      else let probe = analyzeShape (in_shape i)
                 (noParams\<lparr>fp_kBits := in_kBits i, fp_vBits := in_vBits i, fp_ctx := in_ctx i, fp_vramTotal := 1\<rparr>);
               ctx = (if in_ctx i \<le> 0 then ms_trainedCtx (in_shape i) else in_ctx i);
               weightsMB = ms_weightBytes (in_shape i) sdiv mib;
               kvTotalMB = i64 (fr_kvBytesPerToken probe * ctx) sdiv mib;
               requiredMB = weightsMB + kvTotalMB + weightsMB sdiv 12 in
        if requiredMB > hostBudget then None
        else Some \<lparr>pl_mode = ModeCPU, pl_flagOps = [valueOp ''--n-gpu-layers'' ''0''], pl_nCpuMoe = 0,
                   pl_estimate = \<lparr>es_gpuMB = 0, es_hostMB = weightsMB, es_kvMB = kvTotalMB\<rparr>,
                   pl_perfClass = CPUOnly, pl_reason = CpuOnlyFits, pl_confident = True\<rparr>)"

text \<open>The binary search of \<open>planMoE\<close>: \<open>found\<close> is -1 until a count fits.\<close>

function searchMoe :: "(int \<Rightarrow> bool) \<Rightarrow> int \<Rightarrow> int \<Rightarrow> int \<Rightarrow> int" where
  "searchMoe ok lo hi found =
     (if lo \<le> hi
      then let mid = (lo + hi) sdiv 2 in
        if ok mid then searchMoe ok lo (mid - 1) mid else searchMoe ok (mid + 1) hi found
      else found)"
  by pat_completeness auto

lemma mid_between:
  fixes lo hi :: int
  assumes "lo \<le> hi"
  shows "lo \<le> (lo + hi) sdiv 2" and "(lo + hi) sdiv 2 \<le> hi"
proof -
  have "(lo + hi) sdiv 2 = (if 0 \<le> lo + hi then (lo + hi) div 2 else - (- (lo + hi) div 2))"
    by (cases "lo + hi = 0") (auto simp: signed_divide_int_def)
  then show "lo \<le> (lo + hi) sdiv 2" and "(lo + hi) sdiv 2 \<le> hi"
    using assms by (auto split: if_splits)
qed

termination searchMoe
  by (relation "measure (\<lambda>(ok, lo, hi, found). nat (hi - lo + 1))") (auto dest: mid_between)

declare searchMoe.simps [simp del]

text \<open>On a threshold predicate the search returns the least index that satisfies it.\<close>

definition leastIn :: "(int \<Rightarrow> bool) \<Rightarrow> int \<Rightarrow> int \<Rightarrow> int \<Rightarrow> bool" where
  "leastIn ok a b r =
     ((r = -1 \<and> (\<forall>m. a \<le> m \<and> m \<le> b \<longrightarrow> \<not> ok m)) \<or>
      (a \<le> r \<and> r \<le> b \<and> ok r \<and> (\<forall>m. a \<le> m \<and> m < r \<longrightarrow> \<not> ok m)))"

definition searchInv :: "(int \<Rightarrow> bool) \<Rightarrow> int \<Rightarrow> int \<Rightarrow> int \<Rightarrow> int \<Rightarrow> int \<Rightarrow> bool" where
  "searchInv ok a b lo hi found =
     (a \<le> lo \<and> hi \<le> b \<and> lo \<le> hi + 1 \<and> (\<forall>m. a \<le> m \<and> m < lo \<longrightarrow> \<not> ok m) \<and>
      (found = -1 \<and> hi = b \<or> ok found \<and> a \<le> found \<and> found = hi + 1 \<and> found \<le> b))"

lemma searchInv_end: "searchInv ok a b lo hi found \<Longrightarrow> \<not> lo \<le> hi \<Longrightarrow> leastIn ok a b found"
  by (auto simp: searchInv_def leastIn_def)

lemma searchInv_hit:
  "searchInv ok a b lo hi found \<Longrightarrow> lo \<le> mid \<Longrightarrow> mid \<le> hi \<Longrightarrow> ok mid \<Longrightarrow> searchInv ok a b lo (mid - 1) mid"
  by (simp add: searchInv_def)

lemma searchInv_miss:
  assumes "searchInv ok a b lo hi found" and "lo \<le> mid" and "mid \<le> hi" and no: "\<not> ok mid"
    and mono: "\<And>m n. a \<le> m \<Longrightarrow> m \<le> n \<Longrightarrow> n \<le> b \<Longrightarrow> ok m \<Longrightarrow> ok n"
  shows "searchInv ok a b (mid + 1) hi found"
proof -
  have "mid \<le> b" using assms(1,3) by (simp add: searchInv_def)
  then have "\<not> ok m" if "a \<le> m" "m < mid + 1" for m using mono [of m mid] no that by linarith
  then show ?thesis using assms(1,2,3) by (simp add: searchInv_def)
qed

lemma searchMoe_least:
  assumes mono: "\<And>m n. a \<le> m \<Longrightarrow> m \<le> n \<Longrightarrow> n \<le> b \<Longrightarrow> ok m \<Longrightarrow> ok n"
    and "searchInv ok a b lo hi found"
  shows "leastIn ok a b (searchMoe ok lo hi found)"
  using assms(2)
proof (induction "nat (hi - lo + 1)" arbitrary: lo hi found rule: less_induct)
  case less
  show ?case
  proof (cases "lo \<le> hi")
    case False
    then show ?thesis using searchInv_end [OF less.prems] by (subst searchMoe.simps) simp
  next
    case True
    define mid where "mid = (lo + hi) sdiv 2"
    have mid: "lo \<le> mid" "mid \<le> hi" using mid_between [OF True] by (simp_all add: mid_def)
    have e: "searchMoe ok lo hi found =
        (if ok mid then searchMoe ok lo (mid - 1) mid else searchMoe ok (mid + 1) hi found)"
      using True by (subst searchMoe.simps) (simp only: mid_def Let_def if_True)
    have "leastIn ok a b (searchMoe ok lo (mid - 1) mid)" if "ok mid"
      by (rule less.hyps [OF _ searchInv_hit [OF less.prems mid that]]) (use mid in linarith)
    moreover have "leastIn ok a b (searchMoe ok (mid + 1) hi found)" if "\<not> ok mid"
      by (rule less.hyps [OF _ searchInv_miss [OF less.prems mid that mono]]) (use mid in linarith)+
    ultimately show ?thesis unfolding e by simp
  qed
qed

definition planMoE :: "plan_inputs \<Rightarrow> int \<Rightarrow> (int \<Rightarrow> bool \<Rightarrow> fit_result) \<Rightarrow> plan option" where
  "planMoE i hostBudget analyze =
     (let layers = ms_layerCount (in_shape i);
          found = searchMoe (\<lambda>n. fitsResult (analyze n False)) 1 layers (-1) in
      if found < 0 then None
      else let res = analyze found True in
        if fr_hostResidentMB res > hostBudget then None
        else Some \<lparr>pl_mode = ModeHybrid, pl_flagOps = [valueOp ''--n-cpu-moe'' (itoa found)], pl_nCpuMoe = found,
                   pl_estimate = \<lparr>es_gpuMB = fr_vramRequiredMB res, es_hostMB = fr_hostResidentMB res, es_kvMB = kvMB res\<rparr>,
                   pl_perfClass = hybridPerfClass (fr_hostResidentMB res) (fr_modelMB res),
                   pl_reason = ExpertsMoved found layers (fr_hostResidentMB res) (fr_vramRequiredMB res),
                   pl_confident = True\<rparr>)"

definition orPlan :: "plan option \<Rightarrow> plan \<Rightarrow> plan" where
  "orPlan p d = (case p of Some q \<Rightarrow> q | None \<Rightarrow> d)"

text \<open>Hybrid dense: the layer split is the engine's, only the spill is checked.\<close>

definition planDense :: "plan_inputs \<Rightarrow> int \<Rightarrow> fit_result \<Rightarrow> plan option" where
  "planDense i hostBudget full =
     (let weightsMB = ms_weightBytes (in_shape i) sdiv mib;
          spillMB = weightsMB - vramBudgetOf i;
          gpuReserve = gpuReserveMB (in_policy i) (in_vramBudget i) in
      if spillMB \<le> hostBudget
      then Some \<lparr>pl_mode = ModeHybrid, pl_flagOps = fitTargetOps gpuReserve (minCtx (in_policy i)), pl_nCpuMoe = 0,
                 pl_estimate = \<lparr>es_gpuMB = vramBudgetOf i, es_hostMB = max 0 spillMB, es_kvMB = kvMB full\<rparr>,
                 pl_perfClass = hybridPerfClass spillMB weightsMB,
                 pl_reason = DenseSpill (max 0 spillMB) gpuReserve, pl_confident = True\<rparr>
      else None)"

definition planHybrid :: "plan_inputs \<Rightarrow> int \<Rightarrow> fit_result \<Rightarrow> plan option" where
  "planHybrid i hostBudget full =
     (let g = in_shape i in
      if ms_isMoE g \<and> ms_expertBytesTotal g > 0 \<and> ms_layerCount g > 0 then planMoE i hostBudget (analyzeWith i)
      else if \<not> ms_isMoE g then planDense i hostBudget full
      else None)"

definition compute :: "plan_inputs \<Rightarrow> plan" where
  "compute i =
     (if in_pinned i then bare ModeCustom NativeGPU PinsPlacement
      else if effectiveMode (in_policy i) = ''gpu'' then bare ModeGPU NativeGPU ModeIsGpu
      else if ms_weightBytes (in_shape i) \<le> 0 then bare ModeUnknown NoClass WeightsUnknown
      else if in_vramBudget i \<le> 0 then bare ModeUnknown NoClass VramUnknown
      else let vramBudget = vramBudgetOf i; hostBudget = hostBudgetOf i in
        if vramBudget \<le> 0
        then orPlan (planCPUOnly i hostBudget)
               ((bare ModeRefuse NoClass BelowGpuReserve)\<lparr>pl_confident := (hostBudget > 0)\<rparr>)
        else let full = analyzeWith i 0 True in
          if fitsResult full
          then (bare ModeGPU NativeGPU FitsFully)
                 \<lparr>pl_estimate := \<lparr>es_gpuMB = fr_vramRequiredMB full, es_hostMB = 0, es_kvMB = kvMB full\<rparr>,
                  pl_confident := True\<rparr>
          else if fr_fitLevel full = UnknownFit then bare ModeUnknown NoClass (FitUnsized (fr_reason full))
          else if hostBudget \<le> 0 then bare ModeUnknown NoClass HostUnknown
          else orPlan (planHybrid i hostBudget full)
                 (orPlan (planCPUOnly i hostBudget)
                   ((bare ModeRefuse NoClass
                      (ExceedsEverywhere (ms_weightBytes (in_shape i) sdiv mib) vramBudget hostBudget))
                      \<lparr>pl_confident := True\<rparr>)))"

subsection \<open>The search for the expert split\<close>

lemma fitsResult_level: "fitsResult r \<longleftrightarrow> fitsLevel (fr_fitLevel r)"
  by (cases "fr_fitLevel r") (simp_all add: fitsResult_def fitsLevel_def)

definition moeInputs :: "plan_inputs \<Rightarrow> bool" where
  "moeInputs i = (expertsOk (in_shape i) \<and> ms_weightBytes (in_shape i) < 2 ^ 63 \<and> 0 < in_ctx i \<and> 0 < vramBudgetOf i)"

definition paramsOf :: "plan_inputs \<Rightarrow> bool \<Rightarrow> fit_params" where
  "paramsOf i checkHost =
     noParams\<lparr>fp_kBits := in_kBits i, fp_vBits := in_vBits i, fp_ctx := in_ctx i, fp_slots := in_slots i,
       fp_vramTotal := vramBudgetOf i, fp_hostBudget := (if checkHost then hostBudgetOf i else 0), fp_unproven := True\<rparr>"

lemma analyzeWith_params: "analyzeWith i n b = analyzeShape (in_shape i) ((paramsOf i b)\<lparr>fp_nCpuMoe := n\<rparr>)"
  by (simp add: analyzeWith_def paramsOf_def noParams_def)

lemma paramsOf_simps [simp]:
  "fp_ctx (paramsOf i b) = in_ctx i" "fp_vramTotal (paramsOf i b) = vramBudgetOf i" "fp_vramFree (paramsOf i b) = 0"
  "fp_cpuMoeAll (paramsOf i b) = False" "fp_nGpuLayers (paramsOf i b) = None" "fp_draftMB (paramsOf i b) = 0"
  "fp_projectorMB (paramsOf i b) = 0" "fp_hostBudget (paramsOf i False) = 0"
  "fp_hostBudget (paramsOf i True) = hostBudgetOf i"
  by (simp_all add: paramsOf_def noParams_def)

lemma gpu_share_monotone:
  assumes "moeInputs i" and "1 \<le> m" and "m \<le> n" and "fitsResult (analyzeWith i m False)"
  shows "fitsResult (analyzeWith i n False)"
  using assms more_experts_still_fit [of "in_shape i" "paramsOf i False" m n]
  by (simp add: fitsResult_level analyzeWith_params moeInputs_def)

lemma searchMoe_found:
  assumes "moeInputs i"
  shows "leastIn (\<lambda>n. fitsResult (analyzeWith i n False)) 1 (ms_layerCount (in_shape i))
           (searchMoe (\<lambda>n. fitsResult (analyzeWith i n False)) 1 (ms_layerCount (in_shape i)) (-1))"
proof (rule searchMoe_least)
  show "searchInv (\<lambda>n. fitsResult (analyzeWith i n False)) 1 (ms_layerCount (in_shape i)) 1 (ms_layerCount (in_shape i)) (-1)"
    using assms by (auto simp: searchInv_def moeInputs_def expertsOk_def)
qed (use gpu_share_monotone [OF assms] in blast)

text \<open>The host's share of a split, as \<open>AnalyzeShape\<close> reports it.\<close>

definition hostShare :: "plan_inputs \<Rightarrow> int \<Rightarrow> int" where
  "hostShare i n = fr_hostResidentMB (analyzeWith i n True)"

lemma hostShare_eq: "hostShare i n = hostWeightMB (in_shape i) ((paramsOf i b)\<lparr>fp_nCpuMoe := n\<rparr>)"
proof -
  have "hostWeightMB (in_shape i) ((paramsOf i c)\<lparr>fp_nCpuMoe := n\<rparr>) =
        hostWeightMB (in_shape i) ((paramsOf i b)\<lparr>fp_nCpuMoe := n\<rparr>)" for c
    by (simp add: hostWeightMB_def cpuOffloadBytes_def expertOffload_def)
  then show ?thesis
    by (simp add: hostShare_def analyzeWith_params analyzeShape_def sizedResult_def baseResult_def Let_def)
qed

lemma hostShare_mono:
  assumes "moeInputs i" and "1 \<le> m" and "m \<le> n"
  shows "hostShare i m \<le> hostShare i n"
  using gpuWeightMB_antimono [of "in_shape i" "paramsOf i True" m n] assms
  by (simp add: hostShare_eq [of i _ True] moeInputs_def gpuWeightMB_def)

lemma planMoE_Some:
  assumes "planMoE i hb (analyzeWith i) = Some p" and "moeInputs i"
  shows "leastIn (\<lambda>n. fitsResult (analyzeWith i n False)) 1 (ms_layerCount (in_shape i)) (pl_nCpuMoe p)"
    and "1 \<le> pl_nCpuMoe p" and "hostShare i (pl_nCpuMoe p) \<le> hb"
    and "pl_estimate p = \<lparr>es_gpuMB = fr_vramRequiredMB (analyzeWith i (pl_nCpuMoe p) True),
           es_hostMB = hostShare i (pl_nCpuMoe p), es_kvMB = kvMB (analyzeWith i (pl_nCpuMoe p) True)\<rparr>"
    and "pl_flagOps p = [valueOp ''--n-cpu-moe'' (itoa (pl_nCpuMoe p))]" and "pl_mode p = ModeHybrid"
    and "pl_confident p"
proof -
  let ?f = "searchMoe (\<lambda>n. fitsResult (analyzeWith i n False)) 1 (ms_layerCount (in_shape i)) (-1)"
  have f: "\<not> ?f < 0" "\<not> fr_hostResidentMB (analyzeWith i ?f True) > hb" "pl_nCpuMoe p = ?f"
    using assms(1) by (auto simp: planMoE_def Let_def split: if_splits)
  show l: "leastIn (\<lambda>n. fitsResult (analyzeWith i n False)) 1 (ms_layerCount (in_shape i)) (pl_nCpuMoe p)"
    unfolding f(3) by (rule searchMoe_found [OF assms(2)])
  show "1 \<le> pl_nCpuMoe p" using l f by (auto simp: leastIn_def)
  show "hostShare i (pl_nCpuMoe p) \<le> hb" using f by (simp add: hostShare_def)
  show "pl_estimate p = \<lparr>es_gpuMB = fr_vramRequiredMB (analyzeWith i (pl_nCpuMoe p) True),
           es_hostMB = hostShare i (pl_nCpuMoe p), es_kvMB = kvMB (analyzeWith i (pl_nCpuMoe p) True)\<rparr>"
    "pl_flagOps p = [valueOp ''--n-cpu-moe'' (itoa (pl_nCpuMoe p))]" "pl_mode p = ModeHybrid" "pl_confident p"
    using assms(1) f(1,2) by (auto simp: planMoE_def Let_def hostShare_def)
qed

lemma planMoE_None:
  assumes "planMoE i hb (analyzeWith i) = None" and m: "moeInputs i"
    and n: "1 \<le> n" "n \<le> ms_layerCount (in_shape i)" and fits: "fitsResult (analyzeWith i n False)"
  shows "hostShare i n > hb"
proof -
  let ?ok = "\<lambda>n. fitsResult (analyzeWith i n False)"
  let ?f = "searchMoe ?ok 1 (ms_layerCount (in_shape i)) (-1)"
  have l: "leastIn ?ok 1 (ms_layerCount (in_shape i)) ?f" by (rule searchMoe_found [OF m])
  have f: "1 \<le> ?f" "?f \<le> n" using l n fits by (force simp: leastIn_def)+
  then have "hostShare i ?f > hb" using assms(1) by (auto simp: planMoE_def Let_def hostShare_def split: if_splits)
  with hostShare_mono [OF m f] show ?thesis by linarith
qed

lemma analyzeShape_known: "0 < fp_vramTotal p \<Longrightarrow> fr_fitLevel (analyzeShape g p) \<noteq> UnknownFit"
  by (simp add: analyzeShape_def Let_def baseResult_def sizedResult_def rescueConfigured_def hostVerdict_def vramVerdict_def)

lemma analyzeWith_known: "0 < vramBudgetOf i \<Longrightarrow> fr_fitLevel (analyzeWith i n b) \<noteq> UnknownFit"
  unfolding analyzeWith_params by (rule analyzeShape_known) simp

subsection \<open>Plans stay within the budgets\<close>

lemma sized_required: "fitsLevel (fr_fitLevel (sizedResult g p k)) \<Longrightarrow> fr_vramRequiredMB (sizedResult g p k) \<le> fp_vramTotal p"
  by (simp add: sizedResult_def Let_def baseResult_def fitsLevel_pipeline vramVerdict_fits)

lemma analyze_required:
  assumes "fitsLevel (fr_fitLevel (analyzeShape g p))"
  shows "fr_vramRequiredMB (analyzeShape g p) \<le> fp_vramTotal p"
  using assms sized_required [of g "withDefaults p"]
  by (auto simp: analyzeShape_def Let_def baseResult_def fitsLevel_def split: if_splits)

lemma required_check: "fr_vramRequiredMB (analyzeWith i n True) = fr_vramRequiredMB (analyzeWith i n False)"
proof -
  have d: "withDefaults ((paramsOf i True)\<lparr>fp_nCpuMoe := n\<rparr>) =
      (withDefaults ((paramsOf i False)\<lparr>fp_nCpuMoe := n\<rparr>))\<lparr>fp_hostBudget := hostBudgetOf i\<rparr>"
    by (simp add: paramsOf_def withDefaults_def)
  have "gpuWeightMB g (p\<lparr>fp_hostBudget := h\<rparr>) = gpuWeightMB g p" for g p h
    by (simp add: gpuWeightMB_def hostWeightMB_def cpuOffloadBytes_def expertOffload_def)
  then show ?thesis unfolding analyzeWith_params analyzeShape_def d
    by (simp add: Let_def baseResult_def sizedResult_def budgetMB_def hardCtxOf_def)
qed

lemma searchMoe_sound: "found = -1 \<or> ok found \<Longrightarrow> searchMoe ok lo hi found = -1 \<or> ok (searchMoe ok lo hi found)"
proof (induction "nat (hi - lo + 1)" arbitrary: lo hi found rule: less_induct)
  case less
  show ?case
  proof (cases "lo \<le> hi")
    case False
    then show ?thesis using less.prems by (simp add: searchMoe.simps [of ok lo hi found])
  next
    case True
    define mid where "mid = (lo + hi) sdiv 2"
    have mid: "lo \<le> mid" "mid \<le> hi" using mid_between [OF True] by (simp_all add: mid_def)
    have e: "searchMoe ok lo hi found =
        (if ok mid then searchMoe ok lo (mid - 1) mid else searchMoe ok (mid + 1) hi found)"
      using True by (subst searchMoe.simps) (simp only: mid_def Let_def if_True)
    show ?thesis using less.hyps [of "mid - 1" lo mid] less.hyps [of hi "mid + 1" found] less.prems mid
      unfolding e by simp
  qed
qed

lemma planMoE_budgets:
  assumes "planMoE i hb (analyzeWith i) = Some p"
  shows "es_gpuMB (pl_estimate p) \<le> vramBudgetOf i" and "es_hostMB (pl_estimate p) \<le> hb"
proof -
  let ?ok = "\<lambda>n. fitsResult (analyzeWith i n False)"
  let ?f = "searchMoe ?ok 1 (ms_layerCount (in_shape i)) (-1)"
  have f: "\<not> ?f < 0" "fr_hostResidentMB (analyzeWith i ?f True) \<le> hb"
    "pl_estimate p = \<lparr>es_gpuMB = fr_vramRequiredMB (analyzeWith i ?f True),
       es_hostMB = fr_hostResidentMB (analyzeWith i ?f True), es_kvMB = kvMB (analyzeWith i ?f True)\<rparr>"
    using assms by (auto simp: planMoE_def Let_def split: if_splits)
  have "?ok ?f" using searchMoe_sound [of "-1" ?ok] f(1) by force
  then have "fr_vramRequiredMB (analyzeWith i ?f False) \<le> vramBudgetOf i"
    using analyze_required by (simp add: fitsResult_level analyzeWith_params) force
  then show "es_gpuMB (pl_estimate p) \<le> vramBudgetOf i" and "es_hostMB (pl_estimate p) \<le> hb"
    using f by (simp_all add: required_check)
qed

lemma planDense_budgets:
  assumes "planDense i hb full = Some p" and "0 < hb"
  shows "es_gpuMB (pl_estimate p) \<le> vramBudgetOf i" and "es_hostMB (pl_estimate p) \<le> hb"
  using assms by (auto simp: planDense_def Let_def split: if_splits)

definition kvTotalBytes :: "plan_inputs \<Rightarrow> int" where
  "kvTotalBytes i =
     kvOf (in_shape i) (paramsOf i False) * (if in_ctx i \<le> 0 then ms_trainedCtx (in_shape i) else in_ctx i)"

lemma kvOf_bits: "fp_kBits p = fp_kBits q \<Longrightarrow> fp_vBits p = fp_vBits q \<Longrightarrow> kvOf g p = kvOf g q"
  by (simp add: kvOf_def withDefaults_def)

lemma kvBytes_reported: "fr_kvBytesPerToken (analyzeShape g p) = kvOf g p"
  by (simp add: analyzeShape_def Let_def baseResult_def sizedResult_def kvOf_def)

definition cpuOnlyMB :: "plan_inputs \<Rightarrow> int" where
  "cpuOnlyMB i =
     (let w = ms_weightBytes (in_shape i) sdiv mib in w + i64 (kvTotalBytes i) sdiv mib + w sdiv 12)"

lemma planCPUOnly_eq:
  "planCPUOnly i hb =
     (if hb \<le> 0 \<or> cpuOnlyMB i > hb then None
      else Some \<lparr>pl_mode = ModeCPU, pl_flagOps = [valueOp ''--n-gpu-layers'' ''0''], pl_nCpuMoe = 0,
                 pl_estimate = \<lparr>es_gpuMB = 0, es_hostMB = ms_weightBytes (in_shape i) sdiv mib,
                   es_kvMB = i64 (kvTotalBytes i) sdiv mib\<rparr>,
                 pl_perfClass = CPUOnly, pl_reason = CpuOnlyFits, pl_confident = True\<rparr>)"
proof -
  have "kvOf (in_shape i) (noParams\<lparr>fp_kBits := in_kBits i, fp_vBits := in_vBits i, fp_ctx := in_ctx i, fp_vramTotal := 1\<rparr>)
      = kvOf (in_shape i) (paramsOf i False)"
    by (rule kvOf_bits) (simp_all add: paramsOf_def)
  then show ?thesis by (simp add: planCPUOnly_def cpuOnlyMB_def kvBytes_reported Let_def kvTotalBytes_def)
qed

lemma planCPUOnly_budgets:
  assumes "planCPUOnly i hb = Some p" and "0 \<le> kvTotalBytes i" and "kvTotalBytes i \<le> 2 ^ 62"
    and "0 < ms_weightBytes (in_shape i)"
  shows "es_gpuMB (pl_estimate p) = 0" and "es_hostMB (pl_estimate p) \<le> hb"
proof -
  let ?w = "ms_weightBytes (in_shape i) sdiv mib"
  have w: "0 \<le> ?w" using assms(4) by (simp add: sdiv_nonneg mib_def pos_imp_zdiv_nonneg_iff)
  have "0 \<le> i64 (kvTotalBytes i) sdiv mib" using assms(2,3)
    by (simp add: i64_small sdiv_nonneg mib_def pos_imp_zdiv_nonneg_iff)
  moreover have "0 \<le> ?w sdiv 12" using w by (simp add: sdiv_nonneg)
  ultimately show "es_gpuMB (pl_estimate p) = 0" and "es_hostMB (pl_estimate p) \<le> hb"
    using assms(1) by (auto simp: planCPUOnly_eq cpuOnlyMB_def Let_def split: if_splits)
qed

subsection \<open>What the planner decides\<close>

text \<open>Where a confident plan comes from.\<close>

lemma compute_confident:
  assumes "pl_confident (compute i)"
  shows "0 < ms_weightBytes (in_shape i)"
    and "(0 < vramBudgetOf i \<and> fitsResult (analyzeWith i 0 True) \<and>
          compute i = (bare ModeGPU NativeGPU FitsFully)
            \<lparr>pl_estimate := \<lparr>es_gpuMB = fr_vramRequiredMB (analyzeWith i 0 True), es_hostMB = 0,
               es_kvMB = kvMB (analyzeWith i 0 True)\<rparr>, pl_confident := True\<rparr>) \<or>
         (0 < vramBudgetOf i \<and> 0 < hostBudgetOf i \<and> \<not> fitsResult (analyzeWith i 0 True) \<and>
          planHybrid i (hostBudgetOf i) (analyzeWith i 0 True) = Some (compute i)) \<or>
         (0 < hostBudgetOf i \<and> planCPUOnly i (hostBudgetOf i) = Some (compute i)) \<or>
         (pl_mode (compute i) = ModeRefuse \<and> 0 < hostBudgetOf i \<and> planCPUOnly i (hostBudgetOf i) = None \<and>
          (0 < vramBudgetOf i \<longrightarrow>
            \<not> fitsResult (analyzeWith i 0 True) \<and> planHybrid i (hostBudgetOf i) (analyzeWith i 0 True) = None))"
proof -
  note c = compute_def [of i] Let_def bare_def orPlan_def
  show "0 < ms_weightBytes (in_shape i)" using assms by (auto simp: c split: if_splits)
  have h: "planCPUOnly i b \<noteq> Some q" if "b \<le> 0" for b q using that by (simp add: planCPUOnly_eq)
  show "(0 < vramBudgetOf i \<and> fitsResult (analyzeWith i 0 True) \<and>
          compute i = (bare ModeGPU NativeGPU FitsFully)
            \<lparr>pl_estimate := \<lparr>es_gpuMB = fr_vramRequiredMB (analyzeWith i 0 True), es_hostMB = 0,
               es_kvMB = kvMB (analyzeWith i 0 True)\<rparr>, pl_confident := True\<rparr>) \<or>
         (0 < vramBudgetOf i \<and> 0 < hostBudgetOf i \<and> \<not> fitsResult (analyzeWith i 0 True) \<and>
          planHybrid i (hostBudgetOf i) (analyzeWith i 0 True) = Some (compute i)) \<or>
         (0 < hostBudgetOf i \<and> planCPUOnly i (hostBudgetOf i) = Some (compute i)) \<or>
         (pl_mode (compute i) = ModeRefuse \<and> 0 < hostBudgetOf i \<and> planCPUOnly i (hostBudgetOf i) = None \<and>
          (0 < vramBudgetOf i \<longrightarrow>
            \<not> fitsResult (analyzeWith i 0 True) \<and> planHybrid i (hostBudgetOf i) (analyzeWith i 0 True) = None))"
  proof (cases "vramBudgetOf i \<le> 0")
    case True
    show ?thesis
    proof (cases "planCPUOnly i (hostBudgetOf i)")
      case None
      then show ?thesis using assms True by (auto simp: c split: if_splits)
    next
      case (Some q)
      then have "0 < hostBudgetOf i" using h [of "hostBudgetOf i" q] by linarith
      with Some show ?thesis using assms True by (auto simp: c split: if_splits)
    qed
  next
    case False
    show ?thesis
    proof (cases "fitsResult (analyzeWith i 0 True)")
      case True
      with False show ?thesis using assms by (auto simp: c split: if_splits)
    next
      case n: False
      show ?thesis
      proof (cases "planHybrid i (hostBudgetOf i) (analyzeWith i 0 True)")
        case None
        then show ?thesis using assms False n
          by (cases "planCPUOnly i (hostBudgetOf i)") (auto simp: c split: if_splits)
      next
        case (Some q)
        then show ?thesis using assms False n by (auto simp: c split: if_splits)
      qed
    qed
  qed
qed

lemma full_fit_required:
  "fitsResult (analyzeWith i 0 True) \<Longrightarrow> fr_vramRequiredMB (analyzeWith i 0 True) \<le> vramBudgetOf i"
  using analyze_required [of "in_shape i" "(paramsOf i True)\<lparr>fp_nCpuMoe := 0\<rparr>"]
  by (simp add: fitsResult_level analyzeWith_params)

lemma planHybrid_budgets:
  assumes "planHybrid i hb full = Some p" and "0 < hb"
  shows "es_gpuMB (pl_estimate p) \<le> vramBudgetOf i" and "es_hostMB (pl_estimate p) \<le> hb"
  using assms planMoE_budgets [of i hb p] planDense_budgets [of i hb full p]
  by (auto simp: planHybrid_def Let_def split: if_splits)

text \<open>
  C31. A confident plan that loads the model keeps both reserves: what it puts on the card leaves
  the GPU reserve free, and what it puts in host memory leaves the host reserve available.
\<close>

theorem plan_keeps_reserves:
  assumes "pl_confident (compute i)" and "pl_mode (compute i) \<noteq> ModeRefuse"
    and "0 \<le> kvTotalBytes i" and "kvTotalBytes i \<le> 2 ^ 62"
  shows "(es_gpuMB (pl_estimate (compute i)) = 0 \<or>
          es_gpuMB (pl_estimate (compute i)) + gpuReserveMB (in_policy i) (in_vramBudget i) \<le> in_vramBudget i) \<and>
         (es_hostMB (pl_estimate (compute i)) \<le> 0 \<or>
          es_hostMB (pl_estimate (compute i)) + hostReserveMB (in_policy i) (in_hostTotal i) \<le> in_hostAvailable i)"
proof -
  have host: "h + hostReserveMB (in_policy i) (in_hostTotal i) \<le> in_hostAvailable i" if "h \<le> hostBudgetOf i" "0 < h" for h
    using that by (auto simp: hostBudgetOf_def split: if_splits)
  have gpu: "g + gpuReserveMB (in_policy i) (in_vramBudget i) \<le> in_vramBudget i" if "g \<le> vramBudgetOf i" for g
    using that by (simp add: vramBudgetOf_def)
  note w = compute_confident(1) [OF assms(1)]
  consider (full) "fitsResult (analyzeWith i 0 True)" "compute i = (bare ModeGPU NativeGPU FitsFully)
            \<lparr>pl_estimate := \<lparr>es_gpuMB = fr_vramRequiredMB (analyzeWith i 0 True), es_hostMB = 0,
               es_kvMB = kvMB (analyzeWith i 0 True)\<rparr>, pl_confident := True\<rparr>"
    | (hybrid) "0 < hostBudgetOf i" "planHybrid i (hostBudgetOf i) (analyzeWith i 0 True) = Some (compute i)"
    | (cpu) "planCPUOnly i (hostBudgetOf i) = Some (compute i)"
    using compute_confident(2) [OF assms(1)] assms(2) by blast
  then show ?thesis
  proof cases
    case full
    then show ?thesis using gpu [OF full_fit_required] by simp
  next
    case hybrid
    then show ?thesis using gpu host planHybrid_budgets [OF hybrid(2,1)] by force
  next
    case cpu
    then show ?thesis using host planCPUOnly_budgets [OF cpu assms(3,4) w] by force
  qed
qed

lemma moe_split_facts:
  assumes "moeInputs i" and "pl_nCpuMoe (compute i) \<noteq> 0"
  shows "leastIn (\<lambda>n. fitsResult (analyzeWith i n False)) 1 (ms_layerCount (in_shape i)) (pl_nCpuMoe (compute i)) \<and>
         hostShare i (pl_nCpuMoe (compute i)) \<le> hostBudgetOf i \<and>
         1 \<le> pl_nCpuMoe (compute i) \<and> \<not> fitsResult (analyzeWith i 0 True) \<and>
         pl_flagOps (compute i) = [valueOp ''--n-cpu-moe'' (itoa (pl_nCpuMoe (compute i)))]"
proof -
  have no: "pl_nCpuMoe (compute i) = 0" if "\<not> pl_confident (compute i)"
    using that by (auto simp: compute_def bare_def orPlan_def Let_def planHybrid_def planMoE_def planDense_def
        planCPUOnly_eq split: if_splits option.splits)
  then have conf: "pl_confident (compute i)" using assms(2) by blast
  have refuse: "pl_nCpuMoe (compute i) = 0" if "pl_mode (compute i) = ModeRefuse"
    using that by (auto simp: compute_def bare_def orPlan_def Let_def planHybrid_def planMoE_def planDense_def
        planCPUOnly_eq split: if_splits option.splits)
  have cpu: "pl_nCpuMoe q = 0" if "planCPUOnly i b = Some q" for b q
    using that by (auto simp: planCPUOnly_eq split: if_splits)
  have h: "\<not> fitsResult (analyzeWith i 0 True)" "planHybrid i (hostBudgetOf i) (analyzeWith i 0 True) = Some (compute i)"
    using compute_confident(2) [OF conf] assms(2) cpu refuse by (auto simp: bare_def)
  have dense: "pl_nCpuMoe q = 0" if "planDense i b f = Some q" for b f q
    using that by (auto simp: planDense_def Let_def split: if_splits)
  have "planMoE i (hostBudgetOf i) (analyzeWith i) = Some (compute i)"
    using h(2) assms(2) dense by (auto simp: planHybrid_def Let_def split: if_splits)
  from planMoE_Some [OF this assms(1)] h(1) show ?thesis by simp
qed

lemma moe_split_least:
  assumes "moeInputs i" and "pl_nCpuMoe (compute i) \<noteq> 0"
  shows "leastIn (\<lambda>n. fitsResult (analyzeWith i n False)) 1 (ms_layerCount (in_shape i)) (pl_nCpuMoe (compute i))"
  using moe_split_facts [OF assms] by simp

lemma moe_split_positive: "moeInputs i \<Longrightarrow> pl_nCpuMoe (compute i) \<noteq> 0 \<Longrightarrow> 1 \<le> pl_nCpuMoe (compute i)"
  using moe_split_facts by blast

text \<open>
  When the planner moves experts to the host, it moves those of the fewest layers that let the
  card's share fit, the host holds them within its budget, and the model did not fit on the card
  alone.
\<close>

theorem moe_split_is_least:
  assumes "moeInputs i" and "pl_nCpuMoe (compute i) \<noteq> 0"
  shows "leastIn (\<lambda>n. fitsResult (analyzeWith i n False)) 1 (ms_layerCount (in_shape i)) (pl_nCpuMoe (compute i)) \<and>
         hostShare i (pl_nCpuMoe (compute i)) \<le> hostBudgetOf i \<and>
         \<not> fitsResult (analyzeWith i 0 True) \<and>
         pl_flagOps (compute i) = [valueOp ''--n-cpu-moe'' (itoa (pl_nCpuMoe (compute i)))]"
  using moe_split_facts [OF assms] by simp

text \<open>
  A confident refusal of a card that is larger than its reserve means that no placement fits:
  not the card alone, not any number of expert layers on the host, not the dense spill, and not the
  host alone.
\<close>

theorem refusal_means_nothing_fits:
  assumes "pl_confident (compute i)" and "pl_mode (compute i) = ModeRefuse" and "moeInputs i"
  shows "\<not> fitsResult (analyzeWith i 0 True) \<and> hostBudgetOf i < cpuOnlyMB i \<and>
         (\<not> ms_isMoE (in_shape i) \<longrightarrow>
            hostBudgetOf i < ms_weightBytes (in_shape i) sdiv mib - vramBudgetOf i) \<and>
         (ms_isMoE (in_shape i) \<and> ms_expertBytesTotal (in_shape i) > 0 \<longrightarrow>
            (\<forall>n. 1 \<le> n \<and> n \<le> ms_layerCount (in_shape i) \<longrightarrow>
               \<not> (fitsResult (analyzeWith i n False) \<and> hostShare i n \<le> hostBudgetOf i)))"
proof -
  have v: "0 < vramBudgetOf i" and l: "0 < ms_layerCount (in_shape i)"
    using assms(3) by (simp_all add: moeInputs_def expertsOk_def)
  have hyb: "pl_mode q = ModeHybrid" if "planHybrid i b f = Some q" for b f q
    using that by (auto simp: planHybrid_def planDense_def planMoE_def Let_def split: if_splits)
  have cpu: "pl_mode q = ModeCPU" if "planCPUOnly i b = Some q" for b q
    using that by (auto simp: planCPUOnly_eq split: if_splits)
  have r: "0 < hostBudgetOf i" "planCPUOnly i (hostBudgetOf i) = None" "\<not> fitsResult (analyzeWith i 0 True)"
    "planHybrid i (hostBudgetOf i) (analyzeWith i 0 True) = None"
    using compute_confident(2) [OF assms(1)] v assms(2) hyb cpu by (auto simp: bare_def)
  have "hostBudgetOf i < cpuOnlyMB i" using r(1,2) by (simp add: planCPUOnly_eq split: if_splits)
  moreover have "hostBudgetOf i < ms_weightBytes (in_shape i) sdiv mib - vramBudgetOf i" if "\<not> ms_isMoE (in_shape i)"
    using r(4) that by (simp add: planHybrid_def planDense_def Let_def split: if_splits)
  moreover have "\<not> (fitsResult (analyzeWith i n False) \<and> hostShare i n \<le> hostBudgetOf i)"
    if "ms_isMoE (in_shape i)" "ms_expertBytesTotal (in_shape i) > 0" "1 \<le> n" "n \<le> ms_layerCount (in_shape i)" for n
  proof -
    have "planMoE i (hostBudgetOf i) (analyzeWith i) = None"
      using r(4) that(1,2) l by (simp add: planHybrid_def Let_def)
    from planMoE_None [OF this assms(3) that(3,4)] show ?thesis by auto
  qed
  ultimately show ?thesis using r(3) by blast
qed

subsection \<open>A host with an 8 GB card\<close>

definition demoInputs :: "int \<Rightarrow> plan_inputs" where
  "demoInputs hostMB = \<lparr>in_shape = demoShape True, in_ctx = 4096, in_slots = 1, in_kBits = 0, in_vBits = 0,
     in_vramBudget = 8192, in_hostAvailable = hostMB, in_hostTotal = 65536, in_pinned = False,
     in_policy = \<lparr>plc_mode = [], plc_hostReserveGiB = 0, plc_gpuReserveGiB = 0, plc_minimumContext = 0,
       plc_allowKvQuantization = False, plc_maxRetries = 0\<rparr>\<rparr>"

lemma demo_overheads:
  "goInt (fmul (float64 8192) computeOverheadFrac) = 409" "goInt (fmul (float64 6144) computeOverheadFrac) = 307"
  "goInt (fmul (float64 5120) computeOverheadFrac) = 256"
  by (code_simp, code_simp, code_simp)

lemma demo_usable: "5392 \<le> usableMB (demoShape True) 6144"
  by code_simp

lemma demo_budgets:
  "vramBudgetOf (demoInputs h) = 6144" "hostBudgetOf (demoInputs h) = (if h > 0 then max 0 (h - 12288) else 0)"
  by (simp_all add: vramBudgetOf_def hostBudgetOf_def demoInputs_def gpuReserveMB_def hostReserveMB_def gib_def
      sdiv_nonneg)

lemma demo_kvOf: "kvOf (demoShape True) (paramsOf (demoInputs h) b) = 4096"
  by (simp add: kvOf_def withDefaults_def paramsOf_def demoInputs_def noParams_def demo_kvBytes)

lemma demo_kvOf_n: "kvOf (demoShape True) (paramsOf (demoInputs h) b\<lparr>fp_nCpuMoe := n\<rparr>) = 4096"
  using kvOf_bits [of "paramsOf (demoInputs h) b\<lparr>fp_nCpuMoe := n\<rparr>" "paramsOf (demoInputs h) b"] demo_kvOf by simp

lemma demo_weights:
  "hostWeightMB (demoShape True) (paramsOf (demoInputs h) b\<lparr>fp_nCpuMoe := n\<rparr>) = (if 0 < n then 1024 * min n 4 else 0)"
proof -
  have "i64 (4294967296 * min n 4) = 4294967296 * min n 4" if "0 < n" using that by (intro i64_small) auto
  then show ?thesis
    by (cases "n \<le> 4")
      (auto simp: hostWeightMB_def cpuOffloadBytes_def expertOffload_def demoShape_def modelMBOf_def mib_def
        sdiv_nonneg Let_def)
qed

lemma demo_modelMB: "modelMBOf (demoShape True) = 8192"
  by (simp add: modelMBOf_def demoShape_def mib_def sdiv_nonneg)

lemma demo_required:
  "vramRequired 8192 4096 4096 = 8617" "vramRequired 6144 4096 4096 = 6467" "vramRequired 5120 4096 4096 = 5392"
  using demo_overheads by (simp_all add: vramRequired_def i64_small sdiv_nonneg mib_def)

lemma demo_usable_int: "float64 5392 \<le> usableMB (demoShape True) 6144"
  using demo_usable float64_int [of 5392] by simp

lemma demo_fits:
  "fitsResult (analyzeWith (demoInputs h) n b) \<longleftrightarrow>
     (let w = 8192 - (if 0 < n then 1024 * min n 4 else 0); r = vramRequired w 4096 4096 in
      r \<le> 6144 \<and> float64 r \<le> usableMB (demoShape True) 6144 \<and>
      \<not> (0 < n \<and> b \<and> hostBudgetOf (demoInputs h) > 0 \<and> 1024 * min n 4 > hostBudgetOf (demoInputs h)))"
proof -
  let ?p = "(paramsOf (demoInputs h) b)\<lparr>fp_nCpuMoe := n\<rparr>"
  have s: "in_shape (demoInputs h) = demoShape True" "in_ctx (demoInputs h) = 4096" by (simp_all add: demoInputs_def)
  have c: "0 < fp_ctx ?p" "0 < fp_vramTotal ?p" by (simp_all add: s demo_budgets)
  have hb: "fp_hostBudget ?p = (if b then hostBudgetOf (demoInputs h) else 0)" by (cases b) simp_all
  show ?thesis
    unfolding fitsResult_level analyzeWith_params s analyze_fits [OF c] demo_kvOf_n demo_modelMB hb
    by (auto simp: s gpuWeightMB_def demo_weights demo_modelMB demo_budgets budgetMB_def Let_def)
qed

lemma demo_fits_at:
  "\<not> fitsResult (analyzeWith (demoInputs h) 0 b)" "\<not> fitsResult (analyzeWith (demoInputs h) 2 b)"
  "fitsResult (analyzeWith (demoInputs h) 3 False)"
  using demo_usable_int by (simp_all add: demo_fits Let_def demo_required)

lemma demo_search: "searchMoe (\<lambda>n. fitsResult (analyzeWith (demoInputs h) n False)) 1 4 (-1) = 3"
proof -
  let ?ok = "\<lambda>n. fitsResult (analyzeWith (demoInputs h) n False)"
  have "searchMoe ?ok 1 4 (-1) = searchMoe ?ok 3 4 (-1)"
    using demo_fits_at by (subst searchMoe.simps) (simp add: sdiv_nonneg)
  also have "\<dots> = searchMoe ?ok 3 2 3"
    using demo_fits_at by (subst searchMoe.simps) (simp add: sdiv_nonneg)
  finally show ?thesis by (subst (asm) searchMoe.simps [of _ 3 2]) simp
qed

lemma demo_hostShare: "0 < n \<Longrightarrow> hostShare (demoInputs h) n = 1024 * min n 4"
  using demo_weights [where h = h and b = True and n = n] by (simp add: hostShare_eq [of _ _ True] demoInputs_def)

lemma demo_planHybrid:
  "planHybrid (demoInputs h) b full = (if 3072 > b then None else planMoE (demoInputs h) b (analyzeWith (demoInputs h)))"
  "3072 \<le> b \<Longrightarrow> \<exists>p. planMoE (demoInputs h) b (analyzeWith (demoInputs h)) = Some p \<and> pl_nCpuMoe p = 3 \<and>
     pl_mode p = ModeHybrid \<and> pl_confident p"
proof -
  have s: "ms_layerCount (in_shape (demoInputs h)) = 4" "ms_isMoE (in_shape (demoInputs h))"
    "ms_expertBytesTotal (in_shape (demoInputs h)) > 0" by (simp_all add: demoInputs_def demoShape_def)
  have r: "fr_hostResidentMB (analyzeWith (demoInputs h) 3 True) = 3072"
    using demo_hostShare [of 3 h] by (simp add: hostShare_def)
  show "planHybrid (demoInputs h) b full = (if 3072 > b then None else planMoE (demoInputs h) b (analyzeWith (demoInputs h)))"
    using s r by (simp add: planHybrid_def planMoE_def demo_search Let_def)
  show "3072 \<le> b \<Longrightarrow> \<exists>p. planMoE (demoInputs h) b (analyzeWith (demoInputs h)) = Some p \<and> pl_nCpuMoe p = 3 \<and>
     pl_mode p = ModeHybrid \<and> pl_confident p"
    using s r by (simp add: planMoE_def demo_search Let_def)
qed

lemma demo_level: "fr_fitLevel (analyzeWith (demoInputs h) 0 True) \<noteq> UnknownFit"
  by (rule analyzeWith_known) (simp add: demo_budgets)

lemma demo_compute:
  "compute (demoInputs h) =
     (if hostBudgetOf (demoInputs h) \<le> 0 then bare ModeUnknown NoClass HostUnknown
      else orPlan (planHybrid (demoInputs h) (hostBudgetOf (demoInputs h)) (analyzeWith (demoInputs h) 0 True))
        (orPlan (planCPUOnly (demoInputs h) (hostBudgetOf (demoInputs h)))
          ((bare ModeRefuse NoClass (ExceedsEverywhere 8192 6144 (hostBudgetOf (demoInputs h))))\<lparr>pl_confident := True\<rparr>)))"
proof -
  have i: "\<not> in_pinned (demoInputs h)" "effectiveMode (in_policy (demoInputs h)) = ''auto''"
    "ms_weightBytes (in_shape (demoInputs h)) = 8589934592" "in_vramBudget (demoInputs h) = 8192"
    by (simp_all add: demoInputs_def demoShape_def effectiveMode_def)
  show ?thesis using i demo_fits_at demo_level [of h]
    by (simp add: compute_def demo_budgets(1) Let_def mib_def sdiv_nonneg)
qed

lemma demo_hybrid:
  "pl_nCpuMoe (compute (demoInputs 32768)) = 3 \<and> pl_mode (compute (demoInputs 32768)) = ModeHybrid \<and>
   pl_confident (compute (demoInputs 32768))"
  using demo_planHybrid(2) [of 20480 32768]
  by (auto simp: demo_compute demo_budgets demo_planHybrid(1) orPlan_def)

lemma demo_kvTotal: "kvTotalBytes (demoInputs h) = 16777216"
  using demo_kvOf [of h False] by (simp add: kvTotalBytes_def demoInputs_def)

lemma demo_refuse:
  "pl_mode (compute (demoInputs 14336)) = ModeRefuse \<and> pl_confident (compute (demoInputs 14336))"
proof -
  have "planCPUOnly (demoInputs 14336) 2048 = None"
    by (simp add: planCPUOnly_eq cpuOnlyMB_def Let_def demo_kvTotal)
      (simp add: demoInputs_def demoShape_def sdiv_nonneg mib_def i64_small)
  then show ?thesis by (simp add: demo_compute demo_budgets demo_planHybrid(1) orPlan_def bare_def)
qed

lemma demo_moeInputs: "moeInputs (demoInputs h)"
  by (simp add: moeInputs_def demo_budgets expertsOk_def) (simp add: demoInputs_def demoShape_def)

theorem plan_keeps_reserves_witness:
  "es_gpuMB (pl_estimate (compute (demoInputs 32768))) = 0 \<or>
   es_gpuMB (pl_estimate (compute (demoInputs 32768))) + gpuReserveMB (in_policy (demoInputs 32768)) 8192 \<le> 8192"
  using plan_keeps_reserves [of "demoInputs 32768"] demo_hybrid demo_kvTotal by (simp add: demoInputs_def)

theorem moe_split_is_least_witness:
  "leastIn (\<lambda>n. fitsResult (analyzeWith (demoInputs 32768) n False)) 1 4 3 \<and>
   pl_flagOps (compute (demoInputs 32768)) = [valueOp ''--n-cpu-moe'' ''3'']"
proof -
  have "itoa 3 = ''3''" by code_simp
  moreover have "ms_layerCount (in_shape (demoInputs 32768)) = 4" by (simp add: demoInputs_def demoShape_def)
  ultimately show ?thesis
    using moe_split_is_least [OF demo_moeInputs, of 32768] demo_hybrid by simp
qed

theorem refusal_means_nothing_fits_witness:
  "hostBudgetOf (demoInputs 14336) < cpuOnlyMB (demoInputs 14336)"
  using refusal_means_nothing_fits [of "demoInputs 14336"] demo_refuse demo_moeInputs by simp

subsection \<open>Where the planner and its comments part\<close>

definition withMode :: "string \<Rightarrow> plan_inputs \<Rightarrow> plan_inputs" where
  "withMode m i = i\<lparr>in_policy := (in_policy i)\<lparr>plc_mode := m\<rparr>\<rparr>"

lemma withMode_in [simp]:
  "in_shape (withMode m i) = in_shape i" "in_ctx (withMode m i) = in_ctx i" "in_slots (withMode m i) = in_slots i"
  "in_kBits (withMode m i) = in_kBits i" "in_vBits (withMode m i) = in_vBits i"
  "in_vramBudget (withMode m i) = in_vramBudget i" "in_hostAvailable (withMode m i) = in_hostAvailable i"
  "in_hostTotal (withMode m i) = in_hostTotal i" "in_pinned (withMode m i) = in_pinned i"
  "gpuReserveMB (in_policy (withMode m i)) b = gpuReserveMB (in_policy i) b"
  "hostReserveMB (in_policy (withMode m i)) b = hostReserveMB (in_policy i) b"
  "minCtx (in_policy (withMode m i)) = minCtx (in_policy i)" "plc_mode (in_policy (withMode m i)) = m"
  by (simp_all add: withMode_def gpuReserveMB_def hostReserveMB_def minCtx_def)

lemma withMode_parts [simp]:
  "vramBudgetOf (withMode m i) = vramBudgetOf i" "hostBudgetOf (withMode m i) = hostBudgetOf i"
  by (simp_all add: vramBudgetOf_def hostBudgetOf_def)

lemma withMode_analyze [simp]: "analyzeWith (withMode m i) = analyzeWith i"
  unfolding fun_eq_iff analyzeWith_def withMode_in withMode_parts by (intro allI refl)

lemma withMode_moe [simp]: "planMoE (withMode m i) = planMoE i"
  unfolding fun_eq_iff planMoE_def withMode_in withMode_parts by (intro allI refl)

lemma withMode_dense [simp]: "planDense (withMode m i) = planDense i"
  unfolding fun_eq_iff planDense_def withMode_in withMode_parts by (intro allI refl)

lemma withMode_cpu [simp]: "planCPUOnly (withMode m i) = planCPUOnly i"
  unfolding fun_eq_iff planCPUOnly_def withMode_in withMode_parts by (intro allI refl)

lemma withMode_hybrid [simp]: "planHybrid (withMode m i) = planHybrid i"
  unfolding fun_eq_iff planHybrid_def withMode_in withMode_analyze withMode_moe withMode_dense by (intro allI refl)

lemma withMode_any:
  assumes "m \<noteq> []" and "m \<noteq> ''gpu''"
  shows "compute (withMode m i) = compute (withMode ''auto'' i)"
proof -
  have "(effectiveMode (in_policy (withMode m i)) = ''gpu'') = (effectiveMode (in_policy (withMode ''auto'' i)) = ''gpu'')"
    using assms by (simp add: effectiveMode_def)
  then show ?thesis unfolding compute_def withMode_in withMode_parts withMode_analyze withMode_cpu withMode_hybrid by simp
qed

text \<open>
   The mode \<open>cpu\<close> of the policy, documented to plan every model on the host, plans exactly as
  \<open>auto\<close> does; so does \<open>hybrid\<close>.
\<close>

theorem cpu_mode_plans_as_auto:
  "compute (withMode ''cpu'' i) = compute (withMode ''auto'' i) \<and>
   compute (withMode ''hybrid'' i) = compute (withMode ''auto'' i)"
  using withMode_any [of "''cpu''" i] withMode_any [of "''hybrid''" i] by simp

text \<open>
   A host whose available memory does not exceed the reserve has a known budget of nothing; the
  planner reports that budget as unknown and leaves a model that exceeds the card as configured
  instead of refusing it.
\<close>

theorem exhausted_host_is_unknown:
  assumes "0 < in_hostAvailable i" and "0 < in_hostTotal i"
    and "in_hostAvailable i \<le> hostReserveMB (in_policy i) (in_hostTotal i)"
    and "\<not> in_pinned i" and "effectiveMode (in_policy i) \<noteq> ''gpu''" and "0 < ms_weightBytes (in_shape i)"
    and "0 < vramBudgetOf i" and "0 < in_vramBudget i"
    and "\<not> fitsResult (analyzeWith i 0 True)" and "fr_fitLevel (analyzeWith i 0 True) \<noteq> UnknownFit"
  shows "compute i = bare ModeUnknown NoClass HostUnknown"
  using assms by (simp add: compute_def hostBudgetOf_def Let_def)

theorem exhausted_host_is_unknown_witness:
  "compute (demoInputs 8000) = bare ModeUnknown NoClass HostUnknown"
  using demo_fits_at demo_level demo_budgets
  by (intro exhausted_host_is_unknown)
    (simp_all add: demoInputs_def hostReserveMB_def gib_def effectiveMode_def demoShape_def)

end
