(* ===== verification/Ladder.thy ===== *)
theory Ladder
  imports Placement Process
begin

text \<open>
  Adaptive placement retry: the ladder of progressively safer plans
  (\<open>internal/placement/ladder.go\<close>) and the escalation step of the load path
  (\<open>escalateIfMemoryFailure\<close> in \<open>internal/server/placementretry.go\<close>) with its per-model history.
  What the router and the command rewriting answer is the environment of a step.
\<close>

named_theorems ladder_defs "unfolding rules of the retry ladder"

subsection \<open>The ladder\<close>

datatype rung = WidenReserve | ShrinkBatch | ShrinkContext | FullCpuMoe

definition ladderOrder :: "rung list" where
  "ladderOrder = [WidenReserve, ShrinkBatch, ShrinkContext, FullCpuMoe]"

definition retryBatchSize :: int where "retryBatchSize = 512"
definition retryUbatchSize :: int where "retryUbatchSize = 128"
definition gpuReserveGrowthMB :: int where "gpuReserveGrowthMB = 2048"

definition stripFlag :: "flag_op list \<Rightarrow> string \<Rightarrow> flag_op list" where
  "stripFlag ops n = filter (\<lambda>op. fo_name op \<noteq> n) ops"

definition widened :: "plan_inputs \<Rightarrow> int \<Rightarrow> plan_inputs" where
  "widened i step = i\<lparr>in_vramBudget := in_vramBudget i - gpuReserveGrowthMB * (step + 1)\<rparr>"

definition nextCtx :: "plan_inputs \<Rightarrow> int \<times> int" where
  "nextCtx i =
     (let current = (if in_ctx i \<le> 0 then ms_trainedCtx (in_shape i) else in_ctx i);
          half = current sdiv 2 in
      (current, if half < minCtx (in_policy i) then minCtx (in_policy i) else half))"

fun applyRung :: "rung \<Rightarrow> plan \<Rightarrow> plan_inputs \<Rightarrow> int \<Rightarrow> plan option" where
  "applyRung WidenReserve prev i step =
     (if in_vramBudget (widened i step) \<le> 0 then None
      else let p = compute (widened i step) in
        if pl_mode p \<noteq> ModeHybrid \<and> pl_mode p \<noteq> ModeCPU then None
        else Some (p\<lparr>pl_reason := RetryGpu (pl_reason p) (gpuReserveGrowthMB * (step + 1))\<rparr>))"
| "applyRung ShrinkBatch prev i step =
     Some (prev\<lparr>pl_flagOps := pl_flagOps prev @ [valueOp ''--batch-size'' (itoa retryBatchSize),
                                                valueOp ''--ubatch-size'' (itoa retryUbatchSize)],
                pl_reason := RetryBatch retryBatchSize retryUbatchSize\<rparr>)"
| "applyRung ShrinkContext prev i step =
     (case nextCtx i of
        (current, nxt) \<Rightarrow>
          if nxt \<ge> current then None
          else Some (prev\<lparr>pl_flagOps := pl_flagOps prev @ [valueOp ''--ctx-size'' (itoa nxt)],
                          pl_reason := RetryContext current nxt (minCtx (in_policy i))\<rparr>))"
| "applyRung FullCpuMoe prev i step =
     (if \<not> ms_isMoE (in_shape i) \<or> ms_expertBytesTotal (in_shape i) \<le> 0 then None
      else Some (prev\<lparr>pl_nCpuMoe := ms_layerCount (in_shape i),
                      pl_flagOps := stripFlag (pl_flagOps prev) ''--n-cpu-moe'' @ [boolOp ''--cpu-moe''],
                      pl_mode := ModeHybrid, pl_perfClass := CPUBoundHybrid, pl_reason := RetryFullMoe\<rparr>))"

fun tryRungs :: "plan \<Rightarrow> plan_inputs \<Rightarrow> bool \<Rightarrow> rung list \<Rightarrow> rung list \<Rightarrow> (plan \<times> rung) option" where
  "tryRungs prev i hostSide tried [] = None"
| "tryRungs prev i hostSide tried (r # rs) =
     (if r \<in> set tried then tryRungs prev i hostSide tried rs
      else if hostSide \<and> (r = WidenReserve \<or> r = FullCpuMoe) then tryRungs prev i hostSide tried rs
      else case applyRung r prev i (int (length tried)) of
             Some p \<Rightarrow> Some (p, r)
           | None \<Rightarrow> tryRungs prev i hostSide tried rs)"

definition nextSaferPlan :: "plan \<Rightarrow> plan_inputs \<Rightarrow> failure_class \<Rightarrow> rung list \<Rightarrow> (plan \<times> rung) option" where
  "nextSaferPlan prev i cls tried = tryRungs prev i (cls = ClassHostOOM) tried ladderOrder"

lemma tryRungs_Some:
  "tryRungs prev i hostSide tried rs = Some (p, r) \<Longrightarrow>
     r \<in> set rs \<and> r \<notin> set tried \<and> \<not> (hostSide \<and> (r = WidenReserve \<or> r = FullCpuMoe)) \<and>
     applyRung r prev i (int (length tried)) = Some p"
  by (induction rs) (auto split: if_splits option.splits)

lemma tryRungs_None:
  "tryRungs prev i hostSide tried rs = None \<longleftrightarrow>
     (\<forall>r \<in> set rs. r \<notin> set tried \<longrightarrow> \<not> (hostSide \<and> (r = WidenReserve \<or> r = FullCpuMoe)) \<longrightarrow>
        applyRung r prev i (int (length tried)) = None)"
  by (induction rs) (auto split: option.splits)

lemma all_rungs: "r \<in> set ladderOrder"
  by (cases r) (simp_all add: ladderOrder_def)

lemma rungs_bound: "distinct rs \<Longrightarrow> length rs \<le> 4" for rs :: "rung list"
proof -
  assume d: "distinct rs"
  have "set rs \<subseteq> set ladderOrder" using all_rungs by blast
  then have "card (set rs) \<le> card (set ladderOrder)" by (intro card_mono) simp_all
  then show ?thesis using d by (simp add: distinct_card ladderOrder_def)
qed

subsection \<open>Each rung is more conservative\<close>

text \<open>A smaller card: what fits it fits the larger one.\<close>

lemma gpuReserve_mono_net:
  assumes "0 \<le> a" and "a \<le> b" and "plc_gpuReserveGiB p \<le> 0"
  shows "a - gpuReserveMB p a \<le> b - gpuReserveMB p b"
proof -
  have "a div 20 \<le> b div 20" using assms(2) by (rule zdiv_mono1) simp
  moreover have "b div 20 - a div 20 \<le> b - a" using assms(2) by linarith
  ultimately show ?thesis using assms by (auto simp: gpuReserveMB_def gib_def sdiv_nonneg max_def)
qed

lemma gpuReserve_mono:
  assumes "0 \<le> a" and "a \<le> b"
  shows "a - gpuReserveMB p a \<le> b - gpuReserveMB p b"
  using assms gpuReserve_mono_net [of a b p] by (cases "plc_gpuReserveGiB p \<le> 0") (auto simp: gpuReserveMB_def)

lemma usableMB_mono: "0 \<le> a \<Longrightarrow> a \<le> b \<Longrightarrow> usableMB g a \<le> usableMB g b"
  by (simp add: usableMB_def Let_def fmul_def fl_mono float64_mono mult_right_mono vramSafetyFrac_val mtpExtraSafetyFrac_val)

lemma kvOf_widened: "kvOf g (paramsOf (widened i k) b\<lparr>fp_nCpuMoe := n\<rparr>) = kvOf g (paramsOf i b\<lparr>fp_nCpuMoe := n\<rparr>)"
  by (rule kvOf_bits) (simp_all add: paramsOf_def widened_def)

lemma gpuWeight_widened:
  "gpuWeightMB g (paramsOf (widened i k) b\<lparr>fp_nCpuMoe := n\<rparr>) = gpuWeightMB g (paramsOf i b\<lparr>fp_nCpuMoe := n\<rparr>)"
  by (simp add: gpuWeightMB_def hostWeightMB_def cpuOffloadBytes_def expertOffload_def)

lemma widened_simps [simp]:
  "in_shape (widened i k) = in_shape i" "in_ctx (widened i k) = in_ctx i" "in_policy (widened i k) = in_policy i"
  "in_vramBudget (widened i k) = in_vramBudget i - 2048 * (k + 1)"
  by (simp_all add: widened_def gpuReserveGrowthMB_def)

lemma vramBudget_widened:
  assumes "0 \<le> k" and "0 \<le> in_vramBudget (widened i k)"
  shows "vramBudgetOf (widened i k) \<le> vramBudgetOf i"
  unfolding vramBudgetOf_def widened_simps using assms by (intro gpuReserve_mono) simp_all

lemma widened_fits:
  assumes "0 \<le> k" and "0 \<le> in_vramBudget (widened i k)" and "0 < in_ctx i" and "0 < vramBudgetOf (widened i k)"
    and "fitsResult (analyzeWith (widened i k) n False)"
  shows "fitsResult (analyzeWith i n False)"
proof -
  note b = vramBudget_widened [OF assms(1,2)]
  have u: "usableMB (in_shape i) (vramBudgetOf (widened i k)) \<le> usableMB (in_shape i) (vramBudgetOf i)"
    using assms(4) b by (intro usableMB_mono) simp_all
  have c: "0 < fp_ctx (paramsOf (widened i k) False\<lparr>fp_nCpuMoe := n\<rparr>)"
    "0 < fp_vramTotal (paramsOf (widened i k) False\<lparr>fp_nCpuMoe := n\<rparr>)"
    "0 < fp_ctx (paramsOf i False\<lparr>fp_nCpuMoe := n\<rparr>)" "0 < fp_vramTotal (paramsOf i False\<lparr>fp_nCpuMoe := n\<rparr>)"
    using assms(3,4) b by simp_all
  show ?thesis
    using assms(5) u b
    unfolding fitsResult_level analyzeWith_params widened_simps analyze_fits [OF c(1,2)] analyze_fits [OF c(3,4)]
      kvOf_widened gpuWeight_widened
    by (auto simp: budgetMB_def Let_def)
qed

text \<open>
  Widening the GPU reserve never brings experts back to the card: the new split moves at least
  as many layers as any split planned against the full card.
\<close>

theorem widening_moves_more_experts:
  assumes "moeInputs i" and "moeInputs (widened i k)" and "0 \<le> k" and "0 \<le> in_vramBudget (widened i k)"
    and "pl_nCpuMoe (compute i) \<noteq> 0" and "pl_nCpuMoe (compute (widened i k)) \<noteq> 0"
  shows "pl_nCpuMoe (compute i) \<le> pl_nCpuMoe (compute (widened i k))"
proof -
  let ?n = "pl_nCpuMoe (compute (widened i k))"
  have l: "leastIn (\<lambda>n. fitsResult (analyzeWith i n False)) 1 (ms_layerCount (in_shape i)) (pl_nCpuMoe (compute i))"
    using moe_split_least assms(1,5) by blast
  have l': "leastIn (\<lambda>n. fitsResult (analyzeWith (widened i k) n False)) 1 (ms_layerCount (in_shape i)) ?n"
    using moe_split_least [OF assms(2,6)] by simp
  have "0 < in_ctx i" "0 < vramBudgetOf (widened i k)" using assms(1,2) by (simp_all add: moeInputs_def)
  note w = widened_fits [OF assms(3,4) this]
  show ?thesis
  proof (cases "?n = -1")
    case True
    then show ?thesis using l' moe_split_positive [OF assms(2,6)] by simp
  next
    case False
    then have "1 \<le> ?n" "?n \<le> ms_layerCount (in_shape i)" "fitsResult (analyzeWith i ?n False)"
      using l' w by (auto simp: leastIn_def)
    then show ?thesis using l by (force simp: leastIn_def)
  qed
qed

text \<open>The flags a plan of the planner can carry.\<close>

lemma planHybrid_flags:
  assumes "planHybrid i b f = Some q"
  shows "map fo_name (pl_flagOps q) \<in> {[''--n-cpu-moe''], [''--fit-target'', ''--fit-ctx'']}"
  using assms by (auto simp: planHybrid_def planMoE_def planDense_def fitTargetOps_def valueOp_def Let_def split: if_splits)

lemma compute_flags:
  "map fo_name (pl_flagOps (compute i)) \<in> {[], [''--n-gpu-layers''], [''--n-cpu-moe''], [''--fit-target'', ''--fit-ctx'']}"
proof -
  have cpu: "map fo_name (pl_flagOps q) = [''--n-gpu-layers'']" if "planCPUOnly i b = Some q" for b q
    using that by (auto simp: planCPUOnly_eq valueOp_def split: if_splits)
  have "pl_flagOps (compute i) = [] \<or> planHybrid i (hostBudgetOf i) (analyzeWith i 0 True) = Some (compute i) \<or>
      planCPUOnly i (hostBudgetOf i) = Some (compute i)"
    by (cases "planHybrid i (hostBudgetOf i) (analyzeWith i 0 True)"; cases "planCPUOnly i (hostBudgetOf i)")
      (simp_all add: compute_def bare_def orPlan_def Let_def)
  then show ?thesis
  proof (elim disjE)
    assume "planHybrid i (hostBudgetOf i) (analyzeWith i 0 True) = Some (compute i)"
    from planHybrid_flags [OF this] show ?thesis by blast
  next
    assume "planCPUOnly i (hostBudgetOf i) = Some (compute i)"
    from cpu [OF this] show ?thesis by blast
  qed simp
qed

text \<open>
  C34. Every step of the ladder tries a new rung, so at most four steps are taken; after a host OOM
  the plan keeps where the weights are and every flag it had; and a shrunk context is smaller than
  the one it replaces and no smaller than the policy's minimum.
\<close>

theorem next_plan_is_safer:
  assumes "nextSaferPlan prev i cls tried = Some (p, r)" and "distinct tried"
  shows "distinct (tried @ [r]) \<and> length tried < 4 \<and>
         (cls = ClassHostOOM \<longrightarrow>
            pl_mode p = pl_mode prev \<and> pl_nCpuMoe p = pl_nCpuMoe prev \<and> pl_estimate p = pl_estimate prev \<and>
            take (length (pl_flagOps prev)) (pl_flagOps p) = pl_flagOps prev) \<and>
         (r = ShrinkContext \<longrightarrow>
            (case nextCtx i of (current, nxt) \<Rightarrow>
               nxt < current \<and> minCtx (in_policy i) \<le> nxt \<and>
               pl_flagOps p = pl_flagOps prev @ [valueOp ''--ctx-size'' (itoa nxt)]))"
proof -
  have t: "r \<notin> set tried" "\<not> (cls = ClassHostOOM \<and> (r = WidenReserve \<or> r = FullCpuMoe))"
    "applyRung r prev i (int (length tried)) = Some p"
    using tryRungs_Some [OF assms(1) [unfolded nextSaferPlan_def]] by auto
  have d: "distinct (tried @ [r])" using t(1) assms(2) by simp
  have "length tried < 4" using rungs_bound [OF d] by simp
  moreover have "pl_mode p = pl_mode prev \<and> pl_nCpuMoe p = pl_nCpuMoe prev \<and> pl_estimate p = pl_estimate prev \<and>
      take (length (pl_flagOps prev)) (pl_flagOps p) = pl_flagOps prev" if "cls = ClassHostOOM"
    using that t by (cases r) (auto split: prod.splits if_splits)
  moreover have "case nextCtx i of (current, nxt) \<Rightarrow>
      nxt < current \<and> minCtx (in_policy i) \<le> nxt \<and> pl_flagOps p = pl_flagOps prev @ [valueOp ''--ctx-size'' (itoa nxt)]"
    if "r = ShrinkContext"
    using that t(3) by (auto simp: nextCtx_def Let_def split: if_splits)
  ultimately show ?thesis using d by blast
qed

text \<open>
   A GPU failure after a host failure re-plans from scratch: the reserve is widened, and the
  smaller batch that the host failure introduced is dropped again.
\<close>

theorem widening_drops_batch:
  assumes "nextSaferPlan prev i ClassGPUOOM [ShrinkBatch] = Some (p, WidenReserve)"
  shows "''--batch-size'' \<notin> fo_name ` set (pl_flagOps p) \<and> ''--ctx-size'' \<notin> fo_name ` set (pl_flagOps p)"
proof -
  have "applyRung WidenReserve prev i 1 = Some p"
    using tryRungs_Some [OF assms [unfolded nextSaferPlan_def]] by auto
  then have "pl_flagOps p = pl_flagOps (compute (widened i 1))" by (auto simp: Let_def split: if_splits)
  moreover have "fo_name ` set (pl_flagOps (compute (widened i 1))) = set (map fo_name (pl_flagOps (compute (widened i 1))))"
    by simp
  ultimately show ?thesis using compute_flags [of "widened i 1"] by (auto simp del: set_map)
qed

subsection \<open>Escalation on the load path\<close>

record attempt =
  at_rung :: rung
  at_plan :: plan
  at_failure :: string

record retry_state =
  rs_rungs :: "rung list"
  rs_attempts :: "attempt list"
  rs_current :: plan
  rs_exhausted :: bool

text \<open>
  What a load attempt finds: the placement record of the model (its plan, the command as configured
  and the weight bytes), the retained load error, the planner inputs as of now, the rewriting of a
  command and whether the router knows the model.
\<close>

record placement_record =
  pr_plan :: plan
  pr_originalCmd :: string
  pr_weightBytes :: int

record retry_env =
  re_budget :: int
  re_record :: "placement_record option"
  re_lastErr :: "load_error option"
  re_inputs :: plan_inputs
  re_apply :: "string \<Rightarrow> flag_op list \<Rightarrow> string option"
  re_override :: "string \<Rightarrow> int \<Rightarrow> bool"

definition freshRetry :: "plan \<Rightarrow> retry_state" where
  "freshRetry p = \<lparr>rs_rungs = [], rs_attempts = [], rs_current = p, rs_exhausted = False\<rparr>"

definition lastFailure :: "retry_state \<Rightarrow> string option" where
  "lastFailure st = (if rs_attempts st = [] then None else Some (at_failure (last (rs_attempts st))))"

definition installNext :: "retry_env \<Rightarrow> placement_record \<Rightarrow> load_error \<Rightarrow> retry_state \<Rightarrow> retry_state \<times> (string \<times> int) option" where
  "installNext e rec err st =
     (case nextSaferPlan (rs_current st) (re_inputs e) (le_class err) (rs_rungs st) of
        None \<Rightarrow> (st\<lparr>rs_exhausted := True\<rparr>, None)
      | Some (next_plan, r) \<Rightarrow>
          (case re_apply e (pr_originalCmd rec) (pl_flagOps next_plan) of
             None \<Rightarrow> (st, None)
           | Some cmd \<Rightarrow>
               let deadline = loadDeadlineSeconds (pr_weightBytes rec) (pl_mode next_plan) in
               if \<not> re_override e cmd deadline then (st, None)
               else (st\<lparr>rs_rungs := rs_rungs st @ [r],
                        rs_attempts := rs_attempts st @
                          [\<lparr>at_rung = r, at_plan = next_plan, at_failure = le_message err\<rparr>],
                        rs_current := next_plan\<rparr>, Some (cmd, deadline))))"

definition escalate :: "retry_env \<Rightarrow> retry_state option \<Rightarrow> retry_state option \<times> (string \<times> int) option" where
  "escalate e st0 =
     (if re_budget e \<le> 0 then (st0, None)
      else case re_record e of
        None \<Rightarrow> (st0, None)
      | Some rec \<Rightarrow>
          if \<not> planApplies (pr_plan rec) then (st0, None)
          else case re_lastErr e of
            None \<Rightarrow> (st0, None)
          | Some err \<Rightarrow>
              if \<not> isMemory (le_class err) then (st0, None)
              else let st = (case st0 of None \<Rightarrow> freshRetry (pr_plan rec) | Some s \<Rightarrow> s) in
                if rs_exhausted st \<or> int (length (rs_rungs st)) \<ge> re_budget e then (Some st, None)
                else if lastFailure st = Some (le_message err) then (Some st, None)
                else case installNext e rec err st of (st', act) \<Rightarrow> (Some st', act))"

text \<open>A sequence of load attempts of one model, with the overrides it installs.\<close>

fun escalations :: "retry_env list \<Rightarrow> retry_state option \<Rightarrow> retry_state option \<times> (string \<times> int) list" where
  "escalations [] st = (st, [])"
| "escalations (e # es) st =
     (case escalate e st of
        (st1, act) \<Rightarrow>
          (case escalations es st1 of
             (st2, acts) \<Rightarrow> (st2, (case act of Some a \<Rightarrow> a # acts | None \<Rightarrow> acts))))"

fun changing :: "string list \<Rightarrow> bool" where
  "changing [] = True"
| "changing [m] = True"
| "changing (m # n # ms) = (m \<noteq> n \<and> changing (n # ms))"

lemma changing_snoc: "changing (ms @ [m]) \<longleftrightarrow> changing ms \<and> (ms = [] \<or> last ms \<noteq> m)"
  by (induction ms rule: changing.induct) auto

definition retryOk :: "retry_state option \<Rightarrow> bool" where
  "retryOk st =
     (case st of
        None \<Rightarrow> True
      | Some s \<Rightarrow>
          distinct (rs_rungs s) \<and> map at_rung (rs_attempts s) = rs_rungs s \<and>
          changing (map at_failure (rs_attempts s)))"

definition rungCount :: "retry_state option \<Rightarrow> nat" where
  "rungCount st = (case st of None \<Rightarrow> 0 | Some s \<Rightarrow> length (rs_rungs s))"

lemma installNext_ok:
  assumes "installNext e rec err s = (s', a)" and "retryOk (Some s)" and "lastFailure s \<noteq> Some (le_message err)"
  shows "retryOk (Some s')" and "length (rs_rungs s') = length (rs_rungs s) + (case a of Some _ \<Rightarrow> 1 | None \<Rightarrow> 0)"
  using assms tryRungs_Some [of "rs_current s" "re_inputs e" _ "rs_rungs s" ladderOrder]
  by (auto simp: installNext_def nextSaferPlan_def retryOk_def lastFailure_def Let_def changing_snoc last_map
      split: option.splits prod.splits if_splits)

definition startState :: "retry_env \<Rightarrow> retry_state option \<Rightarrow> retry_state" where
  "startState e st =
     (case st of Some s \<Rightarrow> s | None \<Rightarrow> freshRetry (case re_record e of Some r \<Rightarrow> pr_plan r | None \<Rightarrow> bare ModeUnknown NoClass NoReason))"

lemma startState_ok: "retryOk st \<Longrightarrow> retryOk (Some (startState e st)) \<and> length (rs_rungs (startState e st)) = rungCount st"
  by (auto simp: startState_def retryOk_def freshRetry_def rungCount_def split: option.splits)

lemma escalate_cases:
  assumes "escalate e st = (st', act)"
  obtains (same) "st' = st" "act = None"
    | (started) "st' = Some (startState e st)" "act = None"
    | (step) rec err s' where "int (length (rs_rungs (startState e st))) < re_budget e"
        "lastFailure (startState e st) \<noteq> Some (le_message err)"
        "installNext e rec err (startState e st) = (s', act)" "st' = Some s'"
proof (cases "re_budget e \<le> 0 \<or> re_record e = None \<or> re_lastErr e = None \<or>
    \<not> planApplies (pr_plan (the (re_record e))) \<or> \<not> isMemory (le_class (the (re_lastErr e)))")
  case True
  then show ?thesis using assms same by (auto simp: escalate_def split: option.splits if_splits)
next
  case False
  then obtain rec err where r: "re_record e = Some rec" "re_lastErr e = Some err" by auto
  have s: "(case st of None \<Rightarrow> freshRetry (pr_plan rec) | Some s \<Rightarrow> s) = startState e st"
    using r by (cases st) (simp_all add: startState_def)
  show ?thesis
  proof (cases "(rs_exhausted (startState e st) \<or> int (length (rs_rungs (startState e st))) \<ge> re_budget e) \<or>
      lastFailure (startState e st) = Some (le_message err)")
    case True
    then have "st' = Some (startState e st)" "act = None"
      using assms False r by (auto simp: escalate_def s Let_def split: if_splits)
    then show ?thesis by (rule started)
  next
    case no: False
    obtain s' a where i: "installNext e rec err (startState e st) = (s', a)" by (cases "installNext e rec err (startState e st)")
    then have "st' = Some s'" "a = act" using assms False r no by (auto simp: escalate_def s Let_def split: if_splits)
    then show ?thesis using no i by (intro step [of err rec s']) auto
  qed
qed

lemma escalate_ok:
  assumes ok: "retryOk st" and e: "escalate e st = (st', act)"
  shows "retryOk st' \<and> rungCount st' = rungCount st + (case act of Some _ \<Rightarrow> 1 | None \<Rightarrow> 0) \<and>
    (act \<noteq> None \<longrightarrow> int (rungCount st') \<le> re_budget e)"
  using e
proof (cases rule: escalate_cases)
  case same
  then show ?thesis using ok by simp
next
  case started
  then show ?thesis using startState_ok [OF ok, of e] by (simp add: rungCount_def)
next
  case (step rec err s')
  then show ?thesis using startState_ok [OF ok, of e] installNext_ok [OF step(3) _ step(2)]
    by (auto simp: rungCount_def split: option.splits)
qed

lemma escalations_ok:
  "retryOk st \<Longrightarrow> escalations es st = (st', acts) \<Longrightarrow>
     retryOk st' \<and> rungCount st' = rungCount st + length acts"
proof (induction es arbitrary: st st' acts)
  case (Cons e es)
  obtain st1 act where e: "escalate e st = (st1, act)" by (cases "escalate e st")
  obtain st2 acts2 where es: "escalations es st1 = (st2, acts2)" by (cases "escalations es st1")
  note h = escalate_ok [OF Cons.prems(1) e]
  have "st2 = st'" "acts = (case act of Some a \<Rightarrow> a # acts2 | None \<Rightarrow> acts2)"
    using Cons.prems(2) by (simp_all add: e es)
  then show ?case using h Cons.IH [OF _ es] by (auto split: option.splits)
qed simp

lemma rungCount_bound: "retryOk st \<Longrightarrow> rungCount st \<le> 4"
  by (auto simp: retryOk_def rungCount_def intro: rungs_bound split: option.splits)

text \<open>
  Over any sequence of load attempts of a model at most four safer commands are installed, each
  for a rung not tried before; the history records exactly the rungs taken, and no two neighbouring
  entries quote the same failure.
\<close>

theorem retry_history:
  "case escalations es None of
     (st, acts) \<Rightarrow> length acts \<le> 4 \<and> retryOk st \<and> rungCount st = length acts"
proof (cases "escalations es None")
  case (Pair st acts)
  then show ?thesis using escalations_ok [OF _ Pair] rungCount_bound [of st] by (simp add: retryOk_def rungCount_def)
qed

definition messageIs :: "string \<Rightarrow> retry_env \<Rightarrow> bool" where
  "messageIs m e = (case re_lastErr e of Some err \<Rightarrow> le_message err = m | None \<Rightarrow> True)"

lemma repeated_failure_same:
  assumes "lastFailure s = Some m" and "messageIs m e"
  shows "escalate e (Some s) = (Some s, None)"
  using assms by (auto simp: escalate_def messageIs_def Let_def split: option.splits)

text \<open>
  The ladder tells a new failure from the one it has answered by its text alone. When every
  attempt fails with the text the last step answered, as an exit of a running backend does (its
  text is the same each time), no further step is taken and the ladder is never exhausted, however
  often the safer command is tried and fails.
\<close>

theorem identical_failures_stall:
  assumes "lastFailure s = Some m" and "list_all (messageIs m) es"
  shows "escalations es (Some s) = (Some s, [])"
  using assms(2) by (induction es) (simp_all add: repeated_failure_same [OF assms(1)])

subsection \<open>A host of its own\<close>

definition demoPlan :: plan where
  "demoPlan = (bare ModeHybrid FastHybrid NoReason)\<lparr>pl_flagOps := [valueOp ''--n-cpu-moe'' ''3''], pl_nCpuMoe := 3\<rparr>"

definition demoError :: "string \<Rightarrow> failure_class \<Rightarrow> load_error" where
  "demoError m c = \<lparr>le_message = m, le_category = FailureCrash, le_at = 0, le_attempts = 1, le_class = c\<rparr>"

definition demoRetry :: "string \<Rightarrow> retry_env" where
  "demoRetry m =
     \<lparr>re_budget = 3,
      re_record = Some \<lparr>pr_plan = demoPlan, pr_originalCmd = ''llama-server'', pr_weightBytes = 0\<rparr>,
      re_lastErr = Some (demoError m ClassHostOOM),
      re_inputs = demoInputs 32768,
      re_apply = (\<lambda>c ops. Some (c @ concat (map fo_name ops))),
      re_override = (\<lambda>_ _. True)\<rparr>"

lemma demo_first_step:
  "\<exists>s. escalate (demoRetry m) None = (Some s, Some (''llama-server--n-cpu-moe--batch-size--ubatch-size'', 0)) \<and>
       rs_rungs s = [ShrinkBatch] \<and> lastFailure s = Some m"
  by (simp add: escalate_def demoRetry_def demoPlan_def demoError_def planApplies_def isMemory_def freshRetry_def
      lastFailure_def installNext_def nextSaferPlan_def ladderOrder_def valueOp_def bare_def loadDeadlineSeconds_def)

theorem identical_failures_stall_witness:
  "\<exists>s. fst (escalations (demoRetry ''upstream exited unexpectedly'' #
                 replicate 6 (demoRetry ''upstream exited unexpectedly'')) None) = Some s \<and>
       rs_rungs s = [ShrinkBatch]"
proof -
  let ?e = "demoRetry ''upstream exited unexpectedly''"
  obtain s a where s: "escalate ?e None = (Some s, Some a)" "rs_rungs s = [ShrinkBatch]"
    "lastFailure s = Some ''upstream exited unexpectedly''"
    using demo_first_step by blast
  have "list_all (messageIs ''upstream exited unexpectedly'') (replicate 6 ?e)"
    by (simp add: list_all_iff messageIs_def demoRetry_def demoError_def)
  from identical_failures_stall [OF s(3) this] s(2) show ?thesis by (simp add: s(1))
qed

lemma demo_batch:
  "nextSaferPlan demoPlan (demoInputs 32768) ClassHostOOM [] =
     Some (demoPlan\<lparr>pl_flagOps := pl_flagOps demoPlan @ [valueOp ''--batch-size'' (itoa 512), valueOp ''--ubatch-size'' (itoa 128)],
             pl_reason := RetryBatch 512 128\<rparr>, ShrinkBatch)"
  by (simp add: nextSaferPlan_def ladderOrder_def retryBatchSize_def retryUbatchSize_def)

theorem next_plan_is_safer_witness:
  "\<exists>p. nextSaferPlan demoPlan (demoInputs 32768) ClassHostOOM [] = Some (p, ShrinkBatch) \<and>
       take 1 (pl_flagOps p) = [valueOp ''--n-cpu-moe'' ''3'']"
proof -
  have f: "pl_flagOps demoPlan = [valueOp ''--n-cpu-moe'' ''3'']" by (simp add: demoPlan_def)
  show ?thesis using next_plan_is_safer [OF demo_batch] by (simp add: demo_batch f)
qed

text \<open>A larger card, of which one widening makes the card of the example.\<close>

definition demoLarge :: plan_inputs where
  "demoLarge = (demoInputs 32768)\<lparr>in_vramBudget := 10240\<rparr>"

lemma demo_vram: "in_vramBudget (demoInputs h) = 8192"
  by (simp add: demoInputs_def)

lemma demoLarge_widened: "widened demoLarge 0 = demoInputs 32768"
  by (simp add: widened_def demoLarge_def gpuReserveGrowthMB_def demoInputs_def)

lemma demoLarge_in:
  "in_shape demoLarge = demoShape True" "in_ctx demoLarge = 4096" "in_vramBudget demoLarge = 10240"
  "in_policy demoLarge = in_policy (demoInputs 32768)" "\<not> in_pinned demoLarge"
  by (simp_all add: demoLarge_def demoInputs_def)

lemma demoLarge_budgets: "vramBudgetOf demoLarge = 8192" "hostBudgetOf demoLarge = 20480"
  using demo_budgets(2) [of 32768]
  by (simp_all add: vramBudgetOf_def hostBudgetOf_def demoLarge_def demoInputs_def gpuReserveMB_def gib_def sdiv_nonneg)

lemma demoLarge_moe: "moeInputs demoLarge"
  using demo_moeInputs [of 32768] demoLarge_budgets
  by (simp add: moeInputs_def demoLarge_in) (simp add: demoInputs_def)

lemma demoLarge_full: "\<not> fitsResult (analyzeWith demoLarge 0 True)"
proof -
  let ?p = "(paramsOf demoLarge True)\<lparr>fp_nCpuMoe := 0\<rparr>"
  have c: "0 < fp_ctx ?p" "0 < fp_vramTotal ?p" by (simp_all add: demoLarge_in demoLarge_budgets)
  have k: "kvOf (demoShape True) ?p = 4096"
  proof -
    have "fp_kBits ?p = fp_kBits (paramsOf (demoInputs 32768) True)" "fp_vBits ?p = fp_vBits (paramsOf (demoInputs 32768) True)"
      by (simp_all add: paramsOf_def demoLarge_def)
    from kvOf_bits [OF this] show ?thesis by (simp only: demo_kvOf)
  qed
  have w: "gpuWeightMB (demoShape True) ?p = 8192"
    by (simp add: gpuWeightMB_def hostWeightMB_def cpuOffloadBytes_def expertOffload_def demo_modelMB mib_def)
  show ?thesis
    unfolding fitsResult_level analyzeWith_params demoLarge_in analyze_fits [OF c] k demo_modelMB
    by (simp add: w Let_def demoLarge_in demo_required demoLarge_budgets)
qed

lemma demoLarge_split: "pl_nCpuMoe (compute demoLarge) \<noteq> 0"
proof -
  let ?ok = "\<lambda>n. fitsResult (analyzeWith demoLarge n False)"
  let ?f = "searchMoe ?ok 1 4 (-1)"
  have "?ok 3"
    using widened_fits [of 0 demoLarge 3] demo_fits_at(3) demo_budgets(1) demo_vram
    by (simp add: demoLarge_widened demoLarge_in)
  moreover have l: "leastIn ?ok 1 4 ?f"
    using searchMoe_found [OF demoLarge_moe] by (simp add: demoLarge_in demoShape_def)
  ultimately have f: "1 \<le> ?f" "?f \<le> 4" by (force simp: leastIn_def)+
  have "hostShare demoLarge ?f = hostShare (demoInputs 32768) ?f"
    using gpuWeight_widened [where g = "demoShape True" and i = demoLarge and k = 0 and b = True and n = ?f]
    by (simp add: hostShare_eq [of _ _ True] demoLarge_widened demoLarge_in gpuWeightMB_def)
      (simp add: demoInputs_def)
  then have "hostShare demoLarge ?f \<le> 20480" using demo_hostShare [of ?f 32768] f by simp
  then obtain q where q: "planMoE demoLarge 20480 (analyzeWith demoLarge) = Some q" "pl_nCpuMoe q = ?f"
    using f by (simp add: planMoE_def demoLarge_in demoShape_def Let_def hostShare_def)
  have "planHybrid demoLarge 20480 (analyzeWith demoLarge 0 True) = Some q"
    using q(1) by (simp add: planHybrid_def demoLarge_in Let_def) (simp add: demoShape_def)
  moreover have "fr_fitLevel (analyzeWith demoLarge 0 True) \<noteq> UnknownFit"
    by (rule analyzeWith_known) (simp add: demoLarge_budgets)
  moreover have "effectiveMode (in_policy demoLarge) = ''auto''" "ms_weightBytes (demoShape True) = 8589934592"
    by (simp_all add: demoLarge_def demoInputs_def effectiveMode_def demoShape_def)
  ultimately have "compute demoLarge = q"
    using demoLarge_full by (simp add: compute_def demoLarge_in demoLarge_budgets Let_def orPlan_def)
  then show ?thesis using q f by simp
qed

theorem widening_moves_more_experts_witness:
  "pl_nCpuMoe (compute demoLarge) \<le> pl_nCpuMoe (compute (widened demoLarge 0)) \<and>
   pl_nCpuMoe (compute (widened demoLarge 0)) = 3"
  using widening_moves_more_experts [OF demoLarge_moe, of 0] demo_moeInputs [of 32768] demo_hybrid demoLarge_split
  by (simp add: demoLarge_widened demoLarge_in demo_vram)

lemma demo_widen_second:
  "widened ((demoInputs 32768)\<lparr>in_vramBudget := 12288\<rparr>) 1 = demoInputs 32768"
  by (simp add: widened_def gpuReserveGrowthMB_def demoInputs_def)

theorem widening_drops_batch_witness:
  "\<exists>p. nextSaferPlan demoPlan ((demoInputs 32768)\<lparr>in_vramBudget := 12288\<rparr>) ClassGPUOOM [ShrinkBatch] =
         Some (p, WidenReserve) \<and> ''--batch-size'' \<notin> fo_name ` set (pl_flagOps p)"
proof -
  have "\<exists>p. nextSaferPlan demoPlan ((demoInputs 32768)\<lparr>in_vramBudget := 12288\<rparr>) ClassGPUOOM [ShrinkBatch] =
          Some (p, WidenReserve)"
    using demo_hybrid demo_vram [of 32768]
    by (simp add: nextSaferPlan_def ladderOrder_def demo_widen_second Let_def del: widened_simps)
  then show ?thesis using widening_drops_batch by blast
qed

end
