(* ===== verification/Profiles.thy ===== *)
theory Profiles
  imports Ladder
begin

text \<open>
  Learned placements: \<open>internal/placement/profilestore.go\<close> (the store of placements measured to work,
  and what is worth learning) and \<open>internal/server/placementprofile.go\<close> (the plan a profile stands for,
  and one profiler pass). The file is a JSON map, kept as the map it decodes to; directory creation,
  writing and renaming may each fail. The last part runs the profiler beside the retry ladder.
\<close>

subsection \<open>Profiles and keys\<close>

record flag_rec =
  fl_name :: string
  fl_value :: string
  fl_boolean :: bool

record place_key =
  pk_modelPath :: string
  pk_modelSize :: int
  pk_modelMtime :: int
  pk_engine :: string
  pk_vramTotal :: int
  pk_hostTotal :: int
  pk_ctx :: int

record profile =
  pf_key :: place_key
  pf_mode :: plan_mode
  pf_nCpuMoe :: int
  pf_flags :: "flag_rec list"
  pf_perfClass :: perf_class
  pf_peakVRAM :: int
  pf_peakHost :: int
  pf_loadSeconds :: int
  pf_recordedAt :: int

definition keyMatches :: "place_key \<Rightarrow> profile \<Rightarrow> bool" where
  "keyMatches k p =
     (pk_modelPath (pf_key p) = pk_modelPath k \<and> pk_modelSize (pf_key p) = pk_modelSize k \<and>
      pk_modelMtime (pf_key p) = pk_modelMtime k \<and> pk_engine (pf_key p) = pk_engine k \<and>
      pk_vramTotal (pf_key p) = pk_vramTotal k \<and> pk_hostTotal (pf_key p) = pk_hostTotal k \<and>
      pk_ctx (pf_key p) = pk_ctx k)"

lemma keyMatches_iff: "keyMatches k p \<longleftrightarrow> pf_key p = k"
  by (auto simp: keyMatches_def)

subsection \<open>The store\<close>

datatype profile_file = Absent | Unreadable | Corrupt | Holds "string \<rightharpoonup> profile"

text \<open>\<open>loadLocked\<close>; \<open>None\<close> is an error.\<close>

fun loadProfiles :: "profile_file \<Rightarrow> (string \<rightharpoonup> profile) option" where
  "loadProfiles Absent = Some Map.empty"
| "loadProfiles Unreadable = None"
| "loadProfiles Corrupt = None"
| "loadProfiles (Holds m) = Some m"

definition lookupProfile :: "string \<Rightarrow> place_key \<Rightarrow> profile_file \<Rightarrow> profile option" where
  "lookupProfile m k f =
     (case loadProfiles f of
        None \<Rightarrow> None
      | Some all \<Rightarrow>
          (case all m of
             None \<Rightarrow> None
           | Some p \<Rightarrow> if keyMatches k p then Some p else None))"

record disk_env =
  de_mkdir :: bool
  de_write :: bool
  de_rename :: bool

text \<open>The new file, and whether \<open>Record\<close> returned no error.\<close>

definition recordProfile :: "disk_env \<Rightarrow> string \<Rightarrow> profile \<Rightarrow> profile_file \<Rightarrow> profile_file \<times> bool" where
  "recordProfile d m p f =
     (let all = (case loadProfiles f of None \<Rightarrow> Map.empty | Some a \<Rightarrow> a) in
      if \<not> de_mkdir d then (f, False)
      else if \<not> de_write d then (f, False)
      else if \<not> de_rename d then (f, False)
      else (Holds (all(m \<mapsto> p)), True))"

definition forgetProfile :: "disk_env \<Rightarrow> string \<Rightarrow> profile_file \<Rightarrow> profile_file" where
  "forgetProfile d m f =
     (case loadProfiles f of
        None \<Rightarrow> f
      | Some all \<Rightarrow>
          if all m = None then f
          else if de_write d \<and> de_rename d then Holds (all(m := None)) else f)"

subsection \<open>What is worth learning\<close>

definition worthLearning :: "plan \<Rightarrow> int \<Rightarrow> int \<Rightarrow> place_key \<Rightarrow> placement_config option \<Rightarrow> bool" where
  "worthLearning p peakVRAM peakHost k policy =
     (if \<not> pl_confident p \<or> pl_mode p = ModeRefuse \<or> pl_mode p = ModeUnknown then False
      else case policy of
        None \<Rightarrow> False
      | Some c \<Rightarrow>
          if pk_vramTotal k \<le> 0 then False
          else if peakVRAM \<le> 0 then False
          else if peakVRAM > pk_vramTotal k - gpuReserveMB c (pk_vramTotal k) then False
          else \<not> (peakHost > 0 \<and> pk_hostTotal k > 0 \<and>
                   peakHost > pk_hostTotal k - hostReserveMB c (pk_hostTotal k)))"

definition toFlagRec :: "flag_op \<Rightarrow> flag_rec" where
  "toFlagRec op = \<lparr>fl_name = fo_name op, fl_value = fo_value op, fl_boolean = fo_boolean op\<rparr>"

definition profileFrom :: "place_key \<Rightarrow> plan \<Rightarrow> int \<Rightarrow> int \<Rightarrow> int \<Rightarrow> int \<Rightarrow> placement_config option \<Rightarrow> profile option" where
  "profileFrom k p peakVRAM peakHost loadSeconds recordedAt policy =
     (if \<not> worthLearning p peakVRAM peakHost k policy then None
      else Some \<lparr>pf_key = k, pf_mode = pl_mode p, pf_nCpuMoe = pl_nCpuMoe p,
                 pf_flags = map toFlagRec (filter (\<lambda>op. \<not> fo_remove op) (pl_flagOps p)),
                 pf_perfClass = pl_perfClass p, pf_peakVRAM = peakVRAM, pf_peakHost = peakHost,
                 pf_loadSeconds = loadSeconds, pf_recordedAt = recordedAt\<rparr>)"

definition fromFlagRec :: "flag_rec \<Rightarrow> flag_op" where
  "fromFlagRec r = \<lparr>fo_name = fl_name r, fo_value = fl_value r, fo_boolean = fl_boolean r, fo_remove = False\<rparr>"

definition planFromProfile :: "profile \<Rightarrow> plan" where
  "planFromProfile p =
     \<lparr>pl_mode = pf_mode p, pl_flagOps = map fromFlagRec (pf_flags p), pl_nCpuMoe = pf_nCpuMoe p,
      pl_estimate = \<lparr>es_gpuMB = pf_peakVRAM p, es_hostMB = pf_peakHost p, es_kvMB = 0\<rparr>,
      pl_perfClass = pf_perfClass p, pl_reason = KnownGood, pl_confident = True\<rparr>"

lemma flag_roundtrip: "\<not> fo_remove op \<Longrightarrow> fromFlagRec (toFlagRec op) = op"
  by (simp add: fromFlagRec_def toFlagRec_def)

lemma flags_roundtrip: "map (fromFlagRec \<circ> toFlagRec) (filter (\<lambda>op. \<not> fo_remove op) ops) = filter (\<lambda>op. \<not> fo_remove op) ops"
  by (induction ops) (simp_all add: flag_roundtrip)

text \<open>
  A learned placement is reused as it was measured: the profile recorded for a run is found
  again under the same key and under no other, it stands for the plan that ran, and it is only
  recorded when the run left both reserves free.
\<close>

theorem learned_profile_roundtrip:
  assumes "profileFrom k p v h secs now policy = Some prof" and "recordProfile d m prof f = (f', True)"
  shows "lookupProfile m k' f' = (if k' = k then Some prof else None) \<and>
         (m' \<noteq> m \<longrightarrow> lookupProfile m' k' f' = lookupProfile m' k' f) \<and>
         pl_flagOps (planFromProfile prof) = filter (\<lambda>op. \<not> fo_remove op) (pl_flagOps p) \<and>
         pl_mode (planFromProfile prof) = pl_mode p \<and> pl_nCpuMoe (planFromProfile prof) = pl_nCpuMoe p \<and>
         (\<exists>c. policy = Some c \<and> v + gpuReserveMB c (pk_vramTotal k) \<le> pk_vramTotal k \<and>
              (h \<le> 0 \<or> pk_hostTotal k \<le> 0 \<or> h + hostReserveMB c (pk_hostTotal k) \<le> pk_hostTotal k))"
proof -
  have w: "worthLearning p v h k policy" and prof: "pf_key prof = k" "pf_mode prof = pl_mode p"
    "pf_nCpuMoe prof = pl_nCpuMoe p" "pf_flags prof = map toFlagRec (filter (\<lambda>op. \<not> fo_remove op) (pl_flagOps p))"
    using assms(1) by (auto simp: profileFrom_def split: if_splits)
  have f': "f' = Holds ((case loadProfiles f of None \<Rightarrow> Map.empty | Some a \<Rightarrow> a)(m \<mapsto> prof))"
    using assms(2) by (auto simp: recordProfile_def Let_def split: if_splits)
  have "lookupProfile m k' f' = (if k' = k then Some prof else None)"
    using prof(1) by (auto simp: f' lookupProfile_def keyMatches_iff)
  moreover have "lookupProfile m' k' f' = lookupProfile m' k' f" if "m' \<noteq> m"
    using that by (simp add: f' lookupProfile_def split: option.splits)
  moreover have "pl_flagOps (planFromProfile prof) = filter (\<lambda>op. \<not> fo_remove op) (pl_flagOps p)"
    using flags_roundtrip [of "pl_flagOps p"] by (simp add: planFromProfile_def prof(4))
  ultimately show ?thesis using w prof
    by (auto simp: planFromProfile_def worthLearning_def split: option.splits if_splits)
qed

subsection \<open>The profiler\<close>

text \<open>One ready model of a pass of \<open>recordReadyPlacements\<close>: its configuration, the key of this host
  and what it uses now.\<close>

record ready_env =
  ry_ready :: bool
  ry_configured :: bool
  ry_key :: "place_key option"
  ry_vramMB :: int
  ry_hostMB :: int
  ry_now :: int
  ry_policy :: placement_config
  ry_disk :: disk_env

definition recordReady :: "ready_env \<Rightarrow> string \<Rightarrow> placement_record option \<Rightarrow> profile_file \<Rightarrow> profile_file" where
  "recordReady e m rec f =
     (if \<not> ry_ready e then f
      else case rec of
        None \<Rightarrow> f
      | Some r \<Rightarrow>
          if \<not> planApplies (pr_plan r) then f
          else if \<not> ry_configured e then f
          else case ry_key e of
            None \<Rightarrow> f
          | Some k \<Rightarrow>
              if lookupProfile m k f \<noteq> None then f
              else case profileFrom k (pr_plan r) (ry_vramMB e) (ry_hostMB e) 0 (ry_now e) (Some (ry_policy e)) of
                None \<Rightarrow> f
              | Some prof \<Rightarrow> fst (recordProfile (ry_disk e) m prof f))"

text \<open>A model between its load attempts and the profiler: the placement record, the history of the
  ladder, the command override in force and the profile file.\<close>

record place_state =
  st_record :: placement_record
  st_retry :: "retry_state option"
  st_override :: "(string \<times> int) option"
  st_file :: profile_file

datatype place_event = LoadAttempt retry_env | ProfilerPass ready_env

fun placeStep :: "string \<Rightarrow> place_state \<Rightarrow> place_event \<Rightarrow> place_state" where
  "placeStep m s (LoadAttempt e) =
     (case escalate (e\<lparr>re_record := Some (st_record s)\<rparr>) (st_retry s) of
        (rt, act) \<Rightarrow> s\<lparr>st_retry := rt, st_override := (case act of Some a \<Rightarrow> Some a | None \<Rightarrow> st_override s)\<rparr>)"
| "placeStep m s (ProfilerPass e) = s\<lparr>st_file := recordReady e m (Some (st_record s)) (st_file s)\<rparr>"

definition placeRun :: "string \<Rightarrow> place_state \<Rightarrow> place_event list \<Rightarrow> place_state" where
  "placeRun m s es = foldl (placeStep m) s es"

definition flagsOf :: "plan \<Rightarrow> flag_op list" where
  "flagsOf p = filter (\<lambda>op. \<not> fo_remove op) (pl_flagOps p)"

definition learnedFlags :: "string \<Rightarrow> place_key \<Rightarrow> profile_file \<Rightarrow> flag_op list option" where
  "learnedFlags m k f = map_option (pl_flagOps \<circ> planFromProfile) (lookupProfile m k f)"

lemma recordReady_flags:
  assumes "learnedFlags m k (recordReady e m (Some r) f) = Some ops"
  shows "ops = flagsOf (pr_plan r) \<or> learnedFlags m k f = Some ops"
proof -
  have fl: "pl_flagOps (planFromProfile q) = flagsOf p" if "profileFrom k' p v h s t c = Some q" for k' p v h s t c q
  proof -
    have "pf_flags q = map toFlagRec (filter (\<lambda>op. \<not> fo_remove op) (pl_flagOps p))"
      using that by (auto simp: profileFrom_def split: if_splits)
    then show ?thesis using flags_roundtrip [of "pl_flagOps p"] by (simp add: planFromProfile_def flagsOf_def)
  qed
  have lk: "lookupProfile m k (fst (recordProfile d m q f)) = Some z \<Longrightarrow> z = q \<or> lookupProfile m k f = Some z" for d q z
    by (auto simp: recordProfile_def lookupProfile_def Let_def split: if_splits option.splits)
  have "recordReady e m (Some r) f = f \<or>
      (\<exists>k' q. profileFrom k' (pr_plan r) (ry_vramMB e) (ry_hostMB e) 0 (ry_now e) (Some (ry_policy e)) = Some q \<and>
             recordReady e m (Some r) f = fst (recordProfile (ry_disk e) m q f))"
    by (auto simp: recordReady_def split: option.splits)
  then show ?thesis
  proof (elim disjE exE conjE)
    fix k' q
    assume q: "profileFrom k' (pr_plan r) (ry_vramMB e) (ry_hostMB e) 0 (ry_now e) (Some (ry_policy e)) = Some q"
      and rr: "recordReady e m (Some r) f = fst (recordProfile (ry_disk e) m q f)"
    from assms obtain z where z: "lookupProfile m k (fst (recordProfile (ry_disk e) m q f)) = Some z"
      "ops = pl_flagOps (planFromProfile z)" unfolding rr by (auto simp: learnedFlags_def)
    from lk [OF z(1)] show ?thesis using fl [OF q] z(2) by (auto simp: learnedFlags_def)
  qed (use assms in simp)
qed

lemma placeStep_record: "st_record (placeStep m s e) = st_record s"
  by (cases e) (auto split: prod.splits)

lemma placeStep_flags:
  assumes "learnedFlags m k (st_file (placeStep m s e)) = Some ops"
  shows "ops = flagsOf (pr_plan (st_record s)) \<or> learnedFlags m k (st_file s) = Some ops"
  using assms recordReady_flags by (cases e) (auto split: prod.splits)

text \<open>
  The profiler learns the plan the model was first given, never the one it runs with: after any
  mix of failed loads, retries with safer commands and profiler passes, a profile that was not there
  before has the flags of the original plan, the one whose failure started the ladder.
\<close>

theorem learned_plan_is_the_first:
  "learnedFlags m k (st_file (placeRun m s es)) \<in>
     {None, Some (flagsOf (pr_plan (st_record s))), learnedFlags m k (st_file s)} \<and>
   st_record (placeRun m s es) = st_record s"
proof -
  have r: "st_record (placeRun m s es) = st_record s" for s
    unfolding placeRun_def by (induction es arbitrary: s) (simp_all add: placeStep_record)
  have "learnedFlags m k (st_file (placeRun m s es)) = Some ops \<Longrightarrow>
      ops = flagsOf (pr_plan (st_record s)) \<or> learnedFlags m k (st_file s) = Some ops" for ops
    unfolding placeRun_def
  proof (induction es arbitrary: s)
    case (Cons e es)
    then have "ops = flagsOf (pr_plan (st_record (placeStep m s e))) \<or> learnedFlags m k (st_file (placeStep m s e)) = Some ops"
      by simp
    then show ?case using placeStep_flags [of m k s e ops] by (auto simp: placeStep_record)
  qed simp
  then show ?thesis using r by (cases "learnedFlags m k (st_file (placeRun m s es))") auto
qed

definition demoKey :: place_key where
  "demoKey = \<lparr>pk_modelPath = ''m.gguf'', pk_modelSize = 1, pk_modelMtime = 1, pk_engine = ''e'',
     pk_vramTotal = 8192, pk_hostTotal = 65536, pk_ctx = 4096\<rparr>"

definition demoPolicy :: placement_config where
  "demoPolicy = in_policy (demoInputs 32768)"

definition goodDisk :: disk_env where
  "goodDisk = \<lparr>de_mkdir = True, de_write = True, de_rename = True\<rparr>"

definition goodPlan :: plan where
  "goodPlan = demoPlan\<lparr>pl_confident := True\<rparr>"

lemma demo_worth: "worthLearning goodPlan 6000 4096 demoKey (Some demoPolicy)"
  by (simp add: worthLearning_def goodPlan_def demoPlan_def bare_def demoKey_def demoPolicy_def demoInputs_def
      gpuReserveMB_def hostReserveMB_def gib_def sdiv_nonneg)

theorem learned_profile_roundtrip_witness:
  "\<exists>prof f'. profileFrom demoKey goodPlan 6000 4096 0 1 (Some demoPolicy) = Some prof \<and>
     recordProfile goodDisk ''m'' prof Absent = (f', True) \<and> lookupProfile ''m'' demoKey f' = Some prof"
proof -
  obtain prof where prof: "profileFrom demoKey goodPlan 6000 4096 0 1 (Some demoPolicy) = Some prof"
    using demo_worth by (simp add: profileFrom_def)
  obtain f' where f': "recordProfile goodDisk ''m'' prof Absent = (f', True)"
    by (simp add: recordProfile_def goodDisk_def)
  show ?thesis using learned_profile_roundtrip [OF prof f', of demoKey] prof f' by auto
qed

text \<open>The safer command is in force, and the plan learned from it is the one that failed.\<close>

lemma learns_the_failed_plan:
  "case placeRun ''m''
      \<lparr>st_record = \<lparr>pr_plan = goodPlan, pr_originalCmd = ''llama-server'', pr_weightBytes = 0\<rparr>, st_retry = None,
       st_override = None, st_file = Absent\<rparr>
      [LoadAttempt (demoRetry ''out of memory''),
       ProfilerPass \<lparr>ry_ready = True, ry_configured = True, ry_key = Some demoKey, ry_vramMB = 6000, ry_hostMB = 4096,
         ry_now = 1, ry_policy = demoPolicy, ry_disk = goodDisk\<rparr>] of
    s \<Rightarrow> st_override s = Some (''llama-server--n-cpu-moe--batch-size--ubatch-size'', 0) \<and>
        learnedFlags ''m'' demoKey (st_file s) = Some [valueOp ''--n-cpu-moe'' ''3'']"
  using demo_worth
  by (simp add: placeRun_def escalate_def demoRetry_def demoError_def isMemory_def freshRetry_def goodPlan_def demoPlan_def
      bare_def planApplies_def lastFailure_def installNext_def nextSaferPlan_def ladderOrder_def loadDeadlineSeconds_def
      recordReady_def learnedFlags_def lookupProfile_def profileFrom_def recordProfile_def goodDisk_def keyMatches_iff
      planFromProfile_def fromFlagRec_def toFlagRec_def valueOp_def)

end
