(* ===== verification/Tuning.thy ===== *)
theory Tuning
  imports Go_Text Go_Float
begin

text \<open>
  \<open>internal/tuning\<close>: the tuning database (profiles.go), GPU detection (detect.go), the recognition of
  speculative-decoding models (mtp.go), the resolution of a profile against the operator's override
  (override.go), the injection of flags into a launch command (apply.go) and of flags and allocator
  environment into the whole configuration (inject.go).

  A Go map is a HOL map; where the code's result depends on the order in which Go iterates a map, that
  order is an argument. A \<open>float64\<close> is a rational with 53-bit rounding (\<open>Go_Float\<close>).
\<close>

subsection \<open>strconv.FormatFloat(f, 'g', -1, 64)\<close>

text \<open>The position of the decimal point: \<open>10 ^ (dp - 1) \<le> x < 10 ^ dp\<close>. 400 steps cover the range of
  float64, \<open>2 ^ -1074\<close> to \<open>2 ^ 1024\<close>.\<close>

fun decPoint :: "nat \<Rightarrow> rat \<Rightarrow> int" where
  "decPoint 0 x = 0"
| "decPoint (Suc k) x =
     (if 1 \<le> x then decPoint k (x / 10) + 1 else if x < 1 / 10 then decPoint k (x * 10) - 1 else 0)"

text \<open>The shortest digit sequence that reads back as \<open>x\<close>, and the closest to \<open>x\<close> of that length: 17
  digits always suffice.\<close>

definition nearestDigits :: "rat \<Rightarrow> int \<Rightarrow> nat \<Rightarrow> int option" where
  "nearestDigits x dp n =
     (let s = 10 powi (int n - dp); lo = \<lfloor>x * s\<rfloor>; hi = lo + 1;
          okLo = (fl (of_int lo / s) = x); okHi = (fl (of_int hi / s) = x)
      in if okLo \<and> (\<not> okHi \<or> x * s - of_int lo \<le> of_int hi - x * s) then Some lo
         else if okHi then Some hi else None)"

fun shortestDigits :: "nat \<Rightarrow> nat \<Rightarrow> rat \<Rightarrow> int \<Rightarrow> int \<times> nat" where
  "shortestDigits 0 n x dp = (\<lfloor>x * 10 powi (int n - dp)\<rfloor>, n)"
| "shortestDigits (Suc k) n x dp =
     (case nearestDigits x dp n of Some c \<Rightarrow> (c, n) | None \<Rightarrow> shortestDigits k (Suc n) x dp)"

definition stripZeros :: "string \<Rightarrow> string" where
  "stripZeros ds = rev (dropWhile (\<lambda>c. c = CHR ''0'') (rev ds))"

text \<open>\<open>%e\<close> and \<open>%f\<close> of the digits \<open>0.ds * 10 ^ dp\<close>, as \<open>'g'\<close> with the shortest precision calls them.\<close>

definition digitAt :: "string \<Rightarrow> int \<Rightarrow> char" where
  "digitAt ds i = (if 0 \<le> i \<and> i < int (length ds) then ds ! nat i else CHR ''0'')"

definition fmtE :: "string \<Rightarrow> int \<Rightarrow> string" where
  "fmtE ds dp =
     (let e = dp - 1; ex = natText (nat \<bar>e\<bar>)
      in digitAt ds 0 # (if length ds > 1 then CHR ''.'' # tl ds else [])
         @ CHR ''e'' # (if e < 0 then CHR ''-'' else CHR ''+'') # (if \<bar>e\<bar> < 10 then CHR ''0'' # ex else ex))"

definition fmtF :: "string \<Rightarrow> int \<Rightarrow> string" where
  "fmtF ds dp =
     (if dp > 0 then map (digitAt ds) [0..dp - 1] else ''0'')
     @ (if int (length ds) - dp > 0 then CHR ''.'' # map (digitAt ds) [dp..int (length ds) - 1] else [])"

definition fmtG :: "rat \<Rightarrow> string" where
  "fmtG x =
     (let dp0 = decPoint 400 x; (c, n) = shortestDigits 17 1 x dp0; txt = natText (nat c);
          ds = stripZeros txt; dp = dp0 + int (length txt) - int n
      in if dp - 1 < - 4 \<or> dp - 1 \<ge> 6 then fmtE ds dp else fmtF ds dp)"

definition ftoa :: "rat \<Rightarrow> string" where
  "ftoa x = (if x = 0 then ''0'' else if x < 0 then CHR ''-'' # fmtG (- x) else fmtG x)"

definition numCh :: "char \<Rightarrow> bool" where
  "numCh c = (isDigitCh c \<or> c = CHR ''.'' \<or> c = CHR ''e'' \<or> c = CHR ''-'' \<or> c = CHR ''+'')"

lemma numCh_nonspace: "numCh c \<Longrightarrow> \<not> isSpaceB c"
  by (auto simp: numCh_def dest: isDigit_range) (auto simp: isSpaceB_def)

lemma natText_num: "list_all numCh (natText n)"
  using natText_digits [of n] by (auto simp: list_all_iff numCh_def)

lemma isDigit_zero [simp]: "isDigitCh CHR ''0''"
  by (simp add: isDigitCh_def)

lemma numCh_zero [simp]: "numCh CHR ''0''"
  by (simp add: numCh_def)

lemma stripZeros_sub: "set (stripZeros ds) \<subseteq> set ds"
  by (auto simp: stripZeros_def dest: set_dropWhileD)

lemma digitAt_num: "list_all numCh ds \<Longrightarrow> numCh (digitAt ds i)"
  using nth_mem [of "nat i" ds] by (auto simp: digitAt_def list_all_iff nat_less_iff)

lemma fmtE_num: "list_all numCh ds \<Longrightarrow> list_all numCh (fmtE ds dp)"
  using natText_num [of "nat \<bar>dp - 1\<bar>"] digitAt_num [of ds 0]
  by (cases ds) (auto simp: fmtE_def Let_def numCh_def)

lemma fmtF_num: "list_all numCh ds \<Longrightarrow> list_all numCh (fmtF ds dp)"
  by (auto simp: fmtF_def list_all_iff digitAt_num [unfolded list_all_iff]) (auto simp: numCh_def)

lemma fmtE_nonempty: "fmtE ds dp \<noteq> []"
  by (simp add: fmtE_def Let_def)

lemma fmtF_nonempty: "fmtF ds dp \<noteq> []"
  by (simp add: fmtF_def)

lemma fmtG_word: "isWord (fmtG x)"
proof -
  obtain c n where cn: "shortestDigits 17 1 x (decPoint 400 x) = (c, n)" by fastforce
  have "list_all numCh (stripZeros (natText (nat c)))"
    using natText_num [of "nat c"] stripZeros_sub by (force simp: list_all_iff)
  then have "list_all numCh (fmtG x)" and "fmtG x \<noteq> []"
    using fmtE_num fmtF_num fmtF_nonempty fmtE_nonempty unfolding fmtG_def cn Let_def by simp_all
  then show ?thesis using numCh_nonspace by (auto simp: isWord_def list_all_iff)
qed

lemma ftoa_word: "isWord (ftoa x)"
  using fmtG_word [of x] fmtG_word [of "- x"] isDigit_range [OF isDigit_zero]
  by (auto simp: ftoa_def isWord_def isSpaceB_def)

subsection \<open>The database (profiles.go)\<close>

record tune_flags =
  tf_flashAttn :: "bool option"
  tf_parallel :: "int option"

record mtp_rec =
  mt_apply :: bool
  mt_draftNMax :: int
  mt_draftPMin :: rat

record dflash_rec =
  df_apply :: bool
  df_draftNMax :: int
  df_draftPMin :: rat

record tune_profile =
  tp_gfx :: string
  tp_useCase :: string
  tp_verified :: bool
  tp_verifiedOn :: string
  tp_flags :: tune_flags
  tp_mtp :: "mtp_rec option"
  tp_dflash :: "dflash_rec option"
  tp_notes :: string
  tp_deviceIDs :: "string list"
  tp_sources :: "string list"

text \<open>\<open>Profile{}\<close>.\<close>

definition zeroProfile :: tune_profile where
  "zeroProfile = \<lparr>tp_gfx = [], tp_useCase = [], tp_verified = False, tp_verifiedOn = [],
     tp_flags = \<lparr>tf_flashAttn = None, tf_parallel = None\<rparr>, tp_mtp = None, tp_dflash = None, tp_notes = [],
     tp_deviceIDs = [], tp_sources = []\<rparr>"

record use_case =
  uc_description :: string
  uc_default :: bool

text \<open>\<open>db_glibc = None\<close> is the nil map; a map of environment variables is an association list with
  distinct keys.\<close>

record database =
  db_version :: int
  db_useCases :: "string \<rightharpoonup> use_case"
  db_glibc :: "(string \<times> string) list option"
  db_profiles :: "tune_profile list"

fun replaceProfile :: "tune_profile \<Rightarrow> tune_profile list \<Rightarrow> tune_profile list" where
  "replaceProfile up [] = [up]"
| "replaceProfile up (p # ps) =
     (if tp_gfx p = tp_gfx up \<and> tp_useCase p = tp_useCase up then up # ps else p # replaceProfile up ps)"

definition mergeDb :: "database \<Rightarrow> database \<Rightarrow> database" where
  "mergeDb db user =
     db\<lparr>db_useCases := db_useCases db ++ db_useCases user,
        db_glibc := (if db_glibc user \<noteq> None then db_glibc user else db_glibc db),
        db_profiles := foldl (\<lambda>ps up. replaceProfile up ps) (db_profiles db) (db_profiles user)\<rparr>"

text \<open>The use-case names in the order Go happens to iterate the map.\<close>

definition defaultUseCase :: "string list \<Rightarrow> database \<Rightarrow> string" where
  "defaultUseCase order db =
     (case List.find (\<lambda>n. case db_useCases db n of Some uc \<Rightarrow> uc_default uc | None \<Rightarrow> False) order of
        Some n \<Rightarrow> n
      | None \<Rightarrow> ''agentic-single'')"

definition lookupTuning :: "string list \<Rightarrow> database \<Rightarrow> string \<Rightarrow> string \<Rightarrow> tune_profile option" where
  "lookupTuning order db gfx usecase =
     (let uc = (if usecase = [] then defaultUseCase order db else usecase)
      in List.find (\<lambda>p. tp_gfx p = gfx \<and> tp_useCase p = uc) (db_profiles db))"

text \<open>The user file: missing or unreadable, unparsable, or a database.\<close>

datatype user_file = NoUserFile | BadUserFile | UserFile database

definition loadProfilesDb :: "database \<Rightarrow> bool \<Rightarrow> user_file \<Rightarrow> database option" where
  "loadProfilesDb embedded hasDir uf =
     (if \<not> hasDir then Some embedded
      else case uf of
        NoUserFile \<Rightarrow> Some embedded
      | BadUserFile \<Rightarrow> None
      | UserFile user \<Rightarrow> Some (mergeDb embedded user))"

subsection \<open>GPU detection (detect.go)\<close>

definition deviceGfx :: "(int \<times> string) list" where
  "deviceGfx = [(0x7550, ''gfx1201''), (0x7551, ''gfx1201''), (0x744c, ''gfx1100''), (0x7448, ''gfx1100''),
     (0x7449, ''gfx1100''), (0x747e, ''gfx1101''), (0x73bf, ''gfx1030''), (0x73a5, ''gfx1030''), (0x73af, ''gfx1030'')]"

definition hexDigit :: "char \<Rightarrow> int option" where
  "hexDigit c =
     (if isDigitCh c then Some (of_char c - 48)
      else if CHR ''a'' \<le> c \<and> c \<le> CHR ''f'' then Some (of_char c - 87)
      else if CHR ''A'' \<le> c \<and> c \<le> CHR ''F'' then Some (of_char c - 55) else None)"

fun parseHex :: "int \<Rightarrow> string \<Rightarrow> int option" where
  "parseHex n [] = Some n"
| "parseHex n (c # cs) = (case hexDigit c of Some d \<Rightarrow> parseHex (16 * n + d) cs | None \<Rightarrow> None)"

text \<open>\<open>None\<close> is an unreadable file; a value that does not parse as a uint32 is 0 too.\<close>

definition readHexID :: "string option \<Rightarrow> int" where
  "readHexID raw =
     (case raw of
        None \<Rightarrow> 0
      | Some t \<Rightarrow>
          let u = trimB t; s = (case cutPrefix u ''0x'' of Some r \<Rightarrow> r | None \<Rightarrow> u) in
          case (if s = [] then None else parseHex 0 s) of
            Some v \<Rightarrow> if v < 2 ^ 32 then v else 0
          | None \<Rightarrow> 0)"

text \<open>The \<open>vendor\<close> and \<open>device\<close> files of the cards, in the sorted order of their paths.\<close>

fun detectGfx :: "(string option \<times> string option) list \<Rightarrow> (string \<times> int) option" where
  "detectGfx [] = None"
| "detectGfx ((vendor, device) # cards) =
     (if readHexID vendor \<noteq> 0x1002 then detectGfx cards
      else case map_of deviceGfx (readHexID device) of
        Some g \<Rightarrow> Some (g, readHexID device)
      | None \<Rightarrow> detectGfx cards)"

subsection \<open>Speculative-decoding models (mtp.go)\<close>

text \<open>The regular expression \<open>(?i)(^|[-_./])mtp([-_.]|$)\<close>.\<close>

definition mtpAt :: "string \<Rightarrow> bool" where
  "mtpAt s = (toLower (take 3 s) = ''mtp'' \<and> (drop 3 s = [] \<or> hd (drop 3 s) \<in> set ''-_.''))"

fun mtpScan :: "string \<Rightarrow> bool" where
  "mtpScan [] = False"
| "mtpScan (c # cs) = ((c \<in> set ''-_./'' \<and> mtpAt cs) \<or> mtpScan cs)"

definition mtpNameRe :: "string \<Rightarrow> bool" where
  "mtpNameRe s = (mtpAt s \<or> mtpScan s)"

fun modelPathsOf :: "string list \<Rightarrow> string list" where
  "modelPathsOf [] = []"
| "modelPathsOf (tok # rest) =
     (case rest of v # _ \<Rightarrow> (if tok = ''--model'' \<or> tok = ''-m'' then [v] else []) | [] \<Rightarrow> [])
     @ (case cutPrefix tok ''--model='' of Some v \<Rightarrow> [v] | None \<Rightarrow> [])
     @ modelPathsOf rest"

definition modelPaths :: "string \<Rightarrow> string list" where
  "modelPaths cmd = modelPathsOf (goFields cmd)"

definition isMTPModel :: "string \<Rightarrow> bool \<Rightarrow> bool" where
  "isMTPModel cmd metadataMTPEnabled = (metadataMTPEnabled \<or> list_ex mtpNameRe (modelPaths cmd))"

definition hasDrafter :: "string \<Rightarrow> bool" where
  "hasDrafter cmd = list_ex (\<lambda>tok. tok = ''--model-draft'') (goFields cmd)"

subsection \<open>The operator's override (override.go)\<close>

record tune_override =
  ov_enabled :: "bool option"
  ov_flashAttn :: "bool option"
  ov_parallel :: "int option"
  ov_mtp :: "bool option"
  ov_extraArgs :: "string list"
  ov_gfxTarget :: string
  ov_backendEnv :: "bool option"

definition noOverride :: tune_override where
  "noOverride = \<lparr>ov_enabled = None, ov_flashAttn = None, ov_parallel = None, ov_mtp = None, ov_extraArgs = [],
     ov_gfxTarget = [], ov_backendEnv = None\<rparr>"

datatype provenance = FromProfile | FromOverride

record effective =
  ef_enabled :: bool
  ef_profile :: tune_profile
  ef_extraArgs :: "string list"
  ef_source :: "string \<rightharpoonup> provenance"

definition sourceOf :: "'a option \<Rightarrow> 'b option \<Rightarrow> provenance option" where
  "sourceOf ovr base = (if ovr \<noteq> None then Some FromOverride else if base \<noteq> None then Some FromProfile else None)"

definition resolveMtp :: "bool option \<Rightarrow> mtp_rec option \<Rightarrow> mtp_rec option" where
  "resolveMtp ovr base =
     (case ovr of
        None \<Rightarrow> base
      | Some False \<Rightarrow> None
      | Some True \<Rightarrow>
          (case base of
             None \<Rightarrow> Some \<lparr>mt_apply = True, mt_draftNMax = 3, mt_draftPMin = 1 / 2\<rparr>
           | Some m \<Rightarrow> Some (m\<lparr>mt_apply := True\<rparr>)))"

definition resolve :: "tune_profile \<Rightarrow> tune_override \<Rightarrow> effective" where
  "resolve base ovr =
     (let fl = tp_flags base
      in \<lparr>ef_enabled = (case ov_enabled ovr of Some b \<Rightarrow> b | None \<Rightarrow> True),
          ef_profile = base\<lparr>
            tp_flags := \<lparr>tf_flashAttn = (if ov_flashAttn ovr \<noteq> None then ov_flashAttn ovr else tf_flashAttn fl),
                         tf_parallel = (if ov_parallel ovr \<noteq> None then ov_parallel ovr else tf_parallel fl)\<rparr>,
            tp_mtp := resolveMtp (ov_mtp ovr) (tp_mtp base)\<rparr>,
          ef_extraArgs = ov_extraArgs ovr,
          ef_source = (\<lambda>k.
            if k = ''flash_attn'' then sourceOf (ov_flashAttn ovr) (tf_flashAttn fl)
            else if k = ''parallel'' then sourceOf (ov_parallel ovr) (tf_parallel fl)
            else if k = ''mtp'' then sourceOf (ov_mtp ovr) (tp_mtp base) else None)\<rparr>)"

subsection \<open>Injection of flags (apply.go)\<close>

definition flagAliases :: "string \<Rightarrow> string list" where
  "flagAliases canonical =
     (if canonical = ''--flash-attn'' then [''--flash-attn'', ''-fa'']
      else if canonical = ''--parallel'' then [''--parallel'', ''-np'']
      else [canonical])"

text \<open>\<open>tok == a || strings.HasPrefix(tok, a+"=")\<close>.\<close>

definition namesFlag :: "string \<Rightarrow> string \<Rightarrow> bool" where
  "namesFlag a tok = (tok = a \<or> hasPrefix tok (a @ ''=''))"

definition hasFlag :: "string list \<Rightarrow> string \<Rightarrow> bool" where
  "hasFlag tokens canonical = list_ex (\<lambda>tok. list_ex (\<lambda>a. namesFlag a tok) (flagAliases canonical)) tokens"

definition containsToken :: "string list \<Rightarrow> string \<Rightarrow> bool" where
  "containsToken s tok = list_ex (namesFlag tok) s"

text \<open>\<open>strings.Cut(arg, "=")\<close>: the part before the first \<open>=\<close>, and whether there is one.\<close>

definition flagName :: "string \<Rightarrow> string" where
  "flagName arg = takeWhile (\<lambda>c. c \<noteq> CHR ''='') arg"

definition hasEq :: "string \<Rightarrow> bool" where
  "hasEq arg = (CHR ''='' \<in> set arg)"

definition isDash :: "string \<Rightarrow> bool" where
  "isDash arg = hasPrefix arg ''-''"

definition recommend :: "string list \<Rightarrow> string \<Rightarrow> string option \<Rightarrow> string list" where
  "recommend tokens flag v =
     (case v of Some x \<Rightarrow> if hasFlag tokens flag then [] else [flag, x] | None \<Rightarrow> [])"

definition specFlags :: "string list \<Rightarrow> string \<Rightarrow> int \<Rightarrow> rat \<Rightarrow> string list" where
  "specFlags tokens kind nMax pMin =
     (if hasFlag tokens ''--spec-type'' then []
      else [''--spec-type'', kind]
           @ (if nMax > 0 then [''--spec-draft-n-max'', itoa nMax] else [])
           @ (if pMin > 0 then [''--draft-p-min'', ftoa pMin] else []))"

definition profileFlags :: "string list \<Rightarrow> tune_profile \<Rightarrow> bool \<Rightarrow> bool \<Rightarrow> string list" where
  "profileFlags tokens p isMTP isDFlash =
     recommend tokens ''--flash-attn'' (map_option (\<lambda>on. if on then ''on'' else ''off'') (tf_flashAttn (tp_flags p)))
     @ recommend tokens ''--parallel'' (map_option itoa (tf_parallel (tp_flags p)))
     @ (case tp_mtp p of
          Some m \<Rightarrow> if isMTP \<and> mt_apply m then specFlags tokens ''draft-mtp'' (mt_draftNMax m) (mt_draftPMin m) else []
        | None \<Rightarrow> [])
     @ (case tp_dflash p of
          Some d \<Rightarrow> if isDFlash \<and> df_apply d then specFlags tokens ''draft-dflash'' (df_draftNMax d) (df_draftPMin d) else []
        | None \<Rightarrow> [])"

text \<open>A skipped flag takes the value token behind it along.\<close>

definition afterSkip :: "string \<Rightarrow> string list \<Rightarrow> string list" where
  "afterSkip arg rest =
     (case rest of v # vs \<Rightarrow> if \<not> hasEq arg \<and> \<not> isDash v then vs else rest | [] \<Rightarrow> [])"

lemma afterSkip_length: "length (afterSkip arg rest) \<le> length rest"
  by (simp add: afterSkip_def split: list.split)

lemma afterSkip_set: "set (afterSkip arg rest) \<subseteq> set rest"
  by (auto simp: afterSkip_def split: list.splits if_splits)

lemma afterSkip_dash: "isDash a \<Longrightarrow> a \<in> set (afterSkip arg rest) \<longleftrightarrow> a \<in> set rest"
  by (cases rest) (auto simp: afterSkip_def)

text \<open>The loop over the extra arguments; the accumulator is \<open>add\<close>.\<close>

function extraLoop :: "string list \<Rightarrow> string list \<Rightarrow> string list \<Rightarrow> string list" where
  "extraLoop tokens add [] = add"
| "extraLoop tokens add (arg # rest) =
     (if isDash arg \<and> (hasFlag tokens (flagName arg) \<or> containsToken add (flagName arg))
      then extraLoop tokens add (afterSkip arg rest)
      else extraLoop tokens (add @ [arg]) rest)"
  by pat_completeness auto
termination
  by (relation "measure (\<lambda>(_, _, ex). length ex)") (simp_all add: le_imp_less_Suc afterSkip_length)

definition addedFlags :: "string list \<Rightarrow> tune_profile \<Rightarrow> bool \<Rightarrow> bool \<Rightarrow> string list \<Rightarrow> string list" where
  "addedFlags tokens p isMTP isDFlash extraArgs =
     extraLoop tokens (profileFlags tokens p isMTP isDFlash) extraArgs"

definition applyProfile :: "string \<Rightarrow> tune_profile \<Rightarrow> bool \<Rightarrow> bool \<Rightarrow> string list \<Rightarrow> string" where
  "applyProfile cmd p isMTP isDFlash extraArgs =
     (let add = addedFlags (goFields cmd) p isMTP isDFlash extraArgs
      in if add = [] then cmd
         else if trimB cmd = [] then joinStr '' '' add
         else cmd @ '' '' @ joinStr '' '' add)"

subsection \<open>Injection into the configuration (inject.go)\<close>

record tuning_config =
  tc_useCase :: string
  tc_override :: tune_override

definition toOverride :: "tuning_config option \<Rightarrow> tune_override" where
  "toOverride tc = (case tc of None \<Rightarrow> noOverride | Some t \<Rightarrow> tc_override t)"

definition tuningGloballyDisabled :: "tuning_config option \<Rightarrow> bool" where
  "tuningGloballyDisabled tc = (case tc of None \<Rightarrow> False | Some t \<Rightarrow> ov_enabled (tc_override t) = Some False)"

definition useCaseOf :: "tuning_config option \<Rightarrow> string" where
  "useCaseOf tc = (case tc of None \<Rightarrow> [] | Some t \<Rightarrow> tc_useCase t)"

definition hasAnyForcedFlag :: "tune_override \<Rightarrow> bool" where
  "hasAnyForcedFlag ovr =
     (ov_flashAttn ovr \<noteq> None \<or> ov_parallel ovr \<noteq> None \<or> ov_mtp ovr \<noteq> None \<or> ov_extraArgs ovr \<noteq> [])"

text \<open>The environment defaults as an association list in the order of \<open>sort.Strings\<close> on the keys.\<close>

definition backendEnvToInject :: "database \<Rightarrow> tuning_config option \<Rightarrow> bool \<Rightarrow> (string \<times> string) list" where
  "backendEnvToInject db tc isLinux =
     (if \<not> isLinux \<or> tuningGloballyDisabled tc then []
      else if (case tc of Some t \<Rightarrow> ov_backendEnv (tc_override t) = Some False | None \<Rightarrow> False) then []
      else case db_glibc db of Some glibc \<Rightarrow> sort_key fst glibc | None \<Rightarrow> [])"

definition envKey :: "string \<Rightarrow> string" where
  "envKey e = takeWhile (\<lambda>c. c \<noteq> CHR ''='') e"

definition injectEnvDefaults :: "string list \<Rightarrow> (string \<times> string) list \<Rightarrow> string list \<times> bool" where
  "injectEnvDefaults env defaults =
     (let missing = filter (\<lambda>(k, v). k \<notin> envKey ` set env) defaults
      in (env @ map (\<lambda>(k, v). k @ ''='' @ v) missing, missing \<noteq> []))"

definition effectiveFor :: "string list \<Rightarrow> database \<Rightarrow> string \<Rightarrow> tuning_config option \<Rightarrow> effective \<times> string \<times> bool" where
  "effectiveFor order db detectedGfx tc =
     (let ovr = toOverride tc;
          gfx = (if ov_gfxTarget ovr \<noteq> [] then ov_gfxTarget ovr else detectedGfx)
      in case lookupTuning order db gfx (useCaseOf tc) of
           Some base \<Rightarrow> (resolve base ovr, gfx, True)
         | None \<Rightarrow>
             if hasAnyForcedFlag ovr then (resolve zeroProfile ovr, gfx, True)
             else (\<lparr>ef_enabled = False, ef_profile = zeroProfile, ef_extraArgs = [], ef_source = Map.empty\<rparr>, gfx, False))"

datatype meta_val = MBool bool | MMap "(string \<times> meta_val) list" | MOther

definition metadataMTPEnabled :: "(string \<times> meta_val) list \<Rightarrow> bool" where
  "metadataMTPEnabled md =
     (case map_of md ''mtp'' of
        Some (MMap mtp) \<Rightarrow> (case map_of mtp ''enabled'' of Some (MBool b) \<Rightarrow> b | _ \<Rightarrow> False)
      | _ \<Rightarrow> False)"

record tuned_model =
  tm_cmd :: string
  tm_backend :: string
  tm_env :: "string list"
  tm_metadata :: "(string \<times> meta_val) list"
  tm_draftModelPath :: string
  tm_originalCmd :: string

definition isLlamaCPP :: "string \<Rightarrow> bool" where
  "isLlamaCPP backend = (backend = [] \<or> backend = ''llamacpp'')"

definition tuneModel :: "effective option \<Rightarrow> (string \<times> string) list \<Rightarrow> tuned_model \<Rightarrow> tuned_model" where
  "tuneModel eff envDefaults mc =
     (if \<not> isLlamaCPP (tm_backend mc) then mc
      else
        let mc1 = (case eff of
                None \<Rightarrow> mc
              | Some e \<Rightarrow>
                  let tuned = applyProfile (tm_cmd mc) (ef_profile e)
                         (isMTPModel (tm_cmd mc) (metadataMTPEnabled (tm_metadata mc)))
                         (tm_draftModelPath mc \<noteq> []) (ef_extraArgs e)
                  in if tuned \<noteq> tm_cmd mc then mc\<lparr>tm_originalCmd := tm_cmd mc, tm_cmd := tuned\<rparr> else mc)
        in if envDefaults \<noteq> [] then mc1\<lparr>tm_env := fst (injectEnvDefaults (tm_env mc1) envDefaults)\<rparr> else mc1)"

text \<open>Each model is rewritten independently, so the order of the iteration over the map does not matter.\<close>

definition applyToConfig ::
  "string list \<Rightarrow> database \<Rightarrow> bool \<Rightarrow> string \<Rightarrow> tuning_config option
     \<Rightarrow> (string \<rightharpoonup> tuned_model) \<Rightarrow> (string \<rightharpoonup> tuned_model)" where
  "applyToConfig order db isLinux detectedGfx tc models =
     (if tuningGloballyDisabled tc then models
      else
        let (e, gfx, ok) = effectiveFor order db detectedGfx tc;
            eff = (if ok \<and> ef_enabled e then Some e else None);
            envDefaults = backendEnvToInject db tc isLinux
        in if eff = None \<and> envDefaults = [] then models
           else (\<lambda>mid. map_option (tuneModel eff envDefaults) (models mid)))"

subsection \<open>The tokens of a tuned command\<close>

lemma fieldsFrom_blank: "isSpaceB c \<Longrightarrow> fieldsFrom cur (s @ c # t) = fieldsFrom cur s @ fieldsFrom [] t"
  by (induction cur s rule: fieldsFrom.induct) simp_all

lemma isSpaceB_blank [simp]: "isSpaceB CHR '' ''"
  by (simp add: isSpaceB_def)

lemma goFields_blank: "goFields (s @ CHR '' '' # t) = goFields s @ goFields t"
  by (simp add: goFields_def fieldsFrom_blank)

lemma trimB_Nil_iff: "trimB s = [] \<longleftrightarrow> list_all isSpaceB s"
proof -
  have "list_all isSpaceB (dropWhile isSpaceB s) \<longleftrightarrow> list_all isSpaceB s" by (induction s) auto
  then show ?thesis by (simp add: trimB_def list_all_iff)
qed

lemma goFields_allSpace: "list_all isSpaceB s \<Longrightarrow> goFields s = []"
  unfolding goFields_def by (induction s) simp_all

lemma applyProfile_tokens:
  assumes "list_all isWord (addedFlags (goFields cmd) p m d ex)"
  shows "goFields (applyProfile cmd p m d ex) = goFields cmd @ addedFlags (goFields cmd) p m d ex"
  using assms
  by (auto simp: applyProfile_def Let_def goFields_blank fields_join trimB_Nil_iff goFields_allSpace)

lemma words_literal:
  "isWord ''--flash-attn''" "isWord ''on''" "isWord ''off''" "isWord ''--parallel''" "isWord ''--spec-type''"
  "isWord ''draft-mtp''" "isWord ''draft-dflash''" "isWord ''--spec-draft-n-max''" "isWord ''--draft-p-min''"
  by code_simp+

lemma profileFlags_words: "list_all isWord (profileFlags tokens p m d)"
  by (auto simp: profileFlags_def recommend_def specFlags_def words_literal itoa_word ftoa_word split: option.splits)

lemma extraLoop_set: "set (extraLoop tokens add ex) \<subseteq> set add \<union> set ex"
proof (induction tokens add ex rule: extraLoop.induct)
  case (2 tokens add arg rest)
  then show ?case using afterSkip_set [of arg rest] by (auto split: if_splits)
qed simp

lemma addedFlags_words: "list_all isWord ex \<Longrightarrow> list_all isWord (addedFlags tokens p m d ex)"
  using profileFlags_words [of tokens p m d] extraLoop_set [of tokens _ ex]
  by (fastforce simp: addedFlags_def list_all_iff)

lemma extraLoop_keeps: "\<exists>r. extraLoop tokens add ex = add @ r"
  by (induction tokens add ex rule: extraLoop.induct) auto

lemma containsToken_append [simp]: "containsToken (s @ t) n \<longleftrightarrow> containsToken s n \<or> containsToken t n"
  by (simp add: containsToken_def)

lemma hasFlag_append [simp]: "hasFlag (s @ t) n \<longleftrightarrow> hasFlag s n \<or> hasFlag t n"
  by (simp add: hasFlag_def)

lemma aliases_self [simp]: "n \<in> set (flagAliases n)"
  by (simp add: flagAliases_def)

lemma containsToken_hasFlag: "containsToken s n \<Longrightarrow> hasFlag s n"
  unfolding containsToken_def hasFlag_def list_ex_iff using aliases_self by blast

lemma namesFlag_flagName: "namesFlag (flagName arg) arg"
proof (cases "CHR ''='' \<in> set arg")
  case True
  then obtain a b where ab: "arg = a @ CHR ''='' # b" and a: "CHR ''='' \<notin> set a" by (meson split_list_first)
  have "flagName (a @ CHR ''='' # b) = a" unfolding flagName_def
    using a by (subst takeWhile_append2) auto
  then show ?thesis using ab by (simp add: namesFlag_def hasPrefix_iff)
next
  case False
  then have "flagName arg = arg" by (auto simp: flagName_def takeWhile_eq_all_conv)
  then show ?thesis by (simp add: namesFlag_def)
qed

text \<open>After the loop every flag of the extra arguments is set, by the command or by the addition.\<close>

lemma extraLoop_covers:
  "arg \<in> set ex \<Longrightarrow> isDash arg \<Longrightarrow>
     hasFlag tokens (flagName arg) \<or> containsToken (extraLoop tokens add ex) (flagName arg)"
proof (induction tokens add ex rule: extraLoop.induct)
  case (2 tokens add a rest)
  have keep: "containsToken add n \<Longrightarrow> containsToken (extraLoop tokens add xs) n" for n xs
    using extraLoop_keeps [of tokens add xs] by (metis containsToken_append)
  have keep1: "containsToken (extraLoop tokens (add @ [a]) rest) (flagName a)"
    using extraLoop_keeps [of tokens "add @ [a]" rest] namesFlag_flagName [of a]
    by (auto simp: containsToken_def)
  show ?case
  proof (cases "isDash a \<and> (hasFlag tokens (flagName a) \<or> containsToken add (flagName a))")
    case True
    then show ?thesis using 2(1,3,4) keep [of "flagName a" "afterSkip a rest"]
      by (cases "arg = a") (auto simp: afterSkip_dash)
  next
    case False
    then show ?thesis using 2(2,3,4) keep1 by auto
  qed
qed simp

subsection \<open>Re-applying a profile\<close>

text \<open>The extra arguments are flags, each with at most one value behind it, and none behind a
  \<open>--flag=value\<close>.\<close>

fun flagsWithValues :: "bool \<Rightarrow> string list \<Rightarrow> bool" where
  "flagsWithValues mayVal [] = True"
| "flagsWithValues mayVal (a # rest) =
     (if isDash a then flagsWithValues (\<not> hasEq a) rest else mayVal \<and> flagsWithValues False rest)"

lemma flagsWithValues_skip:
  "isDash a \<Longrightarrow> flagsWithValues False (a # rest) \<Longrightarrow> flagsWithValues False (afterSkip a rest)"
  by (cases rest) (auto simp: afterSkip_def split: if_splits)

lemma extraLoop_none:
  "(\<And>a. a \<in> set ex \<Longrightarrow> isDash a \<Longrightarrow> hasFlag tokens (flagName a)) \<Longrightarrow> flagsWithValues False ex \<Longrightarrow>
     extraLoop tokens [] ex = []"
proof (induction ex rule: measure_induct_rule [of length])
  case (less ex)
  show ?case
  proof (cases ex)
    case (Cons a rest)
    then have d: "isDash a" using less.prems(2) by (auto split: if_splits)
    then have "extraLoop tokens [] (afterSkip a rest) = []"
      using less.prems Cons afterSkip_set [of a rest] afterSkip_length [of a rest]
      by (intro less.IH flagsWithValues_skip) auto
    then show ?thesis using less.prems(1) [of a] Cons d by simp
  qed simp
qed

lemma hasFlag_head [simp]: "hasFlag (n # s) n"
  by (auto simp: hasFlag_def list_ex_iff namesFlag_def intro!: bexI [of _ n])

lemma profileFlags_again: "profileFlags (tokens @ profileFlags tokens p m d @ r) p m d = []"
proof (rule ccontr)
  let ?t = "tokens @ profileFlags tokens p m d @ r"
  assume "\<not> ?thesis"
  then consider (fa) "tf_flashAttn (tp_flags p) \<noteq> None" "\<not> hasFlag ?t ''--flash-attn''"
    | (par) "tf_parallel (tp_flags p) \<noteq> None" "\<not> hasFlag ?t ''--parallel''"
    | (mtp) "\<exists>x. tp_mtp p = Some x \<and> mt_apply x" m "\<not> hasFlag ?t ''--spec-type''"
    | (dfl) "\<exists>x. tp_dflash p = Some x \<and> df_apply x" d "\<not> hasFlag ?t ''--spec-type''"
    unfolding profileFlags_def [of ?t] recommend_def specFlags_def by (auto split: option.splits if_splits)
  then show False
    by cases (auto simp: profileFlags_def recommend_def specFlags_def split: option.splits if_splits)
qed

lemma addedFlags_again:
  assumes "flagsWithValues False ex"
  shows "addedFlags (tokens @ addedFlags tokens p m d ex) p m d ex = []"
proof -
  obtain r where r: "addedFlags tokens p m d ex = profileFlags tokens p m d @ r"
    using extraLoop_keeps unfolding addedFlags_def by blast
  then have pf: "profileFlags (tokens @ addedFlags tokens p m d ex) p m d = []" by (simp add: profileFlags_again)
  have "extraLoop (tokens @ addedFlags tokens p m d ex) [] ex = []"
    using extraLoop_covers [of _ ex tokens] containsToken_hasFlag assms
    by (intro extraLoop_none) (fastforce simp: addedFlags_def)+
  then show ?thesis using pf by (subst addedFlags_def) simp
qed

text \<open>
  Applying a tuning profile to a command a second time changes nothing, when every extra argument
  of the operator is a flag with at most one value: the function is idempotent, as its comment says.
\<close>

theorem apply_profile_idempotent:
  assumes "list_all isWord ex" and "flagsWithValues False ex"
  shows "applyProfile (applyProfile cmd p m d ex) p m d ex = applyProfile cmd p m d ex"
  using addedFlags_again [OF assms(2), of "goFields cmd" p m d]
    applyProfile_tokens [OF addedFlags_words [OF assms(1)], of cmd p m d]
  by (simp add: applyProfile_def [of "applyProfile cmd p m d ex"])

text \<open>The entry of the shipped database for gfx1201 (profiles.yaml), without its notes and sources.\<close>

definition gfx1201 :: tune_profile where
  "gfx1201 = zeroProfile\<lparr>tp_gfx := ''gfx1201'', tp_useCase := ''agentic-single'', tp_verified := True,
     tp_flags := \<lparr>tf_flashAttn = Some True, tf_parallel = Some 1\<rparr>,
     tp_mtp := Some \<lparr>mt_apply = True, mt_draftNMax = 3, mt_draftPMin = 1 / 2\<rparr>,
     tp_deviceIDs := [''0x7550'', ''0x7551'', ''0x7448'', ''0x7449'']\<rparr>"

theorem apply_profile_idempotent_witness:
  "applyProfile (applyProfile ''llama-server -m a.gguf'' gfx1201 True False [''--top-k'', ''20'', ''--jinja''])
     gfx1201 True False [''--top-k'', ''20'', ''--jinja'']
   = applyProfile ''llama-server -m a.gguf'' gfx1201 True False [''--top-k'', ''20'', ''--jinja'']"
  by (rule apply_profile_idempotent; code_simp)

text \<open>
  The comment's claim has no such restriction, and without it idempotence fails: an extra argument
  with two values loses its flag the second time and gets its second value appended again.
\<close>

theorem apply_profile_not_idempotent:
  "applyProfile ''s'' zeroProfile False False [''--lora-scaled'', ''a.gguf'', ''0.5''] = ''s --lora-scaled a.gguf 0.5''
   \<and> applyProfile ''s --lora-scaled a.gguf 0.5'' zeroProfile False False [''--lora-scaled'', ''a.gguf'', ''0.5'']
     = ''s --lora-scaled a.gguf 0.5 0.5''"
  by code_simp

lemma literal_not_num:
  "\<not> list_all numCh ''--flash-attn''" "\<not> list_all numCh ''--parallel''" "\<not> list_all numCh ''--spec-type''"
  by code_simp+

lemma literal_names:
  "flagName ''--flash-attn'' = ''--flash-attn''" "flagName ''--parallel'' = ''--parallel''"
  "flagName ''--spec-type'' = ''--spec-type''" "\<not> isDash ''on''" "\<not> isDash ''off''" "\<not> isDash ''draft-mtp''"
  "\<not> isDash ''draft-dflash''"
  by code_simp+

lemma itoa_num: "list_all numCh (itoa n)"
  using natText_num by (auto simp: itoa_def numCh_def)

lemma fmtG_num: "list_all numCh (fmtG x)"
proof -
  obtain c n where cn: "shortestDigits 17 1 x (decPoint 400 x) = (c, n)" by fastforce
  have "list_all numCh (stripZeros (natText (nat c)))"
    using natText_num [of "nat c"] stripZeros_sub by (force simp: list_all_iff)
  then show ?thesis using fmtE_num fmtF_num unfolding fmtG_def cn Let_def by simp
qed

lemma ftoa_num: "list_all numCh (ftoa x)"
  using fmtG_num by (auto simp: ftoa_def) (simp_all add: numCh_def)

lemma recommend_mem: "a \<in> set (recommend tokens flag v) \<Longrightarrow> a = flag \<and> \<not> hasFlag tokens flag \<or> v = Some a"
  by (auto simp: recommend_def split: option.splits if_splits)

lemma specFlags_mem:
  "a \<in> set (specFlags tokens kind n q) \<Longrightarrow>
     a = ''--spec-type'' \<and> \<not> hasFlag tokens ''--spec-type'' \<or> a = kind \<or> a = ''--spec-draft-n-max''
     \<or> a = ''--draft-p-min'' \<or> list_all numCh a"
  unfolding specFlags_def using itoa_num [of n] ftoa_num [of q] by (simp split: if_splits) blast+

lemma profileFlags_wins:
  assumes a: "a \<in> set (profileFlags tokens p m d)" "isDash a" "\<not> list_all numCh a"
    "a \<noteq> ''--spec-draft-n-max''" "a \<noteq> ''--draft-p-min''"
  shows "\<not> hasFlag tokens (flagName a)"
proof -
  from a(1) consider
      (fa) "a \<in> set (recommend tokens ''--flash-attn'' (map_option (\<lambda>on. if on then ''on'' else ''off'') (tf_flashAttn (tp_flags p))))"
    | (par) "a \<in> set (recommend tokens ''--parallel'' (map_option itoa (tf_parallel (tp_flags p))))"
    | (mtp) n q where "a \<in> set (specFlags tokens ''draft-mtp'' n q)"
    | (dfl) n q where "a \<in> set (specFlags tokens ''draft-dflash'' n q)"
    unfolding profileFlags_def set_append by (cases "tp_mtp p"; cases "tp_dflash p") (auto split: if_splits)
  then show ?thesis
  proof cases
    case fa
    show ?thesis using recommend_mem [OF fa] a(2) literal_names
      by (cases "tf_flashAttn (tp_flags p)") (auto split: if_splits)
  next
    case par
    show ?thesis using recommend_mem [OF par] a(3) itoa_num literal_names
      by (cases "tf_parallel (tp_flags p)") auto
  next
    case mtp
    show ?thesis using specFlags_mem [OF mtp] a literal_names by metis
  next
    case dfl
    show ?thesis using specFlags_mem [OF dfl] a literal_names by metis
  qed
qed

lemma extraLoop_wins:
  assumes "a \<in> set (extraLoop tokens add ex)" and "a \<notin> set add" and "isDash a"
  shows "\<not> hasFlag tokens (flagName a)"
  using assms by (induction tokens add ex rule: extraLoop.induct) (auto split: if_splits)

text \<open>
  The tuned command consists of the tokens of the command followed by added ones, and no added flag,
  recommended or extra, is one that the command already sets, under any spelling of the recommended
  flags. The exceptions are the two draft parameters of the speculative-decoding block.
\<close>

theorem explicit_flags_win:
  assumes "list_all isWord ex"
  shows "\<exists>add. goFields (applyProfile cmd p m d ex) = goFields cmd @ add \<and>
           (\<forall>a \<in> set add. isDash a \<and> \<not> list_all numCh a \<and> a \<notin> {''--spec-draft-n-max'', ''--draft-p-min''}
              \<longrightarrow> \<not> hasFlag (goFields cmd) (flagName a))"
proof (intro exI conjI ballI impI)
  let ?add = "addedFlags (goFields cmd) p m d ex"
  show "goFields (applyProfile cmd p m d ex) = goFields cmd @ ?add"
    by (rule applyProfile_tokens [OF addedFlags_words [OF assms]])
  fix a
  assume "a \<in> set ?add"
    and "isDash a \<and> \<not> list_all numCh a \<and> a \<notin> {''--spec-draft-n-max'', ''--draft-p-min''}"
  then show "\<not> hasFlag (goFields cmd) (flagName a)"
    using profileFlags_wins [of a "goFields cmd" p m d] extraLoop_wins [of a "goFields cmd" _ ex]
    unfolding addedFlags_def by blast
qed

theorem explicit_flags_win_witness:
  "\<exists>add. goFields (applyProfile ''llama-server -fa off'' gfx1201 True False [''--jinja'']) = goFields ''llama-server -fa off'' @ add \<and>
     (\<forall>a \<in> set add. isDash a \<and> \<not> list_all numCh a \<and> a \<notin> {''--spec-draft-n-max'', ''--draft-p-min''}
        \<longrightarrow> \<not> hasFlag (goFields ''llama-server -fa off'') (flagName a))"
  by (rule explicit_flags_win) code_simp

text \<open>
  The exceptions are real. A draft length the command sets itself is appended again with the
  profile's value behind it; a model that is both an MTP model and has a DFlash drafter gets both
  \<open>--spec-type\<close> values; and an operator's \<open>-fa\<close> among the extra arguments is appended although the
  command sets \<open>--flash-attn\<close>.
\<close>

theorem spec_flags_overridden:
  "applyProfile ''s --spec-draft-n-max 8'' gfx1201 True False []
     = ''s --spec-draft-n-max 8 --flash-attn on --parallel 1 --spec-type draft-mtp --spec-draft-n-max 3 --draft-p-min 0.5''
   \<and> applyProfile ''s'' (gfx1201\<lparr>tp_dflash := Some \<lparr>df_apply = True, df_draftNMax = 0, df_draftPMin = 0\<rparr>\<rparr>) True True []
     = ''s --flash-attn on --parallel 1 --spec-type draft-mtp --spec-draft-n-max 3 --draft-p-min 0.5 --spec-type draft-dflash''
   \<and> applyProfile ''s --flash-attn on'' zeroProfile False False [''-fa'', ''off''] = ''s --flash-attn on -fa off''"
  by code_simp

subsection \<open>The merged database\<close>

lemma find_replaceProfile:
  "List.find (\<lambda>p. tp_gfx p = g \<and> tp_useCase p = u) (replaceProfile up ps) =
     (if tp_gfx up = g \<and> tp_useCase up = u then Some up else List.find (\<lambda>p. tp_gfx p = g \<and> tp_useCase p = u) ps)"
  by (induction ps) auto

lemma find_append: "List.find P (xs @ ys) = (case List.find P xs of Some x \<Rightarrow> Some x | None \<Rightarrow> List.find P ys)"
  by (induction xs) auto

lemma find_merged:
  "List.find (\<lambda>p. tp_gfx p = g \<and> tp_useCase p = u) (foldl (\<lambda>ps up. replaceProfile up ps) ps ups) =
     (case List.find (\<lambda>p. tp_gfx p = g \<and> tp_useCase p = u) (rev ups) of
        Some p \<Rightarrow> Some p
      | None \<Rightarrow> List.find (\<lambda>p. tp_gfx p = g \<and> tp_useCase p = u) ps)"
  by (induction ups arbitrary: ps) (auto simp: find_replaceProfile find_append split: option.split)

text \<open>
  A lookup with an explicit use-case in the merged database finds the user's entry, the one that
  comes last in the user's file, and otherwise the shipped one.
\<close>

theorem merged_lookup:
  "lookupTuning order (mergeDb db user) g (c # u) =
     (case List.find (\<lambda>p. tp_gfx p = g \<and> tp_useCase p = c # u) (rev (db_profiles user)) of
        Some p \<Rightarrow> Some p
      | None \<Rightarrow> lookupTuning order db g (c # u))"
  unfolding lookupTuning_def Let_def by (simp add: mergeDb_def find_merged)

definition shippedDb :: database where
  "shippedDb = \<lparr>db_version = 1,
     db_useCases = [''agentic-single'' \<mapsto> \<lparr>uc_description = ''One request at a time'', uc_default = True\<rparr>],
     db_glibc = Some [(''MALLOC_MMAP_THRESHOLD_'', ''65536''), (''MALLOC_TRIM_THRESHOLD_'', ''65536'')],
     db_profiles = [gfx1201]\<rparr>"

definition batchDb :: database where
  "batchDb = \<lparr>db_version = 1, db_useCases = [''batch'' \<mapsto> \<lparr>uc_description = ''Many requests'', uc_default = True\<rparr>],
     db_glibc = None, db_profiles = [gfx1201\<lparr>tp_useCase := ''batch'', tp_flags := \<lparr>tf_flashAttn = Some True, tf_parallel = Some 8\<rparr>\<rparr>]\<rparr>"

text \<open>
  When a user's file declares a default use-case of its own, the shipped default stays a default
  too, and the profile that a lookup without a use-case finds depends on the order in which Go iterates
  the map of use-cases: the same merged database answers with either of the two.
\<close>

theorem default_use_case_ambiguous:
  "map_option tp_useCase (lookupTuning [''agentic-single'', ''batch''] (mergeDb shippedDb batchDb) ''gfx1201'' []) = Some ''agentic-single''
   \<and> map_option tp_useCase (lookupTuning [''batch'', ''agentic-single''] (mergeDb shippedDb batchDb) ''gfx1201'' []) = Some ''batch''"
  by code_simp

subsection \<open>The tuned configuration\<close>

lemma injectEnv_prefix: "\<exists>r. fst (injectEnvDefaults env ds) = env @ r"
  by (simp add: injectEnvDefaults_def Let_def)

lemma envKey_pair: "CHR ''='' \<notin> set k \<Longrightarrow> envKey (k @ CHR ''='' # v) = k"
  unfolding envKey_def by (subst takeWhile_append2) auto

lemma filter_known: "fst ` set ds \<subseteq> K \<Longrightarrow> filter (\<lambda>(k, v). k \<notin> K) ds = []"
  by (force simp: filter_empty_conv)

text \<open>
  Injecting the environment defaults keeps the model's own variables, in front and unchanged, makes
  every default's key present, adds nothing for a key that was there, and does nothing the second time.
\<close>

theorem env_defaults:
  assumes "\<forall>(k, v) \<in> set ds. CHR ''='' \<notin> set k"
  shows "(let (env', added) = injectEnvDefaults env ds in
            take (length env) env' = env
          \<and> fst ` set ds \<subseteq> envKey ` set env'
          \<and> (\<forall>e \<in> set (drop (length env) env'). envKey e \<in> fst ` set ds - envKey ` set env)
          \<and> injectEnvDefaults env' ds = (env', False))"
proof -
  let ?m = "filter (\<lambda>(k, v). k \<notin> envKey ` set env) ds"
  let ?r = "map (\<lambda>(k, v). k @ ''='' @ v) ?m"
  have key: "envKey (k @ ''='' @ v) = k" if "(k, v) \<in> set ds" for k v
    using assms that envKey_pair by fastforce
  have r: "envKey ` set ?r = fst ` set ?m" unfolding set_map image_image
    by (rule image_cong) (auto simp: key simp del: append_Cons)
  have inj: "injectEnvDefaults env ds = (env @ ?r, ?m \<noteq> [])" by (simp add: injectEnvDefaults_def Let_def)
  have m: "fst ` set ?m = fst ` set ds - envKey ` set env" by force
  have keys: "envKey ` set (env @ ?r) = envKey ` set env \<union> fst ` set ds" by (simp only: set_append image_Un r m) blast
  then have "filter (\<lambda>(k, v). k \<notin> envKey ` set (env @ ?r)) ds = []" by (intro filter_known) blast
  then have again: "injectEnvDefaults (env @ ?r) ds = (env @ ?r, False)"
    unfolding injectEnvDefaults_def Let_def by simp
  have new: "envKey e \<in> fst ` set ds - envKey ` set env" if "e \<in> set ?r" for e
    using imageI [OF that, of envKey] unfolding m [symmetric] r .
  show ?thesis unfolding inj Let_def prod.case again keys using new by simp
qed

theorem env_defaults_witness:
  "(let (env', added) = injectEnvDefaults [''MALLOC_TRIM_THRESHOLD_=1'', ''A=B''] [(''MALLOC_TRIM_THRESHOLD_'', ''65536''), (''Z'', ''1'')] in
      take (length [''MALLOC_TRIM_THRESHOLD_=1'', ''A=B'']) env' = [''MALLOC_TRIM_THRESHOLD_=1'', ''A=B'']
    \<and> fst ` set [(''MALLOC_TRIM_THRESHOLD_'', ''65536''), (''Z'', ''1'')] \<subseteq> envKey ` set env'
    \<and> (\<forall>e \<in> set (drop (length [''MALLOC_TRIM_THRESHOLD_=1'', ''A=B'']) env').
         envKey e \<in> fst ` set [(''MALLOC_TRIM_THRESHOLD_'', ''65536''), (''Z'', ''1'')] - envKey ` set [''MALLOC_TRIM_THRESHOLD_=1'', ''A=B''])
    \<and> injectEnvDefaults env' [(''MALLOC_TRIM_THRESHOLD_'', ''65536''), (''Z'', ''1'')] = (env', False))"
  by (rule env_defaults) simp

lemma applyProfile_extends:
  "applyProfile cmd p m d ex = cmd \<or> trimB cmd = [] \<or> (\<exists>r. applyProfile cmd p m d ex = cmd @ r)"
  by (simp add: applyProfile_def Let_def)

lemma tuneModel_frame:
  "tm_backend (tuneModel eff ds mc) = tm_backend mc" "tm_metadata (tuneModel eff ds mc) = tm_metadata mc"
  "tm_draftModelPath (tuneModel eff ds mc) = tm_draftModelPath mc"
  "\<exists>r. tm_env (tuneModel eff ds mc) = tm_env mc @ r"
  using injectEnv_prefix by (auto simp: tuneModel_def Let_def split: option.split)

lemma tuneModel_cmd:
  "tm_cmd (tuneModel eff ds mc) = tm_cmd mc \<and> tm_originalCmd (tuneModel eff ds mc) = tm_originalCmd mc
   \<or> tm_originalCmd (tuneModel eff ds mc) = tm_cmd mc \<and>
       (trimB (tm_cmd mc) = [] \<or> (\<exists>r. tm_cmd (tuneModel eff ds mc) = tm_cmd mc @ r))"
proof (cases eff)
  case (Some e)
  then show ?thesis
    using applyProfile_extends [of "tm_cmd mc" "ef_profile e"
        "isMTPModel (tm_cmd mc) (metadataMTPEnabled (tm_metadata mc))" "tm_draftModelPath mc \<noteq> []" "ef_extraArgs e"]
    by (auto simp: tuneModel_def Let_def)
qed (simp add: tuneModel_def Let_def)

lemma applyToConfig_at:
  "applyToConfig order db isLinux gfx tc models mid =
     (if tuningGloballyDisabled tc then models mid
      else let (e, g, ok) = effectiveFor order db gfx tc in
        map_option (tuneModel (if ok \<and> ef_enabled e then Some e else None) (backendEnvToInject db tc isLinux)) (models mid))"
proof -
  have "tuneModel None [] = id" by (auto simp: tuneModel_def)
  then show ?thesis by (auto simp: applyToConfig_def Let_def option.map_id split: prod.splits)
qed

text \<open>
  Tuning a configuration adds and removes no model and never touches the backend, the metadata or the
  drafter of one. A model is left alone, or tuning is not disabled and it is a llama.cpp model, its
  environment is extended at the end, and its command is unchanged or extended at the end, the command
  before the extension being kept as the original.
\<close>

theorem tuning_extends_config:
  "case applyToConfig order db isLinux gfx tc models mid of
     None \<Rightarrow> models mid = None
   | Some mc' \<Rightarrow> (\<exists>mc. models mid = Some mc \<and>
       (mc' = mc \<or>
        \<not> tuningGloballyDisabled tc \<and> isLlamaCPP (tm_backend mc) \<and>
        tm_backend mc' = tm_backend mc \<and> tm_metadata mc' = tm_metadata mc \<and>
        tm_draftModelPath mc' = tm_draftModelPath mc \<and> (\<exists>r. tm_env mc' = tm_env mc @ r) \<and>
        (tm_cmd mc' = tm_cmd mc \<and> tm_originalCmd mc' = tm_originalCmd mc
         \<or> tm_originalCmd mc' = tm_cmd mc \<and> (trimB (tm_cmd mc) = [] \<or> (\<exists>r. tm_cmd mc' = tm_cmd mc @ r)))))"
proof (cases "models mid")
  case (Some mc)
  have "tuneModel eff ds mc = mc \<or> isLlamaCPP (tm_backend mc)" for eff ds
    by (simp add: tuneModel_def)
  then show ?thesis using Some tuneModel_frame [of _ _ mc] tuneModel_cmd [of _ _ mc]
    by (auto simp: applyToConfig_at split: prod.splits)
qed (simp add: applyToConfig_at split: prod.splits)

end
