(* ===== verification/Keyed_Store.thy ===== *)
theory Keyed_Store
  imports Skein_Prelude
begin

text \<open>
  The interface of a store of values under keys: what a read returns after a write or a deletion. Two
  parts of the program keep such a store in a sequence and edit it in place, the arguments of a launch
  command (\<open>Cmd_Flags\<close>) and a mapping of a YAML file (\<open>Config_Edit\<close>); both interpret it.
\<close>

text \<open>An edit is a write or a deletion.\<close>

definition oneEdit :: "('k \<Rightarrow> 'v \<Rightarrow> 's \<Rightarrow> 's) \<Rightarrow> ('k \<Rightarrow> 's \<Rightarrow> 's) \<Rightarrow> 's \<Rightarrow> 'k \<times> 'v option \<Rightarrow> 's" where
  "oneEdit put del s x = (case snd x of Some v \<Rightarrow> put (fst x) v s | None \<Rightarrow> del (fst x) s)"

definition okEdit :: "('k \<Rightarrow> bool) \<Rightarrow> ('v \<Rightarrow> bool) \<Rightarrow> 'k \<times> 'v option \<Rightarrow> bool" where
  "okEdit key val x = (key (fst x) \<and> (case snd x of Some v \<Rightarrow> val v | None \<Rightarrow> True))"

locale keyed_store =
  fixes inv :: "'s \<Rightarrow> bool"
    and key :: "'k \<Rightarrow> bool"
    and val :: "'v \<Rightarrow> bool"
    and get :: "'k \<Rightarrow> 's \<Rightarrow> 'v option"
    and put :: "'k \<Rightarrow> 'v \<Rightarrow> 's \<Rightarrow> 's"
    and del :: "'k \<Rightarrow> 's \<Rightarrow> 's"
  assumes inv_put: "inv s \<Longrightarrow> key k \<Longrightarrow> val v \<Longrightarrow> inv (put k v s)"
    and inv_del: "inv s \<Longrightarrow> key k \<Longrightarrow> inv (del k s)"
    and get_put_same: "inv s \<Longrightarrow> key k \<Longrightarrow> val v \<Longrightarrow> get k (put k v s) = Some v"
    and get_put_other: "inv s \<Longrightarrow> key k \<Longrightarrow> key j \<Longrightarrow> val v \<Longrightarrow> j \<noteq> k \<Longrightarrow> get j (put k v s) = get j s"
    and get_del_same: "inv s \<Longrightarrow> key k \<Longrightarrow> get k (del k s) = None"
    and get_del_other: "inv s \<Longrightarrow> key k \<Longrightarrow> key j \<Longrightarrow> j \<noteq> k \<Longrightarrow> get j (del k s) = get j s"
begin

lemma get_put: "inv s \<Longrightarrow> key k \<Longrightarrow> key j \<Longrightarrow> val v \<Longrightarrow> get j (put k v s) = (if j = k then Some v else get j s)"
  by (simp add: get_put_same get_put_other)

lemma get_del: "inv s \<Longrightarrow> key k \<Longrightarrow> key j \<Longrightarrow> get j (del k s) = (if j = k then None else get j s)"
  by (simp add: get_del_same get_del_other)

lemma oneEdit_inv: "okEdit key val x \<Longrightarrow> inv s \<Longrightarrow> inv (oneEdit put del s x)"
  by (auto simp: okEdit_def oneEdit_def intro: inv_put inv_del split: option.splits)

lemma oneEdit_get:
  "okEdit key val x \<Longrightarrow> inv s \<Longrightarrow> key j \<Longrightarrow> get j (oneEdit put del s x) = (if j = fst x then snd x else get j s)"
  by (auto simp: okEdit_def oneEdit_def get_put get_del split: option.splits)

lemma edits_inv: "list_all (okEdit key val) es \<Longrightarrow> inv s \<Longrightarrow> inv (foldl (oneEdit put del) s es)"
  by (induction es arbitrary: s) (simp_all add: oneEdit_inv)

text \<open>A sequence of edits leaves the value of the last one.\<close>

lemma edits_get:
  "list_all (okEdit key val) es \<Longrightarrow> inv s \<Longrightarrow> key j \<Longrightarrow>
     get j (foldl (oneEdit put del) s es) = (case map_of (rev es) j of Some e \<Rightarrow> e | None \<Rightarrow> get j s)"
  by (induction es arbitrary: s) (auto simp: oneEdit_inv oneEdit_get map_add_def split: option.splits)

end

end
