(* ===== verification/Cmd_Flags.thy ===== *)
theory Cmd_Flags
  imports Placement Tuning Keyed_Store
begin

text \<open>
  Launch commands as flag lists: the backend-neutral offload settings (\<open>internal/offload\<close>), the command
  editors of \<open>internal/server/confighelpers.go\<close>, the readers of \<open>modelhelpers.go\<close>, \<open>apifit.go\<close> and
  \<open>apiconfig.go\<close>, the placement tests of \<open>placementguard.go\<close> and the context clamp of \<open>fitguard.go\<close>.

  A command is split into arguments by the third-party shlex package: the splitter is the parameter
  \<open>split\<close>. What is proved about it needs at most that plain words joined by blanks are split into these
  words again.
\<close>

subsection \<open>Splitting a command (config.go)\<close>

definition commandLines :: "string \<Rightarrow> string list" where
  "commandLines cmd =
     concat (map (\<lambda>line.
       let trimmed = trimB line in
       if hasPrefix trimmed ''#'' then []
       else case cutSuffix trimmed [CHR 92] of Some r \<Rightarrow> [r @ '' ''] | None \<Rightarrow> [line])
     (splitOn newline cmd))"

definition sanitizeCommand :: "(string \<Rightarrow> string list) \<Rightarrow> string \<Rightarrow> string list option" where
  "sanitizeCommand split cmd =
     (let args = split (joinWith newline (commandLines cmd)) in if args = [] then None else Some args)"

definition stripComments :: "string \<Rightarrow> string" where
  "stripComments cmd =
     joinWith newline (filter (\<lambda>line. \<not> hasPrefix (trimB line) ''#'') (splitOn newline cmd))"

subsection \<open>Offload settings (offload.go)\<close>

record off_spec =
  os_nCpuMoe :: "int option"
  os_cpuMoe :: "bool option"
  os_cpuOffloadGB :: "int option"
  os_overrideTensor :: "string option"

definition noSpec :: off_spec where
  "noSpec = \<lparr>os_nCpuMoe = None, os_cpuMoe = None, os_cpuOffloadGB = None, os_overrideTensor = None\<rparr>"

definition specEmpty :: "off_spec \<Rightarrow> bool" where
  "specEmpty s = (os_nCpuMoe s = None \<and> os_cpuMoe s = None \<and> os_cpuOffloadGB s = None \<and> os_overrideTensor s = None)"

datatype translator = LlamaCppTranslator | VllmTranslator | MlxTranslator

definition translatorFor :: "string \<Rightarrow> translator" where
  "translatorFor backend =
     (if backend = ''mlx'' then MlxTranslator else if backend = ''vllm'' then VllmTranslator else LlamaCppTranslator)"

datatype off_warning = NoCpuOffloadGB | LlamaCppOnly | NoOverrideTensor | MlxIgnores

definition intFlagOp :: "string \<Rightarrow> int option \<Rightarrow> flag_op list" where
  "intFlagOp name v =
     (case v of
        None \<Rightarrow> []
      | Some n \<Rightarrow> [if n > 0 then valueOp name (itoa n) else removeOp name])"

fun translatorOps :: "translator \<Rightarrow> off_spec \<Rightarrow> flag_op list \<times> off_warning list" where
  "translatorOps LlamaCppTranslator s =
     (intFlagOp ''--n-cpu-moe'' (os_nCpuMoe s)
      @ (case os_cpuMoe s of
           None \<Rightarrow> []
         | Some b \<Rightarrow> [(boolOp ''--cpu-moe'')\<lparr>fo_remove := \<not> b\<rparr>])
      @ (case os_overrideTensor s of
           None \<Rightarrow> []
         | Some t \<Rightarrow> [if trimB t \<noteq> [] then valueOp ''--override-tensor'' t else removeOp ''--override-tensor'']),
      if os_cpuOffloadGB s \<noteq> None then [NoCpuOffloadGB] else [])"
| "translatorOps VllmTranslator s =
     (intFlagOp ''--cpu-offload-gb'' (os_cpuOffloadGB s),
      (if os_nCpuMoe s \<noteq> None \<or> os_cpuMoe s \<noteq> None then [LlamaCppOnly] else [])
      @ (if os_overrideTensor s \<noteq> None then [NoOverrideTensor] else []))"
| "translatorOps MlxTranslator s = ([], if specEmpty s then [] else [MlxIgnores])"

definition flagPresent :: "string list \<Rightarrow> string list \<Rightarrow> bool" where
  "flagPresent args names = list_ex (\<lambda>n. n \<in> set args) names"

fun matchNames :: "string \<Rightarrow> string list \<Rightarrow> string list \<Rightarrow> string option" where
  "matchNames a rest [] = None"
| "matchNames a rest (n # ns) =
     (if a = n \<and> rest \<noteq> [] then Some (hd rest)
      else case cutPrefix a (n @ ''='') of Some v \<Rightarrow> Some v | None \<Rightarrow> matchNames a rest ns)"

fun flagStr :: "string list \<Rightarrow> string list \<Rightarrow> string option" where
  "flagStr [] names = None"
| "flagStr (a # rest) names =
     (case matchNames a rest names of Some v \<Rightarrow> Some v | None \<Rightarrow> flagStr rest names)"

definition flagInt :: "string list \<Rightarrow> string list \<Rightarrow> int option" where
  "flagInt args names = (case flagStr args names of Some v \<Rightarrow> parseInt64 (trimB v) | None \<Rightarrow> None)"

fun translatorParse :: "translator \<Rightarrow> string list \<Rightarrow> off_spec" where
  "translatorParse LlamaCppTranslator args =
     noSpec\<lparr>os_nCpuMoe := flagInt args [''--n-cpu-moe'', ''-ncmoe''],
            os_cpuMoe := (if flagPresent args [''--cpu-moe'', ''-cmoe''] then Some True else None),
            os_overrideTensor := flagStr args [''--override-tensor'', ''-ot'']\<rparr>"
| "translatorParse VllmTranslator args = noSpec\<lparr>os_cpuOffloadGB := flagInt args [''--cpu-offload-gb'']\<rparr>"
| "translatorParse MlxTranslator args = noSpec"

subsection \<open>Editing a command (confighelpers.go)\<close>

definition isValidModelID :: "string \<Rightarrow> bool" where
  "isValidModelID mid =
     (mid \<noteq> [] \<and> list_all (\<lambda>c. isUpperCh c \<or> isLowerCh c \<or> isDigitCh c \<or> c \<in> set ''._:/-'') mid)"

definition normalizeCmdFlag :: "string \<Rightarrow> string" where
  "normalizeCmdFlag flag =
     (let f = trimB flag; g = (case cutPrefix f ''--'' of Some r \<Rightarrow> r | None \<Rightarrow> f)
      in ''--'' @ map (\<lambda>c. if c = CHR ''_'' then CHR ''-'' else c) g)"

definition injectCompanionFlags :: "(string \<Rightarrow> string list) \<Rightarrow> string \<Rightarrow> string \<Rightarrow> string \<Rightarrow> string" where
  "injectCompanionFlags split cmd draftPath projectorPath =
     (case sanitizeCommand split cmd of
        None \<Rightarrow> cmd
      | Some parts \<Rightarrow>
          let hasDraft = (''--model-draft'' \<in> set parts); hasProjector = (''--mmproj'' \<in> set parts)
          in if hasDraft \<and> hasProjector then cmd
             else joinStr '' '' (parts
                    @ (if draftPath \<noteq> [] \<and> \<not> hasDraft then [''--model-draft'', draftPath] else [])
                    @ (if projectorPath \<noteq> [] \<and> \<not> hasProjector then [''--mmproj'', projectorPath] else [])))"

fun patchOne :: "string \<Rightarrow> string \<Rightarrow> string list \<Rightarrow> string list" where
  "patchOne flag value [] = [flag, value]"
| "patchOne flag value (p # ps) =
     (if p = flag \<and> ps \<noteq> [] then p # value # tl ps
      else if hasPrefix p (flag @ ''='') then (flag @ ''='' @ value) # ps
      else p # patchOne flag value ps)"

text \<open>The map of flags is an association list with distinct keys. The code looks the value up under the
  normalised name.\<close>

definition patchStep :: "(string \<times> string) list \<Rightarrow> string list \<Rightarrow> string \<Rightarrow> string list" where
  "patchStep flags parts flag =
     (let value = trimB (case map_of flags flag of Some v \<Rightarrow> v | None \<Rightarrow> [])
      in if value = [] then parts else patchOne flag value parts)"

definition patchCommandFlags :: "(string \<Rightarrow> string list) \<Rightarrow> string \<Rightarrow> (string \<times> string) list \<Rightarrow> string option" where
  "patchCommandFlags split cmd flags =
     (case sanitizeCommand split cmd of
        None \<Rightarrow> None
      | Some parts \<Rightarrow>
          Some (joinStr '' '' (foldl (patchStep flags) parts (sort (map (normalizeCmdFlag \<circ> fst) flags)))))"

definition applyOneFlagOp :: "string list \<Rightarrow> flag_op \<Rightarrow> string list" where
  "applyOneFlagOp parts op =
     (let nm = fo_name op; pre = takeWhile (\<lambda>p. \<not> namesFlag nm p) parts
      in case dropWhile (\<lambda>p. \<not> namesFlag nm p) parts of
           [] \<Rightarrow>
             if fo_remove op then parts
             else if fo_boolean op then parts @ [nm] else parts @ [nm, fo_value op]
         | p # post \<Rightarrow>
             let eq = (p \<noteq> nm)
             in if fo_remove op then
                  (if \<not> eq \<and> \<not> fo_boolean op \<and> post \<noteq> [] \<and> \<not> isDash (hd post) then pre @ tl post else pre @ post)
                else if fo_boolean op then parts
                else if eq then pre @ (nm @ ''='' @ fo_value op) # post
                else if post \<noteq> [] then pre @ p # fo_value op # tl post
                else parts @ [fo_value op])"

definition applyFlagOps :: "(string \<Rightarrow> string list) \<Rightarrow> string \<Rightarrow> flag_op list \<Rightarrow> string option" where
  "applyFlagOps split cmd fops =
     (case sanitizeCommand split cmd of
        None \<Rightarrow> None
      | Some parts \<Rightarrow> Some (joinStr '' '' (foldl applyOneFlagOp parts fops)))"

subsection \<open>Reading a command (modelhelpers.go, apifit.go, apiconfig.go)\<close>

fun modelPathArg :: "string list \<Rightarrow> string" where
  "modelPathArg [] = []"
| "modelPathArg (p # ps) =
     (if (p = ''-m'' \<or> p = ''--model'') \<and> ps \<noteq> [] then hd ps
      else case cutPrefix p ''--model='' of Some v \<Rightarrow> v | None \<Rightarrow> modelPathArg ps)"

definition parseModelPath :: "(string \<Rightarrow> string list) \<Rightarrow> string \<Rightarrow> string" where
  "parseModelPath split cmd = (case sanitizeCommand split cmd of None \<Rightarrow> [] | Some parts \<Rightarrow> modelPathArg parts)"

definition commandFlagString :: "string list \<Rightarrow> string list \<Rightarrow> string option" where
  "commandFlagString args names = flagStr args names"

definition parsePositiveInt :: "string \<Rightarrow> int option" where
  "parsePositiveInt v = (case parseInt64 (trimB v) of Some n \<Rightarrow> if n \<le> 0 then None else Some n | None \<Rightarrow> None)"

definition commandFlagInt :: "string list \<Rightarrow> string list \<Rightarrow> int option" where
  "commandFlagInt args names = (case flagStr args names of Some v \<Rightarrow> parsePositiveInt v | None \<Rightarrow> None)"

definition hasCtxSizeFlag :: "(string \<Rightarrow> string list) \<Rightarrow> string \<Rightarrow> bool" where
  "hasCtxSizeFlag split flags =
     (case sanitizeCommand split flags of
        None \<Rightarrow> False
      | Some args \<Rightarrow> commandFlagInt args [''--ctx-size'', ''-c''] \<noteq> None)"

text \<open>\<open>recommended\<close> is the largest context of the host-aware recommendation, 0 when there is none.\<close>

definition buildCmd :: "(string \<Rightarrow> string list) \<Rightarrow> int \<Rightarrow> string \<Rightarrow> string \<Rightarrow> string" where
  "buildCmd split recommended modelPath extraFlags =
     ''llama-server --port ${PORT} --model '' @ modelPath
     @ (if extraFlags \<noteq> [] then '' '' @ trimB extraFlags else [])
     @ (if \<not> hasCtxSizeFlag split extraFlags \<and> recommended > 0 then '' --ctx-size '' @ itoa recommended else [])"

fun parseFlag :: "string list \<Rightarrow> string \<Rightarrow> string" where
  "parseFlag [] flag = []"
| "parseFlag (p # ps) flag = (if p = flag \<and> ps \<noteq> [] then hd ps else parseFlag ps flag)"

datatype spec_type = DraftMtp | DraftDflash

record mtp_meta =
  mm_specType :: "spec_type option"
  mm_draftNMax :: "int option"
  mm_modelDraft :: "string option"

fun scanMTP :: "mtp_meta \<Rightarrow> string list \<Rightarrow> mtp_meta" where
  "scanMTP m (p # v # ps) =
     (if p = ''--spec-type'' then
        scanMTP (if v = ''draft-mtp'' then m\<lparr>mm_specType := Some DraftMtp\<rparr>
                 else if v = ''draft-dflash'' then m\<lparr>mm_specType := Some DraftDflash\<rparr> else m) ps
      else if p = ''--spec-draft-n-max'' then
        scanMTP (case parseInt64 v of Some n \<Rightarrow> m\<lparr>mm_draftNMax := Some n\<rparr> | None \<Rightarrow> m) ps
      else if p = ''--model-draft'' then scanMTP (m\<lparr>mm_modelDraft := Some v\<rparr>) ps
      else scanMTP m (v # ps))"
| "scanMTP m [p] = m"
| "scanMTP m [] = m"

text \<open>\<open>Enabled\<close> is set together with the type.\<close>

definition parseMTPFlags :: "string list \<Rightarrow> mtp_meta option" where
  "parseMTPFlags parts =
     (let m = scanMTP \<lparr>mm_specType = None, mm_draftNMax = None, mm_modelDraft = None\<rparr> parts
      in if mm_specType m = None then None else Some m)"

text \<open>The flags of \<open>GET /api/models/config/{id}\<close>: the last occurrence of a flag wins.\<close>

fun flagsOfParts :: "string list \<Rightarrow> (string \<rightharpoonup> string) \<Rightarrow> (string \<rightharpoonup> string)" where
  "flagsOfParts [] m = m"
| "flagsOfParts [p] m = (if hasPrefix p ''--'' then m(p \<mapsto> ''true'') else m)"
| "flagsOfParts (p # v # ps) m =
     (if \<not> hasPrefix p ''--'' then flagsOfParts (v # ps) m
      else if \<not> hasPrefix v ''--'' then flagsOfParts ps (m(p \<mapsto> v))
      else flagsOfParts (v # ps) (m(p \<mapsto> ''true'')))"

subsection \<open>Placement and context (placementguard.go, fitguard.go)\<close>

definition pinnedPlacementFlags :: "string list" where
  "pinnedPlacementFlags =
     [''--n-gpu-layers'', ''-ngl'', ''--gpu-layers'', ''--n-cpu-moe'', ''-ncmoe'', ''--cpu-moe'', ''-cmoe'',
      ''--override-tensor'', ''-ot'', ''--tensor-split'', ''-ts'']"

definition hasPinnedPlacement :: "string list \<Rightarrow> bool" where
  "hasPinnedPlacement args = list_ex (\<lambda>a. flagName a \<in> set pinnedPlacementFlags) args"

definition serverOnlyFitParamsFlags :: "string list" where
  "serverOnlyFitParamsFlags = [''--port'', ''--host'', ''--api-key'', ''--alias'', ''--timeout'', ''--threads-http'']"

fun fitParamsArgs :: "string list \<Rightarrow> string list" where
  "fitParamsArgs [] = []"
| "fitParamsArgs [a] = (if flagName a \<in> set serverOnlyFitParamsFlags then [] else [a])"
| "fitParamsArgs (a # v # rest) =
     (if flagName a \<notin> set serverOnlyFitParamsFlags then a # fitParamsArgs (v # rest)
      else if \<not> hasEq a \<and> \<not> isDash v then fitParamsArgs rest
      else fitParamsArgs (v # rest))"

text \<open>\<open>None\<close> when no token is rewritten: the command is then returned as it is.\<close>

fun setCtxTokens :: "string \<Rightarrow> string list \<Rightarrow> string list option" where
  "setCtxTokens val [] = None"
| "setCtxTokens val (tok # rest) =
     (if tok = ''--ctx-size'' \<or> tok = ''-c'' then
        (case rest of _ # ps \<Rightarrow> Some (tok # val # ps) | [] \<Rightarrow> None)
      else if hasPrefix tok ''--ctx-size='' then Some ((''--ctx-size='' @ val) # rest)
      else if hasPrefix tok ''-c='' then Some ((''-c='' @ val) # rest)
      else map_option (\<lambda>r. tok # r) (setCtxTokens val rest))"

definition setCtxSizeInCmd :: "string \<Rightarrow> int \<Rightarrow> string" where
  "setCtxSizeInCmd cmd n =
     (case setCtxTokens (itoa n) (goFields cmd) of Some toks \<Rightarrow> joinStr '' '' toks | None \<Rightarrow> cmd)"

subsection \<open>Commands as lists of flags\<close>

text \<open>
  The abstract view of an argument list: bare tokens (positional arguments and boolean flags), flags with
  a value behind them, and flags joined with their value by \<open>=\<close>. It is what the command editors are
  meant to edit; well-formed means that tokens are not read in two ways.
\<close>

datatype cmd_item = Bare string | Spaced string string | Joined string string

fun itemTokens :: "cmd_item \<Rightarrow> string list" where
  "itemTokens (Bare t) = [t]"
| "itemTokens (Spaced f v) = [f, v]"
| "itemTokens (Joined f v) = [f @ ''='' @ v]"

fun itemName :: "cmd_item \<Rightarrow> string" where
  "itemName (Bare t) = t"
| "itemName (Spaced f v) = f"
| "itemName (Joined f v) = f"

fun itemVal :: "cmd_item \<Rightarrow> string option" where
  "itemVal (Bare t) = None"
| "itemVal (Spaced f v) = Some v"
| "itemVal (Joined f v) = Some v"

definition okFlag :: "string \<Rightarrow> bool" where
  "okFlag n = (isDash n \<and> \<not> hasEq n)"

fun wfItem :: "cmd_item \<Rightarrow> bool" where
  "wfItem (Bare t) = (\<not> (isDash t \<and> hasEq t))"
| "wfItem (Spaced f v) = (okFlag f \<and> \<not> isDash v)"
| "wfItem (Joined f v) = okFlag f"

definition renderItems :: "cmd_item list \<Rightarrow> string list" where
  "renderItems items = concat (map itemTokens items)"

fun setItem :: "string \<Rightarrow> string \<Rightarrow> cmd_item list \<Rightarrow> cmd_item list" where
  "setItem n v [] = [Spaced n v]"
| "setItem n v (it # its) =
     (if itemName it = n then (case it of Joined _ _ \<Rightarrow> Joined n v | _ \<Rightarrow> Spaced n v) # its else it # setItem n v its)"

fun delItem :: "string \<Rightarrow> cmd_item list \<Rightarrow> cmd_item list" where
  "delItem n [] = []"
| "delItem n (it # its) = (if itemName it = n then its else it # delItem n its)"

definition itemOf :: "string \<Rightarrow> cmd_item list \<Rightarrow> cmd_item option" where
  "itemOf n items = List.find (\<lambda>it. itemName it = n) items"

definition getItem :: "string \<Rightarrow> cmd_item list \<Rightarrow> string option" where
  "getItem n items = Option.bind (itemOf n items) itemVal"

definition addBare :: "string \<Rightarrow> cmd_item list \<Rightarrow> cmd_item list" where
  "addBare n items = (if itemOf n items = None then items @ [Bare n] else items)"

definition applyItemOp :: "flag_op \<Rightarrow> cmd_item list \<Rightarrow> cmd_item list" where
  "applyItemOp op items =
     (if fo_remove op then delItem (fo_name op) items
      else if fo_boolean op then addBare (fo_name op) items
      else setItem (fo_name op) (fo_value op) items)"

text \<open>The command uses the flag the way the operation does: with a value, or without one.\<close>

fun usedAs :: "bool \<Rightarrow> cmd_item \<Rightarrow> bool" where
  "usedAs boolean (Bare t) = boolean"
| "usedAs boolean (Spaced f v) = (\<not> boolean)"
| "usedAs boolean (Joined f v) = True"

definition usage :: "string \<Rightarrow> bool \<Rightarrow> cmd_item list \<Rightarrow> bool" where
  "usage n boolean items = list_all (\<lambda>it. itemName it = n \<longrightarrow> usedAs boolean it) items"

definition wfItems :: "cmd_item list \<Rightarrow> bool" where
  "wfItems items = list_all wfItem items"

lemma namesFlag_dash: "namesFlag n t \<Longrightarrow> isDash n \<Longrightarrow> isDash t"
  by (auto simp: namesFlag_def isDash_def hasPrefix_iff)

lemma flagName_plain: "\<not> hasEq t \<Longrightarrow> flagName t = t"
  by (auto simp: flagName_def hasEq_def takeWhile_eq_all_conv)

lemma flagName_joined: "\<not> hasEq f \<Longrightarrow> flagName (f @ CHR ''='' # v) = f"
  unfolding flagName_def hasEq_def by (subst takeWhile_append2) auto

lemma namesFlag_name: "namesFlag n t \<Longrightarrow> \<not> hasEq n \<Longrightarrow> flagName t = n"
  unfolding namesFlag_def hasPrefix_iff by (auto simp: flagName_plain flagName_joined)

lemma item_not_named:
  assumes "okFlag n" and "wfItem it" and "itemName it \<noteq> n" and "t \<in> set (itemTokens it)"
  shows "\<not> namesFlag n t"
proof
  assume h: "namesFlag n t"
  then have d: "isDash t" and nm: "flagName t = n"
    using assms(1) namesFlag_dash namesFlag_name by (auto simp: okFlag_def)
  show False using assms d nm by (cases it) (auto simp: okFlag_def flagName_plain flagName_joined)
qed

lemma item_named:
  "wfItem it \<Longrightarrow> itemName it = n \<Longrightarrow> namesFlag n (hd (itemTokens it))"
  by (cases it) (auto simp: namesFlag_def hasPrefix_iff)

lemma apply_skip: "\<not> namesFlag (fo_name op) p \<Longrightarrow> applyOneFlagOp (p # ps) op = p # applyOneFlagOp ps op"
  by (cases "dropWhile (\<lambda>p. \<not> namesFlag (fo_name op) p) ps")
     (simp_all add: applyOneFlagOp_def Let_def del: dropWhile_eq_Nil_conv)

lemma apply_skips:
  "(\<And>t. t \<in> set ts \<Longrightarrow> \<not> namesFlag (fo_name op) t) \<Longrightarrow> applyOneFlagOp (ts @ ps) op = ts @ applyOneFlagOp ps op"
  by (induction ts) (simp_all add: apply_skip)

lemma apply_op_items:
  assumes "okFlag (fo_name op)"
  shows "wfItems items \<Longrightarrow> usage (fo_name op) (fo_boolean op) items \<Longrightarrow>
    applyOneFlagOp (renderItems items) op = renderItems (applyItemOp op items)"
proof (induction items)
  case Nil
  then show ?case by (simp add: applyOneFlagOp_def renderItems_def applyItemOp_def addBare_def itemOf_def)
next
  case (Cons it its)
  have ih: "applyOneFlagOp (renderItems its) op = renderItems (applyItemOp op its)"
    and wf: "wfItem it" and us: "itemName it = fo_name op \<longrightarrow> usedAs (fo_boolean op) it"
    using Cons by (simp_all add: wfItems_def usage_def)
  have ren: "renderItems (it # its) = itemTokens it @ renderItems its" by (simp add: renderItems_def)
  show ?case
  proof (cases "itemName it = fo_name op")
    case False
    then have "applyOneFlagOp (itemTokens it @ renderItems its) op = itemTokens it @ renderItems (applyItemOp op its)"
      using item_not_named [OF assms wf] by (subst apply_skips) (simp_all add: ih)
    then show ?thesis using False
      by (simp add: ren renderItems_def applyItemOp_def addBare_def itemOf_def)
  next
    case True
    have n: "namesFlag (fo_name op) (hd (itemTokens it))" by (rule item_named [OF wf True])
    have neq: "fo_name op \<noteq> fo_name op @ CHR ''='' # v" for v by simp
    show ?thesis using True n wf us assms
      by (cases it) (auto simp: ren renderItems_def applyItemOp_def addBare_def itemOf_def applyOneFlagOp_def
          Let_def neq [symmetric] okFlag_def)
  qed
qed

text \<open>
  C32. The command editor implements the abstract edit: on the argument list of a well-formed command,
  \<open>applyOneFlagOp\<close> sets, adds or removes exactly the flag of the operation and leaves every other token.
\<close>

theorem apply_op_refines:
  assumes "okFlag (fo_name op)" and "wfItems items" and "usage (fo_name op) (fo_boolean op) items"
  shows "applyOneFlagOp (renderItems items) op = renderItems (applyItemOp op items)"
  using assms by (rule apply_op_items)

theorem apply_op_refines_witness:
  "applyOneFlagOp (renderItems [Bare ''llama-server'', Spaced ''-m'' ''a.gguf'', Joined ''--n-cpu-moe'' ''4'', Bare ''--jinja''])
     (removeOp ''--n-cpu-moe'')
   = renderItems (applyItemOp (removeOp ''--n-cpu-moe'')
       [Bare ''llama-server'', Spaced ''-m'' ''a.gguf'', Joined ''--n-cpu-moe'' ''4'', Bare ''--jinja''])"
  by (rule apply_op_refines; code_simp)

subsection \<open>Reading what was written\<close>

lemma match_none: "\<not> namesFlag n a \<Longrightarrow> matchNames a rest (n # ns) = matchNames a rest ns"
  by (auto simp: namesFlag_def cutPrefix_def)

lemma flagStr_skips:
  "(\<And>t. t \<in> set ts \<Longrightarrow> \<not> namesFlag n t) \<Longrightarrow> flagStr (ts @ ps) [n] = flagStr ps [n]"
  by (induction ts) (simp_all add: match_none del: matchNames.simps(2))

lemma flagStr_first:
  "(\<And>t. t \<in> set ts \<Longrightarrow> \<not> namesFlag a t) \<Longrightarrow> flagStr ts [n, a] = flagStr ts [n]"
proof (induction ts)
  case (Cons t ts)
  then have "matchNames t ts [n, a] = matchNames t ts [n]"
    by (auto simp: namesFlag_def cutPrefix_def)
  then show ?case using Cons by (simp del: matchNames.simps(2) split: option.split)
qed simp

lemma flagStr_items:
  assumes "okFlag n"
  shows "wfItems items \<Longrightarrow> usage n False items \<Longrightarrow> flagStr (renderItems items) [n] = getItem n items"
proof (induction items)
  case Nil
  then show ?case by (simp add: renderItems_def getItem_def itemOf_def)
next
  case (Cons it its)
  have wf: "wfItem it" and ih: "flagStr (renderItems its) [n] = getItem n its"
    and us: "itemName it = n \<longrightarrow> usedAs False it"
    using Cons by (simp_all add: wfItems_def usage_def)
  have ren: "renderItems (x # xs) = itemTokens x @ renderItems xs" for x xs by (simp add: renderItems_def)
  show ?case
  proof (cases "itemName it = n")
    case False
    then show ?thesis using item_not_named [OF assms wf] flagStr_skips [of "itemTokens it" n]
      by (simp add: ren ih getItem_def itemOf_def)
  next
    case True
    show ?thesis using True us
      by (cases it) (auto simp: ren getItem_def itemOf_def cutPrefix_def hasPrefix_iff)
  qed
qed

lemma patch_skips:
  "(\<And>t. t \<in> set ts \<Longrightarrow> \<not> namesFlag n t) \<Longrightarrow> patchOne n v (ts @ ps) = ts @ patchOne n v ps"
  by (induction ts) (auto simp: namesFlag_def)

lemma patchOne_items:
  assumes "okFlag n"
  shows "wfItems items \<Longrightarrow> usage n False items \<Longrightarrow> patchOne n v (renderItems items) = renderItems (setItem n v items)"
proof (induction items)
  case Nil
  then show ?case by (simp add: renderItems_def)
next
  case (Cons it its)
  have wf: "wfItem it" and ih: "patchOne n v (renderItems its) = renderItems (setItem n v its)"
    and us: "itemName it = n \<longrightarrow> usedAs False it"
    using Cons by (simp_all add: wfItems_def usage_def)
  have ren: "renderItems (x # xs) = itemTokens x @ renderItems xs" for x xs by (simp add: renderItems_def)
  show ?case
  proof (cases "itemName it = n")
    case False
    then show ?thesis using item_not_named [OF assms wf] patch_skips [of "itemTokens it" n]
      by (simp add: ren ih)
  next
    case True
    show ?thesis using True us by (cases it) (auto simp: ren hasPrefix_iff)
  qed
qed

subsection \<open>The command as a keyed store\<close>

text \<open>\<open>F\<close> are the flags that take a value; each flag occurs at most once.\<close>

definition cmdInv :: "string list \<Rightarrow> cmd_item list \<Rightarrow> bool" where
  "cmdInv F items =
     (wfItems items \<and> distinct (filter isDash (map itemName items)) \<and> list_all (\<lambda>n. usage n False items) F)"

definition valueFlag :: "string list \<Rightarrow> string \<Rightarrow> bool" where
  "valueFlag F n = (n \<in> set F \<and> okFlag n)"

definition plainValue :: "string \<Rightarrow> bool" where
  "plainValue v = (\<not> isDash v)"

lemma itemOf_set: "itemOf j (setItem n v items) =
    (if j = n then (case itemOf n items of Some (Joined _ _) \<Rightarrow> Some (Joined n v) | _ \<Rightarrow> Some (Spaced n v)) else itemOf j items)"
  by (induction items) (auto simp: itemOf_def split: cmd_item.splits)

lemma getItem_set: "getItem j (setItem n v items) = (if j = n then Some v else getItem j items)"
  by (auto simp: getItem_def itemOf_set split: option.splits cmd_item.splits)

lemma itemOf_None_iff: "itemOf n items = None \<longleftrightarrow> n \<notin> itemName ` set items"
  by (auto simp: itemOf_def find_None_iff)

lemma itemOf_del_other: "j \<noteq> n \<Longrightarrow> itemOf j (delItem n items) = itemOf j items"
  by (induction items) (auto simp: itemOf_def)

lemma delItem_gone:
  "isDash n \<Longrightarrow> distinct (filter isDash (map itemName items)) \<Longrightarrow> n \<notin> itemName ` set (delItem n items)"
  by (induction items) (auto split: if_splits)

lemma setItem_names: "map itemName (setItem n v items) =
    (if n \<in> itemName ` set items then map itemName items else map itemName items @ [n])"
  by (induction items) (auto split: cmd_item.splits)

lemma setItem_mem: "it \<in> set (setItem n v items) \<Longrightarrow> it \<in> set items \<or> it = Spaced n v \<or> it = Joined n v"
  by (induction items) (auto split: cmd_item.splits if_splits)

lemma delItem_sub: "set (delItem n items) \<subseteq> set items"
  by (induction items) auto

lemma delItem_distinct:
  "distinct (filter isDash (map itemName items)) \<Longrightarrow> distinct (filter isDash (map itemName (delItem n items)))"
proof (induction items)
  case (Cons it its)
  have "itemName ` set (delItem n its) \<subseteq> itemName ` set its" by (intro image_mono delItem_sub)
  then show ?case using Cons by auto
qed simp

lemma setItem_inv:
  assumes "cmdInv F items" and "valueFlag F n" and "plainValue v"
  shows "cmdInv F (setItem n v items)"
proof -
  have d: "distinct (filter isDash (map itemName (setItem n v items)))"
    using assms(1) by (auto simp: cmdInv_def setItem_names)
  have "wfItems (setItem n v items)" and "usage k False (setItem n v items)" if "k \<in> set F" for k
    using assms that setItem_mem [of _ n v items]
    by (fastforce simp: cmdInv_def wfItems_def usage_def list_all_iff valueFlag_def plainValue_def)+
  then show ?thesis using d assms(2) by (auto simp: cmdInv_def valueFlag_def list_all_iff)
qed

lemma delItem_inv: "cmdInv F items \<Longrightarrow> cmdInv F (delItem n items)"
  using delItem_sub [of n items] delItem_distinct [of items n]
  by (auto simp: cmdInv_def wfItems_def usage_def list_all_iff)

interpretation cmd: keyed_store "cmdInv F" "valueFlag F" plainValue getItem setItem delItem for F
proof
  fix items n v
  assume "cmdInv F items" "valueFlag F n" "plainValue v"
  then show "cmdInv F (setItem n v items)" by (rule setItem_inv)
next
  fix items n
  assume i: "cmdInv F items" and n: "valueFlag F n"
  show "cmdInv F (delItem n items)" using i by (rule delItem_inv)
  have "itemOf n (delItem n items) = None"
    using i n delItem_gone by (simp add: itemOf_None_iff cmdInv_def valueFlag_def okFlag_def)
  then show "getItem n (delItem n items) = None" by (simp add: getItem_def)
qed (simp_all add: getItem_set, simp add: getItem_def itemOf_del_other)

lemma cmdInv_usage: "cmdInv F items \<Longrightarrow> valueFlag F n \<Longrightarrow> okFlag n \<and> wfItems items \<and> usage n False items"
  by (auto simp: cmdInv_def valueFlag_def list_all_iff)

text \<open>The value operations on a command are edits of the store.\<close>

definition editOp :: "string \<times> string option \<Rightarrow> flag_op" where
  "editOp x = (case snd x of Some v \<Rightarrow> valueOp (fst x) v | None \<Rightarrow> removeOp (fst x))"

lemma edit_items:
  assumes "cmdInv F items" and "okEdit (valueFlag F) plainValue x"
  shows "applyOneFlagOp (renderItems items) (editOp x) = renderItems (oneEdit setItem delItem items x)"
  using assms cmdInv_usage [OF assms(1), of "fst x"]
  by (subst apply_op_items)
     (auto simp: editOp_def valueOp_def removeOp_def applyItemOp_def oneEdit_def okEdit_def split: option.splits)

lemma edits_items:
  "list_all (okEdit (valueFlag F) plainValue) es \<Longrightarrow> cmdInv F items \<Longrightarrow>
     foldl applyOneFlagOp (renderItems items) (map editOp es) = renderItems (foldl (oneEdit setItem delItem) items es)"
  by (induction es arbitrary: items) (simp_all add: edit_items cmd.oneEdit_inv)

subsection \<open>From the edited text back to the arguments\<close>

definition plainWord :: "string \<Rightarrow> bool" where
  "plainWord w = (isWord w \<and> list_all (\<lambda>c. c \<notin> {CHR 34, CHR 39, CHR 92, CHR ''#''}) w)"

text \<open>What is used of the shell splitter: words without blanks, quotes, backslashes and hash signs,
  joined by single blanks, are split into these words.\<close>

definition plainSplit :: "(string \<Rightarrow> string list) \<Rightarrow> bool" where
  "plainSplit split = (\<forall>ws. ws \<noteq> [] \<and> list_all plainWord ws \<longrightarrow> split (joinStr '' '' ws) = ws)"

lemma plainSplit_fields: "plainSplit goFields"
  using fields_join by (auto simp: plainSplit_def plainWord_def list_all_iff)

lemma joinStr_set: "set (joinStr sep ws) \<subseteq> set sep \<union> \<Union> (set (map set ws))"
  by (induction sep ws rule: joinStr.induct) auto

lemma newline_space: "isSpaceB newline"
  by code_simp

lemma trimB_set: "set (trimB s) \<subseteq> set s"
  by (auto simp: trimB_def dest!: set_dropWhileD)

lemma commandLines_plain:
  assumes "list_all plainWord ws"
  shows "commandLines (joinStr '' '' ws) = [joinStr '' '' ws]"
proof -
  let ?s = "joinStr '' '' ws"
  have ne: "newline \<noteq> CHR '' ''" by code_simp
  have c: "c \<notin> set ?s" if "\<forall>w \<in> set ws. c \<notin> set w" "c \<noteq> CHR '' ''" for c
    using that joinStr_set [of "'' ''" ws] by auto
  have nl: "newline \<notin> set ?s" using assms newline_space ne
    by (intro c) (auto simp: plainWord_def isWord_def list_all_iff)
  have hash: "CHR ''#'' \<notin> set ?s" using assms by (intro c) (auto simp: plainWord_def list_all_iff)
  have bs: "CHR 92 \<notin> set ?s" using assms by (intro c) (auto simp: plainWord_def list_all_iff)
  have "\<not> hasPrefix (trimB ?s) ''#''"
    using hash trimB_set [of ?s] by (cases "trimB ?s") (auto simp: hasPrefix_iff)
  moreover have "cutSuffix (trimB ?s) [CHR 92] = None"
  proof (rule ccontr)
    assume "cutSuffix (trimB ?s) [CHR 92] \<noteq> None"
    then obtain r where "trimB ?s = r @ [CHR 92]" using cutSuffix_Some_iff by (metis option.exhaust)
    then show False using bs trimB_set [of ?s] by auto
  qed
  ultimately show ?thesis by (simp add: commandLines_def splitOn_single [OF nl])
qed

lemma sanitize_plain:
  "plainSplit split \<Longrightarrow> ws \<noteq> [] \<Longrightarrow> list_all plainWord ws \<Longrightarrow> sanitizeCommand split (joinStr '' '' ws) = Some ws"
  by (simp add: sanitizeCommand_def commandLines_plain plainSplit_def)

lemma dropWhile_none: "list_all (\<lambda>c. \<not> P c) w \<Longrightarrow> dropWhile P w = w"
  by (cases w) simp_all

lemma trimB_word: "isWord w \<Longrightarrow> trimB w = w"
  by (simp add: isWord_def trimB_def dropWhile_none list_all_rev)

definition newTokens :: "flag_op \<Rightarrow> string set" where
  "newTokens op =
     (if fo_remove op then {} else if fo_boolean op then {fo_name op}
      else {fo_name op, fo_value op, fo_name op @ ''='' @ fo_value op})"

lemma apply_tokens:
  "set (applyOneFlagOp parts op) \<subseteq>
     set parts \<union> newTokens op"
proof -
  let ?P = "\<lambda>p. \<not> namesFlag (fo_name op) p"
  have tk: "set (takeWhile ?P parts) \<subseteq> set parts" by (auto dest: set_takeWhileD)
  show ?thesis
  proof (cases "dropWhile ?P parts")
    case Nil
    then show ?thesis by (simp add: applyOneFlagOp_def newTokens_def Let_def del: dropWhile_eq_Nil_conv) blast
  next
    case (Cons p post)
    then have post: "insert p (set post) \<subseteq> set parts" by (metis list.simps(15) set_dropWhileD subsetI)
    have tl: "set (tl post) \<subseteq> set post" by (cases post) auto
    show ?thesis using tk post tl Cons by (auto simp: applyOneFlagOp_def newTokens_def Let_def)
  qed
qed

lemma apply_program:
  "\<not> isDash prog \<Longrightarrow> isDash (fo_name op) \<Longrightarrow> applyOneFlagOp (prog # ps) op = prog # applyOneFlagOp ps op"
  using namesFlag_dash by (intro apply_skip) blast

lemma applies_program:
  "\<not> isDash prog \<Longrightarrow> list_all (isDash \<circ> fo_name) fops \<Longrightarrow>
     foldl applyOneFlagOp (prog # ps) fops = prog # foldl applyOneFlagOp ps fops"
  by (induction fops arbitrary: ps) (simp_all add: apply_program)

definition plainOp :: "flag_op \<Rightarrow> bool" where
  "plainOp op = (isDash (fo_name op) \<and> (\<forall>t \<in> newTokens op. plainWord t))"

lemma apply_plain: "plainOp op \<Longrightarrow> list_all plainWord ps \<Longrightarrow> list_all plainWord (applyOneFlagOp ps op)"
  unfolding list_all_iff plainOp_def using apply_tokens [of ps op] by blast

lemma applies_plain:
  "list_all plainOp fops \<Longrightarrow> list_all plainWord ps \<Longrightarrow> list_all plainWord (foldl applyOneFlagOp ps fops)"
  by (induction fops arbitrary: ps) (simp_all add: apply_plain)

lemma applyFlagOps_plain:
  assumes "plainSplit split" and "\<not> isDash prog" and "list_all plainWord (prog # args)" and "list_all plainOp fops"
  shows "applyFlagOps split (joinStr '' '' (prog # args)) fops = Some (joinStr '' '' (foldl applyOneFlagOp (prog # args) fops))"
    and "sanitizeCommand split (joinStr '' '' (foldl applyOneFlagOp (prog # args) fops)) = Some (foldl applyOneFlagOp (prog # args) fops)"
proof -
  have "list_all (isDash \<circ> fo_name) fops" using assms(4) by (simp add: plainOp_def list_all_iff)
  then have ne: "foldl applyOneFlagOp (prog # args) fops \<noteq> []" using applies_program [OF assms(2)] by simp
  show "applyFlagOps split (joinStr '' '' (prog # args)) fops = Some (joinStr '' '' (foldl applyOneFlagOp (prog # args) fops))"
    by (simp only: applyFlagOps_def sanitize_plain [OF assms(1) list.distinct(2) assms(3)] option.case)
  show "sanitizeCommand split (joinStr '' '' (foldl applyOneFlagOp (prog # args) fops)) = Some (foldl applyOneFlagOp (prog # args) fops)"
    by (rule sanitize_plain [OF assms(1) ne applies_plain [OF assms(4,3)]])
qed

subsection \<open>The offload settings survive the round trip\<close>

text \<open>The llama.cpp offload flags: two with a value, and \<open>--cpu-moe\<close> without one.\<close>

definition moeInv :: "cmd_item list \<Rightarrow> bool" where
  "moeInv items =
     (cmdInv [''--n-cpu-moe'', ''--override-tensor''] items
      \<and> list_all (\<lambda>it. itemName it = ''--cpu-moe'' \<longrightarrow> it = Bare ''--cpu-moe'') items)"

definition noAlias :: "string \<Rightarrow> bool" where
  "noAlias t = (\<not> namesFlag ''-ncmoe'' t \<and> t \<noteq> ''-cmoe'' \<and> \<not> namesFlag ''-ot'' t)"

definition cpuStep :: "bool \<Rightarrow> cmd_item list \<Rightarrow> cmd_item list" where
  "cpuStep b items = (if b then addBare ''--cpu-moe'' items else delItem ''--cpu-moe'' items)"

definition intEdits :: "string \<Rightarrow> int option \<Rightarrow> (string \<times> string option) list" where
  "intEdits k v = (case v of None \<Rightarrow> [] | Some n \<Rightarrow> [(k, if n > 0 then Some (itoa n) else None)])"

definition textEdits :: "string \<Rightarrow> string option \<Rightarrow> (string \<times> string option) list" where
  "textEdits k v = (case v of None \<Rightarrow> [] | Some t \<Rightarrow> [(k, if trimB t \<noteq> [] then Some t else None)])"

definition boolSteps :: "bool option \<Rightarrow> cmd_item list \<Rightarrow> cmd_item list" where
  "boolSteps v items = (case v of None \<Rightarrow> items | Some b \<Rightarrow> cpuStep b items)"

lemma moe_flags [simp]:
  "okFlag ''--cpu-moe''" "valueFlag [''--n-cpu-moe'', ''--override-tensor''] ''--n-cpu-moe''"
  "valueFlag [''--n-cpu-moe'', ''--override-tensor''] ''--override-tensor''"
  "valueFlag [''--n-cpu-moe'', ''--override-tensor''] ''--cpu-moe'' = False" "plainWord ''--n-cpu-moe''"
  "plainWord ''--cpu-moe''" "plainWord ''--override-tensor''"
  by code_simp+

lemma llamacpp_ops:
  "fst (translatorOps LlamaCppTranslator s) =
     map editOp (intEdits ''--n-cpu-moe'' (os_nCpuMoe s))
     @ (case os_cpuMoe s of None \<Rightarrow> [] | Some b \<Rightarrow> [(boolOp ''--cpu-moe'')\<lparr>fo_remove := \<not> b\<rparr>])
     @ map editOp (textEdits ''--override-tensor'' (os_overrideTensor s))"
  by (auto simp: intFlagOp_def intEdits_def textEdits_def editOp_def split: option.splits)

lemma edit_moeInv:
  assumes "moeInv items" and "okEdit (valueFlag [''--n-cpu-moe'', ''--override-tensor'']) plainValue x"
  shows "moeInv (oneEdit setItem delItem items x)
    \<and> itemOf ''--cpu-moe'' (oneEdit setItem delItem items x) = itemOf ''--cpu-moe'' items"
proof -
  have k: "fst x \<noteq> ''--cpu-moe''" using assms(2) moe_flags(4) by (auto simp: okEdit_def)
  have "cmdInv [''--n-cpu-moe'', ''--override-tensor''] (oneEdit setItem delItem items x)"
    using assms by (intro cmd.oneEdit_inv) (simp_all add: moeInv_def)
  moreover have "list_all (\<lambda>it. itemName it = ''--cpu-moe'' \<longrightarrow> it = Bare ''--cpu-moe'') (oneEdit setItem delItem items x)"
    using assms(1) k delItem_sub [of "fst x" items] setItem_mem [of _ "fst x" _ items]
    by (fastforce simp: moeInv_def oneEdit_def list_all_iff split: option.splits)
  moreover have "itemOf ''--cpu-moe'' (oneEdit setItem delItem items x) = itemOf ''--cpu-moe'' items"
    using k by (auto simp: oneEdit_def itemOf_set itemOf_del_other split: option.splits)
  ultimately show ?thesis by (simp add: moeInv_def)
qed

lemma edits_moeInv:
  "list_all (okEdit (valueFlag [''--n-cpu-moe'', ''--override-tensor'']) plainValue) es \<Longrightarrow> moeInv items \<Longrightarrow>
     moeInv (foldl (oneEdit setItem delItem) items es)
     \<and> itemOf ''--cpu-moe'' (foldl (oneEdit setItem delItem) items es) = itemOf ''--cpu-moe'' items"
  by (induction es arbitrary: items) (simp_all add: edit_moeInv)

lemma cpu_usage: "moeInv items \<Longrightarrow> wfItems items \<and> usage ''--cpu-moe'' True items"
  by (auto simp: moeInv_def cmdInv_def usage_def list_all_iff)

lemma itemOf_append: "itemOf j (items @ [it]) = (case itemOf j items of Some x \<Rightarrow> Some x | None \<Rightarrow> if itemName it = j then Some it else None)"
  by (simp add: itemOf_def find_append split: option.split)

lemma cpuStep_moe:
  assumes "moeInv items"
  shows "applyOneFlagOp (renderItems items) ((boolOp ''--cpu-moe'')\<lparr>fo_remove := \<not> b\<rparr>) = renderItems (cpuStep b items)"
    and "moeInv (cpuStep b items)" and "itemOf ''--cpu-moe'' (cpuStep b items) \<noteq> None \<longleftrightarrow> b"
    and "j \<noteq> ''--cpu-moe'' \<Longrightarrow> getItem j (cpuStep b items) = getItem j items"
proof -
  show "applyOneFlagOp (renderItems items) ((boolOp ''--cpu-moe'')\<lparr>fo_remove := \<not> b\<rparr>) = renderItems (cpuStep b items)"
    using cpu_usage [OF assms] by (subst apply_op_items) (simp_all add: boolOp_def applyItemOp_def cpuStep_def)
  have m: "it \<in> set (cpuStep b items) \<Longrightarrow> it \<in> set items \<or> it = Bare ''--cpu-moe''" for it
    using delItem_sub [of "''--cpu-moe''" items] by (auto simp: cpuStep_def addBare_def split: if_splits)
  have "wfItem (Bare ''--cpu-moe'')" by code_simp
  moreover have "distinct (filter isDash (map itemName (cpuStep b items)))"
    using assms delItem_distinct [of items "''--cpu-moe''"]
    by (auto simp: moeInv_def cmdInv_def cpuStep_def addBare_def itemOf_None_iff)
  ultimately show "moeInv (cpuStep b items)" using assms m
    by (fastforce simp: moeInv_def cmdInv_def wfItems_def usage_def list_all_iff)
  have "isDash ''--cpu-moe''" by code_simp
  then have "itemOf ''--cpu-moe'' (delItem ''--cpu-moe'' items) = None"
    using assms by (simp add: itemOf_None_iff delItem_gone moeInv_def cmdInv_def)
  then show "itemOf ''--cpu-moe'' (cpuStep b items) \<noteq> None \<longleftrightarrow> b"
    by (auto simp: cpuStep_def addBare_def itemOf_append)
  show "j \<noteq> ''--cpu-moe'' \<Longrightarrow> getItem j (cpuStep b items) = getItem j items"
    by (auto simp: cpuStep_def addBare_def getItem_def itemOf_append itemOf_del_other split: option.split)
qed

lemma boolSteps_moe:
  assumes "moeInv items"
  shows "foldl applyOneFlagOp (renderItems items)
           (case v of None \<Rightarrow> [] | Some b \<Rightarrow> [(boolOp ''--cpu-moe'')\<lparr>fo_remove := \<not> b\<rparr>]) = renderItems (boolSteps v items)"
    and "moeInv (boolSteps v items)"
    and "itemOf ''--cpu-moe'' (boolSteps v items) \<noteq> None \<longleftrightarrow> (case v of None \<Rightarrow> itemOf ''--cpu-moe'' items \<noteq> None | Some b \<Rightarrow> b)"
    and "j \<noteq> ''--cpu-moe'' \<Longrightarrow> getItem j (boolSteps v items) = getItem j items"
  using cpuStep_moe [OF assms] assms by (auto simp: boolSteps_def split: option.split)

lemma cpu_token:
  assumes "moeInv items"
  shows "''--cpu-moe'' \<in> set (renderItems items) \<longleftrightarrow> itemOf ''--cpu-moe'' items \<noteq> None"
proof
  assume "''--cpu-moe'' \<in> set (renderItems items)"
  then obtain it where it: "it \<in> set items" "''--cpu-moe'' \<in> set (itemTokens it)" by (auto simp: renderItems_def)
  have "itemName it = ''--cpu-moe''"
  proof (rule ccontr)
    assume "itemName it \<noteq> ''--cpu-moe''"
    then have "\<not> namesFlag ''--cpu-moe'' ''--cpu-moe''"
      using it assms by (intro item_not_named [OF moe_flags(1)]) (auto simp: moeInv_def cmdInv_def wfItems_def list_all_iff)
    then show False by (simp add: namesFlag_def)
  qed
  then show "itemOf ''--cpu-moe'' items \<noteq> None" using it(1) by (simp add: itemOf_None_iff image_iff) metis
next
  assume "itemOf ''--cpu-moe'' items \<noteq> None"
  then obtain it where "it \<in> set items" "itemName it = ''--cpu-moe''" by (auto simp: itemOf_None_iff)
  then have "Bare ''--cpu-moe'' \<in> set items" using assms by (auto simp: moeInv_def list_all_iff)
  then show "''--cpu-moe'' \<in> set (renderItems items)" by (force simp: renderItems_def)
qed

lemma parse_items:
  assumes "moeInv items" and "list_all noAlias (renderItems items)"
  shows "translatorParse LlamaCppTranslator (renderItems items) =
     \<lparr>os_nCpuMoe = (case getItem ''--n-cpu-moe'' items of Some v \<Rightarrow> parseInt64 (trimB v) | None \<Rightarrow> None),
      os_cpuMoe = (if itemOf ''--cpu-moe'' items \<noteq> None then Some True else None),
      os_cpuOffloadGB = None, os_overrideTensor = getItem ''--override-tensor'' items\<rparr>"
proof -
  have i: "cmdInv [''--n-cpu-moe'', ''--override-tensor''] items" using assms(1) by (simp add: moeInv_def)
  have "flagStr (renderItems items) [''--n-cpu-moe'', ''-ncmoe''] = getItem ''--n-cpu-moe'' items"
    using assms(2) cmdInv_usage [OF i moe_flags(2)]
    by (subst flagStr_first) (auto simp: list_all_iff noAlias_def intro: flagStr_items)
  moreover have "flagStr (renderItems items) [''--override-tensor'', ''-ot''] = getItem ''--override-tensor'' items"
    using assms(2) cmdInv_usage [OF i moe_flags(3)]
    by (subst flagStr_first) (auto simp: list_all_iff noAlias_def intro: flagStr_items)
  moreover have "flagPresent (renderItems items) [''--cpu-moe'', ''-cmoe''] \<longleftrightarrow> itemOf ''--cpu-moe'' items \<noteq> None"
    using cpu_token [OF assms(1)] assms(2) by (auto simp: flagPresent_def list_all_iff noAlias_def)
  ultimately show ?thesis by (simp add: noSpec_def flagInt_def)
qed

lemma applies_all:
  "\<forall>op \<in> set fops. \<forall>t \<in> newTokens op. P t \<Longrightarrow> list_all P ps \<Longrightarrow> list_all P (foldl applyOneFlagOp ps fops)"
proof (induction fops arbitrary: ps)
  case (Cons op fops)
  then have "list_all P (applyOneFlagOp ps op)" unfolding list_all_iff using apply_tokens [of ps op] by auto
  then show ?case using Cons by simp
qed simp

lemma alias_dashes: "noAlias (CHR ''-'' # CHR ''-'' # r)"
  by (simp add: noAlias_def namesFlag_def hasPrefix_def)

lemma alias_value: "\<not> isDash t \<Longrightarrow> noAlias t"
  using namesFlag_dash [of "''-ncmoe''" t] namesFlag_dash [of "''-ot''" t]
  by (auto simp: noAlias_def isDash_def hasPrefix_def)

lemma natText_plain: "plainWord (natText n)" "\<not> isDash (natText n)"
proof -
  have "list_all (\<lambda>c. c \<notin> {CHR 34, CHR 39, CHR 92, CHR ''#''}) (natText n)"
    using natText_digits [of n] by (auto simp: list_all_iff isDigitCh_def less_eq_char_def)
  moreover have "isWord (natText n)" using itoa_word [of "int n"] by (simp add: itoa_def)
  ultimately show "plainWord (natText n)" by (simp add: plainWord_def)
  show "\<not> isDash (natText n)"
    using natText_digits [of n] isDigit_range by (cases "natText n") (auto simp: isDash_def hasPrefix_def)
qed

lemma itoa_plain: "0 < n \<Longrightarrow> plainWord (itoa n) \<and> \<not> isDash (itoa n)"
  using natText_plain [of "nat n"] by (simp add: itoa_def)

definition goodSpec :: "off_spec \<Rightarrow> bool" where
  "goodSpec s =
     ((case os_nCpuMoe s of None \<Rightarrow> True | Some n \<Rightarrow> n < 2 ^ 63)
      \<and> (case os_overrideTensor s of None \<Rightarrow> True | Some t \<Rightarrow> trimB t = [] \<or> (plainWord t \<and> \<not> isDash t)))"

lemma plainWord_joined: "plainWord a \<Longrightarrow> plainWord b \<Longrightarrow> plainWord (a @ CHR ''='' # b)"
proof -
  have "\<not> isSpaceB CHR ''=''" by code_simp
  then show "plainWord a \<Longrightarrow> plainWord b \<Longrightarrow> plainWord (a @ CHR ''='' # b)"
    by (simp add: plainWord_def isWord_def)
qed

lemma good_tokens:
  assumes "goodSpec s" and "op \<in> set (fst (translatorOps LlamaCppTranslator s))"
  shows "plainOp op \<and> (\<forall>t \<in> newTokens op. noAlias t)"
proof -
  have d: "isDash ''--n-cpu-moe''" "isDash ''--cpu-moe''" "isDash ''--override-tensor''" by code_simp+
  consider n where "0 < n" "op = valueOp ''--n-cpu-moe'' (itoa n)"
    | "op = removeOp ''--n-cpu-moe'' \<or> op = removeOp ''--override-tensor''"
    | b where "op = (boolOp ''--cpu-moe'')\<lparr>fo_remove := b\<rparr>"
    | t where "plainWord t" "\<not> isDash t" "op = valueOp ''--override-tensor'' t"
    using assms by (auto simp: goodSpec_def intFlagOp_def split: option.splits if_splits)
  then show ?thesis
    by cases
      (auto simp: plainOp_def newTokens_def valueOp_def removeOp_def boolOp_def d itoa_plain alias_dashes alias_value
         plainWord_joined [OF moe_flags(5), simplified] plainWord_joined [OF moe_flags(7), simplified])
qed

lemma good_edits:
  assumes "goodSpec s"
  shows "list_all (okEdit (valueFlag [''--n-cpu-moe'', ''--override-tensor'']) plainValue) (intEdits ''--n-cpu-moe'' (os_nCpuMoe s))"
    and "list_all (okEdit (valueFlag [''--n-cpu-moe'', ''--override-tensor'']) plainValue) (textEdits ''--override-tensor'' (os_overrideTensor s))"
  using assms itoa_plain
  by (auto simp: goodSpec_def intEdits_def textEdits_def okEdit_def plainValue_def split: option.splits)

text \<open>What a configuration shows after a patch: the old settings with the patched ones in front; 0, false
  and the empty text take a setting away.\<close>

definition overlaySpec :: "off_spec \<Rightarrow> off_spec \<Rightarrow> off_spec" where
  "overlaySpec s old =
     \<lparr>os_nCpuMoe = (case os_nCpuMoe s of None \<Rightarrow> os_nCpuMoe old | Some n \<Rightarrow> if 0 < n then Some n else None),
      os_cpuMoe = (case os_cpuMoe s of None \<Rightarrow> os_cpuMoe old | Some b \<Rightarrow> if b then Some True else None),
      os_cpuOffloadGB = None,
      os_overrideTensor = (case os_overrideTensor s of None \<Rightarrow> os_overrideTensor old
                            | Some t \<Rightarrow> if trimB t \<noteq> [] then Some t else None)\<rparr>"

lemma patched_parse:
  assumes "moeInv items" and "list_all noAlias (renderItems items)" and "goodSpec s"
  shows "translatorParse LlamaCppTranslator (foldl applyOneFlagOp (renderItems items) (fst (translatorOps LlamaCppTranslator s)))
       = overlaySpec s (translatorParse LlamaCppTranslator (renderItems items))"
proof -
  define e1 where "e1 = intEdits ''--n-cpu-moe'' (os_nCpuMoe s)"
  define e2 where "e2 = textEdits ''--override-tensor'' (os_overrideTensor s)"
  note ok = good_edits [OF assms(3), folded e1_def e2_def]
  let ?i1 = "foldl (oneEdit setItem delItem) items e1"
  let ?i2 = "boolSteps (os_cpuMoe s) ?i1"
  let ?i3 = "foldl (oneEdit setItem delItem) ?i2 e2"
  have i0: "cmdInv [''--n-cpu-moe'', ''--override-tensor''] items" using assms(1) by (simp add: moeInv_def)
  note m1 = edits_moeInv [OF ok(1) assms(1)]
  note m2 = boolSteps_moe [OF conjunct1 [OF m1], where v = "os_cpuMoe s"]
  have i2: "cmdInv [''--n-cpu-moe'', ''--override-tensor''] ?i2" using m2(2) by (simp add: moeInv_def)
  note m3 = edits_moeInv [OF ok(2) m2(2)]
  have args: "foldl applyOneFlagOp (renderItems items) (fst (translatorOps LlamaCppTranslator s)) = renderItems ?i3"
    unfolding llamacpp_ops foldl_append edits_items [OF ok(1) i0, folded e1_def] e1_def [symmetric] e2_def [symmetric]
      m2(1) edits_items [OF ok(2) i2] ..
  have "list_all noAlias (renderItems ?i3)"
    unfolding args [symmetric] using good_tokens [OF assms(3)] assms(2) by (intro applies_all) blast+
  note p3 = parse_items [OF conjunct1 [OF m3] this]
  have n: "getItem ''--n-cpu-moe'' ?i3 = (case map_of (rev e1) ''--n-cpu-moe'' of Some e \<Rightarrow> e | None \<Rightarrow> getItem ''--n-cpu-moe'' items)"
    unfolding cmd.edits_get [OF ok(2) i2 moe_flags(2)] m2(4) [where j = "''--n-cpu-moe''", simplified] cmd.edits_get [OF ok(1) i0 moe_flags(2)]
    by (simp add: e2_def textEdits_def split: option.split)
  have t: "getItem ''--override-tensor'' ?i3 = (case map_of (rev e2) ''--override-tensor'' of Some e \<Rightarrow> e | None \<Rightarrow> getItem ''--override-tensor'' items)"
    unfolding cmd.edits_get [OF ok(2) i2 moe_flags(3)] m2(4) [where j = "''--override-tensor''", simplified] cmd.edits_get [OF ok(1) i0 moe_flags(3)]
    by (simp add: e1_def intEdits_def split: option.split)
  have c: "itemOf ''--cpu-moe'' ?i3 \<noteq> None \<longleftrightarrow> (case os_cpuMoe s of None \<Rightarrow> itemOf ''--cpu-moe'' items \<noteq> None | Some b \<Rightarrow> b)"
    unfolding conjunct2 [OF m3] m2(3) conjunct2 [OF m1] ..
  have nv: "(case os_nCpuMoe s of None \<Rightarrow> x | Some k \<Rightarrow> (case (if 0 < k then Some (itoa k) else None) of Some v \<Rightarrow> parseInt64 (trimB v) | None \<Rightarrow> None))
      = (case os_nCpuMoe s of None \<Rightarrow> x | Some k \<Rightarrow> if 0 < k then Some k else None)" for x
    using assms(3) by (cases "os_nCpuMoe s") (simp_all add: goodSpec_def trimB_word itoa_word parseInt64_itoa)
  have "(case (case map_of (rev e1) ''--n-cpu-moe'' of Some e \<Rightarrow> e | None \<Rightarrow> getItem ''--n-cpu-moe'' items) of
           Some v \<Rightarrow> parseInt64 (trimB v) | None \<Rightarrow> None)
      = (case os_nCpuMoe s of None \<Rightarrow> (case getItem ''--n-cpu-moe'' items of Some v \<Rightarrow> parseInt64 (trimB v) | None \<Rightarrow> None)
         | Some k \<Rightarrow> if 0 < k then Some k else None)"
    unfolding nv [symmetric] by (simp add: e1_def intEdits_def split: option.split)
  moreover have "(case map_of (rev e2) ''--override-tensor'' of Some e \<Rightarrow> e | None \<Rightarrow> getItem ''--override-tensor'' items)
      = (case os_overrideTensor s of None \<Rightarrow> getItem ''--override-tensor'' items | Some t \<Rightarrow> if trimB t \<noteq> [] then Some t else None)"
    by (simp add: e2_def textEdits_def split: option.split)
  moreover have "(if (case os_cpuMoe s of None \<Rightarrow> x \<noteq> None | Some b \<Rightarrow> b) then Some True else None)
      = (case os_cpuMoe s of None \<Rightarrow> if x \<noteq> None then Some True else None | Some b \<Rightarrow> if b then Some True else None)" for x :: "cmd_item option"
    by (simp split: option.split)
  ultimately show ?thesis unfolding args p3 n t c parse_items [OF assms(1,2)] overlaySpec_def off_spec.simps by simp
qed

text \<open>
  Patching the offload settings of a llama.cpp model and reading them back from the edited command
  gives the old settings overlaid with the patch: for a command in which each offload flag occurs at
  most once and under its long name, whatever else it contains, through the text of the command.
\<close>

theorem offload_patch_roundtrip:
  assumes "plainSplit split" and "moeInv (Bare prog # items)" and "\<not> isDash prog"
    and "list_all plainWord (renderItems (Bare prog # items))" and "list_all noAlias (renderItems (Bare prog # items))"
    and "goodSpec s"
  shows "Option.bind (applyFlagOps split (joinStr '' '' (renderItems (Bare prog # items))) (fst (translatorOps LlamaCppTranslator s)))
           (\<lambda>cmd. map_option (translatorParse LlamaCppTranslator) (sanitizeCommand split cmd))
         = Some (overlaySpec s (translatorParse LlamaCppTranslator (renderItems (Bare prog # items))))"
proof -
  have r: "renderItems (Bare prog # items) = prog # renderItems items" by (simp add: renderItems_def)
  have "list_all plainOp (fst (translatorOps LlamaCppTranslator s))"
    using good_tokens [OF assms(6)] by (simp add: list_all_iff)
  note a = applyFlagOps_plain [OF assms(1,3) assms(4) [unfolded r] this]
  show ?thesis using patched_parse [OF assms(2,5,6)] unfolding r by (simp only: a bind.bind_lunit option.map)
qed

definition demoItems :: "cmd_item list" where
  "demoItems = [Spaced ''-m'' ''a.gguf'', Joined ''--n-cpu-moe'' ''4'', Bare ''--jinja'', Spaced ''-c'' ''4096'']"

definition demoSpec :: off_spec where
  "demoSpec = \<lparr>os_nCpuMoe = Some 20, os_cpuMoe = Some True, os_cpuOffloadGB = None, os_overrideTensor = Some ''exps=CPU''\<rparr>"

theorem offload_patch_roundtrip_witness:
  "Option.bind (applyFlagOps goFields (joinStr '' '' (renderItems (Bare ''llama-server'' # demoItems))) (fst (translatorOps LlamaCppTranslator demoSpec)))
     (\<lambda>cmd. map_option (translatorParse LlamaCppTranslator) (sanitizeCommand goFields cmd))
   = Some (overlaySpec demoSpec (translatorParse LlamaCppTranslator (renderItems (Bare ''llama-server'' # demoItems))))"
  by (rule offload_patch_roundtrip [OF plainSplit_fields]; code_simp)

text \<open>
  Under its short name a setting is not found by the editor but is found, first, by the reader: after
  a patch to 20 the configuration still shows 10, and a patch to 0 does not remove it.
\<close>

theorem short_name_shadows_patch:
  "foldl applyOneFlagOp (goFields ''s -m a.gguf -ncmoe 10'') (fst (translatorOps LlamaCppTranslator (noSpec\<lparr>os_nCpuMoe := Some 20\<rparr>)))
     = goFields ''s -m a.gguf -ncmoe 10 --n-cpu-moe 20''
   \<and> os_nCpuMoe (translatorParse LlamaCppTranslator (goFields ''s -m a.gguf -ncmoe 10 --n-cpu-moe 20'')) = Some 10
   \<and> foldl applyOneFlagOp (goFields ''s -m a.gguf -ncmoe 10'') (fst (translatorOps LlamaCppTranslator (noSpec\<lparr>os_nCpuMoe := Some 0\<rparr>)))
     = goFields ''s -m a.gguf -ncmoe 10''"
  by code_simp

definition quotedCmd :: string where
  "quotedCmd = ''s --kv '' @ CHR 34 # ''a b'' @ [CHR 34]"

text \<open>
  Registering a model without companion files rewrites its command all the same: the arguments are
  joined with blanks, so a quoted argument with a blank comes back as two arguments.
\<close>

theorem nothing_to_inject_loses_quotes:
  assumes "plainSplit split" and "split quotedCmd = [''s'', ''--kv'', ''a b'']"
  shows "sanitizeCommand split quotedCmd = Some [''s'', ''--kv'', ''a b'']
       \<and> sanitizeCommand split (injectCompanionFlags split quotedCmd [] []) = Some [''s'', ''--kv'', ''a'', ''b'']"
proof -
  have "joinWith newline (commandLines quotedCmd) = quotedCmd" by code_simp
  then have p: "sanitizeCommand split quotedCmd = Some [''s'', ''--kv'', ''a b'']"
    using assms(2) by (simp add: sanitizeCommand_def)
  have i: "injectCompanionFlags split quotedCmd [] [] = joinStr '' '' [''s'', ''--kv'', ''a'', ''b'']"
    by (simp add: injectCompanionFlags_def p)
  show ?thesis unfolding i using p by (intro conjI sanitize_plain [OF assms(1)]) (simp, code_simp)+
qed

theorem nothing_to_inject_loses_quotes_witness:
  "sanitizeCommand (\<lambda>c. if c = quotedCmd then [''s'', ''--kv'', ''a b''] else goFields c) quotedCmd = Some [''s'', ''--kv'', ''a b'']
   \<and> sanitizeCommand (\<lambda>c. if c = quotedCmd then [''s'', ''--kv'', ''a b''] else goFields c)
        (injectCompanionFlags (\<lambda>c. if c = quotedCmd then [''s'', ''--kv'', ''a b''] else goFields c) quotedCmd [] [])
      = Some [''s'', ''--kv'', ''a'', ''b'']"
proof (rule nothing_to_inject_loses_quotes)
  have "CHR 34 \<notin> set (joinStr '' '' ws)" if "list_all plainWord ws" for ws
    using that joinStr_set [of "'' ''" ws] by (auto simp: plainWord_def list_all_iff)
  moreover have "CHR 34 \<in> set quotedCmd" by (simp add: quotedCmd_def)
  ultimately show "plainSplit (\<lambda>c. if c = quotedCmd then [''s'', ''--kv'', ''a b''] else goFields c)"
    using plainSplit_fields by (auto simp: plainSplit_def) metis+
qed simp

subsection \<open>The context clamp\<close>

definition continuedCmd :: string where
  "continuedCmd = ''s '' @ CHR 92 # newline # ''--ctx-size 9000''"

text \<open>
  The clamp joins the lines of a command and keeps the backslashes that continued them: they then
  stand inside a line, where the splitter takes them for an escape.
\<close>

theorem clamp_keeps_backslash:
  "CHR 92 \<notin> set (joinWith newline (commandLines continuedCmd))
   \<and> setCtxSizeInCmd continuedCmd 2048 = ''s '' @ CHR 92 # '' --ctx-size 2048''
   \<and> commandLines (setCtxSizeInCmd continuedCmd 2048) = [''s '' @ CHR 92 # '' --ctx-size 2048'']"
  by code_simp

lemma ctx_literals:
  "\<not> hasPrefix ''--ctx-size'' ''--ctx-size=''" "\<not> hasPrefix ''--ctx-size'' ''-c=''" "\<not> hasPrefix ''-c'' ''--ctx-size=''"
  "\<not> hasPrefix ''-c'' ''-c=''"
  by code_simp+

lemma ctx_match:
  "matchNames ''--ctx-size'' rest [''--ctx-size'', ''-c''] = (if rest = [] then None else Some (hd rest))"
  "matchNames ''-c'' rest [''--ctx-size'', ''-c''] = (if rest = [] then None else Some (hd rest))"
  "matchNames (''--ctx-size='' @ v) rest [''--ctx-size'', ''-c''] = Some v"
  "matchNames (''-c='' @ v) rest [''--ctx-size'', ''-c''] = Some v"
  by (simp_all add: cutPrefix_def ctx_literals) (simp_all add: hasPrefix_def)

lemma ctx_match_other:
  "t \<noteq> ''--ctx-size'' \<Longrightarrow> t \<noteq> ''-c'' \<Longrightarrow> \<not> hasPrefix t ''--ctx-size='' \<Longrightarrow> \<not> hasPrefix t ''-c='' \<Longrightarrow>
     matchNames t rest [''--ctx-size'', ''-c''] = None"
  by (simp add: cutPrefix_def)

lemma setCtx_read:
  "case setCtxTokens val toks of
     None \<Rightarrow> flagStr toks [''--ctx-size'', ''-c''] = None
   | Some r \<Rightarrow> flagStr toks [''--ctx-size'', ''-c''] \<noteq> None \<and> flagStr r [''--ctx-size'', ''-c''] = Some val
       \<and> (list_all isWord toks \<and> isWord val \<longrightarrow> list_all isWord r)"
proof (induction toks)
  case (Cons t ts)
  consider "t = ''--ctx-size''" | "t = ''-c''" | v where "t = ''--ctx-size='' @ v" | v where "t = ''-c='' @ v"
    | "t \<noteq> ''--ctx-size''" "t \<noteq> ''-c''" "\<not> hasPrefix t ''--ctx-size=''" "\<not> hasPrefix t ''-c=''"
    using hasPrefix_iff by blast
  then show ?case
  proof cases
    case 1
    then show ?thesis using ctx_match(1) by (cases ts) (simp_all del: matchNames.simps)
  next
    case 2
    then show ?thesis using ctx_match(2) by (cases ts) (simp_all del: matchNames.simps)
  next
    case (3 v)
    have w: "isWord val \<Longrightarrow> isWord (''--ctx-size='' @ val)" by (simp add: isWord_def isSpaceB_def)
    have "setCtxTokens val (t # ts) = Some ((''--ctx-size='' @ val) # ts)" using 3 by (simp add: hasPrefix_def)
    then show ?thesis using ctx_match(3) w by (simp add: 3 del: matchNames.simps append_Cons append_Nil)
  next
    case (4 v)
    have w: "isWord val \<Longrightarrow> isWord (''-c='' @ val)" by (simp add: isWord_def isSpaceB_def)
    have "setCtxTokens val (t # ts) = Some ((''-c='' @ val) # ts)" using 4 by (simp add: hasPrefix_def)
    then show ?thesis using ctx_match(4) w by (simp add: 4 del: matchNames.simps append_Cons append_Nil)
  next
    case 5
    then show ?thesis using Cons ctx_match_other [OF 5] by (auto simp del: matchNames.simps split: option.splits)
  qed
qed simp

text \<open>
  After the fit guard has clamped a context, the command reads back the clamped value; a command
  without a context is returned unchanged.
\<close>

theorem clamp_readback:
  assumes "0 < n" and "n < 2 ^ 63"
  shows "if commandFlagString (goFields cmd) [''--ctx-size'', ''-c''] = None then setCtxSizeInCmd cmd n = cmd
         else commandFlagInt (goFields (setCtxSizeInCmd cmd n)) [''--ctx-size'', ''-c''] = Some n"
proof (cases "setCtxTokens (itoa n) (goFields cmd)")
  case None
  then show ?thesis using setCtx_read [where val = "itoa n" and toks = "goFields cmd"] by (simp add: setCtxSizeInCmd_def commandFlagString_def)
next
  case (Some r)
  then have r: "flagStr (goFields cmd) [''--ctx-size'', ''-c''] \<noteq> None" "flagStr r [''--ctx-size'', ''-c''] = Some (itoa n)"
    "list_all isWord r"
    using setCtx_read [where val = "itoa n" and toks = "goFields cmd"] fields_words [of cmd] itoa_word by auto
  then show ?thesis using assms
    by (auto simp: setCtxSizeInCmd_def Some fields_join commandFlagString_def commandFlagInt_def parsePositiveInt_def
        trimB_word itoa_word parseInt64_itoa)
qed

theorem clamp_readback_witness:
  "if commandFlagString (goFields ''s -c 9000 --jinja'') [''--ctx-size'', ''-c''] = None
   then setCtxSizeInCmd ''s -c 9000 --jinja'' 2048 = ''s -c 9000 --jinja''
   else commandFlagInt (goFields (setCtxSizeInCmd ''s -c 9000 --jinja'' 2048)) [''--ctx-size'', ''-c''] = Some 2048"
  by (rule clamp_readback) simp_all

subsection \<open>Patching value flags\<close>

lemma dropWhile_fix: "xs = [] \<or> \<not> P (hd xs) \<Longrightarrow> dropWhile P xs = xs"
  by (cases xs) auto

lemma trimB_fix: "s = [] \<or> \<not> isSpaceB (hd s) \<and> \<not> isSpaceB (last s) \<Longrightarrow> trimB s = s"
  by (auto simp: trimB_def dropWhile_fix hd_rev)

lemma trimB_last: "trimB s \<noteq> [] \<Longrightarrow> \<not> isSpaceB (last (trimB s))"
  unfolding trimB_def by (simp add: last_rev del: dropWhile_eq_Nil_conv) (rule hd_dropWhile)

text \<open>The handlers store a flag under its normalised name, and the editor normalises again: the name
  stays the same, so the value is found.\<close>

lemma normalizeCmdFlag_idem: "normalizeCmdFlag (normalizeCmdFlag f) = normalizeCmdFlag f"
proof -
  let ?d = "\<lambda>c. if c = CHR ''_'' then CHR ''-'' else c"
  let ?f = "trimB f"
  define g where "g = (case cutPrefix ?f ''--'' of Some r \<Rightarrow> r | None \<Rightarrow> ?f)"
  have n: "normalizeCmdFlag f = ''--'' @ map ?d g" by (simp add: normalizeCmdFlag_def g_def Let_def)
  have "g = ?f \<or> ?f = ''--'' @ g"
    unfolding g_def using cutPrefix_Some_iff [of ?f "''--''"] by (cases "cutPrefix ?f ''--''") (simp_all, blast?)
  then have ge: "g \<noteq> [] \<Longrightarrow> \<not> isSpaceB (last g)" using trimB_last [of f] by auto
  have d: "\<not> isSpaceB CHR ''-''" by code_simp
  have "\<not> isSpaceB (last (''--'' @ map ?d g))" using ge d by (cases "g = []") (auto simp: last_map)
  then have "trimB (''--'' @ map ?d g) = ''--'' @ map ?d g" using d by (intro trimB_fix) simp
  then have "normalizeCmdFlag (''--'' @ map ?d g) = ''--'' @ map ?d (map ?d g)"
    by (simp add: normalizeCmdFlag_def Let_def cutPrefix_def hasPrefix_def)
  then show ?thesis unfolding n by simp
qed

definition storedFlag :: "(string \<times> string) list \<Rightarrow> string \<Rightarrow> string" where
  "storedFlag flags k = trimB (case map_of flags k of Some v \<Rightarrow> v | None \<Rightarrow> [])"

lemma patchSteps_items:
  assumes "list_all (\<lambda>k. valueFlag F k \<and> plainValue (storedFlag flags k)) ks" and "cmdInv F items"
  shows "foldl (patchStep flags) (renderItems items) ks =
      renderItems (foldl (oneEdit setItem delItem) items (map (\<lambda>k. (k, Some (storedFlag flags k))) (filter (\<lambda>k. storedFlag flags k \<noteq> []) ks)))"
  using assms
proof (induction ks arbitrary: items)
  case (Cons k ks)
  show ?case
  proof (cases "storedFlag flags k = []")
    case True
    then show ?thesis using Cons by (simp add: patchStep_def storedFlag_def Let_def)
  next
    case False
    have "patchStep flags (renderItems items) k = renderItems (setItem k (storedFlag flags k) items)"
      using False Cons.prems cmdInv_usage [OF Cons.prems(2), of k] patchOne_items [of k items]
      unfolding patchStep_def storedFlag_def [symmetric] Let_def by simp
    moreover have "cmdInv F (setItem k (storedFlag flags k) items)"
      using Cons.prems by (intro setItem_inv) simp_all
    ultimately show ?thesis using False Cons.IH Cons.prems(1) by (simp add: oneEdit_def)
  qed
qed simp

text \<open>
  Patching value flags and reading one back gives the patched value, and the old one for a flag that
  the patch does not set: for a command with each value flag at most once, and flags stored under their
  normalised names.
\<close>

theorem patch_flags_readback:
  assumes "cmdInv F items" and "valueFlag F n"
    and "list_all (\<lambda>(k, v). normalizeCmdFlag k = k \<and> valueFlag F k \<and> plainValue (storedFlag flags k)) flags"
  shows "commandFlagString (foldl (patchStep flags) (renderItems items) (sort (map (normalizeCmdFlag \<circ> fst) flags))) [n] =
    (if storedFlag flags n = [] then commandFlagString (renderItems items) [n] else Some (storedFlag flags n))"
proof -
  define ks where "ks = sort (map (normalizeCmdFlag \<circ> fst) flags)"
  have set_ks: "set ks = fst ` set flags"
    unfolding ks_def using assms(3) by (force simp: list_all_iff image_iff)
  have ok: "list_all (\<lambda>k. valueFlag F k \<and> plainValue (storedFlag flags k)) ks"
    unfolding list_all_iff set_ks using assms(3) by (auto simp: list_all_iff)
  define es where "es = map (\<lambda>k. (k, Some (storedFlag flags k))) (filter (\<lambda>k. storedFlag flags k \<noteq> []) ks)"
  have es: "list_all (okEdit (valueFlag F) plainValue) es"
    using ok by (auto simp: es_def okEdit_def list_all_iff)
  let ?i = "foldl (oneEdit setItem delItem) items es"
  have args: "foldl (patchStep flags) (renderItems items) ks = renderItems ?i"
    unfolding es_def by (rule patchSteps_items [OF ok assms(1)])
  have inv: "cmdInv F ?i" by (rule cmd.edits_inv [OF es assms(1)])
  have read: "commandFlagString (renderItems its) [n] = getItem n its" if "cmdInv F its" for its
    using cmdInv_usage [OF that assms(2)] flagStr_items by (simp add: commandFlagString_def)
  have m: "map_of (rev es) n = (if n \<in> set ks \<and> storedFlag flags n \<noteq> [] then Some (Some (storedFlag flags n)) else None)"
  proof -
    have "rev es = map (\<lambda>k. (k, Some (storedFlag flags k))) (rev (filter (\<lambda>k. storedFlag flags k \<noteq> []) ks))"
      by (simp add: es_def rev_map)
    then show ?thesis by (simp add: map_of_map_restrict restrict_map_def)
  qed
  have "n \<in> set ks \<or> storedFlag flags n = []"
  proof (cases "map_of flags n")
    case None
    have "trimB [] = []" by (simp add: trimB_def)
    then show ?thesis by (simp add: storedFlag_def None)
  next
    case (Some v)
    then show ?thesis unfolding set_ks by (metis map_of_SomeD fst_conv image_eqI)
  qed
  then show ?thesis
    unfolding ks_def [symmetric] args read [OF inv] read [OF assms(1)] cmd.edits_get [OF es assms(1,2)] m by auto
qed

theorem patch_flags_readback_witness:
  "commandFlagString (foldl (patchStep [(''--ctx-size'', '' 8192''), (''--cache-type-k'', ''q8_0'')])
      (renderItems [Bare ''s'', Spaced ''-m'' ''a.gguf'', Joined ''--ctx-size'' ''4096''])
      (sort (map (normalizeCmdFlag \<circ> fst) [(''--ctx-size'', '' 8192''), (''--cache-type-k'', ''q8_0'')]))) [''--ctx-size''] =
    (if storedFlag [(''--ctx-size'', '' 8192''), (''--cache-type-k'', ''q8_0'')] ''--ctx-size'' = []
     then commandFlagString (renderItems [Bare ''s'', Spaced ''-m'' ''a.gguf'', Joined ''--ctx-size'' ''4096'']) [''--ctx-size'']
     else Some (storedFlag [(''--ctx-size'', '' 8192''), (''--cache-type-k'', ''q8_0'')] ''--ctx-size''))"
  by (rule patch_flags_readback [where F = "[''--ctx-size'', ''--cache-type-k'']"]; code_simp)

text \<open>
  A short flag becomes a name with three dashes, and a companion path that the command already sets
  is not replaced by a new one.
\<close>

theorem short_flags_and_companions:
  "normalizeCmdFlag ''-ngl'' = ''---ngl''
   \<and> patchCommandFlags goFields ''s -ngl 99'' [(normalizeCmdFlag ''-ngl'', ''20'')] = Some ''s -ngl 99 ---ngl 20''
   \<and> injectCompanionFlags goFields ''s --mmproj old.gguf'' [] ''new.gguf'' = ''s --mmproj old.gguf''"
  by code_simp

subsection \<open>The arguments of the preflight tool\<close>

text \<open>
  The preflight tool gets the command without the serving-only flags and their values, and with
  everything else in place.
\<close>

theorem fit_params_args_filter:
  assumes "wfItems items" and "list_all (\<lambda>n. usage n False items) serverOnlyFitParamsFlags"
  shows "fitParamsArgs (renderItems items) = renderItems (filter (\<lambda>it. itemName it \<notin> set serverOnlyFitParamsFlags) items)"
  using assms
proof (induction items)
  case Nil
  then show ?case by (simp add: renderItems_def)
next
  case (Cons it its)
  have wf: "wfItem it" and us: "itemName it \<in> set serverOnlyFitParamsFlags \<longrightarrow> usedAs False it"
    and ih: "fitParamsArgs (renderItems its) = renderItems (filter (\<lambda>it. itemName it \<notin> set serverOnlyFitParamsFlags) its)"
    using Cons by (auto simp: wfItems_def usage_def list_all_iff)
  have dash: "isDash n" if "n \<in> set serverOnlyFitParamsFlags" for n
  proof -
    have "list_all isDash serverOnlyFitParamsFlags" by code_simp
    then show ?thesis using that by (simp add: list_all_iff)
  qed
  have ren: "renderItems (x # xs) = itemTokens x @ renderItems xs" for x xs by (simp add: renderItems_def)
  have keep: "flagName t \<notin> set serverOnlyFitParamsFlags \<Longrightarrow> fitParamsArgs (t # ps) = t # fitParamsArgs ps" for t ps
    by (cases ps) simp_all
  have joined: "flagName t \<in> set serverOnlyFitParamsFlags \<Longrightarrow> hasEq t \<Longrightarrow> fitParamsArgs (t # ps) = fitParamsArgs ps" for t ps
    by (cases ps) simp_all
  have dashed: "flagName v = v \<or> isDash v = isDash (flagName v)" for v
    by (cases v) (auto simp: flagName_def isDash_def hasPrefix_def)
  show ?case
  proof (cases it)
    case (Bare t)
    then have "itemName it \<notin> set serverOnlyFitParamsFlags" using us by auto
    moreover have "flagName t = t \<or> \<not> isDash t" using wf Bare flagName_plain by auto
    then have "flagName t \<notin> set serverOnlyFitParamsFlags" using calculation Bare dash dashed [of t] by auto
    ultimately show ?thesis using Bare ih keep by (simp add: ren)
  next
    case (Spaced f v)
    then have f: "flagName f = f" "\<not> hasEq f" "\<not> isDash v" using wf flagName_plain by (auto simp: okFlag_def)
    then have "flagName v \<notin> set serverOnlyFitParamsFlags" using dash dashed [of v] by auto
    then show ?thesis using Spaced f ih keep by (auto simp: ren)
  next
    case (Joined f v)
    then have f: "flagName (f @ CHR ''='' # v) = f" using wf flagName_joined by (auto simp: okFlag_def)
    have "hasEq (f @ CHR ''='' # v)" by (simp add: hasEq_def)
    then show ?thesis using Joined f ih keep joined by (auto simp: ren)
  qed
qed

theorem fit_params_args_filter_witness:
  "fitParamsArgs (renderItems [Bare ''s'', Spaced ''--port'' ''9000'', Spaced ''-c'' ''4096'', Joined ''--host'' ''::'']) =
     renderItems (filter (\<lambda>it. itemName it \<notin> set serverOnlyFitParamsFlags)
       [Bare ''s'', Spaced ''--port'' ''9000'', Spaced ''-c'' ''4096'', Joined ''--host'' ''::''])"
  by (rule fit_params_args_filter; code_simp)

end
