(* ===== verification/Config_Edit.thy ===== *)
theory Config_Edit
  imports Cmd_Flags "HOL-Library.Countable"
begin

text \<open>
  The writers of the configuration file: \<open>internal/server/confighelpers.go\<close> (mapping nodes, reading and
  writing the root), \<open>apiconfig.go\<close> (add, patch and remove a model, patch a group, the default model) and
  \<open>apituning.go\<close> (the tuning block). The YAML library is a parameter: \<open>parse\<close> from the text to a node tree
  and \<open>marshal\<close> back. Comments and styles belong to the nodes and move with them; they are not modelled.
\<close>

subsection \<open>YAML nodes\<close>

datatype ynode_kind = MappingNode | SequenceNode | ScalarNode

datatype ynode = YNode (yn_kind: ynode_kind) (yn_tag: string) (yn_value: string) (yn_content: "ynode list")

definition yamlScalar :: "string \<Rightarrow> ynode" where
  "yamlScalar s = YNode ScalarNode ''!!str'' s []"

definition yamlInt :: "int \<Rightarrow> ynode" where
  "yamlInt n = YNode ScalarNode ''!!int'' (itoa n) []"

definition yamlBool :: "bool \<Rightarrow> ynode" where
  "yamlBool b = YNode ScalarNode ''!!bool'' (if b then ''true'' else ''false'') []"

definition emptyMapping :: ynode where
  "emptyMapping = YNode MappingNode ''!!map'' [] []"

definition yamlSeq :: "string list \<Rightarrow> ynode" where
  "yamlSeq xs = YNode SequenceNode ''!!seq'' [] (map yamlScalar xs)"

text \<open>A mapping node keeps its keys and values alternating in one list.\<close>

fun contentGet :: "string \<Rightarrow> ynode list \<Rightarrow> ynode option" where
  "contentGet k (x # v # r) = (if yn_value x = k then Some v else contentGet k r)"
| "contentGet k r = None"

fun contentSet :: "string \<Rightarrow> ynode \<Rightarrow> ynode list \<Rightarrow> ynode list" where
  "contentSet k n (x # v # r) = (if yn_value x = k then x # n # r else x # v # contentSet k n r)"
| "contentSet k n r = r @ [yamlScalar k, n]"

fun contentDel :: "string \<Rightarrow> ynode list \<Rightarrow> ynode list" where
  "contentDel k (x # v # r) = (if yn_value x = k then r else x # v # contentDel k r)"
| "contentDel k r = r"

fun withContent :: "(ynode list \<Rightarrow> ynode list) \<Rightarrow> ynode \<Rightarrow> ynode" where
  "withContent f (YNode kd tag v c) = YNode kd tag v (f c)"

definition yamlMapGet :: "ynode \<Rightarrow> string \<Rightarrow> ynode option" where
  "yamlMapGet m k = contentGet k (yn_content m)"

definition yamlMapSet :: "ynode \<Rightarrow> string \<Rightarrow> ynode \<Rightarrow> ynode" where
  "yamlMapSet m k v = withContent (contentSet k v) m"

definition yamlMapDelete :: "ynode \<Rightarrow> string \<Rightarrow> ynode" where
  "yamlMapDelete m k = withContent (contentDel k) m"

subsection \<open>The file\<close>

datatype edit_error =
    ReadFailed | ParseFailed | NotMapping | MarshalFailed | WriteFailed
  | ModelsMissing | ModelNotFound string | GroupsMissing | GroupNotFound string | NegativeLimit | BadCommand

text \<open>\<open>None\<close> from \<open>parse\<close> is a syntax error, \<open>Some None\<close> an empty document. The file is \<open>None\<close> when it
  cannot be read.\<close>

definition readYAMLRoot :: "(string \<Rightarrow> ynode option option) \<Rightarrow> string option \<Rightarrow> edit_error + ynode" where
  "readYAMLRoot parse cf =
     (case cf of
        None \<Rightarrow> Inl ReadFailed
      | Some txt \<Rightarrow>
          (case parse txt of
             None \<Rightarrow> Inl ParseFailed
           | Some None \<Rightarrow> Inr emptyMapping
           | Some (Some doc) \<Rightarrow> if yn_kind doc \<noteq> MappingNode then Inl NotMapping else Inr doc))"

text \<open>The write goes to a temporary file that is renamed: when either step fails (\<open>wr\<close> is false) the
  configuration file keeps its content.\<close>

definition writeYAMLRoot :: "(ynode \<Rightarrow> string option) \<Rightarrow> bool \<Rightarrow> ynode \<Rightarrow> string option \<Rightarrow> edit_error option \<times> string option" where
  "writeYAMLRoot marshal wr doc cf =
     (case marshal doc of
        None \<Rightarrow> (Some MarshalFailed, cf)
      | Some txt \<Rightarrow> if wr then (None, Some txt) else (Some WriteFailed, cf))"

text \<open>The writers that skip a write without effect compare the text of the root before and after.\<close>

definition commitRoot ::
  "(ynode \<Rightarrow> string option) \<Rightarrow> bool \<Rightarrow> string \<Rightarrow> ynode \<Rightarrow> string option \<Rightarrow> (edit_error + bool) \<times> string option" where
  "commitRoot marshal wr orig doc cf =
     (case marshal doc of
        None \<Rightarrow> (Inl MarshalFailed, cf)
      | Some txt \<Rightarrow>
          if txt = orig then (Inr False, cf)
          else if wr then (Inr True, Some txt) else (Inl WriteFailed, cf))"

record edit_env =
  ee_parse :: "string \<Rightarrow> ynode option option"
  ee_marshal :: "ynode \<Rightarrow> string option"
  ee_split :: "string \<Rightarrow> string list"
  ee_writeOk :: bool

text \<open>Read the root, edit it, and commit: an editor fails with an error and then nothing is written.\<close>

definition editFile :: "edit_env \<Rightarrow> (ynode \<Rightarrow> edit_error + ynode) \<Rightarrow> string option \<Rightarrow> (edit_error + bool) \<times> string option" where
  "editFile env f cf =
     (case readYAMLRoot (ee_parse env) cf of
        Inl e \<Rightarrow> (Inl e, cf)
      | Inr doc \<Rightarrow>
          (case ee_marshal env doc of
             None \<Rightarrow> (Inl MarshalFailed, cf)
           | Some orig \<Rightarrow>
               (case f doc of
                  Inl e \<Rightarrow> (Inl e, cf)
                | Inr doc' \<Rightarrow> commitRoot (ee_marshal env) (ee_writeOk env) orig doc' cf)))"

subsection \<open>Writing a model (writeModelToConfig)\<close>

record model_cfg =
  mc_cmd :: string
  mc_backend :: string
  mc_proxy :: string
  mc_name :: string
  mc_description :: string
  mc_aliases :: "string list"
  mc_unloadAfter :: int
  mc_concurrencyLimit :: int
  mc_draftModelPath :: string
  mc_projectorPath :: string

definition setText :: "string \<Rightarrow> string \<Rightarrow> ynode \<Rightarrow> ynode" where
  "setText k v m = (if v = [] then m else yamlMapSet m k (yamlScalar v))"

definition modelEntry :: "model_cfg \<Rightarrow> ynode" where
  "modelEntry mc =
     (let e1 = yamlMapSet emptyMapping ''cmd'' (yamlScalar (mc_cmd mc));
          e2 = setText ''backend'' (mc_backend mc) e1;
          e3 = setText ''proxy'' (mc_proxy mc) e2;
          e4 = setText ''name'' (mc_name mc) e3;
          e5 = setText ''description'' (mc_description mc) e4;
          e6 = (if mc_aliases mc = [] then e5 else yamlMapSet e5 ''aliases'' (yamlSeq (mc_aliases mc)));
          e7 = (if mc_unloadAfter mc = - 1 then e6 else yamlMapSet e6 ''ttl'' (yamlInt (mc_unloadAfter mc)))
      in if mc_concurrencyLimit mc = 0 then e7 else yamlMapSet e7 ''concurrencyLimit'' (yamlInt (mc_concurrencyLimit mc)))"

definition putModel :: "string \<Rightarrow> model_cfg \<Rightarrow> ynode \<Rightarrow> ynode" where
  "putModel mid mc doc =
     (let doc1 = (if yamlMapGet doc ''models'' = None then yamlMapSet doc ''models'' emptyMapping else doc)
      in yamlMapSet doc1 ''models'' (yamlMapSet (the (yamlMapGet doc1 ''models'')) mid (modelEntry mc)))"

definition writeModelToConfig :: "edit_env \<Rightarrow> string \<Rightarrow> model_cfg \<Rightarrow> string option \<Rightarrow> (edit_error + bool) \<times> string option" where
  "writeModelToConfig env mid mc = editFile env (\<lambda>doc. Inr (putModel mid mc doc))"

definition dropModel :: "string \<Rightarrow> ynode \<Rightarrow> ynode" where
  "dropModel mid doc =
     (case yamlMapGet doc ''models'' of
        None \<Rightarrow> doc
      | Some m \<Rightarrow> yamlMapSet doc ''models'' (yamlMapDelete m mid))"

definition removeModelFromConfig :: "edit_env \<Rightarrow> string \<Rightarrow> string option \<Rightarrow> (edit_error + bool) \<times> string option" where
  "removeModelFromConfig env mid = editFile env (\<lambda>doc. Inr (dropModel mid doc))"

subsection \<open>The other writers\<close>

definition plainEdit :: "edit_env \<Rightarrow> (ynode \<Rightarrow> edit_error + ynode) \<Rightarrow> string option \<Rightarrow> edit_error option \<times> string option" where
  "plainEdit env f cf =
     (case readYAMLRoot (ee_parse env) cf of
        Inl e \<Rightarrow> (Some e, cf)
      | Inr doc \<Rightarrow>
          (case f doc of
             Inl e \<Rightarrow> (Some e, cf)
           | Inr doc' \<Rightarrow> writeYAMLRoot (ee_marshal env) (ee_writeOk env) doc' cf))"

definition writeDefaultModelToConfig :: "edit_env \<Rightarrow> string \<Rightarrow> string option \<Rightarrow> edit_error option \<times> string option" where
  "writeDefaultModelToConfig env model =
     plainEdit env (\<lambda>doc. Inr (if model = [] then yamlMapDelete doc ''defaultModel''
                                else yamlMapSet doc ''defaultModel'' (yamlScalar model)))"

record group_patch =
  gp_autoUnload :: "bool option"
  gp_exclusive :: "bool option"
  gp_swap :: "bool option"

definition setBool :: "string \<Rightarrow> bool option \<Rightarrow> ynode \<Rightarrow> ynode" where
  "setBool k v m = (case v of None \<Rightarrow> m | Some b \<Rightarrow> yamlMapSet m k (yamlBool b))"

definition patchGroupNode :: "string \<Rightarrow> group_patch \<Rightarrow> ynode \<Rightarrow> edit_error + ynode" where
  "patchGroupNode gid req doc =
     (case yamlMapGet doc ''groups'' of
        None \<Rightarrow> Inl GroupsMissing
      | Some groups \<Rightarrow>
          (case yamlMapGet groups gid of
             None \<Rightarrow> Inl (GroupNotFound gid)
           | Some e \<Rightarrow>
               if yn_kind e \<noteq> MappingNode then Inl (GroupNotFound gid)
               else
                 let e' = setBool ''swap'' (gp_swap req) (setBool ''exclusive'' (gp_exclusive req) (setBool ''autoUnload'' (gp_autoUnload req) e))
                 in Inr (yamlMapSet doc ''groups'' (yamlMapSet groups gid e'))))"

definition patchGroupInConfig :: "edit_env \<Rightarrow> string \<Rightarrow> group_patch \<Rightarrow> string option \<Rightarrow> edit_error option \<times> string option" where
  "patchGroupInConfig env gid req = plainEdit env (patchGroupNode gid req)"

definition tuningEntry :: "tune_override \<Rightarrow> ynode" where
  "tuningEntry req =
     (let e1 = setBool ''enabled'' (ov_enabled req) emptyMapping;
          e2 = setBool ''flash_attn'' (ov_flashAttn req) e1;
          e3 = (case ov_parallel req of None \<Rightarrow> e2 | Some n \<Rightarrow> yamlMapSet e2 ''parallel'' (yamlInt n));
          e4 = setBool ''mtp'' (ov_mtp req) e3;
          e5 = setText ''gfx_target'' (ov_gfxTarget req) e4;
          e6 = setBool ''backend_env'' (ov_backendEnv req) e5
      in if ov_extraArgs req = [] then e6 else yamlMapSet e6 ''extra_args'' (yamlSeq (ov_extraArgs req)))"

definition putTuning :: "tune_override \<Rightarrow> ynode \<Rightarrow> ynode" where
  "putTuning req doc =
     (if yn_content (tuningEntry req) = [] then yamlMapDelete doc ''tuning''
      else yamlMapSet doc ''tuning'' (tuningEntry req))"

definition writeTuningToConfig :: "edit_env \<Rightarrow> tune_override \<Rightarrow> string option \<Rightarrow> edit_error option \<times> string option" where
  "writeTuningToConfig env req = plainEdit env (\<lambda>doc. Inr (putTuning req doc))"

subsection \<open>Patching a model (patchModelInConfig)\<close>

text \<open>A flag value of a JSON request; the other values print as \<open>fmt.Sprint\<close> prints them.\<close>

datatype json_val = JStr string | JNum rat | JBool bool | JOther string

fun flagValueString :: "json_val \<Rightarrow> string" where
  "flagValueString (JStr s) = s"
| "flagValueString (JNum x) = ftoa x"
| "flagValueString (JBool b) = (if b then ''true'' else ''false'')"
| "flagValueString (JOther s) = s"

record model_patch =
  pq_cmd :: "string option"
  pq_name :: "string option"
  pq_description :: "string option"
  pq_aliases :: "string list option"
  pq_ttl :: "int option"
  pq_mmprojPath :: "string option"
  pq_draftModelPath :: "string option"
  pq_limitCamel :: "int option"
  pq_limit :: "int option"
  pq_flags :: "(string \<times> json_val) list"
  pq_ctxSize :: "int option"
  pq_ctxSizeDash :: "int option"
  pq_nGpuLayers :: "int option"
  pq_nGpuLayersDash :: "int option"
  pq_cacheTypeK :: "string option"
  pq_cacheTypeKDash :: "string option"
  pq_cacheTypeV :: "string option"
  pq_cacheTypeVDash :: "string option"
  pq_nCpuMoe :: "int option"
  pq_nCpuMoeDash :: "int option"
  pq_cpuMoe :: "bool option"
  pq_cpuOffloadGb :: "int option"
  pq_cpuOffloadGbDash :: "int option"
  pq_overrideTensor :: "string option"
  pq_overrideTensorDash :: "string option"

definition noPatch :: model_patch where
  "noPatch = \<lparr>pq_cmd = None, pq_name = None, pq_description = None, pq_aliases = None, pq_ttl = None,
     pq_mmprojPath = None, pq_draftModelPath = None, pq_limitCamel = None, pq_limit = None, pq_flags = [],
     pq_ctxSize = None, pq_ctxSizeDash = None, pq_nGpuLayers = None, pq_nGpuLayersDash = None,
     pq_cacheTypeK = None, pq_cacheTypeKDash = None, pq_cacheTypeV = None, pq_cacheTypeVDash = None,
     pq_nCpuMoe = None, pq_nCpuMoeDash = None, pq_cpuMoe = None, pq_cpuOffloadGb = None,
     pq_cpuOffloadGbDash = None, pq_overrideTensor = None, pq_overrideTensorDash = None\<rparr>"

definition dashWins :: "'a option \<Rightarrow> 'a option \<Rightarrow> 'a option" where
  "dashWins plain dash = (if dash \<noteq> None then dash else plain)"

definition requestedCtxSize :: "model_patch \<Rightarrow> int option" where
  "requestedCtxSize req = dashWins (pq_ctxSize req) (pq_ctxSizeDash req)"

definition offloadSpecFromPatchRequest :: "model_patch \<Rightarrow> off_spec" where
  "offloadSpecFromPatchRequest req =
     \<lparr>os_nCpuMoe = dashWins (pq_nCpuMoe req) (pq_nCpuMoeDash req), os_cpuMoe = pq_cpuMoe req,
      os_cpuOffloadGB = dashWins (pq_cpuOffloadGb req) (pq_cpuOffloadGbDash req),
      os_overrideTensor = dashWins (pq_overrideTensor req) (pq_overrideTensorDash req)\<rparr>"

text \<open>The map of flags, as an association list with distinct keys.\<close>

definition putFlag :: "string \<Rightarrow> string \<Rightarrow> (string \<times> string) list \<Rightarrow> (string \<times> string) list" where
  "putFlag k v m = (k, v) # filter (\<lambda>x. fst x \<noteq> k) m"

definition putFlagOpt :: "string \<Rightarrow> string option \<Rightarrow> (string \<times> string) list \<Rightarrow> (string \<times> string) list" where
  "putFlagOpt k v m = (case v of None \<Rightarrow> m | Some x \<Rightarrow> putFlag k x m)"

definition requestFlags :: "model_patch \<Rightarrow> (string \<times> string) list" where
  "requestFlags req =
     (let m0 = foldl (\<lambda>m (k, v). putFlag (normalizeCmdFlag k) (flagValueString v) m) [] (pq_flags req);
          m1 = putFlagOpt ''--ctx-size'' (map_option itoa (requestedCtxSize req)) m0;
          m2 = putFlagOpt ''--n-gpu-layers'' (map_option itoa (dashWins (pq_nGpuLayers req) (pq_nGpuLayersDash req))) m1;
          m3 = putFlagOpt ''--cache-type-k'' (dashWins (pq_cacheTypeK req) (pq_cacheTypeKDash req)) m2
      in putFlagOpt ''--cache-type-v'' (dashWins (pq_cacheTypeV req) (pq_cacheTypeVDash req)) m3)"

definition mlxUnsupportedFlags :: "string list" where
  "mlxUnsupportedFlags = [''--ctx-size'', ''--cache-type-k'', ''--cache-type-v'', ''--n-gpu-layers'']"

definition keptFlags :: "string \<Rightarrow> (string \<times> string) list \<Rightarrow> (string \<times> string) list" where
  "keptFlags backend m = (if isLlamaCPP backend then m else filter (\<lambda>x. fst x \<notin> set mlxUnsupportedFlags) m)"

datatype patch_warning = IgnoredFlag string string | OffloadWarning off_warning

definition patchWarnings :: "string \<Rightarrow> model_patch \<Rightarrow> patch_warning list" where
  "patchWarnings backend req =
     (if isLlamaCPP backend then []
      else map (\<lambda>x. IgnoredFlag (fst x) backend) (filter (\<lambda>x. fst x \<in> set mlxUnsupportedFlags) (requestFlags req)))
     @ (let spec = offloadSpecFromPatchRequest req
        in if specEmpty spec then [] else map OffloadWarning (snd (translatorOps (translatorFor backend) spec)))"

definition entryCmd :: "ynode \<Rightarrow> string" where
  "entryCmd e = (case yamlMapGet e ''cmd'' of Some n \<Rightarrow> yn_value n | None \<Rightarrow> [])"

definition setOpt :: "string \<Rightarrow> ynode option \<Rightarrow> ynode \<Rightarrow> ynode" where
  "setOpt k v m = (case v of None \<Rightarrow> m | Some n \<Rightarrow> yamlMapSet m k n)"

definition setPath :: "string \<Rightarrow> string option \<Rightarrow> ynode \<Rightarrow> ynode" where
  "setPath k v m =
     (case v of
        None \<Rightarrow> m
      | Some path \<Rightarrow> if path = [] then yamlMapDelete m k else yamlMapSet m k (yamlScalar path))"

definition setLimit :: "int option \<Rightarrow> ynode \<Rightarrow> edit_error + ynode" where
  "setLimit v m =
     (case v of
        None \<Rightarrow> Inr m
      | Some n \<Rightarrow> if n < 0 then Inl NegativeLimit else Inr (yamlMapSet m ''concurrencyLimit'' (yamlInt n)))"

definition patchFields :: "model_patch \<Rightarrow> ynode \<Rightarrow> ynode" where
  "patchFields req e =
     setPath ''draftModelPath'' (pq_draftModelPath req)
       (setPath ''projectorPath'' (pq_mmprojPath req)
         (setOpt ''ttl'' (map_option yamlInt (pq_ttl req))
           (setOpt ''aliases'' (map_option yamlSeq (pq_aliases req))
             (setOpt ''description'' (map_option yamlScalar (pq_description req))
               (setOpt ''name'' (map_option yamlScalar (pq_name req))
                 (setOpt ''cmd'' (map_option yamlScalar (pq_cmd req)) e))))))"

definition setCmd :: "string option \<Rightarrow> ynode \<Rightarrow> edit_error + ynode" where
  "setCmd cmd e = (case cmd of None \<Rightarrow> Inl BadCommand | Some c \<Rightarrow> Inr (yamlMapSet e ''cmd'' (yamlScalar c)))"

definition patchFlags :: "edit_env \<Rightarrow> string \<Rightarrow> model_patch \<Rightarrow> ynode \<Rightarrow> edit_error + ynode" where
  "patchFlags env backend req e =
     (let flags = keptFlags backend (requestFlags req)
      in if flags = [] then Inr e else setCmd (patchCommandFlags (ee_split env) (entryCmd e) flags) e)"

definition patchOffload :: "edit_env \<Rightarrow> string \<Rightarrow> model_patch \<Rightarrow> ynode \<Rightarrow> edit_error + ynode" where
  "patchOffload env backend req e =
     (let spec = offloadSpecFromPatchRequest req
      in if specEmpty spec then Inr e
         else let fops = fst (translatorOps (translatorFor backend) spec)
              in if fops = [] then Inr e else setCmd (applyFlagOps (ee_split env) (entryCmd e) fops) e)"

definition chosenCompanion :: "string option \<Rightarrow> string \<Rightarrow> ynode \<Rightarrow> string" where
  "chosenCompanion v k e =
     (case v of Some x \<Rightarrow> x | None \<Rightarrow> (case yamlMapGet e k of Some n \<Rightarrow> yn_value n | None \<Rightarrow> []))"

definition patchCompanions :: "edit_env \<Rightarrow> model_patch \<Rightarrow> ynode \<Rightarrow> ynode" where
  "patchCompanions env req e =
     (if pq_mmprojPath req = None \<and> pq_draftModelPath req = None then e
      else
        let cmd = entryCmd e;
            patched = injectCompanionFlags (ee_split env) cmd (chosenCompanion (pq_draftModelPath req) ''draftModelPath'' e)
                        (chosenCompanion (pq_mmprojPath req) ''projectorPath'' e)
        in if patched \<noteq> cmd then yamlMapSet e ''cmd'' (yamlScalar patched) else e)"

definition patchEntry :: "edit_env \<Rightarrow> string \<Rightarrow> model_patch \<Rightarrow> ynode \<Rightarrow> edit_error + ynode" where
  "patchEntry env backend req e =
     (case setLimit (pq_limitCamel req) (patchFields req e) of
        Inl err \<Rightarrow> Inl err
      | Inr e1 \<Rightarrow>
          (case setLimit (pq_limit req) e1 of
             Inl err \<Rightarrow> Inl err
           | Inr e2 \<Rightarrow>
               (case patchFlags env backend req e2 of
                  Inl err \<Rightarrow> Inl err
                | Inr e3 \<Rightarrow> map_sum id (patchCompanions env req) (patchOffload env backend req e3))))"

definition patchModelNode :: "edit_env \<Rightarrow> string \<Rightarrow> string \<Rightarrow> model_patch \<Rightarrow> ynode \<Rightarrow> edit_error + ynode" where
  "patchModelNode env backend mid req doc =
     (case yamlMapGet doc ''models'' of
        None \<Rightarrow> Inl ModelsMissing
      | Some models \<Rightarrow>
          (case yamlMapGet models mid of
             None \<Rightarrow> Inl (ModelNotFound mid)
           | Some e \<Rightarrow>
               if yn_kind e \<noteq> MappingNode then Inl (ModelNotFound mid)
               else map_sum id (\<lambda>e'. yamlMapSet doc ''models'' (yamlMapSet models mid e')) (patchEntry env backend req e)))"

definition patchModelInConfig ::
  "edit_env \<Rightarrow> string \<Rightarrow> string \<Rightarrow> model_patch \<Rightarrow> string option \<Rightarrow> (edit_error + bool) \<times> string option" where
  "patchModelInConfig env backend mid req = editFile env (patchModelNode env backend mid req)"

subsection \<open>A mapping node is a keyed store\<close>

fun keysOf :: "ynode list \<Rightarrow> string list" where
  "keysOf (x # v # r) = yn_value x # keysOf r"
| "keysOf r = []"

definition mapOk :: "ynode \<Rightarrow> bool" where
  "mapOk m = (yn_kind m = MappingNode \<and> even (length (yn_content m)) \<and> distinct (keysOf (yn_content m)))"

lemma yn_value_scalar [simp]: "yn_value (yamlScalar k) = k"
  by (simp add: yamlScalar_def)

lemma withContent_sel [simp]:
  "yn_kind (withContent f m) = yn_kind m" "yn_content (withContent f m) = f (yn_content m)"
  by (cases m; simp)+

lemma contentSet_even: "even (length (contentSet k n c)) \<longleftrightarrow> even (length c)"
  by (induction k n c rule: contentSet.induct) simp_all

lemma contentSet_keys:
  "even (length c) \<Longrightarrow> keysOf (contentSet k n c) = (if k \<in> set (keysOf c) then keysOf c else keysOf c @ [k])"
  by (induction k n c rule: contentSet.induct) auto

lemma contentGet_set: "even (length c) \<Longrightarrow> contentGet j (contentSet k n c) = (if j = k then Some n else contentGet j c)"
  by (induction k n c rule: contentSet.induct) auto

lemma contentDel_even: "even (length (contentDel k c)) \<longleftrightarrow> even (length c)"
  by (induction k c rule: contentDel.induct) simp_all

lemma contentDel_keys: "keysOf (contentDel k c) = remove1 k (keysOf c)"
  by (induction k c rule: contentDel.induct) simp_all

lemma contentGet_None_iff: "contentGet k c = None \<longleftrightarrow> k \<notin> set (keysOf c)"
  by (induction k c rule: contentGet.induct) auto

lemma contentGet_del_other: "j \<noteq> k \<Longrightarrow> contentGet j (contentDel k c) = contentGet j c"
  by (induction k c rule: contentDel.induct) auto

lemma contentSet_again: "even (length c) \<Longrightarrow> contentSet k n (contentSet k n' c) = contentSet k n c"
  by (induction k n' c rule: contentSet.induct) auto

lemma contentSet_same: "contentGet k c = Some n \<Longrightarrow> contentSet k n c = c"
  by (induction k n c rule: contentSet.induct) (auto split: if_splits)

interpretation yaml: keyed_store mapOk "\<lambda>_. True" "\<lambda>_. True" "\<lambda>k m. yamlMapGet m k" "\<lambda>k v m. yamlMapSet m k v"
  "\<lambda>k m. yamlMapDelete m k"
proof
  fix m k v j
  assume m: "mapOk m"
  show "mapOk (yamlMapSet m k v)"
    using m by (auto simp: mapOk_def yamlMapSet_def contentSet_even contentSet_keys)
  show "mapOk (yamlMapDelete m k)"
    using m by (auto simp: mapOk_def yamlMapDelete_def contentDel_even contentDel_keys)
  show "yamlMapGet (yamlMapSet m k v) k = Some v"
    using m by (simp add: mapOk_def yamlMapGet_def yamlMapSet_def contentGet_set)
  show "yamlMapGet (yamlMapDelete m k) k = None"
    using m by (simp add: mapOk_def yamlMapGet_def yamlMapDelete_def contentGet_None_iff contentDel_keys)
  assume "j \<noteq> k"
  then show "yamlMapGet (yamlMapSet m k v) j = yamlMapGet m j"
    and "yamlMapGet (yamlMapDelete m k) j = yamlMapGet m j"
    using m by (simp_all add: mapOk_def yamlMapGet_def yamlMapSet_def yamlMapDelete_def contentGet_set contentGet_del_other)
qed

lemma mapSet_again: "mapOk m \<Longrightarrow> yamlMapSet (yamlMapSet m k v') k v = yamlMapSet m k v"
  by (cases m) (simp add: mapOk_def yamlMapSet_def contentSet_again)

lemma mapSet_same: "yamlMapGet m k = Some v \<Longrightarrow> yamlMapSet m k v = m"
  by (cases m) (simp add: yamlMapGet_def yamlMapSet_def contentSet_same)

lemma mapOk_empty [simp]: "mapOk emptyMapping"
  by (simp add: mapOk_def emptyMapping_def)

lemma mapGet_empty [simp]: "yamlMapGet emptyMapping k = None"
  by (simp add: yamlMapGet_def emptyMapping_def)

subsection \<open>What an edit of the file does\<close>

text \<open>The documents the writers edit: mappings down to the models; and what is used of the YAML library:
  the text of such a document parses back to it.\<close>

fun properNode :: "ynode \<Rightarrow> bool" where
  "properNode (YNode kd tag v c) = ((kd = ScalarNode \<longrightarrow> c = []) \<and> list_all properNode c)"

definition goodDoc :: "ynode \<Rightarrow> bool" where
  "goodDoc doc =
     (mapOk doc \<and> properNode doc
      \<and> (case yamlMapGet doc ''models'' of
           None \<Rightarrow> True
         | Some m \<Rightarrow> mapOk m))"

definition yamlRoundtrip :: "edit_env \<Rightarrow> bool" where
  "yamlRoundtrip env =
     (\<forall>doc. properNode doc \<and> yn_kind doc = MappingNode \<longrightarrow>
        (\<exists>t. ee_marshal env doc = Some t \<and> ee_parse env t = Some (Some doc)))"

lemma editFile_frame:
  "case editFile env f cf of
     (Inl e, cf') \<Rightarrow> cf' = cf
   | (Inr changed, cf') \<Rightarrow>
       (\<exists>doc doc' orig txt. readYAMLRoot (ee_parse env) cf = Inr doc \<and> f doc = Inr doc' \<and> ee_marshal env doc = Some orig
          \<and> ee_marshal env doc' = Some txt \<and> changed = (txt \<noteq> orig) \<and> cf' = (if changed then Some txt else cf))"
  by (auto simp: editFile_def commitRoot_def split: sum.splits option.splits)

lemma plainEdit_frame:
  "case plainEdit env f cf of
     (Some e, cf') \<Rightarrow> cf' = cf
   | (None, cf') \<Rightarrow>
       (\<exists>doc doc' txt. readYAMLRoot (ee_parse env) cf = Inr doc \<and> f doc = Inr doc'
          \<and> ee_marshal env doc' = Some txt \<and> cf' = Some txt)"
  by (auto simp: plainEdit_def writeYAMLRoot_def split: sum.splits option.splits)

lemma editFile_safe:
  "case editFile env f cf of (Inl e, cf') \<Rightarrow> cf' = cf | (Inr b, cf') \<Rightarrow> b \<or> cf' = cf"
  using editFile_frame [where env = env and f = f and cf = cf] by (auto split: prod.splits sum.splits)

text \<open>
  A writer that reports an error has left the configuration file as it was: adding, removing and
  patching a model, patching a group, the default model and the tuning block.
\<close>

theorem failed_edit_writes_nothing:
  "(case writeModelToConfig env mid mc cf of (Inl e, cf') \<Rightarrow> cf' = cf | (Inr b, cf') \<Rightarrow> b \<or> cf' = cf)
   \<and> (case removeModelFromConfig env mid cf of (Inl e, cf') \<Rightarrow> cf' = cf | (Inr b, cf') \<Rightarrow> b \<or> cf' = cf)
   \<and> (case patchModelInConfig env backend mid req cf of (Inl e, cf') \<Rightarrow> cf' = cf | (Inr b, cf') \<Rightarrow> b \<or> cf' = cf)
   \<and> (case patchGroupInConfig env gid greq cf of (Some e, cf') \<Rightarrow> cf' = cf | (None, cf') \<Rightarrow> True)
   \<and> (case writeDefaultModelToConfig env mid cf of (Some e, cf') \<Rightarrow> cf' = cf | (None, cf') \<Rightarrow> True)
   \<and> (case writeTuningToConfig env treq cf of (Some e, cf') \<Rightarrow> cf' = cf | (None, cf') \<Rightarrow> True)"
proof -
  note e = editFile_safe
  have p: "case plainEdit env f cf of (Some e, cf') \<Rightarrow> cf' = cf | (None, cf') \<Rightarrow> True" for f
    using plainEdit_frame [where env = env and f = f and cf = cf] by (auto split: prod.splits option.splits)
  show ?thesis
    unfolding writeModelToConfig_def removeModelFromConfig_def patchModelInConfig_def patchGroupInConfig_def
      writeDefaultModelToConfig_def writeTuningToConfig_def
    by (intro conjI e p)
qed

text \<open>With a faithful YAML library the file reads back as the edited document, nothing is written
  exactly when the edit changed nothing, and an edit that is its own fixed point writes only once.\<close>

lemma edit_effect:
  assumes "yamlRoundtrip env" and "readYAMLRoot (ee_parse env) cf = Inr doc" and "f doc = Inr doc'"
    and "properNode doc" "properNode doc'" and "yn_kind doc = MappingNode" "yn_kind doc' = MappingNode"
  shows "case editFile env f cf of
           (Inl e, cf') \<Rightarrow> e = WriteFailed \<and> \<not> ee_writeOk env
         | (Inr changed, cf') \<Rightarrow>
             readYAMLRoot (ee_parse env) cf' = Inr doc' \<and> changed = (doc' \<noteq> doc)
             \<and> (f doc' = Inr doc' \<longrightarrow> editFile env f cf' = (Inr False, cf'))"
proof -
  obtain t where t: "ee_marshal env doc = Some t" "ee_parse env t = Some (Some doc)"
    using assms(1,4,6) by (auto simp: yamlRoundtrip_def)
  obtain t' where t': "ee_marshal env doc' = Some t'" "ee_parse env t' = Some (Some doc')"
    using assms(1,5,7) by (auto simp: yamlRoundtrip_def)
  have e: "editFile env f cf = commitRoot (ee_marshal env) (ee_writeOk env) t doc' cf"
    by (simp add: editFile_def assms(2,3) t)
  have tt: "t' = t \<longleftrightarrow> doc' = doc" using t t' by auto
  have r: "readYAMLRoot (ee_parse env) (Some t') = Inr doc'" using t' assms(7) by (simp add: readYAMLRoot_def)
  have again: "editFile env f (Some t') = (Inr False, Some t')" if "f doc' = Inr doc'"
    by (simp add: editFile_def r that t' commitRoot_def)
  show ?thesis
  proof (cases "t' = t")
    case True
    then show ?thesis using tt t' assms(2) by (simp add: e commitRoot_def)
  next
    case False
    then show ?thesis using tt t' r again by (simp add: e commitRoot_def)
  qed
qed

lemma contentSet_proper: "list_all properNode c \<Longrightarrow> properNode n \<Longrightarrow> list_all properNode (contentSet k n c)"
  by (induction k n c rule: contentSet.induct) (simp_all add: yamlScalar_def)

lemma contentDel_proper: "list_all properNode c \<Longrightarrow> list_all properNode (contentDel k c)"
  by (induction k c rule: contentDel.induct) simp_all

lemma contentGet_proper: "list_all properNode c \<Longrightarrow> contentGet k c = Some n \<Longrightarrow> properNode n"
  by (induction k c rule: contentGet.induct) (auto split: if_splits)

lemma proper_set: "mapOk m \<Longrightarrow> properNode m \<Longrightarrow> properNode v \<Longrightarrow> properNode (yamlMapSet m k v)"
  by (cases m) (simp add: mapOk_def yamlMapSet_def contentSet_proper)

lemma proper_del: "mapOk m \<Longrightarrow> properNode m \<Longrightarrow> properNode (yamlMapDelete m k)"
  by (cases m) (simp add: mapOk_def yamlMapDelete_def contentDel_proper)

lemma proper_get: "properNode m \<Longrightarrow> yamlMapGet m k = Some v \<Longrightarrow> properNode v"
  by (cases m) (auto simp: yamlMapGet_def intro: contentGet_proper)

lemma proper_new [simp]:
  "properNode (yamlScalar s)" "properNode (yamlInt n)" "properNode (yamlBool b)" "properNode (yamlSeq xs)"
  "properNode emptyMapping"
  by (simp_all add: yamlScalar_def yamlInt_def yamlBool_def yamlSeq_def emptyMapping_def list_all_iff)

text \<open>An edited mapping: still a proper mapping, with the keys outside of \<open>K\<close> as they were.\<close>

definition edited :: "string set \<Rightarrow> ynode \<Rightarrow> ynode \<Rightarrow> bool" where
  "edited K m m' = (mapOk m' \<and> properNode m' \<and> (\<forall>k. k \<notin> K \<longrightarrow> yamlMapGet m' k = yamlMapGet m k))"

lemma edited_refl: "mapOk m \<Longrightarrow> properNode m \<Longrightarrow> edited K m m"
  by (simp add: edited_def)

lemma edited_trans: "edited K m m' \<Longrightarrow> edited K m' m'' \<Longrightarrow> edited K m m''"
  by (simp add: edited_def)

lemma edited_set: "edited K m m' \<Longrightarrow> k \<in> K \<Longrightarrow> properNode v \<Longrightarrow> edited K m (yamlMapSet m' k v)"
  by (auto simp: edited_def yaml.inv_put proper_set yaml.get_put)

lemma edited_del: "edited K m m' \<Longrightarrow> k \<in> K \<Longrightarrow> edited K m (yamlMapDelete m' k)"
  by (auto simp: edited_def yaml.inv_del proper_del yaml.get_del)

lemma edited_text: "edited K m m' \<Longrightarrow> k \<in> K \<Longrightarrow> edited K m (setText k v m')"
  by (simp add: setText_def edited_set)

definition entryKeys :: "string set" where
  "entryKeys = {''cmd'', ''backend'', ''proxy'', ''name'', ''description'', ''aliases'', ''ttl'', ''concurrencyLimit'',
                ''projectorPath'', ''draftModelPath''}"

lemma modelEntry_edited: "edited entryKeys emptyMapping (modelEntry mc)"
proof -
  have e: "edited entryKeys emptyMapping emptyMapping" by (rule edited_refl) simp_all
  show ?thesis unfolding modelEntry_def Let_def
    by (simp add: edited_set edited_text e entryKeys_def [THEN eqset_imp_iff])
qed

definition modelOf :: "string \<Rightarrow> ynode \<Rightarrow> ynode option" where
  "modelOf mid doc = Option.bind (yamlMapGet doc ''models'') (\<lambda>m. yamlMapGet m mid)"

text \<open>A document in which exactly the models \<open>M\<close> may differ.\<close>

definition sameBut :: "string \<Rightarrow> ynode \<Rightarrow> ynode \<Rightarrow> bool" where
  "sameBut mid doc doc' =
     ((\<forall>j. j \<noteq> mid \<longrightarrow> modelOf j doc' = modelOf j doc)
      \<and> (\<forall>k. k \<noteq> ''models'' \<longrightarrow> yamlMapGet doc' k = yamlMapGet doc k))"

lemma goodDoc_models:
  "goodDoc doc \<Longrightarrow> yamlMapGet doc ''models'' = Some m \<Longrightarrow> mapOk m \<and> properNode m"
  using proper_get by (auto simp: goodDoc_def)

lemma setModels:
  assumes "goodDoc doc" and "mapOk m" and "properNode m"
    and "\<And>j. j \<noteq> mid \<Longrightarrow> yamlMapGet m j = Option.bind (yamlMapGet doc ''models'') (\<lambda>x. yamlMapGet x j)"
  shows "goodDoc (yamlMapSet doc ''models'' m) \<and> sameBut mid doc (yamlMapSet doc ''models'' m)
       \<and> modelOf mid (yamlMapSet doc ''models'' m) = yamlMapGet m mid"
  using assms by (auto simp: goodDoc_def sameBut_def modelOf_def yaml.get_put yaml.inv_put proper_set)

lemma putModel_set:
  assumes "goodDoc doc"
  shows "putModel mid mc doc =
    yamlMapSet doc ''models'' (yamlMapSet (case yamlMapGet doc ''models'' of Some m \<Rightarrow> m | None \<Rightarrow> emptyMapping) mid (modelEntry mc))"
  using assms by (auto simp: putModel_def goodDoc_def Let_def yaml.get_put mapSet_again split: option.split)

lemma putModel_effect:
  assumes "goodDoc doc"
  shows "goodDoc (putModel mid mc doc) \<and> sameBut mid doc (putModel mid mc doc)
       \<and> modelOf mid (putModel mid mc doc) = Some (modelEntry mc)"
proof -
  let ?m = "case yamlMapGet doc ''models'' of Some m \<Rightarrow> m | None \<Rightarrow> emptyMapping"
  have m: "mapOk ?m" "properNode ?m" using goodDoc_models [OF assms] by (auto split: option.split)
  have n: "properNode (modelEntry mc)" using modelEntry_edited by (simp add: edited_def)
  show ?thesis unfolding putModel_set [OF assms]
    using setModels [OF assms yaml.inv_put [OF m(1)] proper_set [OF m n], of mid mid] m
    by (auto simp: yaml.get_put split: option.splits)
qed

lemma putModel_again: "goodDoc doc \<Longrightarrow> putModel mid mc (putModel mid mc doc) = putModel mid mc doc"
  using putModel_effect [of doc mid mc] putModel_set [of "putModel mid mc doc" mid mc] mapSet_same
  by (auto simp: modelOf_def split: option.splits Option.bind_splits)

lemma dropModel_effect:
  assumes "goodDoc doc"
  shows "goodDoc (dropModel mid doc) \<and> sameBut mid doc (dropModel mid doc) \<and> modelOf mid (dropModel mid doc) = None"
proof (cases "yamlMapGet doc ''models''")
  case None
  then show ?thesis using assms by (simp add: dropModel_def sameBut_def modelOf_def)
next
  case (Some m)
  then have m: "mapOk m" "properNode m" using goodDoc_models [OF assms] by auto
  show ?thesis
    using setModels [OF assms yaml.inv_del [OF m(1)] proper_del [OF m], of mid mid] m Some
    by (auto simp: dropModel_def yaml.get_del)
qed

lemma goodDoc_proper: "goodDoc doc \<Longrightarrow> properNode doc \<and> yn_kind doc = MappingNode"
  by (simp add: goodDoc_def mapOk_def)

subsection \<open>Adding and removing a model\<close>

text \<open>
  Adding a model puts exactly its entry under its id, leaves every other model and every other part
  of the configuration, fails only when the file cannot be written, reports a change exactly when there
  was one, and done again changes nothing and does not write.
\<close>

theorem write_model_effect:
  assumes "yamlRoundtrip env" and "readYAMLRoot (ee_parse env) cf = Inr doc" and "goodDoc doc"
  shows "case writeModelToConfig env mid mc cf of
           (Inl e, cf') \<Rightarrow> e = WriteFailed \<and> \<not> ee_writeOk env
         | (Inr changed, cf') \<Rightarrow>
             (\<exists>doc'. readYAMLRoot (ee_parse env) cf' = Inr doc' \<and> modelOf mid doc' = Some (modelEntry mc)
                \<and> sameBut mid doc doc' \<and> changed = (doc' \<noteq> doc)
                \<and> writeModelToConfig env mid mc cf' = (Inr False, cf'))"
proof -
  note g = putModel_effect [OF assms(3), of mid mc]
  show ?thesis
    using edit_effect [OF assms(1,2), of "\<lambda>doc. Inr (putModel mid mc doc)" "putModel mid mc doc"] g
      goodDoc_proper [OF assms(3)] goodDoc_proper [OF conjunct1 [OF g]] putModel_again [OF assms(3)]
    by (auto simp: writeModelToConfig_def split: prod.splits sum.splits)
qed

text \<open>
  Removing a model leaves no entry under its id and everything else as it was, fails only when the
  file cannot be written, and reports a change exactly when there was one.
\<close>

theorem remove_model_effect:
  assumes "yamlRoundtrip env" and "readYAMLRoot (ee_parse env) cf = Inr doc" and "goodDoc doc"
  shows "case removeModelFromConfig env mid cf of
           (Inl e, cf') \<Rightarrow> e = WriteFailed \<and> \<not> ee_writeOk env
         | (Inr changed, cf') \<Rightarrow>
             (\<exists>doc'. readYAMLRoot (ee_parse env) cf' = Inr doc' \<and> modelOf mid doc' = None
                \<and> sameBut mid doc doc' \<and> changed = (doc' \<noteq> doc))"
proof -
  note g = dropModel_effect [OF assms(3), of mid]
  show ?thesis
    using edit_effect [OF assms(1,2), of "\<lambda>doc. Inr (dropModel mid doc)" "dropModel mid doc"] g
      goodDoc_proper [OF assms(3)] goodDoc_proper [OF conjunct1 [OF g]]
    by (auto simp: removeModelFromConfig_def split: prod.splits sum.splits)
qed

subsection \<open>A concrete file\<close>

instance ynode_kind :: countable
  by countable_datatype

instance ynode :: countable
  by countable_datatype

text \<open>A text for every tree: its number in unary.\<close>

definition demoEnv :: edit_env where
  "demoEnv = \<lparr>ee_parse = (\<lambda>t. Some (Some (from_nat (length t)))), ee_marshal = (\<lambda>n. Some (replicate (to_nat n) CHR ''x'')),
     ee_split = goFields, ee_writeOk = True\<rparr>"

definition demoText :: "ynode \<Rightarrow> string option" where
  "demoText n = Some (replicate (to_nat n) CHR ''x'')"

lemma demo_roundtrip: "yamlRoundtrip demoEnv"
  by (simp add: yamlRoundtrip_def demoEnv_def)

lemma demo_read: "yn_kind n = MappingNode \<Longrightarrow> readYAMLRoot (ee_parse demoEnv) (demoText n) = Inr n"
  by (simp add: readYAMLRoot_def demoEnv_def demoText_def)

definition demoModel :: model_cfg where
  "demoModel = \<lparr>mc_cmd = ''s -m a.gguf'', mc_backend = ''llamacpp'', mc_proxy = [], mc_name = ''A'', mc_description = [],
     mc_aliases = [''a''], mc_unloadAfter = 300, mc_concurrencyLimit = 2, mc_draftModelPath = ''d.gguf'', mc_projectorPath = []\<rparr>"

definition demoDoc :: ynode where
  "demoDoc = YNode MappingNode ''!!map'' []
     [yamlScalar ''models'', YNode MappingNode ''!!map'' [] [yamlScalar ''b'', YNode MappingNode ''!!map'' [] [yamlScalar ''cmd'', yamlScalar ''s -m b.gguf'']]]"

lemma demo_good: "goodDoc demoDoc" "yn_kind demoDoc = MappingNode"
  by code_simp+

theorem write_model_effect_witness:
  "case writeModelToConfig demoEnv ''a'' demoModel (demoText demoDoc) of
     (Inl e, cf') \<Rightarrow> e = WriteFailed \<and> \<not> ee_writeOk demoEnv
   | (Inr changed, cf') \<Rightarrow>
       (\<exists>doc'. readYAMLRoot (ee_parse demoEnv) cf' = Inr doc' \<and> modelOf ''a'' doc' = Some (modelEntry demoModel)
          \<and> sameBut ''a'' demoDoc doc' \<and> changed = (doc' \<noteq> demoDoc)
          \<and> writeModelToConfig demoEnv ''a'' demoModel cf' = (Inr False, cf'))"
  by (rule write_model_effect [OF demo_roundtrip demo_read [OF demo_good(2)] demo_good(1)])

theorem remove_model_effect_witness:
  "case removeModelFromConfig demoEnv ''b'' (demoText demoDoc) of
     (Inl e, cf') \<Rightarrow> e = WriteFailed \<and> \<not> ee_writeOk demoEnv
   | (Inr changed, cf') \<Rightarrow>
       (\<exists>doc'. readYAMLRoot (ee_parse demoEnv) cf' = Inr doc' \<and> modelOf ''b'' doc' = None
          \<and> sameBut ''b'' demoDoc doc' \<and> changed = (doc' \<noteq> demoDoc))"
  by (rule remove_model_effect [OF demo_roundtrip demo_read [OF demo_good(2)] demo_good(1)])

subsection \<open>Patching a model\<close>

definition patchKeys :: "string set" where
  "patchKeys = {''cmd'', ''name'', ''description'', ''aliases'', ''ttl'', ''concurrencyLimit'', ''projectorPath'', ''draftModelPath''}"

lemma patchKeys_mem [simp]:
  "''cmd'' \<in> patchKeys" "''name'' \<in> patchKeys" "''description'' \<in> patchKeys" "''aliases'' \<in> patchKeys"
  "''ttl'' \<in> patchKeys" "''concurrencyLimit'' \<in> patchKeys" "''projectorPath'' \<in> patchKeys"
  "''draftModelPath'' \<in> patchKeys" "''backend'' \<notin> patchKeys" "''env'' \<notin> patchKeys"
  by (simp_all add: patchKeys_def)

lemma edited_opt: "edited K m m' \<Longrightarrow> k \<in> K \<Longrightarrow> (\<And>n. v = Some n \<Longrightarrow> properNode n) \<Longrightarrow> edited K m (setOpt k v m')"
  by (auto simp: setOpt_def edited_set split: option.split)

lemma edited_path: "edited K m m' \<Longrightarrow> k \<in> K \<Longrightarrow> edited K m (setPath k v m')"
  by (auto simp: setPath_def edited_set edited_del split: option.split)

lemma edited_fields:
  assumes "edited patchKeys e e'"
  shows "edited patchKeys e (patchFields req e')"
  unfolding patchFields_def by (intro edited_path edited_opt assms) auto

lemma edited_limit: "edited patchKeys e e' \<Longrightarrow> setLimit v e' = Inr e'' \<Longrightarrow> edited patchKeys e e''"
  by (auto simp: setLimit_def edited_set split: option.splits if_splits)

lemma edited_setCmd: "edited patchKeys e e' \<Longrightarrow> setCmd c e' = Inr e'' \<Longrightarrow> edited patchKeys e e''"
  by (auto simp: setCmd_def edited_set split: option.splits)

lemma edited_flags: "edited patchKeys e e' \<Longrightarrow> patchFlags env b req e' = Inr e'' \<Longrightarrow> edited patchKeys e e''"
  by (auto simp: patchFlags_def Let_def intro: edited_setCmd split: if_splits)

lemma edited_offload: "edited patchKeys e e' \<Longrightarrow> patchOffload env b req e' = Inr e'' \<Longrightarrow> edited patchKeys e e''"
  by (auto simp: patchOffload_def Let_def intro: edited_setCmd split: if_splits)

lemma edited_companions: "edited patchKeys e e' \<Longrightarrow> edited patchKeys e (patchCompanions env req e')"
  by (simp add: patchCompanions_def Let_def edited_set)

lemma map_sum_Inr [simp]: "map_sum id f x = Inr y \<longleftrightarrow> (\<exists>z. x = Inr z \<and> y = f z)"
  by (cases x) auto

lemma patchEntry_edited:
  assumes "mapOk e" and "properNode e" and "patchEntry env b req e = Inr e'"
  shows "edited patchKeys e e'"
proof -
  obtain e1 e2 e3 e4 where s: "setLimit (pq_limitCamel req) (patchFields req e) = Inr e1" "setLimit (pq_limit req) e1 = Inr e2"
    "patchFlags env b req e2 = Inr e3" "patchOffload env b req e3 = Inr e4" "e' = patchCompanions env req e4"
    using assms(3) by (auto simp: patchEntry_def split: sum.splits)
  have "edited patchKeys e (patchFields req e)" by (intro edited_fields edited_refl assms)
  then have "edited patchKeys e e4"
    using edited_limit edited_flags edited_offload s(1-4) by blast
  then show ?thesis unfolding s(5) by (rule edited_companions)
qed

text \<open>The id and its entry, as a mapping, in the document.\<close>

definition entryOk :: "string \<Rightarrow> ynode \<Rightarrow> bool" where
  "entryOk mid doc = (case modelOf mid doc of None \<Rightarrow> True | Some e \<Rightarrow> yn_kind e = MappingNode \<longrightarrow> mapOk e)"

lemma patchModelNode_effect:
  assumes "goodDoc doc" and "entryOk mid doc" and "patchModelNode env b mid req doc = Inr doc'"
  shows "goodDoc doc' \<and> sameBut mid doc doc' \<and>
     (\<exists>e e'. modelOf mid doc = Some e \<and> modelOf mid doc' = Some e' \<and> patchEntry env b req e = Inr e' \<and> edited patchKeys e e')"
proof -
  obtain m e e' where m: "yamlMapGet doc ''models'' = Some m" and e: "yamlMapGet m mid = Some e" "yn_kind e = MappingNode"
    and pe: "patchEntry env b req e = Inr e'" and doc': "doc' = yamlMapSet doc ''models'' (yamlMapSet m mid e')"
    using assms(3) by (auto simp: patchModelNode_def split: option.splits if_splits)
  have mok: "mapOk m" "properNode m" using goodDoc_models [OF assms(1) m] by auto
  have eo: "modelOf mid doc = Some e" by (simp add: modelOf_def m e)
  have ed: "edited patchKeys e e'"
    using patchEntry_edited [OF _ proper_get [OF mok(2) e(1)] pe] assms(2) e(2) by (simp add: entryOk_def eo)
  then have "properNode e'" by (simp add: edited_def)
  then show ?thesis
    using setModels [OF assms(1) yaml.inv_put [OF mok(1)] proper_set [OF mok], of e' mid mid] mok eo pe ed
    unfolding doc' by (auto simp: m yaml.get_put)
qed

text \<open>
  Patching a model replaces its entry by the patched entry, in which only the ten-odd keys a patch can
  name may differ, and leaves every other model and every other part of the configuration; the only
  errors besides a failed write are those of the request, and then nothing is written.
\<close>

theorem patch_model_effect:
  assumes "yamlRoundtrip env" and "readYAMLRoot (ee_parse env) cf = Inr doc" and "goodDoc doc" and "entryOk mid doc"
  shows "case patchModelInConfig env b mid req cf of
           (Inl err, cf') \<Rightarrow> cf' = cf \<and> (err = WriteFailed \<and> \<not> ee_writeOk env \<or> patchModelNode env b mid req doc = Inl err)
         | (Inr changed, cf') \<Rightarrow>
             (\<exists>doc' e e'. readYAMLRoot (ee_parse env) cf' = Inr doc' \<and> changed = (doc' \<noteq> doc) \<and> sameBut mid doc doc'
                \<and> modelOf mid doc = Some e \<and> modelOf mid doc' = Some e' \<and> patchEntry env b req e = Inr e'
                \<and> (\<forall>k. k \<notin> patchKeys \<longrightarrow> yamlMapGet e' k = yamlMapGet e k))"
proof (cases "patchModelNode env b mid req doc")
  case (Inl err)
  obtain t where "ee_marshal env doc = Some t"
    using assms(1) goodDoc_proper [OF assms(3)] by (auto simp: yamlRoundtrip_def)
  then have "patchModelInConfig env b mid req cf = (Inl err, cf)"
    by (simp add: patchModelInConfig_def editFile_def assms(2) Inl)
  then show ?thesis using Inl by simp
next
  case (Inr doc')
  note g = patchModelNode_effect [OF assms(3,4) Inr]
  have f: "case patchModelInConfig env b mid req cf of (Inl e, cf') \<Rightarrow> cf' = cf | (Inr b, cf') \<Rightarrow> b \<or> cf' = cf"
    unfolding patchModelInConfig_def by (rule editFile_safe)
  show ?thesis
    using edit_effect [OF assms(1,2), of "patchModelNode env b mid req" doc', OF Inr] g goodDoc_proper [OF assms(3)] goodDoc_proper [OF conjunct1 [OF g]] f
    by (auto simp: patchModelInConfig_def edited_def split: prod.splits sum.splits)
qed

lemma demo_entry: "entryOk ''b'' demoDoc"
  by code_simp

theorem patch_model_effect_witness:
  "case patchModelInConfig demoEnv [] ''b'' (noPatch\<lparr>pq_ctxSize := Some 8192\<rparr>) (demoText demoDoc) of
     (Inl err, cf') \<Rightarrow> cf' = demoText demoDoc \<and> (err = WriteFailed \<and> \<not> ee_writeOk demoEnv
        \<or> patchModelNode demoEnv [] ''b'' (noPatch\<lparr>pq_ctxSize := Some 8192\<rparr>) demoDoc = Inl err)
   | (Inr changed, cf') \<Rightarrow>
       (\<exists>doc' e e'. readYAMLRoot (ee_parse demoEnv) cf' = Inr doc' \<and> changed = (doc' \<noteq> demoDoc) \<and> sameBut ''b'' demoDoc doc'
          \<and> modelOf ''b'' demoDoc = Some e \<and> modelOf ''b'' doc' = Some e'
          \<and> patchEntry demoEnv [] (noPatch\<lparr>pq_ctxSize := Some 8192\<rparr>) e = Inr e'
          \<and> (\<forall>k. k \<notin> patchKeys \<longrightarrow> yamlMapGet e' k = yamlMapGet e k))"
  by (rule patch_model_effect [OF demo_roundtrip demo_read [OF demo_good(2)] demo_good(1) demo_entry])

definition wordEnv :: edit_env where
  "wordEnv = \<lparr>ee_parse = (\<lambda>_. None), ee_marshal = (\<lambda>_. None), ee_split = goFields, ee_writeOk = True\<rparr>"

text \<open>
  What a patch and an added model do not do: the typed companion paths of an added model are not
  stored, an emptied companion path stays in the command although the interface says that it removes the
  flag, and a whole number from a million on is printed with an exponent.
\<close>

theorem companion_and_number_gaps:
  "yamlMapGet (modelEntry demoModel) ''draftModelPath'' = None
   \<and> map_sum id entryCmd (patchEntry wordEnv [] (noPatch\<lparr>pq_draftModelPath := Some []\<rparr>)
        (yamlMapSet emptyMapping ''cmd'' (yamlScalar ''s --model-draft d.gguf''))) = Inr ''s --model-draft d.gguf''
   \<and> flagValueString (JNum 100000) = ''100000'' \<and> flagValueString (JNum 1000000) = ''1e+06''"
  by (intro conjI; code_simp)

subsection \<open>A models key without a value\<close>

text \<open>The text of a scalar does not depend on what hangs below its node.\<close>

fun bareNode :: "ynode \<Rightarrow> ynode" where
  "bareNode (YNode kd tag v c) = YNode kd tag v (if kd = ScalarNode then [] else map bareNode c)"

definition nullModelsDoc :: ynode where
  "nullModelsDoc = YNode MappingNode ''!!map'' [] [yamlScalar ''models'', YNode ScalarNode ''!!null'' [] []]"

text \<open>
  When the file has a \<open>models:\<close> key without a value, adding a model changes nothing and is reported as
  done: the entry is hung below the null scalar, which the YAML library prints without it.
\<close>

theorem null_models_swallow_add:
  assumes "\<forall>n. ee_marshal env n = ee_marshal env (bareNode n)" and "ee_marshal env nullModelsDoc = Some t"
    and "readYAMLRoot (ee_parse env) cf = Inr nullModelsDoc"
  shows "writeModelToConfig env mid mc cf = (Inr False, cf)"
proof -
  have "bareNode (putModel mid mc nullModelsDoc) = bareNode nullModelsDoc"
    by (simp add: putModel_def nullModelsDoc_def yamlMapGet_def yamlMapSet_def yamlScalar_def Let_def)
  then have "ee_marshal env (putModel mid mc nullModelsDoc) = Some t"
    using assms(1,2) by metis
  then show ?thesis using assms by (simp add: writeModelToConfig_def editFile_def commitRoot_def)
qed

theorem null_models_swallow_add_witness:
  "writeModelToConfig (demoEnv\<lparr>ee_marshal := \<lambda>n. Some (replicate (to_nat (bareNode n)) CHR ''x'')\<rparr>) ''a'' demoModel (demoText nullModelsDoc)
   = (Inr False, demoText nullModelsDoc)"
proof (rule null_models_swallow_add)
  have b: "bareNode (bareNode n) = bareNode n" for n by (induction n) simp
  show "\<forall>n. ee_marshal (demoEnv\<lparr>ee_marshal := \<lambda>n. Some (replicate (to_nat (bareNode n)) CHR ''x'')\<rparr>) n =
      ee_marshal (demoEnv\<lparr>ee_marshal := \<lambda>n. Some (replicate (to_nat (bareNode n)) CHR ''x'')\<rparr>) (bareNode n)"
    by (simp add: b)
  show "readYAMLRoot (ee_parse (demoEnv\<lparr>ee_marshal := \<lambda>n. Some (replicate (to_nat (bareNode n)) CHR ''x'')\<rparr>)) (demoText nullModelsDoc) = Inr nullModelsDoc"
    using demo_read [of nullModelsDoc] by (simp add: nullModelsDoc_def)
qed simp

end
