(* ===== verification/Perf_Stats.thy ===== *)
theory Perf_Stats
  imports Containers Op_Source Go_Text Go_Float "HOL-Library.Word"
begin

text \<open>
  What the host reports about itself: the cgroup limit that applies to the process
  (\<open>internal/perf/cgroup.go\<close>), the effective memory figures clamped by it and the sample monitor
  (\<open>internal/perf/monitor.go\<close>, \<open>types.go\<close>, \<open>latest.go\<close>). Files are a map from a path to its
  content; the samples themselves are inputs. Paths are Unix paths.
\<close>

named_theorems perf_simps "selectors and updates of the monitor's operations"

section \<open>Paths\<close>

definition relStep :: "string list \<Rightarrow> string \<Rightarrow> string list" where
  "relStep st w =
     (if w = [] \<or> w = ''.'' then st
      else if w = ''..'' then (if st = [] \<or> last st = ''..'' then st @ [''..''] else butlast st)
      else st @ [w])"

text \<open>\<open>filepath.Clean\<close>, \<open>filepath.Dir\<close> and \<open>filepath.Join\<close>.\<close>

definition cleanPath :: "string \<Rightarrow> string" where
  "cleanPath p =
     (if hasPrefix p ''/'' then cleanAbs p
      else let st = foldl relStep [] (splitOn CHR ''/'' p) in
        if st = [] then ''.'' else joinWith CHR ''/'' st)"

definition pathDir :: "string \<Rightarrow> string" where
  "pathDir p = (case lastIndex p ''/'' of None \<Rightarrow> ''.'' | Some i \<Rightarrow> cleanPath (take (i + 1) p))"

definition pathJoin :: "string list \<Rightarrow> string" where
  "pathJoin elems =
     (let es = dropWhile (\<lambda>w. w = []) elems in
      if es = [] then [] else cleanPath (joinWith CHR ''/'' es))"

text \<open>A cleaned path is no longer than what it was cleaned from.\<close>

fun segWeight :: "string list \<Rightarrow> nat" where
  "segWeight [] = 0"
| "segWeight (w # ws) = Suc (length w) + segWeight ws"

lemma segWeight_append [simp]: "segWeight (a @ b) = segWeight a + segWeight b"
  by (induction a) simp_all

lemma segWeight_butlast: "segWeight (butlast a) \<le> segWeight a"
  by (induction a) simp_all

lemma segWeight_foldl:
  assumes "\<And>st w. segWeight (f st w) \<le> segWeight st + (if w = [] then 0 else segWeight [w])"
  shows "segWeight (foldl f st ws) \<le> segWeight st + segWeight (filter (\<lambda>w. w \<noteq> []) ws)"
proof (induction ws arbitrary: st)
  case (Cons w ws)
  have "segWeight (foldl f st (w # ws)) \<le> segWeight (f st w) + segWeight (filter (\<lambda>w. w \<noteq> []) ws)"
    using Cons by simp
  then show ?case using assms [of st w] by (cases "w = []") auto
qed simp

lemma cleanStep_weight: "segWeight (cleanStep st w) \<le> segWeight st + (if w = [] then 0 else segWeight [w])"
  using segWeight_butlast [of st] by (auto simp: cleanStep_def)

lemma relStep_weight: "segWeight (relStep st w) \<le> segWeight st + (if w = [] then 0 else segWeight [w])"
  using segWeight_butlast [of st] by (auto simp: relStep_def)

lemma segWeight_join: "ws \<noteq> [] \<Longrightarrow> Suc (length (joinWith c ws)) = segWeight ws"
proof (induction ws)
  case (Cons w ws)
  then show ?case by (cases ws) (simp_all add: joinWith_Cons)
qed simp

lemma segWeight_split: "segWeight (splitOn c s) = Suc (length s)"
  using segWeight_join [of "splitOn c s" c] by (simp add: joinWith_splitOn)

lemma weight_blank_end: "ws \<noteq> [] \<Longrightarrow> last ws = [] \<Longrightarrow> Suc (segWeight (filter (\<lambda>w. w \<noteq> []) ws)) \<le> segWeight ws"
proof (induction ws rule: rev_induct)
  case (snoc w ws)
  have "segWeight (filter (\<lambda>w. w \<noteq> []) ws) \<le> segWeight ws" for ws by (induction ws) simp_all
  then show ?case using snoc by simp
qed simp

lemma split_end: "splitOn c (s @ [c]) = splitOn c s @ [[]]"
  by (induction s) (auto split: list.splits)

lemma cleanPath_shorter:
  assumes "last q = CHR ''/''" and "q \<noteq> []"
  shows "cleanPath q = ''/'' \<or> cleanPath q = ''.'' \<or> length (cleanPath q) < length q"
proof -
  let ?ws = "splitOn CHR ''/'' q"
  obtain p where q: "q = p @ ''/''" using assms by (metis append_butlast_last_id)
  then have ws: "?ws = splitOn CHR ''/'' p @ [[]]" by (simp add: split_end)
  have e: "Suc (segWeight (filter (\<lambda>w. w \<noteq> []) ?ws)) \<le> Suc (length q)"
    using weight_blank_end [of ?ws] ws segWeight_split [of "CHR ''/''" q] by simp
  show ?thesis
  proof (cases "hasPrefix q ''/''")
    case True
    let ?st = "foldl cleanStep [] ?ws"
    have w: "segWeight ?st \<le> segWeight (filter (\<lambda>w. w \<noteq> []) ?ws)"
      using segWeight_foldl [of cleanStep, OF cleanStep_weight, of "[]" ?ws] by simp
    show ?thesis
    proof (cases "?st = []")
      case False
      show ?thesis
      proof (cases "p = []")
        case False
        then obtain p' where p: "p = CHR ''/'' # p'" using True q by (cases p) (auto simp: hasPrefix_iff)
        then have "?ws = [] # splitOn CHR ''/'' p' @ [[]]" using ws by simp
        moreover have "Suc (segWeight (filter (\<lambda>w. w \<noteq> []) (splitOn CHR ''/'' p' @ [[]]))) \<le> Suc (Suc (length p'))"
          using weight_blank_end [of "splitOn CHR ''/'' p' @ [[]]"] segWeight_split [of "CHR ''/''" p'] by simp
        ultimately have "segWeight ?st \<le> Suc (length p')" using w by simp
        then show ?thesis
          using True segWeight_join [OF \<open>?st \<noteq> []\<close>, of "CHR ''/''"] p q
          by (simp add: cleanPath_def cleanAbs_def)
      next
        case True
        then have "?st = []" using ws by (simp add: cleanStep_def)
        then show ?thesis using False by blast
      qed
    next
      case True
      then show ?thesis using \<open>hasPrefix q ''/''\<close> by (simp add: cleanPath_def cleanAbs_def)
    qed
  next
    case False
    let ?st = "foldl relStep [] ?ws"
    have w: "segWeight ?st \<le> segWeight (filter (\<lambda>w. w \<noteq> []) ?ws)"
      using segWeight_foldl [of relStep, OF relStep_weight, of "[]" ?ws] by simp
    show ?thesis
    proof (cases "?st = []")
      case True
      then show ?thesis using False by (simp add: cleanPath_def Let_def)
    next
      case nonempty: False
      then show ?thesis using False w e segWeight_join [OF nonempty, of "CHR ''/''"]
        by (simp add: cleanPath_def Let_def)
    qed
  qed
qed

lemma pathDir_shorter: "pathDir p = ''/'' \<or> pathDir p = ''.'' \<or> length (pathDir p) < length p"
proof (cases "lastIndex p ''/''")
  case (Some i)
  then obtain r where r: "i \<le> length p" "drop i p = CHR ''/'' # r"
    using lastIndex_SomeD [OF Some] by (auto simp: hasPrefix_iff)
  then have i: "i < length p" by (cases "i = length p") simp_all
  moreover have "p ! i = CHR ''/''" using r i by (metis Cons_nth_drop_Suc list.inject)
  ultimately have q: "take (i + 1) p \<noteq> []" "last (take (i + 1) p) = CHR ''/''"
    by (auto simp: take_Suc_conv_app_nth)
  have "length (take (i + 1) p) \<le> length p" by simp
  then show ?thesis using cleanPath_shorter [OF q(2,1)] Some by (auto simp: pathDir_def)
qed (simp add: pathDir_def)

text \<open>The path itself, then its parents up to the visible root.\<close>

function walkUp :: "string \<Rightarrow> string list" where
  "walkUp p = p # (if p = ''/'' \<or> p = ''.'' then [] else walkUp (pathDir p))"
  by pat_completeness auto
termination
proof (relation "measure (\<lambda>p. if p = ''/'' \<or> p = ''.'' then 0 else Suc (length p))")
  show "(pathDir p, p) \<in> measure (\<lambda>p. if p = ''/'' \<or> p = ''.'' then 0 else Suc (length p))"
    if "\<not> (p = ''/'' \<or> p = ''.'')" for p
    using pathDir_shorter [of p] that by auto
qed simp

declare walkUp.simps [simp del]

section \<open>The cgroup limit\<close>

type_synonym host_files = "string \<Rightarrow> string option"

record mem_limit =
  ml_limit :: "64 word"
  ml_usage :: "64 word"
  ml_source :: string

definition cgroupV1Unlimited :: "64 word" where
  "cgroupV1Unlimited = push_bit 60 1"

text \<open>\<open>strconv.ParseUint(s, 10, 64)\<close>: digits only, within 64 bits.\<close>

definition parseUint64 :: "string \<Rightarrow> (64 word) option" where
  "parseUint64 s =
     (if s \<noteq> [] \<and> list_all isDigitCh s \<and> decimal s < 2 ^ 64 then Some (word_of_int (decimal s)) else None)"

definition parseLimitValue :: "string \<Rightarrow> (64 word) option" where
  "parseLimitValue raw =
     (let s = trimB raw in if s = [] \<or> s = ''max'' then None else parseUint64 s)"

text \<open>The path of the first unified line; later ones are not looked at.\<close>

fun ownPathV2 :: "string list \<Rightarrow> string" where
  "ownPathV2 [] = []"
| "ownPathV2 (l # ls) =
     (case cutPrefix l ''0::'' of Some rest \<Rightarrow> trimB rest | None \<Rightarrow> ownPathV2 ls)"

definition splitThree :: "char \<Rightarrow> string \<Rightarrow> (string \<times> string \<times> string) option" where
  "splitThree c s =
     (case splitOn c s of
        a # b # r # rs \<Rightarrow> Some (a, b, joinWith c (r # rs))
      | _ \<Rightarrow> None)"

fun ownPathV1 :: "string list \<Rightarrow> string" where
  "ownPathV1 [] = []"
| "ownPathV1 (l # ls) =
     (case splitThree CHR '':'' l of
        None \<Rightarrow> ownPathV1 ls
      | Some (_, ctrls, path) \<Rightarrow>
          if ''memory'' \<in> set (splitOn CHR '','' ctrls) \<and> trimB path \<noteq> [] then trimB path else ownPathV1 ls)"

text \<open>The loop over the ancestors keeps the most restrictive readable value that is a limit.\<close>

definition readLimit :: "host_files \<Rightarrow> string \<Rightarrow> string \<Rightarrow> string \<Rightarrow> (64 word) option" where
  "readLimit fs base name p =
     (case fs (pathJoin [base, p, name]) of None \<Rightarrow> None | Some raw \<Rightarrow> parseLimitValue raw)"

definition tighten :: "(64 word) option \<Rightarrow> (64 word) option \<Rightarrow> (64 word) option" where
  "tighten acc v =
     (case v of
        None \<Rightarrow> acc
      | Some x \<Rightarrow> (case acc of None \<Rightarrow> Some x | Some l \<Rightarrow> if x < l then Some x else acc))"

definition limitV2 :: "host_files \<Rightarrow> string \<Rightarrow> string \<Rightarrow> (64 word) option" where
  "limitV2 fs cgRoot own = foldl (\<lambda>acc p. tighten acc (readLimit fs cgRoot ''memory.max'' p)) None (walkUp own)"

definition v2Limit :: "host_files \<Rightarrow> string \<Rightarrow> string \<Rightarrow> mem_limit option" where
  "v2Limit fs selfCgroup cgRoot =
     (let own = ownPathV2 (splitOn newline selfCgroup) in
      if own = [] then None
      else case limitV2 fs cgRoot own of
        None \<Rightarrow> None
      | Some l \<Rightarrow>
          Some \<lparr>ml_limit = l,
                ml_usage = (case readLimit fs cgRoot ''memory.current'' own of None \<Rightarrow> 0 | Some u \<Rightarrow> u),
                ml_source = ''cgroup-v2''\<rparr>)"

definition realLimit :: "(64 word) option \<Rightarrow> (64 word) option" where
  "realLimit v = (case v of None \<Rightarrow> None | Some x \<Rightarrow> if x < cgroupV1Unlimited then Some x else None)"

definition limitV1 :: "host_files \<Rightarrow> string \<Rightarrow> string \<Rightarrow> (64 word) option" where
  "limitV1 fs base own =
     foldl (\<lambda>acc p. tighten acc (realLimit (readLimit fs base ''memory.limit_in_bytes'' p))) None (walkUp own)"

definition v1Limit :: "host_files \<Rightarrow> string \<Rightarrow> string \<Rightarrow> mem_limit option" where
  "v1Limit fs selfCgroup cgRoot =
     (let own = ownPathV1 (splitOn newline selfCgroup); base = pathJoin [cgRoot, ''memory''] in
      if own = [] then None
      else case limitV1 fs base own of
        None \<Rightarrow> None
      | Some l \<Rightarrow>
          Some \<lparr>ml_limit = l,
                ml_usage = (case readLimit fs base ''memory.usage_in_bytes'' own of None \<Rightarrow> 0 | Some u \<Rightarrow> u),
                ml_source = ''cgroup-v1''\<rparr>)"

definition effectiveMemoryLimitFrom :: "host_files \<Rightarrow> string \<Rightarrow> string \<Rightarrow> mem_limit option" where
  "effectiveMemoryLimitFrom fs selfFile cgRoot =
     (case fs selfFile of
        None \<Rightarrow> None
      | Some text \<Rightarrow>
          (case v2Limit fs text cgRoot of Some l \<Rightarrow> Some l | None \<Rightarrow> v1Limit fs text cgRoot))"

definition EffectiveMemoryLimit :: "bool \<Rightarrow> host_files \<Rightarrow> mem_limit option" where
  "EffectiveMemoryLimit linux fs =
     (if \<not> linux then None else effectiveMemoryLimitFrom fs ''/proc/self/cgroup'' ''/sys/fs/cgroup'')"

text \<open>The result is the least limit that was read.\<close>

definition leastLimit :: "(64 word) option \<Rightarrow> (64 word) option list \<Rightarrow> bool" where
  "leastLimit r vs \<longleftrightarrow>
     (case r of
        None \<Rightarrow> list_all (\<lambda>v. v = None) vs
      | Some l \<Rightarrow> Some l \<in> set vs \<and> list_all (\<lambda>v. case v of None \<Rightarrow> True | Some x \<Rightarrow> l \<le> x) vs)"

lemma least_tighten: "leastLimit acc vs \<Longrightarrow> leastLimit (tighten acc v) (vs @ [v])"
proof (cases v)
  case (Some x)
  assume l: "leastLimit acc vs"
  show ?thesis
  proof (cases acc)
    case None
    then show ?thesis using l Some by (auto simp: leastLimit_def tighten_def list_all_iff)
  next
    case (Some y)
    then show ?thesis using l \<open>v = Some x\<close>
      by (auto simp: leastLimit_def tighten_def list_all_iff not_less split: option.splits)
  qed
qed (auto simp: leastLimit_def tighten_def split: option.splits)

lemma least_fold: "leastLimit (foldl (\<lambda>acc p. tighten acc (f p)) None ps) (map f ps)"
  by (induction ps rule: rev_induct) (simp_all add: least_tighten, simp add: leastLimit_def)

section \<open>Samples\<close>

record sys_stat =
  ss_total :: int
  ss_free :: int
  ss_available :: int
  ss_pressure :: int
  ss_effTotal :: int
  ss_effAvailable :: int
  ss_source :: string

record gpu_stat =
  gs_time :: int
  gs_id :: int
  gs_util :: rat
  gs_activity :: rat
  gs_activityKnown :: bool
  gs_used :: int
  gs_total :: int

definition EffectiveMemTotalMB :: "sys_stat \<Rightarrow> int" where
  "EffectiveMemTotalMB s = (if ss_source s \<noteq> [] then ss_effTotal s else ss_total s)"

definition EffectiveMemAvailableMB :: "sys_stat \<Rightarrow> int" where
  "EffectiveMemAvailableMB s = (if ss_source s \<noteq> [] then ss_effAvailable s else ss_available s)"

definition toMB :: "64 word \<Rightarrow> int" where
  "toMB w = uint (w div (1024 * 1024))"

definition applyEffectiveMemoryLimit :: "sys_stat \<Rightarrow> mem_limit option \<Rightarrow> sys_stat" where
  "applyEffectiveMemoryLimit s0 limitOf =
     (let s = s0\<lparr>ss_effTotal := ss_total s0, ss_effAvailable := ss_available s0, ss_source := ''none''\<rparr> in
      case limitOf of
        None \<Rightarrow> s
      | Some l \<Rightarrow>
          let limitMB = toMB (ml_limit l) in
          if limitMB \<le> 0 \<or> limitMB > ss_total s then s
          else let remain = limitMB - toMB (ml_usage l);
                   remain = (if remain < 0 then 0 else remain) in
            s\<lparr>ss_source := ml_source l, ss_effTotal := limitMB,
              ss_effAvailable := (if remain < ss_effAvailable s then remain else ss_effAvailable s)\<rparr>)"

text \<open>The latest sample of each device, by its identifier.\<close>

fun latestPut :: "gpu_stat \<Rightarrow> (int \<times> gpu_stat) list \<Rightarrow> (int \<times> gpu_stat) list" where
  "latestPut g [] = [(gs_id g, g)]"
| "latestPut g ((k, prev) # rest) =
     (if k = gs_id g then (k, if gs_time prev < gs_time g then g else prev) # rest
      else (k, prev) # latestPut g rest)"

definition latestGPUs :: "gpu_stat list \<Rightarrow> gpu_stat list" where
  "latestGPUs stats = sort_key gs_id (map snd (foldl (\<lambda>m g. latestPut g m) [] stats))"

text \<open>
  The limit taken from the unified hierarchy is the least of the limits that can be read on the way
  from the process's own group to the visible root; without one no limit is reported.
\<close>

theorem cgroup_limit_is_tightest:
  "leastLimit (map_option ml_limit (v2Limit fs text cgRoot))
     (let own = ownPathV2 (splitOn newline text) in
      if own = [] then [] else map (readLimit fs cgRoot ''memory.max'') (walkUp own))"
  using least_fold [of "readLimit fs cgRoot ''memory.max''" "walkUp (ownPathV2 (splitOn newline text))"]
  by (auto simp: v2Limit_def limitV2_def Let_def leastLimit_def split: option.splits)

lemma effective_total: "EffectiveMemTotalMB (applyEffectiveMemoryLimit s l) \<le> ss_total s"
  by (auto simp: EffectiveMemTotalMB_def applyEffectiveMemoryLimit_def Let_def split: option.splits)

text \<open>
  The effective figures never exceed the measured ones, and a limit that applies leaves at most
  what the process's own group has not used of it.
\<close>

theorem effective_memory_bounds:
  assumes "0 \<le> ss_available s" and "ss_available s \<le> ss_total s"
    and "\<And>l. limitOf = Some l \<Longrightarrow> ml_source l \<noteq> []"
  shows "(let t = applyEffectiveMemoryLimit s limitOf in
          0 \<le> EffectiveMemAvailableMB t \<and> EffectiveMemAvailableMB t \<le> ss_available s \<and>
          EffectiveMemAvailableMB t \<le> EffectiveMemTotalMB t \<and> EffectiveMemTotalMB t \<le> ss_total s \<and>
          (case limitOf of None \<Rightarrow> EffectiveMemAvailableMB t = ss_available s
           | Some l \<Rightarrow> 0 < toMB (ml_limit l) \<and> toMB (ml_limit l) \<le> ss_total s \<longrightarrow>
               EffectiveMemTotalMB t = toMB (ml_limit l) \<and>
               EffectiveMemAvailableMB t = min (ss_available s) (max 0 (toMB (ml_limit l) - toMB (ml_usage l)))))"
proof (cases limitOf)
  case None
  then show ?thesis using assms(1,2)
    by (simp add: EffectiveMemTotalMB_def EffectiveMemAvailableMB_def applyEffectiveMemoryLimit_def Let_def)
next
  case (Some l)
  have "0 \<le> toMB (ml_usage l)" by (simp add: toMB_def)
  then show ?thesis using assms Some
    by (simp add: EffectiveMemTotalMB_def EffectiveMemAvailableMB_def applyEffectiveMemoryLimit_def Let_def)
qed

text \<open>One sample per device, the latest, in the order of their identifiers.\<close>

lemma latestPut_keys: "fst ` set (latestPut g m) = insert (gs_id g) (fst ` set m)"
  by (induction g m rule: latestPut.induct) auto

lemma latestPut_distinct: "distinct (map fst m) \<Longrightarrow> distinct (map fst (latestPut g m))"
proof (induction g m rule: latestPut.induct)
  case (2 g k prev rest)
  then show ?case using latestPut_keys [of g rest] by auto
qed simp

lemma map_of_latestPut:
  "map_of (latestPut g m) k =
     (if k = gs_id g
      then Some (case map_of m k of None \<Rightarrow> g | Some prev \<Rightarrow> if gs_time prev < gs_time g then g else prev)
      else map_of m k)"
  by (induction g m rule: latestPut.induct) auto

definition latestInv :: "gpu_stat list \<Rightarrow> (int \<times> gpu_stat) list \<Rightarrow> bool" where
  "latestInv gs m \<longleftrightarrow>
     distinct (map fst m) \<and>
     (\<forall>k. case map_of m k of
            None \<Rightarrow> k \<notin> gs_id ` set gs
          | Some h \<Rightarrow> gs_id h = k \<and> h \<in> set gs \<and> (\<forall>g \<in> set gs. gs_id g = k \<longrightarrow> gs_time g \<le> gs_time h))"

definition newestOf :: "gpu_stat list \<Rightarrow> int \<Rightarrow> gpu_stat option \<Rightarrow> bool" where
  "newestOf gs k r \<longleftrightarrow>
     (case r of
        None \<Rightarrow> k \<notin> gs_id ` set gs
      | Some h \<Rightarrow> gs_id h = k \<and> h \<in> set gs \<and> (\<forall>g \<in> set gs. gs_id g = k \<longrightarrow> gs_time g \<le> gs_time h))"

lemma newestOf_other: "newestOf gs k r \<Longrightarrow> k \<noteq> gs_id g \<Longrightarrow> newestOf (gs @ [g]) k r"
  by (auto simp: newestOf_def split: option.splits)

lemma newestOf_first: "newestOf gs (gs_id g) None \<Longrightarrow> newestOf (gs @ [g]) (gs_id g) (Some g)"
  by (auto simp: newestOf_def) (metis image_eqI)

lemma newestOf_same:
  "newestOf gs (gs_id g) (Some p) \<Longrightarrow> newestOf (gs @ [g]) (gs_id g) (Some (if gs_time p < gs_time g then g else p))"
  by (auto simp: newestOf_def)

lemma latestInv_put: "latestInv gs m \<Longrightarrow> latestInv (gs @ [g]) (latestPut g m)"
proof -
  assume i: "latestInv gs m"
  then have n: "newestOf gs k (map_of m k)" for k by (simp add: latestInv_def newestOf_def)
  have "newestOf (gs @ [g]) k (map_of (latestPut g m) k)" for k
  proof (cases "k = gs_id g")
    case True
    then show ?thesis using n [of k] newestOf_first [of gs g] newestOf_same [of gs g]
      by (cases "map_of m k") (simp_all add: map_of_latestPut)
  next
    case False
    then show ?thesis using n [of k] by (simp add: map_of_latestPut newestOf_other)
  qed
  then show ?thesis using i unfolding latestInv_def newestOf_def by (blast intro: latestPut_distinct)
qed

lemma latestInv_all: "latestInv gs (foldl (\<lambda>m g. latestPut g m) [] gs)"
  by (induction gs rule: rev_induct) (simp_all add: latestInv_put, simp add: latestInv_def)

text \<open>
  The monitor's series of GPU samples is reduced to one sample per device: the latest one, the
  devices in the order of their identifiers, none left out.
\<close>

theorem latest_sample_per_device:
  "sorted (map gs_id (latestGPUs gs)) \<and> distinct (map gs_id (latestGPUs gs)) \<and>
   gs_id ` set (latestGPUs gs) = gs_id ` set gs \<and>
   (\<forall>g \<in> set (latestGPUs gs). g \<in> set gs \<and> (\<forall>h \<in> set gs. gs_id h = gs_id g \<longrightarrow> gs_time h \<le> gs_time g))"
proof -
  let ?m = "foldl (\<lambda>m g. latestPut g m) [] gs"
  have i: "latestInv gs ?m" by (rule latestInv_all)
  then have d: "distinct (map fst ?m)" by (simp add: latestInv_def)
  have m: "(k, h) \<in> set ?m \<longleftrightarrow> map_of ?m k = Some h" for k h using d by simp
  have v: "gs_id h = k \<and> h \<in> set gs \<and> (\<forall>g \<in> set gs. gs_id g = k \<longrightarrow> gs_time g \<le> gs_time h)"
    if "(k, h) \<in> set ?m" for k h
    using i that unfolding m latestInv_def by (auto dest!: spec [of _ k])
  have f: "map gs_id (map snd ?m) = map fst ?m" using v by auto
  have "distinct (map gs_id (latestGPUs gs))"
    using d unfolding latestGPUs_def distinct_map distinct_sort set_sort f [symmetric] by (simp add: distinct_map)
  moreover have "gs_id ` set gs \<subseteq> gs_id ` set (latestGPUs gs)"
  proof
    fix k assume "k \<in> gs_id ` set gs"
    then obtain h where "map_of ?m k = Some h" using i by (auto simp: latestInv_def dest!: spec [of _ k] split: option.splits)
    then show "k \<in> gs_id ` set (latestGPUs gs)" using m v by (force simp: latestGPUs_def)
  qed
  ultimately show ?thesis using v by (auto simp: latestGPUs_def)
qed

section \<open>The monitor\<close>

text \<open>
  \<open>Monitor\<close>: its two rings, whether it is sampling, and the two one-shot signals, \<open>None\<close> before the
  first start. Subscribers only copy what is pushed and are left out.
\<close>

record monitor =
  mo_disabled :: bool
  mo_every :: int
  mo_sys :: "sys_stat ring"
  mo_gpu :: "gpu_stat list ring"
  mo_running :: bool
  mo_sampled :: "bool option"
  mo_absent :: "bool option"

definition hourNs :: int where "hourNs = 3600000000000"
definition minEvery :: int where "minEvery = 100000000"

definition zeroSys :: sys_stat where
  "zeroSys = \<lparr>ss_total = 0, ss_free = 0, ss_available = 0, ss_pressure = 0, ss_effTotal = 0, ss_effAvailable = 0,
              ss_source = []\<rparr>"

definition ringCapacity :: "int \<Rightarrow> int" where
  "ringCapacity every = (let n = hourNs div every in if n < 1 then 1 else n)"

definition newMonitor :: "bool \<Rightarrow> int \<Rightarrow> monitor" where
  "newMonitor disabled every0 =
     (let every = (if every0 < minEvery then minEvery else every0) in
      \<lparr>mo_disabled = disabled, mo_every = every, mo_sys = newBuffer zeroSys (ringCapacity every), mo_gpu = newBuffer [] (ringCapacity every),
       mo_running = False, mo_sampled = None, mo_absent = None\<rparr>)"

definition pushSysLocked :: "sys_stat \<Rightarrow> monitor \<Rightarrow> monitor" where
  "pushSysLocked s m = m\<lparr>mo_sys := ringPush s (mo_sys m)\<rparr>"

definition markSignal :: "bool option \<Rightarrow> bool option" where
  "markSignal sig = map_option (\<lambda>_. True) sig"

text \<open>
  What happens to a monitor: a start, with the synchronous reading of host memory; the ticks of the
  system sampler; the probe finding no GPU source; the snapshots of the GPU source and its end; a
  stop; a change of configuration.
\<close>

datatype mon_event =
    MonStart "sys_stat option" | SysTick "sys_stat option" | GpuMissing | GpuSnapshot "gpu_stat list"
  | GpuClosed | MonStop | MonConfig bool int "sys_stat option"

definition startMonitor :: "sys_stat option \<Rightarrow> monitor \<Rightarrow> monitor" where
  "startMonitor first m =
     (if mo_running m then m
      else let m = m\<lparr>mo_running := True, mo_sampled := Some False, mo_absent := Some False\<rparr> in
        case first of None \<Rightarrow> m | Some s \<Rightarrow> pushSysLocked s m)"

definition updateConfig :: "bool \<Rightarrow> int \<Rightarrow> sys_stat option \<Rightarrow> monitor \<Rightarrow> monitor" where
  "updateConfig disabled every first m =
     (if disabled = mo_disabled m \<and> every = mo_every m then m
      else let m = m\<lparr>mo_running := False, mo_disabled := disabled, mo_every := every,
                     mo_sys := newBuffer zeroSys (ringCapacity every), mo_gpu := newBuffer [] (ringCapacity every)\<rparr> in
        if disabled then m else startMonitor first m)"

fun monStep :: "mon_event \<Rightarrow> monitor \<Rightarrow> monitor" where
  "monStep (MonStart first) m = startMonitor first m"
| "monStep (SysTick s) m =
     (if \<not> mo_running m then m else case s of None \<Rightarrow> m | Some x \<Rightarrow> pushSysLocked x m)"
| "monStep GpuMissing m = m\<lparr>mo_absent := markSignal (mo_absent m)\<rparr>"
| "monStep (GpuSnapshot g) m =
     (if \<not> mo_running m then m
      else m\<lparr>mo_gpu := ringPush g (mo_gpu m), mo_sampled := markSignal (mo_sampled m)\<rparr>)"
| "monStep GpuClosed m = m\<lparr>mo_absent := markSignal (mo_absent m)\<rparr>"
| "monStep MonStop m = m\<lparr>mo_running := False\<rparr>"
| "monStep (MonConfig disabled every first) m = updateConfig disabled every first m"

definition currentStats :: "monitor \<Rightarrow> sys_stat list \<times> gpu_stat list" where
  "currentStats m = (ringSlice (mo_sys m), concat (ringSlice (mo_gpu m)))"

definition haveHostMemory :: "monitor \<Rightarrow> bool" where
  "haveHostMemory m = (ringLen (mo_sys m) > 0)"

definition GPUTelemetryAbsent :: "monitor \<Rightarrow> bool" where
  "GPUTelemetryAbsent m = (mo_absent m = Some True)"

text \<open>
  \<open>AwaitFirstSample\<close> when it returns: without a start it answers at once; otherwise it waits for a
  signal or the timeout, and \<open>None\<close> is still waiting.
\<close>

definition awaitFirstSample :: "bool \<Rightarrow> monitor \<Rightarrow> bool option" where
  "awaitFirstSample timedOut m =
     (case (mo_sampled m, mo_absent m) of
        (Some a, Some b) \<Rightarrow>
          if a \<or> b then Some (haveHostMemory m) else if timedOut then Some False else None
      | _ \<Rightarrow> Some (haveHostMemory m))"

inductive monitored :: "monitor \<Rightarrow> bool" where
  monitored_new: "monitored (newMonitor disabled every)"
| monitored_step: "monitored m \<Longrightarrow> monitored (monStep e m)"

definition monInv :: "monitor \<Rightarrow> bool" where
  "monInv m \<longleftrightarrow>
     ring_inv (mo_sys m) \<and> ring_inv (mo_gpu m) \<and> (mo_sampled m = None \<longleftrightarrow> mo_absent m = None) \<and>
     (mo_running m \<longrightarrow> mo_sampled m \<noteq> None \<and> (mo_sampled m = Some True \<longrightarrow> 0 < ringLen (mo_gpu m)))"

lemma ringLen_push: "ring_inv r \<Longrightarrow> ringLen (ringPush v r) = (if ringLen r < length (rbuf r) then ringLen r + 1 else ringLen r)"
  by (simp add: ringLen_def ringPush_def Let_def)

lemma ringLen_push_pos: "ring_inv r \<Longrightarrow> 0 < ringLen (ringPush v r)"
  by (auto simp: ringLen_def ringPush_def Let_def ring_inv_def)

lemma startMonitor_inv: "monInv m \<Longrightarrow> monInv (startMonitor first m)"
  by (auto simp: monInv_def startMonitor_def Let_def pushSysLocked_def ring_inv_push split: option.splits)

lemma monInv_reset:
  "monInv m \<Longrightarrow> monInv (m\<lparr>mo_running := False, mo_disabled := d, mo_every := e, mo_sys := newBuffer z k, mo_gpu := newBuffer y l\<rparr>)"
  by (simp add: monInv_def)

lemma updateConfig_inv: "monInv m \<Longrightarrow> monInv (updateConfig d e first m)"
  unfolding updateConfig_def Let_def by (simp add: monInv_reset startMonitor_inv)

lemma monStep_inv: "monInv m \<Longrightarrow> monInv (monStep e m)"
proof (cases e)
  case (GpuSnapshot g)
  assume "monInv m"
  then show ?thesis using ringLen_push_pos [of "mo_gpu m" g]
    by (auto simp: GpuSnapshot monInv_def markSignal_def ring_inv_push)
qed (auto simp: startMonitor_inv updateConfig_inv,
    auto simp: monInv_def markSignal_def pushSysLocked_def ring_inv_push split: option.splits)

lemma monitored_inv: "monitored m \<Longrightarrow> monInv m"
  by (induction rule: monitored.induct) (simp_all add: monStep_inv, simp add: monInv_def newMonitor_def Let_def)

text \<open>
  In every run of a sampling monitor, a wait that reports a complete picture means that host memory
  has been read and that a GPU snapshot has arrived or the host has no GPU source; a wait on a
  sampling monitor always ends with an answer once the timeout has passed.
\<close>

theorem awaited_picture_is_measured:
  assumes "monitored m" and "mo_running m"
  shows "(awaitFirstSample timedOut m = Some True \<longrightarrow>
            fst (currentStats m) \<noteq> [] \<and> (ringSlice (mo_gpu m) \<noteq> [] \<or> GPUTelemetryAbsent m)) \<and>
         awaitFirstSample True m \<noteq> None"
proof -
  have i: "monInv m" by (rule monitored_inv [OF assms(1)])
  have n: "ringSlice r \<noteq> [] \<longleftrightarrow> 0 < ringLen r" for r :: "'a ring"
    by (auto simp: ringSlice_def ringLen_def)
  show ?thesis using i assms(2)
    by (auto simp: awaitFirstSample_def currentStats_def GPUTelemetryAbsent_def n haveHostMemory_def monInv_def
        split: option.splits if_splits)
qed

section \<open>Concrete inputs\<close>

definition demoFiles :: host_files where
  "demoFiles p =
     (if p = ''/cg/pod/memory.max'' then Some (''4294967296'' @ [newline])
      else if p = ''/cg/pod/app/memory.max'' then Some (''max'' @ [newline])
      else if p = ''/cg/pod/memory.current'' then Some (''4294967296'' @ [newline])
      else if p = ''/cg/pod/app/memory.current'' then Some (''1048576'' @ [newline])
      else None)"

definition demoSys :: sys_stat where
  "demoSys = \<lparr>ss_total = 65536, ss_free = 1000, ss_available = 32000, ss_pressure = 0, ss_effTotal = 0,
              ss_effAvailable = 0, ss_source = []\<rparr>"

definition demoLimit :: mem_limit where
  "demoLimit = \<lparr>ml_limit = 4294967296, ml_usage = 1048576, ml_source = ''cgroup-v2''\<rparr>"

lemma effective_memory_bounds_witness:
  "(let t = applyEffectiveMemoryLimit demoSys (Some demoLimit) in
     EffectiveMemTotalMB t = 4096 \<and> EffectiveMemAvailableMB t = 4095)"
proof -
  have v: "toMB (ml_limit demoLimit) = 4096" "toMB (ml_usage demoLimit) = 1" by code_simp+
  have s: "ss_available demoSys = 32000" "ss_total demoSys = 65536" "ml_source demoLimit \<noteq> []"
    by (simp_all add: demoSys_def demoLimit_def)
  then show ?thesis using effective_memory_bounds [of demoSys "Some demoLimit"] v
    by (simp add: Let_def)
qed

definition demoMonitor :: monitor where
  "demoMonitor = monStep (GpuSnapshot []) (monStep (MonStart (Some demoSys)) (newMonitor False (5 * 10 ^ 9)))"

lemma awaited_picture_is_measured_witness:
  "awaitFirstSample False demoMonitor = Some True \<and> fst (currentStats demoMonitor) \<noteq> []"
proof -
  have m: "monitored demoMonitor"
    unfolding demoMonitor_def by (intro monitored_step monitored_new)
  have r: "mo_running demoMonitor"
    by (simp add: demoMonitor_def startMonitor_def pushSysLocked_def newMonitor_def Let_def)
  have "awaitFirstSample False demoMonitor = Some True"
    by (simp add: demoMonitor_def startMonitor_def pushSysLocked_def newMonitor_def Let_def awaitFirstSample_def
        markSignal_def haveHostMemory_def ringLen_def ringPush_def newBuffer_def)
  then show ?thesis using awaited_picture_is_measured [OF m r, of False] by simp
qed

text \<open>
  The usage that is subtracted is the process's own: a parent group that its other members have
  filled to its limit still reads as almost empty.
\<close>

theorem ancestor_usage_ignored:
  "v2Limit demoFiles (''0::/pod/app'' @ [newline]) ''/cg'' = Some demoLimit \<and>
   readLimit demoFiles ''/cg'' ''memory.current'' ''/pod'' = Some (ml_limit demoLimit) \<and>
   EffectiveMemAvailableMB (applyEffectiveMemoryLimit demoSys (Some demoLimit)) = 4095"
  by code_simp

end
