(* ===== verification/Fit_Report.thy ===== *)
theory Fit_Report
  imports Perf_Stats Cmd_Flags Ladder Profiles
begin

text \<open>
  What the server knows about a configured model: the memory budgets of the host and the fit of one
  model to it (\<open>internal/server/apifit.go\<close>), and the inputs and result of planning its placement
  (\<open>planInputs\<close>, \<open>planModel\<close> in \<open>placementguard.go\<close>, \<open>placementInputs\<close> in \<open>placementretry.go\<close>).
  The monitor's samples, the files on disk, the GGUF reader, the learned profiles and the running
  models are the host's view, an argument.
\<close>

named_theorems report_defs "unfolding rules of the fit report"

section \<open>The server and its host\<close>

record srv_model =
  sm_cmd :: string
  sm_backend :: string
  sm_useModelName :: string
  sm_draft :: string
  sm_projector :: string
  sm_healthTimeout :: int

record placed =
  pc_plan :: plan
  pc_original :: string
  pc_applied :: string
  pc_args :: string
  pc_weightBytes :: int

datatype fit_note =
    Computed fit_reason | NeedsUseModelName | NoMlxMetadata | OnlyGgufAndMlx | NoGgufMetadata

datatype unfit_reason = PlanRefuses place_reason | FitRefuses fit_note | WeightsExceed | DoesNotFit | NoMargin

text \<open>
  The part of \<open>Server\<close> that decides whether and how a model is loaded: the configured models (their
  commands as rewritten in memory), the placement records, the models known not to fit, the
  overrides handed to the router and the policy.
\<close>

record server =
  sv_models :: "string \<rightharpoonup> srv_model"
  sv_placements :: "string \<rightharpoonup> placed"
  sv_unfittable :: "string \<rightharpoonup> unfit_reason"
  sv_overrides :: "string \<rightharpoonup> (string \<times> int)"
  sv_policy :: placement_config

record gguf_info =
  gi_shape :: model_shape
  gi_splitMissing :: "string list"

text \<open>
  The host's view: the monitor (\<open>None\<close> without one), Apple's unified memory and its wired limit,
  the shell splitter, the GGUF and MLX readers, the sizes of files, the groups in one iteration
  order of the map, the loaded models, what identifies a weight file (size and time, the bytes of a
  split set) and an engine build, the learned profiles, the engine's fitting tool and the models the
  router has a process for, the ladder's history, the resolution of aliases and the
  retained load errors.
\<close>

record host_view =
  hv_monitor :: "monitor option"
  hv_unified :: bool
  hv_wiredMB :: int
  hv_split :: "string \<Rightarrow> string list"
  hv_gguf :: "string \<Rightarrow> gguf_info option"
  hv_mlx :: "string \<Rightarrow> model_shape option"
  hv_fileSize :: "string \<Rightarrow> int option"
  hv_groups :: "(string \<times> group_config) list"
  hv_loaded :: "string \<Rightarrow> bool"
  hv_stat :: "string \<Rightarrow> (int \<times> int) option"
  hv_setBytes :: "string \<Rightarrow> int option"
  hv_engine :: "string \<Rightarrow> string"
  hv_profiles :: profile_file
  hv_fitTool :: "srv_model \<Rightarrow> string option"
  hv_routed :: "string \<Rightarrow> bool"
  hv_attempts :: "string \<Rightarrow> attempt list"
  hv_realName :: "string \<Rightarrow> string option"
  hv_lastError :: "string \<Rightarrow> load_error option"

definition sanitized :: "host_view \<Rightarrow> srv_model \<Rightarrow> string list option" where
  "sanitized hv mc = sanitizeCommand (hv_split hv) (sm_cmd mc)"

section \<open>Budgets\<close>

definition max0 :: "int \<Rightarrow> int" where
  "max0 v = (if v < 0 then 0 else v)"

definition unifiedBudgetMB :: "int \<Rightarrow> int \<Rightarrow> int" where
  "unifiedBudgetMB totalRAM wiredLimitMB =
     (if wiredLimitMB > 0 then wiredLimitMB else i64 (totalRAM * 70) sdiv 100)"

definition hostVRAM :: "sys_stat list \<Rightarrow> gpu_stat list \<Rightarrow> bool \<Rightarrow> int \<Rightarrow> int \<times> int" where
  "hostVRAM sysStats gpuStats unified wired =
     (if sysStats = [] then (0, 0)
      else let sys = last sysStats;
               available0 = EffectiveMemAvailableMB sys;
               available = (if available0 = 0 \<and> ss_source sys = [] then ss_free sys else available0);
               gpus = latestGPUs gpuStats in
        if gpus = [] then
          (if unified
           then let budget = unifiedBudgetMB (EffectiveMemTotalMB sys) wired in (budget, max0 (min budget available))
           else (EffectiveMemTotalMB sys, max0 available))
        else let totalMB = sum_list (map gs_total gpus); usedMB = sum_list (map gs_used gpus) in
          if unified
          then let budget = unifiedBudgetMB totalMB wired; free0 = budget - usedMB in
            (budget, max0 (if available > 0 \<and> available < free0 then available else free0))
          else (totalMB, max0 (totalMB - usedMB)))"

definition vramMB :: "host_view \<Rightarrow> int \<times> int" where
  "vramMB hv =
     (case hv_monitor hv of
        None \<Rightarrow> (0, 0)
      | Some m \<Rightarrow>
          (case currentStats m of
             (sysStats, gpuStats) \<Rightarrow>
               if gpuStats = [] \<and> \<not> GPUTelemetryAbsent m then (0, 0)
               else hostVRAM sysStats gpuStats (hv_unified hv) (hv_wiredMB hv)))"

definition lastSys :: "host_view \<Rightarrow> sys_stat option" where
  "lastSys hv =
     (case hv_monitor hv of
        None \<Rightarrow> None
      | Some m \<Rightarrow> let s = fst (currentStats m) in if s = [] then None else Some (last s))"

definition hostMemMB :: "host_view \<Rightarrow> int \<times> int" where
  "hostMemMB hv =
     (case lastSys hv of None \<Rightarrow> (0, 0) | Some s \<Rightarrow> (EffectiveMemAvailableMB s, EffectiveMemTotalMB s))"

definition hostBudgetMB :: "placement_config \<Rightarrow> host_view \<Rightarrow> int" where
  "hostBudgetMB policy hv =
     (case lastSys hv of
        None \<Rightarrow> 0
      | Some s \<Rightarrow>
          let totalMB = EffectiveMemTotalMB s; avail = EffectiveMemAvailableMB s in
          if totalMB \<le> 0 \<or> avail \<le> 0 then 0 else max0 (avail - hostReserveMB policy totalMB))"

definition memberGroup :: "(string \<times> group_config) list \<Rightarrow> string \<Rightarrow> string option" where
  "memberGroup gs modelID =
     foldl (\<lambda>acc (gid, g). if modelID \<in> set (gc_members g) then Some gid else acc) None gs"

definition modelGetsWholeGPU :: "(string \<times> group_config) list \<Rightarrow> string \<Rightarrow> bool" where
  "modelGetsWholeGPU gs modelID =
     (case memberGroup gs modelID of
        None \<Rightarrow> False
      | Some grp \<Rightarrow>
          (case map_of gs grp of None \<Rightarrow> False | Some g \<Rightarrow> gc_exclusive g) \<and>
          list_all (\<lambda>(gid, g). gid = grp \<or> \<not> gc_persistent g) gs)"

section \<open>The fit of a model\<close>

record placement_decision =
  pd_mode :: plan_mode
  pd_reason :: place_reason
  pd_applied :: bool
  pd_estGpuMB :: int
  pd_estHostMB :: int
  pd_perfClass :: "perf_class option"
  pd_nCpuMoe :: "int option"
  pd_args :: "string option"
  pd_attempts :: "attempt list option"

record model_fit =
  mf_model :: string
  mf_backend :: string
  mf_fitLevel :: fit_level
  mf_maxSafeCtx :: int
  mf_configuredCtx :: "int option"
  mf_modelMB :: "int option"
  mf_kvMB :: "int option"
  mf_required :: "int option"
  mf_vramTotal :: "int option"
  mf_under :: "bool option"
  mf_maxFitCtx :: "int option"
  mf_maxPhysicalCtx :: "int option"
  mf_reason :: "fit_note option"
  mf_gpuResident :: "int option"
  mf_hostResident :: "int option"
  mf_runMode :: "run_mode option"
  mf_placement :: "placement_decision option"

definition emptyFit :: "string \<Rightarrow> string \<Rightarrow> model_fit" where
  "emptyFit model backend =
     \<lparr>mf_model = model, mf_backend = backend, mf_fitLevel = UnknownFit, mf_maxSafeCtx = 0, mf_configuredCtx = None,
      mf_modelMB = None, mf_kvMB = None, mf_required = None, mf_vramTotal = None, mf_under = None, mf_maxFitCtx = None,
      mf_maxPhysicalCtx = None, mf_reason = None, mf_gpuResident = None, mf_hostResident = None, mf_runMode = None,
      mf_placement = None\<rparr>"

definition positive :: "int \<Rightarrow> int option" where
  "positive v = (if v > 0 then Some v else None)"

definition fillModelFit :: "model_fit \<Rightarrow> fit_result \<Rightarrow> model_fit" where
  "fillModelFit mf r =
     mf\<lparr>mf_fitLevel := fr_fitLevel r, mf_maxSafeCtx := fr_maxSafeCtx r, mf_configuredCtx := Some (fr_configuredCtx r),
        mf_modelMB := Some (fr_modelMB r), mf_kvMB := Some (fr_kvMBAtMaxSafeCtx r),
        mf_required := Some (fr_vramRequiredMB r),
        mf_vramTotal := (if fr_vramTotalMB r > 0 then Some (fr_vramTotalMB r) else mf_vramTotal mf),
        mf_under := (if fr_underConfigured r then Some True else mf_under mf),
        mf_maxFitCtx := (if fr_maxFitCtx r > 0 then Some (fr_maxFitCtx r) else mf_maxFitCtx mf),
        mf_maxPhysicalCtx := (if fr_maxPhysicalCtx r > 0 then Some (fr_maxPhysicalCtx r) else mf_maxPhysicalCtx mf),
        mf_reason := Some (Computed (fr_reason r)), mf_gpuResident := Some (fr_gpuResidentMB r),
        mf_hostResident := Some (fr_hostResidentMB r), mf_runMode := Some (fr_runMode r)\<rparr>"

definition appliedCmd :: "server \<Rightarrow> string \<Rightarrow> string option" where
  "appliedCmd sv realName =
     (case sv_placements sv realName of
        None \<Rightarrow> None
      | Some rec \<Rightarrow> if pc_applied rec = [] then None else Some (pc_applied rec))"

definition attachPlacement :: "server \<Rightarrow> host_view \<Rightarrow> string \<Rightarrow> model_fit \<Rightarrow> model_fit" where
  "attachPlacement sv hv realName mf =
     (case sv_placements sv realName of
        None \<Rightarrow> mf
      | Some rec \<Rightarrow>
          let p = pc_plan rec in
          mf\<lparr>mf_placement := Some
               \<lparr>pd_mode = pl_mode p, pd_reason = pl_reason p, pd_applied = planApplies p,
                pd_estGpuMB = es_gpuMB (pl_estimate p), pd_estHostMB = es_hostMB (pl_estimate p),
                pd_perfClass = (if pl_perfClass p = NoClass then None else Some (pl_perfClass p)),
                pd_nCpuMoe = positive (pl_nCpuMoe p),
                pd_args = (if pc_args rec = [] then None else Some (pc_args rec)),
                pd_attempts = (if hv_attempts hv realName = [] then None else Some (hv_attempts hv realName))\<rparr>\<rparr>)"

definition orZero :: "int option \<Rightarrow> int" where
  "orZero v = (case v of None \<Rightarrow> 0 | Some n \<Rightarrow> n)"

definition cacheBits :: "string list \<Rightarrow> string list \<Rightarrow> rat" where
  "cacheBits args names = (case commandFlagString args names of None \<Rightarrow> 0 | Some t \<Rightarrow> bitsPerElement t)"

definition companionMB :: "host_view \<Rightarrow> string \<Rightarrow> int" where
  "companionMB hv path = (if path = [] then 0 else case hv_fileSize hv path of None \<Rightarrow> 0 | Some n \<Rightarrow> n sdiv mib)"

definition ggufParams :: "server \<Rightarrow> host_view \<Rightarrow> string \<Rightarrow> srv_model \<Rightarrow> string \<Rightarrow> string list \<Rightarrow> fit_params" where
  "ggufParams sv hv realName mc backend args =
     (let spec = translatorParse (translatorFor backend) args in
      noParams
        \<lparr>fp_kBits := cacheBits args [''--cache-type-k'', ''-ctk''],
         fp_vBits := cacheBits args [''--cache-type-v'', ''-ctv''],
         fp_ctx := orZero (commandFlagInt args [''--ctx-size'', ''-c'']),
         fp_slots := orZero (commandFlagInt args [''--parallel'', ''-np'']),
         fp_outputReserve := orZero (commandFlagInt args [''--n-predict'', ''-n'']),
         fp_cpuMoeAll := (os_cpuMoe spec = Some True),
         fp_nCpuMoe := (case os_nCpuMoe spec of Some n \<Rightarrow> if n > 0 then n else 0 | None \<Rightarrow> 0),
         fp_nGpuLayers := commandFlagInt args [''--n-gpu-layers'', ''-ngl'', ''--gpu-layers''],
         fp_hostBudget := hostBudgetMB (sv_policy sv) hv,
         fp_vramTotal := fst (vramMB hv),
         fp_vramFree := (if modelGetsWholeGPU (hv_groups hv) realName \<or> hv_loaded hv realName then 0 else snd (vramMB hv)),
         fp_draftMB := companionMB hv (sm_draft mc),
         fp_projectorMB := companionMB hv (sm_projector mc)\<rparr>)"

definition backendOf :: "srv_model \<Rightarrow> string" where
  "backendOf mc = (if sm_backend mc = [] then ''llamacpp'' else sm_backend mc)"

definition effectiveModel :: "server \<Rightarrow> string \<Rightarrow> srv_model \<Rightarrow> srv_model" where
  "effectiveModel sv realName mc =
     (case appliedCmd sv realName of Some c \<Rightarrow> mc\<lparr>sm_cmd := c\<rparr> | None \<Rightarrow> mc)"

definition noteFit :: "model_fit \<Rightarrow> fit_note \<Rightarrow> model_fit" where
  "noteFit mf why = mf\<lparr>mf_reason := Some why\<rparr>"

definition fitForModel :: "server \<Rightarrow> host_view \<Rightarrow> string \<Rightarrow> model_fit option" where
  "fitForModel sv hv realName =
     (case sv_models sv realName of
        None \<Rightarrow> None
      | Some mc \<Rightarrow>
          let backend = backendOf mc; mf = emptyFit realName backend in
          if backend = ''mlx'' then
            (if sm_useModelName mc = [] then Some (noteFit mf NeedsUseModelName)
             else case hv_mlx hv (sm_useModelName mc) of
               None \<Rightarrow> Some (noteFit mf NoMlxMetadata)
             | Some shape \<Rightarrow> Some (fillModelFit mf (analyzeShape shape (noParams\<lparr>fp_vramTotal := fst (vramMB hv)\<rparr>))))
          else let path = parseModelPath (hv_split hv) (sm_cmd mc) in
            if backend \<noteq> ''llamacpp'' \<or> path = [] then Some (noteFit mf OnlyGgufAndMlx)
            else case hv_gguf hv path of
              None \<Rightarrow> Some (noteFit mf NoGgufMetadata)
            | Some g \<Rightarrow>
                let args = (case sanitized hv (effectiveModel sv realName mc) of None \<Rightarrow> [] | Some a \<Rightarrow> a) in
                Some (attachPlacement sv hv realName
                  (fillModelFit mf (analyzeShape (gi_shape g) (ggufParams sv hv realName mc backend args)))))"

section \<open>Planning a model\<close>

definition planInputs :: "server \<Rightarrow> host_view \<Rightarrow> string \<Rightarrow> srv_model \<Rightarrow> plan_inputs option" where
  "planInputs sv hv mid mc =
     (if sm_backend mc \<noteq> [] \<and> sm_backend mc \<noteq> ''llamacpp'' then None
      else let path = parseModelPath (hv_split hv) (sm_cmd mc) in
        if path = [] then None
        else case hv_gguf hv path of
          None \<Rightarrow> None
        | Some g \<Rightarrow>
            if gi_splitMissing g \<noteq> [] then None
            else case sanitized hv mc of
              None \<Rightarrow> None
            | Some args \<Rightarrow>
                (case vramMB hv of
                   (totalMB, freeMB) \<Rightarrow>
                     (case hostMemMB hv of
                        (hostAvail, hostTotal) \<Rightarrow>
                          Some \<lparr>in_shape = gi_shape g,
                                in_ctx = orZero (commandFlagInt args [''--ctx-size'', ''-c'']),
                                in_slots = orZero (commandFlagInt args [''--parallel'', ''-np'']),
                                in_kBits = cacheBits args [''--cache-type-k'', ''-ctk''],
                                in_vBits = cacheBits args [''--cache-type-v'', ''-ctv''],
                                in_vramBudget = (if modelGetsWholeGPU (hv_groups hv) mid \<or> freeMB \<le> 0 then totalMB else freeMB),
                                in_hostAvailable = hostAvail, in_hostTotal = hostTotal,
                                in_pinned = hasPinnedPlacement args, in_policy = sv_policy sv\<rparr>)))"

definition placementKey :: "host_view \<Rightarrow> srv_model \<Rightarrow> int \<Rightarrow> place_key option" where
  "placementKey hv mc ctx =
     (let path = parseModelPath (hv_split hv) (sm_cmd mc) in
      if path = [] then None
      else case hv_stat hv path of
        None \<Rightarrow> None
      | Some (size0, mtime) \<Rightarrow>
          let modelSize = (case hv_setBytes hv path of Some b \<Rightarrow> if b > 0 then b else size0 | None \<Rightarrow> size0);
              vramTotal = fst (vramMB hv) in
          if vramTotal \<le> 0 then None
          else Some \<lparr>pk_modelPath = path, pk_modelSize = modelSize, pk_modelMtime = mtime,
                     pk_engine = (case sanitized hv mc of Some (b # _) \<Rightarrow> hv_engine hv b | _ \<Rightarrow> []),
                     pk_vramTotal = vramTotal, pk_hostTotal = snd (hostMemMB hv), pk_ctx = ctx\<rparr>)"

definition knownPlacement :: "host_view \<Rightarrow> string \<Rightarrow> srv_model \<Rightarrow> plan_inputs \<Rightarrow> profile option" where
  "knownPlacement hv mid mc i =
     (if in_pinned i then None
      else case placementKey hv mc (in_ctx i) of
        None \<Rightarrow> None
      | Some key \<Rightarrow> lookupProfile mid key (hv_profiles hv))"

definition newPlaced :: "plan \<Rightarrow> srv_model \<Rightarrow> int \<Rightarrow> placed" where
  "newPlaced p mc bytes = \<lparr>pc_plan = p, pc_original = sm_cmd mc, pc_applied = [], pc_args = [], pc_weightBytes = bytes\<rparr>"

definition planModel :: "server \<Rightarrow> host_view \<Rightarrow> string \<Rightarrow> srv_model \<Rightarrow> placed option" where
  "planModel sv hv mid mc =
     (case planInputs sv hv mid mc of
        None \<Rightarrow> None
      | Some i \<Rightarrow>
          Some (newPlaced
            (case knownPlacement hv mid mc i of
               Some profile \<Rightarrow> planFromProfile profile
             | None \<Rightarrow> compute i) mc (ms_weightBytes (in_shape i))))"

text \<open>\<open>placement.Inputs{Policy: ...}\<close>: no shape and no budgets.\<close>

definition noShape :: model_shape where
  "noShape = \<lparr>ms_layerCount = 0, ms_embeddingLength = 0, ms_keyLength = 0, ms_valueLength = 0, ms_headCount = 0,
     ms_headCountKV = 0, ms_fullAttentionInterval = 0, ms_weightBytes = 0, ms_trainedCtx = 0, ms_isMTP = False,
     ms_isMoE = False, ms_expertBytesTotal = 0, ms_expertBytesPerLayer = None\<rparr>"

definition fallbackInputs :: "placement_config \<Rightarrow> int \<Rightarrow> plan_inputs" where
  "fallbackInputs policy ctx =
     \<lparr>in_shape = noShape, in_ctx = ctx, in_slots = 0, in_kBits = 0, in_vBits = 0, in_vramBudget = 0,
      in_hostAvailable = 0, in_hostTotal = 0, in_pinned = False, in_policy = policy\<rparr>"

definition placementInputs :: "server \<Rightarrow> host_view \<Rightarrow> string \<Rightarrow> plan_inputs" where
  "placementInputs sv hv realName =
     (case (sv_models sv realName, sv_placements sv realName) of
        (Some mc, Some rec) \<Rightarrow>
          let orig = mc\<lparr>sm_cmd := pc_original rec\<rparr> in
          (case planInputs sv hv realName orig of
             Some i \<Rightarrow> i
           | None \<Rightarrow>
               fallbackInputs (sv_policy sv)
                 (case sanitized hv orig of
                    None \<Rightarrow> 0
                  | Some args \<Rightarrow> orZero (commandFlagInt args [''--ctx-size'', ''-c''])))
      | _ \<Rightarrow> fallbackInputs (sv_policy sv) 0)"

section \<open>What the report says\<close>

lemma max0_nonneg [simp]: "0 \<le> max0 v"
  by (simp add: max0_def)

lemma max0_le: "v \<le> b \<Longrightarrow> 0 \<le> b \<Longrightarrow> max0 v \<le> b"
  by (simp add: max0_def)

lemma unifiedBudget_nonneg: "0 \<le> n \<Longrightarrow> n \<le> 2 ^ 50 \<Longrightarrow> 0 \<le> unifiedBudgetMB n w"
  by (auto simp: unifiedBudgetMB_def i64_small sdiv_nonneg pos_imp_zdiv_nonneg_iff)

text \<open>
  The free budget of a card, of a unified memory or of the host's RAM is never negative and never
  exceeds the total it is reported with.
\<close>

theorem host_vram_bounds:
  assumes sys: "0 \<le> EffectiveMemTotalMB (last ss)" "EffectiveMemTotalMB (last ss) \<le> 2 ^ 50"
      "EffectiveMemAvailableMB (last ss) \<le> EffectiveMemTotalMB (last ss)" "ss_free (last ss) \<le> EffectiveMemTotalMB (last ss)"
    and gpus: "\<And>g. g \<in> set gs \<Longrightarrow> 0 \<le> gs_used g \<and> 0 \<le> gs_total g"
    and total: "sum_list (map gs_total (latestGPUs gs)) \<le> 2 ^ 50"
  shows "case hostVRAM ss gs unified wired of (t, f) \<Rightarrow> 0 \<le> f \<and> f \<le> t"
proof -
  have m: "g \<in> set gs" if "g \<in> set (latestGPUs gs)" for g
    using that latest_sample_per_device [of gs] by blast
  have u: "0 \<le> sum_list (map gs_used (latestGPUs gs))" using m gpus by (intro sum_list_nonneg) auto
  have t: "0 \<le> sum_list (map gs_total (latestGPUs gs))" using m gpus by (intro sum_list_nonneg) auto
  note b = unifiedBudget_nonneg [OF t total, of wired] unifiedBudget_nonneg [OF sys(1,2), of wired]
  show ?thesis using sys u t b by (auto simp: hostVRAM_def Let_def intro!: max0_le)
qed

lemma analyzeShape_total: "fr_vramTotalMB (analyzeShape g p) = fp_vramTotal p"
  by (simp add: analyzeShape_def sizedResult_def baseResult_def Let_def)

lemma attach_keeps [simp]:
  "mf_vramTotal (attachPlacement sv hv r mf) = mf_vramTotal mf" "mf_modelMB (attachPlacement sv hv r mf) = mf_modelMB mf"
  "mf_required (attachPlacement sv hv r mf) = mf_required mf" "mf_maxFitCtx (attachPlacement sv hv r mf) = mf_maxFitCtx mf"
  "mf_reason (attachPlacement sv hv r mf) = mf_reason mf" "mf_fitLevel (attachPlacement sv hv r mf) = mf_fitLevel mf"
  by (simp_all add: attachPlacement_def Let_def split: option.splits)

lemma ggufParams_total: "fp_vramTotal (ggufParams sv hv r mc b args) = fst (vramMB hv)"
  by (simp add: ggufParams_def Let_def)

lemma fill_sel [simp]:
  "mf_fitLevel (fillModelFit mf r) = fr_fitLevel r" "mf_modelMB (fillModelFit mf r) = Some (fr_modelMB r)"
  "mf_required (fillModelFit mf r) = Some (fr_vramRequiredMB r)" "mf_reason (fillModelFit mf r) = Some (Computed (fr_reason r))"
  "mf_vramTotal (fillModelFit mf r) = (if fr_vramTotalMB r > 0 then Some (fr_vramTotalMB r) else mf_vramTotal mf)"
  "mf_maxFitCtx (fillModelFit mf r) = (if fr_maxFitCtx r > 0 then Some (fr_maxFitCtx r) else mf_maxFitCtx mf)"
  by (simp_all add: fillModelFit_def)

lemma note_sel [simp]:
  "mf_vramTotal (noteFit mf w) = mf_vramTotal mf" "mf_fitLevel (noteFit mf w) = mf_fitLevel mf"
  "mf_modelMB (noteFit mf w) = mf_modelMB mf"
  by (simp_all add: noteFit_def)

lemma empty_sel [simp]:
  "mf_vramTotal (emptyFit m b) = None" "mf_fitLevel (emptyFit m b) = UnknownFit" "mf_modelMB (emptyFit m b) = None"
  "mf_maxFitCtx (emptyFit m b) = None"
  by (simp_all add: emptyFit_def)

text \<open>The three kinds of answer: nothing known, or a computed fit of an MLX or a GGUF model.\<close>

lemma fit_cases:
  assumes fit: "fitForModel sv hv r = Some mf"
  obtains (noted) b w where "mf = noteFit (emptyFit r b) w"
    | (mlx) b shape where "mf = fillModelFit (emptyFit r b) (analyzeShape shape (noParams\<lparr>fp_vramTotal := fst (vramMB hv)\<rparr>))"
    | (gguf) mc b args and g :: gguf_info where "sv_models sv r = Some mc"
        "mf = attachPlacement sv hv r (fillModelFit (emptyFit r b) (analyzeShape (gi_shape g) (ggufParams sv hv r mc b args)))"
proof -
  obtain mc where mc: "sv_models sv r = Some mc" using fit by (auto simp: fitForModel_def split: option.splits)
  note f = fit [unfolded fitForModel_def mc option.case Let_def]
  show ?thesis
  proof (cases "backendOf mc = ''mlx''")
    case True
    show ?thesis
    proof (cases "sm_useModelName mc = [] \<or> hv_mlx hv (sm_useModelName mc) = None")
      case no: True
      then show ?thesis using f True noted by (auto split: if_splits)
    next
      case False
      then show ?thesis using f True mlx by auto
    qed
  next
    case False
    let ?p = "parseModelPath (hv_split hv) (sm_cmd mc)"
    show ?thesis
    proof (cases "backendOf mc \<noteq> ''llamacpp'' \<or> ?p = [] \<or> hv_gguf hv ?p = None")
      case True
      then show ?thesis using f False noted by (auto split: if_splits)
    next
      case some: False
      then obtain g where g: "hv_gguf hv ?p = Some g" by auto
      from f False some g show ?thesis by (intro gguf [OF mc, where g = g and b = "''llamacpp''"]) (simp, rule sym, assumption)
    qed
  qed
qed

lemma fit_total:
  assumes "fitForModel sv hv r = Some mf"
  shows "mf_vramTotal mf = (if 0 < fst (vramMB hv) then Some (fst (vramMB hv)) else None) \<or> mf_vramTotal mf = None"
  using assms
proof (cases rule: fit_cases)
  case (gguf mc b args g)
  show ?thesis unfolding gguf(2) by (simp add: analyzeShape_total ggufParams_total)
qed (simp_all add: analyzeShape_total)

end
