(* ===== verification/Load_Guard.thy ===== *)
theory Load_Guard
  imports Fit_Report
begin

text \<open>
  The guards of the load path: the context clamp and the refusals of \<open>internal/server/fitguard.go\<close>, the
  enactment of placements (\<open>applyAutoPlacement\<close>, \<open>applyPlanned\<close> in \<open>placementguard.go\<close>), the deferred
  planning and the retry of \<open>placementretry.go\<close>, and the load gate that puts them together.
\<close>

named_theorems guard_simps "the load path's updates of the server"

section \<open>Decisions\<close>

definition minViableCtx :: int where "minViableCtx = 2048"

definition fitConfidentlySized :: "model_fit \<Rightarrow> bool" where
  "fitConfidentlySized mf = (orZero (mf_vramTotal mf) > 0 \<and> orZero (mf_modelMB mf) > 0 \<and> mf_required mf \<noteq> None)"

definition noteOr :: "unfit_reason \<Rightarrow> fit_note option \<Rightarrow> unfit_reason" where
  "noteOr d why = (case why of None \<Rightarrow> d | Some n \<Rightarrow> FitRefuses n)"

text \<open>The context to clamp to (0 for none) and the reason not to load the model at all.\<close>

definition ctxClampDecision :: "model_fit \<Rightarrow> bool \<Rightarrow> int \<times> unfit_reason option" where
  "ctxClampDecision mf decided =
     (if \<not> fitConfidentlySized mf then (0, None)
      else if orZero (mf_required mf) \<le> orZero (mf_vramTotal mf) then (0, None)
      else let maxFit = orZero (mf_maxFitCtx mf) in
        if maxFit \<ge> minViableCtx then (maxFit, None)
        else if \<not> decided then (0, None)
        else (0, Some (noteOr WeightsExceed (mf_reason mf))))"

definition confidentNoFit :: "model_fit \<Rightarrow> bool" where
  "confidentNoFit mf = (mf_fitLevel mf = NoFit \<and> orZero (mf_vramTotal mf) > 0 \<and> orZero (mf_modelMB mf) > 0)"

text \<open>\<open>None\<close> for the fit is \<open>ok = false\<close>. The refusal, and whether the cached verdict is dropped.\<close>

definition liveRefusal :: "model_fit option \<Rightarrow> unfit_reason option" where
  "liveRefusal fitOf =
     (case fitOf of
        None \<Rightarrow> None
      | Some mf \<Rightarrow> if confidentNoFit mf then Some (noteOr DoesNotFit (mf_reason mf)) else None)"

definition loadRefusalDecision :: "unfit_reason option \<Rightarrow> model_fit option \<Rightarrow> unfit_reason option \<times> bool" where
  "loadRefusalDecision cached fitOf =
     (case cached of
        None \<Rightarrow> (liveRefusal fitOf, False)
      | Some why \<Rightarrow>
          (case fitOf of
             None \<Rightarrow> (Some why, False)
           | Some mf \<Rightarrow>
               if \<not> fitConfidentlySized mf then (Some why, False)
               else case snd (ctxClampDecision mf True) of
                 Some fresh \<Rightarrow> (Some fresh, False)
               | None \<Rightarrow> (liveRefusal fitOf, True)))"

definition preloadFitRefusal :: "model_fit option \<Rightarrow> unfit_reason option" where
  "preloadFitRefusal fitOf =
     (case fitOf of
        None \<Rightarrow> None
      | Some mf \<Rightarrow> if mf_fitLevel mf \<noteq> Marginal then None else Some (noteOr NoMargin (mf_reason mf)))"

definition modelLoadRefusal :: "host_view \<Rightarrow> string \<Rightarrow> server \<Rightarrow> server \<times> unfit_reason option" where
  "modelLoadRefusal hv mid sv =
     (case loadRefusalDecision (sv_unfittable sv mid) (fitForModel sv hv mid) of
        (refusal, clear) \<Rightarrow>
          (if clear then sv\<lparr>sv_unfittable := (sv_unfittable sv)(mid := None)\<rparr> else sv, refusal))"

section \<open>Boot: placement and clamp\<close>

definition raiseLoadDeadline :: "int \<Rightarrow> int \<Rightarrow> plan_mode \<Rightarrow> int" where
  "raiseLoadDeadline configured weightBytes m =
     (let need = loadDeadlineSeconds weightBytes m in if need \<le> configured then configured else need)"

definition setModel :: "string \<Rightarrow> srv_model \<Rightarrow> server \<Rightarrow> server" where
  "setModel mid mc sv = sv\<lparr>sv_models := (sv_models sv)(mid \<mapsto> mc)\<rparr>"

definition setPlaced :: "string \<Rightarrow> placed \<Rightarrow> server \<Rightarrow> server" where
  "setPlaced mid rec sv = sv\<lparr>sv_placements := (sv_placements sv)(mid \<mapsto> rec)\<rparr>"

definition setUnfit :: "string \<Rightarrow> unfit_reason \<Rightarrow> server \<Rightarrow> server" where
  "setUnfit mid why sv = sv\<lparr>sv_unfittable := (sv_unfittable sv)(mid \<mapsto> why)\<rparr>"

definition preflight :: "host_view \<Rightarrow> srv_model \<Rightarrow> placed \<Rightarrow> placed" where
  "preflight hv mc rec = (case hv_fitTool hv mc of None \<Rightarrow> rec | Some out \<Rightarrow> rec\<lparr>pc_args := out\<rparr>)"

definition raiseModelDeadline :: "string \<Rightarrow> placed \<Rightarrow> server \<Rightarrow> server" where
  "raiseModelDeadline mid rec sv =
     (case sv_models sv mid of
        None \<Rightarrow> sv
      | Some mc \<Rightarrow>
          if pc_weightBytes rec > 0
          then setModel mid (mc\<lparr>sm_healthTimeout :=
                 raiseLoadDeadline (sm_healthTimeout mc) (pc_weightBytes rec) (pl_mode (pc_plan rec))\<rparr>) sv
          else sv)"

definition applyPlanned :: "host_view \<Rightarrow> string \<Rightarrow> placed \<Rightarrow> server \<Rightarrow> server" where
  "applyPlanned hv mid rec sv0 =
     (let sv = raiseModelDeadline mid rec (setPlaced mid rec sv0); p = pc_plan rec in
      if pl_mode p = ModeRefuse \<and> pl_confident p then setUnfit mid (PlanRefuses (pl_reason p)) sv
      else if planApplies p then
        (case sv_models sv mid of
           None \<Rightarrow> sv
         | Some mc \<Rightarrow>
             (case applyFlagOps (hv_split hv) (sm_cmd mc) (pl_flagOps p) of
                None \<Rightarrow> sv
              | Some newCmd \<Rightarrow>
                  let mc' = mc\<lparr>sm_cmd := newCmd\<rparr> in
                  setPlaced mid (preflight hv mc' (rec\<lparr>pc_applied := newCmd\<rparr>)) (setModel mid mc' sv)))
      else sv)"

definition autoPlaceOne :: "host_view \<Rightarrow> server \<Rightarrow> string \<Rightarrow> server" where
  "autoPlaceOne hv sv mid =
     (case sv_models sv mid of
        None \<Rightarrow> sv
      | Some mc \<Rightarrow> (case planModel sv hv mid mc of None \<Rightarrow> sv | Some rec \<Rightarrow> applyPlanned hv mid rec sv))"

text \<open>The models are visited in the order \<open>mids\<close> of one iteration over the map.\<close>

definition applyAutoPlacement :: "host_view \<Rightarrow> string list \<Rightarrow> server \<Rightarrow> server" where
  "applyAutoPlacement hv mids sv =
     (if effectiveMode (sv_policy sv) = ''gpu'' then sv else foldl (autoPlaceOne hv) sv mids)"

definition placementDecided :: "server \<Rightarrow> string \<Rightarrow> bool" where
  "placementDecided sv mid =
     (case sv_placements sv mid of None \<Rightarrow> True | Some rec \<Rightarrow> pl_mode (pc_plan rec) \<noteq> ModeUnknown)"

definition clampOne :: "host_view \<Rightarrow> server \<Rightarrow> string \<Rightarrow> server" where
  "clampOne hv sv mid =
     (case fitForModel sv hv mid of
        None \<Rightarrow> sv
      | Some mf \<Rightarrow>
          (case ctxClampDecision mf (placementDecided sv mid) of
             (_, Some why) \<Rightarrow> setUnfit mid why sv
           | (n, None) \<Rightarrow>
               if n > 0 then
                 (case sv_models sv mid of
                    None \<Rightarrow> sv
                  | Some mc \<Rightarrow> setModel mid (mc\<lparr>sm_cmd := setCtxSizeInCmd (sm_cmd mc) n\<rparr>) sv)
               else sv))"

definition clampModelsToFit :: "host_view \<Rightarrow> string list \<Rightarrow> server \<Rightarrow> server" where
  "clampModelsToFit hv mids sv = foldl (clampOne hv) sv mids"

definition slowPlacementTimeoutAdviceSecs :: int where "slowPlacementTimeoutAdviceSecs = 600"

text \<open>The models whose request-time cap is warned about.\<close>

definition slowTimeoutWarned :: "int \<Rightarrow> (string \<rightharpoonup> int) \<Rightarrow> server \<Rightarrow> string \<Rightarrow> bool" where
  "slowTimeoutWarned globalCap modelCap sv mid =
     (case sv_placements sv mid of
        None \<Rightarrow> False
      | Some rec \<Rightarrow>
          pl_perfClass (pc_plan rec) \<in> {CPUBoundHybrid, CPUOnly} \<and>
          (let cap = (case modelCap mid of Some c \<Rightarrow> if c > 0 then c else globalCap | None \<Rightarrow> globalCap) in
           cap > 0 \<and> cap < slowPlacementTimeoutAdviceSecs))"

section \<open>The load path\<close>

definition realOf :: "host_view \<Rightarrow> string \<Rightarrow> string" where
  "realOf hv mid = (case hv_realName hv mid of None \<Rightarrow> mid | Some r \<Rightarrow> r)"

definition originalModel :: "srv_model \<Rightarrow> placed option \<Rightarrow> srv_model" where
  "originalModel mc rec =
     (case rec of
        None \<Rightarrow> mc
      | Some r \<Rightarrow> if pc_original r \<noteq> [] then mc\<lparr>sm_cmd := pc_original r\<rparr> else mc)"

definition ensurePlacement :: "host_view \<Rightarrow> string \<Rightarrow> server \<Rightarrow> server" where
  "ensurePlacement hv modelID sv0 =
     (let r = realOf hv modelID; old = sv_placements sv0 r in
      if (case old of None \<Rightarrow> False | Some rec \<Rightarrow> pl_mode (pc_plan rec) \<noteq> ModeUnknown) then sv0
      else case sv_models sv0 r of
        None \<Rightarrow> sv0
      | Some mc \<Rightarrow>
          let orig = originalModel mc old in
          (case planModel sv0 hv r orig of
             None \<Rightarrow> sv0
           | Some fresh \<Rightarrow>
               if pl_mode (pc_plan fresh) = ModeUnknown then sv0
               else let sv = setPlaced r fresh sv0; p = pc_plan fresh in
                 if pl_mode p = ModeRefuse \<and> pl_confident p then setUnfit r (PlanRefuses (pl_reason p)) sv
                 else if planApplies p then
                   (case applyFlagOps (hv_split hv) (sm_cmd orig) (pl_flagOps p) of
                      None \<Rightarrow> sv
                    | Some newCmd \<Rightarrow>
                        if \<not> hv_routed hv r then sv
                        else (setPlaced r (fresh\<lparr>pc_applied := newCmd\<rparr>) sv)
                               \<lparr>sv_overrides := (sv_overrides sv)
                                  (r \<mapsto> (newCmd, loadDeadlineSeconds (pc_weightBytes fresh) (pl_mode p))),
                                sv_unfittable := (sv_unfittable sv)(r := None)\<rparr>)
                 else sv))"

text \<open>The background cross-check stores the engine's own arguments on the record.\<close>

definition recordPreflight :: "host_view \<Rightarrow> string \<Rightarrow> srv_model \<Rightarrow> server \<Rightarrow> server" where
  "recordPreflight hv r mc sv =
     (case hv_fitTool hv mc of
        None \<Rightarrow> sv
      | Some out \<Rightarrow>
          (case sv_placements sv r of None \<Rightarrow> sv | Some rec \<Rightarrow> setPlaced r (rec\<lparr>pc_args := out\<rparr>) sv))"

definition retryEnv :: "host_view \<Rightarrow> string \<Rightarrow> server \<Rightarrow> retry_env" where
  "retryEnv hv r sv =
     \<lparr>re_budget = retryBudget (sv_policy sv),
      re_record = map_option (\<lambda>rec. \<lparr>pr_plan = pc_plan rec, pr_originalCmd = pc_original rec,
                                     pr_weightBytes = pc_weightBytes rec\<rparr>) (sv_placements sv r),
      re_lastErr = hv_lastError hv r,
      re_inputs = placementInputs sv hv r,
      re_apply = applyFlagOps (hv_split hv),
      re_override = (\<lambda>_ _. hv_routed hv r)\<rparr>"

type_synonym retries = "string \<rightharpoonup> retry_state"

definition escalateIfMemoryFailure :: "host_view \<Rightarrow> string \<Rightarrow> server \<times> retries \<Rightarrow> server \<times> retries" where
  "escalateIfMemoryFailure hv modelID st =
     (case st of
        (sv, rt) \<Rightarrow>
          let r = realOf hv modelID in
          (case escalate (retryEnv hv r sv) (rt r) of
             (s', act) \<Rightarrow>
               ((case act of None \<Rightarrow> sv | Some a \<Rightarrow> sv\<lparr>sv_overrides := (sv_overrides sv)(r \<mapsto> a)\<rparr>), rt(r := s'))))"

datatype gate_answer = PassOn | Insufficient unfit_reason | Unavailable

text \<open>\<open>CreateLoadFitGateMiddleware\<close> for a request whose model is known.\<close>

definition loadFitGate :: "host_view \<Rightarrow> string \<Rightarrow> server \<times> retries \<Rightarrow> (server \<times> retries) \<times> gate_answer" where
  "loadFitGate hv modelID st =
     (if hv_loaded hv modelID then (st, PassOn)
      else case escalateIfMemoryFailure hv modelID (ensurePlacement hv modelID (fst st), snd st) of
        (sv, rt) \<Rightarrow>
          (case modelLoadRefusal hv modelID sv of
             (sv', None) \<Rightarrow> ((sv', rt), PassOn)
           | (sv', Some why) \<Rightarrow> ((sv', rt), Insufficient why)))"

section \<open>The clamp\<close>

lemma orZero_simps [simp]: "orZero None = 0" "orZero (Some n) = n"
  by (simp_all add: orZero_def)

lemma positive_orZero: "orZero (if n > 0 then Some n else None) = max 0 n"
  by simp

text \<open>The decision on a computed fit, in the terms of the fit engine.\<close>

lemma clamp_on_result:
  "ctxClampDecision (fillModelFit (emptyFit m b) r) decided =
     (if \<not> (0 < fr_vramTotalMB r \<and> 0 < fr_modelMB r) \<or> fr_vramRequiredMB r \<le> fr_vramTotalMB r then (0, None)
      else if minViableCtx \<le> fr_maxFitCtx r then (fr_maxFitCtx r, None)
      else if \<not> decided then (0, None)
      else (0, Some (FitRefuses (Computed (fr_reason r)))))"
  by (auto simp: ctxClampDecision_def fitConfidentlySized_def noteOr_def minViableCtx_def Let_def)

lemma modelMB_result: "fr_modelMB (analyzeShape g p) = modelMBOf g"
  by (simp add: analyzeShape_def sizedResult_def baseResult_def Let_def)

lemma hardCtx_withDefaults: "hardCtxOf g (withDefaults p) v = hardCtxOf g p v"
  by (simp add: hardCtxOf_def)

text \<open>A command whose context the budget allows is not over the card.\<close>

lemma unconfigured_fits:
  assumes r: "realistic g p" and off: "0 \<le> cpuOffloadBytes g p" and t: "0 \<le> ms_trainedCtx g"
    and k: "0 < kvOf g p" "0 < modelMBOf g" and f: "0 < fr_maxFitCtx (analyzeShape g p)"
    and c: "fp_ctx p \<le> 0 \<or> fp_ctx p \<le> fr_maxFitCtx (analyzeShape g p)"
  shows "fr_vramRequiredMB (analyzeShape g p) \<le> fp_vramTotal p"
proof -
  have r': "0 < fp_vramTotal p" "fp_vramTotal p \<le> 2 ^ 40" "ms_weightBytes g < 2 ^ 63" "kvOf g p < 2 ^ 53"
    "0 \<le> fp_draftMB p + fp_projectorMB p" "fp_draftMB p + fp_projectorMB p \<le> 2 ^ 40"
    using r by (simp_all add: realistic_def)
  let ?w = "gpuWeightMB g p + (fp_draftMB p + fp_projectorMB p)"
  let ?b = "budgetMB p (gpuWeightMB g p)"
  let ?v = "ctxWithin (usableMB g ?b) ?w (kvOf g p)"
  have w: "0 \<le> ?w" "?w \<le> 2 ^ 44"
    using gpuWeightMB_nonneg [of g p] gpuWeightMB_upper [OF r'(3) k(2) off] r' by simp_all
  note B = budgetMB_bounds [OF r'(1) gpuWeightMB_nonneg, of g p]
  have b40: "?b \<le> 2 ^ 40" using B(2) r'(2) by simp
  note u = usable_le_budget(2) [OF B(1) b40, of g]
  have m: "fr_maxFitCtx (analyzeShape g p) = cappedCtx g ?v" by (rule sized_reports(1) [OF r'(1) k])
  have v: "0 < ?v" "fr_maxFitCtx (analyzeShape g p) \<le> ?v" using f m cappedCtx_le [of g ?v] by simp_all
  have h: "0 \<le> hardCtxOf g p ?v" "hardCtxOf g p ?v \<le> ?v" using c v t by (auto simp: hardCtxOf_def Let_def)
  have "fr_vramRequiredMB (analyzeShape g p) = vramRequired ?w (kvOf g p) (hardCtxOf g p ?v)"
    using r'(1) k by (simp add: analyzeShape_def kvOf_def Let_def sizedResult_def baseResult_def budgetMB_withDefaults hardCtx_withDefaults)
  also have "\<dots> \<le> ?b" using ctxWithin_fits [OF w B(1) b40 u k(1) r'(4) h v(1)] .
  finally show ?thesis using B(2) by simp
qed

lemma at_ctx:
  "kvOf g (p\<lparr>fp_ctx := n\<rparr>) = kvOf g p" "cpuOffloadBytes g (p\<lparr>fp_ctx := n\<rparr>) = cpuOffloadBytes g p"
  "realistic g (p\<lparr>fp_ctx := n\<rparr>) = realistic g p"
  by (simp_all add: kvOf_def withDefaults_ctx cpuOffloadBytes_def expertOffload_def realistic_def)

lemma budget_at_ctx: "budgetMB (p\<lparr>fp_ctx := n\<rparr>) w = budgetMB p w"
  by (simp add: budgetMB_def Let_def)

lemma maxFit_at_ctx:
  assumes "0 < fp_vramTotal p" and "0 < kvOf g p" and "0 < modelMBOf g"
  shows "fr_maxFitCtx (analyzeShape g (p\<lparr>fp_ctx := n\<rparr>)) = fr_maxFitCtx (analyzeShape g p)"
  using sized_reports(1) [of p g] sized_reports(1) [of "p\<lparr>fp_ctx := n\<rparr>" g] assms by (simp add: at_ctx budget_at_ctx)

text \<open>
  C29. The context clamp only ever shrinks: it rewrites a configured context to a smaller, viable one at
  which the model needs no more memory than the card has, so a second look leaves it alone.
\<close>

theorem clamp_shrinks_to_fit:
  assumes r: "realistic g p" and off: "0 \<le> cpuOffloadBytes g p" and t: "0 \<le> ms_trainedCtx g"
    and d: "ctxClampDecision (fillModelFit (emptyFit m b) (analyzeShape g p)) decided = (n, None)" "0 < n"
  shows "minViableCtx \<le> n \<and> n < fp_ctx p \<and>
    fr_vramRequiredMB (analyzeShape g (p\<lparr>fp_ctx := n\<rparr>)) \<le> fp_vramTotal p \<and>
    ctxClampDecision (fillModelFit (emptyFit m b) (analyzeShape g (p\<lparr>fp_ctx := n\<rparr>))) decided = (0, None)"
proof -
  have over: "fp_vramTotal p < fr_vramRequiredMB (analyzeShape g p)" and tot: "0 < fp_vramTotal p"
    and n: "n = fr_maxFitCtx (analyzeShape g p)" "minViableCtx \<le> n"
    using d unfolding clamp_on_result by (auto simp: analyzeShape_total split: if_splits)
  have k: "0 < kvOf g p" "0 < modelMBOf g"
    using over tot by (auto simp: analyzeShape_def kvOf_def baseResult_def Let_def split: if_splits)
  have small: "n < fp_ctx p"
    using unconfigured_fits [OF r off t k] over n(1) d(2) by fastforce
  have fits: "fr_vramRequiredMB (analyzeShape g (p\<lparr>fp_ctx := n\<rparr>)) \<le> fp_vramTotal p"
    using unconfigured_fits [of g "p\<lparr>fp_ctx := n\<rparr>"] r off t k d(2) n(1) maxFit_at_ctx [OF tot k] by (simp add: at_ctx)
  then show ?thesis using small n(2) by (simp add: clamp_on_result analyzeShape_total)
qed

section \<open>Refusals\<close>

text \<open>
  A load is refused exactly when a live look at the model confidently says it does not fit, or when
  an earlier verdict stands because the model cannot be sized now or still does not fit at any
  viable context; the earlier verdict is dropped exactly when a sized look disagrees.
\<close>

theorem load_refusal_iff:
  "(snd (modelLoadRefusal hv mid sv) \<noteq> None \<longleftrightarrow>
     (case fitForModel sv hv mid of
        None \<Rightarrow> sv_unfittable sv mid \<noteq> None
      | Some mf \<Rightarrow>
          sv_unfittable sv mid \<noteq> None \<and> (\<not> fitConfidentlySized mf \<or> snd (ctxClampDecision mf True) \<noteq> None) \<or>
          confidentNoFit mf)) \<and>
   sv_unfittable (fst (modelLoadRefusal hv mid sv)) =
     (case fitForModel sv hv mid of
        None \<Rightarrow> sv_unfittable sv
      | Some mf \<Rightarrow>
          if fitConfidentlySized mf \<and> snd (ctxClampDecision mf True) = None
          then (sv_unfittable sv)(mid := None) else sv_unfittable sv)"
  by (cases "sv_unfittable sv mid"; cases "fitForModel sv hv mid")
    (auto simp: modelLoadRefusal_def loadRefusalDecision_def liveRefusal_def fun_upd_idem split: option.splits)

lemma confident_needs_total: "fitForModel sv hv mid = Some mf \<Longrightarrow> fst (vramMB hv) \<le> 0 \<Longrightarrow> \<not> confidentNoFit mf \<and> \<not> fitConfidentlySized mf"
  using fit_total [of sv hv mid mf] by (auto simp: confidentNoFit_def fitConfidentlySized_def)

lemma kvBytes_no_heads: "ms_headCount g \<le> 0 \<Longrightarrow> ms_headCountKV g \<le> 0 \<Longrightarrow> kvBytesPerShape g k v \<le> 0"
  by (simp add: kvBytesPerShape_def split: prod.splits)

text \<open>
  A model whose metadata has no attention heads (a recurrent architecture) is refused by every load,
  whatever the card: the verdict for missing metadata is taken for a confident one.
\<close>

theorem no_attention_heads_refused:
  assumes "sv_models sv mid = Some mc" and "sm_backend mc = []"
    and "parseModelPath (hv_split hv) (sm_cmd mc) \<noteq> []"
    and "hv_gguf hv (parseModelPath (hv_split hv) (sm_cmd mc)) = Some g"
    and "ms_headCount (gi_shape g) \<le> 0" and "ms_headCountKV (gi_shape g) \<le> 0" and "0 < modelMBOf (gi_shape g)" and "0 < fst (vramMB hv)"
  shows "snd (modelLoadRefusal hv mid sv) = Some (FitRefuses (Computed NoMetadata))"
proof -
  let ?args = "case sanitized hv (effectiveModel sv mid mc) of None \<Rightarrow> [] | Some a \<Rightarrow> a"
  let ?p = "ggufParams sv hv mid mc ''llamacpp'' ?args"
  let ?r = "analyzeShape (gi_shape g) ?p"
  have fit: "fitForModel sv hv mid = Some (attachPlacement sv hv mid (fillModelFit (emptyFit mid ''llamacpp'') ?r))"
    using assms(1-4) by (simp add: fitForModel_def backendOf_def Let_def)
  have r: "?r = baseResult (gi_shape g) (withDefaults ?p) (kvBytesPerShape (gi_shape g) (fp_kBits (withDefaults ?p)) (fp_vBits (withDefaults ?p))) NoFit NoMetadata"
    using kvBytes_no_heads [OF assms(5,6)] by (simp add: analyzeShape_def Let_def)
  have v: "fr_fitLevel ?r = NoFit" "fr_reason ?r = NoMetadata" "fr_modelMB ?r = modelMBOf (gi_shape g)"
    "fr_vramRequiredMB ?r = 0" "fr_vramTotalMB ?r = fst (vramMB hv)"
    using r by (simp_all add: baseResult_def ggufParams_total)
  show ?thesis using v assms(7,8)
    by (simp add: modelLoadRefusal_def loadRefusalDecision_def liveRefusal_def fit confidentNoFit_def noteOr_def
        fitConfidentlySized_def ctxClampDecision_def split: option.splits)
qed

section \<open>What a boot changes\<close>

lemma server_sets [simp]:
  "sv_models (setModel m mc sv) = (sv_models sv)(m \<mapsto> mc)" "sv_placements (setModel m mc sv) = sv_placements sv"
  "sv_unfittable (setModel m mc sv) = sv_unfittable sv" "sv_policy (setModel m mc sv) = sv_policy sv"
  "sv_overrides (setModel m mc sv) = sv_overrides sv"
  "sv_models (setPlaced m rec sv) = sv_models sv" "sv_placements (setPlaced m rec sv) = (sv_placements sv)(m \<mapsto> rec)"
  "sv_unfittable (setPlaced m rec sv) = sv_unfittable sv" "sv_policy (setPlaced m rec sv) = sv_policy sv"
  "sv_overrides (setPlaced m rec sv) = sv_overrides sv"
  "sv_models (setUnfit m why sv) = sv_models sv" "sv_placements (setUnfit m why sv) = sv_placements sv"
  "sv_unfittable (setUnfit m why sv) = (sv_unfittable sv)(m \<mapsto> why)" "sv_policy (setUnfit m why sv) = sv_policy sv"
  "sv_overrides (setUnfit m why sv) = sv_overrides sv"
  by (simp_all add: setModel_def setPlaced_def setUnfit_def)

text \<open>What the server holds about one model, and updates that touch no other.\<close>

definition viewOf :: "server \<Rightarrow> string \<Rightarrow> srv_model option \<times> placed option \<times> unfit_reason option" where
  "viewOf sv m = (sv_models sv m, sv_placements sv m, sv_unfittable sv m)"

definition onlyModel :: "string \<Rightarrow> server \<Rightarrow> server \<Rightarrow> bool" where
  "onlyModel mid sv sv' \<longleftrightarrow>
     sv_policy sv' = sv_policy sv \<and> sv_overrides sv' = sv_overrides sv \<and> (\<forall>m. m \<noteq> mid \<longrightarrow> viewOf sv' m = viewOf sv m)"

lemma applyPlanned_only: "onlyModel mid sv (applyPlanned hv mid rec sv)"
  by (auto simp: onlyModel_def viewOf_def applyPlanned_def raiseModelDeadline_def Let_def split: option.splits)

lemma autoPlaceOne_only: "onlyModel mid sv (autoPlaceOne hv sv mid)"
proof -
  have "onlyModel mid sv sv" by (simp add: onlyModel_def)
  then show ?thesis using applyPlanned_only by (auto simp: autoPlaceOne_def split: option.splits)
qed

lemma clampOne_only: "onlyModel mid sv (clampOne hv sv mid)"
  by (auto simp: onlyModel_def viewOf_def clampOne_def split: option.splits prod.splits)

text \<open>A run over distinct models changes each model once, and what it sees of it is the state before.\<close>

lemma foldl_only:
  assumes only: "\<And>sv m. onlyModel m sv (f sv m)" and d: "distinct ms"
  shows "sv_policy (foldl f sv ms) = sv_policy sv \<and> sv_overrides (foldl f sv ms) = sv_overrides sv \<and>
    (m \<notin> set ms \<longrightarrow> viewOf (foldl f sv ms) m = viewOf sv m) \<and>
    (m \<in> set ms \<longrightarrow> (\<exists>sv1. sv_policy sv1 = sv_policy sv \<and> viewOf sv1 m = viewOf sv m \<and>
       viewOf (foldl f sv ms) m = viewOf (f sv1 m) m))"
  using d
proof (induction ms arbitrary: sv)
  case (Cons x xs)
  note o = only [of x sv]
  note ih = Cons.IH [of "f sv x"]
  show ?case
  proof (cases "m = x")
    case True
    then show ?thesis using ih Cons.prems o by (auto simp: onlyModel_def)
  next
    case False
    then have "viewOf (f sv x) m = viewOf sv m" using o by (simp add: onlyModel_def)
    then show ?thesis using ih Cons.prems o False by (auto simp: onlyModel_def)
  qed
qed simp

text \<open>One model under automatic placement: what the step does to what it saw.\<close>

definition placedWell :: "(string \<Rightarrow> string list) \<Rightarrow> srv_model \<Rightarrow> srv_model \<Rightarrow> placed option \<Rightarrow> bool" where
  "placedWell split mc mc' rec \<longleftrightarrow>
     mc'\<lparr>sm_cmd := sm_cmd mc, sm_healthTimeout := sm_healthTimeout mc\<rparr> = mc \<and>
     sm_healthTimeout mc \<le> sm_healthTimeout mc' \<and>
     (sm_cmd mc' = sm_cmd mc \<or>
      (case rec of
         None \<Rightarrow> False
       | Some r \<Rightarrow> pc_original r = sm_cmd mc \<and> pc_applied r = sm_cmd mc' \<and> planApplies (pc_plan r) \<and>
                  applyFlagOps split (sm_cmd mc) (pl_flagOps (pc_plan r)) = Some (sm_cmd mc')))"

definition refusedWell :: "unfit_reason option \<Rightarrow> unfit_reason option \<Rightarrow> placed option \<Rightarrow> bool" where
  "refusedWell u u' rec \<longleftrightarrow>
     u' = u \<or>
     (case rec of
        None \<Rightarrow> False
      | Some r \<Rightarrow> pl_mode (pc_plan r) = ModeRefuse \<and> pl_confident (pc_plan r) \<and>
                 u' = Some (PlanRefuses (pl_reason (pc_plan r))))"

lemma raise_mono: "c \<le> raiseLoadDeadline c w m"
  by (simp add: raiseLoadDeadline_def Let_def)

lemma raised_model:
  assumes "sv_models sv mid = Some mc"
  shows "\<exists>mc1. sv_models (raiseModelDeadline mid rec sv) mid = Some mc1 \<and>
    mc1\<lparr>sm_healthTimeout := sm_healthTimeout mc\<rparr> = mc \<and> sm_cmd mc1 = sm_cmd mc \<and>
    sm_healthTimeout mc \<le> sm_healthTimeout mc1"
  using assms raise_mono by (auto simp: raiseModelDeadline_def)

lemma raised_rest:
  "sv_placements (raiseModelDeadline mid rec sv) = sv_placements sv" "sv_unfittable (raiseModelDeadline mid rec sv) = sv_unfittable sv"
  by (simp_all add: raiseModelDeadline_def split: option.splits)

lemma preflight_sel [simp]:
  "pc_plan (preflight hv mc r) = pc_plan r" "pc_original (preflight hv mc r) = pc_original r"
  "pc_applied (preflight hv mc r) = pc_applied r" "pc_weightBytes (preflight hv mc r) = pc_weightBytes r"
  by (simp_all add: preflight_def split: option.splits)

lemma applyPlanned_view:
  assumes "sv_models sv mid = Some mc" and "pc_original rec = sm_cmd mc"
  shows "\<exists>mc' rec'. viewOf (applyPlanned hv mid rec sv) mid = (Some mc', Some rec', sv_unfittable (applyPlanned hv mid rec sv) mid) \<and>
    placedWell (hv_split hv) mc mc' (Some rec') \<and>
    refusedWell (sv_unfittable sv mid) (sv_unfittable (applyPlanned hv mid rec sv) mid) (Some rec') \<and>
    pc_plan rec' = pc_plan rec"
proof -
  let ?sv1 = "raiseModelDeadline mid rec (setPlaced mid rec sv)"
  obtain mc1 where m1: "sv_models ?sv1 mid = Some mc1" "mc1\<lparr>sm_healthTimeout := sm_healthTimeout mc\<rparr> = mc"
    "sm_cmd mc1 = sm_cmd mc" "sm_healthTimeout mc \<le> sm_healthTimeout mc1"
    using raised_model [of "setPlaced mid rec sv" mid mc rec] assms by auto
  have same: "placedWell (hv_split hv) mc mc1 r" for r
    using m1 by (auto simp: placedWell_def) (metis srv_model.surjective srv_model.update_convs(1))
  show ?thesis
  proof (cases "(pl_mode (pc_plan rec) = ModeRefuse \<and> pl_confident (pc_plan rec)) \<or> \<not> planApplies (pc_plan rec) \<or>
      applyFlagOps (hv_split hv) (sm_cmd mc1) (pl_flagOps (pc_plan rec)) = None")
    case True
    then show ?thesis using m1 same
      by (auto simp: applyPlanned_def Let_def viewOf_def raised_rest refusedWell_def)
  next
    case False
    then obtain c where c: "applyFlagOps (hv_split hv) (sm_cmd mc1) (pl_flagOps (pc_plan rec)) = Some c" by auto
    have "placedWell (hv_split hv) mc (mc1\<lparr>sm_cmd := c\<rparr>) (Some (preflight hv (mc1\<lparr>sm_cmd := c\<rparr>) (rec\<lparr>pc_applied := c\<rparr>)))"
      using same [of None] m1 c assms(2) False by (auto simp: placedWell_def)
    then show ?thesis using False c m1
      by (auto simp: applyPlanned_def Let_def viewOf_def raised_rest refusedWell_def)
  qed
qed

lemma planModel_original: "planModel sv hv mid mc = Some rec \<Longrightarrow> pc_original rec = sm_cmd mc"
  by (auto simp: planModel_def newPlaced_def split: option.splits)

lemma autoPlaceOne_view:
  assumes "sv_models sv mid = Some mc"
  shows "\<exists>mc'. sv_models (autoPlaceOne hv sv mid) mid = Some mc' \<and>
    placedWell (hv_split hv) mc mc' (sv_placements (autoPlaceOne hv sv mid) mid) \<and>
    refusedWell (sv_unfittable sv mid) (sv_unfittable (autoPlaceOne hv sv mid) mid) (sv_placements (autoPlaceOne hv sv mid) mid)"
proof (cases "planModel sv hv mid mc")
  case None
  then show ?thesis using assms by (simp add: autoPlaceOne_def placedWell_def refusedWell_def)
next
  case (Some rec)
  then show ?thesis using applyPlanned_view [of sv mid mc rec hv, OF assms planModel_original [OF Some]] assms
    by (auto simp: autoPlaceOne_def viewOf_def)
qed

text \<open>
  C30. Automatic placement rewrites a command only to the planned flags applied to the command as
  configured, which the record keeps; it never lowers a load deadline, changes nothing else of a
  model, and marks a model as not loadable only on a confident refusal.
\<close>

theorem auto_placement_effect:
  assumes "distinct mids" and "sv_models sv m = Some mc"
  shows "(let sv' = applyAutoPlacement hv mids sv in
          \<exists>mc'. sv_models sv' m = Some mc' \<and> placedWell (hv_split hv) mc mc' (sv_placements sv' m) \<and>
            refusedWell (sv_unfittable sv m) (sv_unfittable sv' m) (sv_placements sv' m))"
proof -
  let ?sv' = "foldl (autoPlaceOne hv) sv mids"
  have same: "placedWell (hv_split hv) mc mc r \<and> refusedWell u u r" for r u
    by (simp add: placedWell_def refusedWell_def)
  note f = foldl_only [of "autoPlaceOne hv", OF autoPlaceOne_only assms(1), of sv m]
  have "\<exists>mc'. sv_models ?sv' m = Some mc' \<and> placedWell (hv_split hv) mc mc' (sv_placements ?sv' m) \<and>
      refusedWell (sv_unfittable sv m) (sv_unfittable ?sv' m) (sv_placements ?sv' m)"
  proof (cases "m \<in> set mids")
    case True
    then obtain sv1 where s: "viewOf sv1 m = viewOf sv m" "viewOf ?sv' m = viewOf (autoPlaceOne hv sv1 m) m" using f by blast
    then show ?thesis using autoPlaceOne_view [of sv1 m mc hv] assms(2) by (auto simp: viewOf_def)
  next
    case False
    then show ?thesis using f assms(2) same by (auto simp: viewOf_def)
  qed
  then show ?thesis using assms(2) same by (auto simp: applyAutoPlacement_def Let_def)
qed

lemma compute_blind: "in_vramBudget i \<le> 0 \<Longrightarrow> pl_flagOps (compute i) = [] \<and> pl_mode (compute i) \<noteq> ModeRefuse"
  by (simp add: compute_def bare_def)

lemma blind_plan:
  assumes "vramMB hv = (0, 0)" and "planModel sv hv mid mc = Some rec"
  shows "\<not> planApplies (pc_plan rec) \<and> pl_mode (pc_plan rec) \<noteq> ModeRefuse"
proof -
  obtain i where i: "planInputs sv hv mid mc = Some i"
    "rec = newPlaced (case knownPlacement hv mid mc i of Some p \<Rightarrow> planFromProfile p | None \<Rightarrow> compute i) mc (ms_weightBytes (in_shape i))"
    using assms(2) by (auto simp: planModel_def split: option.splits)
  have "in_vramBudget i = 0" using i(1) assms(1)
    by (auto simp: planInputs_def Let_def split: option.splits if_splits prod.splits)
  moreover have "knownPlacement hv mid mc i = None" using assms(1)
    by (auto simp: knownPlacement_def placementKey_def Let_def split: option.splits)
  ultimately show ?thesis using i(2) compute_blind [of i] by (simp add: newPlaced_def planApplies_def)
qed

lemma blind_clamp: "vramMB hv = (0, 0) \<Longrightarrow> clampOne hv sv mid = sv"
  using confident_needs_total [of sv hv mid] by (auto simp: clampOne_def ctxClampDecision_def split: option.splits)

lemma blind_place:
  assumes "vramMB hv = (0, 0)"
  shows "map_option sm_cmd (sv_models (autoPlaceOne hv sv mid) m) = map_option sm_cmd (sv_models sv m) \<and>
    sv_unfittable (autoPlaceOne hv sv mid) = sv_unfittable sv"
proof (cases "sv_models sv mid")
  case (Some mc)
  show ?thesis
  proof (cases "planModel sv hv mid mc")
    case plan: (Some rec)
    then show ?thesis using blind_plan [OF assms plan] Some
      by (auto simp: autoPlaceOne_def applyPlanned_def Let_def raised_rest raiseModelDeadline_def)
  qed (simp add: autoPlaceOne_def Some)
qed (simp add: autoPlaceOne_def)

lemma blind_places:
  assumes "vramMB hv = (0, 0)"
  shows "map_option sm_cmd (sv_models (foldl (autoPlaceOne hv) sv mids) m) = map_option sm_cmd (sv_models sv m) \<and>
    sv_unfittable (foldl (autoPlaceOne hv) sv mids) = sv_unfittable sv"
  by (induction mids arbitrary: sv) (simp_all add: blind_place [OF assms])

text \<open>
  A boot before the first hardware sample decides nothing: no command is rewritten, no model is
  condemned, and no load is refused that was not refused before.
\<close>

theorem blind_boot_decides_nothing:
  assumes "vramMB hv = (0, 0)"
  shows "(let sv' = clampModelsToFit hv mids' (applyAutoPlacement hv mids sv) in
          map_option sm_cmd (sv_models sv' m) = map_option sm_cmd (sv_models sv m) \<and>
          sv_unfittable sv' = sv_unfittable sv \<and> snd (modelLoadRefusal hv m sv') = sv_unfittable sv m)"
proof -
  have c: "clampModelsToFit hv mids' s = s" for s
    unfolding clampModelsToFit_def by (induction mids') (simp_all add: blind_clamp [OF assms])
  have r: "snd (modelLoadRefusal hv m s) = sv_unfittable s m" for s
    using confident_needs_total [of s hv m] assms
    by (auto simp: modelLoadRefusal_def loadRefusalDecision_def liveRefusal_def split: option.splits)
  show ?thesis using blind_places [OF assms, of sv mids m]
    by (simp add: c r applyAutoPlacement_def)
qed

text \<open>
  Once a placement is in force the clamp has no effect on what is decided about the model: the fit
  is still that of the command before the clamp, and so are the inputs and the command of a retry.
\<close>

theorem clamp_unseen_after_placement:
  assumes "sv_models sv mid = Some mc" and "sv_placements sv mid = Some rec" and "pc_applied rec \<noteq> []"
    and "parseModelPath (hv_split hv) (setCtxSizeInCmd (sm_cmd mc) n) = parseModelPath (hv_split hv) (sm_cmd mc)"
  shows "(let sv' = setModel mid (mc\<lparr>sm_cmd := setCtxSizeInCmd (sm_cmd mc) n\<rparr>) sv in
          fitForModel sv' hv mid = fitForModel sv hv mid \<and> placementInputs sv' hv mid = placementInputs sv hv mid \<and>
          re_record (retryEnv hv mid sv') = re_record (retryEnv hv mid sv))"
proof -
  let ?mc = "mc\<lparr>sm_cmd := setCtxSizeInCmd (sm_cmd mc) n\<rparr>"
  let ?sv = "setModel mid ?mc sv"
  have g: "ggufParams ?sv hv mid ?mc b a = ggufParams sv hv mid mc b a" for b a
    by (simp add: ggufParams_def)
  have p: "planInputs ?sv hv mid m = planInputs sv hv mid m" for m
    by (simp only: planInputs_def server_sets)
  have t: "attachPlacement ?sv hv mid f = attachPlacement sv hv mid f" for f
    by (simp only: attachPlacement_def server_sets)
  have e: "effectiveModel ?sv mid ?mc = effectiveModel sv mid mc"
    using assms(2,3) by (simp add: effectiveModel_def appliedCmd_def)
  have k: "backendOf ?mc = backendOf mc" "sm_useModelName ?mc = sm_useModelName mc"
    "parseModelPath (hv_split hv) (sm_cmd ?mc) = parseModelPath (hv_split hv) (sm_cmd mc)" "sv_models ?sv mid = Some ?mc"
    using assms(4) by (simp_all add: backendOf_def)
  have "fitForModel ?sv hv mid = fitForModel sv hv mid"
    unfolding fitForModel_def k assms(1) option.case g t e ..
  moreover have o: "?mc\<lparr>sm_cmd := x\<rparr> = mc\<lparr>sm_cmd := x\<rparr>" for x by simp
  have "placementInputs ?sv hv mid = placementInputs sv hv mid"
    unfolding placementInputs_def k(4) assms(1,2) option.case prod.case Let_def p server_sets fun_upd_same option.case o ..
  ultimately show ?thesis by (simp add: retryEnv_def Let_def)
qed

section \<open>A sequence of loads\<close>

inductive gated :: "(string \<Rightarrow> string list) \<Rightarrow> server \<times> retries \<Rightarrow> server \<times> retries \<Rightarrow> bool" for split where
  gated_start: "gated split st st"
| gated_load: "gated split st st' \<Longrightarrow> hv_split hv = split \<Longrightarrow> gated split st (fst (loadFitGate hv mid st'))"

text \<open>The command a model was configured with at boot.\<close>

definition origCmd :: "server \<Rightarrow> string \<Rightarrow> string" where
  "origCmd sv r =
     (case sv_placements sv r of
        Some rec \<Rightarrow> pc_original rec
      | None \<Rightarrow> (case sv_models sv r of Some mc \<Rightarrow> sm_cmd mc | None \<Rightarrow> []))"

definition loadInv :: "(string \<Rightarrow> string list) \<Rightarrow> server \<Rightarrow> server \<Rightarrow> bool" where
  "loadInv split sv0 sv \<longleftrightarrow>
     sv_models sv = sv_models sv0 \<and> sv_policy sv = sv_policy sv0 \<and>
     (\<forall>r rec. sv_placements sv r = Some rec \<longrightarrow> pc_original rec = origCmd sv0 r) \<and>
     (\<forall>r. sv_placements sv0 r \<noteq> None \<longrightarrow> sv_placements sv r \<noteq> None) \<and>
     (\<forall>r c d. sv_overrides sv r = Some (c, d) \<longrightarrow> (\<exists>ops. applyFlagOps split (origCmd sv0 r) ops = Some c))"

definition bootState :: "server \<Rightarrow> bool" where
  "bootState sv \<longleftrightarrow> sv_overrides sv = Map.empty \<and> (\<forall>r rec. sv_placements sv r = Some rec \<longrightarrow> pc_original rec \<noteq> [])"

lemma original_is_orig:
  assumes "loadInv split sv0 sv" and "bootState sv0" and "sv_models sv r = Some mc"
  shows "sm_cmd (originalModel mc (sv_placements sv r)) = origCmd sv0 r"
proof (cases "sv_placements sv r")
  case None
  then have "sv_placements sv0 r = None" using assms(1) by (auto simp: loadInv_def)
  then show ?thesis using None assms by (simp add: originalModel_def origCmd_def loadInv_def)
next
  case (Some rec)
  then have o: "pc_original rec = origCmd sv0 r" using assms(1) by (simp add: loadInv_def)
  show ?thesis
  proof (cases "sv_placements sv0 r")
    case None
    then show ?thesis using Some o assms by (simp add: originalModel_def origCmd_def loadInv_def)
  next
    case (Some rec0)
    then show ?thesis using \<open>sv_placements sv r = Some rec\<close> o assms(2)
      by (auto simp: originalModel_def origCmd_def bootState_def)
  qed
qed

lemma setPlaced_inv:
  "loadInv split sv0 sv \<Longrightarrow> pc_original rec = origCmd sv0 r \<Longrightarrow> loadInv split sv0 (setPlaced r rec sv)"
  by (auto simp: loadInv_def)

lemma setUnfit_inv: "loadInv split sv0 (setUnfit r why sv) = loadInv split sv0 sv"
  by (simp add: loadInv_def)

lemma ensurePlacement_inv:
  assumes i: "loadInv split sv0 sv" and b: "bootState sv0" and h: "hv_split hv = split"
  shows "loadInv split sv0 (ensurePlacement hv mid sv)"
proof -
  let ?r = "realOf hv mid"
  show ?thesis
  proof (cases "sv_models sv ?r")
    case None
    then show ?thesis using i by (simp add: ensurePlacement_def Let_def)
  next
    case (Some mc)
    let ?orig = "originalModel mc (sv_placements sv ?r)"
    have o: "sm_cmd ?orig = origCmd sv0 ?r" by (rule original_is_orig [OF i b Some])
    show ?thesis
    proof (cases "planModel sv hv ?r ?orig")
      case None
      then show ?thesis using i Some by (simp add: ensurePlacement_def Let_def)
    next
      case plan: (Some fresh)
      have f: "pc_original fresh = origCmd sv0 ?r" using planModel_original [OF plan] o by simp
      note p = setPlaced_inv [OF i f]
      have a: "loadInv split sv0 ((setPlaced ?r (fresh\<lparr>pc_applied := c\<rparr>) (setPlaced ?r fresh sv))
            \<lparr>sv_overrides := (sv_overrides (setPlaced ?r fresh sv))(?r \<mapsto> (c, d)),
             sv_unfittable := u\<rparr>)"
        if "applyFlagOps split (origCmd sv0 ?r) ops = Some c" for c d u ops
        using i f that by (auto simp: loadInv_def)
      show ?thesis unfolding ensurePlacement_def Let_def Some plan option.case
        using i p o h a by (auto simp: setUnfit_inv split: option.splits)
    qed
  qed
qed

lemma escalate_action:
  assumes "escalate e st = (st', Some (c, d))"
  shows "\<exists>rec ops. re_record e = Some rec \<and> re_apply e (pr_originalCmd rec) ops = Some c"
  using assms
  by (auto simp: escalate_def installNext_def Let_def split: option.splits prod.splits if_splits)

lemma escalateStep_inv:
  assumes i: "loadInv split sv0 sv" and h: "hv_split hv = split"
  shows "loadInv split sv0 (fst (escalateIfMemoryFailure hv mid (sv, rt)))"
proof -
  let ?r = "realOf hv mid"
  obtain s' act where e: "escalate (retryEnv hv ?r sv) (rt ?r) = (s', act)" by fastforce
  show ?thesis
  proof (cases act)
    case None
    then show ?thesis using e i by (simp add: escalateIfMemoryFailure_def Let_def)
  next
    case (Some a)
    obtain c d where a: "a = (c, d)" by fastforce
    from escalate_action [OF e [unfolded Some a]] obtain rec ops where
      "sv_placements sv ?r = Some rec" "applyFlagOps split (pc_original rec) ops = Some c"
      using h by (auto simp: retryEnv_def)
    then have "\<exists>ops. applyFlagOps split (origCmd sv0 ?r) ops = Some c" using i by (auto simp: loadInv_def)
    then show ?thesis using e Some a i by (auto simp: escalateIfMemoryFailure_def Let_def loadInv_def)
  qed
qed

lemma refusal_inv: "loadInv split sv0 sv \<Longrightarrow> loadInv split sv0 (fst (modelLoadRefusal hv mid sv))"
  by (auto simp: modelLoadRefusal_def loadInv_def split: prod.splits)

lemma loadFitGate_inv:
  assumes "loadInv split sv0 (fst st)" and "bootState sv0" and "hv_split hv = split"
  shows "loadInv split sv0 (fst (fst (loadFitGate hv mid st)))"
proof -
  obtain sv rt where e: "escalateIfMemoryFailure hv mid (ensurePlacement hv mid (fst st), snd st) = (sv, rt)" by fastforce
  then have i: "loadInv split sv0 sv"
    using escalateStep_inv [OF ensurePlacement_inv [OF assms] assms(3), of mid mid "snd st"] by simp
  show ?thesis using assms(1) e refusal_inv [OF i, of hv mid]
    by (auto simp: loadFitGate_def split: prod.splits option.splits)
qed

text \<open>
  However many loads fail and are retried, every command handed to the router is the command the
  model was configured with, edited once: plans and retries never build on each other's flags.
\<close>

theorem overrides_edit_the_original:
  assumes "gated split (sv0, rt0) st" and "bootState sv0" and "sv_overrides (fst st) r = Some (c, d)"
  shows "\<exists>ops. applyFlagOps split (origCmd sv0 r) ops = Some c"
proof -
  have "loadInv split sv0 (fst st)"
    using assms(1)
  proof (induction "(sv0, rt0)" st rule: gated.induct)
    case gated_start
    then show ?case using assms(2) by (auto simp: loadInv_def bootState_def origCmd_def)
  next
    case (gated_load st' hv mid)
    then show ?case using loadFitGate_inv [OF _ assms(2)] by blast
  qed
  then show ?thesis using assms(3) by (auto simp: loadInv_def)
qed

section \<open>A model of 8 GB on a card of 8 GB\<close>

definition demoPolicy :: placement_config where
  "demoPolicy = \<lparr>plc_mode = [], plc_hostReserveGiB = 0, plc_gpuReserveGiB = 0, plc_minimumContext = 0,
     plc_allowKvQuantization = False, plc_maxRetries = 0\<rparr>"

definition demoModel :: "string \<Rightarrow> srv_model" where
  "demoModel cmd = \<lparr>sm_cmd = cmd, sm_backend = [], sm_useModelName = [], sm_draft = [], sm_projector = [],
     sm_healthTimeout = 120\<rparr>"

definition demoServer :: server where
  "demoServer = \<lparr>sv_models = [''m'' \<mapsto> demoModel ''llama -m /m --ctx-size 4096 --parallel 1''], sv_placements = Map.empty,
     sv_unfittable = Map.empty, sv_overrides = Map.empty, sv_policy = demoPolicy\<rparr>"

definition demoSampled :: monitor where
  "demoSampled =
     foldl (\<lambda>m e. monStep e m) (newMonitor False hourNs)
       [MonStart (Some (demoSys\<lparr>ss_available := 32768\<rparr>)),
        GpuSnapshot [\<lparr>gs_time = 1, gs_id = 0, gs_util = 0, gs_activity = 0, gs_activityKnown = False, gs_used = 0,
                      gs_total = 8192\<rparr>]]"

definition demoHost :: "model_shape \<Rightarrow> host_view" where
  "demoHost shape = \<lparr>hv_monitor = Some demoSampled, hv_unified = False, hv_wiredMB = 0, hv_split = goFields,
     hv_gguf = (\<lambda>_. Some \<lparr>gi_shape = shape, gi_splitMissing = []\<rparr>), hv_mlx = (\<lambda>_. None), hv_fileSize = (\<lambda>_. None),
     hv_groups = [], hv_loaded = (\<lambda>_. False), hv_stat = (\<lambda>_. Some (8589934592, 0)), hv_setBytes = (\<lambda>_. None),
     hv_engine = (\<lambda>b. b), hv_profiles = Absent, hv_fitTool = (\<lambda>_. None), hv_routed = (\<lambda>_. True),
     hv_attempts = (\<lambda>_. []), hv_realName = (\<lambda>_. None), hv_lastError = (\<lambda>_. None)\<rparr>"

definition demoWide :: fit_params where
  "demoWide = noParams\<lparr>fp_ctx := 1000000, fp_vramTotal := 12288\<rparr>"

lemma demoWide_facts:
  "kvOf (demoShape True) demoWide = 4096" "cpuOffloadBytes (demoShape True) demoWide = 0" "realistic (demoShape True) demoWide"
proof -
  show k: "kvOf (demoShape True) demoWide = 4096"
    by (simp add: kvOf_def withDefaults_def demoWide_def noParams_def demo_kvBytes)
  show "cpuOffloadBytes (demoShape True) demoWide = 0"
    by (simp add: cpuOffloadBytes_def expertOffload_def demoWide_def noParams_def)
  show "realistic (demoShape True) demoWide"
    unfolding realistic_def k by (simp add: demoWide_def noParams_def demoShape_def)
qed

lemma demo_tokens: "8192 \<le> ctxWithin (fmul (float64 12288) vramSafetyFrac) 8192 4096"
  by code_simp

lemma demo_clamp:
  "ctxClampDecision (fillModelFit (emptyFit [] []) (analyzeShape (demoShape True) demoWide)) True = (8192, None)"
proof -
  have w: "gpuWeightMB (demoShape True) demoWide = 8192"
    by (simp add: gpuWeightMB_def hostWeightMB_def demoWide_facts demo_modelMB mib_def)
  have t: "fp_vramTotal demoWide = 12288" "fp_ctx demoWide = 1000000" "fp_draftMB demoWide = 0" "fp_projectorMB demoWide = 0"
    "fp_vramFree demoWide = 0" by (simp_all add: demoWide_def noParams_def)
  have f: "fr_maxFitCtx (analyzeShape (demoShape True) demoWide) = 8192"
    using sized_reports(1) [of demoWide "demoShape True"] demoWide_facts(1) demo_modelMB w t demo_tokens
    by (simp add: budgetMB_def usableMB_def demoShape_def cappedCtx_def)
  have "fr_vramRequiredMB (analyzeShape (demoShape True) (demoWide\<lparr>fp_ctx := 1000000\<rparr>)) = vramRequired 8192 4096 1000000"
    using required_at [of 1000000 "demoShape True" demoWide] demoWide_facts(1) demo_modelMB w t by simp
  moreover have "demoWide\<lparr>fp_ctx := 1000000\<rparr> = demoWide" by (simp add: demoWide_def)
  moreover have "vramRequired 8192 4096 1000000 = 12507"
    using demo_overheads by (simp add: vramRequired_def i64_small sdiv_nonneg mib_def)
  ultimately have "fr_vramRequiredMB (analyzeShape (demoShape True) demoWide) = 12507" by simp
  then show ?thesis using f t
    by (simp add: clamp_on_result analyzeShape_total modelMB_result demo_modelMB minViableCtx_def)
qed

theorem clamp_shrinks_to_fit_witness:
  "8192 < fp_ctx demoWide \<and> fr_vramRequiredMB (analyzeShape (demoShape True) (demoWide\<lparr>fp_ctx := 8192\<rparr>)) \<le> 12288"
  using clamp_shrinks_to_fit [OF demoWide_facts(3) _ _ demo_clamp] demoWide_facts(2)
  by (simp add: demoShape_def) (simp add: demoWide_def)

lemma demoHost_sel [simp]:
  "hv_split (demoHost g) = goFields" "hv_gguf (demoHost g) p = Some \<lparr>gi_shape = g, gi_splitMissing = []\<rparr>"
  "hv_groups (demoHost g) = []" "hv_loaded (demoHost g) m = False" "hv_profiles (demoHost g) = Absent"
  "hv_fitTool (demoHost g) mc = None" "hv_routed (demoHost g) m = True" "hv_realName (demoHost g) m = None"
  "hv_lastError (demoHost g) m = None" "hv_attempts (demoHost g) m = []"
  by (simp_all add: demoHost_def)

lemma demo_card_vram: "vramMB (demoHost g) = (8192, 8192)" "hostMemMB (demoHost g) = (32768, 65536)"
  unfolding demoHost_def by code_simp+

definition headless :: model_shape where
  "headless = (demoShape False)\<lparr>ms_headCount := 0, ms_headCountKV := 0\<rparr>"

theorem no_attention_heads_refused_witness:
  "snd (modelLoadRefusal (demoHost headless) ''m'' demoServer) = Some (FitRefuses (Computed NoMetadata))"
proof -
  have p: "parseModelPath goFields ''llama -m /m --ctx-size 4096 --parallel 1'' = ''/m''" by code_simp
  have m: "0 < modelMBOf headless" by (simp add: headless_def modelMBOf_def demoShape_def mib_def sdiv_nonneg)
  show ?thesis
    by (rule no_attention_heads_refused [where mc = "demoModel ''llama -m /m --ctx-size 4096 --parallel 1''"
            and g = "\<lparr>gi_shape = headless, gi_splitMissing = []\<rparr>"])
      (use p m demo_card_vram [of headless] in \<open>simp_all add: demoServer_def demoModel_def headless_def\<close>)
qed

text \<open>Planning the model at its first load.\<close>

lemma demo_planInputs:
  "planInputs demoServer (demoHost (demoShape True)) ''m'' (demoModel ''llama -m /m --ctx-size 4096 --parallel 1'') =
     Some (demoInputs 32768)"
proof -
  let ?c = "''llama -m /m --ctx-size 4096 --parallel 1''"
  let ?a = "[''llama'', ''-m'', ''/m'', ''--ctx-size'', ''4096'', ''--parallel'', ''1'']"
  have p: "parseModelPath goFields ?c = ''/m''" by code_simp
  have a: "sanitizeCommand goFields ?c = Some ?a" by code_simp
  have f: "commandFlagInt ?a [''--ctx-size'', ''-c''] = Some 4096" "commandFlagInt ?a [''--parallel'', ''-np''] = Some 1"
    "commandFlagString ?a [''--cache-type-k'', ''-ctk''] = None" "commandFlagString ?a [''--cache-type-v'', ''-ctv''] = None"
    "\<not> hasPinnedPlacement ?a" by code_simp+
  show ?thesis
    by (simp add: planInputs_def demoModel_def sanitized_def p a f demo_card_vram modelGetsWholeGPU_def memberGroup_def cacheBits_def)
      (simp add: demoInputs_def demoServer_def demoPolicy_def)
qed

lemma demo_first_plan:
  "pl_flagOps (compute (demoInputs 32768)) = [valueOp ''--n-cpu-moe'' ''3'']"
proof -
  have "itoa 3 = ''3''" by code_simp
  then show ?thesis using moe_split_facts [OF demo_moeInputs, of 32768] demo_hybrid by simp
qed

lemma demo_gate:
  "\<exists>d. sv_overrides (fst (fst (loadFitGate (demoHost (demoShape True)) ''m'' (demoServer, Map.empty)))) ''m'' =
     Some (''llama -m /m --ctx-size 4096 --parallel 1 --n-cpu-moe 3'', d)"
proof -
  let ?h = "demoHost (demoShape True)"
  let ?m = "demoModel ''llama -m /m --ctx-size 4096 --parallel 1''"
  have sv: "sv_models demoServer ''m'' = Some ?m" "sv_placements demoServer ''m'' = None" "sv_overrides demoServer = Map.empty"
    by (simp_all add: demoServer_def)
  have k: "knownPlacement ?h ''m'' ?m i = None" for i
    by (simp add: knownPlacement_def lookupProfile_def split: option.splits)
  have plan: "planModel demoServer ?h ''m'' ?m = Some (newPlaced (compute (demoInputs 32768)) ?m (ms_weightBytes (in_shape (demoInputs 32768))))"
    by (simp add: planModel_def demo_planInputs k)
  have c: "applyFlagOps goFields ''llama -m /m --ctx-size 4096 --parallel 1'' [valueOp ''--n-cpu-moe'' ''3''] =
      Some ''llama -m /m --ctx-size 4096 --parallel 1 --n-cpu-moe 3''" by code_simp
  have mode: "pl_mode (compute (demoInputs 32768)) = ModeHybrid" using demo_hybrid by simp
  have cm: "sm_cmd (demoModel x) = x" for x by (simp add: demoModel_def)
  have e: "\<exists>d. sv_overrides (ensurePlacement ?h ''m'' demoServer) ''m'' = Some (''llama -m /m --ctx-size 4096 --parallel 1 --n-cpu-moe 3'', d)"
    using c by (simp add: ensurePlacement_def realOf_def sv originalModel_def plan newPlaced_def mode planApplies_def
        demo_first_plan cm Let_def)
  have r: "sv_overrides (fst (modelLoadRefusal h x s)) = sv_overrides s" for h x s
    by (simp add: modelLoadRefusal_def split: prod.splits)
  have n: "escalate (retryEnv ?h ''m'' s) t = (t, None)" for s t
    by (simp add: escalate_def retryEnv_def split: option.splits)
  show ?thesis using e r [of ?h "''m''" "ensurePlacement ?h ''m'' demoServer"]
    by (auto simp: loadFitGate_def escalateIfMemoryFailure_def realOf_def n Let_def split: prod.splits option.splits)
qed

theorem overrides_edit_the_original_witness:
  "\<exists>ops. applyFlagOps goFields ''llama -m /m --ctx-size 4096 --parallel 1'' ops =
     Some ''llama -m /m --ctx-size 4096 --parallel 1 --n-cpu-moe 3''"
proof -
  have b: "bootState demoServer" by (simp add: bootState_def demoServer_def)
  have g: "gated goFields (demoServer, Map.empty) (fst (loadFitGate (demoHost (demoShape True)) ''m'' (demoServer, Map.empty)))"
    by (intro gated_load gated_start) simp
  have o: "origCmd demoServer ''m'' = ''llama -m /m --ctx-size 4096 --parallel 1''"
    by (simp add: origCmd_def demoServer_def demoModel_def)
  from demo_gate obtain d where "sv_overrides (fst (fst (loadFitGate (demoHost (demoShape True)) ''m'' (demoServer, Map.empty)))) ''m'' =
     Some (''llama -m /m --ctx-size 4096 --parallel 1 --n-cpu-moe 3'', d)" ..
  from overrides_edit_the_original [OF g b this] show ?thesis by (simp add: o)
qed

theorem auto_placement_effect_witness:
  "\<exists>mc'. sv_models (applyAutoPlacement (demoHost (demoShape True)) [''m''] demoServer) ''m'' = Some mc' \<and> 120 \<le> sm_healthTimeout mc'"
  using auto_placement_effect [of "[''m'']" demoServer "''m''" "demoModel ''llama -m /m --ctx-size 4096 --parallel 1''" "demoHost (demoShape True)"]
  by (auto simp: demoServer_def demoModel_def placedWell_def Let_def)

definition blindHost :: host_view where
  "blindHost = (demoHost (demoShape True))\<lparr>hv_monitor := None\<rparr>"

theorem blind_boot_decides_nothing_witness:
  "snd (modelLoadRefusal blindHost ''m'' (clampModelsToFit blindHost [''m''] (applyAutoPlacement blindHost [''m''] demoServer))) = None"
proof -
  have "vramMB blindHost = (0, 0)" by (simp add: blindHost_def vramMB_def)
  from blind_boot_decides_nothing [OF this, of "[''m'']" "[''m'']" demoServer "''m''"] show ?thesis
    by (simp add: Let_def demoServer_def)
qed

theorem clamp_unseen_after_placement_witness:
  "(let mc = demoModel ''llama -m /m --ctx-size 4096 --parallel 1'';
        sv = setPlaced ''m'' ((newPlaced (bare ModeHybrid NoClass NoReason) mc 1)\<lparr>pc_applied := ''x''\<rparr>) demoServer in
    fitForModel (setModel ''m'' (mc\<lparr>sm_cmd := setCtxSizeInCmd (sm_cmd mc) 2048\<rparr>) sv) (demoHost (demoShape True)) ''m'' =
    fitForModel sv (demoHost (demoShape True)) ''m'')"
proof -
  let ?mc = "demoModel ''llama -m /m --ctx-size 4096 --parallel 1''"
  let ?rec = "(newPlaced (bare ModeHybrid NoClass NoReason) ?mc 1)\<lparr>pc_applied := ''x''\<rparr>"
  let ?sv = "setPlaced ''m'' ?rec demoServer"
  have p: "parseModelPath goFields (setCtxSizeInCmd ''llama -m /m --ctx-size 4096 --parallel 1'' 2048) =
      parseModelPath goFields ''llama -m /m --ctx-size 4096 --parallel 1''" by code_simp
  have s: "sv_models ?sv ''m'' = Some ?mc" "sv_placements ?sv ''m'' = Some ?rec" "pc_applied ?rec \<noteq> []"
    by (simp_all add: demoServer_def)
  have "parseModelPath (hv_split (demoHost (demoShape True))) (setCtxSizeInCmd (sm_cmd ?mc) 2048) =
      parseModelPath (hv_split (demoHost (demoShape True))) (sm_cmd ?mc)" using p by (simp add: demoModel_def)
  from clamp_unseen_after_placement [OF s this] show ?thesis by (simp add: Let_def)
qed

end
