(* ===== verification/Mem_Guard.thy ===== *)
theory Mem_Guard
  imports Load_Guard
begin

text \<open>
  The background guards of the server: the memory guard and the pressure gate
  (\<open>internal/server/memguard.go\<close>, \<open>internal/config/memoryguard.go\<close>) and the GPU-stall watchdog
  (\<open>wedgewatchdog.go\<close>). Both are step functions of their state and one sample; the runs below feed
  them sequences of samples.
\<close>

named_theorems mem_defs "unfolding rules of the memory guard"

section \<open>Configuration\<close>

record guard_conf =
  mg_enabled :: "bool option"
  mg_minPct :: rat
  mg_samples :: int
  mg_interval :: int
  mg_cooldown :: int

datatype guard_error = BadMinPct | BadSamples | BadInterval | BadCooldown

definition guardEnabled :: "bool \<Rightarrow> guard_conf \<Rightarrow> bool" where
  "guardEnabled darwin m = (case mg_enabled m of Some b \<Rightarrow> b | None \<Rightarrow> darwin)"

definition normalizeGuard :: "guard_conf \<Rightarrow> guard_error + guard_conf" where
  "normalizeGuard m0 =
     (let m = (if mg_minPct m0 = 0 then m0\<lparr>mg_minPct := 10\<rparr> else m0) in
      if mg_minPct m < 0 \<or> mg_minPct m > 90 then Inl BadMinPct
      else let m = (if mg_samples m = 0 then m\<lparr>mg_samples := 2\<rparr> else m) in
        if mg_samples m < 1 then Inl BadSamples
        else let m = (if mg_interval m = 0 then m\<lparr>mg_interval := 5\<rparr> else m) in
          if mg_interval m < 1 then Inl BadInterval
          else let m = (if mg_cooldown m = 0 then m\<lparr>mg_cooldown := 60\<rparr> else m) in
            if mg_cooldown m < 0 then Inl BadCooldown else Inr m)"

section \<open>The decision core\<close>

text \<open>\<open>gd_last = None\<close> is the zero time; times are nanoseconds.\<close>

record guard_state =
  gd_consecutive :: int
  gd_last :: "int option"

record guard_sample =
  sa_pressured :: bool
  sa_critical :: bool
  sa_unloadable :: nat
  sa_now :: int

definition freshGuard :: guard_state where
  "freshGuard = \<lparr>gd_consecutive = 0, gd_last = None\<rparr>"

definition cooldownNs :: "guard_conf \<Rightarrow> int" where
  "cooldownNs conf = i64 (mg_cooldown conf * 1000000000)"

definition observe :: "guard_conf \<Rightarrow> guard_sample \<Rightarrow> guard_state \<Rightarrow> guard_state \<times> bool" where
  "observe conf x g =
     (if \<not> sa_pressured x then (g\<lparr>gd_consecutive := 0\<rparr>, False)
      else let g = g\<lparr>gd_consecutive := gd_consecutive g + 1\<rparr>;
               needed = (if sa_critical x then 1 else mg_samples conf) in
        if gd_consecutive g < needed then (g, False)
        else if sa_unloadable x = 0 then (g, False)
        else if (case gd_last g of None \<Rightarrow> False | Some t \<Rightarrow> sa_now x - t < cooldownNs conf) then (g, False)
        else (\<lparr>gd_consecutive = 0, gd_last = Some (sa_now x)\<rparr>, True))"

definition pressureCritical :: int where "pressureCritical = 4"

definition hostUnderPressure :: "sys_stat \<Rightarrow> rat \<Rightarrow> bool \<times> bool" where
  "hostUnderPressure st minPct =
     (if ss_pressure st > 0 then (ss_pressure st \<ge> pressureCritical, ss_pressure st \<ge> pressureCritical)
      else let totalMB = EffectiveMemTotalMB st; availableMB = EffectiveMemAvailableMB st in
        if totalMB \<le> 0 \<or> availableMB < 0 then (False, False)
        else let pct = fmul (fdiv (float64 availableMB) (float64 totalMB)) 100 in
          (pct < minPct, pct < fdiv minPct 2))"

text \<open>One tick of \<open>startMemoryGuard\<close>: the models it unloads, none when sampling failed.\<close>

definition guardTick :: "guard_conf \<Rightarrow> sys_stat option \<Rightarrow> (string \<times> process_state) list \<Rightarrow> int \<Rightarrow> guard_state \<Rightarrow> guard_state \<times> string list" where
  "guardTick conf sample procs now g =
     (case sample of
        None \<Rightarrow> (g, [])
      | Some st \<Rightarrow>
          (case hostUnderPressure st (mg_minPct conf) of
             (pressured, critical) \<Rightarrow>
               let ready = map fst (filter (\<lambda>(_, p). p = StateReady) procs) in
               (case observe conf \<lparr>sa_pressured = pressured, sa_critical = critical, sa_unloadable = length ready, sa_now = now\<rparr> g of
                  (g', fires) \<Rightarrow> (g', if fires then sort_key (map (of_char :: char \<Rightarrow> nat)) ready else []))))"

section \<open>The pressure gate\<close>

definition memoryPressureRefusal :: "bool \<Rightarrow> guard_error + guard_conf \<Rightarrow> sys_stat option \<Rightarrow> bool" where
  "memoryPressureRefusal darwin conf sample =
     (case (conf, sample) of
        (Inr mg, Some st) \<Rightarrow> guardEnabled darwin mg \<and> snd (hostUnderPressure st (mg_minPct mg))
      | _ \<Rightarrow> False)"

definition placementAdmissionRefusal :: "plan option \<Rightarrow> sys_stat \<Rightarrow> bool" where
  "placementAdmissionRefusal planned st =
     (case planned of
        None \<Rightarrow> False
      | Some p \<Rightarrow>
          pl_confident p \<and> es_hostMB (pl_estimate p) > 0 \<and>
          EffectiveMemAvailableMB st > 0 \<and> es_hostMB (pl_estimate p) > EffectiveMemAvailableMB st)"

definition placementFor :: "host_view \<Rightarrow> server \<Rightarrow> string \<Rightarrow> plan option" where
  "placementFor hv sv mid = map_option pc_plan (sv_placements sv (realOf hv mid))"

definition memoryGate :: "host_view \<Rightarrow> bool \<Rightarrow> guard_conf \<Rightarrow> sys_stat option \<Rightarrow> string \<Rightarrow> server \<Rightarrow> gate_answer" where
  "memoryGate hv darwin conf sample modelID sv =
     (if hv_loaded hv modelID then PassOn
      else if memoryPressureRefusal darwin (normalizeGuard conf) sample then Unavailable
      else case sample of
        None \<Rightarrow> PassOn
      | Some st \<Rightarrow> if placementAdmissionRefusal (placementFor hv sv modelID) st then Unavailable else PassOn)"

section \<open>The GPU-stall watchdog\<close>

definition intOr :: "int \<Rightarrow> int \<Rightarrow> int" where
  "intOr v d = (if v > 0 then v else d)"

definition gpuStalled :: "gpu_stat \<Rightarrow> rat \<Rightarrow> rat \<Rightarrow> bool" where
  "gpuStalled g gpuMin memMax = (gs_activityKnown g \<and> gs_util g \<ge> gpuMin \<and> gs_activity g \<le> memMax)"

definition fatalErrorPatterns :: "string list" where
  "fatalErrorPatterns =
     [''backend is in error state from a previous command buffer failure'',
      ''CommandBufferCallbackErrorOutOfMemory'',
      ''command buffer failed with error'',
      ''failed to compile metal shader'']"

text \<open>The last twenty non-blank lines, trimmed, the newest first.\<close>

definition lastTwenty :: "string \<Rightarrow> string list" where
  "lastTwenty history = take 20 (filter (\<lambda>l. l \<noteq> []) (map trimB (rev (splitOn newline (trimB history)))))"

definition stderrFatalMatch :: "string \<Rightarrow> string option" where
  "stderrFatalMatch history =
     (let text = toLower (concat (map (\<lambda>l. l @ [newline]) (lastTwenty history))) in
      find (\<lambda>pat. contains text (toLower pat)) fatalErrorPatterns)"

definition placementIsHostHeavy :: "host_view \<Rightarrow> server \<Rightarrow> string \<Rightarrow> bool" where
  "placementIsHostHeavy hv sv mid =
     ((case sv_placements sv mid of
         None \<Rightarrow> False | Some rec \<Rightarrow> pl_mode (pc_plan rec) = ModeHybrid \<or> pl_mode (pc_plan rec) = ModeCPU) \<or>
      (case sv_models sv mid of
         None \<Rightarrow> False
       | Some mc \<Rightarrow>
           (case sanitized hv mc of
              None \<Rightarrow> False
            | Some args \<Rightarrow>
                let spec = translatorParse (translatorFor (sm_backend mc)) args in
                os_cpuMoe spec = Some True \<or>
                (case os_nCpuMoe spec of None \<Rightarrow> False | Some n \<Rightarrow> n > 0) \<or>
                (case os_overrideTensor spec of None \<Rightarrow> False | Some t \<Rightarrow> t \<noteq> []) \<or>
                (case commandFlagString args [''--n-gpu-layers'', ''-ngl'', ''--gpu-layers''] of
                   None \<Rightarrow> False | Some v \<Rightarrow> parseInt64 (trimB v) = Some 0))))"

datatype watch_status = WatchOff | NoMonitor | NotOneGpu nat | NoTelemetry | WatchActive

definition startWedgeWatchdog :: "bool option \<Rightarrow> monitor option \<Rightarrow> watch_status" where
  "startWedgeWatchdog enabled mon =
     (if enabled = Some False then WatchOff
      else case mon of
        None \<Rightarrow> NoMonitor
      | Some m \<Rightarrow>
          let gpus = snd (currentStats m) in
          if length gpus \<noteq> 1 then NotOneGpu (length gpus)
          else if \<not> gs_activityKnown (hd gpus) then NoTelemetry else WatchActive)"

record watch_tick =
  wt_monitor :: monitor
  wt_procs :: "(string \<times> process_state) list"
  wt_llama :: "string \<Rightarrow> bool"
  wt_history :: "string \<Rightarrow> string option"
  wt_heavy :: "string \<Rightarrow> bool"

definition watched :: "watch_tick \<Rightarrow> string \<Rightarrow> bool" where
  "watched t mid = ((mid, StateReady) \<in> set (wt_procs t) \<and> wt_llama t mid)"

definition fatalNow :: "watch_tick \<Rightarrow> string \<Rightarrow> bool" where
  "fatalNow t mid = (case wt_history t mid of None \<Rightarrow> False | Some h \<Rightarrow> stderrFatalMatch h \<noteq> None)"

definition watchOne :: "watch_tick \<Rightarrow> bool \<Rightarrow> int \<Rightarrow> (string \<rightharpoonup> int) \<times> string list \<Rightarrow> string \<times> process_state \<Rightarrow> (string \<rightharpoonup> int) \<times> string list" where
  "watchOne t stalled need acc p =
     (case acc of
        (stalls, restarts) \<Rightarrow>
          (case p of
             (mid, st) \<Rightarrow>
               if st \<noteq> StateReady \<or> \<not> wt_llama t mid then (stalls, restarts)
               else if fatalNow t mid then (stalls, restarts @ [mid])
               else if \<not> stalled \<or> wt_heavy t mid then (stalls(mid \<mapsto> 0), restarts)
               else let n = orZero (stalls mid) + 1 in
                 if n \<ge> need then (stalls(mid := None), restarts @ [mid]) else (stalls(mid \<mapsto> n), restarts)))"

definition wedgeWatchdogTick :: "rat \<Rightarrow> rat \<Rightarrow> int \<Rightarrow> watch_tick \<Rightarrow> (string \<rightharpoonup> int) \<Rightarrow> (string \<rightharpoonup> int) \<times> string list" where
  "wedgeWatchdogTick gpuMin memMax need t stalls =
     (let gpus = snd (currentStats (wt_monitor t)) in
      if length gpus \<noteq> 1 then (stalls, [])
      else let stalled = gpuStalled (hd gpus) gpuMin memMax in
        (case foldl (watchOne t stalled need) (stalls, []) (wt_procs t) of
           (stalls', restarts) \<Rightarrow> (\<lambda>mid. if watched t mid then stalls' mid else None, restarts)))"

section \<open>Runs of the memory guard\<close>

text \<open>The samples seen so far, the newest last, and the times at which the guard fired.\<close>

inductive guarded :: "guard_conf \<Rightarrow> guard_sample list \<Rightarrow> int list \<Rightarrow> guard_state \<Rightarrow> bool" for conf where
  guarded_start: "guarded conf [] [] freshGuard"
| guarded_quiet: "guarded conf xs fs g \<Longrightarrow> observe conf x g = (g', False) \<Longrightarrow> guarded conf (xs @ [x]) fs g'"
| guarded_fire: "guarded conf xs fs g \<Longrightarrow> observe conf x g = (g', True) \<Longrightarrow> guarded conf (xs @ [x]) (fs @ [sa_now x]) g'"

text \<open>How many of the newest samples were pressured without a break.\<close>

definition pressuredTail :: "guard_sample list \<Rightarrow> nat" where
  "pressuredTail xs = length (takeWhile sa_pressured (rev xs))"

lemma pressuredTail_snoc: "pressuredTail (xs @ [x]) = (if sa_pressured x then Suc (pressuredTail xs) else 0)"
  by (simp add: pressuredTail_def)

lemma observe_fires:
  "observe conf x g = (g', True) \<longleftrightarrow>
     sa_pressured x \<and> (if sa_critical x then 1 else mg_samples conf) \<le> gd_consecutive g + 1 \<and> 0 < sa_unloadable x \<and>
     (case gd_last g of None \<Rightarrow> True | Some t \<Rightarrow> cooldownNs conf \<le> sa_now x - t) \<and>
     g' = \<lparr>gd_consecutive = 0, gd_last = Some (sa_now x)\<rparr>"
  by (auto simp: observe_def Let_def split: option.splits)

lemma observe_quiet:
  "observe conf x g = (g', False) \<Longrightarrow>
     gd_last g' = gd_last g \<and> gd_consecutive g' = (if sa_pressured x then gd_consecutive g + 1 else 0)"
  by (auto simp: observe_def Let_def split: option.splits if_splits)

definition guardInv :: "guard_conf \<Rightarrow> guard_sample list \<Rightarrow> int list \<Rightarrow> guard_state \<Rightarrow> bool" where
  "guardInv conf xs fs g \<longleftrightarrow>
     0 \<le> gd_consecutive g \<and> gd_consecutive g \<le> int (pressuredTail xs) \<and>
     gd_last g = (if fs = [] then None else Some (last fs)) \<and> set fs \<subseteq> sa_now ` set xs \<and>
     sorted_wrt (\<lambda>a b. cooldownNs conf \<le> b - a) fs"

text \<open>With a cooldown that is not negative a later firing is after every earlier one.\<close>

lemma cooled_snoc:
  assumes "0 \<le> c" and "sorted_wrt (\<lambda>a b. c \<le> b - a) fs" and "fs = [] \<or> c \<le> x - last fs"
  shows "sorted_wrt (\<lambda>a b. c \<le> b - a) (fs @ [x :: int])"
proof (cases fs rule: rev_cases)
  case (snoc ys y)
  have "c \<le> x - a" if "a \<in> set ys" for a
    using that assms snoc by (auto simp: sorted_wrt_append)
  then show ?thesis using assms snoc by (auto simp: sorted_wrt_append)
qed simp

lemma guarded_inv:
  assumes "guarded conf xs fs g" and "0 \<le> cooldownNs conf"
  shows "guardInv conf xs fs g"
  using assms(1)
proof induction
  case guarded_start
  then show ?case by (simp add: guardInv_def freshGuard_def)
next
  case (guarded_quiet xs fs g x g')
  then show ?case using observe_quiet [OF guarded_quiet(2)] by (auto simp: guardInv_def pressuredTail_snoc)
next
  case (guarded_fire xs fs g x g')
  then have f: "fs = [] \<or> cooldownNs conf \<le> sa_now x - last fs"
    "g' = \<lparr>gd_consecutive = 0, gd_last = Some (sa_now x)\<rparr>" "sa_pressured x"
    by (auto simp: observe_fires guardInv_def split: if_splits)
  then show ?case using guarded_fire(3) cooled_snoc [OF assms(2) _ f(1)]
    by (auto simp: guardInv_def pressuredTail_snoc)
qed

text \<open>
  C33. The guard unloads only under pressure that is critical or has lasted for the configured number of
  consecutive samples, only when there is a model to unload, and never twice within the cooldown.
\<close>

theorem guard_fires_on_sustained_pressure:
  assumes "guarded conf xs fs g0" and "observe conf x g0 = (g, True)" and "0 \<le> cooldownNs conf"
  shows "0 < sa_unloadable x \<and> sa_pressured x \<and>
    (sa_critical x \<or> mg_samples conf \<le> int (pressuredTail (xs @ [x]))) \<and>
    (\<forall>t \<in> set fs. cooldownNs conf \<le> sa_now x - t)"
proof -
  have i: "guardInv conf xs fs g0" "guardInv conf (xs @ [x]) (fs @ [sa_now x]) g"
    using guarded_inv [OF assms(1,3)] guarded_inv [OF guarded_fire [OF assms(1,2)] assms(3)] by simp_all
  have f: "sa_pressured x" "(if sa_critical x then 1 else mg_samples conf) \<le> gd_consecutive g0 + 1" "0 < sa_unloadable x"
    using assms(2) by (auto simp: observe_fires)
  have "sa_critical x \<or> mg_samples conf \<le> int (pressuredTail (xs @ [x]))"
    using f i(1) by (auto simp: guardInv_def pressuredTail_snoc split: if_splits)
  then show ?thesis using f i(2) by (auto simp: guardInv_def sorted_wrt_append)
qed

text \<open>The guard fed with a list of samples: its state and how often it fired.\<close>

fun observeAll :: "guard_conf \<Rightarrow> guard_sample list \<Rightarrow> guard_state \<Rightarrow> guard_state \<times> nat" where
  "observeAll conf [] g = (g, 0)"
| "observeAll conf (x # xs) g =
     (case observe conf x g of
        (g1, fires) \<Rightarrow> (case observeAll conf xs g1 of (g2, n) \<Rightarrow> (g2, if fires then Suc n else n)))"

lemma observe_when_due:
  assumes "0 \<le> gd_consecutive g" and "sa_pressured x" and "0 < sa_unloadable x"
    and "case gd_last g of None \<Rightarrow> True | Some t \<Rightarrow> cooldownNs conf \<le> sa_now x - t"
  shows "snd (observe conf x g) \<or>
    (gd_consecutive g + 1 < mg_samples conf \<and> fst (observe conf x g) = g\<lparr>gd_consecutive := gd_consecutive g + 1\<rparr>)"
  using assms by (auto simp: observe_def Let_def split: option.splits)

lemma due_fires:
  assumes "0 < length xs" and "0 \<le> gd_consecutive g" and "mg_samples conf \<le> gd_consecutive g + int (length xs)"
    and "\<And>x. x \<in> set xs \<Longrightarrow> sa_pressured x \<and> 0 < sa_unloadable x \<and>
           (case gd_last g of None \<Rightarrow> True | Some t \<Rightarrow> cooldownNs conf \<le> sa_now x - t)"
  shows "0 < snd (observeAll conf xs g)"
  using assms
proof (induction xs arbitrary: g)
  case (Cons x xs)
  have d: "snd (observe conf x g) \<or>
    (gd_consecutive g + 1 < mg_samples conf \<and> fst (observe conf x g) = g\<lparr>gd_consecutive := gd_consecutive g + 1\<rparr>)"
    using Cons.prems(2) Cons.prems(4) [of x] by (intro observe_when_due) auto
  obtain g1 fires where o: "observe conf x g = (g1, fires)" by fastforce
  show ?case
  proof (cases fires)
    case True
    then show ?thesis using o by (simp split: prod.split)
  next
    case False
    then have g1: "g1 = g\<lparr>gd_consecutive := gd_consecutive g + 1\<rparr>" "gd_consecutive g + 1 < mg_samples conf"
      using d o by auto
    then have "0 < length xs" using Cons.prems(3) by (cases xs) auto
    then have "0 < snd (observeAll conf xs g1)"
      using Cons.prems g1 by (intro Cons.IH) auto
    then show ?thesis using o False by (simp split: prod.splits)
  qed
qed simp

text \<open>
  Lasting pressure is answered: whatever the state, as many pressured samples in a row as are
  configured, each with a model to unload and after the cooldown, make the guard fire.
\<close>

theorem guard_answers_lasting_pressure:
  assumes "0 \<le> gd_consecutive g" and "0 < mg_samples conf" and "mg_samples conf \<le> int (length xs)"
    and "\<And>x. x \<in> set xs \<Longrightarrow> sa_pressured x \<and> 0 < sa_unloadable x \<and>
           (case gd_last g of None \<Rightarrow> True | Some t \<Rightarrow> cooldownNs conf \<le> sa_now x - t)"
  shows "0 < snd (observeAll conf xs g)"
  using assms by (intro due_fires) (auto intro: order_trans)

section \<open>Runs of the watchdog\<close>

text \<open>What one tick does about one model, the processes having distinct names.\<close>

lemma watchOne_other:
  assumes "fst p \<noteq> mid"
  shows "fst (watchOne t b need acc p) mid = fst acc mid \<and> (mid \<in> set (snd (watchOne t b need acc p)) \<longleftrightarrow> mid \<in> set (snd acc))"
  using assms by (cases acc; cases p) (auto simp: watchOne_def Let_def)

lemma watch_others:
  assumes "mid \<notin> fst ` set ps"
  shows "fst (foldl (watchOne t b need) acc ps) mid = fst acc mid \<and>
    (mid \<in> set (snd (foldl (watchOne t b need) acc ps)) \<longleftrightarrow> mid \<in> set (snd acc))"
  using assms
proof (induction ps arbitrary: acc)
  case (Cons p ps)
  then have "fst p \<noteq> mid" by auto
  from watchOne_other [OF this, of t b need acc] Cons show ?case by simp
qed simp

lemma watchOne_same:
  assumes "fst acc mid = fst acc' mid" and "mid \<notin> set (snd acc)" and "mid \<notin> set (snd acc')"
  shows "fst (watchOne t b need acc (mid, st)) mid = fst (watchOne t b need acc' (mid, st)) mid \<and>
    (mid \<in> set (snd (watchOne t b need acc (mid, st))) \<longleftrightarrow> mid \<in> set (snd (watchOne t b need acc' (mid, st))))"
  using assms by (cases acc; cases acc') (auto simp: watchOne_def Let_def)

lemma watch_one_model:
  assumes "distinct (map fst ps)" and "(mid, st) \<in> set ps" and "mid \<notin> set (snd acc)"
  shows "fst (foldl (watchOne t b need) acc ps) mid = fst (watchOne t b need acc (mid, st)) mid \<and>
    (mid \<in> set (snd (foldl (watchOne t b need) acc ps)) \<longleftrightarrow> mid \<in> set (snd (watchOne t b need acc (mid, st))))"
  using assms
proof (induction ps arbitrary: acc)
  case (Cons p ps)
  show ?case
  proof (cases "p = (mid, st)")
    case True
    then have "mid \<notin> fst ` set ps" using Cons.prems(1) by simp
    then show ?thesis using True watch_others [of mid ps t b need "watchOne t b need acc p"] by simp
  next
    case False
    then have m: "(mid, st) \<in> set ps" "fst p \<noteq> mid" using Cons.prems by (auto intro: rev_image_eqI)
    note o = watchOne_other [OF m(2), of t b need acc]
    have n: "mid \<notin> set (snd (watchOne t b need acc p))" using o Cons.prems(3) by simp
    have "distinct (map fst ps)" using Cons.prems(1) by simp
    from Cons.IH [OF this m(1) n] watchOne_same [of "watchOne t b need acc p" mid acc t b need st] o n Cons.prems(3)
    show ?thesis by simp
  qed
qed simp

definition oneGpu :: "watch_tick \<Rightarrow> bool" where
  "oneGpu t = (length (snd (currentStats (wt_monitor t))) = 1)"

definition stalledFor :: "rat \<Rightarrow> rat \<Rightarrow> string \<Rightarrow> watch_tick \<Rightarrow> bool" where
  "stalledFor gpuMin memMax mid t =
     (watched t mid \<and> \<not> fatalNow t mid \<and> \<not> wt_heavy t mid \<and>
      gpuStalled (hd (snd (currentStats (wt_monitor t)))) gpuMin memMax)"

text \<open>
  The stalled samples of a model since its last sample that was neither stalled nor fatal, among
  the ticks that saw one GPU.
\<close>

definition stallTail :: "rat \<Rightarrow> rat \<Rightarrow> string \<Rightarrow> watch_tick list \<Rightarrow> nat" where
  "stallTail gpuMin memMax mid ts =
     length (filter (stalledFor gpuMin memMax mid)
       (takeWhile (\<lambda>t. stalledFor gpuMin memMax mid t \<or> watched t mid \<and> fatalNow t mid) (rev (filter oneGpu ts))))"

lemma stallTail_snoc:
  "stallTail gpuMin memMax mid (ts @ [t]) =
     (if \<not> oneGpu t then stallTail gpuMin memMax mid ts
      else if stalledFor gpuMin memMax mid t then Suc (stallTail gpuMin memMax mid ts)
      else if watched t mid \<and> fatalNow t mid then stallTail gpuMin memMax mid ts
      else 0)"
  by (simp add: stallTail_def)

definition properTick :: "watch_tick \<Rightarrow> bool" where
  "properTick t = distinct (map fst (wt_procs t))"

lemma tick_model:
  assumes "properTick t" and "oneGpu t"
  shows "fst (wedgeWatchdogTick gpuMin memMax need t stalls) mid =
           (if \<not> watched t mid then None
            else if fatalNow t mid then stalls mid
            else if \<not> stalledFor gpuMin memMax mid t then Some 0
            else if need \<le> orZero (stalls mid) + 1 then None else Some (orZero (stalls mid) + 1))" (is ?stalls)
    and "mid \<in> set (snd (wedgeWatchdogTick gpuMin memMax need t stalls)) \<longleftrightarrow>
           watched t mid \<and> (fatalNow t mid \<or> stalledFor gpuMin memMax mid t \<and> need \<le> orZero (stalls mid) + 1)" (is ?restarts)
proof -
  let ?b = "gpuStalled (hd (snd (currentStats (wt_monitor t)))) gpuMin memMax"
  let ?r = "foldl (watchOne t ?b need) (stalls, []) (wt_procs t)"
  have tick: "wedgeWatchdogTick gpuMin memMax need t stalls = (\<lambda>mid. if watched t mid then fst ?r mid else None, snd ?r)"
    using assms(2) by (simp add: wedgeWatchdogTick_def oneGpu_def Let_def case_prod_beta)
  have w: "fst ?r mid = fst (watchOne t ?b need (stalls, []) (mid, st)) mid \<and>
      (mid \<in> set (snd ?r) \<longleftrightarrow> mid \<in> set (snd (watchOne t ?b need (stalls, []) (mid, st))))" if "(mid, st) \<in> set (wt_procs t)" for st
    using watch_one_model [of "wt_procs t" mid st "(stalls, [])"] assms(1) that by (simp add: properTick_def)
  have u: "st = StateReady" if "(mid, st) \<in> set (wt_procs t)" "(mid, StateReady) \<in> set (wt_procs t)" for st
    using that assms(1) by (auto simp: properTick_def dest: eq_key_imp_eq_value)
  have none: "mid \<notin> set (snd ?r)" if "\<not> watched t mid"
  proof (cases "mid \<in> fst ` set (wt_procs t)")
    case True
    then obtain st where "(mid, st) \<in> set (wt_procs t)" by auto
    then show ?thesis using w that by (auto simp: watched_def watchOne_def)
  next
    case False
    then show ?thesis using watch_others [of mid "wt_procs t" t ?b need "(stalls, [])"] by simp
  qed
  show ?stalls
  proof (cases "watched t mid")
    case True
    then show ?thesis using w [of StateReady] unfolding tick
      by (auto simp: watched_def watchOne_def stalledFor_def Let_def)
  qed (simp add: tick)
  show ?restarts
  proof (cases "watched t mid")
    case True
    then show ?thesis using w [of StateReady] unfolding tick
      by (auto simp: watched_def watchOne_def stalledFor_def Let_def)
  qed (use none tick in simp)
qed

definition watchRun :: "rat \<Rightarrow> rat \<Rightarrow> int \<Rightarrow> watch_tick list \<Rightarrow> (string \<rightharpoonup> int)" where
  "watchRun gpuMin memMax need ts = foldl (\<lambda>s t. fst (wedgeWatchdogTick gpuMin memMax need t s)) Map.empty ts"

lemma tick_skipped: "\<not> oneGpu t \<Longrightarrow> wedgeWatchdogTick gpuMin memMax need t stalls = (stalls, [])"
  by (simp add: wedgeWatchdogTick_def oneGpu_def Let_def)

lemma watchRun_tail:
  assumes "\<And>t. t \<in> set ts \<Longrightarrow> properTick t"
  shows "orZero (watchRun gpuMin memMax need ts mid) \<le> int (stallTail gpuMin memMax mid ts)"
  using assms
proof (induction ts rule: rev_induct)
  case (snoc t ts)
  let ?s = "watchRun gpuMin memMax need ts"
  have r: "watchRun gpuMin memMax need (ts @ [t]) = fst (wedgeWatchdogTick gpuMin memMax need t ?s)"
    by (simp add: watchRun_def)
  have ih: "orZero (?s mid) \<le> int (stallTail gpuMin memMax mid ts)" using snoc by simp
  have p: "properTick t" using snoc.prems by simp
  show ?case
  proof (cases "oneGpu t")
    case True
    show ?thesis unfolding r tick_model(1) [OF p True] stallTail_snoc using ih True by (auto simp: stalledFor_def)
  next
    case False
    then show ?thesis using ih by (simp add: r tick_skipped stallTail_snoc)
  qed
qed (simp add: watchRun_def)

text \<open>
  The watchdog restarts a model only when it is ready, a llama.cpp backend, and either printed a
  fatal line or was stalled in at least the configured number of samples since its last healthy one.
\<close>

theorem restart_needs_stalls:
  assumes "\<And>u. u \<in> set (ts @ [t]) \<Longrightarrow> properTick u"
    and "mid \<in> set (snd (wedgeWatchdogTick gpuMin memMax need t (watchRun gpuMin memMax need ts)))"
  shows "watched t mid \<and>
    (fatalNow t mid \<or> \<not> wt_heavy t mid \<and> need \<le> int (stallTail gpuMin memMax mid (ts @ [t])))"
proof -
  have g: "oneGpu t" using assms(2) by (cases "oneGpu t") (simp_all add: tick_skipped)
  have p: "properTick t" using assms(1) by simp
  have "orZero (watchRun gpuMin memMax need ts mid) \<le> int (stallTail gpuMin memMax mid ts)"
    using assms(1) by (intro watchRun_tail) simp
  then show ?thesis using assms(2) g unfolding tick_model(2) [OF p g] stallTail_snoc by (auto simp: stalledFor_def)
qed

section \<open>The watchdog reads the series\<close>

lemma snapshots_pushed:
  "mo_running m \<Longrightarrow> mo_gpu (foldl (\<lambda>m e. monStep e m) m (map GpuSnapshot gs)) = fold ringPush gs (mo_gpu m)"
  by (induction gs arbitrary: m) simp_all

lemma concat_nonempty: "(\<And>g. g \<in> set gs \<Longrightarrow> g \<noteq> []) \<Longrightarrow> length gs \<le> length (concat gs)"
proof (induction gs)
  case (Cons g gs)
  then show ?case by (cases g) auto
qed simp

lemma set_lastn: "set (lastn n xs) \<subseteq> set xs"
  by (simp add: lastn_def set_drop_subset)

text \<open>
  The watchdog counts the entries of the monitor's whole series instead of its devices: from the
  second GPU snapshot on every tick returns at once, so neither a stall nor a fatal line restarts
  anything.
\<close>

theorem watchdog_inert_after_two_samples:
  assumes "mo_running m" and "ring_inv (mo_gpu m)" and "2 \<le> length (rbuf (mo_gpu m))"
    and "2 \<le> length gs" and "\<And>g. g \<in> set gs \<Longrightarrow> g \<noteq> []"
    and "wt_monitor t = foldl (\<lambda>m e. monStep e m) m (map GpuSnapshot gs)"
  shows "wedgeWatchdogTick gpuMin memMax need t stalls = (stalls, [])"
proof -
  let ?r = "fold ringPush gs (mo_gpu m)"
  have l: "ringSlice ?r = lastn (length (rbuf (mo_gpu m))) (ringSlice (mo_gpu m) @ gs)"
    by (rule ring.run_entries [OF assms(2)])
  let ?k = "min (length (rbuf (mo_gpu m))) (length gs)"
  have d: "lastn (length (rbuf (mo_gpu m))) (ringSlice (mo_gpu m) @ gs) =
      take (length (ringSlice ?r) - ?k) (ringSlice ?r) @ lastn ?k gs"
    unfolding l [symmetric] using l by (auto simp: lastn_def min_def)
  have "2 \<le> length (lastn ?k gs)" using assms(3,4) by simp
  also have "\<dots> \<le> length (concat (lastn ?k gs))"
    using assms(5) set_lastn [of ?k gs] by (intro concat_nonempty) blast
  also have "\<dots> \<le> length (concat (ringSlice ?r))" using d l by (metis concat_append le_add2 length_append)
  finally have "\<not> oneGpu t"
    using assms(6) snapshots_pushed [OF assms(1), of gs] by (simp add: oneGpu_def currentStats_def)
  then show ?thesis by (rule tick_skipped)
qed

text \<open>
  The watchdog is only started with measured memory activity: where that is missing, the check of
  the backend's output, which needs none, never runs either.
\<close>

theorem output_check_needs_telemetry:
  "startWedgeWatchdog enabled (Some m) = WatchActive \<Longrightarrow> gs_activityKnown (hd (snd (currentStats m)))"
  by (auto simp: startWedgeWatchdog_def Let_def split: if_splits)

text \<open>
  A host whose container has nothing left admits a hybrid load that would be refused with one
  megabyte available.
\<close>

theorem nothing_available_is_admitted:
  assumes "pl_confident p" and "1 < es_hostMB (pl_estimate p)" and "ss_source st \<noteq> []"
  shows "\<not> placementAdmissionRefusal (Some p) (st\<lparr>ss_effAvailable := 0\<rparr>) \<and>
         placementAdmissionRefusal (Some p) (st\<lparr>ss_effAvailable := 1\<rparr>)"
  using assms by (simp add: placementAdmissionRefusal_def EffectiveMemAvailableMB_def)

section \<open>Concrete runs\<close>

definition demoConf :: guard_conf where
  "demoConf = \<lparr>mg_enabled = None, mg_minPct = 10, mg_samples = 2, mg_interval = 5, mg_cooldown = 60\<rparr>"

definition demoSample :: "int \<Rightarrow> guard_sample" where
  "demoSample t = \<lparr>sa_pressured = True, sa_critical = False, sa_unloadable = 1, sa_now = t\<rparr>"

theorem guard_fires_on_sustained_pressure_witness:
  "2 \<le> pressuredTail [demoSample 5, demoSample 10]"
proof -
  have one: "observe demoConf (demoSample 5) freshGuard = (\<lparr>gd_consecutive = 1, gd_last = None\<rparr>, False)"
    by (simp add: observe_def demoConf_def demoSample_def freshGuard_def)
  have two: "observe demoConf (demoSample 10) \<lparr>gd_consecutive = 1, gd_last = None\<rparr> = (\<lparr>gd_consecutive = 0, gd_last = Some 10\<rparr>, True)"
    by (simp add: observe_def demoConf_def demoSample_def)
  have g: "guarded demoConf ([] @ [demoSample 5]) [] \<lparr>gd_consecutive = 1, gd_last = None\<rparr>"
    using guarded_quiet [OF guarded_start one] .
  have c: "0 \<le> cooldownNs demoConf" by (simp add: cooldownNs_def demoConf_def i64_small)
  from guard_fires_on_sustained_pressure [OF g two c] show ?thesis by (simp add: demoConf_def demoSample_def)
qed

theorem guard_answers_lasting_pressure_witness:
  "0 < snd (observeAll demoConf [demoSample 5, demoSample 10] freshGuard)"
  by (rule guard_answers_lasting_pressure) (auto simp: freshGuard_def demoConf_def demoSample_def)

definition demoGpu :: gpu_stat where
  "demoGpu = \<lparr>gs_time = 1, gs_id = 0, gs_util = 99, gs_activity = 3, gs_activityKnown = True, gs_used = 8000, gs_total = 8192\<rparr>"

definition demoWatched :: "gpu_stat list list \<Rightarrow> watch_tick" where
  "demoWatched gs = \<lparr>wt_monitor = foldl (\<lambda>m e. monStep e m) (startMonitor (Some demoSys) (newMonitor False 5000000000)) (map GpuSnapshot gs),
     wt_procs = [(''m'', StateReady)], wt_llama = (\<lambda>_. True), wt_history = (\<lambda>_. None), wt_heavy = (\<lambda>_. False)\<rparr>"

lemma demoWatched_started:
  "mo_running (startMonitor (Some demoSys) (newMonitor False 5000000000))"
  "mo_gpu (startMonitor (Some demoSys) (newMonitor False 5000000000)) = newBuffer [] 720"
  by (simp_all add: startMonitor_def newMonitor_def pushSysLocked_def ringCapacity_def hourNs_def minEvery_def Let_def)

lemma demoWatched_series: "snd (currentStats (wt_monitor (demoWatched [[demoGpu]]))) = [demoGpu]"
  using snapshots_pushed [OF demoWatched_started(1), of "[[demoGpu]]"] ring.run_entries [OF ring_inv_new, of "[[demoGpu]]" "[]" 720]
  by (simp add: demoWatched_def currentStats_def demoWatched_started newBuffer_def ringSlice_def [of "\<lparr>rbuf = _, rhead = _, rsize = 0\<rparr>"])

theorem restart_needs_stalls_witness:
  "1 \<le> stallTail 95 20 ''m'' [demoWatched [[demoGpu]]]"
proof -
  let ?t = "demoWatched [[demoGpu]]"
  have p: "\<And>u. u \<in> set ([] @ [?t]) \<Longrightarrow> properTick u" by (simp add: properTick_def demoWatched_def)
  have w: "\<not> fatalNow ?t ''m''" "watched ?t ''m''" "\<not> wt_heavy ?t ''m''"
    by (simp_all add: fatalNow_def watched_def demoWatched_def)
  have o: "oneGpu ?t" by (simp add: oneGpu_def demoWatched_series)
  have "gpuStalled demoGpu 95 20" by (simp add: gpuStalled_def demoGpu_def)
  then have s: "stalledFor 95 20 ''m'' ?t" using w by (simp add: stalledFor_def demoWatched_series)
  have "''m'' \<in> set (snd (wedgeWatchdogTick 95 20 1 ?t (watchRun 95 20 1 [])))"
    using w s p by (subst tick_model(2) [OF _ o]) (simp_all add: watchRun_def)
  from restart_needs_stalls [OF p this] show ?thesis using w by simp
qed

theorem watchdog_inert_after_two_samples_witness:
  "wedgeWatchdogTick 95 20 1 (demoWatched [[demoGpu], [demoGpu]]) (watchRun 95 20 1 []) = (watchRun 95 20 1 [], [])"
  by (rule watchdog_inert_after_two_samples
        [OF demoWatched_started(1), where gs = "[[demoGpu], [demoGpu]]"])
    (simp_all only: demoWatched_started ring_inv_new, auto simp: newBuffer_def demoWatched_def)

end
