(* ===== verification/Macros.thy ===== *)
theory Macros
  imports Tuning
begin

text \<open>
  Macros of the configuration (\<open>internal/config/config.go\<close>): their validation, the substitution of one
  macro in a text and in a nested value, the search for references that are left, and the environment
  macros. The regular expressions are unfolded: a reference is \<open>${\<close>, a non-empty name, \<open>}\<close>; since neither
  the name nor the closing brace can be a \<open>$\<close>, no two matches overlap and a scan of every position finds
  the matches that \<open>FindAllStringSubmatch\<close> returns.

  \<open>yval\<close> is a decoded YAML value: \<open>VMap\<close> is Go's \<open>map[string]any\<close> in one iteration order, \<open>VOther\<close> any
  type the code only passes through (a timestamp, a map with keys that are not strings), given by its
  \<open>%v\<close> text. Floats are finite.
\<close>

datatype yval =
    VNull | VStr string | VInt int | VFloat rat | VBool bool
  | VList "yval list" | VMap "(string \<times> yval) list" | VOther string

text \<open>\<open>fmt.Sprintf("%v", v)\<close>; maps are printed in the order of their keys.\<close>

fun sprintV :: "yval \<Rightarrow> string" where
  "sprintV VNull = ''<nil>''"
| "sprintV (VStr s) = s"
| "sprintV (VInt n) = itoa n"
| "sprintV (VFloat x) = ftoa x"
| "sprintV (VBool b) = (if b then ''true'' else ''false'')"
| "sprintV (VList vs) = ''['' @ joinStr '' '' (map sprintV vs) @ '']''"
| "sprintV (VMap m) =
     ''map['' @ joinStr '' '' (map snd (sort_key fst (map (\<lambda>(k, v). (k, k @ '':'' @ sprintV v)) m))) @ '']''"
| "sprintV (VOther s) = s"

section \<open>Text\<close>

text \<open>
  \<open>strings.ReplaceAll\<close> for a non-empty \<open>old\<close>: the count is the part of a replaced occurrence still to be
  skipped.
\<close>

fun replaceFrom :: "string \<Rightarrow> string \<Rightarrow> nat \<Rightarrow> string \<Rightarrow> string" where
  "replaceFrom old new k [] = []"
| "replaceFrom old new (Suc k) (c # cs) = replaceFrom old new k cs"
| "replaceFrom old new 0 (c # cs) =
     (if hasPrefix (c # cs) old then new @ replaceFrom old new (length old - 1) cs
      else c # replaceFrom old new 0 cs)"

definition replaceAll :: "string \<Rightarrow> string \<Rightarrow> string \<Rightarrow> string" where
  "replaceAll s old new = replaceFrom old new 0 s"

definition letterCh :: "char \<Rightarrow> bool" where
  "letterCh c = (isLowerCh c \<or> isUpperCh c)"

text \<open>\<open>[a-zA-Z0-9_-]\<close>, and the class of environment names.\<close>

definition macroCh :: "char \<Rightarrow> bool" where
  "macroCh c = (letterCh c \<or> isDigitCh c \<or> c = CHR ''_'' \<or> c = CHR ''-'')"

definition envCh :: "char \<Rightarrow> bool" where
  "envCh c = (letterCh c \<or> isDigitCh c \<or> c = CHR ''_'')"

definition macroSlug :: "string \<Rightarrow> string" where
  "macroSlug name = ''${'' @ name @ ''}''"

definition closedName :: "(char \<Rightarrow> bool) \<Rightarrow> string \<Rightarrow> string option" where
  "closedName ok r =
     (let n = takeWhile ok r in if n \<noteq> [] \<and> hasPrefix (drop (length n) r) ''}'' then Some n else None)"

definition macroAt :: "string \<Rightarrow> string option" where
  "macroAt s = (case cutPrefix s ''${'' of None \<Rightarrow> None | Some r \<Rightarrow> closedName macroCh r)"

definition envAt :: "string \<Rightarrow> string option" where
  "envAt s =
     (case cutPrefix s ''${env.'' of
        None \<Rightarrow> None
      | Some r \<Rightarrow> (case closedName envCh r of
                    None \<Rightarrow> None
                  | Some n \<Rightarrow> if isDigitCh (hd n) then None else Some n))"

text \<open>\<open>macroPatternRegex\<close> and \<open>envMacroRegex\<close> with \<open>FindAllStringSubmatch\<close>: the names, left to right.\<close>

fun refsBy :: "(string \<Rightarrow> string option) \<Rightarrow> string \<Rightarrow> string list" where
  "refsBy mat [] = []"
| "refsBy mat (c # cs) = (case mat (c # cs) of Some n \<Rightarrow> [n] | None \<Rightarrow> []) @ refsBy mat cs"

definition macroRefs :: "string \<Rightarrow> string list" where
  "macroRefs = refsBy macroAt"

definition envRefs :: "string \<Rightarrow> string list" where
  "envRefs = refsBy envAt"

section \<open>Validation\<close>

datatype macro_error =
    MacroNameLong string | MacroNameChars string | MacroSelfRef string | MacroNotScalar string
  | MacroReserved string

definition macroNameOk :: "string \<Rightarrow> bool" where
  "macroNameOk name = (name \<noteq> [] \<and> list_all macroCh name)"

definition scalarError :: "string \<Rightarrow> yval \<Rightarrow> macro_error option" where
  "scalarError name v =
     (case v of
        VStr s \<Rightarrow> if contains s (macroSlug name) then Some (MacroSelfRef name) else None
      | VInt n \<Rightarrow> None
      | VFloat x \<Rightarrow> None
      | VBool b \<Rightarrow> None
      | _ \<Rightarrow> Some (MacroNotScalar name))"

definition validateMacro :: "string \<Rightarrow> yval \<Rightarrow> macro_error option" where
  "validateMacro name v =
     (if 64 \<le> length name then Some (MacroNameLong name)
      else if \<not> macroNameOk name then Some (MacroNameChars name)
      else case scalarError name v of
             Some e \<Rightarrow> Some e
           | None \<Rightarrow> if name = ''PORT'' \<or> name = ''MODEL_ID'' then Some (MacroReserved name) else None)"

text \<open>The first error of a list of macros.\<close>

fun validateMacros :: "(string \<times> yval) list \<Rightarrow> macro_error option" where
  "validateMacros [] = None"
| "validateMacros ((n, v) # ms) = (case validateMacro n v of Some e \<Rightarrow> Some e | None \<Rightarrow> validateMacros ms)"

datatype ref_error = UnknownMacro string | EnvNotSet string

fun firstError :: "('a \<Rightarrow> 'b option) \<Rightarrow> 'a list \<Rightarrow> 'b option" where
  "firstError f [] = None"
| "firstError f (x # xs) = (case f x of Some e \<Rightarrow> Some e | None \<Rightarrow> firstError f xs)"

lemma firstError_cong [fundef_cong]:
  "xs = ys \<Longrightarrow> (\<And>x. x \<in> set ys \<Longrightarrow> f x = g x) \<Longrightarrow> firstError f xs = firstError g ys"
  by (induction ys arbitrary: xs) (auto split: option.splits)

lemma firstError_None [simp]: "firstError f xs = None \<longleftrightarrow> (\<forall>x \<in> set xs. f x = None)"
  by (induction xs) (auto split: option.splits)

definition textError :: "string \<Rightarrow> ref_error option" where
  "textError s =
     (case macroRefs s of
        n # _ \<Rightarrow> Some (UnknownMacro n)
      | [] \<Rightarrow> (case envRefs s of n # _ \<Rightarrow> Some (EnvNotSet n) | [] \<Rightarrow> None))"

fun validateNestedForUnknownMacros :: "yval \<Rightarrow> ref_error option" where
  "validateNestedForUnknownMacros (VStr s) = textError s"
| "validateNestedForUnknownMacros (VMap m) = firstError (\<lambda>(k, v). validateNestedForUnknownMacros v) m"
| "validateNestedForUnknownMacros (VList vs) = firstError validateNestedForUnknownMacros vs"
| "validateNestedForUnknownMacros v = None"

section \<open>Substitution\<close>

text \<open>\<open>substituteMacroInValue\<close>; its error result is always \<open>nil\<close>.\<close>

fun substituteMacroInValue :: "string \<Rightarrow> yval \<Rightarrow> yval \<Rightarrow> yval" where
  "substituteMacroInValue name val (VStr s) =
     (if s = macroSlug name then val
      else if contains s (macroSlug name) then VStr (replaceAll s (macroSlug name) (sprintV val))
      else VStr s)"
| "substituteMacroInValue name val (VMap m) = VMap (map (\<lambda>(k, v). (k, substituteMacroInValue name val v)) m)"
| "substituteMacroInValue name val (VList vs) = VList (map (substituteMacroInValue name val) vs)"
| "substituteMacroInValue name val v = v"

text \<open>The merged list: a model macro takes the place of the first one of its name, else it is appended.\<close>

fun overrideMacro :: "string \<times> yval \<Rightarrow> (string \<times> yval) list \<Rightarrow> (string \<times> yval) list" where
  "overrideMacro e [] = [e]"
| "overrideMacro e (x # xs) = (if fst x = fst e then e # xs else x # overrideMacro e xs)"

definition mergedMacros :: "string \<Rightarrow> (string \<times> yval) list \<Rightarrow> (string \<times> yval) list \<Rightarrow> (string \<times> yval) list" where
  "mergedMacros modelId globals own =
     foldl (\<lambda>ms e. overrideMacro e ms) ((''MODEL_ID'', VStr modelId) # globals) own"

definition substText :: "string \<times> yval \<Rightarrow> string \<Rightarrow> string" where
  "substText e s = replaceAll s (macroSlug (fst e)) (sprintV (snd e))"

text \<open>The loop over the merged list, last entry first, on one text.\<close>

definition substAll :: "(string \<times> yval) list \<Rightarrow> string \<Rightarrow> string" where
  "substAll ms s = foldr substText ms s"

subsection \<open>Environment macros\<close>

datatype env_error = EnvMissing string | EnvUnsafe string

definition sanitizeEnvValueForYAML :: "string \<Rightarrow> string \<Rightarrow> env_error + string" where
  "sanitizeEnvValueForYAML val name =
     (if containsCh val newline \<or> containsCh val (CHR 13) \<or> containsCh val (CHR 0x00) then Inl (EnvUnsafe name)
      else Inr (replaceAll (replaceAll val [CHR 92] [CHR 92, CHR 92]) [CHR 34] [CHR 92, CHR 34]))"

fun substituteEnvNames :: "(string \<Rightarrow> string option) \<Rightarrow> string list \<Rightarrow> string \<Rightarrow> env_error + string" where
  "substituteEnvNames getenv [] s = Inr s"
| "substituteEnvNames getenv (n # ns) s =
     (case getenv n of
        None \<Rightarrow> Inl (EnvMissing n)
      | Some val \<Rightarrow>
          (case sanitizeEnvValueForYAML val n of
             Inl e \<Rightarrow> Inl e
           | Inr v \<Rightarrow> substituteEnvNames getenv ns (replaceAll s (''${env.'' @ n @ ''}'') v)))"

definition substituteEnvMacrosInString :: "(string \<Rightarrow> string option) \<Rightarrow> string \<Rightarrow> string \<Rightarrow> env_error + string" where
  "substituteEnvMacrosInString getenv target scan = substituteEnvNames getenv (envRefs scan) target"

text \<open>\<open>clean\<close> is the document decoded and encoded again, \<open>None\<close> when either fails.\<close>

definition substituteEnvMacros :: "(string \<Rightarrow> string option) \<Rightarrow> (string \<Rightarrow> string option) \<Rightarrow> string \<Rightarrow> env_error + string" where
  "substituteEnvMacros clean getenv s =
     substituteEnvMacrosInString getenv s (case clean s of None \<Rightarrow> s | Some t \<Rightarrow> t)"

section \<open>Substitution as expansion\<close>

text \<open>
  A template is a sequence of literal texts without \<open>$\<close> and of references; its text is what a configuration
  holds. \<open>macroMeaning\<close> is the reference semantics of a list of macros, the last defined first: a reference means
  the value of the first macro of that name, and the references of that value mean the macros behind it.
\<close>

datatype seg = Lit string | Ref string

definition segText :: "seg \<Rightarrow> string" where
  "segText g = (case g of Lit l \<Rightarrow> l | Ref n \<Rightarrow> macroSlug n)"

definition render :: "seg list \<Rightarrow> string" where
  "render gs = concat (map segText gs)"

definition segOk :: "seg \<Rightarrow> bool" where
  "segOk g = (case g of Lit l \<Rightarrow> CHR ''$'' \<notin> set l | Ref n \<Rightarrow> macroNameOk n)"

fun macroMeaning :: "(string \<times> seg list) list \<Rightarrow> string \<Rightarrow> string" where
  "macroMeaning [] n = macroSlug n"
| "macroMeaning ((m, v) # older) n =
     (if m = n then concat (map (\<lambda>g. case g of Lit l \<Rightarrow> l | Ref k \<Rightarrow> macroMeaning older k) v)
      else macroMeaning older n)"

definition meaning :: "(string \<times> seg list) list \<Rightarrow> seg \<Rightarrow> string" where
  "meaning ms g = (case g of Lit l \<Rightarrow> l | Ref k \<Rightarrow> macroMeaning ms k)"

definition segNames :: "seg list \<Rightarrow> string set" where
  "segNames gs = {n. Ref n \<in> set gs}"

text \<open>Every macro refers only to macros defined before it.\<close>

fun backward :: "(string \<times> seg list) list \<Rightarrow> bool" where
  "backward [] = True"
| "backward ((m, v) # older) = (segNames v \<subseteq> fst ` set older \<and> backward older)"

lemma render_Cons [simp]: "render (g # gs) = segText g @ render gs"
  by (simp add: render_def)

lemma render_Nil [simp]: "render [] = []"
  by (simp add: render_def)

lemma render_append [simp]: "render (gs @ hs) = render gs @ render hs"
  by (simp add: render_def)

lemma macroMeaning_eq [simp]:
  "macroMeaning ((m, v) # older) n = (if m = n then concat (map (meaning older) v) else macroMeaning older n)"
  by (simp add: meaning_def [abs_def])

declare macroMeaning.simps(2) [simp del]

lemma replaceFrom_plain:
  "old \<noteq> [] \<Longrightarrow> hd old \<notin> set l \<Longrightarrow> replaceFrom old new 0 (l @ s) = l @ replaceFrom old new 0 s"
proof (induction l)
  case (Cons c l)
  then have "\<not> hasPrefix ((c # l) @ s) old" by (cases old) (auto simp: hasPrefix_iff)
  then show ?case using Cons by simp
qed simp

lemma replaceFrom_skip: "replaceFrom old new (length p) (p @ s) = replaceFrom old new 0 s"
  by (induction p) simp_all

lemma replaceFrom_hit:
  "old \<noteq> [] \<Longrightarrow> replaceFrom old new 0 (old @ s) = new @ replaceFrom old new 0 s"
proof (cases old)
  case (Cons c p)
  then have "hasPrefix (c # p @ s) old" by (auto simp: hasPrefix_iff)
  then show ?thesis using Cons replaceFrom_skip [of old new p s] by simp
qed simp

lemma macroCh_plain: "macroCh c \<Longrightarrow> c \<noteq> CHR ''$'' \<and> c \<noteq> CHR ''}'' \<and> c \<noteq> CHR ''{''"
  by (auto simp: macroCh_def letterCh_def isLowerCh_def isUpperCh_def isDigitCh_def less_eq_char_def)

lemma name_plain: "macroNameOk n \<Longrightarrow> CHR ''$'' \<notin> set n \<and> CHR ''}'' \<notin> set n"
  by (auto simp: macroNameOk_def list_all_iff dest: macroCh_plain)

lemma closing_unique:
  "CHR ''}'' \<notin> set n \<Longrightarrow> CHR ''}'' \<notin> set m \<Longrightarrow> n @ ''}'' @ r = m @ ''}'' @ q \<Longrightarrow> n = m"
  by (induction n arbitrary: m) (case_tac m; auto)+

lemma slug_prefix:
  assumes "macroNameOk n" and "macroNameOk m"
  shows "hasPrefix (macroSlug n @ s) (macroSlug m) \<longleftrightarrow> n = m"
  using assms closing_unique [of n m s] name_plain by (fastforce simp: hasPrefix_iff macroSlug_def)

lemma replaceFrom_other:
  assumes "macroNameOk n" and "macroNameOk m" and "n \<noteq> m"
  shows "replaceFrom (macroSlug m) new 0 (macroSlug n @ s) = macroSlug n @ replaceFrom (macroSlug m) new 0 s"
proof -
  have "\<not> hasPrefix (macroSlug n @ s) (macroSlug m)" using assms slug_prefix by blast
  then show ?thesis using name_plain [OF assms(1)] replaceFrom_plain [of "macroSlug m" "''{'' @ n @ ''}''" new s]
    by (simp add: macroSlug_def)
qed

text \<open>Replacing one macro in the text of a template is replacing its references in the template.\<close>

definition expandOne :: "string \<Rightarrow> seg list \<Rightarrow> seg list \<Rightarrow> seg list" where
  "expandOne m v gs = concat (map (\<lambda>g. if g = Ref m then v else [g]) gs)"

lemma replaceAll_render:
  assumes "macroNameOk m"
  shows "list_all segOk gs \<Longrightarrow> replaceAll (render gs) (macroSlug m) (render v) = render (expandOne m v gs)"
proof (induction gs)
  case (Cons g gs)
  have ne: "macroSlug m \<noteq> []" and hd: "hd (macroSlug m) = CHR ''$''" by (simp_all add: macroSlug_def)
  show ?case
  proof (cases g)
    case (Lit l)
    then show ?thesis using Cons replaceFrom_plain [OF ne, of l] hd
      by (simp add: replaceAll_def segText_def segOk_def expandOne_def)
  next
    case (Ref n)
    then show ?thesis using Cons replaceFrom_hit [OF ne] replaceFrom_other [OF _ assms, of n]
      by (cases "n = m") (simp_all add: replaceAll_def segText_def segOk_def expandOne_def)
  qed
qed (simp add: replaceAll_def expandOne_def)

lemma expandOne_ok: "list_all segOk gs \<Longrightarrow> list_all segOk v \<Longrightarrow> list_all segOk (expandOne m v gs)"
  by (auto simp: expandOne_def list_all_iff)

lemma meaning_expandOne: "concat (map (meaning older) (expandOne m v gs)) = concat (map (meaning ((m, v) # older)) gs)"
  by (induction gs) (auto simp: expandOne_def meaning_def [abs_def] split: seg.splits)

text \<open>The entries of a merged list and their values as templates.\<close>

definition templated :: "(string \<times> yval) list \<Rightarrow> (string \<times> seg list) list \<Rightarrow> bool" where
  "templated ms ts =
     list_all2 (\<lambda>e t. fst t = fst e \<and> macroNameOk (fst e) \<and> list_all segOk (snd t) \<and> sprintV (snd e) = render (snd t)) ms ts"

lemma templated_snoc:
  "templated (ms @ [e]) ts \<Longrightarrow>
   \<exists>us t. ts = us @ [t] \<and> templated ms us \<and> fst t = fst e \<and> macroNameOk (fst e) \<and> list_all segOk (snd t)
     \<and> sprintV (snd e) = render (snd t)"
  by (auto simp: templated_def list_all2_append1 list_all2_Cons1)

lemma templated_ok: "templated ms ts \<Longrightarrow> list_all (list_all segOk) (map snd ts)"
  unfolding templated_def by (induction rule: list_all2_induct) simp_all

lemma substAll_meaning:
  "templated ms ts \<Longrightarrow> list_all segOk gs \<Longrightarrow> substAll ms (render gs) = concat (map (meaning (rev ts)) gs)"
proof (induction ms arbitrary: ts gs rule: rev_induct)
  case Nil
  have "map (meaning []) gs = map segText gs"
    by (rule map_cong) (auto simp: meaning_def segText_def split: seg.splits)
  then have "concat (map (meaning []) gs) = concat (map segText gs)" by (rule arg_cong)
  with Nil show ?case by (simp add: templated_def substAll_def render_def)
next
  case (snoc e ms)
  obtain us t where t: "ts = us @ [t]" "templated ms us" "fst t = fst e" "macroNameOk (fst e)"
      "list_all segOk (snd t)" "sprintV (snd e) = render (snd t)"
    using templated_snoc [OF snoc.prems(1)] by blast
  have "substAll (ms @ [e]) (render gs) = substAll ms (render (expandOne (fst e) (snd t) gs))"
    using replaceAll_render [OF t(4) snoc.prems(2)] t(6) by (simp add: substAll_def substText_def)
  also have "\<dots> = concat (map (meaning (rev us)) (expandOne (fst e) (snd t) gs))"
    using snoc.IH [OF t(2)] expandOne_ok [OF snoc.prems(2) t(5)] by blast
  also have "\<dots> = concat (map (meaning ((fst e, snd t) # rev us)) gs)"
    by (rule meaning_expandOne)
  also have "(fst e, snd t) # rev us = rev ts" using t(1,3) by (cases t) simp
  finally show ?case .
qed

lemma macroMeaning_literal:
  "backward ms \<Longrightarrow> list_all (list_all segOk) (map snd ms) \<Longrightarrow> n \<in> fst ` set ms \<Longrightarrow> CHR ''$'' \<notin> set (macroMeaning ms n)"
proof (induction ms arbitrary: n)
  case (Cons e ms)
  obtain m v where e: "e = (m, v)" by (cases e)
  have lit: "CHR ''$'' \<notin> set (meaning ms g)" if "g \<in> set v" for g
  proof (cases g)
    case (Lit l)
    then show ?thesis using that Cons.prems(2) by (auto simp: meaning_def e list_all_iff segOk_def)
  next
    case (Ref k)
    then have "k \<in> fst ` set ms" using that Cons.prems(1) by (auto simp: e segNames_def)
    then show ?thesis using Cons Ref by (simp add: meaning_def e)
  qed
  show ?case using Cons lit by (auto simp: e)
qed simp

lemma refsBy_none: "(\<And>t. f t \<noteq> None \<Longrightarrow> hasPrefix t ''$'') \<Longrightarrow> CHR ''$'' \<notin> set s \<Longrightarrow> refsBy f s = []"
proof (induction s)
  case (Cons c s)
  have "\<not> hasPrefix (c # s) ''$''" using Cons.prems(2) by (auto simp: hasPrefix_iff)
  then have "f (c # s) = None" using Cons.prems(1) [of "c # s"] by blast
  then show ?case using Cons by simp
qed simp

lemma macroAt_dollar: "macroAt t \<noteq> None \<Longrightarrow> hasPrefix t ''$''"
  by (auto simp: macroAt_def cutPrefix_Some_iff hasPrefix_iff split: option.splits)

text \<open>
  C9. The loader's textual loop, which replaces the macros of the merged list from the last to the first, gives
  the text of a template its meaning: every reference is replaced by the value of the last macro of its
  name, whose own references are resolved by the macros before it. When macros refer only to earlier ones
  and the template only to defined ones, no reference is left.
\<close>

theorem macro_substitution_is_expansion:
  assumes "templated ms ts" and "list_all segOk gs"
  shows "substAll ms (render gs) = concat (map (meaning (rev ts)) gs)
    \<and> (backward (rev ts) \<and> segNames gs \<subseteq> fst ` set ts \<longrightarrow> macroRefs (substAll ms (render gs)) = [])"
proof (intro conjI impI)
  show eq: "substAll ms (render gs) = concat (map (meaning (rev ts)) gs)"
    using assms by (rule substAll_meaning)
  assume bw: "backward (rev ts) \<and> segNames gs \<subseteq> fst ` set ts"
  have ok: "list_all (list_all segOk) (map snd (rev ts))"
    using templated_ok [OF assms(1)] by (simp add: list_all_iff)
  have "CHR ''$'' \<notin> set (meaning (rev ts) g)" if g: "g \<in> set gs" for g
  proof (cases g)
    case (Lit l)
    then show ?thesis using g assms(2) by (auto simp: meaning_def segOk_def list_all_iff)
  next
    case (Ref k)
    then have "k \<in> fst ` set (rev ts)" using g bw by (auto simp: segNames_def)
    then show ?thesis using Ref macroMeaning_literal [OF conjunct1 [OF bw] ok] by (simp add: meaning_def)
  qed
  then have "CHR ''$'' \<notin> set (substAll ms (render gs))" by (auto simp: eq)
  then show "macroRefs (substAll ms (render gs)) = []"
    unfolding macroRefs_def using refsBy_none macroAt_dollar by blast
qed

theorem macro_substitution_is_expansion_witness:
  "substAll [(''MODEL_ID'', VStr ''m''), (''dir'', VStr ''/srv/${MODEL_ID}''), (''n'', VInt 8)]
     (render [Lit ''run '', Ref ''dir'', Lit ''/'', Ref ''n'', Ref ''x'']) = ''run /srv/m/8${x}''
   \<and> macroRefs (substAll [(''MODEL_ID'', VStr ''m''), (''dir'', VStr ''/srv/${MODEL_ID}''), (''n'', VInt 8)]
       (render [Lit ''run '', Ref ''dir'', Ref ''n''])) = []"
proof -
  let ?ms = "[(''MODEL_ID'', VStr ''m''), (''dir'', VStr ''/srv/${MODEL_ID}''), (''n'', VInt 8)]"
  let ?ts = "[(''MODEL_ID'', [Lit ''m'']), (''dir'', [Lit ''/srv/'', Ref ''MODEL_ID'']), (''n'', [Lit ''8''])]"
  have t: "templated ?ms ?ts" by code_simp
  have a: "list_all segOk [Lit ''run '', Ref ''dir'', Lit ''/'', Ref ''n'', Ref ''x'']" by code_simp
  have b: "list_all segOk [Lit ''run '', Ref ''dir'', Ref ''n'']" by code_simp
  have "concat (map (meaning (rev ?ts)) [Lit ''run '', Ref ''dir'', Lit ''/'', Ref ''n'', Ref ''x''])
      = ''run /srv/m/8${x}''"
    by code_simp
  with conjunct1 [OF macro_substitution_is_expansion [OF t a]]
  have one: "substAll ?ms (render [Lit ''run '', Ref ''dir'', Lit ''/'', Ref ''n'', Ref ''x'']) = ''run /srv/m/8${x}''"
    by (rule trans)
  have "backward (rev ?ts)" by (simp add: segNames_def)
  moreover have "segNames [Lit ''run '', Ref ''dir'', Ref ''n''] \<subseteq> fst ` set ?ts" by (auto simp: segNames_def)
  ultimately show ?thesis
    using one conjunct2 [OF macro_substitution_is_expansion [OF t b]] by blast
qed

section \<open>Environment values\<close>

text \<open>How a double-quoted YAML scalar reads its content: a backslash escapes one character, a quote ends it.\<close>

fun quotedContent :: "string \<Rightarrow> string option" where
  "quotedContent [] = Some []"
| "quotedContent (c # cs) =
     (if c = CHR 34 then None
      else if c = CHR 92
      then (case cs of
              [] \<Rightarrow> None
            | d # ds \<Rightarrow> if d = CHR 92 \<or> d = CHR 34 then map_option ((#) d) (quotedContent ds) else None)
      else map_option ((#) c) (quotedContent cs))"

lemma replaceAll_char: "replaceAll s [c] new = concat (map (\<lambda>x. if x = c then new else [x]) s)"
  by (induction s) (auto simp: replaceAll_def hasPrefix_iff)

lemma sanitized_quoted:
  "quotedContent (concat (map (\<lambda>x. if x = CHR 34 then [CHR 92, CHR 34] else [x])
      (concat (map (\<lambda>x. if x = CHR 92 then [CHR 92, CHR 92] else [x]) v)))) = Some v"
  by (induction v) simp_all

text \<open>
  A sanitised environment value, put between double quotes, reads back as the value, stays on one line and
  cannot close the quotes; a value with a line break or a NUL is refused.
\<close>

theorem env_value_roundtrip:
  "sanitizeEnvValueForYAML val name =
     (if newline \<in> set val \<or> CHR 13 \<in> set val \<or> CHR 0x00 \<in> set val then Inl (EnvUnsafe name)
      else Inr (projr (sanitizeEnvValueForYAML val name)))
   \<and> (case sanitizeEnvValueForYAML val name of Inl e \<Rightarrow> True | Inr v \<Rightarrow> quotedContent v = Some val)"
  by (simp add: sanitizeEnvValueForYAML_def containsCh_def replaceAll_char sanitized_quoted)

end
