(* ===== verification/Config_Load.thy ===== *)
theory Config_Load
  imports Macros Mem_Guard Config_Edit Matrix_Config
begin

text \<open>
  Loading the configuration (\<open>LoadConfigFromReader\<close> and its helpers in \<open>internal/config/config.go\<close>, and
  \<open>stripMLXUnsupportedFlags\<close> of \<open>model_config.go\<close>): environment macros, defaults and checks of the settings,
  the alias map, the pass over the models in the order of their names (inheritance, macro substitution,
  port assignment, left-over references, aliases of \<open>setParamsByID\<close>, the loop-back proxy), groups or
  matrix, preload hooks, API keys and peers.

  Go's maps are association lists whose order is one iteration order; the order decides only which of
  several errors is reported, and the theorems hold for every order. The YAML library and \<open>net/url\<close> are
  the fields of \<open>load_env\<close>; settings the loader only copies are not in the records.
\<close>

section \<open>Data\<close>

record load_model =
  lm_cmd :: string
  lm_cmdStop :: string
  lm_proxy :: string
  lm_aliases :: "string list"
  lm_checkEndpoint :: string
  lm_unloadAfter :: int
  lm_backend :: string
  lm_name :: string
  lm_description :: string
  lm_stripParams :: string
  lm_setParamsByID :: "(string \<times> (string \<times> yval) list) list"
  lm_macros :: "(string \<times> yval) list"
  lm_metadata :: "(string \<times> yval) list"
  lm_sendLoading :: "bool option"
  lm_healthTimeout :: int
  lm_maxRequest :: int

record peer_config =
  pr_proxy :: string
  pr_apiKey :: string
  pr_models :: "string list"
  pr_stripParams :: string
  pr_setParams :: "(string \<times> yval) list"

record load_config =
  cf_healthTimeout :: int
  cf_logToStdout :: string
  cf_perfEvery :: int
  cf_guard :: guard_conf
  cf_globalTTL :: int
  cf_maxRequest :: int
  cf_models :: "(string \<times> load_model) list"
  cf_groups :: "(string \<times> group_config) list"
  cf_matrix :: "matrix_config option"
  cf_expanded :: "expanded_set list"
  cf_macros :: "(string \<times> yval) list"
  cf_aliases :: "(string \<times> string) list"
  cf_startPort :: int
  cf_preload :: "string list"
  cf_sendLoading :: bool
  cf_apiKeys :: "string list"
  cf_peers :: "(string \<times> peer_config) list"
  cf_placement :: placement_config
  cf_defaultModel :: string

text \<open>A parsed URL: its host with the port, and the parts the code leaves alone.\<close>

record go_url =
  gu_host :: string
  gu_others :: string

record load_env =
  le_clean :: "string \<Rightarrow> string option"
  le_getenv :: "string \<Rightarrow> string option"
  le_decode :: "load_config \<Rightarrow> string \<Rightarrow> load_config option"
  le_parseURL :: "string \<Rightarrow> go_url option"
  le_urlText :: "go_url \<Rightarrow> string"

datatype load_error =
    EnvError env_error | YamlError | PerfTooOften | GuardError guard_error | PlacementError config_error
  | BadStartPort | BadGlobalTTL | BadLogTarget | DuplicateAlias string string | UnknownDefault string
  | MacroError macro_error | BadTTL string int | PortNotInCmd string | LeftoverMacro string string string
  | NestedMacro string ref_error | AliasIsModel string string | AliasTaken string string | BadProxy string
  | GroupsAndMatrix | MatrixError matrix_error | DuplicateMember string string | TwoGroups string string string
  | EmptyApiKey | ApiKeyWithSpace string | PeerMacro string ref_error

section \<open>Small helpers\<close>

text \<open>\<open>m[k] = v\<close> on a map.\<close>

fun putKey :: "'k \<Rightarrow> 'v \<Rightarrow> ('k \<times> 'v) list \<Rightarrow> ('k \<times> 'v) list" where
  "putKey k v [] = [(k, v)]"
| "putKey k v ((k', v') # xs) = (if k' = k then (k, v) # xs else (k', v') # putKey k v xs)"

definition realModelName :: "load_config \<Rightarrow> string \<Rightarrow> string option" where
  "realModelName cfg s =
     (if map_of (cf_models cfg) s \<noteq> None then Some s else map_of (cf_aliases cfg) s)"

text \<open>\<open>url.URL.Hostname\<close> and \<open>Port\<close>: a colon followed by digits only starts the port.\<close>

definition portSplit :: "string \<Rightarrow> string \<times> string" where
  "portSplit h =
     (case lastIndex h '':'' of
        Some i \<Rightarrow> if list_all isDigitCh (drop (Suc i) h) then (take i h, drop (Suc i) h) else (h, [])
      | None \<Rightarrow> (h, []))"

definition hostnameOf :: "go_url \<Rightarrow> string" where
  "hostnameOf u =
     (let h = fst (portSplit (gu_host u)) in
      if hasPrefix h ''['' \<and> hasSuffix h '']'' then take (length h - 2) (drop 1 h) else h)"

definition portOf :: "go_url \<Rightarrow> string" where
  "portOf u = snd (portSplit (gu_host u))"

definition normalizeLoopbackProxy :: "load_env \<Rightarrow> string \<Rightarrow> string option" where
  "normalizeLoopbackProxy env proxy =
     (case le_parseURL env proxy of
        None \<Rightarrow> None
      | Some u \<Rightarrow>
          if toLower (hostnameOf u) \<noteq> ''localhost'' then None
          else Some (le_urlText env
            (u\<lparr>gu_host := (if portOf u \<noteq> [] then ''127.0.0.1:'' @ portOf u else ''127.0.0.1'')\<rparr>)))"

text \<open>The loop of \<open>stripMLXUnsupportedFlags\<close>: the tokens kept and the flags removed.\<close>

fun stripTokens :: "string list \<Rightarrow> string list \<times> string list" where
  "stripTokens [] = ([], [])"
| "stripTokens [w] = (if w \<in> set mlxUnsupportedFlags then ([], [w]) else ([w], []))"
| "stripTokens (w # v # ws) =
     (if w \<in> set mlxUnsupportedFlags then (case stripTokens ws of (out, gone) \<Rightarrow> (out, w # gone))
      else case stripTokens (v # ws) of (out, gone) \<Rightarrow> (w # out, gone))"

definition stripMLXUnsupportedFlags :: "string \<Rightarrow> string \<times> string list" where
  "stripMLXUnsupportedFlags cmd =
     (case stripTokens (goFields cmd) of
        (out, []) \<Rightarrow> (cmd, [])
      | (out, gone) \<Rightarrow> (joinStr '' '' out, gone))"

section \<open>Settings\<close>

text \<open>What the decoder starts from; a section the code does not preset has Go's zero value.\<close>

definition initialConfig :: load_config where
  "initialConfig =
     \<lparr>cf_healthTimeout = 120, cf_logToStdout = ''proxy'', cf_perfEvery = 0,
      cf_guard = \<lparr>mg_enabled = None, mg_minPct = 0, mg_samples = 0, mg_interval = 0, mg_cooldown = 0\<rparr>,
      cf_globalTTL = 0, cf_maxRequest = 0, cf_models = [], cf_groups = [], cf_matrix = None, cf_expanded = [],
      cf_macros = [], cf_aliases = [], cf_startPort = 5800, cf_preload = [], cf_sendLoading = False,
      cf_apiKeys = [], cf_peers = [],
      cf_placement = \<lparr>plc_mode = [], plc_hostReserveGiB = 0, plc_gpuReserveGiB = 0, plc_minimumContext = 0,
        plc_allowKvQuantization = False, plc_maxRetries = 0\<rparr>,
      cf_defaultModel = []\<rparr>"

definition fiveSecs :: int where
  "fiveSecs = 5000000000"

definition checkSettings :: "load_config \<Rightarrow> load_error + load_config" where
  "checkSettings c0 =
     (let c1 = (if cf_healthTimeout c0 < 15 then c0\<lparr>cf_healthTimeout := 15\<rparr> else c0);
          c2 = (if cf_perfEvery c1 = 0 then c1\<lparr>cf_perfEvery := fiveSecs\<rparr> else c1)
      in if cf_perfEvery c2 < fiveSecs then Inl PerfTooOften
         else case normalizeGuard (cf_guard c2) of
           Inl e \<Rightarrow> Inl (GuardError e)
         | Inr g \<Rightarrow>
             let c3 = c2\<lparr>cf_guard := g\<rparr> in
             case validatePlacement (cf_placement c3) of
               Some e \<Rightarrow> Inl (PlacementError e)
             | None \<Rightarrow>
                 if cf_startPort c3 < 1 then Inl BadStartPort
                 else if cf_globalTTL c3 < 0 then Inl BadGlobalTTL
                 else if cf_logToStdout c3 \<notin> {''proxy'', ''upstream'', ''both'', ''none''} then Inl BadLogTarget
                 else Inr c3)"

text \<open>The alias map, model by model.\<close>

fun addAliases :: "string \<Rightarrow> string list \<Rightarrow> (string \<times> string) list \<Rightarrow> load_error + (string \<times> string) list" where
  "addAliases mid [] al = Inr al"
| "addAliases mid (a # as) al =
     (if map_of al a \<noteq> None then Inl (DuplicateAlias a mid) else addAliases mid as ((a, mid) # al))"

fun collectAliases :: "(string \<times> load_model) list \<Rightarrow> (string \<times> string) list \<Rightarrow> load_error + (string \<times> string) list" where
  "collectAliases [] al = Inr al"
| "collectAliases ((mid, m) # ms) al =
     (case addAliases mid (lm_aliases m) al of Inl e \<Rightarrow> Inl e | Inr al' \<Rightarrow> collectAliases ms al')"

section \<open>One model\<close>

definition inheritSettings :: "load_config \<Rightarrow> load_model \<Rightarrow> load_model" where
  "inheritSettings cfg m0 =
     (let m1 = (if lm_healthTimeout m0 = 0 then m0\<lparr>lm_healthTimeout := cf_healthTimeout cfg\<rparr> else m0);
          m2 = (if lm_maxRequest m1 = 0 \<and> cf_maxRequest cfg > 0 then m1\<lparr>lm_maxRequest := cf_maxRequest cfg\<rparr> else m1);
          m3 = m2\<lparr>lm_cmd := stripComments (lm_cmd m2), lm_cmdStop := stripComments (lm_cmdStop m2)\<rparr>;
          m4 = (if isLlamaCPP (lm_backend m3) then m3 else m3\<lparr>lm_cmd := fst (stripMLXUnsupportedFlags (lm_cmd m3))\<rparr>)
      in if lm_unloadAfter m4 = - 1 then m4\<lparr>lm_unloadAfter := cf_globalTTL cfg\<rparr> else m4)"

definition substPairs :: "string \<times> yval \<Rightarrow> (string \<times> yval) list \<Rightarrow> (string \<times> yval) list" where
  "substPairs e m = map (\<lambda>(k, v). (k, substituteMacroInValue (fst e) (snd e) v)) m"

definition substByID ::
  "string \<times> yval \<Rightarrow> (string \<times> (string \<times> yval) list) list \<Rightarrow> (string \<times> (string \<times> yval) list) list" where
  "substByID e m = foldl (\<lambda>out (k, ps). putKey (substText e k) (substPairs e ps) out) [] m"

text \<open>One macro of the merged list, in all fields it reaches.\<close>

definition substEntry :: "string \<times> yval \<Rightarrow> load_model \<Rightarrow> load_model" where
  "substEntry e m =
     m\<lparr>lm_cmd := substText e (lm_cmd m), lm_cmdStop := substText e (lm_cmdStop m),
       lm_proxy := substText e (lm_proxy m), lm_checkEndpoint := substText e (lm_checkEndpoint m),
       lm_stripParams := substText e (lm_stripParams m), lm_name := substText e (lm_name m),
       lm_description := substText e (lm_description m), lm_setParamsByID := substByID e (lm_setParamsByID m),
       lm_metadata := substPairs e (lm_metadata m)\<rparr>"

definition substModel :: "load_config \<Rightarrow> string \<Rightarrow> load_model \<Rightarrow> load_model" where
  "substModel cfg mid m = foldr substEntry (mergedMacros mid (cf_macros cfg) (lm_macros m)) m"

definition portSlug :: string where
  "portSlug = ''${PORT}''"

definition usesPort :: "load_model \<Rightarrow> bool" where
  "usesPort m = contains (lm_cmd m) portSlug"

definition substPort :: "int \<Rightarrow> load_model \<Rightarrow> load_model" where
  "substPort port m =
     (let e = (''PORT'', VInt port) in
      m\<lparr>lm_cmd := substText e (lm_cmd m), lm_cmdStop := substText e (lm_cmdStop m),
        lm_proxy := substText e (lm_proxy m), lm_name := substText e (lm_name m),
        lm_description := substText e (lm_description m), lm_metadata := substPairs e (lm_metadata m)\<rparr>)"

definition portStep :: "string \<Rightarrow> int \<Rightarrow> load_model \<Rightarrow> load_error + (load_model \<times> int)" where
  "portStep mid port m =
     (if usesPort m \<or> contains (lm_proxy m) portSlug
      then if \<not> usesPort m then Inl (PortNotInCmd mid) else Inr (substPort port m, port + 1)
      else Inr (m, port))"

text \<open>The references left in one field; \<open>${PID}\<close> stays in the stop command.\<close>

definition fieldError :: "string \<Rightarrow> string \<times> string \<Rightarrow> load_error option" where
  "fieldError mid f =
     firstError (\<lambda>n. if n = ''PID'' \<and> fst f = ''cmdStop'' then None else Some (LeftoverMacro mid (fst f) n))
       (macroRefs (snd f))"

definition textFields :: "load_model \<Rightarrow> (string \<times> string) list" where
  "textFields m =
     [(''cmd'', lm_cmd m), (''cmdStop'', lm_cmdStop m), (''proxy'', lm_proxy m),
      (''checkEndpoint'', lm_checkEndpoint m), (''filters.stripParams'', lm_stripParams m),
      (''name'', lm_name m), (''description'', lm_description m)]"

definition paramError :: "string \<Rightarrow> string \<times> (string \<times> yval) list \<Rightarrow> load_error option" where
  "paramError mid kp =
     (case macroRefs (fst kp) of
        n # _ \<Rightarrow> Some (NestedMacro mid (UnknownMacro n))
      | [] \<Rightarrow> map_option (NestedMacro mid) (validateNestedForUnknownMacros (VMap (snd kp))))"

definition leftoverError :: "string \<Rightarrow> load_model \<Rightarrow> load_error option" where
  "leftoverError mid m =
     (case firstError (fieldError mid) (textFields m) of
        Some e \<Rightarrow> Some e
      | None \<Rightarrow>
          (case validateNestedForUnknownMacros (VMap (lm_metadata m)) of
             Some e \<Rightarrow> Some (NestedMacro mid e)
           | None \<Rightarrow> firstError (paramError mid) (lm_setParamsByID m)))"

text \<open>The keys of \<open>setParamsByID\<close> become aliases; \<open>known\<close> is membership in the configured models.\<close>

fun registerKeys ::
  "(string \<Rightarrow> bool) \<Rightarrow> string \<Rightarrow> string list \<Rightarrow> (string \<times> string) list \<Rightarrow> string list \<Rightarrow> load_error + ((string \<times> string) list \<times> string list)" where
  "registerKeys known mid [] al own = Inr (al, own)"
| "registerKeys known mid (k # ks) al own =
     (if k = mid then registerKeys known mid ks al own
      else if known k then Inl (AliasIsModel mid k)
      else case map_of al k of
             Some other \<Rightarrow> if other \<noteq> mid then Inl (AliasTaken mid k) else registerKeys known mid ks al own
           | None \<Rightarrow> registerKeys known mid ks ((k, mid) # al) (own @ [k]))"

text \<open>The end of the pass over one model: proxy and loading state.\<close>

definition finishModel :: "load_env \<Rightarrow> load_config \<Rightarrow> load_model \<Rightarrow> load_model" where
  "finishModel env cfg m =
     (let m1 = (case normalizeLoopbackProxy env (lm_proxy m) of None \<Rightarrow> m | Some p \<Rightarrow> m\<lparr>lm_proxy := p\<rparr>)
      in if lm_sendLoading m1 = None then m1\<lparr>lm_sendLoading := Some (cf_sendLoading cfg)\<rparr> else m1)"

type_synonym load_pass = "(string \<times> string) list \<times> int"

definition loadModel :: "load_env \<Rightarrow> load_config \<Rightarrow> string \<Rightarrow> load_model \<Rightarrow> load_pass \<Rightarrow> load_error + (load_model \<times> load_pass)" where
  "loadModel env cfg mid m0 st =
     (let m1 = inheritSettings cfg m0 in
      if lm_unloadAfter m1 < 0 then Inl (BadTTL mid (lm_unloadAfter m1))
      else case validateMacros (lm_macros m1) of
        Some e \<Rightarrow> Inl (MacroError e)
      | None \<Rightarrow>
          (case portStep mid (snd st) (substModel cfg mid m1) of
             Inl e \<Rightarrow> Inl e
           | Inr (m2, port) \<Rightarrow>
               (case leftoverError mid m2 of
                  Some e \<Rightarrow> Inl e
                | None \<Rightarrow>
                    (case registerKeys (\<lambda>k. map_of (cf_models cfg) k \<noteq> None) mid (map fst (lm_setParamsByID m2))
                            (fst st) (lm_aliases m2) of
                       Inl e \<Rightarrow> Inl e
                     | Inr (al, own) \<Rightarrow>
                         if le_parseURL env (lm_proxy m2) = None then Inl (BadProxy mid)
                         else Inr (finishModel env cfg (m2\<lparr>lm_aliases := own\<rparr>), al, port)))))"

text \<open>The models in the order of their names.\<close>

fun loadModels ::
  "load_env \<Rightarrow> load_config \<Rightarrow> (string \<times> load_model) list \<Rightarrow> load_pass \<Rightarrow> load_error + ((string \<times> load_model) list \<times> load_pass)" where
  "loadModels env cfg [] st = Inr ([], st)"
| "loadModels env cfg ((mid, m) # ms) st =
     (case loadModel env cfg mid m st of
        Inl e \<Rightarrow> Inl e
      | Inr (m', st') \<Rightarrow>
          (case loadModels env cfg ms st' of
             Inl e \<Rightarrow> Inl e
           | Inr (rest, st'') \<Rightarrow> Inr ((mid, m') # rest, st'')))"

section \<open>Groups, hooks, keys and peers\<close>

definition defaultGroupID :: string where
  "defaultGroupID = ''(default)''"

definition grouped :: "(string \<times> group_config) list \<Rightarrow> string \<Rightarrow> bool" where
  "grouped gs mid = list_ex (\<lambda>(g, c). mid \<in> set (gc_members c)) gs"

text \<open>\<open>AddDefaultGroupToConfig\<close>; with no groups every model is without one.\<close>

definition addDefaultGroup :: "load_config \<Rightarrow> load_config" where
  "addDefaultGroup cfg =
     (let orphans = filter (\<lambda>mid. \<not> grouped (cf_groups cfg) mid) (map fst (cf_models cfg))
      in cfg\<lparr>cf_groups := putKey defaultGroupID
               \<lparr>gc_swap = True, gc_exclusive = True, gc_persistent = False, gc_members = sort orphans\<rparr>
               (cf_groups cfg)\<rparr>)"

fun checkMembers ::
  "string \<Rightarrow> string list \<Rightarrow> string list \<Rightarrow> (string \<rightharpoonup> string) \<Rightarrow> load_error + (string \<rightharpoonup> string)" where
  "checkMembers g [] prev used = Inr used"
| "checkMembers g (m # ms) prev used =
     (if m \<in> set prev then Inl (DuplicateMember m g)
      else case used m of
             Some other \<Rightarrow> Inl (TwoGroups m other g)
           | None \<Rightarrow> checkMembers g ms (m # prev) (used(m \<mapsto> g)))"

fun checkGroupUse :: "(string \<times> group_config) list \<Rightarrow> (string \<rightharpoonup> string) \<Rightarrow> load_error + (string \<rightharpoonup> string)" where
  "checkGroupUse [] used = Inr used"
| "checkGroupUse ((g, c) # gs) used =
     (case checkMembers g (gc_members c) [] used of Inl e \<Rightarrow> Inl e | Inr used' \<Rightarrow> checkGroupUse gs used')"

definition planGroups :: "load_config \<Rightarrow> load_error + load_config" where
  "planGroups cfg =
     (if cf_matrix cfg \<noteq> None \<and> cf_groups cfg \<noteq> [] then Inl GroupsAndMatrix
      else case cf_matrix cfg of
        Some mx \<Rightarrow>
          (case validateMatrix mx (\<lambda>k. map_of (cf_models cfg) k \<noteq> None) of
             Inl e \<Rightarrow> Inl (MatrixError e)
           | Inr sets \<Rightarrow> Inr (cfg\<lparr>cf_expanded := sets\<rparr>))
      | None \<Rightarrow>
          let cfg1 = addDefaultGroup cfg in
          (case checkGroupUse (cf_groups cfg1) Map.empty of Inl e \<Rightarrow> Inl e | Inr _ \<Rightarrow> Inr cfg1))"

definition cleanPreload :: "load_config \<Rightarrow> load_config" where
  "cleanPreload cfg =
     cfg\<lparr>cf_preload := List.map_filter (\<lambda>s. if trimB s = [] then None else realModelName cfg (trimB s)) (cf_preload cfg)\<rparr>"

fun checkKeys :: "string list \<Rightarrow> load_error option" where
  "checkKeys [] = None"
| "checkKeys (k # ks) =
     (if k = [] then Some EmptyApiKey else if contains k '' '' then Some (ApiKeyWithSpace k) else checkKeys ks)"

definition substPeer :: "string \<times> yval \<Rightarrow> peer_config \<Rightarrow> peer_config" where
  "substPeer e p =
     p\<lparr>pr_apiKey := substText e (pr_apiKey p), pr_stripParams := substText e (pr_stripParams p),
       pr_setParams := substPairs e (pr_setParams p)\<rparr>"

definition peerError :: "peer_config \<Rightarrow> ref_error option" where
  "peerError p =
     (case macroRefs (pr_apiKey p) @ macroRefs (pr_stripParams p) of
        n # _ \<Rightarrow> Some (UnknownMacro n)
      | [] \<Rightarrow> validateNestedForUnknownMacros (VMap (pr_setParams p)))"

fun loadPeers :: "(string \<times> yval) list \<Rightarrow> (string \<times> peer_config) list \<Rightarrow> load_error + (string \<times> peer_config) list" where
  "loadPeers macros [] = Inr []"
| "loadPeers macros ((n, p) # ps) =
     (let p' = foldr substPeer macros p in
      case peerError p' of
        Some e \<Rightarrow> Inl (PeerMacro n e)
      | None \<Rightarrow> (case loadPeers macros ps of Inl e \<Rightarrow> Inl e | Inr rest \<Rightarrow> Inr ((n, p') # rest)))"

section \<open>The loader\<close>

text \<open>After the models: groups, hooks, keys and peers.\<close>

definition finishConfig :: "load_config \<Rightarrow> load_error + load_config" where
  "finishConfig c =
     (case planGroups c of
        Inl e \<Rightarrow> Inl e
      | Inr c1 \<Rightarrow>
          let c2 = cleanPreload c1 in
          (case checkKeys (cf_apiKeys c2) of
             Some e \<Rightarrow> Inl e
           | None \<Rightarrow>
               (case loadPeers (cf_macros c2) (cf_peers c2) of
                  Inl e \<Rightarrow> Inl e
                | Inr ps \<Rightarrow> Inr (c2\<lparr>cf_peers := ps\<rparr>))))"

text \<open>Everything behind the decoding of the document.\<close>

definition loadDecoded :: "load_env \<Rightarrow> load_config \<Rightarrow> load_error + load_config" where
  "loadDecoded env c0 =
     (case checkSettings c0 of
        Inl e \<Rightarrow> Inl e
      | Inr c1 \<Rightarrow>
          (case collectAliases (cf_models c1) [] of
             Inl e \<Rightarrow> Inl e
           | Inr al \<Rightarrow>
               let c2 = c1\<lparr>cf_aliases := al\<rparr> in
               if cf_defaultModel c2 \<noteq> [] \<and> realModelName c2 (cf_defaultModel c2) = None
               then Inl (UnknownDefault (cf_defaultModel c2))
               else case validateMacros (cf_macros c2) of
                 Some e \<Rightarrow> Inl (MacroError e)
               | None \<Rightarrow>
                   (case loadModels env c2 (sort_key fst (cf_models c2)) (al, cf_startPort c2) of
                      Inl e \<Rightarrow> Inl e
                    | Inr (ms, al', port) \<Rightarrow> finishConfig (c2\<lparr>cf_models := ms, cf_aliases := al'\<rparr>))))"

definition loadConfig :: "load_env \<Rightarrow> string \<Rightarrow> load_error + load_config" where
  "loadConfig env text =
     (case substituteEnvMacros (le_clean env) (le_getenv env) text of
        Inl e \<Rightarrow> Inl (EnvError e)
      | Inr s \<Rightarrow> (case le_decode env initialConfig s of None \<Rightarrow> Inl YamlError | Some c \<Rightarrow> loadDecoded env c))"

section \<open>Groups\<close>

definition memberLists :: "(string \<times> group_config) list \<Rightarrow> string list" where
  "memberLists gs = concat (map (\<lambda>x. gc_members (snd x)) gs)"

lemma memberLists_simps [simp]:
  "memberLists [] = []" "memberLists (x # gs) = gc_members (snd x) @ memberLists gs"
  by (simp_all add: memberLists_def)

lemma memberLists_append: "memberLists (xs @ ys) = memberLists xs @ memberLists ys"
  by (simp add: memberLists_def)

lemma checkMembers_distinct:
  "checkMembers g ms prev used = Inr u \<Longrightarrow>
   distinct ms \<and> set ms \<inter> set prev = {} \<and> set ms \<inter> dom used = {} \<and> dom u = dom used \<union> set ms"
proof (induction g ms prev used arbitrary: u rule: checkMembers.induct)
  case (2 g m ms prev used)
  then have m: "m \<notin> set prev" "used m = None"
    and r: "checkMembers g ms (m # prev) (used(m \<mapsto> g)) = Inr u"
    by (auto split: if_splits option.splits)
  from 2(1) [OF m r] m show ?case by auto
qed simp

lemma checkGroupUse_distinct:
  "checkGroupUse gs used = Inr u \<Longrightarrow> distinct (memberLists gs) \<and> set (memberLists gs) \<inter> dom used = {}"
proof (induction gs used arbitrary: u rule: checkGroupUse.induct)
  case (2 g c gs used)
  then obtain u1 where u1: "checkMembers g (gc_members c) [] used = Inr u1" "checkGroupUse gs u1 = Inr u"
    by (auto split: sum.splits)
  with 2(1) [OF u1] checkMembers_distinct [OF u1(1)] show ?case by (auto simp: disjoint_iff)
qed simp

lemma assignMembers_ok:
  "distinct ms \<Longrightarrow> set ms \<inter> dom f = {} \<Longrightarrow>
   assignMembers g ms f = Inr (\<lambda>x. if x \<in> set ms then Some g else f x)"
proof (induction g ms f rule: assignMembers.induct)
  case (2 g mid mids f)
  then have n: "f mid = None" and d: "set mids \<inter> dom (f(mid \<mapsto> g)) = {}" and s: "distinct mids" by auto
  have "(\<lambda>x. if x \<in> set mids then Some g else (f(mid \<mapsto> g)) x) = (\<lambda>x. if x \<in> set (mid # mids) then Some g else f x)"
    by (auto simp: fun_eq_iff)
  with 2(1) [OF n s d] n show ?case by (simp add: fun_upd_def)
qed simp

lemma buildModelToGroup_ok:
  "distinct (memberLists gs) \<Longrightarrow> set (memberLists gs) \<inter> dom f = {} \<Longrightarrow>
   \<exists>p. buildModelToGroup gs f = Inr p \<and>
     (\<forall>x g. p x = Some g \<longleftrightarrow> f x = Some g \<or> (\<exists>c. (g, c) \<in> set gs \<and> x \<in> set (gc_members c)))"
proof (induction gs f rule: buildModelToGroup.induct)
  case (2 g c gs f)
  let ?f = "\<lambda>x. if x \<in> set (gc_members c) then Some g else f x"
  have a: "assignMembers g (gc_members c) f = Inr ?f" using 2(2,3) by (intro assignMembers_ok) auto
  have "set (memberLists gs) \<inter> dom ?f = {}" using 2(2,3) by (auto simp: dom_def split: if_splits)
  then obtain p where p: "buildModelToGroup gs ?f = Inr p"
      "\<forall>x g'. p x = Some g' \<longleftrightarrow> ?f x = Some g' \<or> (\<exists>c. (g', c) \<in> set gs \<and> x \<in> set (gc_members c))"
    using 2(1) [OF a] 2(2) by auto
  have none: "f x = None" if "x \<in> set (gc_members c)" for x using that 2(3) by auto
  have "p x = Some g' \<longleftrightarrow> f x = Some g' \<or> (\<exists>d. (g', d) \<in> set ((g, c) # gs) \<and> x \<in> set (gc_members d))" for x g'
  proof (cases "x \<in> set (gc_members c)")
    case True
    then have "\<not> (\<exists>d. (g', d) \<in> set gs \<and> x \<in> set (gc_members d))"
      using 2(2) by (force simp: memberLists_def)
    then show ?thesis using True p(2) none by auto
  qed (use p(2) in auto)
  with a p(1) show ?case by simp
qed simp

lemma grouped_iff: "grouped gs mid \<longleftrightarrow> mid \<in> set (memberLists gs)"
  by (force simp: grouped_def memberLists_def list_ex_iff)

lemma putKey_fresh: "k \<notin> fst ` set xs \<Longrightarrow> putKey k v xs = xs @ [(k, v)]"
  by (induction xs) auto

lemma addDefaultGroup_covers:
  assumes "defaultGroupID \<notin> fst ` set (cf_groups cfg)" and "mid \<in> fst ` set (cf_models cfg)"
  shows "mid \<in> set (memberLists (cf_groups (addDefaultGroup cfg)))"
proof (cases "grouped (cf_groups cfg) mid")
  case True
  then show ?thesis using assms(1)
    by (simp add: addDefaultGroup_def Let_def putKey_fresh memberLists_append grouped_iff)
next
  case False
  then show ?thesis using assms by (force simp: addDefaultGroup_def Let_def putKey_fresh memberLists_append)
qed

section \<open>The stages of a successful load\<close>

definition prepared :: "load_config \<Rightarrow> string \<Rightarrow> load_model \<Rightarrow> load_model" where
  "prepared cfg mid m = substModel cfg mid (inheritSettings cfg m)"

lemma loadModel_stages:
  assumes "loadModel env cfg mid m0 (al, port) = Inr (m', al', port')"
  obtains m2 own where "portStep mid port (prepared cfg mid m0) = Inr (m2, port')"
    and "leftoverError mid m2 = None" and "0 \<le> lm_unloadAfter (inheritSettings cfg m0)"
    and "registerKeys (\<lambda>k. map_of (cf_models cfg) k \<noteq> None) mid (map fst (lm_setParamsByID m2)) al (lm_aliases m2) = Inr (al', own)"
    and "m' = finishModel env cfg (m2\<lparr>lm_aliases := own\<rparr>)"
proof -
  from assms obtain m2 p where p: "portStep mid port (prepared cfg mid m0) = Inr (m2, p)" "leftoverError mid m2 = None"
      "0 \<le> lm_unloadAfter (inheritSettings cfg m0)"
    by (auto simp: loadModel_def prepared_def Let_def not_less split: if_splits option.splits sum.splits)
  with assms obtain own where "registerKeys (\<lambda>k. map_of (cf_models cfg) k \<noteq> None) mid (map fst (lm_setParamsByID m2)) al (lm_aliases m2) = Inr (al', own)"
      "m' = finishModel env cfg (m2\<lparr>lm_aliases := own\<rparr>)" "port' = p"
    by (auto simp: loadModel_def prepared_def [symmetric] Let_def split: if_splits option.splits sum.splits)
  with that p show thesis by blast
qed

lemma loadModels_Cons:
  assumes "loadModels env cfg ((mid, m) # ms) (al, port) = Inr (out, al', port')"
  obtains m' al1 port1 rest where "loadModel env cfg mid m (al, port) = Inr (m', al1, port1)"
    and "loadModels env cfg ms (al1, port1) = Inr (rest, al', port')" and "out = (mid, m') # rest"
  using assms that by (auto split: sum.splits)

lemma planGroups_frame:
  assumes "planGroups c = Inr c2"
  shows "\<exists>gs sets. c2 = c\<lparr>cf_groups := gs, cf_expanded := sets\<rparr>"
proof -
  have "\<exists>gs. c2 = c\<lparr>cf_groups := gs\<rparr> \<or> c2 = c\<lparr>cf_expanded := cf_expanded c2\<rparr>"
    using assms by (auto simp: planGroups_def addDefaultGroup_def Let_def split: if_splits option.splits sum.splits)
  then obtain gs where "c2 = c\<lparr>cf_groups := gs\<rparr> \<or> c2 = c\<lparr>cf_expanded := cf_expanded c2\<rparr>" ..
  then have "c2 = c\<lparr>cf_groups := gs, cf_expanded := cf_expanded c\<rparr> \<or> c2 = c\<lparr>cf_groups := cf_groups c, cf_expanded := cf_expanded c2\<rparr>"
    by simp
  then show ?thesis by metis
qed

lemma loadDecoded_stages:
  assumes "loadDecoded env c0 = Inr cfg"
  obtains c1 al ms al' port c2 ps where "checkSettings c0 = Inr c1" and "collectAliases (cf_models c1) [] = Inr al"
    and "cf_defaultModel c1 = [] \<or> realModelName (c1\<lparr>cf_aliases := al\<rparr>) (cf_defaultModel c1) \<noteq> None"
    and "loadModels env (c1\<lparr>cf_aliases := al\<rparr>) (sort_key fst (cf_models c1)) (al, cf_startPort c1) = Inr (ms, al', port)"
    and "planGroups (c1\<lparr>cf_models := ms, cf_aliases := al'\<rparr>) = Inr c2"
    and "checkKeys (cf_apiKeys c2) = None" and "loadPeers (cf_macros c2) (cf_peers c2) = Inr ps"
    and "cfg = (cleanPreload c2)\<lparr>cf_peers := ps\<rparr>"
proof -
  from assms obtain c1 al ms al' port where a: "checkSettings c0 = Inr c1" "collectAliases (cf_models c1) [] = Inr al"
      "cf_defaultModel c1 = [] \<or> realModelName (c1\<lparr>cf_aliases := al\<rparr>) (cf_defaultModel c1) \<noteq> None"
      "loadModels env (c1\<lparr>cf_aliases := al\<rparr>) (sort_key fst (cf_models c1)) (al, cf_startPort c1) = Inr (ms, al', port)"
    and f: "finishConfig (c1\<lparr>cf_aliases := al, cf_models := ms, cf_aliases := al'\<rparr>) = Inr cfg"
    by (auto simp: loadDecoded_def Let_def split: if_splits option.splits sum.splits)
  from f obtain c2 ps where "planGroups (c1\<lparr>cf_models := ms, cf_aliases := al'\<rparr>) = Inr c2"
      "checkKeys (cf_apiKeys c2) = None" "loadPeers (cf_macros c2) (cf_peers c2) = Inr ps"
      "cfg = (cleanPreload c2)\<lparr>cf_peers := ps\<rparr>"
    by (auto simp: finishConfig_def cleanPreload_def Let_def split: option.splits sum.splits)
  with a that show thesis by blast
qed

lemma checkSettings_frame:
  assumes "checkSettings c0 = Inr c1"
  shows "\<exists>h e g. c1 = c0\<lparr>cf_healthTimeout := h, cf_perfEvery := e, cf_guard := g\<rparr>"
proof -
  have "\<exists>g. c1 = c0\<lparr>cf_healthTimeout := cf_healthTimeout c1, cf_perfEvery := cf_perfEvery c1, cf_guard := g\<rparr>"
    using assms by (auto simp: checkSettings_def Let_def split: if_splits option.splits sum.splits)
  then show ?thesis by blast
qed

subsection \<open>Ports\<close>

definition portUsers :: "load_config \<Rightarrow> (string \<times> load_model) list \<Rightarrow> string set" where
  "portUsers cfg ms = {k. \<exists>m. (k, m) \<in> set ms \<and> usesPort (prepared cfg k m)}"

definition portFor :: "load_config \<Rightarrow> (string \<times> load_model) list \<Rightarrow> string \<Rightarrow> int" where
  "portFor cfg ms mid = cf_startPort cfg + int (card {k \<in> portUsers cfg ms. k < mid})"

definition wantsPort :: "load_config \<Rightarrow> string \<times> load_model \<Rightarrow> bool" where
  "wantsPort cfg x = usesPort (prepared cfg (fst x) (snd x))"

definition withPort :: "int \<Rightarrow> load_model \<Rightarrow> load_model" where
  "withPort port m = (if usesPort m then substPort port m else m)"

lemma portStep_Inr:
  "portStep mid port m = Inr (m2, port') \<Longrightarrow> m2 = withPort port m \<and> port' = port + (if usesPort m then 1 else 0)"
  by (auto simp: portStep_def withPort_def split: if_splits)

lemma finishModel_sel [simp]:
  "lm_cmd (finishModel env cfg m) = lm_cmd m" "lm_aliases (finishModel env cfg m) = lm_aliases m"
  "lm_unloadAfter (finishModel env cfg m) = lm_unloadAfter m"
  "lm_healthTimeout (finishModel env cfg m) = lm_healthTimeout m"
  "lm_setParamsByID (finishModel env cfg m) = lm_setParamsByID m"
  "lm_metadata (finishModel env cfg m) = lm_metadata m"
  by (simp_all add: finishModel_def Let_def split: option.splits)

lemma loadModels_names: "loadModels env cfg ms st = Inr (out, st') \<Longrightarrow> map fst out = map fst ms"
  by (induction ms arbitrary: st out) (auto split: sum.splits)

lemma loadModels_ports:
  "loadModels env cfg ms (al, port) = Inr (out, al', port') \<Longrightarrow> i < length ms \<Longrightarrow>
   lm_cmd (snd (out ! i)) =
     lm_cmd (withPort (port + int (length (filter (wantsPort cfg) (take i ms)))) (prepared cfg (fst (ms ! i)) (snd (ms ! i))))"
proof (induction ms arbitrary: al port out i)
  case (Cons x ms)
  obtain mid m where x: "x = (mid, m)" by (cases x)
  obtain m' al1 port1 rest where r: "loadModel env cfg mid m (al, port) = Inr (m', al1, port1)"
      "loadModels env cfg ms (al1, port1) = Inr (rest, al', port')" "out = (mid, m') # rest"
    using loadModels_Cons Cons.prems(1) x by metis
  obtain m2 own where m2: "portStep mid port (prepared cfg mid m) = Inr (m2, port1)"
      "m' = finishModel env cfg (m2\<lparr>lm_aliases := own\<rparr>)"
    using loadModel_stages [OF r(1)] by metis
  note ps = portStep_Inr [OF m2(1)]
  show ?case
  proof (cases i)
    case 0
    then show ?thesis using r(3) m2(2) ps by (simp add: x)
  next
    case (Suc j)
    then show ?thesis using Cons.IH [OF r(2), of j] Cons.prems(2) r(3) ps by (simp add: x wantsPort_def add.assoc)
  qed
qed simp

lemma sorted_before:
  fixes xs :: "('a :: linorder \<times> 'b) list"
  assumes "sorted (map fst xs)" and "distinct (map fst xs)" and "i < length xs"
  shows "(x \<in> set (take i xs)) \<longleftrightarrow> x \<in> set xs \<and> fst x < fst (xs ! i)"
proof
  assume "x \<in> set (take i xs)"
  then obtain j where "j < i" and x: "x = xs ! j" using assms(3) by (auto simp: in_set_conv_nth)
  then have "fst x \<le> fst (xs ! i)" and "fst x \<noteq> fst (xs ! i)"
    using assms sorted_nth_mono [of "map fst xs" j i] nth_eq_iff_index_eq [of "map fst xs" j i] by simp_all
  then show "x \<in> set xs \<and> fst x < fst (xs ! i)" using x \<open>j < i\<close> assms(3) by simp
next
  assume r: "x \<in> set xs \<and> fst x < fst (xs ! i)"
  then obtain j where j: "j < length xs" "x = xs ! j" by (auto simp: in_set_conv_nth)
  have "j < i"
  proof (rule ccontr)
    assume "\<not> j < i"
    then have "fst (xs ! i) \<le> fst x" using assms j sorted_nth_mono [of "map fst xs" i j] by simp
    then show False using r leD by blast
  qed
  then show "x \<in> set (take i xs)" using j assms(3) by (auto simp: in_set_conv_nth)
qed

lemma ports_before:
  assumes "sorted (map fst xs)" and "distinct (map fst xs)" and "i < length xs" and "set xs = set ms"
  shows "length (filter (wantsPort cfg) (take i xs)) = card {k \<in> portUsers cfg ms. k < fst (xs ! i)}"
proof -
  let ?f = "filter (wantsPort cfg) (take i xs)"
  have "fst ` set ?f = {k \<in> portUsers cfg ms. k < fst (xs ! i)}"
  proof (intro set_eqI iffI)
    fix k assume "k \<in> fst ` set ?f"
    then obtain x where x: "k = fst x" "x \<in> set (take i xs)" "wantsPort cfg x" by auto
    have "x \<in> set xs" "fst x < fst (xs ! i)" using sorted_before [OF assms(1-3), of x] x(2) by blast+
    then have "(k, snd x) \<in> set ms" "usesPort (prepared cfg k (snd x))" "k < fst (xs ! i)"
      using x assms(4) by (simp_all add: wantsPort_def)
    then show "k \<in> {k \<in> portUsers cfg ms. k < fst (xs ! i)}" by (auto simp: portUsers_def)
  next
    fix k assume "k \<in> {k \<in> portUsers cfg ms. k < fst (xs ! i)}"
    then obtain m where m: "(k, m) \<in> set xs" "usesPort (prepared cfg k m)" "k < fst (xs ! i)"
      using assms(4) by (auto simp: portUsers_def)
    then have "(k, m) \<in> set (take i xs)" using sorted_before [OF assms(1-3), of "(k, m)"] by simp
    then have "(k, m) \<in> set ?f" using m(2) by (simp add: wantsPort_def)
    then show "k \<in> fst ` set ?f" by force
  qed
  moreover have "distinct (map fst ?f)"
    using assms(2) by (metis distinct_map_filter distinct_take take_map)
  then have "card (fst ` set ?f) = length ?f"
    by (metis distinct_card length_map set_map)
  ultimately show ?thesis by simp
qed

lemma prepared_cong:
  "cf_healthTimeout a = cf_healthTimeout b \<Longrightarrow> cf_maxRequest a = cf_maxRequest b \<Longrightarrow>
   cf_globalTTL a = cf_globalTTL b \<Longrightarrow> cf_macros a = cf_macros b \<Longrightarrow> prepared a = prepared b"
  by (simp only: fun_eq_iff prepared_def substModel_def inheritSettings_def simp_thms)

text \<open>What the stages after the models leave alone.\<close>

lemma loaded_models:
  assumes "loadDecoded env c0 = Inr cfg"
  obtains c1 al port where "checkSettings c0 = Inr c1" and "collectAliases (cf_models c0) [] = Inr al"
    and "loadModels env (c1\<lparr>cf_aliases := al\<rparr>) (sort_key fst (cf_models c0)) (al, cf_startPort c1) = Inr (cf_models cfg, cf_aliases cfg, port)"
    and "cf_startPort cfg = cf_startPort c1" and "prepared (c1\<lparr>cf_aliases := al\<rparr>) = prepared cfg"
    and "cf_models c1 = cf_models c0"
  using assms
proof (rule loadDecoded_stages)
  fix c1 al ms al' port c2 ps
  assume st: "checkSettings c0 = Inr c1" "collectAliases (cf_models c1) [] = Inr al"
    "loadModels env (c1\<lparr>cf_aliases := al\<rparr>) (sort_key fst (cf_models c1)) (al, cf_startPort c1) = Inr (ms, al', port)"
    "planGroups (c1\<lparr>cf_models := ms, cf_aliases := al'\<rparr>) = Inr c2" "cfg = (cleanPreload c2)\<lparr>cf_peers := ps\<rparr>"
  obtain gs sets where c2: "c2 = c1\<lparr>cf_models := ms, cf_aliases := al', cf_groups := gs, cf_expanded := sets\<rparr>"
    using planGroups_frame [OF st(4)] by auto
  have m: "cf_models c1 = cf_models c0" using checkSettings_frame [OF st(1)] by auto
  have "prepared (c1\<lparr>cf_aliases := al\<rparr>) = prepared cfg"
    unfolding st(5) c2 by (rule prepared_cong) (simp_all add: cleanPreload_def)
  moreover have "cf_models cfg = ms" "cf_aliases cfg = al'" "cf_startPort cfg = cf_startPort c1"
    unfolding st(5) c2 by (simp_all add: cleanPreload_def)
  ultimately show thesis using that st(1-3) m by metis
qed

lemma distinct_sorted_names: "distinct (map fst xs) \<Longrightarrow> distinct (map fst (sort_key fst xs))"
  using mset_eq_imp_distinct_iff [of "map fst (sort_key fst xs)" "map fst xs"] by simp

lemma portFor_less:
  assumes "finite (portUsers cfg ms)" and "k \<in> portUsers cfg ms" and "k < k'"
  shows "portFor cfg ms k < portFor cfg ms k'"
proof -
  have "{j \<in> portUsers cfg ms. j < k} \<subset> {j \<in> portUsers cfg ms. j < k'}" using assms(2,3) by auto
  then show ?thesis using assms(1) by (simp add: portFor_def psubset_card_mono)
qed

lemma portUsers_finite: "finite (portUsers cfg ms)"
  by (rule finite_subset [of _ "fst ` set ms"]) (force simp: portUsers_def)+

lemma ports_differ: "inj_on (portFor cfg ms) (portUsers cfg ms)"
  using portFor_less [OF portUsers_finite] by (metis inj_onI linorder_neqE order_less_irrefl)

text \<open>
  C11. After a load the command of every model is its prepared command (inherited settings, macros
  substituted), with \<open>${PORT}\<close> replaced by the start port plus the number of models of smaller name that
  use a port; two models that use one get different ports.
\<close>

theorem ports_assigned:
  assumes "loadDecoded env c0 = Inr cfg" and "distinct (map fst (cf_models c0))" and "(mid, m) \<in> set (cf_models c0)"
  shows "(\<exists>m'. map_of (cf_models cfg) mid = Some m' \<and>
      lm_cmd m' = (let p = prepared cfg mid m in
        if contains (lm_cmd p) ''${PORT}''
        then replaceAll (lm_cmd p) ''${PORT}'' (itoa (portFor cfg (cf_models c0) mid)) else lm_cmd p))
    \<and> inj_on (portFor cfg (cf_models c0)) (portUsers cfg (cf_models c0))"
proof -
  obtain c1 al port where l: "loadModels env (c1\<lparr>cf_aliases := al\<rparr>) (sort_key fst (cf_models c0)) (al, cf_startPort c1)
        = Inr (cf_models cfg, cf_aliases cfg, port)"
    and p: "cf_startPort cfg = cf_startPort c1" "prepared (c1\<lparr>cf_aliases := al\<rparr>) = prepared cfg"
    using loaded_models [OF assms(1)] by metis
  let ?xs = "sort_key fst (cf_models c0)"
  have d: "distinct (map fst ?xs)" using assms(2) by (rule distinct_sorted_names)
  obtain i where i: "i < length ?xs" "?xs ! i = (mid, m)" using assms(3) by (metis in_set_conv_nth set_sort)
  have names: "map fst (cf_models cfg) = map fst ?xs" by (rule loadModels_names [OF l])
  then have len: "length (cf_models cfg) = length ?xs" and fi: "fst (cf_models cfg ! i) = mid"
    using i by (metis length_map, metis fst_conv length_map nth_map)
  have "(mid, snd (cf_models cfg ! i)) \<in> set (cf_models cfg)" using fi i(1) len by (metis nth_mem prod.collapse)
  then have mo: "map_of (cf_models cfg) mid = Some (snd (cf_models cfg ! i))"
    using d names by (metis map_of_is_SomeI)
  have cnt: "length (filter (wantsPort cfg) (take i ?xs)) = card {k \<in> portUsers cfg (cf_models c0). k < mid}"
    using ports_before [OF _ d i(1), of "cf_models c0" cfg] i(2) by simp
  have w: "wantsPort (c1\<lparr>cf_aliases := al\<rparr>) = wantsPort cfg" using p(2) by (simp add: wantsPort_def [abs_def])
  have "lm_cmd (snd (cf_models cfg ! i)) = lm_cmd (withPort (portFor cfg (cf_models c0) mid) (prepared cfg mid m))"
    using loadModels_ports [OF l i(1)] by (simp add: w p i(2) cnt portFor_def)
  then have "\<exists>m'. map_of (cf_models cfg) mid = Some m' \<and>
      lm_cmd m' = (let p = prepared cfg mid m in
        if contains (lm_cmd p) ''${PORT}''
        then replaceAll (lm_cmd p) ''${PORT}'' (itoa (portFor cfg (cf_models c0) mid)) else lm_cmd p)"
    using mo by (simp add: withPort_def usesPort_def portSlug_def substPort_def substText_def macroSlug_def Let_def)
  then show ?thesis using ports_differ by blast
qed

subsection \<open>Aliases\<close>

lemma addAliases_map:
  "addAliases mid as al = Inr al' \<Longrightarrow>
   map_of al' a = Some k \<longleftrightarrow> map_of al a = Some k \<or> (k = mid \<and> a \<in> set as)"
proof (induction mid as al rule: addAliases.induct)
  case (2 mid b bs al)
  then have n: "map_of al b = None" and r: "addAliases mid bs ((b, mid) # al) = Inr al'"
    by (auto split: if_splits)
  then show ?case using 2(1) by auto
qed simp

lemma collectAliases_map:
  "collectAliases ms al = Inr al' \<Longrightarrow>
   map_of al' a = Some k \<longleftrightarrow> map_of al a = Some k \<or> (\<exists>m. (k, m) \<in> set ms \<and> a \<in> set (lm_aliases m))"
proof (induction ms al rule: collectAliases.induct)
  case (2 mid m ms al)
  then obtain al1 where r: "addAliases mid (lm_aliases m) al = Inr al1" "collectAliases ms al1 = Inr al'"
    by (auto split: sum.splits)
  then show ?case using 2(1) [OF r] addAliases_map [OF r(1), of a k] by auto
qed simp

text \<open>The entries of one model in the alias map are its alias list.\<close>

definition ownAliases :: "(string \<times> string) list \<Rightarrow> string \<Rightarrow> string list \<Rightarrow> bool" where
  "ownAliases al mid as = (\<forall>a. map_of al a = Some mid \<longleftrightarrow> a \<in> set as)"

lemma registerKeys_map:
  "registerKeys known mid ks al own = Inr (al', own') \<Longrightarrow> ownAliases al mid own \<Longrightarrow>
   ownAliases al' mid own' \<and> (\<forall>a k. k \<noteq> mid \<longrightarrow> (map_of al' a = Some k \<longleftrightarrow> map_of al a = Some k))"
proof (induction known mid ks al own rule: registerKeys.induct)
  case (2 known mid k ks al own)
  show ?case
  proof (cases "k = mid \<or> map_of al k = Some mid")
    case True
    then show ?thesis using 2 by (auto split: if_splits)
  next
    case False
    then have n: "map_of al k = None" "k \<noteq> mid" "\<not> known k"
      and r: "registerKeys known mid ks ((k, mid) # al) (own @ [k]) = Inr (al', own')"
      using 2(4) by (auto split: if_splits option.splits)
    have "ownAliases ((k, mid) # al) mid (own @ [k])" using 2(5) n(1) by (auto simp: ownAliases_def)
    from 2(2) [OF n(2,3,1) r this] show ?thesis using n(1) by auto
  qed
qed simp

lemma substEntry_keeps [simp]:
  "lm_aliases (substEntry e m) = lm_aliases m" "lm_unloadAfter (substEntry e m) = lm_unloadAfter m"
  "lm_macros (substEntry e m) = lm_macros m"
  by (simp_all add: substEntry_def)

lemma foldr_substEntry_keeps [simp]:
  "lm_aliases (foldr substEntry es m) = lm_aliases m" "lm_unloadAfter (foldr substEntry es m) = lm_unloadAfter m"
  by (induction es) simp_all

lemma inheritSettings_keeps [simp]: "lm_aliases (inheritSettings cfg m) = lm_aliases m"
  by (simp add: inheritSettings_def Let_def)

lemma withPort_keeps [simp]:
  "lm_aliases (withPort p m) = lm_aliases m" "lm_unloadAfter (withPort p m) = lm_unloadAfter m"
  by (simp_all add: withPort_def substPort_def Let_def)

lemma prepared_keeps [simp]:
  "lm_aliases (prepared cfg mid m) = lm_aliases m"
  "lm_unloadAfter (prepared cfg mid m) = lm_unloadAfter (inheritSettings cfg m)"
  by (simp_all add: prepared_def substModel_def)

lemma loadModels_aliases:
  "loadModels env cfg ms (al, port) = Inr (out, al', port') \<Longrightarrow> distinct (map fst ms) \<Longrightarrow>
   (\<forall>(k, m) \<in> set ms. ownAliases al k (lm_aliases m)) \<Longrightarrow>
   (\<forall>(k, m) \<in> set out. ownAliases al' k (lm_aliases m)) \<and>
   (\<forall>a k. k \<notin> fst ` set ms \<longrightarrow> (map_of al' a = Some k \<longleftrightarrow> map_of al a = Some k))"
proof (induction ms arbitrary: al port out)
  case (Cons x ms)
  obtain mid m where x: "x = (mid, m)" by (cases x)
  obtain m' al1 port1 rest where r: "loadModel env cfg mid m (al, port) = Inr (m', al1, port1)"
      "loadModels env cfg ms (al1, port1) = Inr (rest, al', port')" "out = (mid, m') # rest"
    using loadModels_Cons Cons.prems(1) x by metis
  obtain m2 own where m2: "portStep mid port (prepared cfg mid m) = Inr (m2, port1)"
      "registerKeys (\<lambda>k. map_of (cf_models cfg) k \<noteq> None) mid (map fst (lm_setParamsByID m2)) al (lm_aliases m2) = Inr (al1, own)"
      "m' = finishModel env cfg (m2\<lparr>lm_aliases := own\<rparr>)"
    using loadModel_stages [OF r(1)] by metis
  have as: "lm_aliases m2 = lm_aliases m" "lm_aliases m' = own" using portStep_Inr [OF m2(1)] m2(3) by simp_all
  have k: "ownAliases al1 mid own" and keep: "\<And>a k. k \<noteq> mid \<Longrightarrow> (map_of al1 a = Some k \<longleftrightarrow> map_of al a = Some k)"
    using registerKeys_map [OF m2(2)] Cons.prems(3) as x by auto
  have new: "mid \<notin> fst ` set ms" and d: "distinct (map fst ms)" using Cons.prems(2) by (auto simp: x)
  have "ownAliases al1 j (lm_aliases n)" if "(j, n) \<in> set ms" for j n
  proof -
    have "j \<noteq> mid" using that new by force
    then show ?thesis using that Cons.prems(3) keep by (auto simp: ownAliases_def)
  qed
  with Cons.IH [OF r(2) d] have ih: "\<forall>(k, m) \<in> set rest. ownAliases al' k (lm_aliases m)"
      "\<And>a k. k \<notin> fst ` set ms \<Longrightarrow> (map_of al' a = Some k \<longleftrightarrow> map_of al1 a = Some k)"
    by auto
  have "ownAliases al' mid own" using ih(2) [OF new] k by (simp add: ownAliases_def)
  then show ?case using ih keep r(3) as(2) by (auto simp: x)
qed simp

lemma alias_map_models_iff:
  assumes "loadDecoded env c0 = Inr cfg" and "distinct (map fst (cf_models c0))"
  shows "map_of (cf_aliases cfg) a = Some mid \<longleftrightarrow> (\<exists>m. map_of (cf_models cfg) mid = Some m \<and> a \<in> set (lm_aliases m))"
proof -
  obtain c1 al port where al: "collectAliases (cf_models c0) [] = Inr al"
    and l: "loadModels env (c1\<lparr>cf_aliases := al\<rparr>) (sort_key fst (cf_models c0)) (al, cf_startPort c1)
        = Inr (cf_models cfg, cf_aliases cfg, port)"
    using loaded_models [OF assms(1)] by metis
  let ?xs = "sort_key fst (cf_models c0)"
  have d: "distinct (map fst ?xs)" using assms(2) by (rule distinct_sorted_names)
  have own: "map_of al a = Some k \<longleftrightarrow> (\<exists>m. (k, m) \<in> set (cf_models c0) \<and> a \<in> set (lm_aliases m))" for a k
    using collectAliases_map [OF al] by simp
  have "\<forall>(k, m) \<in> set ?xs. ownAliases al k (lm_aliases m)"
  proof safe
    fix k m assume "(k, m) \<in> set ?xs"
    then have "(k, m) \<in> set (cf_models c0)" by simp
    then show "ownAliases al k (lm_aliases m)"
      using own assms(2) by (auto simp: ownAliases_def dest: eq_key_imp_eq_value)
  qed
  from loadModels_aliases [OF l d this]
  have fin: "\<And>k m. (k, m) \<in> set (cf_models cfg) \<Longrightarrow> ownAliases (cf_aliases cfg) k (lm_aliases m)"
    and others: "\<And>a k. k \<notin> fst ` set ?xs \<Longrightarrow> (map_of (cf_aliases cfg) a = Some k \<longleftrightarrow> map_of al a = Some k)"
    by auto
  have names: "map fst (cf_models cfg) = map fst ?xs" by (rule loadModels_names [OF l])
  show ?thesis
  proof
    assume a: "map_of (cf_aliases cfg) a = Some mid"
    have "mid \<in> fst ` set ?xs"
    proof (rule ccontr)
      assume "mid \<notin> fst ` set ?xs"
      then have "map_of al a = Some mid" using others a by blast
      then show False using own \<open>mid \<notin> fst ` set ?xs\<close> by force
    qed
    then have "mid \<in> fst ` set (cf_models cfg)" using names by (metis set_map)
    then obtain m where m: "map_of (cf_models cfg) mid = Some m" by (metis map_of_eq_None_iff not_None_eq)
    then show "\<exists>m. map_of (cf_models cfg) mid = Some m \<and> a \<in> set (lm_aliases m)"
      using fin [OF map_of_SomeD [OF m]] a by (auto simp: ownAliases_def)
  next
    assume "\<exists>m. map_of (cf_models cfg) mid = Some m \<and> a \<in> set (lm_aliases m)"
    then show "map_of (cf_aliases cfg) a = Some mid"
      using fin map_of_SomeD by (fastforce simp: ownAliases_def)
  qed
qed

text \<open>
  C12. After a load the alias map is exactly the relation between the models and their alias lists (the explicit
  aliases and the keys of \<open>setParamsByID\<close>): an alias resolves to one configured model, which lists it.
\<close>

theorem alias_map_exact:
  assumes "loadDecoded env c0 = Inr cfg" and "distinct (map fst (cf_models c0))"
  shows "map_of (cf_aliases cfg) a = Some mid \<longleftrightarrow> (\<exists>m. map_of (cf_models cfg) mid = Some m \<and> a \<in> set (lm_aliases m))"
  using assms by (rule alias_map_models_iff)

lemma alias_map_exact_models:
  assumes "loadDecoded env c0 = Inr cfg" and "distinct (map fst (cf_models c0))" and "map_of (cf_aliases cfg) a = Some k"
  shows "k \<in> fst ` set (cf_models cfg)"
proof -
  obtain m where "map_of (cf_models cfg) k = Some m"
    using alias_map_models_iff [OF assms(1,2), of a k] assms(3) by blast
  then show ?thesis by (force dest: map_of_SomeD)
qed

section \<open>A loaded configuration is well formed\<close>

definition fieldOk :: "string \<times> string \<Rightarrow> bool" where
  "fieldOk f = (fst f \<noteq> ''proxy'' \<longrightarrow> set (macroRefs (snd f)) \<subseteq> (if fst f = ''cmdStop'' then {''PID''} else {}))"

definition modelOk :: "load_model \<Rightarrow> bool" where
  "modelOk m =
     (0 \<le> lm_unloadAfter m \<and> lm_sendLoading m \<noteq> None \<and> list_all fieldOk (textFields m)
      \<and> validateNestedForUnknownMacros (VMap (lm_metadata m)) = None
      \<and> list_all (\<lambda>kp. macroRefs (fst kp) = [] \<and> validateNestedForUnknownMacros (VMap (snd kp)) = None) (lm_setParamsByID m))"

definition settingsOk :: "load_config \<Rightarrow> bool" where
  "settingsOk c =
     (15 \<le> cf_healthTimeout c \<and> fiveSecs \<le> cf_perfEvery c \<and> validatePlacement (cf_placement c) = None
      \<and> 1 \<le> cf_startPort c \<and> 0 \<le> cf_globalTTL c
      \<and> cf_logToStdout c \<in> {''proxy'', ''upstream'', ''both'', ''none''}
      \<and> mg_minPct (cf_guard c) > 0 \<and> mg_minPct (cf_guard c) \<le> 90 \<and> 1 \<le> mg_samples (cf_guard c)
      \<and> 1 \<le> mg_interval (cf_guard c))"

definition peerOk :: "peer_config \<Rightarrow> bool" where
  "peerOk p =
     (macroRefs (pr_apiKey p) = [] \<and> macroRefs (pr_stripParams p) = []
      \<and> validateNestedForUnknownMacros (VMap (pr_setParams p)) = None)"

definition loadedOk :: "load_config \<Rightarrow> bool" where
  "loadedOk c =
     (settingsOk c \<and> list_all (modelOk \<circ> snd) (cf_models c) \<and> set (cf_preload c) \<subseteq> fst ` set (cf_models c)
      \<and> list_all (\<lambda>k. k \<noteq> [] \<and> \<not> contains k '' '') (cf_apiKeys c) \<and> list_all (peerOk \<circ> snd) (cf_peers c))"

lemma normalizeGuard_range:
  "normalizeGuard g0 = Inr g \<Longrightarrow> mg_minPct g > 0 \<and> mg_minPct g \<le> 90 \<and> 1 \<le> mg_samples g \<and> 1 \<le> mg_interval g"
  by (auto simp: normalizeGuard_def Let_def split: if_splits)

lemma checkSettings_ok: "checkSettings c0 = Inr c \<Longrightarrow> settingsOk c"
  by (auto simp: checkSettings_def settingsOk_def Let_def fiveSecs_def not_less dest!: normalizeGuard_range
      split: if_splits option.splits sum.splits)

lemma fieldError_None: "fieldError mid f = None \<Longrightarrow> set (macroRefs (snd f)) \<subseteq> (if fst f = ''cmdStop'' then {''PID''} else {})"
  by (auto simp: fieldError_def split: if_splits)

lemma leftoverError_None:
  assumes "leftoverError mid m = None"
  shows "list_all fieldOk (textFields m) \<and> validateNestedForUnknownMacros (VMap (lm_metadata m)) = None
    \<and> list_all (\<lambda>kp. macroRefs (fst kp) = [] \<and> validateNestedForUnknownMacros (VMap (snd kp)) = None) (lm_setParamsByID m)"
proof -
  have f: "fieldError mid x = None" if "x \<in> set (textFields m)" for x
    using assms that by (auto simp: leftoverError_def split: option.splits)
  have p: "paramError mid x = None" if "x \<in> set (lm_setParamsByID m)" for x
    using assms that by (auto simp: leftoverError_def split: option.splits)
  have "fieldOk x" if "x \<in> set (textFields m)" for x
    using fieldError_None [OF f [OF that]] by (simp add: fieldOk_def)
  moreover have "macroRefs (fst x) = [] \<and> validateNestedForUnknownMacros (VMap (snd x)) = None"
    if "x \<in> set (lm_setParamsByID m)" for x
    using p [OF that] by (simp add: paramError_def split: list.splits)
  moreover have "validateNestedForUnknownMacros (VMap (lm_metadata m)) = None"
    using assms by (simp add: leftoverError_def split: option.splits)
  ultimately show ?thesis by (auto simp: list_all_iff)
qed

lemma finishModel_ok:
  assumes "leftoverError mid m = None" and "0 \<le> lm_unloadAfter m"
  shows "modelOk (finishModel env cfg (m\<lparr>lm_aliases := own\<rparr>))"
proof -
  have "list_all fieldOk (textFields (finishModel env cfg (m\<lparr>lm_aliases := own\<rparr>)))"
    using leftoverError_None [OF assms(1)]
    by (simp add: textFields_def finishModel_def Let_def split: option.splits) (simp add: fieldOk_def)
  moreover have "lm_sendLoading (finishModel env cfg (m\<lparr>lm_aliases := own\<rparr>)) \<noteq> None"
    by (simp add: finishModel_def Let_def split: option.splits)
  ultimately show ?thesis using leftoverError_None [OF assms(1)] assms(2) by (simp add: modelOk_def)
qed

lemma loadModels_ok: "loadModels env cfg ms (al, port) = Inr (out, al', port') \<Longrightarrow> list_all (modelOk \<circ> snd) out"
proof (induction ms arbitrary: al port out)
  case (Cons x ms)
  obtain mid m where x: "x = (mid, m)" by (cases x)
  obtain m' al1 port1 rest where r: "loadModel env cfg mid m (al, port) = Inr (m', al1, port1)"
      "loadModels env cfg ms (al1, port1) = Inr (rest, al', port')" "out = (mid, m') # rest"
    using loadModels_Cons Cons.prems(1) x by metis
  obtain m2 own where m2: "portStep mid port (prepared cfg mid m) = Inr (m2, port1)" "leftoverError mid m2 = None"
      "0 \<le> lm_unloadAfter (inheritSettings cfg m)" "m' = finishModel env cfg (m2\<lparr>lm_aliases := own\<rparr>)"
    using loadModel_stages [OF r(1)] by metis
  have "0 \<le> lm_unloadAfter m2" using portStep_Inr [OF m2(1)] m2(3) by simp
  from finishModel_ok [OF m2(2) this] show ?case using Cons.IH [OF r(2)] r(3) m2(4) by simp
qed simp

lemma checkKeys_ok: "checkKeys ks = None \<Longrightarrow> list_all (\<lambda>k. k \<noteq> [] \<and> \<not> contains k '' '') ks"
  by (induction ks) (auto split: if_splits)

lemma loadPeers_ok: "loadPeers macros ps = Inr qs \<Longrightarrow> list_all (peerOk \<circ> snd) qs"
proof (induction ps arbitrary: qs)
  case (Cons x ps)
  obtain n p where x: "x = (n, p)" by (cases x)
  let ?p = "foldr substPeer macros p"
  obtain rest where r: "peerError ?p = None" "loadPeers macros ps = Inr rest" "qs = (n, ?p) # rest"
    using Cons.prems by (auto simp: x Let_def split: option.splits sum.splits)
  have "peerOk ?p" using r(1) by (simp add: peerError_def peerOk_def split: list.splits)
  then show ?case using Cons.IH [OF r(2)] r(3) by simp
qed simp

lemma settingsOk_cong:
  "settingsOk (c\<lparr>cf_models := ms, cf_aliases := al, cf_groups := gs, cf_expanded := sets\<rparr>) = settingsOk c"
  by (simp add: settingsOk_def)

text \<open>
  C10. Whatever the document, a loaded configuration is well formed: the settings are in their ranges, no text of
  a model and no value of its parameters or metadata holds a macro reference except \<open>${PID}\<close> in the stop
  command (the proxy may be rewritten after the check), time-outs to unload are not negative, the loading
  state is decided, preloaded models are configured, and keys and peers are clean.
\<close>

theorem loaded_config_wellformed:
  assumes "loadDecoded env c0 = Inr cfg" and "distinct (map fst (cf_models c0))"
  shows "loadedOk cfg"
  using assms(1)
proof (rule loadDecoded_stages)
  fix c1 al ms al' port c2 ps
  assume st: "checkSettings c0 = Inr c1" "collectAliases (cf_models c1) [] = Inr al"
    "loadModels env (c1\<lparr>cf_aliases := al\<rparr>) (sort_key fst (cf_models c1)) (al, cf_startPort c1) = Inr (ms, al', port)"
    "planGroups (c1\<lparr>cf_models := ms, cf_aliases := al'\<rparr>) = Inr c2" "checkKeys (cf_apiKeys c2) = None"
    "loadPeers (cf_macros c2) (cf_peers c2) = Inr ps" "cfg = (cleanPreload c2)\<lparr>cf_peers := ps\<rparr>"
  obtain gs sets where c2: "c2 = c1\<lparr>cf_models := ms, cf_aliases := al', cf_groups := gs, cf_expanded := sets\<rparr>"
    using planGroups_frame [OF st(4)] by auto
  have s: "settingsOk cfg"
    using checkSettings_ok [OF st(1)] by (simp add: st(7) c2 cleanPreload_def settingsOk_def)
  have al: "map_of (cf_aliases cfg) a = Some k \<Longrightarrow> k \<in> fst ` set (cf_models cfg)" for a k
    using alias_map_exact_models [OF assms] .
  have "set (cf_preload cfg) \<subseteq> fst ` set (cf_models cfg)"
  proof
    fix x assume "x \<in> set (cf_preload cfg)"
    then obtain n where "realModelName c2 n = Some x"
      by (auto simp: st(7) cleanPreload_def List.map_filter_def split: if_splits)
    then show "x \<in> fst ` set (cf_models cfg)"
      using al by (auto simp: realModelName_def st(7) cleanPreload_def split: if_splits dest: map_of_SomeD) (metis fst_conv image_eqI map_of_SomeD)
  qed
  then show ?thesis using s loadModels_ok [OF st(3)] checkKeys_ok [OF st(5)] loadPeers_ok [OF st(6)]
    by (simp add: loadedOk_def st(7) c2 cleanPreload_def)
qed

section \<open>The groups of a loaded configuration\<close>

lemma planGroups_members:
  assumes "planGroups c = Inr c2" and "cf_matrix c = None"
  shows "distinct (memberLists (cf_groups c2)) \<and> cf_groups c2 = cf_groups (addDefaultGroup c)"
  using assms checkGroupUse_distinct by (fastforce simp: planGroups_def Let_def split: sum.splits)

text \<open>
  C13. The groups of a loaded configuration never make the router's group planner fail, and the planner assigns a
  model to exactly the groups that list it. Every configured model has a group, unless the file itself
  defines a group named \<open>(default)\<close>.
\<close>

theorem loaded_groups_planned:
  assumes "loadDecoded env c0 = Inr cfg" and "cf_matrix c0 = None"
  shows "\<exists>p. newGroupPlanner (cf_groups cfg) = Inr p
    \<and> (\<forall>mid g. gp_modelToGroup p mid = Some g \<longleftrightarrow> (\<exists>c. (g, c) \<in> set (cf_groups cfg) \<and> mid \<in> set (gc_members c)))
    \<and> (''(default)'' \<notin> fst ` set (cf_groups c0) \<longrightarrow>
         (\<forall>mid \<in> fst ` set (cf_models cfg). gp_modelToGroup p mid \<noteq> None))"
  using assms(1)
proof (rule loadDecoded_stages)
  fix c1 al ms al' port c2 ps
  assume st: "checkSettings c0 = Inr c1"
    "planGroups (c1\<lparr>cf_models := ms, cf_aliases := al'\<rparr>) = Inr c2" "cfg = (cleanPreload c2)\<lparr>cf_peers := ps\<rparr>"
  let ?c = "c1\<lparr>cf_models := ms, cf_aliases := al'\<rparr>"
  have m: "cf_matrix ?c = None" "cf_groups ?c = cf_groups c0" using checkSettings_frame [OF st(1)] assms(2) by auto
  have c2: "cf_models c2 = ms" using planGroups_frame [OF st(2)] by auto
  have g: "cf_groups cfg = cf_groups (addDefaultGroup ?c)" "cf_models cfg = cf_models ?c"
    using planGroups_members [OF st(2) m(1)] c2 by (simp_all add: st(3) cleanPreload_def)
  have d: "distinct (memberLists (cf_groups cfg))"
    using planGroups_members [OF st(2) m(1)] unfolding g(1) by metis
  obtain p where p: "buildModelToGroup (cf_groups cfg) Map.empty = Inr p"
      "\<forall>x k. p x = Some k \<longleftrightarrow> (\<exists>c. (k, c) \<in> set (cf_groups cfg) \<and> x \<in> set (gc_members c))"
    using buildModelToGroup_ok [OF d, of Map.empty] by auto
  have "p mid \<noteq> None" if "''(default)'' \<notin> fst ` set (cf_groups c0)" and "mid \<in> fst ` set (cf_models cfg)" for mid
  proof -
    have "mid \<in> set (memberLists (cf_groups cfg))"
      using addDefaultGroup_covers [of ?c mid] that m(2) g by (simp add: defaultGroupID_def)
    then obtain k c where "(k, c) \<in> set (cf_groups cfg)" "mid \<in> set (gc_members c)" by (auto simp: memberLists_def)
    then show ?thesis using p(2) by (metis option.simps(3))
  qed
  with p show ?thesis by (auto simp: newGroupPlanner_def)
qed

subsection \<open>Three gaps of the loader\<close>

definition plainModel :: "string \<Rightarrow> load_model" where
  "plainModel cmd =
     \<lparr>lm_cmd = cmd, lm_cmdStop = [], lm_proxy = ''http://127.0.0.1:${PORT}'', lm_aliases = [], lm_checkEndpoint = ''/health'',
      lm_unloadAfter = - 1, lm_backend = [], lm_name = [], lm_description = [], lm_stripParams = [],
      lm_setParamsByID = [], lm_macros = [], lm_metadata = [], lm_sendLoading = None, lm_healthTimeout = 0, lm_maxRequest = 0\<rparr>"

definition demoLoader :: load_env where
  "demoLoader =
     \<lparr>le_clean = Some, le_getenv = Map.empty, le_decode = (\<lambda>c s. Some c),
      le_parseURL = (\<lambda>s. Some \<lparr>gu_host = drop 7 s, gu_others = []\<rparr>), le_urlText = (\<lambda>u. ''http://'' @ gu_host u)\<rparr>"

definition twoModels :: load_config where
  "twoModels = initialConfig\<lparr>cf_models :=
     [(''b'', plainModel ''llama --port ${PORT}''), (''a'', (plainModel ''llama -m ${dir}/a --port ${PORT}'')\<lparr>lm_aliases := [''x'']\<rparr>)],
     cf_macros := [(''dir'', VStr ''/srv'')], cf_startPort := 8\<rparr>"

definition listed :: "string list \<Rightarrow> group_config" where
  "listed ms = \<lparr>gc_swap = True, gc_exclusive = True, gc_persistent = False, gc_members = ms\<rparr>"

definition groupsOf :: "load_error + load_config \<Rightarrow> (string \<times> group_config) list" where
  "groupsOf r = (case r of Inr c \<Rightarrow> cf_groups c | Inl e \<Rightarrow> [])"


definition keyedModels :: load_config where
  "keyedModels = twoModels\<lparr>cf_models :=
     [(''a'', (plainModel ''llama --port ${PORT}'')\<lparr>lm_setParamsByID := [(''hot'', [(''temperature'', VInt 1)])]\<rparr>),
      (''b'', (plainModel ''llama --port ${PORT}'')\<lparr>lm_aliases := [''a'']\<rparr>)]\<rparr>"

definition resolved :: "load_error + load_config \<Rightarrow> string \<Rightarrow> string option" where
  "resolved r s = (case r of Inr c \<Rightarrow> realModelName c s | Inl e \<Rightarrow> None)"

text \<open>
  The key of \<open>setParamsByID\<close> becomes an alias of its model only after the default model was checked, so it
  cannot be the default model; an explicit alias that is the name of another model is accepted and never
  resolves to the model that declares it.
\<close>

theorem alias_check_gaps:
  "resolved (loadDecoded demoLoader keyedModels) ''hot'' = Some ''a''
   \<and> loadDecoded demoLoader (keyedModels\<lparr>cf_defaultModel := ''hot''\<rparr>) = Inl (UnknownDefault ''hot'')
   \<and> resolved (loadDecoded demoLoader keyedModels) ''a'' = Some ''a''"
  by (intro conjI; code_simp)

text \<open>
  The flags an MLX server rejects are removed as tokens of the command, each with the token behind it; the
  remaining tokens keep their order.
\<close>

lemma stripTokens_clean:
  "set (fst (stripTokens ws)) \<inter> set mlxUnsupportedFlags = {} \<and> set (snd (stripTokens ws)) \<subseteq> set mlxUnsupportedFlags"
  by (induction ws rule: stripTokens.induct) (auto split: prod.splits)

lemma strip_unchanged: "set (goFields cmd) \<inter> set mlxUnsupportedFlags = {} \<Longrightarrow> stripMLXUnsupportedFlags cmd = (cmd, [])"
proof -
  have "set ws \<inter> set mlxUnsupportedFlags = {} \<Longrightarrow> stripTokens ws = (ws, [])" for ws
    by (induction ws rule: stripTokens.induct) auto
  then show "set (goFields cmd) \<inter> set mlxUnsupportedFlags = {} \<Longrightarrow> stripMLXUnsupportedFlags cmd = (cmd, [])"
    by (simp add: stripMLXUnsupportedFlags_def)
qed

text \<open>
  Removing a flag joins the lines of a continued command and leaves their backslashes inside; the form with
  \<open>=\<close> is not removed, and neither is a flag that a macro brings in, because macros are substituted later.
\<close>

theorem mlx_strip_gaps:
  "stripMLXUnsupportedFlags (''mlx '' @ [CHR 92, CHR 10] @ ''--model m '' @ [CHR 92, CHR 10] @ ''--ctx-size 4096'')
     = (''mlx '' @ [CHR 92] @ '' --model m '' @ [CHR 92], [''--ctx-size''])
   \<and> stripMLXUnsupportedFlags ''mlx --ctx-size=4096'' = (''mlx --ctx-size=4096'', [])
   \<and> lm_cmd (prepared (twoModels\<lparr>cf_macros := [(''ctx'', VStr ''--ctx-size 4096'')]\<rparr>) ''m''
        ((plainModel ''mlx ${ctx}'')\<lparr>lm_backend := ''mlx''\<rparr>)) = ''mlx --ctx-size 4096''"
  by (intro conjI; code_simp)

section \<open>Witnesses\<close>

definition twoLoaded :: load_config where
  "twoLoaded = projr (loadDecoded demoLoader twoModels)"

lemma two_loads: "loadDecoded demoLoader twoModels = Inr twoLoaded"
proof -
  have "\<not> isl (loadDecoded demoLoader twoModels)" by code_simp
  then show ?thesis by (simp add: twoLoaded_def)
qed

lemma two_names: "distinct (map fst (cf_models twoModels))"
  by code_simp

theorem ports_assigned_witness:
  "lm_cmd (the (map_of (cf_models twoLoaded) ''a'')) =
     replaceAll ''llama -m /srv/a --port ${PORT}'' ''${PORT}'' (itoa (portFor twoLoaded (cf_models twoModels) ''a''))"
proof -
  let ?m = "(plainModel ''llama -m ${dir}/a --port ${PORT}'')\<lparr>lm_aliases := [''x'']\<rparr>"
  have m: "(''a'', ?m) \<in> set (cf_models twoModels)" by (simp add: twoModels_def)
  have "lm_cmd (prepared twoLoaded ''a'' ?m) = ''llama -m /srv/a --port ${PORT}''" by code_simp
  moreover have "contains ''llama -m /srv/a --port ${PORT}'' ''${PORT}''" by code_simp
  ultimately show ?thesis using ports_assigned [OF two_loads two_names m] by (auto simp: Let_def)
qed

theorem alias_map_exact_witness: "map_of (cf_aliases twoLoaded) ''x'' = Some ''a''"
proof -
  have "map_of (cf_models twoLoaded) ''a'' \<noteq> None" and "''x'' \<in> set (lm_aliases (the (map_of (cf_models twoLoaded) ''a'')))"
    by code_simp+
  then show ?thesis using alias_map_exact [OF two_loads two_names, of "''x''" "''a''"] by auto
qed

theorem loaded_config_wellformed_witness: "loadedOk twoLoaded"
  by (rule loaded_config_wellformed [OF two_loads two_names])

theorem loaded_groups_planned_witness:
  "\<exists>p. newGroupPlanner (cf_groups twoLoaded) = Inr p \<and> gp_modelToGroup p ''a'' \<noteq> None"
proof -
  have "cf_matrix twoModels = None" and "''(default)'' \<notin> fst ` set (cf_groups twoModels)"
    by (simp_all add: twoModels_def initialConfig_def)
  moreover have "''a'' \<in> fst ` set (cf_models twoLoaded)" by code_simp
  ultimately show ?thesis using loaded_groups_planned [OF two_loads] by blast
qed

end
