(* ===== verification/Config_History.thy ===== *)
theory Config_History
  imports Go_Text
begin

text \<open>
  The archive of replaced configurations (\<open>internal/config/history.go\<close>): snapshots, their unique names, the
  listing, retention, rollback and the migration of old backup files.

  The directory is the list of its \<open>.yaml\<close> files in the order of their names (name without the suffix,
  content, modification time) and the map of its \<open>.json\<close> files. Times are nanoseconds since the epoch.
  \<open>hist_env\<close> holds what one call meets outside: the clock, the text of a time, JSON, and the success of every
  file operation; a failed write may leave a part of the content. Entries of equal time keep the order of
  the directory, which is one of the orders \<open>sort.Slice\<close> may leave. The search for a free name runs on fuel,
  one unit per file and one more, which is enough because it tries different names.
\<close>

record hist_conf =
  hc_keep :: "int option"
  hc_maxAge :: "int option"

record hist_entry =
  he_id :: string
  he_time :: int
  he_actor :: string
  he_summary :: string

record hist_dir =
  hd_yaml :: "(string \<times> string \<times> int) list"
  hd_json :: "string \<rightharpoonup> string"

record hist_env =
  hx_now :: int
  hx_stamp :: "int \<Rightarrow> string"
  hx_enc :: "hist_entry \<Rightarrow> string"
  hx_dec :: "string \<Rightarrow> hist_entry option"
  hx_mkdir :: bool
  hx_readDir :: bool
  hx_stat :: "string \<Rightarrow> bool"
  hx_info :: "string \<Rightarrow> bool"
  hx_readMeta :: "string \<Rightarrow> bool"
  hx_writeYaml :: "string \<Rightarrow> bool"
  hx_writeJson :: "string \<Rightarrow> bool"
  hx_torn :: "string \<Rightarrow> string option"
  hx_removeYaml :: "string \<Rightarrow> bool"
  hx_removeJson :: "string \<Rightarrow> bool"
  hx_readSnap :: bool
  hx_writeConfig :: bool

datatype hist_error =
    MkdirFailed | StatFailed | WriteSnapshotFailed | WriteMetaFailed | ReadDirFailed | PruneFailed
  | HistoryNotFound | ReadSnapshotFailed | RestoreFailed | IdFuel

definition keepOf :: "hist_conf \<Rightarrow> int" where
  "keepOf h = (case hc_keep h of None \<Rightarrow> 20 | Some k \<Rightarrow> k)"

definition maxAgeOf :: "hist_conf \<Rightarrow> int" where
  "maxAgeOf h = (case hc_maxAge h of None \<Rightarrow> 30 | Some d \<Rightarrow> d)"

definition historyHardCap :: nat where
  "historyHardCap = 200"

text \<open>Go's zero time, the first of January of year one.\<close>

definition zeroTime :: int where
  "zeroTime = - 62135596800000000000"

definition dayNs :: int where
  "dayNs = 86400000000000"

section \<open>Files\<close>

text \<open>Writing a file of the directory: the list stays in the order of the names.\<close>

fun putYaml :: "string \<Rightarrow> string \<Rightarrow> int \<Rightarrow> (string \<times> string \<times> int) list \<Rightarrow> (string \<times> string \<times> int) list" where
  "putYaml k data t [] = [(k, data, t)]"
| "putYaml k data t ((k', x) # ys) =
     (if k = k' then (k, data, t) # ys
      else if k < k' then (k, data, t) # (k', x) # ys
      else (k', x) # putYaml k data t ys)"

definition hasYaml :: "hist_dir \<Rightarrow> string \<Rightarrow> bool" where
  "hasYaml d k = (k \<in> fst ` set (hd_yaml d))"

definition storeYaml :: "string \<Rightarrow> string \<Rightarrow> int \<Rightarrow> hist_dir \<Rightarrow> hist_dir" where
  "storeYaml k data t d = d\<lparr>hd_yaml := putYaml k data t (hd_yaml d)\<rparr>"

text \<open>\<open>os.WriteFile\<close> of a snapshot and of its metadata.\<close>

definition writeYaml :: "hist_env \<Rightarrow> string \<Rightarrow> string \<Rightarrow> hist_dir \<Rightarrow> bool \<times> hist_dir" where
  "writeYaml env k data d =
     (if hx_writeYaml env k then (True, storeYaml k data (hx_now env) d)
      else (False, case hx_torn env k of None \<Rightarrow> d | Some part \<Rightarrow> storeYaml k part (hx_now env) d))"

definition writeJson :: "hist_env \<Rightarrow> string \<Rightarrow> string \<Rightarrow> hist_dir \<Rightarrow> bool \<times> hist_dir" where
  "writeJson env k data d =
     (if hx_writeJson env k then (True, d\<lparr>hd_json := (hd_json d)(k \<mapsto> data)\<rparr>)
      else (False, case hx_torn env k of None \<Rightarrow> d | Some part \<Rightarrow> d\<lparr>hd_json := (hd_json d)(k \<mapsto> part)\<rparr>))"

section \<open>Listing\<close>

definition entryOf :: "hist_env \<Rightarrow> hist_dir \<Rightarrow> string \<times> string \<times> int \<Rightarrow> hist_entry" where
  "entryOf env d y =
     (let k = fst y; e0 = \<lparr>he_id = k, he_time = zeroTime, he_actor = [], he_summary = []\<rparr>;
          e1 = (case hd_json d k of
                  None \<Rightarrow> e0
                | Some txt \<Rightarrow>
                    if \<not> hx_readMeta env k then e0
                    else (case hx_dec env txt of None \<Rightarrow> e0 | Some e \<Rightarrow> e\<lparr>he_id := k\<rparr>))
      in if he_time e1 = zeroTime \<and> hx_info env k then e1\<lparr>he_time := snd (snd y)\<rparr> else e1)"

text \<open>\<open>listHistoryFiles\<close>: newest first.\<close>

definition listHistoryFiles :: "hist_env \<Rightarrow> hist_dir \<Rightarrow> hist_error + hist_entry list" where
  "listHistoryFiles env d =
     (if \<not> hx_readDir env then Inl ReadDirFailed
      else Inr (sort_key (\<lambda>e. - he_time e) (map (entryOf env d) (hd_yaml d))))"

section \<open>Retention\<close>

definition removeHistoryFile :: "hist_env \<Rightarrow> string \<Rightarrow> hist_dir \<Rightarrow> bool \<times> hist_dir" where
  "removeHistoryFile env k d =
     (if hasYaml d k \<and> \<not> hx_removeYaml env k then (False, d)
      else let d1 = d\<lparr>hd_yaml := filter (\<lambda>y. fst y \<noteq> k) (hd_yaml d)\<rparr> in
        if hd_json d k \<noteq> None \<and> \<not> hx_removeJson env k then (False, d1)
        else (True, d1\<lparr>hd_json := (hd_json d1)(k := None)\<rparr>))"

text \<open>The loop of \<open>pruneHistory\<close>, with the index and the number of files kept so far.\<close>

fun pruneFiles :: "hist_env \<Rightarrow> (nat \<Rightarrow> hist_entry \<Rightarrow> bool) \<Rightarrow> nat \<Rightarrow> nat \<Rightarrow> hist_entry list \<Rightarrow> hist_dir \<Rightarrow> hist_error option \<times> hist_dir" where
  "pruneFiles env wanted i retained [] d = (None, d)"
| "pruneFiles env wanted i retained (e # es) d =
     (if retained < historyHardCap \<and> wanted i e then pruneFiles env wanted (Suc i) (Suc retained) es d
      else case removeHistoryFile env (he_id e) d of
             (ok, d') \<Rightarrow> if ok then pruneFiles env wanted (Suc i) retained es d' else (Some PruneFailed, d'))"

definition young :: "hist_env \<Rightarrow> hist_conf \<Rightarrow> hist_entry \<Rightarrow> bool" where
  "young env h e = (maxAgeOf h > 0 \<and> he_time e > hx_now env - maxAgeOf h * dayNs)"

definition wantedBy :: "hist_env \<Rightarrow> hist_conf \<Rightarrow> nat \<Rightarrow> hist_entry \<Rightarrow> bool" where
  "wantedBy env h i e = (int i < keepOf h \<or> young env h e)"

definition pruneHistory :: "hist_env \<Rightarrow> hist_conf \<Rightarrow> hist_dir \<Rightarrow> hist_error option \<times> hist_dir" where
  "pruneHistory env h d =
     (case listHistoryFiles env d of
        Inl e \<Rightarrow> (Some e, d)
      | Inr es \<Rightarrow> pruneFiles env (wantedBy env h) 0 0 es d)"

section \<open>Snapshots\<close>

text \<open>The candidate names: the time, then the time with a counter.\<close>

definition idCandidate :: "string \<Rightarrow> nat \<Rightarrow> string" where
  "idCandidate stamp i = (if i = 0 then stamp else stamp @ ''-'' @ itoa (int i))"

fun findID :: "nat \<Rightarrow> hist_env \<Rightarrow> hist_dir \<Rightarrow> string \<Rightarrow> nat \<Rightarrow> hist_error + string" where
  "findID 0 env d stamp i = Inl IdFuel"
| "findID (Suc n) env d stamp i =
     (let k = idCandidate stamp i in
      if \<not> hx_stat env k then Inl StatFailed
      else if \<not> hasYaml d k then Inr k
      else findID n env d stamp (Suc i))"

definition uniqueSnapshotID :: "hist_env \<Rightarrow> hist_dir \<Rightarrow> int \<Rightarrow> hist_error + string" where
  "uniqueSnapshotID env d t = findID (length (hd_yaml d) + 1) env d (hx_stamp env t) 0"

definition snapshotConfig :: "hist_env \<Rightarrow> hist_conf \<Rightarrow> string \<Rightarrow> string \<Rightarrow> string \<Rightarrow> hist_dir \<Rightarrow> hist_error option \<times> hist_dir" where
  "snapshotConfig env h actor summary data d =
     (if keepOf h = 0 \<or> data = [] then (None, d)
      else if \<not> hx_mkdir env then (Some MkdirFailed, d)
      else case uniqueSnapshotID env d (hx_now env) of
        Inl e \<Rightarrow> (Some e, d)
      | Inr k \<Rightarrow>
          (case writeYaml env k data d of
             (ok1, d1) \<Rightarrow>
               if \<not> ok1 then (Some WriteSnapshotFailed, d1)
               else let e = \<lparr>he_id = k, he_time = hx_now env, he_actor = actor, he_summary = summary\<rparr> in
                 (case writeJson env k (hx_enc env e) d1 of
                    (ok2, d2) \<Rightarrow> if \<not> ok2 then (Some WriteMetaFailed, d2) else pruneHistory env h d2)))"

text \<open>\<open>RollbackConfig\<close>: the reference is compared with the listed names and never part of a path.\<close>

definition rollbackConfig :: "hist_env \<Rightarrow> string \<Rightarrow> hist_dir \<Rightarrow> string \<Rightarrow> hist_error option \<times> string" where
  "rollbackConfig env ref d conf =
     (case listHistoryFiles env d of
        Inl e \<Rightarrow> (Some e, conf)
      | Inr es \<Rightarrow>
          if ref \<notin> set (map he_id es) then (Some HistoryNotFound, conf)
          else case map_of (hd_yaml d) ref of
            None \<Rightarrow> (Some ReadSnapshotFailed, conf)
          | Some (data, t) \<Rightarrow>
              if \<not> hx_readSnap env then (Some ReadSnapshotFailed, conf)
              else if \<not> hx_writeConfig env then (Some RestoreFailed, conf)
              else (None, data))"

section \<open>Migration of old backups\<close>

text \<open>A file beside the configuration: its content when it can be read, and its modification time.\<close>

record old_file =
  of_name :: string
  of_dir :: bool
  of_data :: "string option"
  of_mod :: "int option"
  of_removable :: bool

definition isBackup :: "string \<Rightarrow> old_file \<Rightarrow> bool" where
  "isBackup base f = (\<not> of_dir f \<and> of_name f \<noteq> base \<and> hasPrefix (of_name f) (base @ ''.bak''))"

definition legacyEntry :: "old_file \<Rightarrow> string \<Rightarrow> int \<Rightarrow> hist_entry" where
  "legacyEntry f k t = \<lparr>he_id = k, he_time = t, he_actor = ''legacy-bak'', he_summary = ''migrated from '' @ of_name f\<rparr>"

text \<open>The loop: the files that stay beside the configuration, the number migrated, the directory.\<close>

fun migrateFiles :: "hist_env \<Rightarrow> string \<Rightarrow> old_file list \<Rightarrow> nat \<Rightarrow> hist_dir \<Rightarrow> hist_error option \<times> old_file list \<times> nat \<times> hist_dir" where
  "migrateFiles env base [] n d = (None, [], n, d)"
| "migrateFiles env base (f # fs) n d =
     (case (isBackup base f, of_data f, of_mod f) of
        (True, Some data, Some t) \<Rightarrow>
          if \<not> hx_mkdir env then (Some MkdirFailed, f # fs, n, d)
          else (case uniqueSnapshotID env d t of
             Inl e \<Rightarrow> (Some e, f # fs, n, d)
           | Inr k \<Rightarrow>
               (case writeYaml env k data d of
                  (ok, d1) \<Rightarrow>
                    if \<not> ok then (case migrateFiles env base fs n d1 of (e, rest, m, d') \<Rightarrow> (e, f # rest, m, d'))
                    else let d2 = snd (writeJson env k (hx_enc env (legacyEntry f k t)) d1) in
                      (case migrateFiles env base fs (Suc n) d2 of
                         (e, rest, m, d') \<Rightarrow> (e, if of_removable f then rest else f # rest, m, d'))))
      | _ \<Rightarrow> (case migrateFiles env base fs n d of (e, rest, m, d') \<Rightarrow> (e, f # rest, m, d')))"

definition migrateLegacyBackups :: "hist_env \<Rightarrow> hist_conf \<Rightarrow> string \<Rightarrow> old_file list \<Rightarrow> hist_dir \<Rightarrow> hist_error option \<times> old_file list \<times> nat \<times> hist_dir" where
  "migrateLegacyBackups env h base fs d =
     (case migrateFiles env base fs 0 d of
        (Some e, rest, n, d1) \<Rightarrow> (Some e, rest, n, d1)
      | (None, rest, n, d1) \<Rightarrow>
          if n = 0 then (None, rest, n, d1)
          else (case pruneHistory env h d1 of (e, d2) \<Rightarrow> (e, rest, n, d2)))"

section \<open>Names\<close>

lemma natText_inject: "natText a = natText b \<Longrightarrow> a = b"
  using natText_decimal by (metis of_nat_eq_iff)

lemma idCandidate_inj: "inj (idCandidate stamp)"
proof (rule injI)
  fix i j
  assume "idCandidate stamp i = idCandidate stamp j"
  then show "i = j" by (auto simp: idCandidate_def itoa_def split: if_splits dest: natText_inject)
qed

lemma findID_fuel: "findID n env d stamp i = Inl IdFuel \<Longrightarrow> j < n \<Longrightarrow> hasYaml d (idCandidate stamp (i + j))"
proof (induction n env d stamp i arbitrary: j rule: findID.induct)
  case (2 n env d stamp i)
  then show ?case by (cases j) (auto simp: Let_def split: if_splits)
qed simp

lemma findID_fresh: "findID n env d stamp i = Inr k \<Longrightarrow> \<not> hasYaml d k"
  by (induction n env d stamp i rule: findID.induct) (auto simp: Let_def split: if_splits)

lemma uniqueSnapshotID_fuel: "uniqueSnapshotID env d t \<noteq> Inl IdFuel"
proof
  assume "uniqueSnapshotID env d t = Inl IdFuel"
  then have "idCandidate (hx_stamp env t) ` {..<length (hd_yaml d) + 1} \<subseteq> fst ` set (hd_yaml d)"
    using findID_fuel [of "length (hd_yaml d) + 1" env d "hx_stamp env t" 0]
    by (auto simp: uniqueSnapshotID_def hasYaml_def simp del: findID.simps)
  then have "card (idCandidate (hx_stamp env t) ` {..<length (hd_yaml d) + 1}) \<le> card (fst ` set (hd_yaml d))"
    by (intro card_mono) auto
  moreover have "card (idCandidate (hx_stamp env t) ` {..<length (hd_yaml d) + 1}) = length (hd_yaml d) + 1"
    using idCandidate_inj by (subst card_image) (auto intro: inj_on_subset)
  moreover have "card (fst ` set (hd_yaml d)) \<le> length (hd_yaml d)"
    by (metis card_length length_map set_map)
  ultimately show False by simp
qed

lemma findID_stat: "(\<And>k. hx_stat env k) \<Longrightarrow> findID n env d stamp i = Inl e \<Longrightarrow> e = IdFuel"
  by (induction n env d stamp i rule: findID.induct) (auto simp: Let_def split: if_splits)

lemma uniqueSnapshotID_found:
  assumes "\<And>k. hx_stat env k"
  shows "\<exists>k. uniqueSnapshotID env d t = Inr k"
proof (cases "uniqueSnapshotID env d t")
  case (Inl e)
  then have "e = IdFuel" using findID_stat [OF assms] unfolding uniqueSnapshotID_def by blast
  then show ?thesis using Inl uniqueSnapshotID_fuel by blast
qed simp

lemma uniqueSnapshotID_fresh: "uniqueSnapshotID env d t = Inr k \<Longrightarrow> \<not> hasYaml d k"
  unfolding uniqueSnapshotID_def by (rule findID_fresh)

section \<open>Retention\<close>

lemma entryOf_id [simp]: "he_id (entryOf env d y) = fst y"
  by (auto simp: entryOf_def Let_def split: option.splits)

lemma listing_ids: "listHistoryFiles env d = Inr es \<Longrightarrow> he_id ` set es = fst ` set (hd_yaml d)"
proof -
  assume "listHistoryFiles env d = Inr es"
  then have "set es = entryOf env d ` set (hd_yaml d)" by (auto simp: listHistoryFiles_def split: if_splits)
  then show ?thesis by (simp add: image_image)
qed

text \<open>The names the loop of \<open>pruneFiles\<close> does not keep.\<close>

fun droppedIds :: "(nat \<Rightarrow> hist_entry \<Rightarrow> bool) \<Rightarrow> nat \<Rightarrow> nat \<Rightarrow> hist_entry list \<Rightarrow> string list" where
  "droppedIds wanted i retained [] = []"
| "droppedIds wanted i retained (e # es) =
     (if retained < historyHardCap \<and> wanted i e then droppedIds wanted (Suc i) (Suc retained) es
      else he_id e # droppedIds wanted (Suc i) retained es)"

definition removable :: "hist_env \<Rightarrow> bool" where
  "removable env = ((\<forall>k. hx_removeYaml env k) \<and> (\<forall>k. hx_removeJson env k))"

definition without :: "string list \<Rightarrow> hist_dir \<Rightarrow> hist_dir" where
  "without ks d = d\<lparr>hd_yaml := filter (\<lambda>y. fst y \<notin> set ks) (hd_yaml d), hd_json := (\<lambda>k. if k \<in> set ks then None else hd_json d k)\<rparr>"

lemma without_Nil [simp]: "without [] d = d"
  by (simp add: without_def)

lemma without_Cons: "without ks (without [k] d) = without (k # ks) d"
  by (auto simp: without_def fun_eq_iff intro: filter_cong)

lemma remove_without: "removable env \<Longrightarrow> removeHistoryFile env k d = (True, without [k] d)"
  by (auto simp: removable_def removeHistoryFile_def without_def Let_def fun_eq_iff)

lemma pruneFiles_without:
  "removable env \<Longrightarrow> pruneFiles env wanted i r es d = (None, without (droppedIds wanted i r es) d)"
  by (induction env wanted i r es d rule: pruneFiles.induct)
    (simp_all add: remove_without without_Cons)

lemma droppedIds_all:
  "(historyHardCap \<le> r \<or> (\<forall>j < length es. \<not> wanted (i + j) (es ! j))) \<Longrightarrow> droppedIds wanted i r es = map he_id es"
proof (induction wanted i r es rule: droppedIds.induct)
  case (2 wanted i r e es)
  have d: "\<not> (r < historyHardCap \<and> wanted i e)" using 2(3) by force
  have "historyHardCap \<le> r \<or> (\<forall>j < length es. \<not> wanted (Suc i + j) (es ! j))"
    using 2(3) by force
  then show ?case unfolding droppedIds.simps if_not_P [OF d] using 2(2) [OF d] by simp
qed simp

lemma droppedIds_drop:
  assumes "i \<le> m" and "m \<le> historyHardCap" and "\<And>j. j < length es \<Longrightarrow> i + j < m \<Longrightarrow> wanted (i + j) (es ! j)"
    and "historyHardCap \<le> m \<or> (\<forall>j < length es. m \<le> i + j \<longrightarrow> \<not> wanted (i + j) (es ! j))"
  shows "droppedIds wanted i i es = map he_id (drop (m - i) es)"
  using assms
proof (induction es arbitrary: i)
  case (Cons e es)
  show ?case
  proof (cases "i = m")
    case True
    then show ?thesis using droppedIds_all [of i "e # es" wanted i] Cons.prems(4) by force
  next
    case False
    then have w: "wanted i e" and c: "i < historyHardCap" using Cons.prems(1-2) Cons.prems(3) [of 0] by auto
    have "droppedIds wanted (Suc i) (Suc i) es = map he_id (drop (m - Suc i) es)"
    proof (rule Cons.IH)
      show "Suc i \<le> m" "m \<le> historyHardCap" using False Cons.prems(1,2) by simp_all
      show "wanted (Suc i + j) (es ! j)" if "j < length es" "Suc i + j < m" for j
        using Cons.prems(3) [of "Suc j"] that by simp
      show "historyHardCap \<le> m \<or> (\<forall>j < length es. m \<le> Suc i + j \<longrightarrow> \<not> wanted (Suc i + j) (es ! j))"
        using Cons.prems(4) by force
    qed
    moreover have "m - i = Suc (m - Suc i)" using False Cons.prems(1) by simp
    ultimately show ?thesis using w c by simp
  qed
qed simp

text \<open>In a listing the young entries come first.\<close>

lemma young_prefix:
  assumes "sorted (map (\<lambda>e. - he_time e) es)" and "j < length es"
  shows "young env h (es ! j) \<longleftrightarrow> j < length (filter (young env h) es)"
  using assms
proof (induction es arbitrary: j)
  case (Cons e es)
  show ?case
  proof (cases "young env h e")
    case True
    then show ?thesis using Cons by (cases j) auto
  next
    case False
    have "\<not> young env h x" if "x \<in> set es" for x
      using False Cons.prems(1) that by (fastforce simp: young_def)
    then have "filter (young env h) (e # es) = []" using False by (simp add: filter_empty_conv)
    moreover have "\<not> young env h ((e # es) ! j)"
      using False \<open>\<And>x. x \<in> set es \<Longrightarrow> \<not> young env h x\<close> Cons.prems(2) by (cases j) auto
    ultimately show ?thesis by simp
  qed
qed simp

definition retention :: "hist_env \<Rightarrow> hist_conf \<Rightarrow> hist_entry list \<Rightarrow> nat" where
  "retention env h es = min historyHardCap (max (nat (keepOf h)) (length (filter (young env h) es)))"

lemma droppedIds_listing:
  assumes "listHistoryFiles env d = Inr es"
  shows "droppedIds (wantedBy env h) 0 0 es = map he_id (drop (retention env h es) es)"
proof -
  have s: "sorted (map (\<lambda>e. - he_time e) es)"
    using assms by (auto simp: listHistoryFiles_def sorted_sort_key split: if_splits)
  have w: "wantedBy env h j (es ! j) \<longleftrightarrow> j < max (nat (keepOf h)) (length (filter (young env h) es))"
    if "j < length es" for j
    using young_prefix [OF s that, of env h] by (auto simp: wantedBy_def)
  have "droppedIds (wantedBy env h) 0 0 es = map he_id (drop (retention env h es - 0) es)"
    using w by (intro droppedIds_drop) (auto simp: retention_def)
  then show ?thesis by simp
qed

text \<open>
  Pruning keeps the newest snapshots of the listing, as many as the larger of \<open>keep\<close> and the number of young
  ones, but never more than the cap; what it keeps is unchanged, and it removes nothing else.
\<close>

theorem prune_keeps_newest_snapshots:
  assumes "listHistoryFiles env d = Inr es" and "removable env"
  shows "pruneHistory env h d = (None, without (map he_id (drop (retention env h es) es)) d)
    \<and> sorted_wrt (\<lambda>a b. he_time a \<ge> he_time b) es \<and> mset (map he_id es) = mset (map fst (hd_yaml d))"
proof (intro conjI)
  show "pruneHistory env h d = (None, without (map he_id (drop (retention env h es) es)) d)"
    using assms pruneFiles_without [OF assms(2)] droppedIds_listing [OF assms(1)] by (simp add: pruneHistory_def)
  have es: "es = sort_key (\<lambda>e. - he_time e) (map (entryOf env d) (hd_yaml d))"
    using assms(1) by (simp add: listHistoryFiles_def split: if_splits)
  have "sorted (map (\<lambda>e. - he_time e) es)" by (simp add: es)
  then show "sorted_wrt (\<lambda>a b. he_time a \<ge> he_time b) es" by (simp add: sorted_map)
  have "mset (map he_id es) = image_mset he_id (mset (map (entryOf env d) (hd_yaml d)))" by (simp add: es)
  also have "\<dots> = mset (map fst (hd_yaml d))" by (simp add: multiset.map_comp comp_def)
  finally show "mset (map he_id es) = mset (map fst (hd_yaml d))" .
qed

section \<open>Snapshot and rollback\<close>

lemma map_of_putYaml: "map_of (putYaml k data t ys) = (map_of ys)(k \<mapsto> (data, t))"
  by (induction ys) (auto simp: fun_eq_iff)

lemma mset_putYaml_fresh:
  "k \<notin> fst ` set ys \<Longrightarrow> mset (putYaml k data t ys) = add_mset (k, data, t) (mset ys)"
  by (induction ys) auto

lemma set_putYaml_fresh:
  "k \<notin> fst ` set ys \<Longrightarrow> set (putYaml k data t ys) = insert (k, data, t) (set ys)"
  using mset_putYaml_fresh [of k ys data t] by (metis set_mset_add_mset_insert set_mset_mset)

lemma removed_keeps:
  "removeHistoryFile env j d = (ok, d') \<Longrightarrow> j \<noteq> k \<Longrightarrow> map_of (hd_yaml d') k = map_of (hd_yaml d) k"
proof -
  have "map_of (filter (\<lambda>y. fst y \<noteq> j) ys) k = map_of ys k" if "j \<noteq> k" for ys :: "(string \<times> string \<times> int) list"
    using that by (induction ys) auto
  then show "removeHistoryFile env j d = (ok, d') \<Longrightarrow> j \<noteq> k \<Longrightarrow> map_of (hd_yaml d') k = map_of (hd_yaml d) k"
    by (auto simp: removeHistoryFile_def Let_def split: if_splits)
qed

lemma removed_sub:
  "removeHistoryFile env j d = (ok, d') \<Longrightarrow> map_of (hd_yaml d') k \<in> {None, map_of (hd_yaml d) k}"
proof -
  have "map_of (filter (\<lambda>y. fst y \<noteq> j) ys) j = None" for ys :: "(string \<times> string \<times> int) list"
    by (induction ys) auto
  then show "removeHistoryFile env j d = (ok, d') \<Longrightarrow> map_of (hd_yaml d') k \<in> {None, map_of (hd_yaml d) k}"
    using removed_keeps [of env j d ok d' k] by (cases "j = k") (auto simp: removeHistoryFile_def Let_def split: if_splits)
qed

lemma pruneFiles_keeps:
  "pruneFiles env wanted i r es d = (e, d') \<Longrightarrow> k \<notin> he_id ` set es \<Longrightarrow> map_of (hd_yaml d') k = map_of (hd_yaml d) k"
proof (induction env wanted i r es d rule: pruneFiles.induct)
  case (2 env wanted i r x es d)
  show ?case
  proof (cases "r < historyHardCap \<and> wanted i x")
    case True
    then show ?thesis using 2 by simp
  next
    case False
    obtain ok d1 where r: "removeHistoryFile env (he_id x) d = (ok, d1)" by fastforce
    have "map_of (hd_yaml d1) k = map_of (hd_yaml d) k" using removed_keeps [OF r] 2(4) by auto
    moreover have "map_of (hd_yaml d') k = map_of (hd_yaml d1) k"
    proof (cases ok)
      case True
      then have "pruneFiles env wanted (Suc i) r es d1 = (e, d')" using 2(3) False r by auto
      then show ?thesis using 2(2) [OF False r [symmetric] True] 2(4) by simp
    next
      case notOk: False
      then show ?thesis using 2(3) False r by auto
    qed
    ultimately show ?thesis by simp
  qed
qed simp

lemma pruneFiles_sub:
  "pruneFiles env wanted i r es d = (e, d') \<Longrightarrow> map_of (hd_yaml d') k \<in> {None, map_of (hd_yaml d) k}"
proof (induction env wanted i r es d rule: pruneFiles.induct)
  case (2 env wanted i r x es d)
  show ?case
  proof (cases "r < historyHardCap \<and> wanted i x")
    case True
    then show ?thesis using 2 by simp
  next
    case False
    obtain ok d1 where r: "removeHistoryFile env (he_id x) d = (ok, d1)" by fastforce
    show ?thesis
    proof (cases ok)
      case True
      then have "pruneFiles env wanted (Suc i) r es d1 = (e, d')" using 2(3) False r by auto
      then show ?thesis using 2(2) [OF False r [symmetric] True] removed_sub [OF r, of k] by auto
    next
      case notOk: False
      then show ?thesis using 2(3) False r removed_sub [OF r, of k] by auto
    qed
  qed
qed simp

lemma sort_key_first:
  fixes f :: "'a \<Rightarrow> 'b :: linorder"
  assumes "x \<in> set xs" and "\<And>y. y \<in> set xs \<Longrightarrow> y \<noteq> x \<Longrightarrow> f x < f y"
  obtains rest where "sort_key f xs = x # rest"
proof (cases "sort_key f xs")
  case Nil
  then have "set (sort_key f xs) = {}" by simp
  then show ?thesis using assms(1) by simp
next
  case (Cons y ys)
  have mem: "set (sort_key f xs) = set xs" by simp
  have "y = x"
  proof (rule ccontr)
    assume ne: "y \<noteq> x"
    have "y \<in> set xs" using mem Cons by auto
    then have "f x < f y" using assms(2) ne by blast
    moreover have "x \<in> set ys" using mem Cons assms(1) ne by auto
    moreover have "sorted (map f (y # ys))" using sorted_sort_key [of f xs] Cons by simp
    ultimately show False by auto
  qed
  then show ?thesis using that Cons by blast
qed

text \<open>JSON keeps the time of an entry.\<close>

definition jsonKeepsTime :: "hist_env \<Rightarrow> bool" where
  "jsonKeepsTime env = (\<forall>e. map_option he_time (hx_dec env (hx_enc env e)) = Some (he_time e))"

lemma snapshotConfig_stages:
  assumes "snapshotConfig env h actor summary data d = (None, d')" and "keepOf h \<noteq> 0" and "data \<noteq> []"
  obtains k d2 where "\<not> hasYaml d k"
    and "d2 = storeYaml k data (hx_now env) d\<lparr>hd_json := (hd_json d)(k \<mapsto> hx_enc env \<lparr>he_id = k, he_time = hx_now env, he_actor = actor, he_summary = summary\<rparr>)\<rparr>"
    and "pruneHistory env h d2 = (None, d')"
proof -
  from assms obtain k where k: "uniqueSnapshotID env d (hx_now env) = Inr k"
    by (auto simp: snapshotConfig_def split: if_splits sum.splits)
  have "hx_mkdir env" "hx_writeYaml env k" "hx_writeJson env k"
    using assms k by (auto simp: snapshotConfig_def writeYaml_def writeJson_def Let_def split: if_splits prod.splits)
  then have "pruneHistory env h (storeYaml k data (hx_now env) d\<lparr>hd_json := (hd_json d)(k \<mapsto> hx_enc env \<lparr>he_id = k, he_time = hx_now env, he_actor = actor, he_summary = summary\<rparr>)\<rparr>) = (None, d')"
    using assms k by (simp add: snapshotConfig_def writeYaml_def writeJson_def Let_def storeYaml_def)
  with that uniqueSnapshotID_fresh [OF k] show thesis by blast
qed

lemma snapshot_rollback:
  assumes "snapshotConfig env h actor summary data d = (None, d')" and "1 \<le> keepOf h" and "data \<noteq> []"
    and "listHistoryFiles env d = Inr es" and "\<And>e. e \<in> set es \<Longrightarrow> he_time e < hx_now env"
    and "zeroTime < hx_now env" and "jsonKeepsTime env" and "\<And>k. hx_readMeta env k"
    and "hx_readDir env2" and "hx_readSnap env2" and "hx_writeConfig env2"
  shows "\<exists>k. \<not> hasYaml d k \<and> rollbackConfig env2 k d' conf = (None, data)
    \<and> (\<forall>j. j \<noteq> k \<longrightarrow> map_of (hd_yaml d') j \<in> {None, map_of (hd_yaml d) j})"
proof -
  have nz: "keepOf h \<noteq> 0" using assms(2) by simp
  obtain k d2 where k: "\<not> hasYaml d k"
    and d2: "d2 = storeYaml k data (hx_now env) d\<lparr>hd_json := (hd_json d)(k \<mapsto> hx_enc env \<lparr>he_id = k, he_time = hx_now env, he_actor = actor, he_summary = summary\<rparr>)\<rparr>"
    and p: "pruneHistory env h d2 = (None, d')"
    by (rule snapshotConfig_stages [OF assms(1) nz assms(3)])
  let ?y = "(k, data, hx_now env)"
  have fresh: "k \<notin> fst ` set (hd_yaml d)" using k by (simp add: hasYaml_def)
  have ys: "set (hd_yaml d2) = insert ?y (set (hd_yaml d))"
    using set_putYaml_fresh [OF fresh] by (simp add: d2 storeYaml_def)
  have new: "he_time (entryOf env d2 ?y) = hx_now env"
  proof -
    obtain e where "hx_dec env (hx_enc env \<lparr>he_id = k, he_time = hx_now env, he_actor = actor, he_summary = summary\<rparr>) = Some e"
        "he_time e = hx_now env"
      using assms(7) unfolding jsonKeepsTime_def
      by (metis (no_types, lifting) hist_entry.select_convs(2) map_option_eq_Some)
    then show ?thesis using assms(6,8) by (simp add: entryOf_def d2 storeYaml_def Let_def)
  qed
  have same: "entryOf env d2 y = entryOf env d y" if "y \<in> set (hd_yaml d)" for y
  proof -
    have "fst y \<noteq> k" using that fresh by auto
    then show ?thesis by (simp add: entryOf_def d2 storeYaml_def)
  qed
  have old: "he_time (entryOf env d y) < hx_now env" if "y \<in> set (hd_yaml d)" for y
    using assms(4,5) that by (auto simp: listHistoryFiles_def split: if_splits)
  let ?xs = "map (entryOf env d2) (hd_yaml d2)"
  have first: "- he_time (entryOf env d2 ?y) < - he_time e" if e: "e \<in> set ?xs" "e \<noteq> entryOf env d2 ?y" for e
  proof -
    obtain y where y: "y \<in> set (hd_yaml d)" "e = entryOf env d2 y" using e ys by auto
    then have "he_time e < hx_now env" using same [OF y(1)] old [OF y(1)] by simp
    then show ?thesis using new by simp
  qed
  have "entryOf env d2 ?y \<in> set ?xs" using ys by simp
  then obtain rest where rest: "sort_key (\<lambda>e. - he_time e) ?xs = entryOf env d2 ?y # rest"
    using sort_key_first [of "entryOf env d2 ?y" ?xs "\<lambda>e. - he_time e"] first by blast
  have rd: "hx_readDir env" using assms(4) by (simp add: listHistoryFiles_def split: if_splits)
  have pf: "pruneFiles env (wantedBy env h) (Suc 0) (Suc 0) rest d2 = (None, d')"
    using p rest rd assms(2) by (simp add: pruneHistory_def listHistoryFiles_def wantedBy_def historyHardCap_def)
  have "k \<notin> he_id ` set rest"
  proof
    assume "k \<in> he_id ` set rest"
    then obtain e where e: "e \<in> set rest" "he_id e = k" by auto
    have m: "mset (map he_id (sort_key (\<lambda>e. - he_time e) ?xs)) = mset (map fst (hd_yaml d2))"
      by (simp add: multiset.map_comp comp_def)
    have "count (mset (map fst (hd_yaml d2))) k = 1 + count (image_mset fst (mset (hd_yaml d))) k"
      using mset_putYaml_fresh [OF fresh, of data "hx_now env"] by (simp add: d2 storeYaml_def)
    also have "count (image_mset fst (mset (hd_yaml d))) k = 0" using fresh by (simp add: count_eq_zero_iff)
    finally have "count (mset (map fst (hd_yaml d2))) k = 1" by simp
    moreover have "2 \<le> count (mset (map he_id (sort_key (\<lambda>e. - he_time e) ?xs))) k"
    proof -
      have "k \<in> set (map he_id rest)" using e by auto
      then have "0 < count (mset (map he_id rest)) k" by (simp add: count_greater_zero_iff)
      then show ?thesis by (simp add: rest)
    qed
    ultimately show False using m by simp
  qed
  then have mk: "map_of (hd_yaml d') k = Some (data, hx_now env)"
    using pruneFiles_keeps [OF pf] by (simp add: d2 storeYaml_def map_of_putYaml)
  then have "k \<in> fst ` set (hd_yaml d')" by (force dest: map_of_SomeD)
  then have "rollbackConfig env2 k d' conf = (None, data)"
    using assms(9-11) mk by (force simp: rollbackConfig_def listHistoryFiles_def)
  moreover have "map_of (hd_yaml d') j \<in> {None, map_of (hd_yaml d) j}" if "j \<noteq> k" for j
    using pruneFiles_sub [OF pf, of j] that by (simp add: d2 storeYaml_def map_of_putYaml)
  ultimately show ?thesis using k by blast
qed

text \<open>
  A successful snapshot puts the replaced text into the archive under a new name, overwrites no other
  snapshot, and survives its own pruning when it is newer than what is listed; rolling back to it gives the
  text back.
\<close>

theorem snapshot_then_rollback:
  assumes "snapshotConfig env h actor summary data d = (None, d')" and "1 \<le> keepOf h" and "data \<noteq> []"
    and "listHistoryFiles env d = Inr es" and "\<And>e. e \<in> set es \<Longrightarrow> he_time e < hx_now env"
    and "zeroTime < hx_now env" and "jsonKeepsTime env" and "\<And>k. hx_readMeta env k"
    and "hx_readDir env2" and "hx_readSnap env2" and "hx_writeConfig env2"
  shows "\<exists>k. \<not> hasYaml d k \<and> rollbackConfig env2 k d' conf = (None, data)
    \<and> (\<forall>j. j \<noteq> k \<longrightarrow> map_of (hd_yaml d') j \<in> {None, map_of (hd_yaml d) j})"
  using assms by (rule snapshot_rollback)

text \<open>A rollback writes the content of a listed snapshot of exactly that name, or nothing.\<close>

theorem rollback_restores_listed:
  "rollbackConfig env ref d conf = (r, conf') \<Longrightarrow>
   conf' = conf \<or> (r = None \<and> (\<exists>t. map_of (hd_yaml d) ref = Some (conf', t)))"
  by (auto simp: rollbackConfig_def split: sum.splits if_splits option.splits)

section \<open>Migration loses snapshots\<close>

definition decTime :: "string \<Rightarrow> int" where
  "decTime s = (case signOf s of (neg, ds) \<Rightarrow> if neg then - decimal ds else decimal ds)"

lemma decTime_itoa: "decTime (itoa n) = n"
proof (cases "n < 0")
  case True
  then show ?thesis by (simp add: decTime_def itoa_def signOf_def natText_decimal)
next
  case False
  then show ?thesis using natText_digits [of "nat n"]
    by (simp add: decTime_def itoa_def signOf_digits natText_decimal)
qed

definition demoHist :: hist_env where
  "demoHist = \<lparr>hx_now = 5000, hx_stamp = (\<lambda>t. ''t'' @ itoa t), hx_enc = (\<lambda>e. itoa (he_time e)),
     hx_dec = (\<lambda>s. Some \<lparr>he_id = [], he_time = decTime s, he_actor = [], he_summary = []\<rparr>), hx_mkdir = True, hx_readDir = True,
     hx_stat = (\<lambda>_. True), hx_info = (\<lambda>_. True), hx_readMeta = (\<lambda>_. True), hx_writeYaml = (\<lambda>_. True),
     hx_writeJson = (\<lambda>_. True), hx_torn = (\<lambda>_. None), hx_removeYaml = (\<lambda>_. True), hx_removeJson = (\<lambda>_. True),
     hx_readSnap = True, hx_writeConfig = True\<rparr>"

lemma demoHist_sel [simp]:
  "hx_now demoHist = 5000" "hx_mkdir demoHist" "hx_readDir demoHist" "hx_stat demoHist k" "hx_info demoHist k"
  "hx_readMeta demoHist k" "hx_writeYaml demoHist k" "hx_writeJson demoHist k" "hx_readSnap demoHist" "hx_writeConfig demoHist"
  "hx_enc demoHist e = itoa (he_time e)" "removable demoHist" "jsonKeepsTime demoHist"
  by (simp_all add: demoHist_def removable_def jsonKeepsTime_def decTime_itoa)

definition oldBackup :: old_file where
  "oldBackup = \<lparr>of_name = ''c.yaml.bak1'', of_dir = False, of_data = Some ''precious'', of_mod = Some 3, of_removable = True\<rparr>"

definition oneSnapshot :: hist_dir where
  "oneSnapshot = \<lparr>hd_yaml = [(''t1'', ''models: {}'', 1)], hd_json = Map.empty\<rparr>"

lemma prune_all:
  assumes "listHistoryFiles env d = Inr es" and "removable env" and "keepOf h \<le> 0" and "maxAgeOf h \<le> 0"
  shows "pruneHistory env h d = (None, without (map he_id es) d)"
proof -
  have "retention env h es = 0" using assms(3,4) by (simp add: retention_def young_def)
  moreover have "pruneHistory env h d = (None, without (map he_id (drop (retention env h es) es)) d)"
    using assms(1,2) pruneFiles_without [OF assms(2)] droppedIds_listing [OF assms(1)] by (simp add: pruneHistory_def)
  ultimately show ?thesis by simp
qed

text \<open>
  With \<open>keep: 0\<close> and no age extension a snapshot request writes and removes nothing, as documented; but the
  first migrated backup file runs the retention, which then removes every snapshot of the archive together
  with the content of the backup.
\<close>

theorem disabled_history_is_erased_by_migration:
  "(let h = \<lparr>hc_keep = Some 0, hc_maxAge = Some 0\<rparr> in
      snapshotConfig demoHist h ''a'' [] ''x'' oneSnapshot = (None, oneSnapshot)
      \<and> (case migrateLegacyBackups demoHist h ''c.yaml'' [oldBackup] oneSnapshot of
           (e, rest, n, d) \<Rightarrow> e = None \<and> rest = [] \<and> n = 1 \<and> hd_yaml d = []))"
proof -
  let ?h = "\<lparr>hc_keep = Some 0, hc_maxAge = Some 0\<rparr>"
  let ?d = "storeYaml ''t3'' ''precious'' 5000 oneSnapshot\<lparr>hd_json := [''t3'' \<mapsto> ''3'']\<rparr>"
  obtain es where es: "listHistoryFiles demoHist ?d = Inr es" by (simp add: listHistoryFiles_def)
  have u: "uniqueSnapshotID demoHist oneSnapshot 3 = Inr ''t3''" by code_simp
  have b: "isBackup ''c.yaml'' oldBackup" by code_simp
  have i: "itoa 3 = ''3''" by code_simp
  have m: "migrateFiles demoHist ''c.yaml'' [oldBackup] 0 oneSnapshot = (None, [], 1, ?d)"
    using u b by (simp add: oldBackup_def writeYaml_def writeJson_def legacyEntry_def storeYaml_def oneSnapshot_def i)
  have "set (map he_id es) = {''t1'', ''t3''}"
    using listing_ids [OF es] by (simp add: storeYaml_def oneSnapshot_def)
  then have p: "pruneHistory demoHist ?h ?d = (None, without (map he_id es) ?d)"
      "hd_yaml (without (map he_id es) ?d) = []"
    using prune_all [OF es, of ?h] by (simp_all add: keepOf_def maxAgeOf_def without_def storeYaml_def oneSnapshot_def)
  show ?thesis
    using m p by (auto simp: Let_def snapshotConfig_def keepOf_def migrateLegacyBackups_def split: prod.splits)
qed

section \<open>Witnesses\<close>

theorem prune_keeps_newest_snapshots_witness:
  "pruneHistory demoHist \<lparr>hc_keep = Some 1, hc_maxAge = Some 0\<rparr> oneSnapshot =
     (None, without (map he_id (drop (retention demoHist \<lparr>hc_keep = Some 1, hc_maxAge = Some 0\<rparr> [entryOf demoHist oneSnapshot (''t1'', ''models: {}'', 1)])
        [entryOf demoHist oneSnapshot (''t1'', ''models: {}'', 1)])) oneSnapshot)"
proof -
  have l: "listHistoryFiles demoHist oneSnapshot = Inr [entryOf demoHist oneSnapshot (''t1'', ''models: {}'', 1)]"
    by (simp add: listHistoryFiles_def demoHist_def oneSnapshot_def)
  show ?thesis
    by (rule conjunct1 [OF prune_keeps_newest_snapshots [OF l]]) (simp add: removable_def demoHist_def)
qed

theorem snapshot_then_rollback_witness:
  "\<exists>k d'. snapshotConfig demoHist \<lparr>hc_keep = None, hc_maxAge = None\<rparr> ''reload'' [] ''old'' oneSnapshot = (None, d')
     \<and> rollbackConfig demoHist k d' ''broken'' = (None, ''old'')"
proof -
  let ?h = "\<lparr>hc_keep = None, hc_maxAge = None\<rparr> :: hist_conf"
  obtain es where es: "listHistoryFiles demoHist oneSnapshot = Inr es" by (simp add: listHistoryFiles_def)
  have t: "he_time e < hx_now demoHist" if "e \<in> set es" for e
    using es that by (auto simp: listHistoryFiles_def oneSnapshot_def entryOf_def zeroTime_def)
  obtain k where k: "uniqueSnapshotID demoHist oneSnapshot 5000 = Inr k"
    using uniqueSnapshotID_found [of demoHist oneSnapshot 5000] by auto
  obtain d' where d': "snapshotConfig demoHist ?h ''reload'' [] ''old'' oneSnapshot = (None, d')"
    using k pruneFiles_without [of demoHist]
    by (simp add: snapshotConfig_def keepOf_def writeYaml_def writeJson_def pruneHistory_def listHistoryFiles_def)
  have "1 \<le> keepOf ?h" "zeroTime < hx_now demoHist" by (simp_all add: keepOf_def zeroTime_def)
  from snapshot_then_rollback [OF d' this(1) _ es t this(2), of demoHist "''broken''"]
  show ?thesis using d' by auto
qed

theorem rollback_restores_listed_witness: "snd (rollbackConfig demoHist ''../../x'' oneSnapshot ''c'') = ''c''"
proof -
  have "map_of (hd_yaml oneSnapshot) ''../../x'' = None" by (simp add: oneSnapshot_def)
  then show ?thesis
    using rollback_restores_listed [of demoHist "''../../x''" oneSnapshot "''c''"] by (cases "rollbackConfig demoHist ''../../x'' oneSnapshot ''c''") auto
qed

end
