(* ===== verification/Reload.thy ===== *)
theory Reload
  imports Config_History
begin

text \<open>
  Hot reload: the state that outlives a server (\<open>internal/config/runtime_state.go\<close>), the runner that
  coalesces triggers (\<open>internal/server/reloadrunner.go\<close>) and the reload pass of \<open>llama-skein.go\<close>.

  The runner is a step relation: triggers arrive at any time, the goroutine that found the runner free loops
  over passes, and the file may be written between any two steps. A pass is split where the program can be
  interrupted to effect: entering, reading the file, loading and installing, and the check of the dirty flag.
  \<open>load\<close> is the loader reduced to what the pass uses of it (an error, or the history settings of the new
  configuration), \<open>builds\<close> whether a server can be built from it. The lists of goroutines in the loop and the
  flag \<open>sy_due\<close> (the file was written and no trigger followed yet) are ghost state of the model.
\<close>

section \<open>Runtime state\<close>

record runtime_state =
  rs_lastGood :: string
  rs_valid :: bool
  rs_err :: string
  rs_stale :: "int option"
  rs_actor :: string
  rs_summary :: string

definition newRuntimeState :: runtime_state where
  "newRuntimeState = \<lparr>rs_lastGood = [], rs_valid = True, rs_err = [], rs_stale = None, rs_actor = [], rs_summary = []\<rparr>"

definition setLastGood :: "string \<Rightarrow> runtime_state \<Rightarrow> runtime_state" where
  "setLastGood data r = r\<lparr>rs_lastGood := data\<rparr>"

definition setValid :: "runtime_state \<Rightarrow> runtime_state" where
  "setValid r = r\<lparr>rs_valid := True, rs_err := [], rs_stale := None\<rparr>"

definition setInvalid :: "int \<Rightarrow> string \<Rightarrow> runtime_state \<Rightarrow> runtime_state" where
  "setInvalid now err r =
     (let r1 = (if rs_valid r then r\<lparr>rs_stale := Some now\<rparr> else r) in r1\<lparr>rs_valid := False, rs_err := err\<rparr>)"

definition statusOf :: "runtime_state \<Rightarrow> bool \<times> string \<times> int option" where
  "statusOf r = (if rs_valid r then (True, [], None) else (False, rs_err r, rs_stale r))"

definition setPending :: "string \<Rightarrow> string \<Rightarrow> runtime_state \<Rightarrow> runtime_state" where
  "setPending actor summary r = r\<lparr>rs_actor := actor, rs_summary := summary\<rparr>"

definition takePending :: "runtime_state \<Rightarrow> (string \<times> string) \<times> runtime_state" where
  "takePending r =
     ((if rs_actor r = [] then ''reload'' else rs_actor r, rs_summary r), r\<lparr>rs_actor := [], rs_summary := []\<rparr>)"

section \<open>One pass\<close>

text \<open>The configuration file (\<open>None\<close>: unreadable), the text the serving server was built from, the archive.\<close>

record reload_state =
  ls_disk :: "string option"
  ls_active :: string
  ls_rt :: runtime_state
  ls_hist :: hist_dir

definition applyRead ::
  "(string \<Rightarrow> string + hist_conf) \<Rightarrow> (string \<Rightarrow> bool) \<Rightarrow> hist_env \<Rightarrow> string option \<Rightarrow> reload_state \<Rightarrow> reload_state" where
  "applyRead load builds env raw s =
     (case raw of
        None \<Rightarrow> s\<lparr>ls_rt := setInvalid (hx_now env) ''read'' (ls_rt s)\<rparr>
      | Some txt \<Rightarrow>
          (case load txt of
             Inl e \<Rightarrow> s\<lparr>ls_rt := setInvalid (hx_now env) e (ls_rt s)\<rparr>
           | Inr h \<Rightarrow>
               if \<not> builds txt then s
               else case takePending (ls_rt s) of
                 ((actor, summary), rt1) \<Rightarrow>
                   s\<lparr>ls_hist := snd (snapshotConfig env h actor summary (rs_lastGood rt1) (ls_hist s)),
                     ls_rt := setValid (setLastGood txt rt1), ls_active := txt\<rparr>))"

section \<open>The coalescing runner\<close>

datatype loop_phase = AtCall | Entered | HasRead "string option" | Returned

record reload_sys =
  sy_running :: bool
  sy_dirty :: bool
  sy_reloading :: bool
  sy_loops :: "loop_phase list"
  sy_cfg :: reload_state
  sy_due :: bool

definition trigger :: "reload_sys \<Rightarrow> reload_sys" where
  "trigger s =
     (if sy_running s then s\<lparr>sy_dirty := True, sy_due := False\<rparr>
      else s\<lparr>sy_running := True, sy_loops := sy_loops s @ [AtCall], sy_due := False\<rparr>)"

definition enterPass :: "nat \<Rightarrow> reload_sys \<Rightarrow> reload_sys" where
  "enterPass i s =
     (if sy_reloading s then s\<lparr>sy_loops := (sy_loops s)[i := Returned]\<rparr>
      else s\<lparr>sy_reloading := True, sy_loops := (sy_loops s)[i := Entered]\<rparr>)"

definition readPass :: "nat \<Rightarrow> reload_sys \<Rightarrow> reload_sys" where
  "readPass i s = s\<lparr>sy_loops := (sy_loops s)[i := HasRead (ls_disk (sy_cfg s))]\<rparr>"

definition applyPass ::
  "(string \<Rightarrow> string + hist_conf) \<Rightarrow> (string \<Rightarrow> bool) \<Rightarrow> hist_env \<Rightarrow> nat \<Rightarrow> string option \<Rightarrow> reload_sys \<Rightarrow> reload_sys" where
  "applyPass load builds env i raw s =
     s\<lparr>sy_cfg := applyRead load builds env raw (sy_cfg s), sy_reloading := False, sy_loops := (sy_loops s)[i := Returned]\<rparr>"

definition checkPass :: "nat \<Rightarrow> reload_sys \<Rightarrow> reload_sys" where
  "checkPass i s =
     (if \<not> sy_dirty s then s\<lparr>sy_running := False, sy_loops := take i (sy_loops s) @ drop (Suc i) (sy_loops s)\<rparr>
      else s\<lparr>sy_dirty := False, sy_loops := (sy_loops s)[i := AtCall]\<rparr>)"

text \<open>The steps of a goroutine in the loop.\<close>

inductive loopStep :: "(string \<Rightarrow> string + hist_conf) \<Rightarrow> (string \<Rightarrow> bool) \<Rightarrow> reload_sys \<Rightarrow> reload_sys \<Rightarrow> bool"
  for load builds where
  enter: "i < length (sy_loops s) \<Longrightarrow> sy_loops s ! i = AtCall \<Longrightarrow> loopStep load builds s (enterPass i s)"
| read: "i < length (sy_loops s) \<Longrightarrow> sy_loops s ! i = Entered \<Longrightarrow> loopStep load builds s (readPass i s)"
| install: "i < length (sy_loops s) \<Longrightarrow> sy_loops s ! i = HasRead raw \<Longrightarrow> loopStep load builds s (applyPass load builds env i raw s)"
| check: "i < length (sy_loops s) \<Longrightarrow> sy_loops s ! i = Returned \<Longrightarrow> loopStep load builds s (checkPass i s)"

inductive sysStep :: "(string \<Rightarrow> string + hist_conf) \<Rightarrow> (string \<Rightarrow> bool) \<Rightarrow> reload_sys \<Rightarrow> reload_sys \<Rightarrow> bool"
  for load builds where
  edit: "sysStep load builds s (s\<lparr>sy_cfg := (sy_cfg s)\<lparr>ls_disk := d\<rparr>, sy_due := True\<rparr>)"
| stage: "sysStep load builds s (s\<lparr>sy_cfg := (sy_cfg s)\<lparr>ls_rt := setPending a m (ls_rt (sy_cfg s))\<rparr>\<rparr>)"
| fire: "sysStep load builds s (trigger s)"
| loop: "loopStep load builds s s' \<Longrightarrow> sysStep load builds s s'"

text \<open>At startup the server runs the text of the file.\<close>

definition bootSys :: "string \<Rightarrow> hist_dir \<Rightarrow> reload_sys" where
  "bootSys txt hist =
     \<lparr>sy_running = False, sy_dirty = False, sy_reloading = False, sy_loops = [],
      sy_cfg = \<lparr>ls_disk = Some txt, ls_active = txt, ls_rt = setValid (setLastGood txt newRuntimeState), ls_hist = hist\<rparr>,
      sy_due = False\<rparr>"

inductive reloads :: "(string \<Rightarrow> string + hist_conf) \<Rightarrow> (string \<Rightarrow> bool) \<Rightarrow> reload_sys \<Rightarrow> reload_sys \<Rightarrow> bool"
  for load builds s0 where
  reloads_start: "reloads load builds s0 s0"
| reloads_step: "reloads load builds s0 s \<Longrightarrow> sysStep load builds s s' \<Longrightarrow> reloads load builds s0 s'"

inductive_cases loopStepE: "loopStep load builds s s'"
inductive_cases sysStepE: "sysStep load builds s s'"

section \<open>The invariant\<close>

text \<open>The file is in force: an invalid text is reported, a valid one that builds a server is the active one.\<close>

definition settled :: "(string \<Rightarrow> string + hist_conf) \<Rightarrow> (string \<Rightarrow> bool) \<Rightarrow> reload_state \<Rightarrow> bool" where
  "settled load builds s =
     (case ls_disk s of
        None \<Rightarrow> \<not> rs_valid (ls_rt s)
      | Some txt \<Rightarrow>
          (case load txt of
             Inl e \<Rightarrow> \<not> rs_valid (ls_rt s)
           | Inr h \<Rightarrow> builds txt \<longrightarrow> ls_active s = txt \<and> rs_valid (ls_rt s)))"

definition covered :: "(string \<Rightarrow> string + hist_conf) \<Rightarrow> (string \<Rightarrow> bool) \<Rightarrow> reload_sys \<Rightarrow> bool" where
  "covered load builds s =
     (case sy_loops s of
        [] \<Rightarrow> settled load builds (sy_cfg s)
      | p # _ \<Rightarrow>
          (case p of
             HasRead raw \<Rightarrow> sy_dirty s \<or> raw = ls_disk (sy_cfg s)
           | Returned \<Rightarrow> sy_dirty s \<or> settled load builds (sy_cfg s)
           | _ \<Rightarrow> True))"

definition inPass :: "loop_phase \<Rightarrow> bool" where
  "inPass p = (case p of Entered \<Rightarrow> True | HasRead raw \<Rightarrow> True | _ \<Rightarrow> False)"

definition reloadInv :: "(string \<Rightarrow> string + hist_conf) \<Rightarrow> (string \<Rightarrow> bool) \<Rightarrow> reload_sys \<Rightarrow> bool" where
  "reloadInv load builds s =
     ((sy_loops s = [] \<or> (\<exists>p. sy_loops s = [p])) \<and> (sy_running s \<longleftrightarrow> sy_loops s \<noteq> []) \<and> (sy_dirty s \<longrightarrow> sy_running s)
      \<and> (sy_reloading s \<longleftrightarrow> (\<exists>p \<in> set (sy_loops s). inPass p))
      \<and> rs_lastGood (ls_rt (sy_cfg s)) = ls_active (sy_cfg s)
      \<and> (\<not> sy_due s \<longrightarrow> covered load builds s))"

lemma applyRead_disk [simp]: "ls_disk (applyRead load builds env raw s) = ls_disk s"
  by (simp add: applyRead_def takePending_def split: option.splits sum.splits)

lemma applyRead_settles: "settled load builds (applyRead load builds env (ls_disk s) s)"
  by (auto simp: settled_def applyRead_def takePending_def setInvalid_def setValid_def Let_def split: option.splits sum.splits)

lemma applyRead_lastGood:
  "rs_lastGood (ls_rt s) = ls_active s \<Longrightarrow>
   rs_lastGood (ls_rt (applyRead load builds env raw s)) = ls_active (applyRead load builds env raw s)"
  by (auto simp: applyRead_def takePending_def setInvalid_def setValid_def setLastGood_def Let_def split: option.splits sum.splits)

lemma reloadInv_boot: "load t0 = Inr h \<Longrightarrow> reloadInv load builds (bootSys t0 hist)"
  by (simp add: reloadInv_def bootSys_def covered_def settled_def setValid_def setLastGood_def)

lemma loop_alone:
  assumes "reloadInv load builds s" and "i < length (sy_loops s)" and "sy_loops s ! i = p"
  shows "i = 0 \<and> sy_loops s = [p]"
  using assms by (auto simp: reloadInv_def)

lemma reloadInv_loop:
  assumes "loopStep load builds s s'" and inv: "reloadInv load builds s"
  shows "reloadInv load builds s'"
  using assms(1)
proof (cases rule: loopStep.cases)
  case (enter i)
  then have l: "i = 0" "sy_loops s = [AtCall]" using loop_alone [OF inv enter(2,3)] by simp_all
  then show ?thesis using inv enter(1)
    by (simp add: reloadInv_def enterPass_def covered_def inPass_def)
next
  case (read i)
  then have l: "i = 0" "sy_loops s = [Entered]" using loop_alone [OF inv read(2,3)] by simp_all
  then show ?thesis using inv read(1)
    by (simp add: reloadInv_def readPass_def covered_def inPass_def)
next
  case (install i raw env)
  then have l: "i = 0" "sy_loops s = [HasRead raw]" using loop_alone [OF inv install(2,3)] by simp_all
  then show ?thesis using inv install(1) applyRead_settles [of load builds env "sy_cfg s"] applyRead_lastGood
    by (auto simp: reloadInv_def applyPass_def covered_def inPass_def)
next
  case (check i)
  then have l: "i = 0" "sy_loops s = [Returned]" using loop_alone [OF inv check(2,3)] by simp_all
  then show ?thesis using inv check(1)
    by (auto simp: reloadInv_def checkPass_def covered_def inPass_def)
qed

lemma settled_rt: "rs_valid r = rs_valid (ls_rt s) \<Longrightarrow> settled load builds (s\<lparr>ls_rt := r\<rparr>) = settled load builds s"
  by (simp add: settled_def split: option.splits sum.splits)

lemma setPending_sel [simp]:
  "rs_valid (setPending a m r) = rs_valid r" "rs_lastGood (setPending a m r) = rs_lastGood r"
  by (simp_all add: setPending_def)

lemma reloadInv_step: "sysStep load builds s s' \<Longrightarrow> reloadInv load builds s \<Longrightarrow> reloadInv load builds s'"
proof (induction rule: sysStep.induct)
  case (edit s d)
  then show ?case by (auto simp: reloadInv_def)
next
  case (stage s a m)
  then show ?case
    by (auto simp: reloadInv_def covered_def settled_rt split: loop_phase.splits)
next
  case (fire s)
  then show ?case
    by (auto simp: reloadInv_def trigger_def covered_def inPass_def split: loop_phase.splits)
next
  case (loop s s')
  then show ?case by (rule reloadInv_loop)
qed

lemma reloads_inv:
  assumes "reloads load builds (bootSys t0 hist) s" and "load t0 = Inr h"
  shows "reloadInv load builds s"
  using assms(1)
proof (induction rule: reloads.induct)
  case reloads_start
  show ?case using assms(2) by (rule reloadInv_boot)
next
  case (reloads_step s s')
  then show ?case using reloadInv_step by blast
qed

section \<open>What the runner guarantees\<close>

text \<open>The steps a loop still has to take when no further trigger arrives.\<close>

definition phaseWork :: "loop_phase \<Rightarrow> nat" where
  "phaseWork p = (case p of AtCall \<Rightarrow> 4 | Entered \<Rightarrow> 3 | HasRead raw \<Rightarrow> 2 | Returned \<Rightarrow> 1)"

definition loopWork :: "reload_sys \<Rightarrow> nat" where
  "loopWork s = sum_list (map phaseWork (sy_loops s)) + (if sy_dirty s then 4 else 0)"

lemma loopStep_work:
  assumes "loopStep load builds s s'" and inv: "reloadInv load builds s"
  shows "loopWork s' < loopWork s"
  using assms(1)
proof (cases rule: loopStep.cases)
  case (enter i)
  then show ?thesis using loop_alone [OF inv enter(2,3)] by (simp add: enterPass_def loopWork_def phaseWork_def)
next
  case (read i)
  then show ?thesis using loop_alone [OF inv read(2,3)] by (simp add: readPass_def loopWork_def phaseWork_def)
next
  case (install i raw env)
  then show ?thesis using loop_alone [OF inv install(2,3)] by (simp add: applyPass_def loopWork_def phaseWork_def)
next
  case (check i)
  then show ?thesis using loop_alone [OF inv check(2,3)] by (simp add: checkPass_def loopWork_def phaseWork_def)
qed

lemma loopStep_due: "loopStep load builds s s' \<Longrightarrow> sy_due s' = sy_due s"
  by (auto elim!: loopStepE simp: enterPass_def readPass_def applyPass_def checkPass_def split: if_splits)

lemma loopStep_enabled:
  assumes "sy_loops s \<noteq> []"
  shows "\<exists>s'. loopStep load builds s s'"
proof -
  have i: "0 < length (sy_loops s)" using assms by simp
  show ?thesis
  proof (cases "sy_loops s ! 0")
    case AtCall
    then show ?thesis using loopStep.enter [OF i] by blast
  next
    case Entered
    then show ?thesis using loopStep.read [OF i] by blast
  next
    case (HasRead raw)
    then show ?thesis using loopStep.install [OF i] by blast
  next
    case Returned
    then show ?thesis using loopStep.check [OF i] by blast
  qed
qed

lemma loop_finishes:
  "reloadInv load builds s \<Longrightarrow> \<exists>s'. (loopStep load builds)\<^sup>*\<^sup>* s s' \<and> sy_loops s' = [] \<and> reloadInv load builds s' \<and> sy_due s' = sy_due s"
proof (induction "loopWork s" arbitrary: s rule: less_induct)
  case less
  show ?case
  proof (cases "sy_loops s = []")
    case True
    then show ?thesis using less.prems by blast
  next
    case False
    then obtain t where t: "loopStep load builds s t" using loopStep_enabled by blast
    obtain s' where s': "(loopStep load builds)\<^sup>*\<^sup>* t s'" "sy_loops s' = []" "reloadInv load builds s'" "sy_due s' = sy_due t"
      using less.hyps [OF loopStep_work [OF t less.prems] reloadInv_loop [OF t less.prems]] by blast
    then show ?thesis using t loopStep_due [OF t] converse_rtranclp_into_rtranclp [of "loopStep load builds" s t s'] by auto
  qed
qed

text \<open>
  C14. However triggers, edits of the file and passes interleave, passes never overlap, and whenever no pass runs
  and every edit was followed by a trigger, the file is in force: its text is the active one, or it is
  reported invalid (or no server could be built from it).
\<close>

theorem triggered_edits_in_force:
  assumes "reloads load builds (bootSys t0 hist) s" and "load t0 = Inr h"
  shows "length (filter inPass (sy_loops s)) \<le> 1
    \<and> (sy_loops s = [] \<and> \<not> sy_due s \<longrightarrow> settled load builds (sy_cfg s))"
  using reloads_inv [OF assms] by (auto simp: reloadInv_def covered_def)

text \<open>
  C15. The runner comes to rest: every step of a pass leaves less work, at most eight steps follow the last
  trigger, a pass in progress can always go on, and when it has come to rest the last triggered edit is in
  force.
\<close>

theorem reload_comes_to_rest:
  assumes "reloads load builds (bootSys t0 hist) s" and "load t0 = Inr h"
  shows "(\<forall>s'. loopStep load builds s s' \<longrightarrow> loopWork s' < loopWork s) \<and> loopWork s \<le> 8
    \<and> (\<exists>s'. (loopStep load builds)\<^sup>*\<^sup>* s s' \<and> sy_loops s' = []
          \<and> (\<not> sy_due s \<longrightarrow> settled load builds (sy_cfg s')))"
proof -
  have inv: "reloadInv load builds s" using assms by (rule reloads_inv)
  have "loopWork s \<le> 8"
  proof (cases "sy_loops s")
    case Nil
    then show ?thesis by (simp add: loopWork_def)
  next
    case (Cons p ps)
    then have "ps = []" using inv by (auto simp: reloadInv_def)
    then show ?thesis using Cons by (cases p) (simp_all add: loopWork_def phaseWork_def)
  qed
  moreover obtain s' where "(loopStep load builds)\<^sup>*\<^sup>* s s'" "sy_loops s' = []" "reloadInv load builds s'" "sy_due s' = sy_due s"
    using loop_finishes [OF inv] by blast
  ultimately show ?thesis using loopStep_work [OF _ inv] by (auto simp: reloadInv_def covered_def)
qed

section \<open>The archive\<close>

text \<open>A host on which every file operation works and the clock is ahead of the archive.\<close>

definition goodArchive :: "hist_env \<Rightarrow> hist_dir \<Rightarrow> bool" where
  "goodArchive env d =
     (hx_mkdir env \<and> hx_readDir env \<and> (\<forall>k. hx_stat env k \<and> hx_readMeta env k \<and> hx_writeYaml env k \<and> hx_writeJson env k)
      \<and> removable env \<and> jsonKeepsTime env \<and> zeroTime < hx_now env
      \<and> (\<forall>y \<in> set (hd_yaml d). he_time (entryOf env d y) < hx_now env))"

lemma snapshot_succeeds:
  assumes "goodArchive env d"
  shows "fst (snapshotConfig env h actor summary data d) = None"
proof -
  obtain k where "uniqueSnapshotID env d (hx_now env) = Inr k"
    using uniqueSnapshotID_found [of env d "hx_now env"] assms by (auto simp: goodArchive_def)
  then show ?thesis using assms pruneFiles_without [of env]
    by (auto simp: goodArchive_def snapshotConfig_def writeYaml_def writeJson_def pruneHistory_def listHistoryFiles_def Let_def)
qed

text \<open>
  C16. When a pass installs a valid text, the text that was active before is in the archive afterwards, under a
  name no earlier snapshot had, and rolling back restores it, provided the new configuration keeps at least
  one snapshot.
\<close>

theorem replaced_config_can_be_restored:
  assumes "reloads load builds (bootSys t0 hist) s" and "load t0 = Inr h0"
    and "load new = Inr h" and "builds new" and "1 \<le> keepOf h" and "ls_active (sy_cfg s) \<noteq> []"
    and "goodArchive env (ls_hist (sy_cfg s))" and "hx_readDir env2" and "hx_readSnap env2" and "hx_writeConfig env2"
  shows "(let c = applyRead load builds env (Some new) (sy_cfg s) in
     ls_active c = new \<and> rs_valid (ls_rt c)
     \<and> (\<exists>k. \<not> hasYaml (ls_hist (sy_cfg s)) k \<and> rollbackConfig env2 k (ls_hist c) conf = (None, ls_active (sy_cfg s))))"
proof -
  have inv: "reloadInv load builds s" using assms(1,2) by (rule reloads_inv)
  let ?c = "applyRead load builds env (Some new) (sy_cfg s)"
  obtain a m r where t: "takePending (ls_rt (sy_cfg s)) = ((a, m), r)" by (metis prod.collapse)
  have lg: "rs_lastGood r = ls_active (sy_cfg s)"
    using t inv by (auto simp: takePending_def reloadInv_def)
  have c: "ls_hist ?c = snd (snapshotConfig env h a m (ls_active (sy_cfg s)) (ls_hist (sy_cfg s)))"
      "ls_active ?c = new" "rs_valid (ls_rt ?c)"
    using assms(3,4) t lg by (simp_all add: applyRead_def setValid_def)
  have snap: "snapshotConfig env h a m (ls_active (sy_cfg s)) (ls_hist (sy_cfg s)) = (None, ls_hist ?c)"
    using snapshot_succeeds [OF assms(7)] c(1) by (metis prod.collapse)
  have g: "hx_readDir env" "zeroTime < hx_now env" "jsonKeepsTime env" "\<And>k. hx_readMeta env k"
    using assms(7) by (simp_all add: goodArchive_def)
  obtain es where es: "listHistoryFiles env (ls_hist (sy_cfg s)) = Inr es" using g(1) by (simp add: listHistoryFiles_def)
  have "he_time e < hx_now env" if "e \<in> set es" for e
    using that es assms(7) by (auto simp: goodArchive_def listHistoryFiles_def split: if_splits)
  from snapshot_rollback [OF snap assms(5,6) es this g(2-4) assms(8-10), of conf] show ?thesis
    using c(2,3) by (auto simp: Let_def)
qed

section \<open>Two gaps\<close>

definition demoLoad :: "string \<Rightarrow> string + hist_conf" where
  "demoLoad txt =
     (if txt = ''broken'' then Inl ''bad'' else if txt = ''nokeep'' then Inr \<lparr>hc_keep = Some 0, hc_maxAge = None\<rparr>
      else Inr \<lparr>hc_keep = None, hc_maxAge = None\<rparr>)"

definition emptyDir :: hist_dir where
  "emptyDir = \<lparr>hd_yaml = [], hd_json = Map.empty\<rparr>"

definition running :: "string \<Rightarrow> reload_state" where
  "running txt = sy_cfg (bootSys txt emptyDir)"

text \<open>
  The retention that decides whether the replaced text is archived is that of the text replacing it: an edit
  that sets \<open>keep: 0\<close> takes effect without a snapshot. An attribution staged for an edit that turns out
  invalid stays staged and is taken by the next reload, whatever caused that.
\<close>

theorem reload_archive_gaps:
  "(let c = applyRead demoLoad (\<lambda>_. True) demoHist (Some ''nokeep'') (running ''good'') in
      ls_active c = ''nokeep'' \<and> ls_hist c = emptyDir)
   \<and> (let s = (running ''good'')\<lparr>ls_rt := setPending ''api:patch-model'' ''x'' (ls_rt (running ''good''))\<rparr>;
          c = applyRead demoLoad (\<lambda>_. True) demoHist (Some ''broken'') s in
      fst (takePending (ls_rt c)) = (''api:patch-model'', ''x'') \<and> \<not> rs_valid (ls_rt c) \<and> ls_active c = ''good'')"
  by (simp add: Let_def applyRead_def demoLoad_def running_def bootSys_def takePending_def setPending_def setInvalid_def
      setValid_def setLastGood_def newRuntimeState_def snapshotConfig_def keepOf_def)

section \<open>Witnesses\<close>

lemma demo_reload:
  "reloads demoLoad (\<lambda>_. True) (bootSys ''good'' emptyDir) (trigger ((bootSys ''good'' emptyDir)\<lparr>sy_cfg := (sy_cfg (bootSys ''good'' emptyDir))\<lparr>ls_disk := Some ''other''\<rparr>, sy_due := True\<rparr>))"
  by (rule reloads_step [OF _ fire], rule reloads_step [OF _ edit], rule reloads_start)

lemma demo_good_text: "demoLoad ''good'' = Inr \<lparr>hc_keep = None, hc_maxAge = None\<rparr>"
  by (simp add: demoLoad_def)

theorem triggered_edits_in_force_witness: "settled demoLoad (\<lambda>_. True) (sy_cfg (bootSys ''good'' emptyDir))"
proof -
  have "sy_loops (bootSys ''good'' emptyDir) = []" "\<not> sy_due (bootSys ''good'' emptyDir)" by (simp_all add: bootSys_def)
  then show ?thesis
    using triggered_edits_in_force [where load = demoLoad and builds = "\<lambda>_. True" and hist = emptyDir and ?t0.0 = "''good''", OF reloads_start demo_good_text] by blast
qed

theorem reload_comes_to_rest_witness:
  "\<exists>s' :: reload_sys. sy_loops s' = [] \<and> settled demoLoad (\<lambda>_. True) (sy_cfg s')"
proof -
  obtain s' :: reload_sys where "sy_loops s' = []"
    and "\<not> sy_due (trigger ((bootSys ''good'' emptyDir)\<lparr>sy_cfg := (sy_cfg (bootSys ''good'' emptyDir))\<lparr>ls_disk := Some ''other''\<rparr>, sy_due := True\<rparr>))
      \<longrightarrow> settled demoLoad (\<lambda>_. True) (sy_cfg s')"
    using reload_comes_to_rest [OF demo_reload demo_good_text] by blast
  then show ?thesis by (auto simp: trigger_def split: if_splits)
qed

theorem replaced_config_can_be_restored_witness:
  "\<exists>k. rollbackConfig demoHist k (ls_hist (applyRead demoLoad (\<lambda>_. True) demoHist (Some ''other'') (running ''good''))) ''junk''
     = (None, ''good'')"
proof -
  have l: "demoLoad ''other'' = Inr \<lparr>hc_keep = None, hc_maxAge = None\<rparr>"
    by (simp add: demoLoad_def)
  have a: "ls_active (sy_cfg (bootSys ''good'' emptyDir)) = ''good''" "ls_hist (sy_cfg (bootSys ''good'' emptyDir)) = emptyDir"
    by (simp_all add: bootSys_def)
  have g: "goodArchive demoHist emptyDir" by (simp add: goodArchive_def emptyDir_def zeroTime_def)
  show ?thesis
    using replaced_config_can_be_restored [where load = demoLoad and ?t0.0 = "''good''" and builds = "\<lambda>_. True" and hist = emptyDir and env = demoHist and ?env2.0 = demoHist
        and conf = "''junk''", OF reloads_start demo_good_text l] a g
    by (auto simp: running_def keepOf_def Let_def)
qed

end
