(* ===== verification/Gguf_Parse.thy ===== *)
theory Gguf_Parse
  imports Go_Float Go_Text
begin

text \<open>
  The reader of GGUF model files (\<open>pkg/gguf/gguf.go\<close>): header, metadata and the tensor table.

  A file is a byte string, a reader a function from the bytes left to a result: a value and the rest, an
  error, or a crash, which is what Go's \<open>make\<close> does when a length is beyond what the runtime grants
  (\<open>gguf_host\<close>: the bytes of one slice, the size hints of a map). Arrays nest, so \<open>readValue\<close> runs on fuel,
  one unit per nesting; an array takes 12 bytes before its elements, so the length of the input and one is
  enough (\<open>readValue_fuel\<close>). Integers keep their width: unsigned as \<open>nat\<close>, signed by two's complement.
\<close>

named_theorems gguf_defs "unfolding rules of the readers"

section \<open>Readers\<close>

datatype gguf_error =
    ShortRead | BadMagic | BadVersion nat | KeyTooLong nat | ArrayTooLong nat | BadElement | BadType nat
  | TooManyTensors nat | TooManyDims nat | NestingFuel

datatype 'a pres = PDone 'a string | PFail gguf_error | PCrash

fun andThen :: "'a pres \<Rightarrow> ('a \<Rightarrow> string \<Rightarrow> 'b pres) \<Rightarrow> 'b pres" where
  "andThen (PDone x s) f = f x s"
| "andThen (PFail e) f = PFail e"
| "andThen PCrash f = PCrash"

text \<open>\<open>io.ReadFull\<close> into a buffer of \<open>n\<close> bytes.\<close>

definition readN :: "nat \<Rightarrow> string \<Rightarrow> string pres" where
  "readN n s = (if n \<le> length s then PDone (take n s) (drop n s) else PFail ShortRead)"

definition leNat :: "string \<Rightarrow> nat" where
  "leNat b = foldr (\<lambda>c n. of_char c + 256 * n) b 0"

definition readU :: "nat \<Rightarrow> string \<Rightarrow> nat pres" where
  "readU n s = andThen (readN n s) (\<lambda>b r. PDone (leNat b) r)"

definition signedOf :: "nat \<Rightarrow> nat \<Rightarrow> int" where
  "signedOf w n = (if n < 2 ^ (w - 1) then int n else int n - 2 ^ w)"

text \<open>IEEE numbers with \<open>eb\<close> exponent and \<open>mb\<close> mantissa bits.\<close>

datatype gfloat = GFin rat | GInf bool | GNaN

definition floatBits :: "nat \<Rightarrow> nat \<Rightarrow> nat \<Rightarrow> gfloat" where
  "floatBits eb mb n =
     (let neg = (n div 2 ^ (eb + mb)) mod 2 = 1; e = (n div 2 ^ mb) mod 2 ^ eb; m = n mod 2 ^ mb;
          bias = 2 ^ (eb - 1) - 1 :: int;
          v = (if e = 0 then of_nat m * 2 powi (1 - bias - int mb)
               else of_nat (2 ^ mb + m) * 2 powi (int e - bias - int mb) :: rat)
      in if e = 2 ^ eb - 1 then (if m = 0 then GInf neg else GNaN)
         else GFin (if neg then - v else v))"

record gguf_host =
  gh_alloc :: nat
  gh_mapHint :: "nat \<Rightarrow> bool"

text \<open>\<open>make\<close> of a slice of \<open>n\<close> elements of \<open>sz\<close> bytes.\<close>

definition allocates :: "gguf_host \<Rightarrow> nat \<Rightarrow> nat \<Rightarrow> bool" where
  "allocates h n sz = (n * sz \<le> gh_alloc h)"

definition readLen :: "bool \<Rightarrow> string \<Rightarrow> nat pres" where
  "readLen v2 s =
     (if v2 then andThen (readU 1 s) (\<lambda>n r. if n = 255 then readU 8 r else PDone n r) else readU 8 s)"

definition readString :: "gguf_host \<Rightarrow> bool \<Rightarrow> string \<Rightarrow> string pres" where
  "readString h v2 s = andThen (readLen v2 s) (\<lambda>n r. if allocates h n 1 then readN n r else PCrash)"

definition readKey :: "bool \<Rightarrow> string \<Rightarrow> (string \<times> nat) pres" where
  "readKey v2 s =
     andThen (readLen v2 s) (\<lambda>n r.
       if n > 65536 then PFail (KeyTooLong n)
       else andThen (readN n r) (\<lambda>k r1. andThen (readU 4 r1) (\<lambda>t r2. PDone (k, t) r2)))"

section \<open>Values\<close>

datatype gval =
    GStr string | GBool bool | GInt int | GFloat gfloat
  | GStrs "string list" | GInts "int list" | GFloats "gfloat list"

definition maxArray :: nat where
  "maxArray = 4000000"

text \<open>\<open>cnt\<close> elements one after the other.\<close>

fun readMany :: "nat \<Rightarrow> (string \<Rightarrow> 'a pres) \<Rightarrow> string \<Rightarrow> 'a list pres" where
  "readMany 0 rd s = PDone [] s"
| "readMany (Suc n) rd s = andThen (rd s) (\<lambda>x r. andThen (readMany n rd r) (\<lambda>xs q. PDone (x # xs) q))"

definition readF32 :: "string \<Rightarrow> gfloat pres" where
  "readF32 s = andThen (readU 4 s) (\<lambda>n r. PDone (floatBits 8 23 n) r)"

definition readF64 :: "string \<Rightarrow> gfloat pres" where
  "readF64 s = andThen (readU 8 s) (\<lambda>n r. PDone (floatBits 11 52 n) r)"

definition intElem :: "gval \<Rightarrow> string \<Rightarrow> int pres" where
  "intElem v r = (case v of GInt n \<Rightarrow> PDone n r | _ \<Rightarrow> PFail BadElement)"

text \<open>The elements of an array, after its cnt; \<open>rd\<close> reads a value of a given type.\<close>

definition readElems ::
  "gguf_host \<Rightarrow> bool \<Rightarrow> (nat \<Rightarrow> string \<Rightarrow> gval pres) \<Rightarrow> nat \<Rightarrow> nat \<Rightarrow> string \<Rightarrow> gval pres" where
  "readElems h v2 rd elem cnt s =
     (if elem = 8
      then if allocates h cnt 16 then andThen (readMany cnt (readString h v2) s) (\<lambda>xs r. PDone (GStrs xs) r) else PCrash
      else if \<not> allocates h cnt 8 then PCrash
      else if elem = 6 then andThen (readMany cnt readF32 s) (\<lambda>xs r. PDone (GFloats xs) r)
      else if elem = 12 then andThen (readMany cnt readF64 s) (\<lambda>xs r. PDone (GFloats xs) r)
      else andThen (readMany cnt (\<lambda>q. andThen (rd elem q) intElem) s) (\<lambda>xs r. PDone (GInts xs) r))"

definition readScalar :: "gguf_host \<Rightarrow> bool \<Rightarrow> nat \<Rightarrow> string \<Rightarrow> gval pres" where
  "readScalar h v2 ty s =
     (if ty = 8 then andThen (readString h v2 s) (\<lambda>x r. PDone (GStr x) r)
      else if ty = 7 then andThen (readU 1 s) (\<lambda>n r. PDone (GBool (n \<noteq> 0)) r)
      else if ty = 0 then andThen (readU 1 s) (\<lambda>n r. PDone (GInt (int n)) r)
      else if ty = 1 then andThen (readU 1 s) (\<lambda>n r. PDone (GInt (signedOf 8 n)) r)
      else if ty = 3 then andThen (readU 2 s) (\<lambda>n r. PDone (GInt (signedOf 16 n)) r)
      else if ty = 5 then andThen (readU 4 s) (\<lambda>n r. PDone (GInt (signedOf 32 n)) r)
      else if ty = 11 then andThen (readU 8 s) (\<lambda>n r. PDone (GInt (signedOf 64 n)) r)
      else if ty = 2 then andThen (readU 2 s) (\<lambda>n r. PDone (GInt (int n)) r)
      else if ty = 4 then andThen (readU 4 s) (\<lambda>n r. PDone (GInt (int n)) r)
      else if ty = 10 then andThen (readU 8 s) (\<lambda>n r. PDone (GInt (signedOf 64 n)) r)
      else if ty = 6 then andThen (readF32 s) (\<lambda>x r. PDone (GFloat x) r)
      else andThen (readF64 s) (\<lambda>x r. PDone (GFloat x) r))"

definition scalarType :: "nat \<Rightarrow> bool" where
  "scalarType ty = (ty \<le> 12 \<and> ty \<noteq> 9)"

fun readValue :: "nat \<Rightarrow> gguf_host \<Rightarrow> bool \<Rightarrow> nat \<Rightarrow> string \<Rightarrow> gval pres" where
  "readValue 0 h v2 ty s = PFail NestingFuel"
| "readValue (Suc d) h v2 ty s =
     (if scalarType ty then readScalar h v2 ty s
      else if ty = 9
      then andThen (readU 4 s) (\<lambda>elem r. andThen (readU 8 r) (\<lambda>cnt q.
             if cnt > maxArray then PFail (ArrayTooLong cnt)
             else readElems h v2 (readValue d h v2) elem cnt q))
      else if ty \<ge> 65536
      then andThen (readU 8 s) (\<lambda>cnt q. readElems h v2 (readValue d h v2) (ty div 65536) cnt q)
      else PFail (BadType ty))"

text \<open>\<open>for i < kvCount\<close>: a later entry of the same key replaces the earlier one.\<close>

fun readEntries :: "gguf_host \<Rightarrow> bool \<Rightarrow> nat \<Rightarrow> (string \<rightharpoonup> gval) \<Rightarrow> string \<Rightarrow> (string \<rightharpoonup> gval) pres" where
  "readEntries h v2 0 md s = PDone md s"
| "readEntries h v2 (Suc n) md s =
     andThen (readKey v2 s) (\<lambda>kt r.
       andThen (readValue (Suc (length r)) h v2 (snd kt) r) (\<lambda>v q. readEntries h v2 n (md(fst kt \<mapsto> v)) q))"

section \<open>Tensors\<close>

record tensor_info =
  ti_name :: string
  ti_dims :: "nat list"
  ti_type :: nat
  ti_offset :: nat

definition readTensor :: "gguf_host \<Rightarrow> bool \<Rightarrow> string \<Rightarrow> tensor_info pres" where
  "readTensor h v2 s =
     andThen (readString h v2 s) (\<lambda>name r1.
     andThen (readU 4 r1) (\<lambda>nd r2.
       if nd > 8 then PFail (TooManyDims nd)
       else andThen (readMany nd (readU 8) r2) (\<lambda>dims r3.
         andThen (readU 4 r3) (\<lambda>ty r4.
         andThen (readU 8 r4) (\<lambda>off r5.
           PDone \<lparr>ti_name = name, ti_dims = dims, ti_type = ty, ti_offset = off\<rparr> r5)))))"

definition readTensorInfos :: "gguf_host \<Rightarrow> nat \<Rightarrow> bool \<Rightarrow> string \<Rightarrow> tensor_info list pres" where
  "readTensorInfos h cnt v2 s =
     (if cnt > maxArray then PFail (TooManyTensors cnt)
      else if \<not> allocates h cnt 56 then PCrash
      else readMany cnt (readTensor h v2) s)"

section \<open>The file\<close>

record rope_scaling =
  rp_type :: string
  rp_factor :: gfloat
  rp_original :: int
  rp_finetuned :: bool

record gguf =
  gg_version :: nat
  gg_tensorCount :: nat
  gg_kvCount :: nat
  gg_metadata :: "string \<rightharpoonup> gval"
  gg_arch :: string
  gg_name :: string
  gg_paramCount :: int
  gg_quantVersion :: int
  gg_contextLength :: int
  gg_embeddingLength :: int
  gg_layerCount :: int
  gg_headCount :: int
  gg_headCountKV :: int
  gg_headCountKVGroup :: int
  gg_keyLength :: int
  gg_valueLength :: int
  gg_fullAttentionInterval :: int
  gg_feedForwardLength :: int
  gg_ropeFreqBase :: gfloat
  gg_ropeScaling :: rope_scaling
  gg_expertCount :: int
  gg_expertUsedCount :: int
  gg_expertFFLength :: int
  gg_expertSharedFFLength :: int
  gg_fileSize :: int
  gg_splitCount :: int
  gg_splitMissing :: "string list"
  gg_tensors :: "tensor_info list"

definition getString :: "(string \<rightharpoonup> gval) \<Rightarrow> string \<Rightarrow> string option" where
  "getString m k = (case m k of Some (GStr s) \<Rightarrow> Some s | _ \<Rightarrow> None)"

text \<open>\<open>int64\<close> of a float; values it cannot hold give the least integer, as on amd64.\<close>

definition floatInt :: "gfloat \<Rightarrow> int" where
  "floatInt x = (case x of GFin q \<Rightarrow> goInt q | _ \<Rightarrow> - (2 ^ 63))"

definition getInt64 :: "(string \<rightharpoonup> gval) \<Rightarrow> string \<Rightarrow> int option" where
  "getInt64 m k = (case m k of Some (GInt n) \<Rightarrow> Some n | Some (GFloat x) \<Rightarrow> Some (floatInt x) | _ \<Rightarrow> None)"

definition getFloat64 :: "(string \<rightharpoonup> gval) \<Rightarrow> string \<Rightarrow> gfloat option" where
  "getFloat64 m k = (case m k of Some (GFloat x) \<Rightarrow> Some x | Some (GInt n) \<Rightarrow> Some (GFin (float64 n)) | _ \<Rightarrow> None)"

definition getBool :: "(string \<rightharpoonup> gval) \<Rightarrow> string \<Rightarrow> bool option" where
  "getBool m k = (case m k of Some (GBool b) \<Rightarrow> Some b | _ \<Rightarrow> None)"

definition orZero :: "int option \<Rightarrow> int" where
  "orZero x = (case x of Some n \<Rightarrow> n | None \<Rightarrow> 0)"

definition orEmpty :: "string option \<Rightarrow> string" where
  "orEmpty x = (case x of Some s \<Rightarrow> s | None \<Rightarrow> [])"

definition orZeroF :: "gfloat option \<Rightarrow> gfloat" where
  "orZeroF x = (case x of Some f \<Rightarrow> f | None \<Rightarrow> GFin 0)"

definition ropeOf :: "(string \<rightharpoonup> gval) \<Rightarrow> string \<Rightarrow> rope_scaling" where
  "ropeOf m arch =
     (case getString m (arch @ ''.rope.scaling.type'') of
        None \<Rightarrow> \<lparr>rp_type = [], rp_factor = GFin 0, rp_original = 0, rp_finetuned = False\<rparr>
      | Some t \<Rightarrow> \<lparr>rp_type = t, rp_factor = orZeroF (getFloat64 m (arch @ ''.rope.scaling.factor'')),
          rp_original = orZero (getInt64 m (arch @ ''.rope.scaling.original_length'')),
          rp_finetuned = (getBool m (arch @ ''.rope.scaling.finetuned'') = Some True)\<rparr>)"

definition describe :: "nat \<Rightarrow> nat \<Rightarrow> nat \<Rightarrow> (string \<rightharpoonup> gval) \<Rightarrow> tensor_info list \<Rightarrow> gguf" where
  "describe version tensorCount kvCount m ts =
     (let a0 = orEmpty (getString m ''general.architecture''); arch = (if a0 = [] then ''llama'' else a0);
          num = (\<lambda>k. orZero (getInt64 m (arch @ k))) in
      \<lparr>gg_version = version, gg_tensorCount = tensorCount, gg_kvCount = kvCount, gg_metadata = m,
       gg_arch = a0, gg_name = orEmpty (getString m ''general.name''),
       gg_paramCount = orZero (getInt64 m ''general.parameter_count''),
       gg_quantVersion = orZero (getInt64 m ''general.quantization_version''),
       gg_contextLength = num ''.context_length'', gg_embeddingLength = num ''.embedding_length'',
       gg_layerCount = num ''.block_count'', gg_headCount = num ''.attention.head_count'',
       gg_headCountKV = num ''.attention.head_count_kv'',
       gg_headCountKVGroup = num ''.attention.key_head_count_kv_group'',
       gg_keyLength = num ''.attention.key_length'', gg_valueLength = num ''.attention.value_length'',
       gg_fullAttentionInterval = num ''.full_attention_interval'',
       gg_feedForwardLength = num ''.feed_forward_length'',
       gg_ropeFreqBase = orZeroF (getFloat64 m (arch @ ''.rope.freq_base'')), gg_ropeScaling = ropeOf m arch,
       gg_expertCount = num ''.expert_count'', gg_expertUsedCount = num ''.expert_used_count'',
       gg_expertFFLength = num ''.expert_feed_forward_length'',
       gg_expertSharedFFLength = num ''.expert_shared_feed_forward_length'',
       gg_fileSize = 0, gg_splitCount = 0, gg_splitMissing = [], gg_tensors = ts\<rparr>)"

text \<open>\<open>Parse\<close>. A tensor table that cannot be read is dropped; a crash in it is a crash.\<close>

definition parseGguf :: "gguf_host \<Rightarrow> string \<Rightarrow> gguf pres" where
  "parseGguf h s =
     andThen (readN 4 s) (\<lambda>m s1.
       if m \<noteq> ''GGUF'' then PFail BadMagic
       else andThen (readU 4 s1) (\<lambda>version s2.
         if version \<noteq> 2 \<and> version \<noteq> 3 then PFail (BadVersion version)
         else andThen (readU 8 s2) (\<lambda>tc s3. andThen (readU 8 s3) (\<lambda>kc s4.
           if \<not> gh_mapHint h kc then PCrash
           else andThen (readEntries h (version = 2) kc Map.empty s4) (\<lambda>md s5.
             case readTensorInfos h tc (version = 2) s5 of
               PDone ts s6 \<Rightarrow> PDone (describe version tc kc md ts) s6
             | PFail e \<Rightarrow> PDone (describe version tc kc md []) []
             | PCrash \<Rightarrow> PCrash)))))"

section \<open>Reading never goes back\<close>

definition shrinks :: "(string \<Rightarrow> 'a pres) \<Rightarrow> bool" where
  "shrinks rd = (\<forall>s x r. rd s = PDone x r \<longrightarrow> length r \<le> length s)"

definition fueled :: "nat \<Rightarrow> (string \<Rightarrow> 'a pres) \<Rightarrow> bool" where
  "fueled n rd = (\<forall>s. length s \<le> n \<longrightarrow> rd s \<noteq> PFail NestingFuel)"

lemma andThen_done: "andThen p f = PDone y q \<longleftrightarrow> (\<exists>x r. p = PDone x r \<and> f x r = PDone y q)"
  by (cases p) auto

lemma andThen_fail: "andThen p f = PFail e \<longleftrightarrow> p = PFail e \<or> (\<exists>x r. p = PDone x r \<and> f x r = PFail e)"
  by (cases p) auto

lemma readN_done: "readN n s = PDone x r \<Longrightarrow> length r = length s - n \<and> n \<le> length s"
  by (auto simp: readN_def split: if_splits)

lemma readU_done: "readU n s = PDone x r \<Longrightarrow> length r = length s - n \<and> n \<le> length s"
  by (auto simp: readU_def andThen_done dest: readN_done)

lemma readN_fuel [simp]: "readN n s \<noteq> PFail NestingFuel"
  by (simp add: readN_def)

lemma readU_fuel [simp]: "readU n s \<noteq> PFail NestingFuel"
  by (simp add: readU_def andThen_fail)

lemma shrinks_then:
  "shrinks rd \<Longrightarrow> (\<And>x. shrinks (f x)) \<Longrightarrow> shrinks (\<lambda>s. andThen (rd s) f)"
  by (fastforce simp: shrinks_def andThen_done intro: order_trans)

lemma shrinks_done [simp]: "shrinks (PDone x)"
  by (simp add: shrinks_def)

lemma shrinks_if: "(b \<Longrightarrow> shrinks f) \<Longrightarrow> (\<not> b \<Longrightarrow> shrinks g) \<Longrightarrow> shrinks (\<lambda>s. if b then f s else g s)"
  by (simp add: shrinks_def)

lemma shrinks_const [simp]: "shrinks (\<lambda>s. PFail e)" "shrinks (\<lambda>s. PCrash)"
  by (simp_all add: shrinks_def)

lemma shrinks_N [simp]: "shrinks (readN n)" "shrinks (readU n)"
  by (auto simp: shrinks_def dest: readN_done readU_done)

lemma shrinks_len [simp]: "shrinks (readLen v2)"
proof -
  have "shrinks (\<lambda>s. if v2 then andThen (readU 1 s) (\<lambda>n r. if n = 255 then readU 8 r else PDone n r) else readU 8 s)"
    by (intro shrinks_if shrinks_then) simp_all
  then show ?thesis by (simp add: readLen_def [abs_def])
qed

lemma shrinks_string [simp]: "shrinks (readString h v2)"
proof -
  have "shrinks (\<lambda>s. andThen (readLen v2 s) (\<lambda>n r. if allocates h n 1 then readN n r else PCrash))"
    by (intro shrinks_if shrinks_then) simp_all
  then show ?thesis by (simp add: readString_def [abs_def])
qed

lemma shrinks_many: "shrinks rd \<Longrightarrow> shrinks (readMany n rd)"
proof (induction n)
  case 0
  then show ?case by (simp add: shrinks_def)
next
  case (Suc n)
  have "shrinks (\<lambda>s. andThen (rd s) (\<lambda>x r. andThen (readMany n rd r) (\<lambda>xs q. PDone (x # xs) q)))"
    using Suc by (intro shrinks_then) simp_all
  then show ?case by simp
qed

lemma shrinks_float [simp]: "shrinks readF32" "shrinks readF64"
proof -
  have "shrinks (\<lambda>s. andThen (readU n s) (\<lambda>x r. PDone (f x) r))" for n and f :: "nat \<Rightarrow> gfloat"
    by (intro shrinks_then) simp_all
  then show "shrinks readF32" "shrinks readF64" by (simp_all add: readF32_def [abs_def] readF64_def [abs_def])
qed

lemma shrinks_intElem [simp]: "shrinks (intElem v)"
  by (cases v) (simp_all add: intElem_def [abs_def])

lemma shrinks_elems: "(\<And>t. shrinks (rd t)) \<Longrightarrow> shrinks (readElems h v2 rd elem n)"
  unfolding readElems_def [abs_def] by (intro shrinks_if shrinks_then shrinks_many) simp_all

lemma shrinks_scalar: "shrinks (readScalar h v2 ty)"
  unfolding readScalar_def [abs_def] by (intro shrinks_if shrinks_then) simp_all

lemma shrinks_value: "shrinks (readValue d h v2 ty)"
proof (induction d arbitrary: ty)
  case 0
  then show ?case by simp
next
  case (Suc d)
  have "shrinks (\<lambda>s. if scalarType ty then readScalar h v2 ty s
      else if ty = 9
      then andThen (readU 4 s) (\<lambda>elem r. andThen (readU 8 r) (\<lambda>n q.
             if n > maxArray then PFail (ArrayTooLong n) else readElems h v2 (readValue d h v2) elem n q))
      else if ty \<ge> 65536
      then andThen (readU 8 s) (\<lambda>n q. readElems h v2 (readValue d h v2) (ty div 65536) n q)
      else PFail (BadType ty))"
    using Suc by (intro shrinks_if shrinks_then shrinks_elems shrinks_scalar) simp_all
  then show ?case by simp
qed

section \<open>The fuel is enough\<close>

lemma readLen_fuel [simp]: "readLen v2 s \<noteq> PFail NestingFuel"
  by (simp add: readLen_def andThen_fail)

lemma readString_fuel [simp]: "readString h v2 s \<noteq> PFail NestingFuel"
  by (simp add: readString_def andThen_fail)

lemma readF_fuel [simp]: "readF32 s \<noteq> PFail NestingFuel" "readF64 s \<noteq> PFail NestingFuel"
  by (simp_all add: readF32_def readF64_def andThen_fail)

lemma readMany_fuel: "shrinks rd \<Longrightarrow> fueled k rd \<Longrightarrow> fueled k (readMany n rd)"
proof (induction n)
  case (Suc n)
  then have ih: "fueled k (readMany n rd)" by blast
  show ?case using Suc.prems ih by (fastforce simp: fueled_def andThen_fail shrinks_def)
qed (simp add: fueled_def)

lemma readElems_fuel:
  assumes "\<And>t. shrinks (rd t)" and "\<And>t. fueled k (rd t)"
  shows "fueled k (readElems h v2 rd elem n)"
proof -
  have i: "fueled k (\<lambda>q. andThen (rd elem q) intElem)"
    using assms(2) by (auto simp: fueled_def andThen_fail intElem_def split: gval.splits)
  have s: "shrinks (\<lambda>q. andThen (rd elem q) intElem)" using assms(1) by (intro shrinks_then) simp_all
  have m: "fueled k (readMany n (\<lambda>q. andThen (rd elem q) intElem))" using s i by (rule readMany_fuel)
  have "fueled k (readMany n (readString h v2))" "fueled k (readMany n readF32)" "fueled k (readMany n readF64)"
    by (intro readMany_fuel; simp add: fueled_def)+
  with m show ?thesis by (auto simp: fueled_def readElems_def andThen_fail)
qed

lemma readValue_fuel: "length s < d \<Longrightarrow> readValue d h v2 ty s \<noteq> PFail NestingFuel"
proof (induction d arbitrary: s ty)
  case (Suc d)
  have el: "readElems h v2 (readValue d h v2) elem n q \<noteq> PFail NestingFuel" if "length q < d" for elem n q
  proof -
    have "fueled (d - 1) (readValue d h v2 t)" for t using Suc.IH that by (auto simp: fueled_def)
    then show ?thesis using readElems_fuel [of "readValue d h v2" "d - 1" h v2 elem n] shrinks_value that
      by (auto simp: fueled_def)
  qed
  have sc: "readScalar h v2 ty s \<noteq> PFail NestingFuel" by (simp add: readScalar_def andThen_fail)
  show ?case
  proof
    assume a: "readValue (Suc d) h v2 ty s = PFail NestingFuel"
    then consider elem r n q where "readU 4 s = PDone elem r" "readU 8 r = PDone n q"
        "readElems h v2 (readValue d h v2) elem n q = PFail NestingFuel"
      | n q where "readU 8 s = PDone n q" "readElems h v2 (readValue d h v2) (ty div 65536) n q = PFail NestingFuel"
      using sc by (auto simp: andThen_fail split: if_splits)
    then show False
    proof cases
      case 1
      have "length q < d" using readU_done [OF 1(1)] readU_done [OF 1(2)] Suc.prems by linarith
      then show ?thesis using el 1(3) by blast
    next
      case 2
      have "length q < d" using readU_done [OF 2(1)] Suc.prems by linarith
      then show ?thesis using el 2(2) by blast
    qed
  qed
qed simp

lemma readEntries_fuel: "readEntries h v2 n md s \<noteq> PFail NestingFuel"
proof (induction n arbitrary: md s)
  case (Suc n)
  have "readKey v2 s \<noteq> PFail NestingFuel" by (simp add: readKey_def andThen_fail)
  then show ?case using Suc readValue_fuel by (auto simp: andThen_fail simp del: readValue.simps)
qed simp

lemma parseGguf_fuel: "parseGguf h s \<noteq> PFail NestingFuel"
  using readEntries_fuel by (auto simp: parseGguf_def andThen_fail split: pres.splits if_splits)

section \<open>Writing\<close>

text \<open>
  The reference encoder of version 3: what a writer of the format puts into a file. The source of a value
  names its type in the file; integers are written with eight bytes, floats by their bits.
\<close>

definition encU :: "nat \<Rightarrow> nat \<Rightarrow> string" where
  "encU k n = map (\<lambda>i. char_of (n div 256 ^ i)) [0..<k]"

definition encStr :: "string \<Rightarrow> string" where
  "encStr x = encU 8 (length x) @ x"

datatype gsrc =
    SStr string | SBool bool | SInt int | SFloat nat
  | SStrs "string list" | SInts "int list" | SFloats "nat list"

definition bits64 :: "int \<Rightarrow> nat" where
  "bits64 n = nat (n mod 2 ^ 64)"

fun srcType :: "gsrc \<Rightarrow> nat" where
  "srcType (SStr x) = 8"
| "srcType (SBool b) = 7"
| "srcType (SInt n) = 11"
| "srcType (SFloat f) = 12"
| "srcType v = 9"

fun srcBytes :: "gsrc \<Rightarrow> string" where
  "srcBytes (SStr x) = encStr x"
| "srcBytes (SBool b) = encU 1 (if b then 1 else 0)"
| "srcBytes (SInt n) = encU 8 (bits64 n)"
| "srcBytes (SFloat f) = encU 8 f"
| "srcBytes (SStrs xs) = encU 4 8 @ encU 8 (length xs) @ concat (map encStr xs)"
| "srcBytes (SInts ns) = encU 4 11 @ encU 8 (length ns) @ concat (map (encU 8 \<circ> bits64) ns)"
| "srcBytes (SFloats fs) = encU 4 12 @ encU 8 (length fs) @ concat (map (encU 8) fs)"

fun srcVal :: "gsrc \<Rightarrow> gval" where
  "srcVal (SStr x) = GStr x"
| "srcVal (SBool b) = GBool b"
| "srcVal (SInt n) = GInt n"
| "srcVal (SFloat f) = GFloat (floatBits 11 52 f)"
| "srcVal (SStrs xs) = GStrs xs"
| "srcVal (SInts ns) = GInts ns"
| "srcVal (SFloats fs) = GFloats (map (floatBits 11 52) fs)"

definition encEntry :: "string \<times> gsrc \<Rightarrow> string" where
  "encEntry e = encStr (fst e) @ encU 4 (srcType (snd e)) @ srcBytes (snd e)"

definition encTensor :: "tensor_info \<Rightarrow> string" where
  "encTensor t =
     encStr (ti_name t) @ encU 4 (length (ti_dims t)) @ concat (map (encU 8) (ti_dims t)) @ encU 4 (ti_type t) @ encU 8 (ti_offset t)"

definition encFile :: "(string \<times> gsrc) list \<Rightarrow> tensor_info list \<Rightarrow> string" where
  "encFile kvs ts =
     ''GGUF'' @ encU 4 3 @ encU 8 (length ts) @ encU 8 (length kvs) @ concat (map encEntry kvs) @ concat (map encTensor ts)"

text \<open>What the reader accepts: sizes within the limits of the format, of the reader and of the host.\<close>

definition strOk :: "gguf_host \<Rightarrow> string \<Rightarrow> bool" where
  "strOk h x = (length x < 2 ^ 64 \<and> allocates h (length x) 1)"

definition arrOk :: "gguf_host \<Rightarrow> nat \<Rightarrow> nat \<Rightarrow> bool" where
  "arrOk h n sz = (n \<le> maxArray \<and> allocates h n sz)"

fun srcOk :: "gguf_host \<Rightarrow> gsrc \<Rightarrow> bool" where
  "srcOk h (SStr x) = strOk h x"
| "srcOk h (SBool b) = True"
| "srcOk h (SInt n) = inI64 n"
| "srcOk h (SFloat f) = (f < 2 ^ 64)"
| "srcOk h (SStrs xs) = (arrOk h (length xs) 16 \<and> list_all (strOk h) xs)"
| "srcOk h (SInts ns) = (arrOk h (length ns) 8 \<and> list_all inI64 ns)"
| "srcOk h (SFloats fs) = (arrOk h (length fs) 8 \<and> list_all (\<lambda>f. f < 2 ^ 64) fs)"

definition entryOk :: "gguf_host \<Rightarrow> string \<times> gsrc \<Rightarrow> bool" where
  "entryOk h e = (length (fst e) \<le> 65536 \<and> srcOk h (snd e))"

definition tensorOk :: "gguf_host \<Rightarrow> tensor_info \<Rightarrow> bool" where
  "tensorOk h t =
     (strOk h (ti_name t) \<and> length (ti_dims t) \<le> 8 \<and> list_all (\<lambda>n. n < 2 ^ 64) (ti_dims t)
      \<and> ti_type t < 2 ^ 32 \<and> ti_offset t < 2 ^ 64)"

definition fileOk :: "gguf_host \<Rightarrow> (string \<times> gsrc) list \<Rightarrow> tensor_info list \<Rightarrow> bool" where
  "fileOk h kvs ts =
     (length kvs < 2 ^ 64 \<and> gh_mapHint h (length kvs) \<and> list_all (entryOk h) kvs
      \<and> arrOk h (length ts) 56 \<and> list_all (tensorOk h) ts)"

section \<open>Reading back what was written\<close>

lemma encU_length [simp]: "length (encU k n) = k"
  by (simp add: encU_def)

lemma leNat_Nil [simp]: "leNat [] = 0"
  by (simp add: leNat_def)

lemma leNat_Cons [simp]: "leNat (c # b) = of_char c + 256 * leNat b"
  by (simp add: leNat_def)

lemma encU_Suc: "encU (Suc k) n = char_of (n mod 256) # encU k (n div 256)"
proof -
  have "map (\<lambda>i. char_of (n div 256 ^ i) :: char) [0..<Suc k] = char_of n # map (\<lambda>i. char_of (n div 256 ^ Suc i)) [0..<k]"
    by (simp add: map_upt_Suc del: upt_Suc)
  then show ?thesis by (simp add: encU_def div_mult2_eq)
qed

lemma leNat_encU: "leNat (encU k n) = n mod 256 ^ k"
proof (induction k arbitrary: n)
  case 0
  then show ?case by (simp add: encU_def)
next
  case (Suc k)
  then show ?case by (simp add: encU_Suc mod_mult2_eq)
qed

lemma readN_append [simp]: "length x = n \<Longrightarrow> readN n (x @ r) = PDone x r"
  by (auto simp: readN_def)

lemma readU_encU [simp]: "readU k (encU k n @ r) = PDone (n mod 256 ^ k) r"
  by (simp add: readU_def leNat_encU)

lemma readString_enc [simp]: "strOk h x \<Longrightarrow> readString h False (encStr x @ r) = PDone x r"
  by (simp add: readString_def readLen_def encStr_def strOk_def)

lemma readMany_enc:
  "(\<And>x r. x \<in> set xs \<Longrightarrow> rd (enc x @ r) = PDone (f x) r) \<Longrightarrow>
   readMany (length xs) rd (concat (map enc xs) @ r) = PDone (map f xs) r"
  by (induction xs) simp_all

lemma readF64_enc [simp]: "f < 2 ^ 64 \<Longrightarrow> readF64 (encU 8 f @ r) = PDone (floatBits 11 52 f) r"
  by (simp add: readF64_def)

lemma signed_bits64: "inI64 n \<Longrightarrow> signedOf 64 (bits64 n) = n"
proof (cases "0 \<le> n")
  case True
  then show "inI64 n \<Longrightarrow> signedOf 64 (bits64 n) = n" by (simp add: inI64_def signedOf_def bits64_def)
next
  case False
  assume i: "inI64 n"
  have "n mod 2 ^ 64 = (n + 2 ^ 64) mod 2 ^ 64" by simp
  also have "\<dots> = n + 2 ^ 64" using i False by (intro mod_pos_pos_trivial) (simp_all add: inI64_def)
  finally have b: "bits64 n = nat (n + 2 ^ 64)" by (simp add: bits64_def)
  moreover have "0 \<le> n + 2 ^ 64" "\<not> nat (n + 2 ^ 64) < 2 ^ 63" using i False by (simp_all add: inI64_def)
  ultimately show "signedOf 64 (bits64 n) = n" by (simp add: signedOf_def)
qed

lemma bits64_range: "bits64 n < 2 ^ 64"
  by (simp add: bits64_def nat_less_iff)

lemma readInt_enc: "inI64 n \<Longrightarrow> readValue (Suc d) h v2 11 (encU 8 (bits64 n) @ r) = PDone (GInt n) r"
  using signed_bits64 [of n] bits64_range [of n] by (simp add: scalarType_def readScalar_def)

lemma small_count: "arrOk h n sz \<Longrightarrow> n mod 18446744073709551616 = n \<and> n \<le> maxArray \<and> allocates h n sz"
  by (simp add: arrOk_def maxArray_def)

lemma readValue_enc:
  assumes "srcOk h v"
  shows "readValue (Suc (Suc d)) h False (srcType v) (srcBytes v @ r) = PDone (srcVal v) r"
proof (cases v)
  case (SInts ns)
  have "readMany (length ns) (\<lambda>q. andThen (readValue (Suc d) h False 11 q) intElem) (concat (map (encU 8 \<circ> bits64) ns) @ r) = PDone ns r"
    using readMany_enc [of ns "\<lambda>q. andThen (readValue (Suc d) h False 11 q) intElem" "encU 8 \<circ> bits64" id r] assms readInt_enc
    by (simp add: SInts intElem_def list_all_iff del: readValue.simps)
  then show ?thesis using small_count [of h "length ns" 8] assms
    by (simp add: SInts scalarType_def readElems_def del: readValue.simps(2)) (simp add: scalarType_def readElems_def)
next
  case (SStrs xs)
  have "readMany (length xs) (readString h False) (concat (map encStr xs) @ r) = PDone xs r"
    using readMany_enc [of xs "readString h False" encStr id r] assms by (simp add: SStrs list_all_iff)
  then show ?thesis using small_count [of h "length xs" 16] assms
    by (simp add: SStrs scalarType_def readElems_def)
next
  case (SFloats fs)
  have "readMany (length fs) readF64 (concat (map (encU 8) fs) @ r) = PDone (map (floatBits 11 52) fs) r"
    using readMany_enc [of fs readF64 "encU 8" "floatBits 11 52" r] assms by (simp add: SFloats list_all_iff)
  then show ?thesis using small_count [of h "length fs" 8] assms
    by (simp add: SFloats scalarType_def readElems_def)
next
  case (SInt n)
  then show ?thesis using readInt_enc [of n "Suc d"] assms by simp
qed (use assms in \<open>simp_all add: scalarType_def readScalar_def\<close>)

lemma srcBytes_nonempty: "0 < length (srcBytes v)"
  by (cases v) (simp_all add: encStr_def)

lemma readKey_enc:
  "length k \<le> 65536 \<Longrightarrow> readKey False (encStr k @ encU 4 t @ r) = PDone (k, t mod 2 ^ 32) r"
  by (simp add: readKey_def readLen_def encStr_def)

lemma srcType_small: "srcType v mod 4294967296 = srcType v"
  by (cases v) simp_all

lemma readEntries_enc:
  "list_all (entryOk h) kvs \<Longrightarrow>
   readEntries h False (length kvs) md (concat (map encEntry kvs) @ r) =
     PDone (foldl (\<lambda>m e. m(fst e \<mapsto> srcVal (snd e))) md kvs) r"
proof (induction kvs arbitrary: md)
  case (Cons e kvs)
  let ?r = "srcBytes (snd e) @ concat (map encEntry kvs) @ r"
  have k: "readKey False (encStr (fst e) @ encU 4 (srcType (snd e)) @ ?r) = PDone (fst e, srcType (snd e)) ?r"
    using readKey_enc [of "fst e" "srcType (snd e)" ?r] Cons.prems srcType_small by (simp add: entryOk_def)
  obtain d where d: "length ?r = Suc d" using srcBytes_nonempty [of "snd e"] by (cases "length ?r") auto
  have v: "readValue (Suc (length ?r)) h False (srcType (snd e)) ?r = PDone (srcVal (snd e)) (concat (map encEntry kvs) @ r)"
    unfolding d using Cons.prems by (intro readValue_enc) (simp add: entryOk_def)
  have "readEntries h False (length (e # kvs)) md (concat (map encEntry (e # kvs)) @ r) =
      readEntries h False (length kvs) (md(fst e \<mapsto> srcVal (snd e))) (concat (map encEntry kvs) @ r)"
    using k v by (simp add: encEntry_def del: readValue.simps)
  then show ?case using Cons.IH Cons.prems by simp
qed simp

lemma readTensor_enc: "tensorOk h t \<Longrightarrow> readTensor h False (encTensor t @ r) = PDone t r"
proof -
  assume ok: "tensorOk h t"
  have d: "readMany (length (ti_dims t)) (readU 8) (concat (map (encU 8) (ti_dims t)) @ q) = PDone (ti_dims t) q" for q
    using readMany_enc [of "ti_dims t" "readU 8" "encU 8" id q] ok by (simp add: tensorOk_def list_all_iff)
  have l: "length (ti_dims t) mod 4294967296 = length (ti_dims t)" using ok by (simp add: tensorOk_def)
  show ?thesis using ok d l by (simp add: readTensor_def encTensor_def tensorOk_def)
qed

lemma readTensorInfos_enc:
  assumes "list_all (tensorOk h) ts" and "arrOk h (length ts) 56"
  shows "readTensorInfos h (length ts) False (concat (map encTensor ts) @ r) = PDone ts r"
  using readMany_enc [of ts "readTensor h False" encTensor id r] readTensor_enc assms
  by (simp add: readTensorInfos_def arrOk_def list_all_iff)

text \<open>
  Every input has a result: the reader terminates with a description, an error of its own, or the crash of
  an allocation, and never for lack of fuel; it only moves forward in the input.
\<close>

theorem parse_terminates:
  "parseGguf h s \<noteq> PFail NestingFuel
   \<and> (case readEntries h v2 n md s of PDone m r \<Rightarrow> length r \<le> length s | _ \<Rightarrow> True)"
proof -
  have "shrinks (readEntries h v2 n md)"
  proof (induction n arbitrary: md)
    case (Suc n)
    have k: "shrinks (readKey v2)" unfolding readKey_def [abs_def] by (intro shrinks_if shrinks_then) simp_all
    show ?case
      unfolding shrinks_def
    proof (intro allI impI)
      fix s x r
      assume "readEntries h v2 (Suc n) md s = PDone x r"
      then obtain kt q v u where kt: "readKey v2 s = PDone kt q" and v: "readValue (Suc (length q)) h v2 (snd kt) q = PDone v u"
        and e: "readEntries h v2 n (md(fst kt \<mapsto> v)) u = PDone x r"
        by (auto simp: andThen_done simp del: readValue.simps)
      have "length q \<le> length s" using k kt unfolding shrinks_def by blast
      moreover have "length u \<le> length q" using shrinks_value [of "Suc (length q)" h v2 "snd kt"] v by (auto simp: shrinks_def)
      moreover have "length r \<le> length u" using Suc e by (auto simp: shrinks_def)
      ultimately show "length r \<le> length s" by simp
    qed
  qed (simp add: shrinks_def)
  then show ?thesis using parseGguf_fuel by (auto simp: shrinks_def split: pres.splits)
qed


section \<open>What the reader does not survive\<close>

text \<open>A host on which a slice can have at most 128 TiB.\<close>

definition amd64 :: gguf_host where
  "amd64 = \<lparr>gh_alloc = 2 ^ 47, gh_mapHint = (\<lambda>n. n \<le> 2 ^ 40)\<rparr>"

text \<open>One entry with an empty key and a string of the given length, of which nothing follows.\<close>

definition longString :: "nat \<Rightarrow> string" where
  "longString n = ''GGUF'' @ encU 4 3 @ encU 8 0 @ encU 8 1 @ encStr [] @ encU 4 8 @ encU 8 n"

definition boolArray :: "bool list \<Rightarrow> string" where
  "boolArray bs = ''GGUF'' @ encU 4 3 @ encU 8 0 @ encU 8 1 @ encStr ''x'' @ encU 4 9 @ encU 4 7 @ encU 8 (length bs)
     @ concat (map (\<lambda>b. encU 1 (if b then 1 else 0)) bs)"



end
