(* ===== verification/Gguf_Model.thy ===== *)
theory Gguf_Model
  imports Gguf_Parse Fit Perf_Stats
begin

text \<open>
  What is computed from a model file: its sizes (\<open>pkg/gguf/gguf.go\<close>), the bytes of its experts and the
  recommended number of expert layers on the CPU (\<open>pkg/gguf/offload.go\<close>), the set of files of a split
  model (\<open>pkg/gguf/split.go\<close>), the shape handed to the fit engine (\<open>ShapeFromGGUF\<close> of \<open>fit/fit.go\<close>) and
  the recommended context (\<open>server/apimodels.go\<close>).

  The files are a function from paths (\<open>gguf_fs\<close>); the layer of a tensor and the numbers of a shard name
  are found by regular expressions, written out as scans.
\<close>

named_theorems size_defs "unfolding rules of the size estimates"

section \<open>Sizes\<close>

definition isMoE :: "gguf \<Rightarrow> bool" where
  "isMoE g = (gg_expertCount g > 0)"

definition isMTP :: "gguf \<Rightarrow> bool" where
  "isMTP g = list_ex (\<lambda>t. contains (toLower (ti_name t)) ''nextn'') (gg_tensors g)"

definition bitsPerWeight :: "gguf \<Rightarrow> int" where
  "bitsPerWeight g =
     (if gg_arch g \<in> {''gemma'', ''gemma2''} then 8
      else if gg_arch g \<in> {''phi3'', ''phi3mini'', ''phi3v''} then 8 else 4)"

definition weightBytes :: "gguf \<Rightarrow> int" where
  "weightBytes g =
     (if gg_fileSize g > 0 then gg_fileSize g
      else if gg_paramCount g \<le> 0 then 0
      else i64 (i64 (gg_paramCount g * bitsPerWeight g) + 7) sdiv 8)"

definition kvDims :: "gguf \<Rightarrow> int" where
  "kvDims g =
     (if gg_headCountKV g > 0 \<and> gg_headCount g > 0
      then i64 (gg_embeddingLength g sdiv gg_headCount g * gg_headCountKV g) else gg_embeddingLength g)"

definition bytesPerEntry :: "gguf \<Rightarrow> int" where
  "bytesPerEntry g = i64 (i64 (kvDims g * 2) * 2)"

definition kvCacheBytes :: "gguf \<Rightarrow> int \<Rightarrow> int" where
  "kvCacheBytes g ctxLen =
     (if gg_layerCount g \<le> 0 \<or> gg_embeddingLength g \<le> 0 then 0
      else i64 (i64 (ctxLen * gg_layerCount g) * bytesPerEntry g))"

definition vramBytes :: "gguf \<Rightarrow> int \<Rightarrow> int" where
  "vramBytes g ctxLen =
     (let w = weightBytes g; kv = kvCacheBytes g ctxLen;
          overhead = i64 (i64 (w + kv) * 5) sdiv 100
      in i64 (i64 (w + kv) + overhead))"

definition minCtxSize :: "gguf \<Rightarrow> int" where
  "minCtxSize g = (if gg_contextLength g > 0 then gg_contextLength g else 2048)"

definition maxCtxSize :: "gguf \<Rightarrow> int \<Rightarrow> int" where
  "maxCtxSize g free =
     (if free \<le> 0 \<or> gg_layerCount g \<le> 0 \<or> gg_embeddingLength g \<le> 0 then 0
      else let w = weightBytes g in
        if w \<ge> free then 0
        else let kvBudget = i64 (i64 (free - w) - i64 (w * 5) sdiv 100) in
          if kvBudget \<le> 0 then 0
          else let perCtx = i64 (gg_layerCount g * bytesPerEntry g) in
            if perCtx \<le> 0 then 0 else kvBudget sdiv perCtx)"

section \<open>Experts\<close>

definition isExpertTensor :: "string \<Rightarrow> bool" where
  "isExpertTensor name = contains name ''_exps''"

definition tensorElements :: "nat list \<Rightarrow> int" where
  "tensorElements dims = (if dims = [] then 0 else foldl (\<lambda>n d. i64 (n * i64 (int d))) 1 dims)"

definition hasTensorInfo :: "gguf \<Rightarrow> bool" where
  "hasTensorInfo g = (gg_tensors g \<noteq> [])"

text \<open>The expression for \<open>blk.N.\<close> at the start of a name or after a dot, leftmost.\<close>

definition blkHere :: "string \<Rightarrow> string option" where
  "blkHere s =
     (case cutPrefix s ''blk.'' of
        None \<Rightarrow> None
      | Some r \<Rightarrow> (let ds = takeWhile isDigitCh r in
          if ds \<noteq> [] \<and> hasPrefix (drop (length ds) r) ''.'' then Some ds else None))"

fun blkAfterDot :: "string \<Rightarrow> string option" where
  "blkAfterDot [] = None"
| "blkAfterDot (c # cs) =
     (case (if c = CHR ''.'' then blkHere cs else None) of Some ds \<Rightarrow> Some ds | None \<Rightarrow> blkAfterDot cs)"

definition blkLayer :: "string \<Rightarrow> string option" where
  "blkLayer name = (case blkHere name of Some ds \<Rightarrow> Some ds | None \<Rightarrow> blkAfterDot name)"

definition layerOf :: "string \<Rightarrow> int option" where
  "layerOf name = (case blkLayer name of Some ds \<Rightarrow> parseInt64 ds | None \<Rightarrow> None)"

definition atLayer :: "(int \<rightharpoonup> int) \<Rightarrow> int \<Rightarrow> int" where
  "atLayer m l = (case m l of Some b \<Rightarrow> b | None \<Rightarrow> 0)"

text \<open>One round of the loop: all elements, those of experts, those of experts by layer.\<close>

definition countTensor :: "int \<times> int \<times> (int \<rightharpoonup> int) \<Rightarrow> tensor_info \<Rightarrow> int \<times> int \<times> (int \<rightharpoonup> int)" where
  "countTensor acc t =
     (case acc of (tot, exps, m) \<Rightarrow>
        let elems = tensorElements (ti_dims t); tot' = i64 (tot + elems) in
        if \<not> isExpertTensor (ti_name t) then (tot', exps, m)
        else (tot', i64 (exps + elems),
              case layerOf (ti_name t) of Some l \<Rightarrow> m(l \<mapsto> i64 (atLayer m l + elems)) | None \<Rightarrow> m))"

definition expertWeightBytes :: "gguf \<Rightarrow> (int \<times> (int \<rightharpoonup> int)) option" where
  "expertWeightBytes g =
     (if \<not> hasTensorInfo g \<or> gg_fileSize g \<le> 0 then None
      else case foldl countTensor (0, 0, Map.empty) (gg_tensors g) of
        (tot, exps, m) \<Rightarrow>
          if tot \<le> 0 \<or> exps \<le> 0 then None
          else let bytesPerElem = fdiv (float64 (gg_fileSize g)) (float64 tot) in
            Some (goInt (fmul (float64 exps) bytesPerElem),
                  \<lambda>l. map_option (\<lambda>e. goInt (fmul (float64 e) bytesPerElem)) (m l)))"

definition expertRatio :: "int \<Rightarrow> int \<Rightarrow> rat" where
  "expertRatio expertParams params =
     (let r = fdiv (float64 expertParams) (float64 params) in if r > fl (98 / 100) then fl (98 / 100) else r)"

definition expertParamsOf :: "gguf \<Rightarrow> int \<Rightarrow> int" where
  "expertParamsOf g ff =
     i64 (i64 (i64 (i64 (gg_layerCount g * gg_expertCount g) * 3) * gg_embeddingLength g) * ff)"

definition estimateExpertBytesFromDims :: "gguf \<Rightarrow> int" where
  "estimateExpertBytesFromDims g =
     (if \<not> isMoE g \<or> gg_layerCount g \<le> 0 \<or> gg_embeddingLength g \<le> 0 then 0
      else let ff = (if gg_expertFFLength g \<le> 0 then gg_feedForwardLength g else gg_expertFFLength g) in
        if ff \<le> 0 then 0
        else let ps = expertParamsOf g ff in
          if ps \<le> 0 then 0
          else let w = weightBytes g in
            if gg_paramCount g > 0 \<and> w > 0
            then goInt (fmul (float64 w) (expertRatio ps (gg_paramCount g)))
            else i64 (i64 (ps * bitsPerWeight g) + 7) sdiv 8)"

section \<open>Recommending experts on the CPU\<close>

datatype offload_reason =
    NotMoE | FreeUnknown | ExpertsUnknown | WeightsUnknown | FitsFully | LayersUnknown | MayNotFit | OffloadFirst

record offload_plan =
  op_applicable :: bool
  op_nCpuMoe :: int
  op_fitsFullyOnGPU :: bool
  op_expertBytesTotal :: int
  op_reason :: offload_reason

definition noOffload :: "bool \<Rightarrow> int \<Rightarrow> offload_reason \<Rightarrow> offload_plan" where
  "noOffload app tot why =
     \<lparr>op_applicable = app, op_nCpuMoe = 0, op_fitsFullyOnGPU = False, op_expertBytesTotal = tot, op_reason = why\<rparr>"

text \<open>
  The walk from the first layer, \<open>k\<close> layers left: the layers taken and the bytes freed when it stops.
\<close>

fun walkLayers :: "(int \<Rightarrow> int) \<Rightarrow> int \<Rightarrow> nat \<Rightarrow> int \<Rightarrow> int \<Rightarrow> int \<times> int" where
  "walkLayers sz deficit 0 n freed = (n, freed)"
| "walkLayers sz deficit (Suc k) n freed =
     (let freed' = i64 (freed + sz n) in
      if freed' \<ge> deficit then (n + 1, freed') else walkLayers sz deficit k (n + 1) freed')"

definition expertTotalOf :: "gguf \<Rightarrow> int" where
  "expertTotalOf g = (case expertWeightBytes g of Some e \<Rightarrow> fst e | None \<Rightarrow> estimateExpertBytesFromDims g)"

text \<open>The bytes freed by a layer: from the table, else an equal share.\<close>

definition layerFrees :: "gguf \<Rightarrow> int \<Rightarrow> int" where
  "layerFrees g l =
     (case expertWeightBytes g of Some e \<Rightarrow> atLayer (snd e) l | None \<Rightarrow> expertTotalOf g sdiv gg_layerCount g)"

definition kvNeed :: "gguf \<Rightarrow> int \<Rightarrow> int \<Rightarrow> int" where
  "kvNeed g ctxLen kvPerToken = (if kvPerToken > 0 then i64 (kvPerToken * ctxLen) else kvCacheBytes g ctxLen)"

definition recommendCpuMoe :: "gguf \<Rightarrow> int \<Rightarrow> int \<Rightarrow> int \<Rightarrow> offload_plan" where
  "recommendCpuMoe g free ctxLen kvPerToken =
     (if \<not> isMoE g then noOffload False 0 NotMoE
      else if free \<le> 0 then noOffload False 0 FreeUnknown
      else let expertTotal = expertTotalOf g in
        if expertTotal \<le> 0 then noOffload False 0 ExpertsUnknown
        else let w = weightBytes g in
          if w \<le> 0 then noOffload False expertTotal WeightsUnknown
          else let kv = kvNeed g ctxLen kvPerToken;
                   overhead = i64 (i64 (w + kv) * 8) sdiv 100;
                   required = i64 (i64 (w + kv) + overhead) in
            if required \<le> free
            then (noOffload True expertTotal FitsFully)\<lparr>op_fitsFullyOnGPU := True\<rparr>
            else let deficit = i64 (required - free); layers = gg_layerCount g in
              if layers \<le> 0 then noOffload True expertTotal LayersUnknown
              else case walkLayers (layerFrees g) deficit (nat layers) 0 0 of
                  (n, freed) \<Rightarrow>
                    if freed < deficit then (noOffload True expertTotal MayNotFit)\<lparr>op_nCpuMoe := layers\<rparr>
                    else (noOffload True expertTotal OffloadFirst)\<lparr>op_nCpuMoe := n\<rparr>)"

section \<open>Split models\<close>

record split_info =
  sp_index :: int
  sp_count :: int
  sp_totalBytes :: int
  sp_missing :: "string list"

text \<open>\<open>os.Open\<close> and reading, \<open>Stat\<close> of an open file, and \<open>os.Stat\<close>.\<close>

record gguf_fs =
  fs_open :: "string \<Rightarrow> string option"
  fs_fstat :: "string \<Rightarrow> int option"
  fs_stat :: "string \<Rightarrow> int option"

definition pathBase :: "string \<Rightarrow> string" where
  "pathBase p =
     (if p = [] then ''.''
      else let q = rev (dropWhile (\<lambda>c. c = CHR ''/'') (rev p));
               b = (case lastIndex q ''/'' of Some i \<Rightarrow> drop (i + 1) q | None \<Rightarrow> q) in
        if b = [] then ''/'' else b)"

text \<open>
  The name of a shard: a prefix without line breaks, five digits, five digits. The part after the prefix
  has 20 bytes.
\<close>

definition splitName :: "string \<Rightarrow> (string \<times> string \<times> string) option" where
  "splitName s =
     (let p = take (length s - 20) s; q = drop (length s - 20) s;
          d1 = take 5 (drop 1 q); d2 = take 5 (drop 10 q) in
      if 20 \<le> length s \<and> newline \<notin> set p \<and> q = ''-'' @ d1 @ ''-of-'' @ d2 @ ''.gguf''
         \<and> list_all isDigitCh d1 \<and> list_all isDigitCh d2
      then Some (p, d1, d2) else None)"

definition pad5 :: "int \<Rightarrow> string" where
  "pad5 v = (let s = itoa v in replicate (5 - length s) CHR ''0'' @ s)"

definition shardName :: "string \<Rightarrow> int \<Rightarrow> int \<Rightarrow> string" where
  "shardName prefix cnt i = prefix @ ''-'' @ pad5 i @ ''-of-'' @ pad5 cnt @ ''.gguf''"

definition shardPath :: "string \<Rightarrow> string \<Rightarrow> int \<Rightarrow> int \<Rightarrow> string" where
  "shardPath dir prefix cnt i = pathJoin [dir, shardName prefix cnt i]"

definition statShard :: "gguf_fs \<Rightarrow> split_info \<Rightarrow> string \<Rightarrow> split_info" where
  "statShard fs info shard =
     (case fs_stat fs shard of
        None \<Rightarrow> info\<lparr>sp_missing := sp_missing info @ [shard]\<rparr>
      | Some n \<Rightarrow> info\<lparr>sp_totalBytes := i64 (sp_totalBytes info + n)\<rparr>)"

definition shardNames :: "string \<Rightarrow> string \<Rightarrow> int \<Rightarrow> string list" where
  "shardNames path prefix cnt = map (shardPath (pathDir path) prefix cnt) [1..cnt]"

text \<open>\<open>None\<close> when the file is not one of a split model.\<close>

definition inspectSplit :: "gguf_fs \<Rightarrow> string \<Rightarrow> split_info option" where
  "inspectSplit fs path =
     (case splitName (pathBase path) of
        None \<Rightarrow> None
      | Some (p, d1, d2) \<Rightarrow>
        (case (parseInt64 d1, parseInt64 d2) of
           (Some idx, Some cnt) \<Rightarrow>
             if cnt \<le> 1 then None
             else Some (foldl (statShard fs) \<lparr>sp_index = idx, sp_count = cnt, sp_totalBytes = 0, sp_missing = []\<rparr>
                          (shardNames path p cnt))
         | _ \<Rightarrow> None))"

datatype file_result = FileOk gguf | OpenFailed | ParseFailed gguf_error | FileCrash

definition parseHeaderOnly :: "gguf_host \<Rightarrow> gguf_fs \<Rightarrow> string \<Rightarrow> file_result" where
  "parseHeaderOnly h fs path =
     (case fs_open fs path of
        None \<Rightarrow> OpenFailed
      | Some b \<Rightarrow> (case parseGguf h b of PDone g r \<Rightarrow> FileOk g | PFail e \<Rightarrow> ParseFailed e | PCrash \<Rightarrow> FileCrash))"

text \<open>The tables of the other shards appended; \<open>None\<close> is a crash, an unreadable shard empties the table.\<close>

fun mergeTables :: "gguf_host \<Rightarrow> gguf_fs \<Rightarrow> string list \<Rightarrow> tensor_info list \<Rightarrow> tensor_info list option" where
  "mergeTables h fs [] merged = Some merged"
| "mergeTables h fs (s # ss) merged =
     (case parseHeaderOnly h fs s of
        FileOk g \<Rightarrow> mergeTables h fs ss (merged @ gg_tensors g)
      | FileCrash \<Rightarrow> None
      | _ \<Rightarrow> Some [])"

definition otherShards :: "string \<Rightarrow> string \<Rightarrow> split_info \<Rightarrow> string list" where
  "otherShards path prefix info =
     map (shardPath (pathDir path) prefix (sp_count info)) (filter (\<lambda>i. i \<noteq> sp_index info) [1..sp_count info])"

definition applySplitSize :: "gguf_host \<Rightarrow> gguf_fs \<Rightarrow> string \<Rightarrow> gguf \<Rightarrow> gguf option" where
  "applySplitSize h fs path g =
     (case inspectSplit fs path of
        None \<Rightarrow> Some g
      | Some info \<Rightarrow>
        if sp_totalBytes info \<le> 0 then Some g
        else let g1 = g\<lparr>gg_fileSize := sp_totalBytes info, gg_splitCount := sp_count info,
                        gg_splitMissing := sp_missing info\<rparr> in
          (case splitName (pathBase path) of
             None \<Rightarrow> Some g1
           | Some (p, d1, d2) \<Rightarrow>
               map_option (\<lambda>ts. g1\<lparr>gg_tensors := ts\<rparr>) (mergeTables h fs (otherShards path p info) (gg_tensors g1))))"

definition parseFile :: "gguf_host \<Rightarrow> gguf_fs \<Rightarrow> string \<Rightarrow> file_result" where
  "parseFile h fs path =
     (case parseHeaderOnly h fs path of
        FileOk g \<Rightarrow>
          (let g1 = (case fs_fstat fs path of Some n \<Rightarrow> g\<lparr>gg_fileSize := n\<rparr> | None \<Rightarrow> g) in
           case applySplitSize h fs path g1 of Some g2 \<Rightarrow> FileOk g2 | None \<Rightarrow> FileCrash)
      | r \<Rightarrow> r)"

section \<open>The shape and the context\<close>

definition shapeFromGGUF :: "gguf \<Rightarrow> model_shape" where
  "shapeFromGGUF g =
     (let w = (if weightBytes g \<le> 0 then gg_fileSize g else weightBytes g);
          experts = (if isMoE g
            then case expertWeightBytes g of
                   Some (tot, per) \<Rightarrow> (tot, Some per)
                 | None \<Rightarrow> (let est = estimateExpertBytesFromDims g in if est > 0 then (est, None) else (0, None))
            else (0, None)) in
      \<lparr>ms_layerCount = gg_layerCount g, ms_embeddingLength = gg_embeddingLength g,
       ms_keyLength = gg_keyLength g, ms_valueLength = gg_valueLength g, ms_headCount = gg_headCount g,
       ms_headCountKV = gg_headCountKV g, ms_fullAttentionInterval = gg_fullAttentionInterval g,
       ms_weightBytes = w, ms_trainedCtx = minCtxSize g, ms_isMTP = isMTP g, ms_isMoE = isMoE g,
       ms_expertBytesTotal = fst experts, ms_expertBytesPerLayer = snd experts\<rparr>)"

record ctx_info =
  ci_recommended :: int
  ci_modelFileGB :: rat
  ci_min :: int
  ci_max :: int

definition ctxFallback :: ctx_info where
  "ctxFallback = \<lparr>ci_recommended = 8192, ci_modelFileGB = 0, ci_min = 8192, ci_max = 0\<rparr>"

definition ctxAdvice :: "gguf \<Rightarrow> int \<Rightarrow> ctx_info" where
  "ctxAdvice g free =
     (if free \<le> 0 then ctxFallback
      else let lo = minCtxSize g;
               c0 = (let c = maxCtxSize g free in if c \<le> 0 then lo else c);
               c1 = (if c0 > 262144 then 262144 else c0);
               c2 = i64 (c1 sdiv 1024 * 1024);
               c3 = (if c2 < 8192 then 8192 else c2) in
        \<lparr>ci_recommended = c3, ci_modelFileGB = fdiv (float64 (weightBytes g)) (2 ^ 30), ci_min = lo, ci_max = c3\<rparr>)"

text \<open>\<open>None\<close> is a crash of the reader.\<close>

definition recommendedCtx :: "gguf_host \<Rightarrow> gguf_fs \<Rightarrow> string \<Rightarrow> int \<Rightarrow> ctx_info option" where
  "recommendedCtx h fs path free =
     (if path = [] then Some ctxFallback
      else case parseFile h fs path of
        FileCrash \<Rightarrow> None
      | FileOk g \<Rightarrow> Some (ctxAdvice g free)
      | _ \<Rightarrow> Some ctxFallback)"

section \<open>Counting elements\<close>

lemma i64_mod: "i64 x mod 2 ^ 64 = x mod 2 ^ 64"
proof -
  have "i64 x mod 2 ^ 64 = ((x + 2 ^ 63) mod 2 ^ 64 - 2 ^ 63) mod 2 ^ 64" by (simp only: i64_def)
  also have "\<dots> = (x + 2 ^ 63 - 2 ^ 63) mod 2 ^ 64" by (rule mod_diff_left_eq)
  finally show ?thesis by (simp only: add_diff_cancel_right')
qed

lemma i64_cong: "x mod 2 ^ 64 = y mod 2 ^ 64 \<Longrightarrow> i64 x = i64 y"
  unfolding i64_def by (metis mod_add_left_eq)

lemma i64_mult: "i64 (i64 a * i64 b) = i64 (a * b)"
  by (rule i64_cong) (metis i64_mod mod_mult_eq)

text \<open>The number of elements, without the width.\<close>

definition elemCount :: "nat list \<Rightarrow> int" where
  "elemCount dims = (if dims = [] then 0 else int (prod_list dims))"

lemma product_i64: "i64 a = a \<Longrightarrow> foldl (\<lambda>n d. i64 (n * i64 (int d))) a dims = i64 (a * int (prod_list dims))"
proof (induction dims arbitrary: a)
  case (Cons d dims)
  have "i64 (i64 (i64 (a * i64 (int d)))) = i64 (i64 (a * i64 (int d)))" by (simp add: i64_in)
  then have "foldl (\<lambda>n d. i64 (n * i64 (int d))) a (d # dims) = i64 (i64 (a * i64 (int d)) * int (prod_list dims))"
    using Cons.IH [of "i64 (a * i64 (int d))"] by (simp add: i64_in)
  also have "\<dots> = i64 (a * int d * int (prod_list dims))"
  proof (rule i64_cong)
    have "i64 (a * i64 (int d)) mod 2 ^ 64 = (a * int d) mod 2 ^ 64" by (metis i64_mod mod_mult_right_eq)
    then show "i64 (a * i64 (int d)) * int (prod_list dims) mod 2 ^ 64 = a * int d * int (prod_list dims) mod 2 ^ 64"
      by (metis mod_mult_left_eq)
  qed
  finally show ?case by (simp add: mult.assoc)
qed simp

lemma tensorElements_count: "tensorElements dims = i64 (elemCount dims)"
  using product_i64 [of 1 dims] by (simp add: tensorElements_def elemCount_def inI64_def)

lemma elemCount_nonneg [simp]: "0 \<le> elemCount dims"
  by (simp add: elemCount_def)

text \<open>A file of at most \<open>2 ^ 51\<close> bytes and fewer than \<open>2 ^ 53\<close> elements.\<close>

definition allElems :: "tensor_info list \<Rightarrow> int" where
  "allElems ts = sum_list (map (\<lambda>t. elemCount (ti_dims t)) ts)"

definition realFile :: "gguf \<Rightarrow> bool" where
  "realFile g = (gg_fileSize g < 2 ^ 51 \<and> allElems (gg_tensors g) < 2 ^ 53)"

lemma allElems_nonneg [simp]: "0 \<le> allElems ts"
  unfolding allElems_def by (rule sum_list_nonneg) auto

definition countOk :: "int \<times> int \<times> (int \<rightharpoonup> int) \<Rightarrow> int \<Rightarrow> bool" where
  "countOk acc n =
     (case acc of (tot, exps, m) \<Rightarrow>
        tot = n \<and> 0 \<le> exps \<and> exps \<le> tot \<and> (\<forall>l. 0 \<le> atLayer m l) \<and> (\<forall>S. finite S \<longrightarrow> sum (atLayer m) S \<le> exps))"

lemma atLayer_upd: "atLayer (m(l \<mapsto> b)) = (atLayer m)(l := b)"
  by (auto simp: atLayer_def fun_eq_iff)

lemma sum_bump:
  fixes f :: "int \<Rightarrow> int"
  assumes "finite S" and "\<forall>l. 0 \<le> f l" and "\<forall>S. finite S \<longrightarrow> sum f S \<le> e" and "0 \<le> x"
  shows "sum (f(l := f l + x)) S \<le> e + x"
proof (cases "l \<in> S")
  case True
  then have "sum (f(l := f l + x)) S = f l + x + sum f (S - {l})"
    using assms(1) by (simp add: sum.remove)
  also have "\<dots> = sum f S + x" using assms(1) True by (simp add: sum.remove)
  finally show ?thesis using assms(1,3) by auto
next
  case False
  then have "sum (f(l := f l + x)) S = sum f S" by (intro sum.cong) auto
  moreover have "sum f S \<le> e" using assms(1,3) by blast
  ultimately show ?thesis using assms(4) by linarith
qed

lemma countTensor_ok:
  assumes "countOk acc n" and "n + elemCount (ti_dims t) < 2 ^ 53" and "0 \<le> n"
  shows "countOk (countTensor acc t) (n + elemCount (ti_dims t))"
proof -
  obtain tot exps m where acc: "acc = (tot, exps, m)" by (cases acc)
  let ?x = "elemCount (ti_dims t)"
  have x: "0 \<le> ?x" by simp
  have h: "tot = n" "0 \<le> exps" "exps \<le> tot" "\<forall>l. 0 \<le> atLayer m l" "\<forall>S. finite S \<longrightarrow> sum (atLayer m) S \<le> exps"
    using assms(1) by (simp_all add: countOk_def acc)
  have one: "atLayer m l \<le> exps" for l using h(5) [rule_format, of "{l}"] by simp
  have big: "?x < 2 ^ 53" using assms(2,3) by linarith
  have e: "tensorElements (ti_dims t) = ?x" using i64_small [OF x] big unfolding tensorElements_count by simp
  have i: "i64 (n + ?x) = n + ?x" "i64 (exps + ?x) = exps + ?x" "i64 (atLayer m l + ?x) = atLayer m l + ?x" for l
    using h one [of l] x assms(2,3) by (auto intro!: i64_small simp: add_nonneg_nonneg)
  have s: "sum ((atLayer m)(l := atLayer m l + ?x)) S \<le> exps + ?x" if "finite S" for S l
    using sum_bump [OF that h(4,5) x] .
  have k: "finite S \<Longrightarrow> sum (atLayer m) S \<le> exps + ?x" for S using h(5) x by (metis add_increasing2)
  have p: "0 \<le> exps + ?x" "exps + ?x \<le> tot + ?x" "exps \<le> tot + ?x" using h(2,3) x by linarith+
  have q: "0 \<le> atLayer m l + ?x" for l using h(4) x by simp
  show ?thesis
    using h p q s k by (simp add: countOk_def countTensor_def acc e i atLayer_upd Let_def split: option.split)
qed

lemma countTensors_ok:
  "countOk acc n \<Longrightarrow> 0 \<le> n \<Longrightarrow> n + allElems ts < 2 ^ 53 \<Longrightarrow> countOk (foldl countTensor acc ts) (n + allElems ts)"
proof (induction ts arbitrary: acc n)
  case (Cons t ts)
  have a: "allElems (t # ts) = elemCount (ti_dims t) + allElems ts" by (simp add: allElems_def)
  have "0 \<le> elemCount (ti_dims t)" "0 \<le> allElems ts" by simp_all
  then have "n + elemCount (ti_dims t) < 2 ^ 53" "0 \<le> n + elemCount (ti_dims t)" using Cons.prems unfolding a by linarith+
  then show ?case
    using Cons.IH [OF countTensor_ok [OF Cons.prems(1)]] Cons.prems unfolding a by (simp add: add.assoc)
qed (simp add: allElems_def)

lemma counted:
  assumes "realFile g" and "foldl countTensor (0, 0, Map.empty) (gg_tensors g) = (tot, exps, m)"
  shows "tot = allElems (gg_tensors g)" and "countOk (tot, exps, m) tot" and "tot < 2 ^ 53"
proof -
  have "countOk (foldl countTensor (0, 0, Map.empty) (gg_tensors g)) (0 + allElems (gg_tensors g))"
    using assms(1) by (intro countTensors_ok) (simp_all add: countOk_def atLayer_def realFile_def)
  then have c: "countOk (tot, exps, m) (allElems (gg_tensors g))" unfolding assms(2) by simp
  then show t: "tot = allElems (gg_tensors g)" by (simp add: countOk_def)
  show "countOk (tot, exps, m) tot" using c unfolding t .
  show "tot < 2 ^ 53" using assms(1) unfolding t realFile_def by simp
qed

section \<open>Experts never exceed the file\<close>

text \<open>The share of \<open>e\<close> elements of \<open>T\<close> in \<open>F\<close> bytes, with the error of two roundings.\<close>

definition share :: "int \<Rightarrow> int \<Rightarrow> int \<Rightarrow> int" where
  "share F T e = goInt (fmul (float64 e) (fdiv (float64 F) (float64 T)))"

lemma share_bounds:
  assumes "0 < F" "F < 2 ^ 51" "0 < T" "T < 2 ^ 53" "0 \<le> e" "e \<le> T"
  shows "0 \<le> share F T e" and "of_int (share F T e) \<le> of_int e / of_int T * (of_int F * (1 + 1 / 2 ^ 53) ^ 2 :: rat)"
proof -
  let ?q = "of_int F / of_int T :: rat" and ?u = "1 + 1 / 2 ^ 53 :: rat"
  have f: "float64 F = of_int F" "float64 T = of_int T" "float64 e = of_int e" using assms by (simp_all add: float64_int)
  have q: "0 < ?q" using assms by simp
  have b: "0 \<le> fl ?q" "fl ?q \<le> ?q * ?u" using q fl_nonneg [of ?q] fl_le [of ?q] by simp_all
  have m: "0 \<le> of_int e * fl ?q" using b(1) assms(5) by simp
  have "fl (of_int e * fl ?q) \<le> of_int e * fl ?q * ?u" by (rule fl_le [OF m])
  also have "\<dots> \<le> of_int e * (?q * ?u) * ?u" using b(2) assms(5) by (intro mult_right_mono mult_left_mono) simp_all
  finally have y: "fl (of_int e * fl ?q) \<le> of_int e / of_int T * (of_int F * ?u ^ 2)" by (simp add: power2_eq_square field_simps)
  have r: "of_int e / of_int T \<le> (1 :: rat)" "0 \<le> (of_int e / of_int T :: rat)" using assms(3,5,6) by simp_all
  have "of_int F \<le> (2 ^ 51 :: rat)" using assms(2) by (metis less_imp_le of_int_le_iff of_int_numeral of_int_power)
  then have g: "of_int F * ?u ^ 2 \<le> 2 ^ 51 * ?u ^ 2" by (intro mult_right_mono) simp_all
  have n: "0 \<le> of_int F * ?u ^ 2" using assms(1) by simp
  have "of_int e / of_int T * (of_int F * ?u ^ 2) \<le> of_int F * ?u ^ 2" using mult_right_mono [OF r(1) n] by simp
  with y g have s: "fl (of_int e * fl ?q) \<le> 2 ^ 51 * ?u ^ 2" by linarith
  have "(2 ^ 51 * ?u ^ 2 :: rat) < 2 ^ 63" by (simp add: power2_eq_square)
  then have lt: "fl (of_int e * fl ?q) < 2 ^ 63" using s by linarith
  have nn: "0 \<le> fl (of_int e * fl ?q)" by (rule fl_nonneg [OF m])
  have e: "share F T e = goInt (fl (of_int e * fl ?q))" by (simp add: share_def fmul_def fdiv_def f)
  show "0 \<le> share F T e" unfolding e using goInt_bounds [OF nn lt] by simp
  have "of_int (share F T e) \<le> fl (of_int e * fl ?q)" unfolding e using goInt_bounds [OF nn lt] by simp
  then show "of_int (share F T e) \<le> of_int e / of_int T * (of_int F * ?u ^ 2)" using y by linarith
qed

text \<open>Shares of parts that make up at most the whole sum up to at most the whole.\<close>

lemma shares_within:
  assumes "0 < F" "F < 2 ^ 51" "0 < T" "T < 2 ^ 53" "finite S" "\<forall>l \<in> S. 0 \<le> f l" "sum f S \<le> T"
  shows "(\<Sum>l \<in> S. share F T (f l)) \<le> F"
proof -
  let ?u = "1 + 1 / 2 ^ 53 :: rat"
  have le: "f l \<le> T" if "l \<in> S" for l
    using that assms(5,6,7) member_le_sum [of l S f] by (meson DiffD1 order_trans)
  have n: "0 \<le> of_int F * ?u ^ 2" using assms(1) by simp
  have "of_int (\<Sum>l \<in> S. share F T (f l)) = (\<Sum>l \<in> S. of_int (share F T (f l)) :: rat)" by simp
  also have "\<dots> \<le> (\<Sum>l \<in> S. of_int (f l) / of_int T * (of_int F * ?u ^ 2))"
    using assms(6) le by (intro sum_mono share_bounds(2) assms(1-4)) auto
  also have "\<dots> = of_int (sum f S) / of_int T * (of_int F * ?u ^ 2)"
    by (simp add: sum_distrib_right [symmetric] sum_divide_distrib [symmetric])
  also have "\<dots> \<le> 1 * (of_int F * ?u ^ 2)"
  proof (rule mult_right_mono [OF _ n])
    have "(of_int (sum f S) :: rat) \<le> of_int T" using assms(7) by (simp only: of_int_le_iff)
    then show "of_int (sum f S) / of_int T \<le> (1 :: rat)" using assms(3) by (simp only: divide_le_eq_1 of_int_0_less_iff) simp
  qed
  finally have s: "of_int (\<Sum>l \<in> S. share F T (f l)) \<le> of_int F * ?u ^ 2" by simp
  have F: "of_int F < (2 ^ 51 :: rat)" using assms(2) by (metis of_int_less_iff of_int_numeral of_int_power)
  have "of_int F * ?u ^ 2 = of_int F + of_int F * (2 / 2 ^ 53 + 1 / 2 ^ 106)" by (simp add: power2_eq_square field_simps)
  also have "of_int F * (2 / 2 ^ 53 + 1 / 2 ^ 106) < (2 ^ 51 * (2 / 2 ^ 53 + 1 / 2 ^ 106) :: rat)"
    using F by (intro mult_strict_right_mono) simp_all
  also have "2 ^ 51 * (2 / 2 ^ 53 + 1 / 2 ^ 106) < (1 :: rat)" by simp
  finally have "of_int F * ?u ^ 2 < of_int F + 1" by simp
  with s have "of_int (\<Sum>l \<in> S. share F T (f l)) < (of_int (F + 1) :: rat)" by simp
  then show ?thesis by (simp only: of_int_less_iff)
qed

text \<open>
  C26. The expert bytes of a file, computed in floating point from the share of the expert elements, are never
  negative; in all, and summed over any number of layers, they do not exceed the file.
\<close>

theorem expert_bytes_within_file:
  assumes "realFile g" and "expertWeightBytes g = Some (tot, m)"
  shows "0 \<le> tot \<and> tot \<le> gg_fileSize g \<and> (\<forall>l. 0 \<le> atLayer m l) \<and> (\<Sum>l \<in> {0..<n}. atLayer m l) \<le> gg_fileSize g"
proof -
  let ?F = "gg_fileSize g"
  obtain T E c where fold: "foldl countTensor (0, 0, Map.empty) (gg_tensors g) = (T, E, c)"
    by (cases "foldl countTensor (0, 0, Map.empty) (gg_tensors g)" rule: prod_cases3)
  from assms(2) have F: "0 < ?F" and pos: "0 < T" "0 < E" and tot: "tot = share ?F T E"
    and m: "m = (\<lambda>l. map_option (share ?F T) (c l))"
    by (auto simp: expertWeightBytes_def fold share_def [abs_def] Let_def fun_eq_iff split: if_splits)
  have F2: "?F < 2 ^ 51" using assms(1) by (simp add: realFile_def)
  have T: "T < 2 ^ 53" and ok: "countOk (T, E, c) T" using counted [OF assms(1) fold] by simp_all
  from ok have E: "E \<le> T" and c0: "\<forall>l. 0 \<le> atLayer c l"
    and cS: "\<forall>S. finite S \<longrightarrow> sum (atLayer c) S \<le> E" by (simp_all add: countOk_def)
  have z: "share ?F T 0 = 0" by (simp add: share_def fmul_def float64_def goInt_def inI64_def)
  have l: "atLayer m l = share ?F T (atLayer c l)" for l by (simp add: m atLayer_def z split: option.split)
  have cT: "atLayer c l \<le> T" for l using cS [rule_format, of "{l}"] E by simp
  have "0 \<le> tot" unfolding tot using share_bounds(1) [OF F F2 pos(1) T] pos(2) E by simp
  moreover have "tot \<le> ?F" unfolding tot
    using shares_within [OF F F2 pos(1) T, of "{0 :: nat}" "\<lambda>_. E"] pos(2) E by simp
  moreover have "\<forall>l. 0 \<le> atLayer m l" unfolding l using share_bounds(1) [OF F F2 pos(1) T] c0 cT by blast
  moreover have "(\<Sum>l \<in> {0..<n}. atLayer m l) \<le> ?F" unfolding l
  proof (rule shares_within [OF F F2 pos(1) T])
    have "sum (atLayer c) {0..<n} \<le> E" using cS by simp
    then show "sum (atLayer c) {0..<n} \<le> T" using E by linarith
  qed (use c0 in simp_all)
  ultimately show ?thesis by blast
qed

section \<open>The recommended number of layers is the least\<close>

definition freedBy :: "(int \<Rightarrow> int) \<Rightarrow> int \<Rightarrow> int" where
  "freedBy sz n = (\<Sum>l \<in> {0..<n}. sz l)"

lemma freedBy_Suc: "0 \<le> n \<Longrightarrow> freedBy sz (n + 1) = freedBy sz n + sz n"
proof -
  assume "0 \<le> n"
  then have "{0..<n + 1} = insert n {0..<n}" by auto
  then show ?thesis by (simp add: freedBy_def)
qed

lemma freedBy_mono: "\<forall>l. 0 \<le> sz l \<Longrightarrow> a \<le> b \<Longrightarrow> freedBy sz a \<le> freedBy sz b"
  unfolding freedBy_def by (intro sum_mono2) auto

lemma walkLayers_least:
  assumes "\<forall>l. 0 \<le> sz l" and "freedBy sz (n + int k) \<le> 2 ^ 62" and "0 \<le> n" and "freedBy sz n < d"
    and "walkLayers sz d k n (freedBy sz n) = (r, q)"
  shows "q = freedBy sz r \<and> n \<le> r \<and> r \<le> n + int k \<and> (d \<le> q \<or> r = n + int k) \<and> (\<forall>j. j < r \<longrightarrow> freedBy sz j < d)"
  using assms
proof (induction k arbitrary: n)
  case 0
  have "freedBy sz j < d" if "j < n" for j
    using freedBy_mono [OF 0(1), of j n] that 0(4) by linarith
  with 0 show ?case by auto
next
  case (Suc k)
  let ?f = "freedBy sz (n + 1)"
  have s: "freedBy sz n + sz n = ?f" using freedBy_Suc [OF Suc.prems(3), of sz] by simp
  have "0 \<le> freedBy sz n" unfolding freedBy_def by (rule sum_nonneg) (use Suc.prems(1) in auto)
  moreover have "?f \<le> freedBy sz (n + int (Suc k))" using Suc.prems(1) by (intro freedBy_mono) simp_all
  ultimately have i: "i64 (freedBy sz n + sz n) = ?f"
    using Suc.prems(1,2) s by (metis add_nonneg_nonneg i64_small order_trans)
  have below: "freedBy sz j < d" if "j \<le> n" for j
    using freedBy_mono [OF Suc.prems(1) that] Suc.prems(4) by linarith
  show ?case
  proof (cases "?f \<ge> d")
    case True
    then have "r = n + 1" "q = ?f" using Suc.prems(5) by (auto simp add: i Let_def)
    then show ?thesis using True below by auto
  next
    case False
    then have w: "walkLayers sz d k (n + 1) ?f = (r, q)" using Suc.prems(5) by (simp add: i Let_def)
    have "n + 1 + int k = n + int (Suc k)" by simp
    then have "freedBy sz (n + 1 + int k) \<le> 2 ^ 62" using Suc.prems(2) by (simp only:)
    from Suc.IH [OF Suc.prems(1) this _ _ w] False Suc.prems(3) show ?thesis by auto
  qed
qed

definition requiredBytes :: "gguf \<Rightarrow> int \<Rightarrow> int \<Rightarrow> int" where
  "requiredBytes g ctxLen kvp = (let n = weightBytes g + kvNeed g ctxLen kvp in n + n * 8 div 100)"

text \<open>A mixture of experts with known sizes, on a host whose free memory is known.\<close>

definition moeSized :: "gguf \<Rightarrow> int \<Rightarrow> int \<Rightarrow> int \<Rightarrow> bool" where
  "moeSized g free ctxLen kvp =
     (realFile g \<and> isMoE g \<and> 0 < free \<and> free \<le> 2 ^ 62 \<and> 0 < expertTotalOf g \<and> expertTotalOf g \<le> 2 ^ 62
      \<and> 0 < gg_layerCount g \<and> 0 < weightBytes g \<and> 0 \<le> kvNeed g ctxLen kvp
      \<and> weightBytes g + kvNeed g ctxLen kvp \<le> 2 ^ 58)"

lemma layerFrees_ok:
  assumes "realFile g" "0 < expertTotalOf g" "expertTotalOf g \<le> 2 ^ 62" "0 < gg_layerCount g"
  shows "\<forall>l. 0 \<le> layerFrees g l" and "freedBy (layerFrees g) (gg_layerCount g) \<le> 2 ^ 62"
proof (atomize (full), cases "expertWeightBytes g")
  case None
  let ?t = "expertTotalOf g" and ?L = "gg_layerCount g"
  have l: "layerFrees g l = ?t div ?L" for l using assms(2,4) by (simp add: layerFrees_def None sdiv_nonneg)
  have "freedBy (layerFrees g) ?L = ?L * (?t div ?L)" using assms(4) by (simp add: freedBy_def l)
  also have "\<dots> \<le> ?t" using assms(4) by (metis add.right_neutral add_le_cancel_left div_mult_mod_eq mult.commute pos_mod_sign)
  finally show "(\<forall>l. 0 \<le> layerFrees g l) \<and> freedBy (layerFrees g) ?L \<le> 2 ^ 62"
    using assms(2,3,4) by (simp add: l pos_imp_zdiv_nonneg_iff)
next
  case (Some e)
  obtain tot m where e: "e = (tot, m)" by (cases e)
  have l: "layerFrees g l = atLayer m l" for l by (simp add: layerFrees_def Some e)
  have "gg_fileSize g \<le> 2 ^ 62" using assms(1) by (simp add: realFile_def)
  with expert_bytes_within_file [OF assms(1) Some [unfolded e], of "gg_layerCount g"]
  show "(\<forall>l. 0 \<le> layerFrees g l) \<and> freedBy (layerFrees g) (gg_layerCount g) \<le> 2 ^ 62"
    by (simp add: l freedBy_def)
qed

text \<open>
  C25. Moving the experts of the first N layers makes the model fit exactly when N is at least the recommended number
  and the recommendation is not that it may not fit: the number is the least that suffices.
\<close>

theorem recommended_layers_least:
  assumes "moeSized g free ctxLen kvp" and "0 \<le> N" and "N \<le> gg_layerCount g"
  shows "requiredBytes g ctxLen kvp - freedBy (layerFrees g) N \<le> free
     \<longleftrightarrow> op_nCpuMoe (recommendCpuMoe g free ctxLen kvp) \<le> N \<and> op_reason (recommendCpuMoe g free ctxLen kvp) \<noteq> MayNotFit"
proof -
  let ?w = "weightBytes g" and ?k = "kvNeed g ctxLen kvp" and ?L = "gg_layerCount g" and ?R = "requiredBytes g ctxLen kvp"
  let ?S = "freedBy (layerFrees g)" and ?p = "recommendCpuMoe g free ctxLen kvp"
  have h: "realFile g" "isMoE g" "0 < free" "free \<le> 2 ^ 62" "0 < expertTotalOf g" "expertTotalOf g \<le> 2 ^ 62"
    "0 < ?L" "0 < ?w" "0 \<le> ?k" "?w + ?k \<le> 2 ^ 58" using assms(1) by (auto simp: moeSized_def)
  note sz = layerFrees_ok [OF h(1,5-7)]
  have s0: "?S 0 = 0" "0 \<le> ?S N" using freedBy_mono [OF sz(1) assms(2)] by (simp_all add: freedBy_def)
  have n: "0 \<le> ?w + ?k" using h(8,9) by simp
  have i1: "i64 (?w + ?k) = ?w + ?k" using n h(10) by (intro i64_small) simp_all
  have i2: "i64 ((?w + ?k) * 8) = (?w + ?k) * 8" using n h(10) by (intro i64_small) simp_all
  have d: "(?w + ?k) * 8 sdiv 100 = (?w + ?k) * 8 div 100" using n by (intro sdiv_nonneg) simp_all
  have b: "0 \<le> (?w + ?k) * 8 div 100" "(?w + ?k) * 8 div 100 \<le> ?w + ?k" using n by simp_all
  have i3: "i64 (?w + ?k + (?w + ?k) * 8 div 100) = ?R"
    using n b h(10) unfolding requiredBytes_def Let_def by (intro i64_small) simp_all
  have req: "i64 (i64 (?w + ?k) + i64 (i64 (?w + ?k) * 8) sdiv 100) = ?R" by (simp only: i1 i2 d i3)
  have R: "0 \<le> ?R" "?R \<le> 2 ^ 59" using n b h(10) unfolding requiredBytes_def Let_def by simp_all
  show ?thesis
  proof (cases "?R \<le> free")
    case True
    then have "?p = (noOffload True (expertTotalOf g) FitsFully)\<lparr>op_fitsFullyOnGPU := True\<rparr>"
      using h by (simp add: recommendCpuMoe_def Let_def req)
    then show ?thesis using True s0 assms(2) by (simp add: noOffload_def)
  next
    case False
    have i4: "i64 (?R - free) = ?R - free" using False R h(3) by (intro i64_small) simp_all
    obtain r q where w: "walkLayers (layerFrees g) (?R - free) (nat ?L) 0 0 = (r, q)"
      by (cases "walkLayers (layerFrees g) (?R - free) (nat ?L) 0 0")
    have p: "?p = (if q < ?R - free then (noOffload True (expertTotalOf g) MayNotFit)\<lparr>op_nCpuMoe := ?L\<rparr>
                   else (noOffload True (expertTotalOf g) OffloadFirst)\<lparr>op_nCpuMoe := r\<rparr>)"
      using h False by (simp add: recommendCpuMoe_def Let_def req i4 w)
    have "q = ?S r \<and> 0 \<le> r \<and> r \<le> 0 + int (nat ?L) \<and> (?R - free \<le> q \<or> r = 0 + int (nat ?L))
          \<and> (\<forall>j. j < r \<longrightarrow> ?S j < ?R - free)"
      by (rule walkLayers_least) (use sz h(7) False s0(1) w in simp_all)
    then have q: "q = ?S r" "?R - free \<le> q \<or> r = ?L" "\<forall>j. j < r \<longrightarrow> ?S j < ?R - free" using h(7) by auto
    show ?thesis
    proof (cases "q < ?R - free")
      case True
      then have "?S N < ?R - free" using q freedBy_mono [OF sz(1) assms(3)] by auto
      then show ?thesis unfolding p using True by (simp add: noOffload_def)
    next
      case False
      have "?R - free \<le> ?S N \<longleftrightarrow> r \<le> N"
        using q(1,3) False freedBy_mono [OF sz(1), of r N] by (metis leD leI order_trans)
      then show ?thesis unfolding p using False by (auto simp: noOffload_def)
    qed
  qed
qed

section \<open>The largest context\<close>

definition ctxSized :: "gguf \<Rightarrow> int \<Rightarrow> bool" where
  "ctxSized g free =
     (0 < gg_layerCount g \<and> 0 < gg_embeddingLength g \<and> 0 < bytesPerEntry g
      \<and> gg_layerCount g * bytesPerEntry g \<le> 2 ^ 62 \<and> 0 \<le> weightBytes g \<and> weightBytes g \<le> 2 ^ 58 \<and> free \<le> 2 ^ 62)"

lemma kvCacheBytes_exact:
  assumes "ctxSized g free" and "0 \<le> c" and "c * (gg_layerCount g * bytesPerEntry g) \<le> 2 ^ 62"
  shows "kvCacheBytes g c = c * (gg_layerCount g * bytesPerEntry g)"
proof -
  have p: "0 < gg_layerCount g" "0 < bytesPerEntry g" using assms(1) by (simp_all add: ctxSized_def)
  have m: "c * gg_layerCount g \<le> c * gg_layerCount g * bytesPerEntry g"
    using mult_left_mono [of 1 "bytesPerEntry g" "c * gg_layerCount g"] p assms(2) by simp
  have l: "c * gg_layerCount g * bytesPerEntry g \<le> 2 ^ 62" using assms(3) by (simp only: mult.assoc)
  have "i64 (c * gg_layerCount g) = c * gg_layerCount g" using p assms(2) l m by (intro i64_small) simp_all
  moreover have "i64 (c * gg_layerCount g * bytesPerEntry g) = c * gg_layerCount g * bytesPerEntry g"
    using p assms(2) l by (intro i64_small) simp_all
  ultimately show ?thesis using assms(1) by (simp add: kvCacheBytes_def ctxSized_def mult.assoc)
qed

lemma pos_le_div_iff: "0 < p \<Longrightarrow> c \<le> b div p \<longleftrightarrow> c * p \<le> b" for b c p :: int
proof
  assume p: "0 < p"
  show "c * p \<le> b" if "c \<le> b div p"
  proof -
    have "c * p \<le> b div p * p" using that p by (intro mult_right_mono) simp_all
    then show ?thesis using div_mult_mod_eq [of b p] pos_mod_sign [OF p, of b] by linarith
  qed
  show "c \<le> b div p" if "c * p \<le> b" using zdiv_mono1 [OF that p] p by simp
qed

text \<open>
  A context is at most the maximal one exactly when its cache fits beside the weights and their overhead.
\<close>

theorem max_ctx_is_largest:
  assumes "ctxSized g free" and "0 < c" and "c * (gg_layerCount g * bytesPerEntry g) \<le> 2 ^ 62"
  shows "c \<le> maxCtxSize g free \<longleftrightarrow> weightBytes g + weightBytes g * 5 div 100 + kvCacheBytes g c \<le> free"
proof -
  let ?w = "weightBytes g" and ?P = "gg_layerCount g * bytesPerEntry g"
  have h: "0 < gg_layerCount g" "0 < gg_embeddingLength g" "0 < bytesPerEntry g" "?P \<le> 2 ^ 62" "0 \<le> ?w" "?w \<le> 2 ^ 58"
    "free \<le> 2 ^ 62" using assms(1) by (simp_all add: ctxSized_def)
  have P: "0 < ?P" using h(1,3) by simp
  have kv: "kvCacheBytes g c = c * ?P" using kvCacheBytes_exact [OF assms(1) _ assms(3)] assms(2) by simp
  have c: "0 < c * ?P" using assms(2) P by (rule mult_pos_pos)
  have o5: "0 \<le> ?w * 5 div 100" "?w * 5 div 100 \<le> ?w" using h(5) by simp_all
  show ?thesis
  proof (cases "free \<le> ?w")
    case True
    then have "maxCtxSize g free = 0" by (simp add: maxCtxSize_def Let_def)
    then show ?thesis using True c o5 assms(2) unfolding kv by linarith
  next
    case False
    have i: "i64 (free - ?w) = free - ?w" "i64 (?w * 5) = ?w * 5" using False h by (auto intro!: i64_small)
    have s: "?w * 5 sdiv 100 = ?w * 5 div 100" using h(5) by (intro sdiv_nonneg) simp_all
    have b: "i64 (free - ?w - ?w * 5 div 100) = free - ?w - ?w * 5 div 100"
      using False h(5,6,7) o5 by (intro i64_id) (simp add: inI64_def)
    have p: "i64 ?P = ?P" using P h(4) by (intro i64_small) simp_all
    define B where "B = free - ?w - ?w * 5 div 100"
    have bb: "i64 (i64 (free - ?w) - i64 (?w * 5) sdiv 100) = B" by (simp only: i s b B_def)
    define P where P: "P = ?P"
    have q: "?P = P" "i64 P = P" "0 < P" using p P \<open>0 < ?P\<close> by simp_all
    have "maxCtxSize g free = (if B \<le> 0 then 0 else B div P)"
      using False h(1,2,5) q(3) by (simp add: maxCtxSize_def Let_def bb q(1,2) sdiv_nonneg not_le)
    moreover have "c \<le> B div P \<longleftrightarrow> c * P \<le> B"
      using q(3) by (rule pos_le_div_iff)
    ultimately show ?thesis unfolding kv q(1) using c assms(2) unfolding q(1) by (cases "B \<le> 0") (auto simp: B_def)
  qed
qed


section \<open>The set of a split model\<close>

lemma natText_length: "0 < k \<Longrightarrow> n < 10 ^ k \<Longrightarrow> length (natText n) \<le> k"
proof (induction k arbitrary: n)
  case (Suc k)
  show ?case
  proof (cases "n < 10")
    case True
    then show ?thesis by (subst natText.simps) simp
  next
    case False
    then have "n div 10 < 10 ^ k" "0 < k" using Suc.prems(2) by (auto intro: Suc_leI gr0I simp: less_mult_imp_div_less)
    then show ?thesis using Suc.IH [of "n div 10"] False by (subst natText.simps) simp
  qed
qed simp

lemma decimal_zeros: "decimal (replicate k CHR ''0'' @ ds) = decimal ds"
  by (induction k) (simp_all add: decimal_def digitVal_def)

lemma pad5_ok:
  assumes "0 \<le> v" and "v < 100000"
  shows "length (pad5 v) = 5 \<and> list_all isDigitCh (pad5 v) \<and> parseInt64 (pad5 v) = Some v"
proof -
  have v: "nat v < 10 ^ 5" using assms by simp
  have p: "pad5 v = replicate (5 - length (natText (nat v))) CHR ''0'' @ natText (nat v)"
    using assms(1) by (simp add: pad5_def itoa_def Let_def)
  have l: "length (pad5 v) = 5" unfolding p using natText_length [OF _ v] by simp
  moreover have d: "list_all isDigitCh (pad5 v)"
    unfolding p using natText_digits [of "nat v"] by (auto simp: list_all_iff isDigitCh_def)
  moreover have "decimal (pad5 v) = v" unfolding p decimal_zeros natText_decimal using assms(1) by simp
  moreover have "pad5 v \<noteq> []" using l by auto
  ultimately show ?thesis using assms by (simp add: parseInt64_def signOf_digits)
qed

lemma splitName_shard:
  assumes "newline \<notin> set p" and "0 \<le> i" "i < 100000" "0 \<le> cnt" "cnt < 100000"
  shows "splitName (shardName p cnt i) = Some (p, pad5 i, pad5 cnt)"
  using pad5_ok [OF assms(2,3)] pad5_ok [OF assms(4,5)] assms(1)
  by (simp add: splitName_def shardName_def Let_def)

lemma i64_step: "i64 (i64 a + b) = i64 (a + b)"
  by (rule i64_cong) (metis i64_mod mod_add_left_eq)

definition sizeOr0 :: "gguf_fs \<Rightarrow> string \<Rightarrow> int" where
  "sizeOr0 fs f = (case fs_stat fs f of Some n \<Rightarrow> n | None \<Rightarrow> 0)"

lemma statShards:
  assumes "i64 (sp_totalBytes s) = sp_totalBytes s"
  shows "foldl (statShard fs) s fls =
     s\<lparr>sp_totalBytes := i64 (sp_totalBytes s + sum_list (map (sizeOr0 fs) fls)),
       sp_missing := sp_missing s @ filter (\<lambda>f. fs_stat fs f = None) fls\<rparr>"
  using assms
proof (induction fls arbitrary: s)
  case (Cons f fls)
  show ?case
  proof (cases "fs_stat fs f")
    case None
    then show ?thesis using Cons.IH [of "statShard fs s f"] Cons.prems by (simp add: statShard_def sizeOr0_def)
  next
    case (Some n)
    then show ?thesis using Cons.IH [of "statShard fs s f"]
      by (simp add: statShard_def sizeOr0_def i64_step add.assoc i64_in)
  qed
qed simp

lemma inspectSplit_exact:
  assumes "splitName (pathBase path) = Some (p, d1, d2)" and "parseInt64 d1 = Some idx" and "parseInt64 d2 = Some cnt"
    and "1 < cnt"
  shows "inspectSplit fs path = Some
    \<lparr>sp_index = idx, sp_count = cnt, sp_totalBytes = i64 (sum_list (map (sizeOr0 fs) (shardNames path p cnt))),
     sp_missing = filter (\<lambda>f. fs_stat fs f = None) (shardNames path p cnt)\<rparr>"
  using assms by (simp add: inspectSplit_def statShards inI64_def)

text \<open>
  Whichever shard is opened, the set it describes is the same: count, total and the missing files.
\<close>

theorem every_shard_describes_the_set:
  assumes "pathBase a = shardName p cnt i" and "pathBase b = shardName p cnt j" and "pathDir a = pathDir b"
    and "newline \<notin> set p" and "0 \<le> i" "i < 100000" "0 \<le> j" "j < 100000" "1 < cnt" "cnt < 100000"
  shows "\<exists>s. inspectSplit fs a = Some s \<and> inspectSplit fs b = Some (s\<lparr>sp_index := j\<rparr>)
     \<and> sp_missing s = filter (\<lambda>f. fs_stat fs f = None) (map (shardPath (pathDir a) p cnt) [1..cnt])"
proof -
  have c: "0 \<le> cnt" "parseInt64 (pad5 cnt) = Some cnt" using pad5_ok [of cnt] assms by simp_all
  have "parseInt64 (pad5 i) = Some i" "parseInt64 (pad5 j) = Some j" using pad5_ok assms by simp_all
  moreover have "splitName (pathBase a) = Some (p, pad5 i, pad5 cnt)" "splitName (pathBase b) = Some (p, pad5 j, pad5 cnt)"
    unfolding assms(1,2) using splitName_shard assms c(1) by simp_all
  ultimately show ?thesis
    using inspectSplit_exact [of a p "pad5 i" "pad5 cnt" i cnt fs] inspectSplit_exact [of b p "pad5 j" "pad5 cnt" j cnt fs]
      c(2) assms(3,9) by (simp add: shardNames_def)
qed

lemma mergeTables_all:
  "\<forall>f \<in> set fls. parseHeaderOnly h fs f = FileOk (hdr f) \<Longrightarrow>
   mergeTables h fs fls ts = Some (ts @ concat (map (\<lambda>f. gg_tensors (hdr f)) fls))"
  by (induction fls arbitrary: ts) simp_all

text \<open>
  C27. Reading one shard of a complete set gives the size of the set and the tensors of all shards.
\<close>

theorem split_model_read_whole:
  assumes "splitName (pathBase path) = Some (p, d1, d2)" and "parseInt64 d1 = Some idx" and "parseInt64 d2 = Some cnt"
    and "1 < cnt" and "\<forall>f \<in> set (shardNames path p cnt). fs_stat fs f = Some (sz f) \<and> 0 < sz f"
    and "sum_list (map sz (shardNames path p cnt)) \<le> 2 ^ 62"
    and "parseHeaderOnly h fs path = FileOk g"
    and "\<forall>f \<in> set (shardNames path p cnt). parseHeaderOnly h fs f = FileOk (hdr f)"
  shows "parseFile h fs path = FileOk (g\<lparr>gg_fileSize := sum_list (map sz (shardNames path p cnt)), gg_splitCount := cnt,
     gg_splitMissing := [], gg_tensors := gg_tensors g @ concat (map (\<lambda>i. gg_tensors (hdr (shardPath (pathDir path) p cnt i)))
       (filter (\<lambda>i. i \<noteq> idx) [1..cnt]))\<rparr>)"
proof -
  let ?fls = "shardNames path p cnt" and ?S = "sum_list (map sz (shardNames path p cnt))"
  have m: "map (sizeOr0 fs) ?fls = map sz ?fls" "filter (\<lambda>f. fs_stat fs f = None) ?fls = []"
    using assms(5) by (auto simp: sizeOr0_def)
  have "?fls \<noteq> []" using assms(4) by (simp add: shardNames_def)
  then have f: "hd ?fls \<in> set ?fls" by (rule hd_in_set)
  have pos: "0 < ?S"
  proof -
    have "sz (hd ?fls) \<le> ?S" using f assms(5) by (intro member_le_sum_list) (auto simp: less_imp_le)
    then show ?thesis using f assms(5) by force
  qed
  have t: "i64 ?S = ?S" using pos assms(6) by (intro i64_small) simp_all
  have i: "inspectSplit fs path = Some \<lparr>sp_index = idx, sp_count = cnt, sp_totalBytes = ?S, sp_missing = []\<rparr>"
    using inspectSplit_exact [OF assms(1-4), of fs] unfolding m t .
  have "mergeTables h fs (map (shardPath (pathDir path) p cnt) (filter (\<lambda>i. i \<noteq> idx) [1..cnt])) (gg_tensors g) =
     Some (gg_tensors g @ concat (map (\<lambda>f. gg_tensors (hdr f)) (map (shardPath (pathDir path) p cnt) (filter (\<lambda>i. i \<noteq> idx) [1..cnt]))))"
    by (rule mergeTables_all) (use assms(8) in \<open>auto simp: shardNames_def\<close>)
  then show ?thesis using pos assms(1,7)
    by (simp add: parseFile_def applySplitSize_def i otherShards_def comp_def split: option.split)
qed

section \<open>The shape of a file\<close>

lemma layerBytes_sum:
  assumes "0 \<le> L"
  shows "sum_list (map (layerBytes m) [0..<nat L]) = (\<Sum>l \<in> {0..<L}. atLayer m l)"
proof -
  have "layerBytes m = (\<lambda>i. atLayer m (int i))" by (simp add: layerBytes_def atLayer_def fun_eq_iff)
  moreover have "{0..<L} = int ` {0..<nat L}" using assms by (simp add: image_int_atLeastLessThan)
  ultimately show ?thesis by (simp add: sum_list_distinct_conv_sum_set sum.reindex)
qed

text \<open>
  The shape of a parsed file satisfies what the theorems on moving experts assume of expert sizes.
\<close>

theorem shape_of_file_ok:
  assumes "realFile g" and "0 < gg_layerCount g" and "estimateExpertBytesFromDims g * gg_layerCount g \<le> 2 ^ 62"
  shows "expertsOk (shapeFromGGUF g)"
proof (cases "expertWeightBytes g")
  case None
  then show ?thesis using assms by (simp add: expertsOk_def shapeFromGGUF_def Let_def)
next
  case (Some e)
  obtain tot m where e: "e = (tot, m)" by (cases e)
  note w = expert_bytes_within_file [OF assms(1) Some [unfolded e], of "gg_layerCount g"]
  have "gg_fileSize g \<le> 2 ^ 62" using assms(1) by (simp add: realFile_def)
  with w assms(2) show ?thesis
    by (simp add: expertsOk_def shapeFromGGUF_def Let_def Some e layerBytes_sum list_all_iff)
      (simp add: layerBytes_def atLayer_def)
qed

section \<open>A table read in part\<close>

text \<open>A shard that announces one tensor and ends before it.\<close>

definition cutTable :: string where
  "cutTable = ''GGUF'' @ encU 4 3 @ encU 8 1 @ encU 8 0"

lemma cutTable_parse: "parseGguf amd64 cutTable = PDone (describe 3 1 0 Map.empty []) []"
proof -
  have m: "readN 4 (''GGUF'' @ x) = PDone ''GGUF'' x" for x by (rule readN_append) simp
  have "gh_mapHint amd64 0" "allocates amd64 1 56" by (simp_all add: amd64_def allocates_def)
  moreover have "readU 8 (encU 8 0) = PDone 0 []" using readU_encU [of 8 0 "[]"] by simp
  moreover have "readString amd64 False [] = PFail ShortRead"
    by (simp add: readString_def readLen_def readU_def readN_def)
  ultimately show ?thesis unfolding parseGguf_def cutTable_def append_assoc m
    by (simp add: readTensorInfos_def maxArray_def readTensor_def)
qed

definition oneTensor :: tensor_info where
  "oneTensor = \<lparr>ti_name = ''blk.0.ffn_up_exps'', ti_dims = [4, 2], ti_type = 0, ti_offset = 0\<rparr>"

definition wholeShard :: string where
  "wholeShard = encFile [] [oneTensor]"

lemma wholeShard_parse: "parseGguf amd64 wholeShard = PDone (describe 3 1 0 Map.empty [oneTensor]) []"
proof -
  have "fileOk amd64 [] [oneTensor]"
    by (simp add: fileOk_def strOk_def arrOk_def tensorOk_def allocates_def amd64_def maxArray_def oneTensor_def)
  from readTensorInfos_enc [of amd64 "[oneTensor]" "[]"] this
  have t: "readTensorInfos amd64 1 False (encTensor oneTensor) = PDone [oneTensor] []" by (simp add: fileOk_def)
  have m: "readN 4 (''GGUF'' @ x) = PDone ''GGUF'' x" for x by (rule readN_append) simp
  have h: "gh_mapHint amd64 0" by (simp add: amd64_def)
  show ?thesis unfolding parseGguf_def wholeShard_def encFile_def append_assoc m using t h by simp
qed

definition demoDir :: "string option \<Rightarrow> gguf_fs" where
  "demoDir snd_shard =
     \<lparr>fs_open = (\<lambda>f. if f = ''m-00001-of-00002.gguf'' then Some wholeShard
                     else if f = ''m-00002-of-00002.gguf'' then snd_shard else None),
      fs_fstat = (\<lambda>f. Some 100), fs_stat = (\<lambda>f. Some 100)\<rparr>"

lemma demo_names:
  "splitName (pathBase ''m-00001-of-00002.gguf'') = Some (''m'', ''00001'', ''00002'')"
  "parseInt64 ''00001'' = Some 1" "parseInt64 ''00002'' = Some 2"
  "shardNames ''m-00001-of-00002.gguf'' ''m'' 2 = [''m-00001-of-00002.gguf'', ''m-00002-of-00002.gguf'']"
  "filter (\<lambda>i. i \<noteq> 1) [1..2] = [2 :: int]"
  "shardPath (pathDir ''m-00001-of-00002.gguf'') ''m'' 2 2 = ''m-00002-of-00002.gguf''"
  by code_simp+

lemma demo_parse:
  "parseHeaderOnly amd64 (demoDir x) ''m-00001-of-00002.gguf'' = FileOk (describe 3 1 0 Map.empty [oneTensor])"
  "parseHeaderOnly amd64 (demoDir (Some cutTable)) ''m-00002-of-00002.gguf'' = FileOk (describe 3 1 0 Map.empty [])"
  "parseHeaderOnly amd64 (demoDir None) ''m-00002-of-00002.gguf'' = OpenFailed"
  by (simp_all add: parseHeaderOnly_def demoDir_def wholeShard_parse cutTable_parse)

lemma demo_inspect:
  "inspectSplit (demoDir x) ''m-00001-of-00002.gguf'' =
     Some \<lparr>sp_index = 1, sp_count = 2, sp_totalBytes = 200, sp_missing = []\<rparr>"
  using inspectSplit_exact [OF demo_names(1-3), of "demoDir x"]
  by (simp add: demo_names(4) sizeOr0_def demoDir_def i64_small)

lemma describe_tensors: "gg_tensors (describe v t k m ts) = ts"
  by (simp add: describe_def Let_def)

lemma demo_fstat: "fs_fstat (demoDir x) f = Some 100"
  by (simp add: demoDir_def)

lemma demo_file:
  "parseFile amd64 (demoDir (Some cutTable)) ''m-00001-of-00002.gguf'' =
     FileOk ((describe 3 1 0 Map.empty [oneTensor])\<lparr>gg_fileSize := 200, gg_splitCount := 2, gg_splitMissing := [], gg_tensors := [oneTensor]\<rparr>)"
  "parseFile amd64 (demoDir None) ''m-00001-of-00002.gguf'' =
     FileOk ((describe 3 1 0 Map.empty [oneTensor])\<lparr>gg_fileSize := 200, gg_splitCount := 2, gg_splitMissing := [], gg_tensors := []\<rparr>)"
  by (simp_all add: parseFile_def demo_parse applySplitSize_def demo_inspect demo_names otherShards_def describe_tensors demo_fstat)

text \<open>
  A shard that ends inside its tensor table counts as one without tensors: the experts are taken for the whole
  set. A shard that cannot be opened empties the table instead.
\<close>

theorem unreadable_table_gap:
  "\<exists>g. parseFile amd64 (demoDir (Some cutTable)) ''m-00001-of-00002.gguf'' = FileOk g
     \<and> gg_splitMissing g = [] \<and> gg_fileSize g = 200 \<and> gg_tensors g = [oneTensor]
     \<and> map_option fst (expertWeightBytes g) = Some 200
     \<and> (\<exists>g. parseFile amd64 (demoDir None) ''m-00001-of-00002.gguf'' = FileOk g \<and> gg_tensors g = [])"
proof -
  have "fst (foldl countTensor (0, 0, Map.empty) [oneTensor]) = 8" "fst (snd (foldl countTensor (0, 0, Map.empty) [oneTensor])) = 8"
    by code_simp+
  then obtain m where c: "countTensor (0, 0, Map.empty) oneTensor = (8, 8, m)" by (auto simp: prod_eq_iff)
  have x: "goInt (fmul (float64 8) (fdiv (float64 200) (float64 8))) = 200" by code_simp
  show ?thesis unfolding demo_file by (simp add: expertWeightBytes_def hasTensorInfo_def c x)
qed

section \<open>Examples\<close>

text \<open>Two layers of experts, 16 bytes each, in a file of 64 bytes.\<close>

definition demoMoe :: gguf where
  "demoMoe = (describe 3 3 0 Map.empty
      [oneTensor, oneTensor\<lparr>ti_name := ''blk.1.ffn_up_exps''\<rparr>, \<lparr>ti_name = ''token_embd'', ti_dims = [4, 4], ti_type = 0, ti_offset = 0\<rparr>])
     \<lparr>gg_fileSize := 64, gg_expertCount := 4, gg_layerCount := 2, gg_embeddingLength := 8, gg_contextLength := 32768\<rparr>"

lemma demoMoe_fields:
  "gg_fileSize demoMoe = 64" "gg_layerCount demoMoe = 2" "isMoE demoMoe" "weightBytes demoMoe = 64"
  "gg_contextLength demoMoe = 32768" "bytesPerEntry demoMoe = 32" "gg_embeddingLength demoMoe = 8"
  by (simp_all add: demoMoe_def describe_def Let_def isMoE_def weightBytes_def bytesPerEntry_def kvDims_def
      getInt64_def orZero_def i64_small)

lemma demoMoe_real: "realFile demoMoe"
  by (simp add: realFile_def demoMoe_def describe_def Let_def allElems_def elemCount_def oneTensor_def)

lemma demoMoe_experts: "\<exists>m. expertWeightBytes demoMoe = Some (32, m)"
proof -
  have "map_option fst (expertWeightBytes demoMoe) = Some 32" by code_simp
  then show ?thesis by (cases "expertWeightBytes demoMoe") auto
qed

theorem expert_bytes_within_file_witness:
  "\<exists>m. expertWeightBytes demoMoe = Some (32, m) \<and> (\<Sum>l \<in> {0..<2}. atLayer m l) \<le> 64"
proof -
  obtain m where m: "expertWeightBytes demoMoe = Some (32, m)" using demoMoe_experts by blast
  show ?thesis using expert_bytes_within_file [OF demoMoe_real m, of 2] m by (simp add: demoMoe_fields)
qed

theorem recommended_layers_least_witness:
  "op_nCpuMoe (recommendCpuMoe demoMoe 100 36 1) = 1
   \<and> requiredBytes demoMoe 36 1 - freedBy (layerFrees demoMoe) 1 \<le> 100"
proof -
  obtain m where m: "expertWeightBytes demoMoe = Some (32, m)" using demoMoe_experts by blast
  have t: "expertTotalOf demoMoe = 32" by (simp add: expertTotalOf_def m)
  have k: "kvNeed demoMoe 36 1 = 36" by (simp add: kvNeed_def i64_small)
  have s: "moeSized demoMoe 100 36 1" using demoMoe_real by (simp add: moeSized_def t k demoMoe_fields)
  have "map_option (\<lambda>e. atLayer (snd e) 0) (expertWeightBytes demoMoe) = Some 16" by code_simp
  then have "layerFrees demoMoe 0 = 16" by (simp add: layerFrees_def m)
  then have f: "freedBy (layerFrees demoMoe) 1 = 16" "freedBy (layerFrees demoMoe) 0 = 0"
    using freedBy_Suc [of 0 "layerFrees demoMoe"] by (simp_all add: freedBy_def)
  have "requiredBytes demoMoe 36 1 = 108" by (simp add: requiredBytes_def k demoMoe_fields)
  then show ?thesis using recommended_layers_least [OF s, of 0] recommended_layers_least [OF s, of 1]
    by (simp add: f demoMoe_fields)
qed

theorem max_ctx_is_largest_witness: "10 \<le> maxCtxSize demoMoe 1000 \<and> kvCacheBytes demoMoe 10 = 640"
proof -
  have s: "ctxSized demoMoe 1000" by (simp add: ctxSized_def demoMoe_fields)
  have k: "kvCacheBytes demoMoe 10 = 640" by (simp add: kvCacheBytes_def demoMoe_fields i64_small)
  show ?thesis using max_ctx_is_largest [OF s, of 10] k by (simp add: demoMoe_fields)
qed


theorem every_shard_describes_the_set_witness:
  "\<exists>s. inspectSplit (demoDir None) ''m-00001-of-00002.gguf'' = Some s
     \<and> inspectSplit (demoDir None) ''m-00002-of-00002.gguf'' = Some (s\<lparr>sp_index := 2\<rparr>)"
proof -
  have b: "pathBase ''m-00001-of-00002.gguf'' = shardName ''m'' 2 1" "pathBase ''m-00002-of-00002.gguf'' = shardName ''m'' 2 2"
    "pathDir ''m-00001-of-00002.gguf'' = pathDir ''m-00002-of-00002.gguf''" by code_simp+
  have n: "newline \<notin> set ''m''" by (simp add: newline_def)
  show ?thesis using every_shard_describes_the_set [OF b n, of "demoDir None"] by auto
qed

theorem split_model_read_whole_witness:
  "\<exists>g. parseFile amd64 (demoDir (Some wholeShard)) ''m-00001-of-00002.gguf'' = FileOk g
     \<and> gg_fileSize g = 200 \<and> gg_tensors g = [oneTensor, oneTensor]"
proof -
  let ?fs = "demoDir (Some wholeShard)" and ?g = "describe 3 1 0 Map.empty [oneTensor]"
  have p: "\<forall>f \<in> set [''m-00001-of-00002.gguf'', ''m-00002-of-00002.gguf'']. parseHeaderOnly amd64 ?fs f = FileOk ?g"
    by (simp add: parseHeaderOnly_def demoDir_def wholeShard_parse)
  have "parseFile amd64 ?fs ''m-00001-of-00002.gguf'' = FileOk (?g\<lparr>gg_fileSize := 200, gg_splitCount := 2,
      gg_splitMissing := [], gg_tensors := gg_tensors ?g @ gg_tensors ?g\<rparr>)"
    using split_model_read_whole [OF demo_names(1-3), of ?fs "\<lambda>_. 100" amd64 ?g "\<lambda>_. ?g"] p
    by (simp add: demo_names(4,5) demoDir_def)
  then show ?thesis by (simp add: describe_def Let_def)
qed

theorem shape_of_file_ok_witness: "expertsOk (shapeFromGGUF demoMoe)"
proof -
  have "estimateExpertBytesFromDims demoMoe * 2 \<le> 2 ^ 62" by code_simp
  then show ?thesis using shape_of_file_ok [OF demoMoe_real] by (simp add: demoMoe_fields)
qed

end
