(* ===== verification/Request_Path.thy ===== *)
theory Request_Path
  imports Macros Containers Keyed_Store
begin

text \<open>
  The way of a model request through the server: the key check (\<open>server/auth.go\<close>), the model of the request
  (\<open>FetchContext\<close> and \<open>ExtractContext\<close> of \<open>router/router.go\<close>), the prompt guard (\<open>server/promptguard.go\<close>),
  the body filters (\<open>config/filters.go\<close>, \<open>server/filters.go\<close>), the dispatch (\<open>localPeerHandler\<close>) and the
  choice of a peer (\<open>router/peer.go\<close>).

  A body is of a type \<open>'b\<close> that only the parameters look into; headers are kept under their canonical names. The JSON library (\<open>gjson\<close>, \<open>sjson\<close>), the decoders of forms
  and of base64 and the verdicts of the other gates of the chain are parameters (\<open>body_lib\<close>, \<open>gate_env\<close>).
\<close>

named_theorems path_defs "unfolding rules of the request path"

section \<open>Requests and configuration\<close>

record 'b http_req =
  rq_method :: string
  rq_path :: string
  rq_query :: "(string \<times> string) list"
  rq_headers :: "(string \<times> string) list"
  rq_body :: "'b option"

definition headerGet :: "string \<Rightarrow> 'b http_req \<Rightarrow> string" where
  "headerGet k r = (case map_of (rq_headers r) k of Some v \<Rightarrow> v | None \<Rightarrow> [])"

definition headerDel :: "string \<Rightarrow> 'b http_req \<Rightarrow> 'b http_req" where
  "headerDel k r = r\<lparr>rq_headers := filter (\<lambda>h. fst h \<noteq> k) (rq_headers r)\<rparr>"

definition headerSet :: "string \<Rightarrow> string \<Rightarrow> 'b http_req \<Rightarrow> 'b http_req" where
  "headerSet k v r = (headerDel k r)\<lparr>rq_headers := (k, v) # rq_headers (headerDel k r)\<rparr>"

definition valueGet :: "string \<Rightarrow> (string \<times> string) list \<Rightarrow> string" where
  "valueGet k q = (case map_of q k of Some v \<Rightarrow> v | None \<Rightarrow> [])"

record filters =
  fi_stripParams :: string
  fi_setParams :: "(string \<times> yval) list"
  fi_setParamsByID :: "(string \<times> (string \<times> yval) list) list"

record model_route =
  mr_useModelName :: string
  mr_filters :: filters
  mr_sendLoading :: bool
  mr_concurrency :: int

record peer_route =
  pt_models :: "string list"
  pt_filters :: filters
  pt_apiKey :: string

record route_conf =
  rc_models :: "(string \<times> model_route) list"
  rc_aliases :: "(string \<times> string) list"
  rc_peers :: "(string \<times> peer_route) list"
  rc_default :: string
  rc_apiKeys :: "string list"

record 'b body_lib =
  bl_length :: "'b \<Rightarrow> int"
  bl_get :: "string \<Rightarrow> 'b \<Rightarrow> yval option"
  bl_set :: "string \<Rightarrow> yval \<Rightarrow> 'b \<Rightarrow> 'b option"
  bl_del :: "string \<Rightarrow> 'b \<Rightarrow> 'b option"
  bl_model :: "'b \<Rightarrow> string"
  bl_stream :: "'b \<Rightarrow> bool"
  bl_form :: "'b http_req \<Rightarrow> (string \<times> string) list option"
  bl_rewriteForm :: "string \<Rightarrow> 'b option \<Rightarrow> ('b \<times> string) option"
  bl_base64 :: "string \<Rightarrow> string option"
  bl_prompt :: "'b \<Rightarrow> ((int \<times> int) list \<times> int) option"

definition routeName :: "route_conf \<Rightarrow> string \<Rightarrow> string option" where
  "routeName c s = (if map_of (rc_models c) s \<noteq> None then Some s else map_of (rc_aliases c) s)"

section \<open>API keys\<close>

definition passwordOf :: "string \<Rightarrow> string" where
  "passwordOf s = (let u = takeWhile (\<lambda>c. c \<noteq> CHR '':'') s in if length u < length s then drop (length u + 1) s else [])"

definition extractAPIKey :: "'b body_lib \<Rightarrow> 'b http_req \<Rightarrow> string" where
  "extractAPIKey L r =
     (let auth = headerGet ''Authorization'' r;
          bearerKey = (case cutPrefix auth ''Bearer '' of Some k \<Rightarrow> k | None \<Rightarrow> []);
          basicKey = (case cutPrefix auth ''Basic '' of
                        Some e \<Rightarrow> (case bl_base64 L e of Some d \<Rightarrow> passwordOf d | None \<Rightarrow> [])
                      | None \<Rightarrow> [])
      in if basicKey \<noteq> [] then basicKey else if bearerKey \<noteq> [] then bearerKey else headerGet ''X-Api-Key'' r)"

text \<open>\<open>None\<close> is 401.\<close>

definition checkAuth :: "route_conf \<Rightarrow> 'b body_lib \<Rightarrow> 'b http_req \<Rightarrow> 'b http_req option" where
  "checkAuth c L r =
     (if rc_apiKeys c = [] then Some r
      else if list_ex (\<lambda>k. extractAPIKey L r = k) (rc_apiKeys c)
      then Some (headerDel ''X-Api-Key'' (headerDel ''Authorization'' r))
      else None)"

section \<open>The model of a request\<close>

record context_data =
  cd_model :: string
  cd_modelID :: string
  cd_streaming :: bool
  cd_sendLoading :: bool
  cd_defaulted :: bool

definition noContext :: context_data where
  "noContext = \<lparr>cd_model = [], cd_modelID = [], cd_streaming = False, cd_sendLoading = False, cd_defaulted = False\<rparr>"

datatype extract_error = ModelMissing | BodyUnreadable | FormUnreadable

definition named :: "string \<Rightarrow> bool \<Rightarrow> extract_error option \<times> context_data" where
  "named m s =
     (if m \<noteq> [] then (None, noContext\<lparr>cd_model := m, cd_streaming := s\<rparr>)
      else (Some ModelMissing, noContext\<lparr>cd_streaming := s\<rparr>))"

definition isJSON :: "'b http_req \<Rightarrow> bool" where
  "isJSON r = contains (headerGet ''Content-Type'' r) ''application/json''"

definition isMultipart :: "'b http_req \<Rightarrow> bool" where
  "isMultipart r = contains (headerGet ''Content-Type'' r) ''multipart/form-data''"

definition extractContext :: "'b body_lib \<Rightarrow> 'b http_req \<Rightarrow> extract_error option \<times> context_data" where
  "extractContext L r =
     (if rq_method r = ''GET''
      then named (valueGet ''model'' (rq_query r)) (valueGet ''stream'' (rq_query r) = ''true'')
      else case rq_body r of
        None \<Rightarrow> (Some BodyUnreadable, noContext)
      | Some b \<Rightarrow>
          if isJSON r then named (bl_model L b) (bl_stream L b)
          else (case bl_form L r of
                  None \<Rightarrow> (Some FormUnreadable, noContext)
                | Some form \<Rightarrow> named (valueGet ''model'' form) (valueGet ''stream'' form = ''true'')))"

text \<open>\<open>None\<close> is \<open>ErrNoModelInContext\<close>; the first argument is what an earlier handler stored.\<close>

definition fetchContext ::
  "route_conf \<Rightarrow> 'b body_lib \<Rightarrow> context_data option \<Rightarrow> 'b http_req \<Rightarrow> context_data option" where
  "fetchContext c L stored r =
     (case stored of
        Some d \<Rightarrow> Some d
      | None \<Rightarrow>
        (case extractContext L r of (e, d0) \<Rightarrow>
           let d1 = (case e of
                 None \<Rightarrow> Some d0
               | Some er \<Rightarrow> if er \<noteq> ModelMissing \<or> rc_default c = [] then None
                             else Some (d0\<lparr>cd_model := rc_default c, cd_defaulted := True\<rparr>)) in
           case d1 of
             None \<Rightarrow> None
           | Some d \<Rightarrow>
               let rn = (case routeName c (cd_model d) of Some n \<Rightarrow> n | None \<Rightarrow> []);
                   name = (if rn = [] then cd_model d else rn);
                   loading = (case map_of (rc_models c) name of Some m \<Rightarrow> mr_sendLoading m | None \<Rightarrow> False) in
               Some (d\<lparr>cd_modelID := name, cd_sendLoading := loading\<rparr>)))"

section \<open>Body filters\<close>

definition protectedParams :: "string list" where
  "protectedParams = [''model'']"

text \<open>The loop over the parts of the list; \<open>seen\<close> and the cleaned list are one.\<close>

fun cleanParams :: "string list \<Rightarrow> string list \<Rightarrow> string list" where
  "cleanParams [] cleaned = cleaned"
| "cleanParams (p # ps) cleaned =
     (let t = trimB p in
      if t \<in> set protectedParams \<or> t = [] \<or> t \<in> set cleaned then cleanParams ps cleaned
      else cleanParams ps (cleaned @ [t]))"

definition sanitizedStripParams :: "filters \<Rightarrow> string list" where
  "sanitizedStripParams f =
     (if fi_stripParams f = [] then [] else sort (cleanParams (splitOn CHR '','' (fi_stripParams f)) []))"

definition sanitized :: "(string \<times> yval) list \<Rightarrow> (string \<times> yval) list" where
  "sanitized ps = sort_key fst (filter (\<lambda>p. fst p \<notin> set protectedParams) ps)"

definition sanitizedSetParams :: "filters \<Rightarrow> (string \<times> yval) list" where
  "sanitizedSetParams f = sanitized (fi_setParams f)"

definition sanitizedSetParamsByID :: "filters \<Rightarrow> string \<Rightarrow> (string \<times> yval) list" where
  "sanitizedSetParamsByID f requested =
     (case map_of (fi_setParamsByID f) requested of None \<Rightarrow> [] | Some ps \<Rightarrow> sanitized ps)"

text \<open>Setting (\<open>Some\<close>) and deleting parameters one after the other; \<open>None\<close> is the library's error.\<close>

fun editBody :: "'b body_lib \<Rightarrow> (string \<times> yval option) list \<Rightarrow> 'b \<Rightarrow> 'b option" where
  "editBody L [] b = Some b"
| "editBody L ((k, e) # es) b =
     (case (case e of Some v \<Rightarrow> bl_set L k v b | None \<Rightarrow> bl_del L k b) of
        None \<Rightarrow> None
      | Some b1 \<Rightarrow> editBody L es b1)"

definition setEdits :: "(string \<times> yval) list \<Rightarrow> (string \<times> yval option) list" where
  "setEdits ps = map (\<lambda>p. (fst p, Some (snd p))) ps"

definition applyFilters :: "'b body_lib \<Rightarrow> string \<Rightarrow> string \<Rightarrow> filters \<Rightarrow> 'b \<Rightarrow> 'b option" where
  "applyFilters L requested useModelName f b =
     (case editBody L (if useModelName \<noteq> [] then [(''model'', Some (VStr useModelName))] else []) b of
        None \<Rightarrow> None
      | Some b1 \<Rightarrow>
        (case editBody L (map (\<lambda>p. (p, None)) (sanitizedStripParams f)) b1 of
           None \<Rightarrow> None
         | Some b2 \<Rightarrow>
           (case editBody L (setEdits (sanitizedSetParams f)) b2 of
              None \<Rightarrow> None
            | Some b3 \<Rightarrow> editBody L (setEdits (sanitizedSetParamsByID f requested)) b3)))"

text \<open>The peers are visited in the order of the list, one iteration order of the map.\<close>

definition resolveFilters :: "route_conf \<Rightarrow> string \<Rightarrow> (string \<times> filters) option" where
  "resolveFilters c requested =
     (case routeName c requested of
        Some name \<Rightarrow>
          (case map_of (rc_models c) name of
             Some m \<Rightarrow> Some (mr_useModelName m, mr_filters m)
           | None \<Rightarrow> Some ([], \<lparr>fi_stripParams = [], fi_setParams = [], fi_setParamsByID = []\<rparr>))
      | None \<Rightarrow>
          (case List.find (\<lambda>p. requested \<in> set (pt_models (snd p))) (rc_peers c) of
             Some p \<Rightarrow> Some ([], pt_filters (snd p))
           | None \<Rightarrow> None))"

definition filterBody :: "route_conf \<Rightarrow> 'b body_lib \<Rightarrow> context_data \<Rightarrow> 'b \<Rightarrow> 'b option" where
  "filterBody c L d b =
     (let rf = resolveFilters c (cd_model d) in
      if rf = None \<and> \<not> cd_defaulted d then Some b
      else case (if cd_defaulted d then bl_set L ''model'' (VStr (cd_model d)) b else Some b) of
        None \<Rightarrow> None
      | Some b1 \<Rightarrow> (case rf of Some (name, f) \<Rightarrow> applyFilters L (cd_model d) name f b1 | None \<Rightarrow> Some b1))"

section \<open>The prompt guard\<close>

definition bytesPerTokenEstimate :: rat where
  "bytesPerTokenEstimate = 3"

text \<open>
  The lengths of role and content of every message and of the prompt field, as the decoder gives them;
  \<open>None\<close> is a body that does not decode.
\<close>

definition promptChars :: "(int \<times> int) list \<times> int \<Rightarrow> int" where
  "promptChars p =
     (case p of (msgs, prompt) \<Rightarrow>
        foldl (\<lambda>n m. n + (snd m + fst m + 8)) 0 msgs + (if prompt > 2 then prompt else 0))"

definition estimatePromptTokens :: "'b body_lib \<Rightarrow> 'b \<Rightarrow> int option" where
  "estimatePromptTokens L b =
     (case bl_prompt L b of
        None \<Rightarrow> None
      | Some p \<Rightarrow> if promptChars p = 0 then None
                   else Some (goInt (fdiv (float64 (promptChars p)) bytesPerTokenEstimate)))"

text \<open>The memo of \<open>max_safe_ctx\<close> and the fit of a model, \<open>None\<close> when it cannot be computed.\<close>

definition maxSafeCtx :: "(string \<rightharpoonup> int) \<Rightarrow> (string \<Rightarrow> int option) \<Rightarrow> string \<Rightarrow> int \<times> (string \<rightharpoonup> int)" where
  "maxSafeCtx memo fitFor mid =
     (case memo mid of
        Some n \<Rightarrow> (n, memo)
      | None \<Rightarrow> (let n = (case fitFor mid of Some k \<Rightarrow> k | None \<Rightarrow> 0) in (n, memo(mid \<mapsto> n))))"

definition guarded :: "'b http_req \<Rightarrow> bool" where
  "guarded r = (rq_method r = ''POST'' \<and> contains (toLower (headerGet ''Content-Type'' r)) ''application/json'')"

text \<open>Whether the request is rejected with 413, and the memo.\<close>

definition promptGuard ::
  "'b body_lib \<Rightarrow> (string \<rightharpoonup> int) \<Rightarrow> (string \<Rightarrow> int option) \<Rightarrow> context_data \<Rightarrow> 'b http_req \<Rightarrow> bool \<times> (string \<rightharpoonup> int)" where
  "promptGuard L memo fitFor d r =
     (if \<not> guarded r then (False, memo)
      else case maxSafeCtx memo fitFor (cd_modelID d) of
        (safe, memo') \<Rightarrow>
          if safe \<le> 0 then (False, memo')
          else (case rq_body r of
                  None \<Rightarrow> (False, memo')
                | Some b \<Rightarrow> (case estimatePromptTokens L b of
                               None \<Rightarrow> (False, memo')
                             | Some tokens \<Rightarrow> (tokens > safe, memo'))))"

section \<open>Dispatch\<close>

text \<open>\<open>NewPeer\<close>: the first peer in the order of their names that lists the model.\<close>

definition peerOf :: "route_conf \<Rightarrow> string \<Rightarrow> (string \<times> peer_route) option" where
  "peerOf c model = List.find (\<lambda>p. model \<in> set (pt_models (snd p))) (sort_key fst (rc_peers c))"

definition stripVersionPrefix :: "'b http_req \<Rightarrow> 'b http_req" where
  "stripVersionPrefix r =
     (if hasPrefix (rq_path r) ''/v/'' then r\<lparr>rq_path := drop 2 (rq_path r)\<rparr> else r)"

definition withPeerKey :: "peer_route \<Rightarrow> 'b http_req \<Rightarrow> 'b http_req" where
  "withPeerKey p r =
     (if pt_apiKey p \<noteq> []
      then headerSet ''X-Api-Key'' (pt_apiKey p) (headerSet ''Authorization'' (''Bearer '' @ pt_apiKey p) r) else r)"

datatype target = ToLocal string | ToPeer string

datatype 'b outcome = Refused nat | Forwarded target "'b http_req"

definition localPeerHandler :: "route_conf \<Rightarrow> (string \<Rightarrow> bool) \<Rightarrow> context_data \<Rightarrow> 'b http_req \<Rightarrow> 'b outcome" where
  "localPeerHandler c handles d r =
     (let r1 = stripVersionPrefix r in
      if handles (cd_modelID d) then Forwarded (ToLocal (cd_modelID d)) r1
      else case peerOf c (cd_modelID d) of
        Some (peer, p) \<Rightarrow> Forwarded (ToPeer peer) (withPeerKey p r1)
      | None \<Rightarrow> Refused 404)"

section \<open>The chain\<close>

text \<open>
  What the other handlers of the chain decide: a concurrency slot within the timeout, the load gate and
  the memory-pressure gate (the status they refuse with), and what the local router handles.
\<close>

record gate_env =
  ge_slot :: "string \<Rightarrow> bool"
  ge_load :: "context_data \<Rightarrow> nat option"
  ge_pressure :: "context_data \<Rightarrow> nat option"
  ge_fit :: "string \<Rightarrow> int option"
  ge_handles :: "string \<Rightarrow> bool"

definition defaultConcurrencyLimit :: int where
  "defaultConcurrencyLimit = 10"

definition limitFor :: "route_conf \<Rightarrow> string \<Rightarrow> int option" where
  "limitFor c mid =
     map_option (\<lambda>m. if mr_concurrency m > 0 then mr_concurrency m else defaultConcurrencyLimit) (map_of (rc_models c) mid)"

text \<open>The two filter handlers, for JSON and for multipart bodies.\<close>

definition withBody :: "'b body_lib \<Rightarrow> 'b \<Rightarrow> 'b http_req \<Rightarrow> 'b http_req" where
  "withBody L b r =
     headerSet ''Content-Length'' (itoa (bl_length L b)) (headerDel ''Transfer-Encoding'' (r\<lparr>rq_body := Some b\<rparr>))"

definition filterJSON :: "route_conf \<Rightarrow> 'b body_lib \<Rightarrow> context_data \<Rightarrow> 'b http_req \<Rightarrow> nat + 'b http_req" where
  "filterJSON c L d r =
     (if \<not> isJSON r then Inr r
      else if resolveFilters c (cd_model d) = None \<and> \<not> cd_defaulted d then Inr r
      else case rq_body r of
        None \<Rightarrow> Inl 400
      | Some b \<Rightarrow> (case filterBody c L d b of
                     None \<Rightarrow> Inl 500
                   | Some b' \<Rightarrow> Inr (withBody L b' r)))"

definition filterForm :: "route_conf \<Rightarrow> 'b body_lib \<Rightarrow> context_data \<Rightarrow> 'b http_req \<Rightarrow> nat + 'b http_req" where
  "filterForm c L d r =
     (if \<not> isMultipart r then Inr r
      else case resolveFilters c (cd_model d) of
        None \<Rightarrow> Inr r
      | Some (name, f) \<Rightarrow>
          if name = [] then Inr r
          else (case bl_form L r of
                  None \<Rightarrow> Inl 400
                | Some form \<Rightarrow>
                    (case bl_rewriteForm L name (rq_body r) of
                       None \<Rightarrow> Inl 500
                     | Some (b', ct) \<Rightarrow>
                         Inr (withBody L b' (headerSet ''Content-Type'' ct r)))))"

definition modelRequest ::
  "route_conf \<Rightarrow> 'b body_lib \<Rightarrow> gate_env \<Rightarrow> (string \<rightharpoonup> int) \<Rightarrow> 'b http_req \<Rightarrow> 'b outcome \<times> (string \<rightharpoonup> int)" where
  "modelRequest c L G memo r =
     (case checkAuth c L r of
        None \<Rightarrow> (Refused 401, memo)
      | Some r1 \<Rightarrow>
        (case fetchContext c L None r1 of
           None \<Rightarrow> (Refused 404, memo)
         | Some d \<Rightarrow>
           if limitFor c (cd_modelID d) \<noteq> None \<and> \<not> ge_slot G (cd_modelID d) then (Refused 429, memo)
           else (case ge_load G d of
             Some st \<Rightarrow> (Refused st, memo)
           | None \<Rightarrow> (case ge_pressure G d of
               Some st \<Rightarrow> (Refused st, memo)
             | None \<Rightarrow> (case promptGuard L memo (ge_fit G) d r1 of (reject, memo') \<Rightarrow>
                 if reject then (Refused 413, memo')
                 else (case filterJSON c L d r1 of
                   Inl st \<Rightarrow> (Refused st, memo')
                 | Inr r2 \<Rightarrow> (case filterForm c L d r2 of
                     Inl st \<Rightarrow> (Refused st, memo')
                   | Inr r3 \<Rightarrow> (localPeerHandler c (ge_handles G) d r3, memo'))))))))"

section \<open>Cross-origin requests\<close>

definition isTokenChar :: "char \<Rightarrow> bool" where
  "isTokenChar c = (isLowerCh c \<or> isUpperCh c \<or> isDigitCh c \<or> c \<in> set ''!#$%&'' \<or> c = CHR 0x27 \<or> c \<in> set ''*+-.^_|~'' \<or> c = CHR 0x60)"

definition sanitizeHeaderNames :: "string \<Rightarrow> string" where
  "sanitizeHeaderNames v =
     joinStr '', '' (filter (\<lambda>p. p \<noteq> [] \<and> list_all isTokenChar p) (map trimB (splitOn CHR '','' v)))"

section \<open>What the filters do to a body\<close>

text \<open>
  What the code relies on in the JSON library: on an object (\<open>ok\<close>) and keys without path syntax (\<open>plain\<close>)
  setting and deleting succeed and behave as on a store of values under keys.
\<close>

definition jsonLaws :: "'b body_lib \<Rightarrow> ('b \<Rightarrow> bool) \<Rightarrow> (string \<Rightarrow> bool) \<Rightarrow> bool" where
  "jsonLaws L ok plain =
     (keyed_store ok plain (\<lambda>_. True) (bl_get L) (\<lambda>k v b. the (bl_set L k v b)) (\<lambda>k b. the (bl_del L k b))
      \<and> (\<forall>b k v. ok b \<longrightarrow> plain k \<longrightarrow> bl_set L k v b \<noteq> None \<and> bl_del L k b \<noteq> None))"

abbreviation jsonEdit :: "'b body_lib \<Rightarrow> 'b \<Rightarrow> string \<times> yval option \<Rightarrow> 'b" where
  "jsonEdit L \<equiv> oneEdit (\<lambda>k v b. the (bl_set L k v b)) (\<lambda>k b. the (bl_del L k b))"

lemma editBody_append:
  "editBody L (xs @ ys) b = (case editBody L xs b of None \<Rightarrow> None | Some b1 \<Rightarrow> editBody L ys b1)"
  by (induction L xs b rule: editBody.induct) (auto split: option.splits)

lemma jsonStep:
  assumes "jsonLaws L ok plain" and "ok b" and "plain (fst x)"
  shows "editBody L [x] b = Some (jsonEdit L b x)" and "ok (jsonEdit L b x)"
proof -
  have k: "keyed_store ok plain (\<lambda>_. True) (bl_get L) (\<lambda>k v b. the (bl_set L k v b)) (\<lambda>k b. the (bl_del L k b))"
    and t: "bl_set L (fst x) v b \<noteq> None" "bl_del L (fst x) b \<noteq> None" for v
    using assms by (auto simp: jsonLaws_def)
  show "ok (jsonEdit L b x)"
    by (rule keyed_store.oneEdit_inv [OF k]) (use assms in \<open>simp_all add: okEdit_def split: option.split\<close>)
  show "editBody L [x] b = Some (jsonEdit L b x)"
    using t by (cases x; cases "snd x") (auto simp: oneEdit_def split: option.split)
qed

lemma editBody_foldl:
  assumes "jsonLaws L ok plain"
  shows "ok b \<Longrightarrow> list_all (\<lambda>e. plain (fst e)) es \<Longrightarrow>
    editBody L es b = Some (foldl (jsonEdit L) b es) \<and> ok (foldl (jsonEdit L) b es)"
proof (induction es arbitrary: b)
  case (Cons x es)
  then have x: "editBody L [x] b = Some (jsonEdit L b x)" "ok (jsonEdit L b x)" using jsonStep [OF assms] by simp_all
  have "editBody L (x # es) b = editBody L es (jsonEdit L b x)" using editBody_append [of L "[x]" es b] x(1) by simp
  then show ?case using Cons x(2) by simp
qed simp

lemma editBody_get:
  assumes "jsonLaws L ok plain" and "ok b" and "list_all (\<lambda>e. plain (fst e)) es" and "plain j"
  shows "\<exists>b'. editBody L es b = Some b' \<and> ok b' \<and>
    bl_get L j b' = (case map_of (rev es) j of Some e \<Rightarrow> e | None \<Rightarrow> bl_get L j b)"
proof -
  have k: "keyed_store ok plain (\<lambda>_. True) (bl_get L) (\<lambda>k v b. the (bl_set L k v b)) (\<lambda>k b. the (bl_del L k b))"
    using assms(1) by (simp add: jsonLaws_def)
  have "list_all (okEdit plain (\<lambda>_. True)) es" using assms(3) by (simp add: okEdit_def list_all_iff split: option.split)
  from keyed_store.edits_get [OF k this assms(2,4)] editBody_foldl [OF assms(1-3)] show ?thesis by blast
qed

text \<open>The edits of a configuration, in the order the code makes them.\<close>

definition filterEdits :: "string \<Rightarrow> string \<Rightarrow> filters \<Rightarrow> (string \<times> yval option) list" where
  "filterEdits requested name f =
     (if name \<noteq> [] then [(''model'', Some (VStr name))] else []) @ map (\<lambda>p. (p, None)) (sanitizedStripParams f)
     @ setEdits (sanitizedSetParams f) @ setEdits (sanitizedSetParamsByID f requested)"

lemma applyFilters_edits: "applyFilters L requested name f b = editBody L (filterEdits requested name f) b"
  by (simp add: applyFilters_def filterEdits_def editBody_append split: option.split)

lemma cleanParams_set: "set (cleanParams ps acc) = set acc \<union> (trimB ` set ps - {[], ''model''})"
  by (induction ps acc rule: cleanParams.induct) (auto simp: protectedParams_def Let_def)

lemma stripped_set: "set (sanitizedStripParams f) = trimB ` set (splitOn CHR '','' (fi_stripParams f)) - {[], ''model''}"
  by (auto simp: sanitizedStripParams_def cleanParams_set trimB_def)

lemma sanitized_map:
  assumes "distinct (map fst ps)"
  shows "distinct (map fst (sanitized ps))" and "map_of (sanitized ps) j = (if j = ''model'' then None else map_of ps j)"
proof -
  let ?q = "filter (\<lambda>p. fst p \<notin> set protectedParams) ps"
  have d: "distinct (map fst ?q)" using assms by (rule distinct_map_filter)
  then show s: "distinct (map fst (sanitized ps))" by (simp add: sanitized_def distinct_map)
  have "map_of (sanitized ps) = map_of ?q"
    using map_of_inject_set [OF s d] by (simp add: sanitized_def)
  moreover have "map_of ?q j = (if j = ''model'' then None else map_of ps j)"
    by (induction ps) (auto simp: protectedParams_def)
  ultimately show "map_of (sanitized ps) j = (if j = ''model'' then None else map_of ps j)" by simp
qed

definition wfFilters :: "filters \<Rightarrow> bool" where
  "wfFilters f =
     (distinct (map fst (fi_setParams f)) \<and> list_all (\<lambda>e. distinct (map fst (snd e))) (fi_setParamsByID f))"

definition byID :: "filters \<Rightarrow> string \<Rightarrow> (string \<times> yval) list" where
  "byID f requested = (case map_of (fi_setParamsByID f) requested of Some ps \<Rightarrow> ps | None \<Rightarrow> [])"

text \<open>The value of a parameter after the filters: set by alias, set, stripped, renamed or kept.\<close>

definition filteredParam :: "string \<Rightarrow> string \<Rightarrow> filters \<Rightarrow> string \<Rightarrow> yval option \<Rightarrow> yval option" where
  "filteredParam requested name f j old =
     (if j = ''model'' then if name \<noteq> [] then Some (VStr name) else old
      else case map_of (byID f requested) j of
        Some v \<Rightarrow> Some v
      | None \<Rightarrow> (case map_of (fi_setParams f) j of
          Some v \<Rightarrow> Some v
        | None \<Rightarrow> if j \<noteq> [] \<and> j \<in> trimB ` set (splitOn CHR '','' (fi_stripParams f)) then None else old))"

lemma byID_map:
  assumes "wfFilters f"
  shows "distinct (map fst (sanitizedSetParamsByID f r))"
    and "map_of (sanitizedSetParamsByID f r) j = (if j = ''model'' then None else map_of (byID f r) j)"
proof (atomize (full), cases "map_of (fi_setParamsByID f) r")
  case (Some ps)
  then have "distinct (map fst ps)" using assms map_of_SomeD [OF Some] by (force simp: wfFilters_def list_all_iff)
  then show "distinct (map fst (sanitizedSetParamsByID f r)) \<and>
      map_of (sanitizedSetParamsByID f r) j = (if j = ''model'' then None else map_of (byID f r) j)"
    using sanitized_map(1) [of ps] sanitized_map(2) [of ps j] by (simp add: sanitizedSetParamsByID_def byID_def Some)
qed (simp add: sanitizedSetParamsByID_def byID_def)

lemma map_of_setEdits: "map_of (setEdits ps) j = map_option Some (map_of ps j)"
  by (induction ps) (auto simp: setEdits_def)

lemma map_of_dels: "map_of (map (\<lambda>p. (p, None :: yval option)) ps) j = (if j \<in> set ps then Some None else None)"
  by (induction ps) auto

lemma distinct_setEdits: "distinct (map fst (setEdits ps)) = distinct (map fst ps)"
  by (simp add: setEdits_def comp_def)

lemma map_of_filterEdits:
  assumes "wfFilters f"
  shows "(case map_of (rev (filterEdits r name f)) j of Some e \<Rightarrow> e | None \<Rightarrow> old) = filteredParam r name f j old"
proof -
  let ?a = "if name \<noteq> [] then [(''model'', Some (VStr name))] else []"
  let ?b = "map (\<lambda>p. (p, None :: yval option)) (sanitizedStripParams f)"
  let ?c = "setEdits (sanitizedSetParams f)" and ?d = "setEdits (sanitizedSetParamsByID f r)"
  have m: "map_of (rev xs) = map_of xs" if "distinct (map fst xs)" for xs :: "(string \<times> yval option) list"
    using that by (metis distinct_rev map_of_inject_set rev_map set_rev)
  have d: "distinct (map fst ?c)" "distinct (map fst ?d)"
    using sanitized_map(1) [of "fi_setParams f"] byID_map(1) [OF assms] assms
    by (simp_all add: distinct_setEdits sanitizedSetParams_def wfFilters_def)
  have b: "map_of (rev ?b) j = (if j \<in> set (sanitizedStripParams f) then Some None else None)"
    using map_of_dels [where ps = "rev (sanitizedStripParams f)" and j = j] by (simp add: rev_map)
  have cd: "map_of (rev ?c) j = map_option Some (if j = ''model'' then None else map_of (fi_setParams f) j)"
    "map_of (rev ?d) j = map_option Some (if j = ''model'' then None else map_of (byID f r) j)"
    using sanitized_map(2) [of "fi_setParams f" j] byID_map(2) [OF assms] assms
    by (simp_all only: m [OF d(1)] m [OF d(2)] map_of_setEdits) (simp_all add: sanitizedSetParams_def wfFilters_def)
  have "map_of (rev (filterEdits r name f)) j =
      (case map_of (rev ?d) j of Some e \<Rightarrow> Some e | None \<Rightarrow> case map_of (rev ?c) j of Some e \<Rightarrow> Some e
       | None \<Rightarrow> case map_of (rev ?b) j of Some e \<Rightarrow> Some e | None \<Rightarrow> map_of ?a j)"
    by (simp add: filterEdits_def map_add_def split: option.split)
  then show ?thesis unfolding b cd
    by (auto simp: filteredParam_def stripped_set split: option.split)
qed

text \<open>
  C19. Every parameter of a filtered body has the value set for the requested alias, else the one set for the
  model, else none when it is stripped, else its own; the model parameter is only renamed (or filled in with the
  default), whatever the filters list.
\<close>

theorem filtered_body_params:
  assumes "jsonLaws L ok plain" and "ok b" and "plain j" and "plain ''model''"
    and "resolveFilters c (cd_model d) = Some (name, f)" and "wfFilters f"
    and "list_all plain (map fst (filterEdits (cd_model d) name f))"
  shows "\<exists>b'. filterBody c L d b = Some b' \<and> ok b' \<and>
    bl_get L j b' = filteredParam (cd_model d) name f j
      (if cd_defaulted d \<and> j = ''model'' then Some (VStr (cd_model d)) else bl_get L j b)"
proof -
  let ?m = "if cd_defaulted d then [(''model'', Some (VStr (cd_model d)))] else []"
  let ?es = "filterEdits (cd_model d) name f"
  have "filterBody c L d b = editBody L (?m @ ?es) b"
    by (simp add: filterBody_def assms(5) editBody_append applyFilters_edits split: option.split)
  moreover have "list_all (\<lambda>e. plain (fst e)) (?m @ ?es)" using assms(4,7) by (auto simp: list_all_iff)
  moreover have "map_of (rev (?m @ ?es)) j = (case map_of (rev ?es) j of Some e \<Rightarrow> Some e | None \<Rightarrow> map_of ?m j)"
    by (simp add: map_add_def split: option.split)
  ultimately show ?thesis
    using editBody_get [OF assms(1,2) _ assms(3), of "?m @ ?es"] map_of_filterEdits [OF assms(6), symmetric]
    by (fastforce split: option.splits)
qed

section \<open>What is forwarded\<close>

lemma headerGet_del: "headerGet k (headerDel j r) = (if k = j then [] else headerGet k r)"
proof -
  have "map_of (filter (\<lambda>h. fst h \<noteq> j) hs) k = (if k = j then None else map_of hs k)" for hs :: "(string \<times> string) list"
    by (induction hs) auto
  then show ?thesis by (simp add: headerGet_def headerDel_def)
qed

lemma headerGet_set: "headerGet k (headerSet j v r) = (if k = j then v else headerGet k r)"
  using headerGet_del [of k j r] by (simp add: headerSet_def headerGet_def headerDel_def)

lemma headerGet_body: "headerGet k (r\<lparr>rq_body := b\<rparr>) = headerGet k r"
  by (simp add: headerGet_def)

lemma headerGet_strip: "headerGet k (stripVersionPrefix r) = headerGet k r"
  by (simp add: headerGet_def stripVersionPrefix_def)

definition secretHeader :: "string \<Rightarrow> bool" where
  "secretHeader k = (k = ''Authorization'' \<or> k = ''X-Api-Key'')"

lemma filterJSON_secret: "secretHeader k \<Longrightarrow> filterJSON c L d r = Inr r' \<Longrightarrow> headerGet k r' = headerGet k r"
  by (auto simp: filterJSON_def withBody_def headerGet_set headerGet_del headerGet_body secretHeader_def
      split: if_splits option.splits)

lemma filterForm_secret: "secretHeader k \<Longrightarrow> filterForm c L d r = Inr r' \<Longrightarrow> headerGet k r' = headerGet k r"
  by (auto simp: filterForm_def withBody_def headerGet_set headerGet_del headerGet_body secretHeader_def
      split: if_splits option.splits)

lemma auth_secret: "checkAuth c L r = Some r1 \<Longrightarrow> rc_apiKeys c \<noteq> [] \<Longrightarrow> secretHeader k \<Longrightarrow> headerGet k r1 = []"
  by (auto simp: checkAuth_def headerGet_del secretHeader_def split: if_splits)

lemma auth_key: "checkAuth c L r = Some r1 \<Longrightarrow> rc_apiKeys c = [] \<or> extractAPIKey L r \<in> set (rc_apiKeys c)"
  by (auto simp: checkAuth_def list_ex_iff split: if_splits)

text \<open>The headers a peer is sent in place of the client's.\<close>

definition peerHeader :: "peer_route \<Rightarrow> string \<Rightarrow> string" where
  "peerHeader p k =
     (if pt_apiKey p = [] then [] else if k = ''Authorization'' then ''Bearer '' @ pt_apiKey p else pt_apiKey p)"

lemma handler_secret:
  assumes "localPeerHandler c hs d r = Forwarded t r'" and "secretHeader k" and "headerGet k r = []"
  shows "(t = ToLocal (cd_modelID d) \<and> hs (cd_modelID d) \<and> headerGet k r' = [])
     \<or> (\<exists>peer p. t = ToPeer peer \<and> \<not> hs (cd_modelID d) \<and> peerOf c (cd_modelID d) = Some (peer, p) \<and> headerGet k r' = peerHeader p k)"
  using assms
  by (auto simp: localPeerHandler_def Let_def withPeerKey_def headerGet_set headerGet_strip peerHeader_def secretHeader_def
      split: if_splits option.splits)

lemma forwarded_steps:
  assumes "modelRequest c L G memo r = (Forwarded t r', memo')"
  obtains r1 d r2 r3 where "checkAuth c L r = Some r1" and "fetchContext c L None r1 = Some d"
    and "limitFor c (cd_modelID d) = None \<or> ge_slot G (cd_modelID d)" and "ge_load G d = None" and "ge_pressure G d = None"
    and "promptGuard L memo (ge_fit G) d r1 = (False, memo')" and "filterJSON c L d r1 = Inr r2"
    and "filterForm c L d r2 = Inr r3" and "localPeerHandler c (ge_handles G) d r3 = Forwarded t r'"
  using assms unfolding modelRequest_def
  by (auto split: option.splits if_splits prod.splits sum.splits)


section \<open>Filters and peers\<close>

lemma find_member: "List.find P xs = Some p \<Longrightarrow> p \<in> set xs \<and> P p"
  by (induction xs) (auto split: if_splits)

lemma find_unique:
  assumes "set xs = set ys" and "\<And>p q. p \<in> set xs \<Longrightarrow> q \<in> set xs \<Longrightarrow> P p \<Longrightarrow> P q \<Longrightarrow> p = q"
  shows "List.find P xs = List.find P ys"
proof (cases "List.find P xs")
  case None
  then have "List.find P ys = None" using assms(1) by (simp add: find_None_iff)
  with None show ?thesis by simp
next
  case (Some p)
  then have p: "p \<in> set xs" "P p" using find_member by fastforce+
  then have "List.find P ys \<noteq> None" using assms(1) by (auto simp: find_None_iff)
  then obtain q where q: "List.find P ys = Some q" by blast
  then have "q \<in> set xs" "P q" using find_member [OF q] assms(1) by simp_all
  with p have "p = q" by (intro assms(2))
  with Some q show ?thesis by simp
qed

text \<open>
  A model that one peer lists is filtered by the settings of the peer that serves it.
\<close>

theorem peer_filters_match:
  assumes "routeName c m = None"
    and "\<And>p q. p \<in> set (rc_peers c) \<Longrightarrow> q \<in> set (rc_peers c) \<Longrightarrow> m \<in> set (pt_models (snd p)) \<Longrightarrow> m \<in> set (pt_models (snd q)) \<Longrightarrow> p = q"
  shows "resolveFilters c m = map_option (\<lambda>p. ([], pt_filters (snd p))) (peerOf c m)"
proof -
  have "List.find (\<lambda>p. m \<in> set (pt_models (snd p))) (rc_peers c) = peerOf c m"
    unfolding peerOf_def by (rule find_unique) (use assms(2) in auto)
  then show ?thesis by (simp add: resolveFilters_def assms(1) split: option.split)
qed

section \<open>The prompt guard counts exactly\<close>

lemma fdiv_three:
  assumes "0 \<le> n" and "n < 2 ^ 50"
  shows "goInt (fdiv (float64 n) 3) = n div 3"
proof -
  let ?x = "of_int n / 3 :: rat"
  have f: "float64 n = of_int n" using assms by (simp add: float64_int)
  have N: "of_int n < (2 ^ 50 :: rat)" using assms(2) by (metis of_int_less_iff of_int_numeral of_int_power)
  have x0: "0 \<le> ?x" using assms(1) by simp
  have "\<bar>fl ?x - ?x\<bar> \<le> ?x / 2 ^ 53" by (rule fl_near [OF x0])
  also have "?x / 2 ^ 53 < 1 / 24" using N by simp
  finally have e: "\<bar>fl ?x - ?x\<bar> < 1 / 24" .
  have fl0: "0 \<le> fl ?x" by (rule fl_nonneg [OF x0])
  define q r where "q = n div 3" and "r = n mod 3"
  have n: "n = 3 * q + r" "0 \<le> r" "r < 3" by (simp_all add: q_def r_def)
  have x: "?x = of_int q + of_int r / 3" unfolding n(1) by (simp add: add_divide_distrib)
  have bounds: "of_int q \<le> fl ?x \<and> fl ?x < of_int q + 1"
  proof (cases "r = 0")
    case True
    then have xq: "?x = of_int q" using x by simp
    have "\<bar>q\<bar> < 2 ^ 53" using n assms True by simp
    from float64_int [OF this] have "fl ?x = of_int q" unfolding xq float64_def .
    then show ?thesis by simp
  next
    case False
    then have "r = 1 \<or> r = 2" using n(2,3) by auto
    then have r: "1 / 3 \<le> (of_int r / 3 :: rat)" "of_int r / 3 \<le> (2 / 3 :: rat)" by auto
    have "fl ?x - ?x < 1 / 24" "?x - fl ?x < 1 / 24" using e by linarith+
    with r x show ?thesis by linarith
  qed
  have "fl ?x < 2 ^ 63" using e N by (simp add: abs_if split: if_splits)
  then have "goInt (fl ?x) = \<lfloor>fl ?x\<rfloor>" using fl0 by (intro goInt_floor)
  also have "\<dots> = q" using bounds by (simp add: floor_unique)
  finally show ?thesis by (simp add: fdiv_def f q_def)
qed

lemma less_third_iff: "s < n div 3 \<longleftrightarrow> 3 * (s + 1) \<le> n" for s n :: int
  by presburger

text \<open>
  The guard counts exactly: it rejects a prompt when its characters divided by three exceed the safe context,
  without a rounding error.
\<close>

theorem prompt_guard_iff:
  assumes "guarded r" and "rq_body r = Some b" and "bl_prompt L b = Some p" and "0 < promptChars p" and "promptChars p < 2 ^ 50"
    and "fst (maxSafeCtx memo fitFor (cd_modelID d)) = safe"
  shows "fst (promptGuard L memo fitFor d r) \<longleftrightarrow> 0 < safe \<and> 3 * (safe + 1) \<le> promptChars p"
proof -
  have t: "estimatePromptTokens L b = Some (promptChars p div 3)"
    using assms(3-5) fdiv_three [of "promptChars p"] by (simp add: estimatePromptTokens_def bytesPerTokenEstimate_def)
  obtain memo' where m: "maxSafeCtx memo fitFor (cd_modelID d) = (safe, memo')"
    using assms(6) by (cases "maxSafeCtx memo fitFor (cd_modelID d)") auto
  have "safe < promptChars p div 3 \<longleftrightarrow> 3 * (safe + 1) \<le> promptChars p" by (rule less_third_iff)
  then show ?thesis using assms(1,2) t m by (simp add: promptGuard_def)
qed

text \<open>
  Once the size of a model could not be determined, the guard lets every later request for it pass.
\<close>

theorem guard_off_after_failed_sizing:
  assumes "guarded r" and "memo (cd_modelID d) = None" and "fit0 (cd_modelID d) = None"
  shows "\<not> fst (promptGuard L (snd (promptGuard L memo fit0 d r)) fitFor d r')"
proof -
  have "snd (promptGuard L memo fit0 d r) = memo(cd_modelID d \<mapsto> 0)"
    using assms by (simp add: promptGuard_def maxSafeCtx_def Let_def)
  then show ?thesis by (simp add: promptGuard_def maxSafeCtx_def)
qed

section \<open>Header names\<close>

lemma joined_chars: "set (joinStr sep ws) \<subseteq> set sep \<union> (\<Union>w \<in> set ws. set w)"
  by (induction sep ws rule: joinStr.induct) auto

text \<open>
  A preflight answer echoes token characters, commas and blanks only.
\<close>

theorem echoed_headers_are_tokens:
  "set (sanitizeHeaderNames v) \<subseteq> {c. isTokenChar c} \<union> {CHR '','', CHR '' ''}"
  using joined_chars [of "'', ''"] unfolding sanitizeHeaderNames_def by (fastforce simp: list_all_iff)

section \<open>Gaps\<close>

definition noFilters :: filters where
  "noFilters = \<lparr>fi_stripParams = [], fi_setParams = [], fi_setParamsByID = []\<rparr>"

definition twoPeers :: "bool \<Rightarrow> route_conf" where
  "twoPeers swap =
     (let a = (''a'', \<lparr>pt_models = [''m''], pt_filters = noFilters\<lparr>fi_stripParams := ''temperature''\<rparr>, pt_apiKey = []\<rparr>);
          b = (''b'', \<lparr>pt_models = [''m''], pt_filters = noFilters, pt_apiKey = []\<rparr>) in
      \<lparr>rc_models = [], rc_aliases = [], rc_peers = (if swap then [b, a] else [a, b]), rc_default = [], rc_apiKeys = []\<rparr>)"

text \<open>
  Two peers that list the same model: the filters follow the iteration order, the serving peer does not.
\<close>

theorem peer_filters_gap:
  "map_option fst (peerOf (twoPeers False) ''m'') = Some ''a'' \<and> map_option fst (peerOf (twoPeers True) ''m'') = Some ''a''
   \<and> map_option (\<lambda>f. sanitizedStripParams (snd f)) (resolveFilters (twoPeers False) ''m'') = Some [''temperature'']
   \<and> map_option (\<lambda>f. sanitizedStripParams (snd f)) (resolveFilters (twoPeers True) ''m'') = Some []"
  by (intro conjI; code_simp)

text \<open>A JSON library on bodies given by their members, and a form decoder that sees no fields.\<close>

definition memberLib :: "(string \<times> yval) list body_lib" where
  "memberLib = \<lparr>bl_length = (\<lambda>b. int (length b)), bl_get = (\<lambda>k b. map_of b k),
     bl_set = (\<lambda>k v b. Some ((k, v) # filter (\<lambda>e. fst e \<noteq> k) b)), bl_del = (\<lambda>k b. Some (filter (\<lambda>e. fst e \<noteq> k) b)),
     bl_model = (\<lambda>b. case map_of b ''model'' of Some (VStr s) \<Rightarrow> s | _ \<Rightarrow> []),
     bl_stream = (\<lambda>b. map_of b ''stream'' = Some (VBool True)), bl_form = (\<lambda>r. Some []),
     bl_rewriteForm = (\<lambda>n b. None), bl_base64 = (\<lambda>s. None),
     bl_prompt = (\<lambda>b. case map_of b ''prompt'' of Some (VStr s) \<Rightarrow> Some ([], int (length s) + 2) | _ \<Rightarrow> Some ([], 0))\<rparr>"

lemma map_of_without: "map_of (filter (\<lambda>e. fst e \<noteq> k) b) j = (if j = k then None else map_of b j)"
  by (induction b) auto

lemma memberLib_laws: "jsonLaws memberLib (\<lambda>b. True) (\<lambda>k. True)"
  unfolding jsonLaws_def by (intro conjI keyed_store.intro) (simp_all add: memberLib_def map_of_without)

definition demoRoute :: route_conf where
  "demoRoute = \<lparr>rc_models = [(''m'', \<lparr>mr_useModelName = ''real'',
        mr_filters = noFilters\<lparr>fi_stripParams := ''temperature, model,x'', fi_setParams := [(''x'', VInt 1)]\<rparr>,
        mr_sendLoading = False, mr_concurrency = 0\<rparr>)],
     rc_aliases = [(''alias'', ''m'')], rc_peers = [], rc_default = ''m'', rc_apiKeys = [''key'']\<rparr>"

definition demoReq :: "string \<Rightarrow> (string \<times> yval) list http_req" where
  "demoReq ct = \<lparr>rq_method = ''POST'', rq_path = ''/v/completions'', rq_query = [],
     rq_headers = [(''Content-Type'', ct), (''Authorization'', ''Bearer key'')],
     rq_body = Some [(''model'', VStr ''alias''), (''temperature'', VInt 2), (''prompt'', VStr ''hello there'')]\<rparr>"

definition openGates :: gate_env where
  "openGates = \<lparr>ge_slot = (\<lambda>m. True), ge_load = (\<lambda>d. None), ge_pressure = (\<lambda>d. None), ge_fit = (\<lambda>m. Some 100),
     ge_handles = (\<lambda>m. m = ''m'')\<rparr>"

text \<open>
  Capitals in the content type: the guard takes the body for JSON, the router for a form without a model.
\<close>

theorem content_type_case_gap:
  "guarded (demoReq ''Application/JSON'') \<and> \<not> isJSON (demoReq ''Application/JSON'')
   \<and> map_option (\<lambda>d. (cd_model d, cd_defaulted d)) (fetchContext demoRoute memberLib None (demoReq ''application/json'')) = Some (''alias'', False)
   \<and> map_option (\<lambda>d. (cd_model d, cd_defaulted d)) (fetchContext demoRoute memberLib None (demoReq ''Application/JSON'')) = Some (''m'', True)"
  by (intro conjI; code_simp)

section \<open>Examples\<close>

theorem filtered_body_params_witness:
  "\<exists>b'. filterBody demoRoute memberLib (noContext\<lparr>cd_model := ''alias''\<rparr>) [(''model'', VStr ''alias''), (''x'', VInt 2)] = Some b'
     \<and> map_of b' ''x'' = Some (VInt 1)"
proof -
  let ?f = "noFilters\<lparr>fi_stripParams := ''temperature, model,x'', fi_setParams := [(''x'', VInt 1)]\<rparr>"
  have r: "resolveFilters demoRoute (cd_model (noContext\<lparr>cd_model := ''alias''\<rparr>)) = Some (''real'', ?f)" by code_simp
  have w: "wfFilters ?f" by (simp add: wfFilters_def noFilters_def)
  have v: "filteredParam ''alias'' ''real'' ?f ''x'' old = Some (VInt 1)" for old
    by (simp add: filteredParam_def byID_def noFilters_def)
  show ?thesis
    using filtered_body_params [OF memberLib_laws _ _ _ r w, of "[(''model'', VStr ''alias''), (''x'', VInt 2)]" "''x''"]
    by (auto simp: list_all_iff v noContext_def) (auto simp: memberLib_def)
qed


theorem peer_filters_match_witness:
  "resolveFilters (twoPeers False\<lparr>rc_peers := [(''a'', \<lparr>pt_models = [''m''], pt_filters = noFilters, pt_apiKey = []\<rparr>)]\<rparr>) ''m'' \<noteq> None"
proof -
  let ?c = "twoPeers False\<lparr>rc_peers := [(''a'', \<lparr>pt_models = [''m''], pt_filters = noFilters, pt_apiKey = []\<rparr>)]\<rparr>"
  have n: "routeName ?c ''m'' = None" by code_simp
  have "resolveFilters ?c ''m'' = map_option (\<lambda>p. ([], pt_filters (snd p))) (peerOf ?c ''m'')"
    by (rule peer_filters_match [OF n]) simp
  then show ?thesis by (simp add: peerOf_def)
qed

theorem prompt_guard_iff_witness:
  "fst (promptGuard memberLib Map.empty (\<lambda>m. Some 3) noContext (demoReq ''application/json''))
   \<and> \<not> fst (promptGuard memberLib Map.empty (\<lambda>m. Some 4) noContext (demoReq ''application/json''))"
proof -
  let ?r = "demoReq ''application/json''"
  have g: "guarded ?r" by code_simp
  obtain b where b: "rq_body ?r = Some b" "bl_prompt memberLib b = Some ([], 13)" by (simp add: demoReq_def memberLib_def)
  have s: "fst (maxSafeCtx Map.empty (\<lambda>m. Some k) (cd_modelID noContext)) = k" for k by (simp add: maxSafeCtx_def)
  have p: "promptChars ([], 13) = 13" by (simp add: promptChars_def)
  show ?thesis using prompt_guard_iff [OF g b _ _ s] by (simp add: p)
qed

theorem guard_off_after_failed_sizing_witness:
  "\<not> fst (promptGuard memberLib (snd (promptGuard memberLib Map.empty (\<lambda>m. None) noContext (demoReq ''application/json'')))
          (\<lambda>m. Some 3) noContext (demoReq ''application/json''))"
proof -
  have "guarded (demoReq ''application/json'')" by code_simp
  then show ?thesis by (rule guard_off_after_failed_sizing) simp_all
qed

end
