(* ===== verification/Event_Bus.thy ===== *)
theory Event_Bus
  imports Skein_Prelude
begin

text \<open>
  The event dispatcher (\<open>internal/event/event.go\<close>): the sorted registry of event types with its binary search,
  and one group of subscribers as a state machine over its lock, its condition variable and the goroutines
  of its consumers.

  Every critical section is one step; a handler runs to its end and does not publish into its own group.
  The keys are event types (\<open>uint32\<close>), one Go type each. A consumer is about to take the lock, waiting on the condition, handling
  a batch, or gone; a publisher that finds a full queue waits on the same condition. \<open>gr_hist\<close>, \<open>cn_since\<close> and
  \<open>cn_until\<close> record the events accepted and the part of them a consumer was subscribed for; the code does not
  read them.
\<close>

section \<open>The registry\<close>

record 'g registry =
  rg_keys :: "nat list"
  rg_grps :: "'g list"

function searchLoop :: "nat list \<Rightarrow> nat \<Rightarrow> nat \<Rightarrow> nat \<Rightarrow> nat" where
  "searchLoop keys t left right =
     (if left < right
      then let mid = left + (right - left) div 2 in
        if keys ! mid < t then searchLoop keys t (mid + 1) right else searchLoop keys t left mid
      else left)"
  by pat_completeness auto
termination by (relation "measure (\<lambda>(keys, t, left, right). right - left)") auto

declare searchLoop.simps [simp del]

definition findGroup :: "'g registry \<Rightarrow> nat \<Rightarrow> 'g option" where
  "findGroup reg t =
     (let i = searchLoop (rg_keys reg) t 0 (length (rg_keys reg)) in
      if i < length (rg_keys reg) \<and> rg_keys reg ! i = t then Some (rg_grps reg ! i) else None)"

text \<open>The entry is inserted at the first key that is not smaller (\<open>sort.Search\<close>).\<close>

definition insertGroup :: "nat \<Rightarrow> 'g \<Rightarrow> 'g registry \<Rightarrow> 'g registry" where
  "insertGroup t g reg =
     (let i = searchLoop (rg_keys reg) t 0 (length (rg_keys reg)) in
      \<lparr>rg_keys = take i (rg_keys reg) @ t # drop i (rg_keys reg),
       rg_grps = take i (rg_grps reg) @ g # drop i (rg_grps reg)\<rparr>)"

text \<open>\<open>SubscribeTo\<close>: an existing group gets the subscriber, else a new group is registered.\<close>

definition subscribeTo :: "('g \<Rightarrow> 'g) \<Rightarrow> 'g \<Rightarrow> nat \<Rightarrow> 'g registry \<Rightarrow> 'g registry" where
  "subscribeTo add fresh t reg =
     (case findGroup reg t of
        Some g \<Rightarrow> reg\<lparr>rg_grps := (rg_grps reg)[searchLoop (rg_keys reg) t 0 (length (rg_keys reg)) := add g]\<rparr>
      | None \<Rightarrow> insertGroup t (add fresh) reg)"

text \<open>A closed dispatcher panics (\<open>None\<close>).\<close>

definition subscribe :: "bool \<Rightarrow> ('g \<Rightarrow> 'g) \<Rightarrow> 'g \<Rightarrow> nat \<Rightarrow> 'g registry \<Rightarrow> 'g registry option" where
  "subscribe closed add fresh t reg = (if closed then None else Some (subscribeTo add fresh t reg))"

definition publish :: "('g \<Rightarrow> 'g) \<Rightarrow> nat \<Rightarrow> 'g registry \<Rightarrow> 'g registry" where
  "publish send t reg =
     (case findGroup reg t of
        Some g \<Rightarrow> reg\<lparr>rg_grps := (rg_grps reg)[searchLoop (rg_keys reg) t 0 (length (rg_keys reg)) := send g]\<rparr>
      | None \<Rightarrow> reg)"

definition registryOk :: "'g registry \<Rightarrow> bool" where
  "registryOk reg = (sorted (rg_keys reg) \<and> distinct (rg_keys reg) \<and> length (rg_grps reg) = length (rg_keys reg))"

lemma searchLoop_first:
  assumes "sorted keys" and "right \<le> length keys" and "left \<le> right"
    and "\<forall>j < left. keys ! j < t" and "\<forall>j. right \<le> j \<longrightarrow> j < length keys \<longrightarrow> t \<le> keys ! j"
  shows "searchLoop keys t left right \<le> length keys \<and> (\<forall>j < searchLoop keys t left right. keys ! j < t)
    \<and> (\<forall>j. searchLoop keys t left right \<le> j \<longrightarrow> j < length keys \<longrightarrow> t \<le> keys ! j)"
  using assms
proof (induction keys t left right rule: searchLoop.induct)
  case (1 keys t left right)
  define mid where "mid = left + (right - left) div 2"
  show ?case
  proof (cases "left < right")
    case False
    then have "searchLoop keys t left right = left" by (simp add: searchLoop.simps)
    then show ?thesis using 1(4-7) False by simp
  next
    case True
    then have m: "left \<le> mid" "mid < right" by (auto simp: mid_def)
    show ?thesis
    proof (cases "keys ! mid < t")
      case lt: True
      then have e: "searchLoop keys t left right = searchLoop keys t (mid + 1) right"
        using True by (subst searchLoop.simps) (simp add: mid_def Let_def)
      have "keys ! j < t" if "j < mid + 1" for j
        using sorted_nth_mono [OF 1(3), of j mid] that m 1(4) lt by simp
      moreover have "mid + 1 \<le> right" using m by simp
      ultimately show ?thesis unfolding e by (intro 1(1) [OF True mid_def lt 1(3,4)] 1(7)) simp_all
    next
      case ge: False
      then have e: "searchLoop keys t left right = searchLoop keys t left mid"
        using True by (subst searchLoop.simps) (simp add: mid_def Let_def)
      have "t \<le> keys ! j" if "mid \<le> j" "j < length keys" for j
        using sorted_nth_mono [OF 1(3) that] ge by simp
      moreover have "mid \<le> length keys" using m 1(4) by simp
      ultimately show ?thesis unfolding e by (intro 1(2) [OF True mid_def ge 1(3)] m(1) 1(6)) simp_all
    qed
  qed
qed

lemma search_first:
  assumes "sorted keys"
  shows "searchLoop keys t 0 (length keys) \<le> length keys"
    and "j < searchLoop keys t 0 (length keys) \<Longrightarrow> keys ! j < t"
    and "searchLoop keys t 0 (length keys) \<le> j \<Longrightarrow> j < length keys \<Longrightarrow> t \<le> keys ! j"
  using searchLoop_first [OF assms, of "length keys" 0 t] by auto

lemma findGroup_index:
  assumes "registryOk reg" and "i < length (rg_keys reg)"
  shows "searchLoop (rg_keys reg) (rg_keys reg ! i) 0 (length (rg_keys reg)) = i"
proof -
  let ?k = "rg_keys reg" and ?s = "searchLoop (rg_keys reg) (rg_keys reg ! i) 0 (length (rg_keys reg))"
  have s: "sorted ?k" "distinct ?k" using assms(1) by (simp_all add: registryOk_def)
  note f = search_first [OF s(1), where t = "?k ! i"]
  have "\<not> i < ?s" using f(2) [of i] by auto
  moreover have "\<not> ?s < i"
  proof
    assume l: "?s < i"
    then have "?k ! i \<le> ?k ! ?s" using f(3) [of ?s] assms(2) by simp
    moreover have "?k ! ?s \<le> ?k ! i" using sorted_nth_mono [OF s(1)] l assms(2) by simp
    ultimately show False using s(2) l assms(2) by (simp add: nth_eq_iff_index_eq)
  qed
  ultimately show ?thesis by simp
qed

lemma findGroup_map: "registryOk reg \<Longrightarrow> findGroup reg t = map_of (zip (rg_keys reg) (rg_grps reg)) t"
proof -
  assume ok: "registryOk reg"
  let ?k = "rg_keys reg" and ?g = "rg_grps reg"
  have l: "length ?g = length ?k" "distinct ?k" using ok by (simp_all add: registryOk_def)
  show ?thesis
  proof (cases "t \<in> set ?k")
    case True
    then obtain i where i: "i < length ?k" "t = ?k ! i" by (metis in_set_conv_nth)
    have "map_of (zip ?k ?g) t = Some (?g ! i)" using i l by (simp add: map_of_zip_nth)
    then show ?thesis using findGroup_index [OF ok i(1)] i by (simp add: findGroup_def)
  next
    case False
    then have "map_of (zip ?k ?g) t = None" using l(1) by (simp add: map_of_zip_is_None)
    then show ?thesis using False by (auto simp: findGroup_def Let_def dest: nth_mem)
  qed
qed

lemma insertGroup_ok:
  assumes "registryOk reg" and "findGroup reg t = None"
  shows "registryOk (insertGroup t g reg)" and "findGroup (insertGroup t g reg) = (findGroup reg)(t \<mapsto> g)"
proof -
  let ?k = "rg_keys reg" and ?g = "rg_grps reg" and ?i = "searchLoop (rg_keys reg) t 0 (length (rg_keys reg))"
  have s: "sorted ?k" "distinct ?k" "length ?g = length ?k" using assms(1) by (simp_all add: registryOk_def)
  note f = search_first [OF s(1), where t = t]
  have nt: "t \<notin> set ?k" using assms s(3) by (simp add: findGroup_map map_of_zip_is_None)
  have "\<forall>x \<in> set (take ?i ?k). x < t" "\<forall>x \<in> set (drop ?i ?k). t \<le> x"
    using f by (auto simp: in_set_conv_nth intro: f(2) f(3))
  then have "sorted (take ?i ?k @ t # drop ?i ?k)"
    using s(1) by (fastforce simp: sorted_append sorted_wrt_take sorted_wrt_drop)
  moreover have "distinct (take ?i ?k @ t # drop ?i ?k)"
    using nt s(2) by (auto simp: set_take_disj_set_drop_if_distinct dest: in_set_takeD in_set_dropD)
  ultimately show ok: "registryOk (insertGroup t g reg)" using s(3) f(1) by (simp add: registryOk_def insertGroup_def Let_def)
  have z: "zip (take ?i ?k @ t # drop ?i ?k) (take ?i ?g @ g # drop ?i ?g) =
      take ?i (zip ?k ?g) @ (t, g) # drop ?i (zip ?k ?g)"
    using s(3) by (simp add: take_zip drop_zip)
  have "map_of (take ?i (zip ?k ?g) @ (t, g) # drop ?i (zip ?k ?g)) = (map_of (zip ?k ?g))(t \<mapsto> g)"
  proof -
    have "map_of (zip ?k ?g) = map_of (take ?i (zip ?k ?g) @ drop ?i (zip ?k ?g))" by simp
    moreover have "map_of (take ?i (zip ?k ?g)) t = None"
      using nt s(3) by (auto simp: map_of_eq_None_iff take_zip dest!: in_set_takeD set_zip_leftD)
    ultimately show ?thesis by (auto simp: map_add_def fun_eq_iff simp del: append_take_drop_id split: option.splits)
  qed
  then show "findGroup (insertGroup t g reg) = (findGroup reg)(t \<mapsto> g)"
    using findGroup_map [OF ok] findGroup_map [OF assms(1)] z by (simp add: fun_eq_iff insertGroup_def Let_def)
qed

lemma zip_update:
  assumes "length gs = length ks" and "distinct ks" and "i < length ks"
  shows "map_of (zip ks (gs[i := x])) = (map_of (zip ks gs))(ks ! i \<mapsto> x)"
proof
  fix j
  show "map_of (zip ks (gs[i := x])) j = ((map_of (zip ks gs))(ks ! i \<mapsto> x)) j"
  proof (cases "j \<in> set ks")
    case True
    then obtain m where m: "m < length ks" "j = ks ! m" by (metis in_set_conv_nth)
    then show ?thesis using assms by (simp add: map_of_zip_nth nth_eq_iff_index_eq nth_list_update)
  next
    case False
    then have "map_of (zip ks (gs[i := x])) j = None" "map_of (zip ks gs) j = None"
      using assms(1) by (simp_all add: map_of_zip_is_None)
    then show ?thesis using False assms(3) by auto
  qed
qed

lemma group_updated:
  assumes "registryOk reg" and "findGroup reg t = Some g"
  shows "registryOk (reg\<lparr>rg_grps := (rg_grps reg)[searchLoop (rg_keys reg) t 0 (length (rg_keys reg)) := x]\<rparr>)"
    and "findGroup (reg\<lparr>rg_grps := (rg_grps reg)[searchLoop (rg_keys reg) t 0 (length (rg_keys reg)) := x]\<rparr>) =
      (findGroup reg)(t \<mapsto> x)"
proof -
  let ?k = "rg_keys reg" and ?g = "rg_grps reg" and ?i = "searchLoop (rg_keys reg) t 0 (length (rg_keys reg))"
  have i: "?i < length ?k" "?k ! ?i = t" using assms(2) by (auto simp: findGroup_def Let_def split: if_splits)
  have l: "length ?g = length ?k" "distinct ?k" using assms(1) by (simp_all add: registryOk_def)
  show ok: "registryOk (reg\<lparr>rg_grps := ?g[?i := x]\<rparr>)" using assms(1) by (simp add: registryOk_def)
  have "map_of (zip ?k (?g[?i := x])) = (map_of (zip ?k ?g))(t \<mapsto> x)"
    using zip_update [OF l i(1)] i(2) by simp
  then show "findGroup (reg\<lparr>rg_grps := ?g[?i := x]\<rparr>) = (findGroup reg)(t \<mapsto> x)"
    using findGroup_map [OF ok] findGroup_map [OF assms(1)] by (simp add: fun_eq_iff)
qed

text \<open>
  The registry is a map from event types to groups: its binary search finds exactly what was registered, and
  subscribing changes the group of that type and no other, registering a new group when there is none.
\<close>

theorem registry_is_a_map:
  assumes "registryOk reg"
  shows "registryOk (subscribeTo add fresh t reg)
    \<and> findGroup (subscribeTo add fresh t reg) =
        (findGroup reg)(t \<mapsto> add (case findGroup reg t of Some g \<Rightarrow> g | None \<Rightarrow> fresh))"
proof (cases "findGroup reg t")
  case None
  then show ?thesis using insertGroup_ok [OF assms None] by (simp add: subscribeTo_def)
next
  case (Some g)
  then show ?thesis using group_updated [OF assms Some] by (simp add: subscribeTo_def)
qed

theorem registry_is_a_map_witness:
  "findGroup (subscribeTo Suc 0 5 \<lparr>rg_keys = [2, 9], rg_grps = [1, 4]\<rparr>) =
     (findGroup \<lparr>rg_keys = [2, 9], rg_grps = [1, 4]\<rparr>)(5 \<mapsto> 1)"
proof -
  have "registryOk \<lparr>rg_keys = [2, 9], rg_grps = [1, 4::nat]\<rparr>" by (simp add: registryOk_def)
  moreover have "findGroup \<lparr>rg_keys = [2, 9], rg_grps = [1, 4::nat]\<rparr> 5 = None"
    by (simp add: findGroup_def searchLoop.simps Let_def)
  ultimately show ?thesis using registry_is_a_map [of "\<lparr>rg_keys = [2, 9], rg_grps = [1, 4]\<rparr>" Suc 0 5] by simp
qed

text \<open>Publishing reaches the group of the event's type and leaves every other group alone.\<close>

theorem publish_reaches_its_group:
  assumes "registryOk reg"
  shows "registryOk (publish send t reg)
    \<and> findGroup (publish send t reg) = (findGroup reg)(t := map_option send (findGroup reg t))"
proof (cases "findGroup reg t")
  case None
  then show ?thesis using assms by (simp add: publish_def fun_upd_idem)
next
  case (Some g)
  then show ?thesis using group_updated [OF assms Some] by (simp add: publish_def)
qed

theorem publish_reaches_its_group_witness:
  "findGroup (publish Suc 9 \<lparr>rg_keys = [2, 9], rg_grps = [1, 4]\<rparr>) 9 = Some 5"
proof -
  have "registryOk \<lparr>rg_keys = [2, 9], rg_grps = [1, 4::nat]\<rparr>" by (simp add: registryOk_def)
  moreover have "findGroup \<lparr>rg_keys = [2, 9], rg_grps = [1, 4::nat]\<rparr> 9 = Some 4"
    by (simp add: findGroup_def searchLoop.simps Let_def)
  ultimately show ?thesis using publish_reaches_its_group [of "\<lparr>rg_keys = [2, 9], rg_grps = [1, 4]\<rparr>" Suc 9] by simp
qed

section \<open>A group of subscribers\<close>

datatype consumer_pc = AtLock | Waiting | Handling | Gone

record 'e consumer =
  cn_queue :: "'e list"
  cn_batch :: "'e list"
  cn_stop :: bool
  cn_pc :: consumer_pc
  cn_log :: "'e list"
  cn_since :: nat
  cn_until :: "nat option"

text \<open>A consumer is named by its position; \<open>gr_blocked\<close> are the publishers in \<open>Wait\<close>, with whether they were woken.\<close>

record 'e group =
  gr_subs :: "nat list"
  gr_cons :: "'e consumer list"
  gr_blocked :: "('e \<times> bool) list"
  gr_max :: nat
  gr_hist :: "'e list"

definition newGroup :: "nat \<Rightarrow> 'e group" where
  "newGroup maxQueue = \<lparr>gr_subs = [], gr_cons = [], gr_blocked = [], gr_max = maxQueue, gr_hist = []\<rparr>"

text \<open>\<open>Add\<close>, with the goroutine it starts.\<close>

definition addSub :: "'e group \<Rightarrow> 'e group" where
  "addSub g =
     g\<lparr>gr_subs := gr_subs g @ [length (gr_cons g)],
       gr_cons := gr_cons g @ [\<lparr>cn_queue = [], cn_batch = [], cn_stop = False, cn_pc = AtLock, cn_log = [],
                                cn_since = length (gr_hist g), cn_until = None\<rparr>]\<rparr>"

text \<open>\<open>Del\<close>: it sets the stop flag and removes the subscriber; nobody is woken.\<close>

definition delSub :: "nat \<Rightarrow> 'e group \<Rightarrow> 'e group" where
  "delSub i g =
     (let c = gr_cons g ! i in
      g\<lparr>gr_cons := (gr_cons g)[i := c\<lparr>cn_stop := True,
            cn_until := (case cn_until c of None \<Rightarrow> Some (length (gr_hist g)) | u \<Rightarrow> u)\<rparr>],
        gr_subs := remove1 i (gr_subs g)\<rparr>)"

definition maxLen :: "'e group \<Rightarrow> nat" where
  "maxLen g = foldl (\<lambda>m i. let n = length (cn_queue (gr_cons g ! i)) in if n > m then n else m) 0 (gr_subs g)"

definition wakeConsumer :: "'e consumer \<Rightarrow> 'e consumer" where
  "wakeConsumer c = (if cn_pc c = Waiting then c\<lparr>cn_pc := AtLock\<rparr> else c)"

definition wakeAll :: "'e group \<Rightarrow> 'e group" where
  "wakeAll g = g\<lparr>gr_cons := map wakeConsumer (gr_cons g), gr_blocked := map (\<lambda>b. (fst b, True)) (gr_blocked g)\<rparr>"

definition pushTo :: "'e \<Rightarrow> 'e consumer list \<Rightarrow> nat \<Rightarrow> 'e consumer list" where
  "pushTo ev cs i = cs[i := (cs ! i)\<lparr>cn_queue := cn_queue (cs ! i) @ [ev]\<rparr>]"

definition acceptEvent :: "'e \<Rightarrow> 'e group \<Rightarrow> 'e group" where
  "acceptEvent ev g = g\<lparr>gr_cons := foldl (pushTo ev) (gr_cons g) (gr_subs g), gr_hist := gr_hist g @ [ev]\<rparr>"

text \<open>\<open>Broadcast\<close> from the moment it holds the lock, up to \<open>Wait\<close> or its end.\<close>

definition broadcast :: "'e \<Rightarrow> 'e group \<Rightarrow> 'e group" where
  "broadcast ev g =
     (if maxLen g \<ge> gr_max g then g\<lparr>gr_blocked := gr_blocked g @ [(ev, False)]\<rparr> else wakeAll (acceptEvent ev g))"

datatype 'e bus_act =
    Publish 'e | Subscribe | Cancel nat | Retry nat | Check nat | Handle nat | Finish nat

definition setConsumer :: "nat \<Rightarrow> 'e consumer \<Rightarrow> 'e group \<Rightarrow> 'e group" where
  "setConsumer i c g = g\<lparr>gr_cons := (gr_cons g)[i := c]\<rparr>"

text \<open>\<open>Listen\<close> from the moment it holds the lock: the batch is taken, or it waits, or it ends.\<close>

definition checkQueue :: "'e consumer \<Rightarrow> 'e consumer" where
  "checkQueue c =
     (if cn_queue c = [] then c\<lparr>cn_pc := if cn_stop c then Gone else Waiting\<rparr>
      else c\<lparr>cn_batch := cn_queue c, cn_queue := [], cn_pc := Handling\<rparr>)"

definition handleOne :: "'e consumer \<Rightarrow> 'e consumer" where
  "handleOne c = c\<lparr>cn_log := cn_log c @ [hd (cn_batch c)], cn_batch := tl (cn_batch c)\<rparr>"

definition canStep :: "'e bus_act \<Rightarrow> 'e group \<Rightarrow> bool" where
  "canStep a g =
     (case a of
        Publish ev \<Rightarrow> True
      | Subscribe \<Rightarrow> True
      | Cancel i \<Rightarrow> i < length (gr_cons g)
      | Retry k \<Rightarrow> k < length (gr_blocked g) \<and> snd (gr_blocked g ! k)
      | Check i \<Rightarrow> i < length (gr_cons g) \<and> cn_pc (gr_cons g ! i) = AtLock
      | Handle i \<Rightarrow> i < length (gr_cons g) \<and> cn_pc (gr_cons g ! i) = Handling \<and> cn_batch (gr_cons g ! i) \<noteq> []
      | Finish i \<Rightarrow> i < length (gr_cons g) \<and> cn_pc (gr_cons g ! i) = Handling \<and> cn_batch (gr_cons g ! i) = [])"

fun busStep :: "'e bus_act \<Rightarrow> 'e group \<Rightarrow> 'e group" where
  "busStep (Publish ev) g = broadcast ev g"
| "busStep Subscribe g = addSub g"
| "busStep (Cancel i) g = delSub i g"
| "busStep (Retry k) g =
     broadcast (fst (gr_blocked g ! k)) (g\<lparr>gr_blocked := take k (gr_blocked g) @ drop (Suc k) (gr_blocked g)\<rparr>)"
| "busStep (Check i) g = setConsumer i (checkQueue (gr_cons g ! i)) g"
| "busStep (Handle i) g = setConsumer i (handleOne (gr_cons g ! i)) g"
| "busStep (Finish i) g = wakeAll (setConsumer i ((gr_cons g ! i)\<lparr>cn_pc := AtLock\<rparr>) g)"

inductive busReach :: "nat \<Rightarrow> 'e group \<Rightarrow> bool" for maxQueue where
  bus_start: "busReach maxQueue (newGroup maxQueue)"
| bus_step: "busReach maxQueue g \<Longrightarrow> canStep a g \<Longrightarrow> busReach maxQueue (busStep a g)"

section \<open>The invariant\<close>

text \<open>The events accepted while a consumer was subscribed.\<close>

definition window :: "'e list \<Rightarrow> 'e consumer \<Rightarrow> 'e list" where
  "window hist c = drop (cn_since c) (case cn_until c of None \<Rightarrow> hist | Some u \<Rightarrow> take u hist)"

definition consumerOk :: "nat \<Rightarrow> 'e list \<Rightarrow> bool \<Rightarrow> 'e consumer \<Rightarrow> bool" where
  "consumerOk mx hist sub c =
     (cn_log c @ cn_batch c @ cn_queue c = window hist c \<and> length (cn_queue c) \<le> mx
      \<and> cn_stop c = (\<not> sub) \<and> cn_stop c = (cn_until c \<noteq> None)
      \<and> cn_since c \<le> length hist \<and> (\<forall>u. cn_until c = Some u \<longrightarrow> cn_since c \<le> u \<and> u \<le> length hist)
      \<and> (cn_pc c \<noteq> Handling \<longrightarrow> cn_batch c = []) \<and> (cn_pc c = Waiting \<longrightarrow> cn_queue c = [])
      \<and> (cn_pc c = Gone \<longrightarrow> cn_stop c \<and> cn_queue c = []))"

definition draining :: "'e consumer \<Rightarrow> bool" where
  "draining c = (cn_pc c = Handling \<or> cn_pc c = AtLock \<and> cn_queue c \<noteq> [])"

definition busOk :: "nat \<Rightarrow> 'e group \<Rightarrow> bool" where
  "busOk mx g =
     (gr_max g = mx \<and> distinct (gr_subs g) \<and> (\<forall>i \<in> set (gr_subs g). i < length (gr_cons g))
      \<and> (\<forall>i < length (gr_cons g). consumerOk mx (gr_hist g) (i \<in> set (gr_subs g)) (gr_cons g ! i))
      \<and> ((\<exists>ev. (ev, False) \<in> set (gr_blocked g)) \<longrightarrow> (\<exists>i < length (gr_cons g). draining (gr_cons g ! i))))"

lemma maxLen_bound: "i \<in> set (gr_subs g) \<Longrightarrow> length (cn_queue (gr_cons g ! i)) \<le> maxLen g"
proof -
  let ?n = "\<lambda>i. length (cn_queue (gr_cons g ! i))"
  have "m \<le> foldl (\<lambda>m i. let n = ?n i in if n > m then n else m) m xs
      \<and> (\<forall>i \<in> set xs. ?n i \<le> foldl (\<lambda>m i. let n = ?n i in if n > m then n else m) m xs)" for m xs
  proof (induction xs arbitrary: m)
    case (Cons x xs)
    show ?case using Cons.IH [of "let n = ?n x in if n > m then n else m"] by (auto simp: Let_def split: if_splits)
  qed simp
  then show "i \<in> set (gr_subs g) \<Longrightarrow> length (cn_queue (gr_cons g ! i)) \<le> maxLen g" unfolding maxLen_def by blast
qed

lemma maxLen_attained: "maxLen g = 0 \<or> (\<exists>i \<in> set (gr_subs g). length (cn_queue (gr_cons g ! i)) = maxLen g)"
proof -
  let ?n = "\<lambda>i. length (cn_queue (gr_cons g ! i))"
  have "foldl (\<lambda>m i. let n = ?n i in if n > m then n else m) m xs = m
      \<or> (\<exists>i \<in> set xs. ?n i = foldl (\<lambda>m i. let n = ?n i in if n > m then n else m) m xs)" for m xs
  proof (induction xs arbitrary: m)
    case (Cons x xs)
    show ?case using Cons.IH [of "let n = ?n x in if n > m then n else m"] by (auto simp: Let_def split: if_splits)
  qed simp
  then show ?thesis unfolding maxLen_def by blast
qed

lemma pushTo_length [simp]: "length (foldl (pushTo ev) cs xs) = length cs"
  by (induction xs arbitrary: cs) (simp_all add: pushTo_def)

lemma pushTo_nth:
  "distinct xs \<Longrightarrow> \<forall>i \<in> set xs. i < length cs \<Longrightarrow>
   foldl (pushTo ev) cs xs ! i = (if i \<in> set xs then (cs ! i)\<lparr>cn_queue := cn_queue (cs ! i) @ [ev]\<rparr> else cs ! i)"
proof (induction xs arbitrary: cs)
  case (Cons x xs)
  have "foldl (pushTo ev) cs (x # xs) ! i = foldl (pushTo ev) (pushTo ev cs x) xs ! i" by simp
  also have "\<dots> = (if i \<in> set xs then (pushTo ev cs x ! i)\<lparr>cn_queue := cn_queue (pushTo ev cs x ! i) @ [ev]\<rparr> else pushTo ev cs x ! i)"
    using Cons.prems by (intro Cons.IH) (auto simp: pushTo_def)
  finally have e: "foldl (pushTo ev) cs (x # xs) ! i = \<dots>" .
  have n: "pushTo ev cs x ! i = (if i = x then (cs ! x)\<lparr>cn_queue := cn_queue (cs ! x) @ [ev]\<rparr> else cs ! i)"
    using Cons.prems by (simp add: pushTo_def nth_list_update)
  show ?case unfolding e n using Cons.prems by auto
qed simp

lemma wake_fields [simp]:
  "cn_queue (wakeConsumer c) = cn_queue c" "cn_batch (wakeConsumer c) = cn_batch c" "cn_stop (wakeConsumer c) = cn_stop c"
  "cn_log (wakeConsumer c) = cn_log c" "cn_since (wakeConsumer c) = cn_since c" "cn_until (wakeConsumer c) = cn_until c"
  by (simp_all add: wakeConsumer_def)

lemma wake_pc: "cn_pc (wakeConsumer c) = (if cn_pc c = Waiting then AtLock else cn_pc c)"
  by (simp add: wakeConsumer_def)

lemma wake_ok: "consumerOk mx hist sub c \<Longrightarrow> consumerOk mx hist sub (wakeConsumer c)"
  by (auto simp: consumerOk_def window_def wake_pc)

lemma wakeAll_ok: "busOk mx g \<Longrightarrow> busOk mx (wakeAll g)"
  by (auto simp: busOk_def wakeAll_def wake_ok)

lemma consumer_push:
  assumes "consumerOk mx hist True c" and "length (cn_queue c) < mx"
  shows "consumerOk mx (hist @ [ev]) True (wakeConsumer (c\<lparr>cn_queue := cn_queue c @ [ev]\<rparr>))"
  using assms by (auto simp: consumerOk_def window_def wake_pc)

lemma consumer_other:
  assumes "consumerOk mx hist False c"
  shows "consumerOk mx (hist @ [ev]) False (wakeConsumer c)"
  using assms by (auto simp: consumerOk_def window_def wake_pc)

lemma accept_ok:
  assumes "busOk mx g" and "maxLen g < gr_max g"
  shows "busOk mx (wakeAll (acceptEvent ev g))"
proof -
  have d: "distinct (gr_subs g)" "\<forall>i \<in> set (gr_subs g). i < length (gr_cons g)" and m: "gr_max g = mx"
    using assms(1) by (simp_all add: busOk_def)
  have "consumerOk mx (gr_hist g @ [ev]) (i \<in> set (gr_subs g)) (wakeConsumer (foldl (pushTo ev) (gr_cons g) (gr_subs g) ! i))"
    if i: "i < length (gr_cons g)" for i
  proof -
    have c: "consumerOk mx (gr_hist g) (i \<in> set (gr_subs g)) (gr_cons g ! i)" using assms(1) i by (simp add: busOk_def)
    show ?thesis
    proof (cases "i \<in> set (gr_subs g)")
      case True
      then have "length (cn_queue (gr_cons g ! i)) < mx" using maxLen_bound [OF True] assms(2) m by simp
      then show ?thesis using consumer_push c True pushTo_nth [OF d] by fastforce
    next
      case False
      then show ?thesis using consumer_other [of mx "gr_hist g"] c pushTo_nth [OF d] by simp
    qed
  qed
  then show ?thesis using d m by (auto simp: busOk_def wakeAll_def acceptEvent_def)
qed

lemma block_ok:
  assumes "busOk mx g" and "0 < mx" and "gr_max g \<le> maxLen g"
  shows "busOk mx (g\<lparr>gr_blocked := gr_blocked g @ [(ev, False)]\<rparr>)"
proof -
  have m: "gr_max g = mx" using assms(1) by (simp add: busOk_def)
  then obtain i where i: "i \<in> set (gr_subs g)" "length (cn_queue (gr_cons g ! i)) = maxLen g"
    using maxLen_attained [of g] assms(2,3) by auto
  then have l: "i < length (gr_cons g)" and q: "cn_queue (gr_cons g ! i) \<noteq> []" using assms m by (auto simp: busOk_def)
  have "consumerOk mx (gr_hist g) True (gr_cons g ! i)" using assms(1) i(1) l by (force simp: busOk_def)
  then have "draining (gr_cons g ! i)" using q by (cases "cn_pc (gr_cons g ! i)") (auto simp: consumerOk_def draining_def)
  then show ?thesis using assms(1) l by (auto simp: busOk_def)
qed

lemma broadcast_ok: "busOk mx g \<Longrightarrow> 0 < mx \<Longrightarrow> busOk mx (broadcast ev g)"
  by (cases "gr_max g \<le> maxLen g") (simp_all add: broadcast_def accept_ok block_ok)

lemma setConsumer_ok:
  assumes "busOk mx g" and "i < length (gr_cons g)"
    and "consumerOk mx (gr_hist g) (i \<in> set (gr_subs g)) c" and "draining (gr_cons g ! i) \<Longrightarrow> draining c"
  shows "busOk mx (setConsumer i c g)"
proof -
  have "\<exists>j < length (gr_cons g). draining ((gr_cons g)[i := c] ! j)" if "\<exists>j < length (gr_cons g). draining (gr_cons g ! j)"
    using that assms(2,4) by (metis nth_list_update_eq nth_list_update_neq)
  then show ?thesis using assms by (auto simp: busOk_def setConsumer_def nth_list_update)
qed

lemma handle_ok:
  assumes "consumerOk mx hist sub c" and "cn_pc c = Handling" and "cn_batch c \<noteq> []"
  shows "consumerOk mx hist sub (handleOne c)"
proof -
  obtain ev bs where b: "cn_batch c = ev # bs" using assms(3) by (cases "cn_batch c") auto
  show ?thesis using assms(1,2) by (auto simp: consumerOk_def handleOne_def window_def b)
qed

lemma busStep_ok:
  assumes "busOk mx g" and "0 < mx" and "canStep a g"
  shows "busOk mx (busStep a g)"
proof (cases a)
  case (Publish ev)
  then show ?thesis using broadcast_ok [OF assms(1,2)] by simp
next
  case Subscribe
  have "consumerOk mx (gr_hist g) True \<lparr>cn_queue = [], cn_batch = [], cn_stop = False, cn_pc = AtLock, cn_log = [],
      cn_since = length (gr_hist g), cn_until = None\<rparr>" by (simp add: consumerOk_def window_def)
  then show ?thesis using assms(1) unfolding Subscribe
    by (auto simp: busOk_def addSub_def nth_append less_Suc_eq)
next
  case (Cancel i)
  let ?c = "gr_cons g ! i"
  let ?d = "?c\<lparr>cn_stop := True, cn_until := (case cn_until ?c of None \<Rightarrow> Some (length (gr_hist g)) | u \<Rightarrow> u)\<rparr>"
  have i: "i < length (gr_cons g)" using assms(3) Cancel by (simp add: canStep_def)
  have c: "consumerOk mx (gr_hist g) (i \<in> set (gr_subs g)) ?c" using assms(1) i by (simp add: busOk_def)
  then have d: "consumerOk mx (gr_hist g) False ?d"
    by (auto simp: consumerOk_def window_def split: option.splits)
  have b: "draining ?d = draining ?c" by (simp add: draining_def)
  have ds: "distinct (gr_subs g)" using assms(1) by (simp add: busOk_def)
  have "\<exists>j < length (gr_cons g). draining ((gr_cons g)[i := ?d] ! j)" if "\<exists>j < length (gr_cons g). draining (gr_cons g ! j)"
    using that i b by (metis nth_list_update_eq nth_list_update_neq)
  then show ?thesis using assms(1) i d ds unfolding Cancel
    by (auto simp: busOk_def delSub_def Let_def nth_list_update)
next
  case (Retry k)
  have "busOk mx (g\<lparr>gr_blocked := take k (gr_blocked g) @ drop (Suc k) (gr_blocked g)\<rparr>)"
    using assms(1) by (auto simp: busOk_def dest: in_set_takeD in_set_dropD)
  then show ?thesis using broadcast_ok assms(2) unfolding Retry by simp
next
  case (Check i)
  have i: "i < length (gr_cons g)" "cn_pc (gr_cons g ! i) = AtLock" using assms(3) Check by (simp_all add: canStep_def)
  have "consumerOk mx (gr_hist g) (i \<in> set (gr_subs g)) (gr_cons g ! i)" using assms(1) i by (simp add: busOk_def)
  then have "consumerOk mx (gr_hist g) (i \<in> set (gr_subs g)) (checkQueue (gr_cons g ! i))"
    using i(2) by (auto simp: consumerOk_def checkQueue_def window_def)
  moreover have "draining (gr_cons g ! i) \<Longrightarrow> draining (checkQueue (gr_cons g ! i))" using i(2) by (auto simp: draining_def checkQueue_def)
  ultimately show ?thesis using setConsumer_ok [OF assms(1) i(1)] unfolding Check by simp
next
  case (Handle i)
  have i: "i < length (gr_cons g)" "cn_pc (gr_cons g ! i) = Handling" "cn_batch (gr_cons g ! i) \<noteq> []"
    using assms(3) Handle by (simp_all add: canStep_def)
  have "consumerOk mx (gr_hist g) (i \<in> set (gr_subs g)) (gr_cons g ! i)" using assms(1) i by (simp add: busOk_def)
  then have "consumerOk mx (gr_hist g) (i \<in> set (gr_subs g)) (handleOne (gr_cons g ! i))"
    using handle_ok i by blast
  moreover have "draining (handleOne (gr_cons g ! i))" using i(2) by (simp add: draining_def handleOne_def)
  ultimately show ?thesis using setConsumer_ok [OF assms(1) i(1)] unfolding Handle by simp
next
  case (Finish i)
  let ?c = "(gr_cons g ! i)\<lparr>cn_pc := AtLock\<rparr>"
  have i: "i < length (gr_cons g)" "cn_pc (gr_cons g ! i) = Handling" "cn_batch (gr_cons g ! i) = []"
    using assms(3) Finish by (simp_all add: canStep_def)
  have c: "consumerOk mx (gr_hist g) (i \<in> set (gr_subs g)) (gr_cons g ! i)" using assms(1) i by (simp add: busOk_def)
  then have "consumerOk mx (gr_hist g) (i \<in> set (gr_subs g)) ?c" using i by (auto simp: consumerOk_def window_def)
  then show ?thesis using assms(1) i(1) unfolding Finish
    by (auto simp: busOk_def wakeAll_def setConsumer_def nth_list_update wake_ok)
qed

lemma bus_invariant: "busReach mx g \<Longrightarrow> 0 < mx \<Longrightarrow> busOk mx g"
proof (induction rule: busReach.induct)
  case bus_start
  then show ?case by (simp add: busOk_def newGroup_def)
next
  case (bus_step g a)
  then show ?case by (simp add: busStep_ok)
qed

text \<open>Schedules as lists of steps.\<close>

primrec legal :: "'e bus_act list \<Rightarrow> 'e group \<Rightarrow> bool" where
  "legal [] g = True"
| "legal (a # as) g = (canStep a g \<and> legal as (busStep a g))"

primrec runBus :: "'e bus_act list \<Rightarrow> 'e group \<Rightarrow> 'e group" where
  "runBus [] g = g"
| "runBus (a # as) g = runBus as (busStep a g)"

lemma runBus_reach: "legal as g \<Longrightarrow> busReach mx g \<Longrightarrow> busReach mx (runBus as g)"
  by (induction as arbitrary: g) (auto intro: busReach.bus_step)

lemmas bus_run = canStep_def broadcast_def acceptEvent_def pushTo_def wakeAll_def wakeConsumer_def maxLen_def addSub_def
  delSub_def setConsumer_def checkQueue_def handleOne_def newGroup_def Let_def

text \<open>
  C20. Delivery: in every interleaving, what a subscriber has handled, is handling and has queued, in this order, are
  exactly the events accepted while it was subscribed, each once and in the order of acceptance, and no queue
  is longer than the limit.
\<close>

theorem subscribers_get_their_window:
  assumes "busReach mx g" and "0 < mx" and "i < length (gr_cons g)"
  shows "cn_log (gr_cons g ! i) @ cn_batch (gr_cons g ! i) @ cn_queue (gr_cons g ! i) = window (gr_hist g) (gr_cons g ! i)
    \<and> length (cn_queue (gr_cons g ! i)) \<le> mx"
  using bus_invariant [OF assms(1,2)] assms(3) by (auto simp: busOk_def consumerOk_def)

text \<open>Two subscribers, the second one after an event; with a limit of one the second event waits for the handler.\<close>

definition demoActs :: "nat bus_act list" where
  "demoActs = [Subscribe, Publish 7, Subscribe, Publish 8, Check 0, Handle 0, Finish 0, Retry 0]"

lemma demo_reach: "busReach 1 (runBus demoActs (newGroup 1))"
  by (rule runBus_reach [OF _ busReach.bus_start]) (simp add: demoActs_def bus_run)

lemma demo_state:
  "runBus demoActs (newGroup 1) =
     \<lparr>gr_subs = [0, 1],
      gr_cons = [\<lparr>cn_queue = [8], cn_batch = [], cn_stop = False, cn_pc = AtLock, cn_log = [7], cn_since = 0, cn_until = None\<rparr>,
                 \<lparr>cn_queue = [8], cn_batch = [], cn_stop = False, cn_pc = AtLock, cn_log = [], cn_since = 1, cn_until = None\<rparr>],
      gr_blocked = [], gr_max = 1, gr_hist = [7, 8]\<rparr>"
  by (simp add: demoActs_def bus_run)

theorem subscribers_get_their_window_witness:
  "window [7, 8] (gr_cons (runBus demoActs (newGroup 1)) ! 1) = [8::nat]"
  using subscribers_get_their_window [OF demo_reach, of 1] unfolding demo_state by simp

section \<open>Coming to rest\<close>

definition internal :: "'e bus_act \<Rightarrow> bool" where
  "internal a = (case a of Publish ev \<Rightarrow> False | Subscribe \<Rightarrow> False | Cancel i \<Rightarrow> False | _ \<Rightarrow> True)"

text \<open>Blocked publishers, then events on their way and running handlers, then what was woken.\<close>

definition workOf :: "'e consumer \<Rightarrow> nat" where
  "workOf c = 3 * length (cn_queue c) + length (cn_batch c) + (if cn_pc c = Handling then 1 else 0)"

definition wokenOf :: "'e consumer \<Rightarrow> nat" where
  "wokenOf c = (if cn_pc c = AtLock then 1 else 0)"

definition busRank :: "'e group \<Rightarrow> nat \<times> nat \<times> nat" where
  "busRank g =
     (length (gr_blocked g), sum_list (map workOf (gr_cons g)),
      sum_list (map wokenOf (gr_cons g)) + length (filter snd (gr_blocked g)))"

definition rankLess :: "((nat \<times> nat \<times> nat) \<times> (nat \<times> nat \<times> nat)) set" where
  "rankLess = less_than <*lex*> (less_than <*lex*> less_than)"

lemma wf_rankLess: "wf rankLess"
  unfolding rankLess_def by (intro wf_lex_prod wf_less_than)

lemma sum_list_set:
  assumes "i < length xs"
  shows "sum_list (map f (xs[i := y])) + f (xs ! i) = sum_list (map f xs) + (f y :: nat)"
  using assms by (induction xs arbitrary: i) (auto simp: nth_Cons split: nat.splits)

lemma work_wake: "workOf (wakeConsumer c) = workOf c"
  by (simp add: workOf_def wake_pc)

lemma blocked_removed:
  assumes "k < length bs"
  shows "length bs = Suc (length (take k bs @ drop (Suc k) bs))"
    and "snd (bs ! k) \<Longrightarrow> length (filter snd bs) = Suc (length (filter snd (take k bs @ drop (Suc k) bs)))"
proof -
  have b: "bs = take k bs @ bs ! k # drop (Suc k) bs" by (rule id_take_nth_drop [OF assms])
  show "length bs = Suc (length (take k bs @ drop (Suc k) bs))" using assms by simp
  assume "snd (bs ! k)"
  then show "length (filter snd bs) = Suc (length (filter snd (take k bs @ drop (Suc k) bs)))"
    by (subst b) simp
qed

lemma internal_decreases:
  assumes "canStep a g" and "internal a"
  shows "(busRank (busStep a g), busRank g) \<in> rankLess"
proof (cases a)
  case (Retry k)
  define B where "B = take k (gr_blocked g) @ drop (Suc k) (gr_blocked g)"
  have k: "k < length (gr_blocked g)" "snd (gr_blocked g ! k)" using assms(1) Retry by (simp_all add: canStep_def)
  have l: "length (gr_blocked g) = Suc (length B)" unfolding B_def by (rule blocked_removed(1) [OF k(1)])
  have f: "length (filter snd (gr_blocked g)) = Suc (length (filter snd B))" unfolding B_def by (rule blocked_removed(2) [OF k])
  let ?g = "g\<lparr>gr_blocked := B\<rparr>" and ?e = "fst (gr_blocked g ! k)"
  have s: "busStep a g = broadcast ?e ?g" using Retry by (simp add: B_def)
  show ?thesis
  proof (cases "gr_max ?g \<le> maxLen ?g")
    case True
    then have r: "busRank (broadcast ?e ?g) = (Suc (length B), sum_list (map workOf (gr_cons g)),
        sum_list (map wokenOf (gr_cons g)) + length (filter snd B))"
      by (simp add: broadcast_def busRank_def)
    show ?thesis unfolding s r busRank_def [of g] l f by (simp add: rankLess_def)
  next
    case False
    then have "fst (busRank (broadcast ?e ?g)) = length B"
      by (simp add: broadcast_def busRank_def wakeAll_def acceptEvent_def)
    then have "busRank (broadcast ?e ?g) = (length B, snd (busRank (broadcast ?e ?g)))" by (metis prod.collapse)
    then obtain x y where r: "busRank (broadcast ?e ?g) = (length B, x, y)" by (cases "snd (busRank (broadcast ?e ?g))") auto
    show ?thesis unfolding s r busRank_def [of g] l by (simp add: rankLess_def)
  qed
next
  case (Check i)
  let ?c = "gr_cons g ! i"
  have i: "i < length (gr_cons g)" "cn_pc ?c = AtLock" using assms(1) Check by (simp_all add: canStep_def)
  note w = sum_list_set [OF i(1), of workOf "checkQueue ?c"] and k = sum_list_set [OF i(1), of wokenOf "checkQueue ?c"]
  show ?thesis
  proof (cases "cn_queue ?c = []")
    case True
    then have "workOf (checkQueue ?c) = workOf ?c" "wokenOf (checkQueue ?c) = 0" "wokenOf ?c = 1"
      using i(2) by (simp_all add: workOf_def wokenOf_def checkQueue_def)
    then show ?thesis using w k unfolding Check by (simp add: rankLess_def busRank_def setConsumer_def)
  next
    case False
    then obtain q qs where q: "cn_queue ?c = q # qs" by (cases "cn_queue ?c") auto
    have "workOf (checkQueue ?c) < workOf ?c" using i(2) q by (simp add: workOf_def checkQueue_def)
    then show ?thesis using w unfolding Check by (simp add: rankLess_def busRank_def setConsumer_def)
  qed
next
  case (Handle i)
  let ?c = "gr_cons g ! i"
  have i: "i < length (gr_cons g)" "cn_pc ?c = Handling" "cn_batch ?c \<noteq> []" using assms(1) Handle by (simp_all add: canStep_def)
  have "workOf (handleOne ?c) < workOf ?c" using i by (simp add: workOf_def handleOne_def)
  then show ?thesis using sum_list_set [OF i(1), of workOf "handleOne ?c"] unfolding Handle
    by (simp add: rankLess_def busRank_def setConsumer_def)
next
  case (Finish i)
  let ?c = "gr_cons g ! i"
  have i: "i < length (gr_cons g)" "cn_pc ?c = Handling" "cn_batch ?c = []" using assms(1) Finish by (simp_all add: canStep_def)
  have "workOf (?c\<lparr>cn_pc := AtLock\<rparr>) < workOf ?c" using i by (simp add: workOf_def)
  then show ?thesis using sum_list_set [OF i(1), of workOf "?c\<lparr>cn_pc := AtLock\<rparr>"] unfolding Finish
    by (simp add: rankLess_def busRank_def setConsumer_def wakeAll_def comp_def work_wake)
qed (use assms(2) in \<open>simp_all add: internal_def\<close>)

text \<open>A atRest bus: no goroutine of it has a step to take.\<close>

definition atRest :: "'e group \<Rightarrow> bool" where
  "atRest g = (list_all (\<lambda>c. cn_pc c = Waiting \<or> cn_pc c = Gone) (gr_cons g) \<and> list_all (\<lambda>b. \<not> snd b) (gr_blocked g))"

lemma quiet_iff: "atRest g \<longleftrightarrow> (\<nexists>a. internal a \<and> canStep a g)"
proof
  assume q: "atRest g"
  have "\<not> canStep a g" if "internal a" for a
    using that q by (cases a) (auto simp: internal_def canStep_def atRest_def list_all_length)
  then show "\<nexists>a. internal a \<and> canStep a g" by blast
next
  assume n: "\<nexists>a. internal a \<and> canStep a g"
  have "cn_pc (gr_cons g ! i) = Waiting \<or> cn_pc (gr_cons g ! i) = Gone" if "i < length (gr_cons g)" for i
  proof (cases "cn_pc (gr_cons g ! i)")
    case AtLock
    then have "internal (Check i) \<and> canStep (Check i) g" using that by (simp add: internal_def canStep_def)
    then show ?thesis using n by blast
  next
    case Handling
    then have "internal (Handle i) \<and> canStep (Handle i) g \<or> internal (Finish i) \<and> canStep (Finish i) g"
      using that by (auto simp: internal_def canStep_def)
    then show ?thesis using n by blast
  qed simp_all
  moreover have "\<not> snd (gr_blocked g ! k)" if "k < length (gr_blocked g)" for k
  proof
    assume "snd (gr_blocked g ! k)"
    then have "internal (Retry k) \<and> canStep (Retry k) g" using that by (simp add: internal_def canStep_def)
    then show False using n by blast
  qed
  ultimately show "atRest g" by (auto simp: atRest_def list_all_length)
qed

inductive drains :: "'e group \<Rightarrow> 'e group \<Rightarrow> bool" where
  drains_refl: "drains g g"
| drains_step: "internal a \<Longrightarrow> canStep a g \<Longrightarrow> drains (busStep a g) h \<Longrightarrow> drains g h"

lemma drains_reach: "drains g h \<Longrightarrow> busReach mx g \<Longrightarrow> busReach mx h"
  by (induction rule: drains.induct) (blast intro: busReach.bus_step)+

lemma drains_to_quiet: "\<exists>h. drains g h \<and> atRest h"
proof (induction g rule: wf_induct_rule [OF wf_inv_image [OF wf_rankLess, of busRank]])
  case (1 g)
  show ?case
  proof (cases "atRest g")
    case True
    then show ?thesis by (blast intro: drains_refl)
  next
    case False
    then obtain a where a: "internal a" "canStep a g" using quiet_iff by blast
    have "(busStep a g, g) \<in> inv_image rankLess busRank" using internal_decreases [OF a(2,1)] by (simp add: inv_image_def)
    then obtain h where "drains (busStep a g) h" "atRest h" using 1 by blast
    then show ?thesis using a by (blast intro: drains_step)
  qed
qed

text \<open>The goroutines of a group cannot run for ever without a new call from outside.\<close>

theorem no_infinite_drain: "wfP (\<lambda>h g. \<exists>a. internal a \<and> canStep a g \<and> h = busStep a g)"
  unfolding wfp_def
  by (rule wf_subset [OF wf_inv_image [OF wf_rankLess, of busRank]]) (auto simp: internal_decreases)

lemma quiet_delivers:
  assumes "busReach mx g" and "0 < mx" and "atRest g"
  shows "gr_blocked g = []" and "i < length (gr_cons g) \<Longrightarrow> cn_log (gr_cons g ! i) = window (gr_hist g) (gr_cons g ! i)"
proof -
  have ok: "busOk mx g" by (rule bus_invariant [OF assms(1,2)])
  have c: "consumerOk mx (gr_hist g) (i \<in> set (gr_subs g)) (gr_cons g ! i)" if "i < length (gr_cons g)" for i
    using ok that by (simp add: busOk_def)
  have p: "cn_pc (gr_cons g ! i) = Waiting \<or> cn_pc (gr_cons g ! i) = Gone" if "i < length (gr_cons g)" for i
    using assms(3) that by (simp add: atRest_def list_all_length)
  have nb: "\<not> draining (gr_cons g ! i)" if "i < length (gr_cons g)" for i using p [OF that] by (auto simp: draining_def)
  have "b \<notin> set (gr_blocked g)" for b
  proof
    assume b: "b \<in> set (gr_blocked g)"
    then have "\<not> snd b" using assms(3) by (auto simp: atRest_def list_all_iff)
    then have "(fst b, False) \<in> set (gr_blocked g)" using b by (cases b) auto
    then show False using ok nb by (auto simp: busOk_def)
  qed
  then show "gr_blocked g = []" by (cases "gr_blocked g") auto
  show "cn_log (gr_cons g ! i) = window (gr_hist g) (gr_cons g ! i)" if "i < length (gr_cons g)"
    using c [OF that] p [OF that] by (auto simp: consumerOk_def)
qed

text \<open>
  C21. Progress: from every reachable state the goroutines of the group, without another call, reach a state in which
  none of them can move, and there no publisher is blocked and every subscriber has handled exactly the events
  accepted while it was subscribed.
\<close>

theorem bus_comes_to_rest:
  assumes "busReach mx g" and "0 < mx"
  shows "\<exists>h. drains g h \<and> atRest h \<and> gr_blocked h = []
      \<and> list_all (\<lambda>c. cn_log c = window (gr_hist h) c) (gr_cons h)"
proof -
  obtain h where h: "drains g h" "atRest h" using drains_to_quiet by blast
  have r: "busReach mx h" by (rule drains_reach [OF h(1) assms(1)])
  show ?thesis using h quiet_delivers [OF r assms(2) h(2)] by (auto simp: list_all_length)
qed

theorem bus_comes_to_rest_witness:
  "\<exists>h. drains (runBus demoActs (newGroup 1)) h \<and> gr_blocked h = []"
  using bus_comes_to_rest [OF demo_reach] by auto

section \<open>Unsubscribing\<close>

text \<open>
  A handler that is idle when its subscription is cancelled is not woken: its goroutine stays in
  \<open>Wait\<close>, whatever the other goroutines of the group do, until somebody publishes.
\<close>

theorem cancelled_idle_stays:
  assumes "i < length (gr_cons g)" and "cn_pc (gr_cons g ! i) = Waiting"
  shows "cn_pc (gr_cons (busStep (Cancel i) g) ! i) = Waiting \<and> cn_stop (gr_cons (busStep (Cancel i) g) ! i)
    \<and> gr_blocked (busStep (Cancel i) g) = gr_blocked g \<and> (atRest g \<longrightarrow> atRest (busStep (Cancel i) g))"
  using assms by (auto simp: delSub_def Let_def atRest_def list_all_length nth_list_update)

theorem cancelled_idle_stays_witness:
  "cn_pc (gr_cons (busStep (Cancel 0) (runBus [Subscribe, Check 0] (newGroup 1))) ! 0) = Waiting"
proof -
  have g: "runBus [Subscribe, Check 0] (newGroup 1) =
      \<lparr>gr_subs = [0], gr_cons = [\<lparr>cn_queue = [], cn_batch = [], cn_stop = False, cn_pc = Waiting, cn_log = [],
         cn_since = 0, cn_until = None\<rparr>], gr_blocked = [], gr_max = 1, gr_hist = []\<rparr>"
    by (simp add: bus_run)
  show ?thesis by (rule conjunct1 [OF cancelled_idle_stays]) (simp_all add: g del: runBus.simps One_nat_def)
qed

text \<open>Only the next publish of the group lets the goroutine of such a subscriber end.\<close>

lemma next_publish_ends_it:
  assumes "i < length (gr_cons g)" and "cn_pc (gr_cons g ! i) = Waiting" and "cn_queue (gr_cons g ! i) = []"
    and "cn_stop (gr_cons g ! i)" and "i \<notin> set (gr_subs g)" and "distinct (gr_subs g)"
    and "\<forall>j \<in> set (gr_subs g). j < length (gr_cons g)" and "maxLen g < gr_max g"
  shows "cn_pc (gr_cons (busStep (Check i) (busStep (Publish ev) g)) ! i) = Gone"
proof -
  have n: "foldl (pushTo ev) (gr_cons g) (gr_subs g) ! i = gr_cons g ! i"
    using pushTo_nth [OF assms(6,7), of ev i] assms(5) by simp
  show ?thesis using assms(1-4,8) n
    by (simp add: broadcast_def wakeAll_def acceptEvent_def wakeConsumer_def setConsumer_def checkQueue_def)
qed

end
