(* ===== verification/Spec2Isabelle.thy ===== *)
theory Spec2Isabelle
  imports Skein_Prelude Containers Op_Lifecycle Op_Shards Op_Source Op_Discover Op_Store Op_Executor Op_Run Op_Plan Matrix_DSL Matrix_Config Swap_Planner Router Go_Text Failure_Class Process Go_Float Fit Placement Ladder Profiles Tuning Keyed_Store Cmd_Flags Config_Edit Perf_Stats Fit_Report Load_Guard Mem_Guard Macros Config_Load Config_History Reload Gguf_Parse Gguf_Model Request_Path Event_Bus
begin

text \<open>
  A model of llama-skein, a proxy in front of LLM inference servers. It starts the server of a model when
  a request for it arrives, stops the ones that may not run beside it, sizes models against the memory of
  the host, installs new models, and lets its configuration be edited and reloaded while it runs.

  The parts, and how they call each other:

  A reload (\<open>llama-skein.go\<close>) loads the configuration (\<open>internal/config\<close>), which names the models, their
  launch commands and the groups or the swap matrix, and builds a server around a router. A request goes
  through the load gate of the server (\<open>internal/server\<close>), which asks the fit engine (\<open>internal/fit\<close>) and
  the planner (\<open>internal/placement\<close>) whether and how the model fits, hands the command to run to the
  router (\<open>internal/router\<close>), and the router asks its planner which processes to stop, starts the process
  (\<open>internal/process\<close>) and queues requests meanwhile. A failed start is classified and may be retried with
  a safer plan. Beside that run the memory guard, the GPU-stall watchdog, the placement profiler and the
  executor of model installs (\<open>internal/operation\<close>).
\<close>

section \<open>The theories and the code they model\<close>

text \<open>
  Go itself. \<open>Skein_Prelude\<close> and \<open>Go_Text\<close> hold the functions of \<open>strings\<close> and \<open>strconv\<close> the code calls, on
  strings of bytes; \<open>Go_Float\<close> the arithmetic: an \<open>int64\<close> is an \<open>int\<close> with the wrap-around written out
  (\<open>wrap64\<close>) or a condition \<open>inI64\<close>, a \<open>float64\<close> a rational rounded to 53 bits (\<open>fl\<close>, to nearest even), with
  monotonicity and error bounds of the rounding.

  \<open>Containers\<close>: the ring buffer, the size-bounded FIFO cache and the middleware chain (\<open>internal/ring\<close>,
  \<open>cache\<close>, \<open>chain\<close>). The ring is an interpretation of \<open>bounded_log\<close>, a log that keeps the newest entries.

  Model installs (\<open>internal/operation\<close>): \<open>Op_Lifecycle\<close> (the operation record and its phases), \<open>Op_Shards\<close> and
  \<open>Op_Source\<close> (sets of split files, source URLs, destination paths), \<open>Op_Discover\<close> (companion files),
  \<open>Op_Store\<close> (the store with its cache, recovery and cleanup; an interpretation of \<open>record_store\<close>),
  \<open>Op_Executor\<close> (every step of a run against an environment record: network, disk, other writers),
  \<open>Op_Run\<close> (what a whole run guarantees) and \<open>Op_Plan\<close> (\<open>server/apimodeloperations.go\<close>: plans, create, cancel).

  Swapping: \<open>Matrix_DSL\<close> (\<open>config/matrix_dsl.go\<close>: tokenizer, parser, expansion), \<open>Matrix_Config\<close>
  (\<open>config/matrix.go\<close>: validation, topological order), \<open>Swap_Planner\<close> (\<open>router/matrix_solver.go\<close>, \<open>matrix.go\<close>,
  \<open>group.go\<close>; both planners interpret \<open>compatible_planner\<close>, whose law is that serving a model leaves a
  permitted combination running) and \<open>Router\<close> (\<open>router/base.go\<close>: the run loop as a step relation over its
  state, one definition per handler).

  Processes: \<open>Failure_Class\<close> (\<open>process/failureclass.go\<close>, \<open>rss.go\<close>) and \<open>Process\<close> (\<open>process_command.go\<close>: the
  single-writer loop as a step relation, start, kill, health polling, the crash breaker).

  Sizing: \<open>Fit\<close> (\<open>fit/fit.go\<close>, \<open>descriptor.go\<close>), \<open>Placement\<close> (\<open>placement/placement.go\<close>, \<open>config/placement.go\<close>),
  \<open>Ladder\<close> (\<open>ladder.go\<close>, the retry after a failure), \<open>Profiles\<close> (\<open>profilestore.go\<close>, learned placements),
  \<open>Perf_Stats\<close> (\<open>perf/cgroup.go\<close>, \<open>monitor.go\<close>: what the host reports), \<open>Fit_Report\<close> (\<open>server/apifit.go\<close>),
  \<open>Load_Guard\<close> (\<open>server/fitguard.go\<close>, \<open>placementguard.go\<close>, \<open>placementretry.go\<close>), \<open>Mem_Guard\<close>
  (\<open>server/memguard.go\<close>, \<open>wedgewatchdog.go\<close>), \<open>Gguf_Parse\<close> (\<open>pkg/gguf/gguf.go\<close>: the reader of model files) and
  \<open>Gguf_Model\<close> (\<open>gguf.go\<close>, \<open>offload.go\<close>, \<open>split.go\<close>: sizes, experts, split sets, the shape given to \<open>Fit\<close>).

  Requests: \<open>Request_Path\<close> (\<open>server/auth.go\<close>, \<open>promptguard.go\<close>, \<open>filters.go\<close>, \<open>config/filters.go\<close>, \<open>router/router.go\<close>,
  \<open>peer.go\<close>: the chain of handlers in front of the routers). Events: \<open>Event_Bus\<close> (\<open>internal/event/event.go\<close>: the
  registry of event types, and the queues, goroutines and blocked publishers of one group).

  Commands and configuration: \<open>Tuning\<close> (\<open>internal/tuning\<close>), \<open>Cmd_Flags\<close> (\<open>internal/offload\<close> and the command
  editing of \<open>server/confighelpers.go\<close>, \<open>modelhelpers.go\<close>), \<open>Config_Edit\<close> (the writers of the configuration
  file), \<open>Macros\<close> and \<open>Config_Load\<close> (\<open>config/config.go\<close>), \<open>Config_History\<close> (\<open>config/history.go\<close>) and \<open>Reload\<close>
  (\<open>config/runtime_state.go\<close>, \<open>server/reloadrunner.go\<close>, the reload of \<open>llama-skein.go\<close>). The flag list of a
  command and a mapping of a YAML file are the two interpretations of \<open>keyed_store\<close>.
\<close>

section \<open>What is shown\<close>

text \<open>
  Router and processes. In every reachable state of the run loop no swap stops a model with requests in
  flight, no request is lost or answered twice, and a queued request has something that will wake it. A
  process passes only through the transitions of its table, every caller gets one answer, a clean stop
  means the child is gone, and the breaker opens after the configured number of early crashes.

  Planners. The solver returns a valid set that keeps the target at the least cost; whatever sequence of
  models is served, the models that run stay within one set. The parser of set expressions inverts the
  printer and never runs out of fuel; the validation accepts a matrix exactly when its meaning is defined.

  Installs. The history of phases is a path of the lifecycle; a run settles; a run that succeeds leaves
  every artifact installed with its size and digest; a restart marks interrupted operations; a plan is
  accepted exactly when it satisfies the stated conditions.

  Sizing. A plan keeps the configured reserves, a retry is safer than what failed, the clamp reaches a
  context that fits, automatic placement refuses only on a confident verdict, and each command handed to
  the router is the configured one edited once. Guards fire only under the pressure they are configured
  for, and do so when it lasts.

  Requests and files. What is forwarded was admitted by every gate and carries no key of the client; a
  filtered body has exactly the configured parameters. Reading an encoded model file gives its contents
  back, a split model is read as one, expert sizes never exceed the file in spite of rounding, and the
  recommended number of layers on the CPU is the least that suffices. A subscriber of events gets exactly
  those accepted while it was subscribed, in order, and a group left alone comes to rest with nobody blocked.

  Configuration. A loaded configuration is well formed, its ports are distinct, its alias map is exact,
  and its groups always build the group planner. Replacing macros one after the other equals expanding
  them recursively. Edits of commands and of the file refine updates of finite maps. In every interleaving
  of edits and triggers reload passes never overlap, and at rest the last triggered edit is in force or
  reported invalid; what a reload replaces can be restored.

  Where the code does not do what it says, the behaviour is stated as a theorem of its own: for instance
  a watchdog that is inert from the second GPU sample on, a group named \<open>(default)\<close> whose members vanish,
  a migration that erases a disabled archive, and a 44-byte model file that crashes the reader.
\<close>

section \<open>Bounds and fuel\<close>

text \<open>
  Recursion that is not structural has either a measure or fuel whose sufficiency is a lemma. The parser
  of set expressions gets five units per token; the visit of the topological order the number of sets and
  one; health polling the start-up limit in seconds and two; the search for a snapshot name the number of
  snapshots and one; nesting of GGUF arrays the length of the input and one, since an array takes 12 bytes
  before its elements. The shortest decimal text of a float is searched up to 17 digits, enough for 53
  bits. Retries, shard sets and the shrinking of a context descend along measures.

  Constants are those of the code: 4 million entries of an array and 65536 bytes of a key in a model file,
  2048 tokens as the least viable context, 4096 tokens of output reserve, the step, cooldown and retention
  limits of the guards and of the archive.
\<close>

section \<open>Parameters and what is left out\<close>

text \<open>
  Arguments of the model, because their code is not here: the shell splitter (\<open>shlex\<close>), the YAML library
  (decoding with the defaults of the \<open>UnmarshalYAML\<close> callbacks, marshalling), \<open>net/url\<close>, JSON, forms, environment
  variables, \<open>statfs\<close> and file operations, the network, the clock, and what a host says of its hardware
  (\<open>host_view\<close>, \<open>gguf_host\<close>). Laws assumed of them are hypotheses of the theorems that use them.

  Concurrency: a goroutine owning its state by a channel or a mutex is one atomic step per message or
  critical section; the step relations interleave those freely. Goroutines are scheduled by the theorem's
  sequence of steps, and liveness is stated as the number of steps that lead to rest.

  Floats are finite: infinities and NaN occur only in the metadata of a GGUF file, and no multiply-add is
  fused. White space and letter case are ASCII.

  Not modelled: HTTP handlers that only encode a state that is modelled, the loading page, the web UI,
  log texts, reading the GPU tools of each operating system, the Windows and macOS variants, the tools
  under \<open>cmd\<close>, the generated \<open>pkg/apicontract\<close>, and the package \<open>proxy\<close>, the predecessor of
  \<open>internal/server\<close> and \<open>internal/router\<close> that only \<open>cmd/legacy\<close> still builds.
\<close>

end
